(* ===== verification/Prelude.thy ===== *)
theory Prelude
  imports Main "HOL-Library.Sublist" "HOL-Library.AList"
begin

text \<open>
  What every component theory of the development shares: the collections of rewrite rules,
  the abbreviations for Go's fallible results, and generic lemmas on lists and association
  lists (Go's maps are association lists with distinct keys, so that \<open>len\<close>, \<open>range\<close>,
  \<open>delete\<close> and a store are computable).

  \<^item> \<open>go_eval\<close> collects the definitions that a closed term needs to be evaluated by the
    simplifier; the witnesses use it;
  \<^item> \<open>store_simps\<close> collects the equations of the storage interface.
\<close>

named_theorems go_eval \<open>definitions unfolded when a closed term of the model is evaluated\<close>
named_theorems store_simps \<open>equations of the storage layer\<close>

declare Let_def [go_eval]

text \<open>A Go result \<open>(value, err)\<close> of which exactly one half is meaningful.\<close>

type_synonym ('e, 'a) result = "'e + 'a"

abbreviation Err :: "'e \<Rightarrow> ('e, 'a) result" where "Err \<equiv> Inl"
abbreviation Ok :: "'a \<Rightarrow> ('e, 'a) result" where "Ok \<equiv> Inr"

definition is_ok :: "('e, 'a) result \<Rightarrow> bool" where
  "is_ok r = (case r of Inl _ \<Rightarrow> False | Inr _ \<Rightarrow> True)"

lemma is_ok_simps [simp]: "is_ok (Inr a)" "\<not> is_ok (Inl e)"
  by (simp_all add: is_ok_def)

lemma is_ok_iff: "is_ok r \<longleftrightarrow> (\<exists>a. r = Inr a)"
  by (cases r) auto

subsection \<open>Lists\<close>

lemma filter_upd_mono: "length (filter P (xs[i := x])) \<le> Suc (length (filter P xs))"
proof (induction xs arbitrary: i)
  case (Cons y ys)
  have *: "length (filter P (ys[j := x])) \<le> Suc (length (filter P ys))" for j
    using Cons.IH .
  show ?case using *[of "i - 1"] by (cases i) auto
qed simp

lemma filter_upd_False:
  assumes "i < length xs" and "xs ! i" and "\<not> x"
  shows "Suc (length (filter id (xs[i := x]))) = length (filter id xs)"
  using assms
proof (induction xs arbitrary: i)
  case (Cons y ys)
  then show ?case by (cases i) auto
qed simp

lemma takeWhile_append_stop: "\<forall>x\<in>set xs. P x \<Longrightarrow> \<not> P y \<Longrightarrow> takeWhile P (xs @ y # ys) = xs"
  by (induction xs) auto

lemma dropWhile_append_stop: "\<forall>x\<in>set xs. P x \<Longrightarrow> \<not> P y \<Longrightarrow> dropWhile P (xs @ y # ys) = y # ys"
  by (induction xs) auto

lemma takeWhile_neq_id: "x \<notin> set xs \<Longrightarrow> takeWhile (\<lambda>c. c \<noteq> x) xs = xs"
  by (induction xs) auto

lemma sum_list_filter_split:
  "sum_list (map f xs) = sum_list (map f (filter P xs)) + sum_list (map f (filter (\<lambda>x. \<not> P x) xs))"
  for f :: "'a \<Rightarrow> 'b :: comm_monoid_add"
  by (induction xs) (auto simp: ac_simps)

lemma subseq_filter_left: "subseq (filter P xs) xs"
  by simp

lemma subseq_drop: "subseq (drop n xs) xs"
  by (rule suffix_imp_subseq) (rule suffix_drop)

subsection \<open>Association lists as Go maps\<close>

lemma map_of_distinct_mem:
  "distinct (map fst al) \<Longrightarrow> (k, v) \<in> set al \<longleftrightarrow> map_of al k = Some v"
  by (auto simp: map_of_eq_Some_iff)

lemma AList_delete_filter: "AList.delete k al = filter (\<lambda>p. fst p \<noteq> k) al"
  by (auto simp: AList.delete_eq intro: filter_cong)

lemma AList_delete_not_mem: "k \<notin> fst ` set al \<Longrightarrow> AList.delete k al = al"
  by (auto simp: AList_delete_filter filter_id_conv)

lemma AList_update_new: "k \<notin> fst ` set al \<Longrightarrow> AList.update k v al = al @ [(k, v)]"
  by (induction al) auto

lemma length_delete_mem:
  "distinct (map fst al) \<Longrightarrow> k \<in> fst ` set al \<Longrightarrow> Suc (length (AList.delete k al)) = length al"
proof (induction al)
  case (Cons p al)
  show ?case
  proof (cases "fst p = k")
    case True
    with Cons.prems have "k \<notin> fst ` set al" by auto
    with True show ?thesis by (simp add: AList_delete_filter)
       (metis (mono_tags, lifting) AList_delete_filter AList_delete_not_mem)
  next
    case False
    with Cons show ?thesis by (auto simp: AList_delete_filter)
  qed
qed simp

lemma distinct_delete [simp]: "distinct (map fst al) \<Longrightarrow> distinct (map fst (AList.delete k al))"
  by (simp add: distinct_delete)

lemma remove1_split:
  assumes "x \<in> set xs"
  obtains as bs where "xs = as @ x # bs" "remove1 x xs = as @ bs"
  using split_list_first [OF assms] by (auto simp: remove1_append)

end
