(* ===== verification/GoStrings.thy ===== *)
theory GoStrings
  imports Prelude
begin

text \<open>
  The parts of Go's \<open>strings\<close>, \<open>strconv\<close> and \<open>bufio\<close> packages the program uses.
  A Go string is a sequence of bytes, here a \<open>string\<close> (a list of 8-bit characters).
  Case mapping is the ASCII one: bytes from 128 on are left alone (Go maps them by their
  Unicode code points; where the program lower-cases an address it has refused such bytes
  before, and where it upper-cases a command only the spelling in an error reply differs).
\<close>

subsection \<open>Characters\<close>

definition code :: "char \<Rightarrow> nat" where
  "code c = of_char c"

definition is_lower :: "char \<Rightarrow> bool" where
  "is_lower c \<longleftrightarrow> 97 \<le> code c \<and> code c \<le> 122"

definition is_upper :: "char \<Rightarrow> bool" where
  "is_upper c \<longleftrightarrow> 65 \<le> code c \<and> code c \<le> 90"

definition is_letter :: "char \<Rightarrow> bool" where
  "is_letter c \<longleftrightarrow> is_lower c \<or> is_upper c"

definition is_digit :: "char \<Rightarrow> bool" where
  "is_digit c \<longleftrightarrow> 48 \<le> code c \<and> code c \<le> 57"

definition is_hexdigit :: "char \<Rightarrow> bool" where
  "is_hexdigit c \<longleftrightarrow> is_digit c \<or> 97 \<le> code c \<and> code c \<le> 102 \<or> 65 \<le> code c \<and> code c \<le> 70"

definition is_ascii :: "char \<Rightarrow> bool" where
  "is_ascii c \<longleftrightarrow> code c \<le> 127"

definition upper_char :: "char \<Rightarrow> char" where
  "upper_char c = (if is_lower c then char_of (code c - 32) else c)"

definition lower_char :: "char \<Rightarrow> char" where
  "lower_char c = (if is_upper c then char_of (code c + 32) else c)"

abbreviation CR :: char where "CR \<equiv> CHR 0x0D"
abbreviation LF :: char where "LF \<equiv> CHR 0x0A"
abbreviation CRLF :: string where "CRLF \<equiv> [CR, LF]"
abbreviation DQUOTE :: char where "DQUOTE \<equiv> CHR 0x22"
abbreviation BSLASH :: char where "BSLASH \<equiv> CHR 0x5C"

lemma bit_one_nat [go_eval]: "bit (Suc 0) 0 = True"
  by (simp add: bit_0)

lemmas char_eval [go_eval] =
  code_def is_lower_def is_upper_def is_letter_def is_digit_def is_hexdigit_def is_ascii_def
  upper_char_def lower_char_def char_of_def

lemma code_less: "code c < 256"
  by (simp add: code_def)

lemma code_inj [simp]: "code c = code d \<longleftrightarrow> c = d"
  by (simp add: code_def)

lemma code_char_of: "n < 256 \<Longrightarrow> code (char_of n) = n"
  by (simp add: code_def)

lemma code_lower_char: "code (lower_char c) = (if is_upper c then code c + 32 else code c)"
  by (simp add: lower_char_def code_char_of is_upper_def)

lemma code_upper_char: "code (upper_char c) = (if is_lower c then code c - 32 else code c)"
  by (auto simp: upper_char_def is_lower_def intro: code_char_of)

lemma lower_char_idem [simp]: "lower_char (lower_char c) = lower_char c"
  by (subst code_inj [symmetric]) (auto simp: code_lower_char is_upper_def)

lemma lower_char_not_upper [simp]: "\<not> is_upper (lower_char c)"
  by (auto simp: is_upper_def code_lower_char)

lemma lower_char_id: "\<not> is_upper c \<Longrightarrow> lower_char c = c"
  by (simp add: lower_char_def)

lemma lower_char_ascii [simp]: "is_ascii (lower_char c) = is_ascii c"
  by (auto simp: is_ascii_def code_lower_char is_upper_def)

subsection \<open>Package strings\<close>

definition ToUpper :: "string \<Rightarrow> string" where [go_eval]: "ToUpper = map upper_char"
definition ToLower :: "string \<Rightarrow> string" where [go_eval]: "ToLower = map lower_char"

lemma ToLower_idem [simp]: "ToLower (ToLower s) = ToLower s"
  by (simp add: ToLower_def)

lemma length_ToLower [simp]: "length (ToLower s) = length s"
  by (simp add: ToLower_def)

text \<open>\<open>strings.IndexByte\<close>: \<open>None\<close> is Go's \<open>-1\<close>.\<close>

fun IndexByte :: "string \<Rightarrow> char \<Rightarrow> nat option" where
  "IndexByte [] c = None"
| "IndexByte (x # xs) c = (if x = c then Some 0 else map_option Suc (IndexByte xs c))"

lemma IndexByte_None: "IndexByte s c = None \<longleftrightarrow> c \<notin> set s"
  by (induction s) auto

lemma IndexByte_Some: "IndexByte s c = Some n \<Longrightarrow> n < length s \<and> s ! n = c \<and> c \<notin> set (take n s)"
  by (induction s arbitrary: n) (auto split: if_splits)

lemma IndexByte_takeWhile: "IndexByte s c = Some n \<Longrightarrow> take n s = takeWhile (\<lambda>x. x \<noteq> c) s"
  by (induction s arbitrary: n) (auto split: if_splits)

lemma IndexByte_append: "c \<notin> set xs \<Longrightarrow> IndexByte (xs @ c # ys) c = Some (length xs)"
  by (induction xs) auto

definition HasPrefix :: "string \<Rightarrow> string \<Rightarrow> bool" where
  [go_eval]: "HasPrefix s p \<longleftrightarrow> take (length p) s = p"

definition TrimLeft :: "string \<Rightarrow> string \<Rightarrow> string" where
  [go_eval]: "TrimLeft s cutset = dropWhile (\<lambda>c. c \<in> set cutset) s"

definition TrimRight :: "string \<Rightarrow> string \<Rightarrow> string" where
  [go_eval]: "TrimRight s cutset = rev (dropWhile (\<lambda>c. c \<in> set cutset) (rev s))"

definition Trim :: "string \<Rightarrow> string \<Rightarrow> string" where
  [go_eval]: "Trim s cutset = TrimRight (TrimLeft s cutset) cutset"

lemma TrimRight_id: "s = [] \<or> last s \<notin> set cs \<Longrightarrow> TrimRight s cs = s"
  by (cases s rule: rev_cases) (auto simp: TrimRight_def)

lemma TrimLeft_id: "s = [] \<or> hd s \<notin> set cs \<Longrightarrow> TrimLeft s cs = s"
  by (cases s) (auto simp: TrimLeft_def)

lemma set_TrimRight: "set (TrimRight s cs) \<subseteq> set s"
  by (auto simp: TrimRight_def dest: set_dropWhileD)

text \<open>\<open>strings.Split\<close> with a one-byte separator, and \<open>strings.SplitN\<close> with \<open>n > 0\<close>.\<close>

fun Split :: "string \<Rightarrow> char \<Rightarrow> string list" where
  "Split [] sep = [[]]"
| "Split (c # cs) sep =
     (if c = sep then [] # Split cs sep
      else (case Split cs sep of [] \<Rightarrow> [[c]] | w # ws \<Rightarrow> (c # w) # ws))"

fun SplitN :: "string \<Rightarrow> char \<Rightarrow> nat \<Rightarrow> string list" where
  "SplitN s sep 0 = []"
| "SplitN s sep (Suc 0) = [s]"
| "SplitN s sep (Suc (Suc n)) =
     (case IndexByte s sep of None \<Rightarrow> [s] | Some i \<Rightarrow> take i s # SplitN (drop (Suc i) s) sep (Suc n))"

lemma Split_nonempty [simp]: "Split s sep \<noteq> []"
  by (induction s) (auto split: list.split)

lemma Split_no_sep: "sep \<notin> set s \<Longrightarrow> Split s sep = [s]"
  by (induction s) auto

lemma Split_append: "sep \<notin> set w \<Longrightarrow> Split (w @ sep # s) sep = w # Split s sep"
  by (induction w) auto

lemma SplitN_nonempty: "0 < n \<Longrightarrow> SplitN s sep n \<noteq> []"
  by (induction s sep n rule: SplitN.induct) (auto split: option.split)

text \<open>\<open>strings.Join\<close>: the words with a separator between them.\<close>

fun Join :: "string list \<Rightarrow> string \<Rightarrow> string" where
  "Join [] sep = []"
| "Join [w] sep = w"
| "Join (w # v # ws) sep = w @ sep @ Join (v # ws) sep"

lemma Join_Cons: "ws \<noteq> [] \<Longrightarrow> Join (w # ws) sep = w @ sep @ Join ws sep"
  by (cases ws) auto

lemma Join_Split: "Join (Split s sep) [sep] = s"
proof (induction s)
  case (Cons c cs)
  obtain w ws where "Split cs sep = w # ws" by (cases "Split cs sep") auto
  with Cons show ?case by (cases ws) auto
qed simp

subsection \<open>Package strconv\<close>

definition digit_char :: "nat \<Rightarrow> char" where
  [go_eval]: "digit_char d = ''0123456789'' ! d"

fun Utoa :: "nat \<Rightarrow> string" where
  "Utoa n = (if n < 10 then [digit_char n] else Utoa (n div 10) @ [digit_char (n mod 10)])"

declare Utoa.simps [simp del, go_eval]

text \<open>\<open>strconv.Itoa\<close> and the \<open>%v\<close> verb on integers.\<close>

definition Itoa :: "int \<Rightarrow> string" where
  [go_eval]: "Itoa i = (if i < 0 then CHR ''-'' # Utoa (nat (- i)) else Utoa (nat i))"

definition digit_val :: "char \<Rightarrow> nat" where
  [go_eval]: "digit_val c = code c - 48"

definition dec_val :: "string \<Rightarrow> nat" where
  [go_eval]: "dec_val s = foldl (\<lambda>n c. 10 * n + digit_val c) 0 s"

text \<open>
  \<open>strconv.ParseInt(s, 10, bits)\<close>: an optional sign, at least one digit and nothing else,
  and the value in the range of a signed integer of that width; \<open>None\<close> stands for either
  of its errors (\<open>ErrSyntax\<close>, \<open>ErrRange\<close>), which no caller tells apart.
\<close>

definition ParseInt :: "nat \<Rightarrow> string \<Rightarrow> int option" where
  [go_eval]: "ParseInt bits s =
     (let (neg, ds) = (case s of
            c # cs \<Rightarrow> if c = CHR ''-'' then (True, cs) else if c = CHR ''+'' then (False, cs) else (False, s)
          | [] \<Rightarrow> (False, []))
      in if ds = [] \<or> \<not> list_all is_digit ds then None
         else let v = (if neg then - int (dec_val ds) else int (dec_val ds))
              in if v < - (2 ^ (bits - 1)) \<or> 2 ^ (bits - 1) \<le> v then None else Some v)"

text \<open>\<open>strconv.ParseUint(s, 10, bits)\<close>.\<close>

definition ParseUint :: "nat \<Rightarrow> string \<Rightarrow> nat option" where
  [go_eval]: "ParseUint bits s =
     (if s = [] \<or> \<not> list_all is_digit s \<or> 2 ^ bits \<le> dec_val s then None else Some (dec_val s))"

lemma digit_char_code: "d < 10 \<Longrightarrow> code (digit_char d) = 48 + d"
proof -
  assume "d < 10"
  then have "d = 0 \<or> d = 1 \<or> d = 2 \<or> d = 3 \<or> d = 4 \<or> d = 5 \<or> d = 6 \<or> d = 7 \<or> d = 8 \<or> d = 9"
    by arith
  then show ?thesis by (elim disjE) (simp_all add: digit_char_def code_def)
qed

lemma digit_val_digit_char [simp]: "d < 10 \<Longrightarrow> digit_val (digit_char d) = d"
  by (simp add: digit_val_def digit_char_code)

lemma is_digit_digit_char [simp]: "d < 10 \<Longrightarrow> is_digit (digit_char d)"
  by (simp add: is_digit_def digit_char_code)

lemma Utoa_digits: "list_all is_digit (Utoa n)"
  by (induction n rule: Utoa.induct) (subst Utoa.simps, auto)

lemma Utoa_nonempty [simp]: "Utoa n \<noteq> []"
  by (subst Utoa.simps) auto

lemma dec_val_Utoa [simp]: "dec_val (Utoa n) = n"
proof (induction n rule: Utoa.induct)
  case (1 n)
  show ?case
  proof (cases "n < 10")
    case True
    then show ?thesis by (subst Utoa.simps) (simp add: dec_val_def)
  next
    case False
    with "1" have "dec_val (Utoa (n div 10)) = n div 10" by simp
    with False show ?thesis by (subst Utoa.simps) (simp add: dec_val_def)
  qed
qed

lemma Utoa_inj [simp]: "Utoa m = Utoa n \<longleftrightarrow> m = n"
  by (metis dec_val_Utoa)

lemma Utoa_hd_digit: "is_digit (hd (Utoa n))"
  using Utoa_digits [of n] by (cases "Utoa n") auto

lemma ParseInt_range: "ParseInt bits s = Some v \<Longrightarrow> - (2 ^ (bits - 1)) \<le> v \<and> v < 2 ^ (bits - 1)"
  by (auto simp: ParseInt_def Let_def split: if_splits prod.splits)

lemma ParseInt_Utoa: "int n < 2 ^ (bits - 1) \<Longrightarrow> ParseInt bits (Utoa n) = Some (int n)"
proof -
  assume n: "int n < 2 ^ (bits - 1)"
  obtain c cs where u: "Utoa n = c # cs" by (cases "Utoa n") auto
  with Utoa_hd_digit [of n] have "is_digit c" by simp
  then have "c \<noteq> CHR ''-''" "c \<noteq> CHR ''+''" by (auto simp: is_digit_def code_def)
  moreover have "(0::int) \<le> 2 ^ (bits - 1)" by simp
  then have "\<not> int n < - (2 ^ (bits - 1))" by linarith
  ultimately show ?thesis
    using n Utoa_digits [of n] dec_val_Utoa [of n] by (simp add: ParseInt_def u)
qed

text \<open>\<open>%0nd\<close> of a number that is not negative.\<close>

definition pad0 :: "nat \<Rightarrow> string \<Rightarrow> string" where
  [go_eval]: "pad0 n s = replicate (n - length s) CHR ''0'' @ s"

text \<open>\<open>encoding/hex\<close>.\<close>

definition hex_digit :: "nat \<Rightarrow> char" where
  [go_eval]: "hex_digit n = (if n < 10 then char_of (48 + n) else char_of (87 + n))"

definition EncodeToString :: "string \<Rightarrow> string" where
  [go_eval]: "EncodeToString s = concat (map (\<lambda>c. [hex_digit (code c div 16), hex_digit (code c mod 16)]) s)"

end
