(* ===== verification/StringUtil.thy ===== *)
theory StringUtil
  imports GoStrings
begin

text \<open>
  \<open>pkg/stringutil/utils.go\<close>: address rendering, slices of strings, the URL path prefixer and
  the wildcard matcher. The matcher fills its table row by row, as the code does; its
  specification \<open>wild_match\<close> says which strings a pattern denotes, and the two agree on every
  input that has no \<open>*\<close> of its own (\<open>MatchWithWildcards_iff\<close>). Where the input has one, the
  second \<open>if\<close> of the code's inner loop overwrites the star's cell, and they differ
  (\<open>MatchWithWildcards_star_input\<close>). Bytes stand for the runes of
  the matcher, which is the same on ASCII inputs (all that reach it: the validated domain of a sender).
  The digest of \<open>HashMailboxName\<close> is
  a parameter, the function of \<open>crypto/sha1\<close>.
\<close>

record address =
  Name :: string
  Address :: string

definition HashMailboxName :: "(string \<Rightarrow> string) \<Rightarrow> string \<Rightarrow> string" where
  [go_eval]: "HashMailboxName sha1 mailbox = EncodeToString (sha1 mailbox)"

definition StringAddress :: "address option \<Rightarrow> string" where
  [go_eval]: "StringAddress a =
     (case a of None \<Rightarrow> []
      | Some a \<Rightarrow> (if Name a \<noteq> [] then Name a @ '' '' else [])
                @ (if Address a \<noteq> [] then ''<'' @ Address a @ ''>'' else []))"

definition StringAddressList :: "address option list \<Rightarrow> string list" where
  [go_eval]: "StringAddressList addrs = map StringAddress addrs"

fun SliceContains :: "string list \<Rightarrow> string \<Rightarrow> bool" where
  "SliceContains [] s = False"
| "SliceContains (v # vs) s = (if s = v then True else SliceContains vs s)"

definition SliceToLower :: "string list \<Rightarrow> string list" where
  [go_eval]: "SliceToLower slice = map ToLower slice"

definition MakePathPrefixer :: "string \<Rightarrow> string \<Rightarrow> string" where
  [go_eval]: "MakePathPrefixer pre path =
     (let p = Trim pre ''/''; p = (if p \<noteq> [] then ''/'' @ p else p) in p @ path)"

lemma SliceContains_iff: "SliceContains vs s \<longleftrightarrow> s \<in> set vs"
  by (induction vs) auto

lemma SliceToLower_mem: "s \<in> set (SliceToLower vs) \<Longrightarrow> ToLower s = s"
  by (auto simp: SliceToLower_def)

subsection \<open>The wildcard matcher\<close>

text \<open>
  \<open>isMatchingMatrix[0]\<close>: \<open>wild_row0 b p\<close> are the cells after one whose value is \<open>b\<close>.
\<close>

fun wild_row0 :: "bool \<Rightarrow> string \<Rightarrow> bool list" where
  "wild_row0 b [] = []"
| "wild_row0 b (x # p) =
     (let cell = (if x = CHR ''*'' then b else False) in cell # wild_row0 cell p)"

text \<open>
  One pass of the inner loop: \<open>c\<close> is \<open>runeInput[i-1]\<close>, \<open>diag\<close> is \<open>M[i-1][j-1]\<close>, \<open>left\<close> is
  \<open>M[i][j-1]\<close> and \<open>ups\<close> the rest of row \<open>i - 1\<close>, from \<open>M[i-1][j]\<close> on. The second
  conditional assignment of the loop body overwrites the first.
\<close>

fun wild_row :: "char \<Rightarrow> bool \<Rightarrow> bool \<Rightarrow> bool list \<Rightarrow> string \<Rightarrow> bool list" where
  "wild_row c diag left (up # ups) (x # p) =
     (let cell = (if x = CHR ''*'' then up \<or> left else False);
          cell = (if x = CHR ''?'' \<or> c = x then diag else cell)
      in cell # wild_row c up cell ups p)"
| "wild_row c diag left ups p = []"

fun wild_rows :: "bool list \<Rightarrow> string \<Rightarrow> string \<Rightarrow> bool list" where
  "wild_rows row p [] = row"
| "wild_rows row p (c # s) = wild_rows (False # wild_row c (hd row) False (tl row) p) p s"

definition MatchWithWildcards :: "string \<Rightarrow> string \<Rightarrow> bool" where
  [go_eval]: "MatchWithWildcards p s = last (wild_rows (True # wild_row0 True p) p s)"

text \<open>What a pattern denotes: a \<open>*\<close> is any word, a \<open>?\<close> any byte, another byte is itself.\<close>

definition wild_word :: "char \<Rightarrow> string \<Rightarrow> bool" where
  "wild_word x w \<longleftrightarrow>
     (if x = CHR ''*'' then True else if x = CHR ''?'' then length w = 1 else w = [x])"

definition wild_match :: "string \<Rightarrow> string \<Rightarrow> bool" where
  "wild_match p s \<longleftrightarrow> (\<exists>ws. list_all2 wild_word p ws \<and> concat ws = s)"

lemma wild_match_Nil [simp]: "wild_match [] s \<longleftrightarrow> s = []"
  by (auto simp: wild_match_def)

lemma wild_match_snoc:
  "wild_match (p @ [x]) s \<longleftrightarrow> (\<exists>u w. s = u @ w \<and> wild_match p u \<and> wild_word x w)"
proof
  assume "wild_match (p @ [x]) s"
  then obtain ws w where "list_all2 wild_word p ws" "wild_word x w" "concat (ws @ [w]) = s"
    by (auto simp: wild_match_def list_all2_append1 list_all2_Cons1)
  then show "\<exists>u w. s = u @ w \<and> wild_match p u \<and> wild_word x w"
    by (auto simp: wild_match_def)
next
  assume "\<exists>u w. s = u @ w \<and> wild_match p u \<and> wild_word x w"
  then obtain ws w where "list_all2 wild_word p ws" "wild_word x w" "s = concat (ws @ [w])"
    by (auto simp: wild_match_def)
  then show "wild_match (p @ [x]) s"
    unfolding wild_match_def by (intro exI [of _ "ws @ [w]"]) (simp add: list_all2_appendI)
qed

lemma wild_match_star_Nil: "wild_match (p @ [CHR ''*'']) [] \<longleftrightarrow> wild_match p []"
  by (auto simp: wild_match_snoc wild_word_def)

lemma wild_match_star_snoc:
  "wild_match (p @ [CHR ''*'']) (s @ [c]) \<longleftrightarrow> wild_match (p @ [CHR ''*'']) s \<or> wild_match p (s @ [c])"
  (is "?L \<longleftrightarrow> ?R")
proof
  assume ?L
  then obtain u w where uw: "s @ [c] = u @ w" "wild_match p u"
    by (auto simp: wild_match_snoc)
  then show ?R
    by (cases w rule: rev_cases) (auto simp: wild_match_snoc wild_word_def)
next
  assume ?R
  then show ?L
    unfolding wild_match_snoc wild_word_def
    by (metis append.assoc append_Nil2)
qed

lemma wild_match_other_Nil: "x \<noteq> CHR ''*'' \<Longrightarrow> \<not> wild_match (p @ [x]) []"
  by (auto simp: wild_match_snoc wild_word_def split: if_splits)

lemma wild_match_other_snoc:
  "x \<noteq> CHR ''*'' \<Longrightarrow>
   wild_match (p @ [x]) (s @ [c]) \<longleftrightarrow> (x = CHR ''?'' \<or> c = x) \<and> wild_match p s"
  by (auto simp: wild_match_snoc wild_word_def length_Suc_conv)

text \<open>The row of the table for the input read so far: cell \<open>j\<close> is the first \<open>j\<close> pattern bytes.\<close>

definition wild_cells :: "string \<Rightarrow> string \<Rightarrow> string \<Rightarrow> bool list" where
  "wild_cells q p s = map (\<lambda>j. wild_match (q @ take (Suc j) p) s) [0..<length p]"

lemma wild_cells_Nil [simp]: "wild_cells q [] s = []"
  by (simp add: wild_cells_def)

lemma wild_cells_Cons:
  "wild_cells q (x # p) s = wild_match (q @ [x]) s # wild_cells (q @ [x]) p s"
  by (simp add: wild_cells_def upt_conv_Cons map_Suc_upt [symmetric] del: upt_Suc)

lemma wild_row0_cells: "b = wild_match q [] \<Longrightarrow> wild_row0 b p = wild_cells q p []"
proof (induction p arbitrary: b q)
  case (Cons x p)
  have "(if x = CHR ''*'' then b else False) = wild_match (q @ [x]) []"
    using Cons.prems by (auto simp: wild_match_star_Nil wild_match_other_Nil)
  with Cons.IH show ?case by (simp add: wild_cells_Cons Let_def)
qed simp

lemma wild_row_cells:
  assumes "c \<noteq> CHR ''*''"
  shows "diag = wild_match q s \<Longrightarrow> left = wild_match q (s @ [c]) \<Longrightarrow>
    wild_row c diag left (wild_cells q p s) p = wild_cells q p (s @ [c])"
proof (induction p arbitrary: q diag left)
  case (Cons x p)
  let ?up = "wild_match (q @ [x]) s"
  let ?cell = "if x = CHR ''?'' \<or> c = x then diag else if x = CHR ''*'' then ?up \<or> left else False"
  have "?cell = wild_match (q @ [x]) (s @ [c])"
    using Cons.prems assms by (auto simp: wild_match_star_snoc wild_match_other_snoc)
  with Cons.IH [of ?up "q @ [x]" ?cell] show ?case
    by (simp add: wild_cells_Cons Let_def)
qed simp

lemma wild_rows_cells:
  assumes "CHR ''*'' \<notin> set s"
  shows "wild_rows (wild_match [] u # wild_cells [] p u) p s
       = wild_match [] (u @ s) # wild_cells [] p (u @ s)"
  using assms
proof (induction s arbitrary: u)
  case (Cons c s)
  then have "wild_row c (wild_match [] u) False (wild_cells [] p u) p = wild_cells [] p (u @ [c])"
    by (intro wild_row_cells) auto
  with Cons.IH [of "u @ [c]"] Cons.prems show ?case by simp
qed simp

lemma last_wild_cells: "last (wild_match [] s # wild_cells [] p s) = wild_match p s"
  by (cases p rule: rev_cases) (auto simp: wild_cells_def)

lemma wild_rows_match:
  assumes "CHR ''*'' \<notin> set s"
  shows "last (wild_rows (True # wild_row0 True p) p s) = wild_match p s"
proof -
  have "True # wild_row0 True p = wild_match [] [] # wild_cells [] p []"
    by (simp add: wild_row0_cells [of _ "[]"])
  with wild_rows_cells [OF assms, of "[]" p] last_wild_cells [of s p]
  show ?thesis by (simp del: last.simps)
qed

text \<open>
  On an input without a star of its own, the table-filling matcher accepts exactly the
  strings the pattern denotes (a star any word, a question mark any byte).
\<close>
theorem MatchWithWildcards_iff:
  assumes "CHR ''*'' \<notin> set s"
  shows "MatchWithWildcards p s \<longleftrightarrow> wild_match p s"
  unfolding MatchWithWildcards_def by (rule wild_rows_match [OF assms])

theorem MatchWithWildcards_iff_witness:
  "(MatchWithWildcards ''*.foo?'' ''a.b.foo9'' \<longleftrightarrow> wild_match ''*.foo?'' ''a.b.foo9'')
   \<and> MatchWithWildcards ''*.foo?'' ''a.b.foo9''"
  using MatchWithWildcards_iff [of "''a.b.foo9''" "''*.foo?''"] by (simp add: MatchWithWildcards_def)

text \<open>
  The cell of a star is overwritten when the input byte is itself a star: the pattern \<open>*\<close>
  denotes every string, and the matcher refuses \<open>x*\<close>.
\<close>
lemma MatchWithWildcards_star_input:
  "wild_match ''*'' ''x*'' \<and> \<not> MatchWithWildcards ''*'' ''x*''"
proof
  show "wild_match ''*'' ''x*''"
    unfolding wild_match_def by (rule exI [of _ "[''x*'']"]) (simp add: wild_word_def)
  show "\<not> MatchWithWildcards ''*'' ''x*''" by (simp add: MatchWithWildcards_def)
qed

end
