(* ===== verification/Config.thy ===== *)
theory Config
  imports StringUtil
begin

text \<open>
  \<open>pkg/config/config.go\<close>: the configuration records and the mailbox naming strategies.
  Durations are integers (nanoseconds, as in Go). Reading the environment is
  \<open>envconfig.Process\<close>, a third-party package: \<open>Process\<close> takes the record it filled.
\<close>

datatype mbNaming = UnknownNaming | LocalNaming | FullNaming | DomainNaming

definition mbNaming_Decode :: "string \<Rightarrow> mbNaming option" where
  [go_eval]: "mbNaming_Decode v =
     (let v = ToLower v in
      if v = ''local'' then Some LocalNaming
      else if v = ''full'' then Some FullNaming
      else if v = ''domain'' then Some DomainNaming
      else None)"

record lua_config =
  lua_Path :: string

record smtp_config =
  smtp_Addr :: string
  smtp_Domain :: string
  MaxRecipients :: int
  MaxMessageBytes :: int
  DefaultAccept :: bool
  AcceptDomains :: "string list"
  RejectDomains :: "string list"
  DefaultStore :: bool
  StoreDomains :: "string list"
  DiscardDomains :: "string list"
  RejectOriginDomains :: "string list"
  smtp_Timeout :: int
  smtp_TLSEnabled :: bool
  smtp_TLSPrivKey :: string
  smtp_TLSCert :: string
  smtp_Debug :: bool
  smtp_ForceTLS :: bool

record pop3_config =
  pop3_Addr :: string
  pop3_Domain :: string
  pop3_Timeout :: int
  pop3_Debug :: bool
  pop3_TLSEnabled :: bool
  pop3_TLSPrivKey :: string
  pop3_TLSCert :: string
  pop3_ForceTLS :: bool

record web_config =
  web_Addr :: string
  BasePath :: string
  UIDir :: string
  GreetingFile :: string
  MonitorVisible :: bool
  MonitorHistory :: int
  PProf :: bool

record storage_config =
  Type :: string
  Params :: "(string \<times> string) list"
  RetentionPeriod :: int
  RetentionSleep :: int
  MailboxMsgCap :: int

record Root =
  LogLevel :: string
  Lua :: lua_config
  MailboxNaming :: mbNaming
  SMTP :: smtp_config
  POP3 :: pop3_config
  Web :: web_config
  Storage :: storage_config

definition lower_smtp :: "smtp_config \<Rightarrow> smtp_config" where
  [go_eval]: "lower_smtp c = c
     \<lparr>AcceptDomains := SliceToLower (AcceptDomains c),
      RejectDomains := SliceToLower (RejectDomains c),
      StoreDomains := SliceToLower (StoreDomains c),
      DiscardDomains := SliceToLower (DiscardDomains c),
      RejectOriginDomains := SliceToLower (RejectOriginDomains c)\<rparr>"

text \<open>\<open>Process\<close>: \<open>c\<close> and \<open>err\<close> are what \<open>envconfig.Process\<close> filled in and returned.\<close>

definition Process :: "Root \<Rightarrow> bool \<Rightarrow> Root \<times> bool" where
  [go_eval]: "Process c err = (c\<lparr>LogLevel := ToLower (LogLevel c), SMTP := lower_smtp (SMTP c)\<rparr>, err)"

lemma mbNaming_Decode_known: "mbNaming_Decode v \<noteq> Some UnknownNaming"
  by (simp add: mbNaming_Decode_def Let_def)

text \<open>A configuration as \<open>Process\<close> leaves it: its domain lists are in lower case.\<close>

definition lower_list :: "string list \<Rightarrow> bool" where
  "lower_list ds \<longleftrightarrow> (\<forall>d\<in>set ds. ToLower d = d)"

definition processed :: "smtp_config \<Rightarrow> bool" where
  "processed c \<longleftrightarrow> lower_list (AcceptDomains c) \<and> lower_list (RejectDomains c)
     \<and> lower_list (StoreDomains c) \<and> lower_list (DiscardDomains c)
     \<and> lower_list (RejectOriginDomains c)"

lemma lower_list_SliceToLower [simp]: "lower_list (SliceToLower ds)"
  by (auto simp: lower_list_def SliceToLower_def)

lemma processed_Process: "processed (SMTP (fst (Process c err)))"
  by (simp add: processed_def Process_def lower_smtp_def)

end
