(* ===== verification/IpAddr.thy ===== *)
theory IpAddr
  imports GoStrings
begin

text \<open>
  Go's \<open>net.ParseIP\<close>, as far as the program uses it: whether a string is an IP address.
  \<open>ParseIP\<close> asks \<open>netip.ParseAddr\<close> and refuses an address with a zone. The definitions
  follow the library's parser: the first of \<open>. : %\<close> in the string chooses the format, an
  IPv4 address is four decimal fields without leading zeros, an IPv6 address is a sequence of
  16-bit groups with at most one ellipsis and an optional IPv4 tail.
\<close>

text \<open>
  \<open>parseIPv4Fields\<close>: \<open>prev\<close> is \<open>s[i-1]\<close> (\<open>None\<close> at the start), \<open>pos\<close> the field, \<open>digLen\<close> and
  \<open>val\<close> the digits of the field read so far.
\<close>

fun ipv4_loop :: "char option \<Rightarrow> nat \<Rightarrow> nat \<Rightarrow> nat \<Rightarrow> string \<Rightarrow> bool" where
  "ipv4_loop prev pos digLen v [] = (3 \<le> pos)"
| "ipv4_loop prev pos digLen v (c # cs) =
     (if is_digit c then
        (if digLen = 1 \<and> v = 0 then False
         else if 10 * v + digit_val c > 255 then False
         else ipv4_loop (Some c) pos (Suc digLen) (10 * v + digit_val c) cs)
      else if c = CHR ''.'' then
        (if prev = None \<or> cs = [] \<or> prev = Some (CHR ''.'') then False
         else if pos = 3 then False
         else ipv4_loop (Some c) (Suc pos) 0 0 cs)
      else False)"

definition ipv4_ok :: "string \<Rightarrow> bool" where
  [go_eval]: "ipv4_ok s = ipv4_loop None 0 0 0 s"

text \<open>
  \<open>parseIPv6\<close>: a group is one to four hexadecimal digits. \<open>i\<close> counts the bytes filled, \<open>ell\<close>
  tells that the ellipsis was seen; at the end either all 16 bytes are filled and there was no
  ellipsis, or fewer and there was one. The group count bounds the loop (\<open>k\<close> groups are left).
\<close>

fun ipv6_loop :: "nat \<Rightarrow> nat \<Rightarrow> bool \<Rightarrow> string \<Rightarrow> bool" where
  "ipv6_loop 0 i ell s = (s = [] \<and> \<not> ell)"
| "ipv6_loop (Suc k) i ell s =
     (let off = length (takeWhile is_hexdigit s); rest = drop off s in
      if off > 4 \<or> off = 0 then False
      else if rest \<noteq> [] \<and> hd rest = CHR ''.'' then
        (if \<not> ell \<and> i \<noteq> 12 then False
         else if i + 4 > 16 then False
         else ipv4_ok s \<and> (if i + 4 < 16 then ell else \<not> ell))
      else if rest = [] then (if i + 2 < 16 then ell else \<not> ell)
      else if hd rest \<noteq> CHR '':'' then False
      else if tl rest = [] then False
      else if hd (tl rest) = CHR '':'' then
        (if ell then False
         else if tl (tl rest) = [] then i + 2 < 16
         else ipv6_loop k (i + 2) True (tl (tl rest)))
      else ipv6_loop k (i + 2) ell (tl rest))"

definition ipv6_ok :: "string \<Rightarrow> bool" where
  [go_eval]: "ipv6_ok s =
     (if CHR ''%'' \<in> set s then False
      else if HasPrefix s ''::'' then (if drop 2 s = [] then True else ipv6_loop 8 0 True (drop 2 s))
      else ipv6_loop 8 0 False s)"

fun ParseIP_from :: "string \<Rightarrow> string \<Rightarrow> bool" where
  "ParseIP_from s [] = False"
| "ParseIP_from s (c # cs) =
     (if c = CHR ''.'' then ipv4_ok s
      else if c = CHR '':'' then ipv6_ok s
      else if c = CHR ''%'' then False
      else ParseIP_from s cs)"

definition ParseIP :: "string \<Rightarrow> bool" where
  [go_eval]: "ParseIP s = ParseIP_from s s"

lemma ParseIP_nonempty: "ParseIP s \<Longrightarrow> s \<noteq> []"
  by (auto simp: ParseIP_def)

lemma ParseIP_examples:
  "ParseIP ''127.0.0.1''" "\<not> ParseIP ''127.0.0.01''" "\<not> ParseIP ''256.0.0.1''" "\<not> ParseIP ''1.2.3''"
  "ParseIP ''2001:db8::1''" "ParseIP ''::ffff:1.2.3.4''" "\<not> ParseIP ''1:2:3:4:5:6:7:8:9''"
  "ParseIP ''1:2:3:4:5:6:7:8''" "ParseIP ''::''" "\<not> ParseIP ''1::2::3''" "\<not> ParseIP ''fe80::1%eth0''"
  by (simp_all add: go_eval eval_nat_numeral)

end
