(* ===== verification/Policy.thy ===== *)
theory Policy
  imports Config IpAddr
begin

text \<open>
  \<open>pkg/policy\<close>: the address parser and the accept and store policies (\<open>address.go\<close>,
  \<open>origin.go\<close>, \<open>recipient.go\<close>). The two byte loops of \<open>parseEmailAddress\<close> and
  \<open>ValidateDomainPart\<close> are recursions over the bytes with the loop's variables as
  arguments; every error return is a constructor of \<open>addr_error\<close>. The proofs relate the
  loops to a grammar of domains and of unquoted local parts.
\<close>

subsection \<open>Errors and data\<close>

datatype addr_error =
    EmptyAddress | AddressTooLong | MissingRouteColon | EmptyAfterRoute | LeadingPeriod
  | PeriodSequence | QuoteNotAtStart | LocalTooLong | TrailingPeriod | NonAscii
  | MustQuote char | UnterminatedPair | UnterminatedQuote
  | DomainInvalid | MailboxEmpty | MailboxInvalid string | UnknownNamingValue

record Addressing =
  aConfig :: Root

record Origin =
  oAddress :: address
  oPolicy :: Addressing
  oLocalPart :: string
  oDomain :: string

record Recipient =
  rAddress :: address
  rPolicy :: Addressing
  rLocalPart :: string
  rDomain :: string
  rMailbox :: string

abbreviation mail_address :: "string \<Rightarrow> address" where
  "mail_address a \<equiv> \<lparr>Name = [], Address = a\<rparr>"

subsection \<open>Domain validation\<close>

text \<open>The label loop of \<open>ValidateDomainPart\<close>: \<open>prev\<close>, \<open>labelLen\<close>, \<open>hasAlphaNum\<close>.\<close>

definition label_char :: "char \<Rightarrow> bool" where
  [go_eval]: "label_char c \<longleftrightarrow> is_letter c \<or> is_digit c \<or> c = CHR ''_''"

fun label_loop :: "char \<Rightarrow> nat \<Rightarrow> bool \<Rightarrow> string \<Rightarrow> bool" where
  "label_loop prev labelLen hasAlphaNum [] = True"
| "label_loop prev labelLen hasAlphaNum (c # cs) =
     (if label_char c then label_loop c (Suc labelLen) True cs
      else if c = CHR ''-'' then
        (if prev = CHR ''.'' \<or> prev = CHR ''-'' then False
         else label_loop c labelLen hasAlphaNum cs)
      else if c = CHR ''.'' then
        (if prev = CHR ''.'' \<or> prev = CHR ''-'' then False
         else if labelLen > 63 then False
         else if \<not> hasAlphaNum then False
         else label_loop c 0 False cs)
      else False)"

definition ValidateDomainPart :: "string \<Rightarrow> bool" where
  [go_eval]: "ValidateDomainPart domain =
     (let ln = length domain in
      if ln = 0 then False
      else if ln > 255 then False
      else if ln \<ge> 4 \<and> hd domain = CHR ''['' \<and> last domain = CHR '']'' then
        (let s = (if HasPrefix (tl domain) ''IPv6:'' then 6 else 1)
         in ParseIP (drop s (take (ln - 1) domain)))
      else label_loop (CHR ''.'') 0 False
             (if last domain \<noteq> CHR ''.'' then domain @ ''.'' else domain))"

subsection \<open>Splitting an address\<close>

definition atext_specials :: string where
  [go_eval]: "atext_specials = ''!#$%&'*+-/=?^_`{|}~''"

text \<open>
  The part of \<open>parseEmailAddress\<close> after its loop; \<open>domain\<close> is what follows the \<open>@\<close>.
\<close>

definition local_end :: "bool \<Rightarrow> bool \<Rightarrow> string \<Rightarrow> string \<Rightarrow> (addr_error, string \<times> string) result" where
  [go_eval]: "local_end inCharQuote inStringQuote buf domain =
     (if inCharQuote then Err UnterminatedPair
      else if inStringQuote then Err UnterminatedQuote
      else Ok (buf, domain))"

text \<open>The loop: \<open>i\<close> is the index, \<open>buf\<close> the local part so far.\<close>

fun local_loop :: "nat \<Rightarrow> char \<Rightarrow> bool \<Rightarrow> bool \<Rightarrow> string \<Rightarrow> string
    \<Rightarrow> (addr_error, string \<times> string) result" where
  "local_loop i prev inCharQuote inStringQuote buf [] = local_end inCharQuote inStringQuote buf []"
| "local_loop i prev inCharQuote inStringQuote buf (c # cs) =
     (if is_letter c then local_loop (Suc i) c False inStringQuote (buf @ [c]) cs
      else if is_digit c then local_loop (Suc i) c False inStringQuote (buf @ [c]) cs
      else if c \<in> set atext_specials then local_loop (Suc i) c False inStringQuote (buf @ [c]) cs
      else if c = CHR ''.'' then
        (if prev = CHR ''.'' then Err PeriodSequence
         else local_loop (Suc i) c False inStringQuote (buf @ [c]) cs)
      else if c = BSLASH then local_loop (Suc i) c True inStringQuote buf cs
      else if c = DQUOTE then
        (if inCharQuote then local_loop (Suc i) c False inStringQuote (buf @ [c]) cs
         else if inStringQuote then local_loop (Suc i) c inCharQuote False buf cs
         else if i = 0 then local_loop (Suc i) c inCharQuote True buf cs
         else Err QuoteNotAtStart)
      else if c = CHR ''@'' then
        (if inCharQuote \<or> inStringQuote
         then local_loop (Suc i) c False inStringQuote (buf @ [c]) cs
         else if i > 128 then Err LocalTooLong
         else if prev = CHR ''.'' then Err TrailingPeriod
         else local_end inCharQuote inStringQuote buf cs)
      else if code c > 127 then Err NonAscii
      else if inCharQuote \<or> inStringQuote
        then local_loop (Suc i) c False inStringQuote (buf @ [c]) cs
      else Err (MustQuote c))"

definition strip_route :: "string \<Rightarrow> (addr_error, string) result" where
  [go_eval]: "strip_route address =
     (if hd address = CHR ''@'' then
        (case IndexByte address (CHR '':'') of
           None \<Rightarrow> Err MissingRouteColon
         | Some e \<Rightarrow> if drop (Suc e) address = [] then Err EmptyAfterRoute
                     else Ok (drop (Suc e) address))
      else Ok address)"

definition parseEmailAddress :: "string \<Rightarrow> (addr_error, string \<times> string) result" where
  [go_eval]: "parseEmailAddress address =
     (if address = [] then Err EmptyAddress
      else if length address > 320 then Err AddressTooLong
      else (case strip_route address of
              Inl e \<Rightarrow> Err e
            | Inr address \<Rightarrow>
                if hd address = CHR ''.'' then Err LeadingPeriod
                else local_loop 0 (CHR ''.'') False False [] address))"

definition ParseEmailAddress :: "string \<Rightarrow> (addr_error, string \<times> string) result" where
  [go_eval]: "ParseEmailAddress address =
     (case parseEmailAddress address of
        Inl e \<Rightarrow> Err e
      | Inr (local, domain) \<Rightarrow>
          if \<not> ValidateDomainPart domain then Err DomainInvalid else Ok (local, domain))"

subsection \<open>Mailbox names\<close>

definition mailbox_char :: "char \<Rightarrow> bool" where
  [go_eval]: "mailbox_char c \<longleftrightarrow> is_lower c \<or> is_digit c \<or> c = CHR ''.'' \<or> c \<in> set atext_specials"

definition parseMailboxName :: "string \<Rightarrow> (addr_error, string) result" where
  [go_eval]: "parseMailboxName localPart =
     (if localPart = [] then Err MailboxEmpty
      else let result = ToLower localPart;
               invalid = filter (\<lambda>c. \<not> mailbox_char c) result
           in if invalid \<noteq> [] then Err (MailboxInvalid invalid)
              else (case IndexByte result (CHR ''+'') of
                      None \<Rightarrow> Ok result
                    | Some idx \<Rightarrow> Ok (take idx result)))"

definition extractDomainMailbox :: "string \<Rightarrow> (addr_error, string) result" where
  [go_eval]: "extractDomainMailbox address =
     (case (if address \<noteq> [] \<and> hd address = CHR ''['' \<and> last address = CHR '']''
            then Ok ([], address) else parseEmailAddress address) of
        Inl e \<Rightarrow> Err e
      | Inr (local, domain) \<Rightarrow>
          (case (if local \<noteq> [] then parseMailboxName local else Ok local) of
             Inl e \<Rightarrow> Err e
           | Inr local \<Rightarrow>
               let domain = (if domain = [] then local else domain)
               in if \<not> ValidateDomainPart domain then Err DomainInvalid else Ok domain))"

definition ExtractMailbox :: "Addressing \<Rightarrow> string \<Rightarrow> (addr_error, string) result" where
  [go_eval]: "ExtractMailbox a address =
     (if MailboxNaming (aConfig a) = DomainNaming then extractDomainMailbox address
      else (case parseEmailAddress address of
              Inl e \<Rightarrow> Err e
            | Inr (local, domain) \<Rightarrow>
                (case parseMailboxName local of
                   Inl e \<Rightarrow> Err e
                 | Inr local \<Rightarrow>
                     if MailboxNaming (aConfig a) = LocalNaming then Ok local
                     else if MailboxNaming (aConfig a) \<noteq> FullNaming then Err UnknownNamingValue
                     else if domain = [] then Ok local
                     else if \<not> ValidateDomainPart domain then Err DomainInvalid
                     else Ok (local @ ''@'' @ domain))))"

definition NewRecipient :: "Addressing \<Rightarrow> string \<Rightarrow> (addr_error, Recipient) result" where
  [go_eval]: "NewRecipient a address =
     (case ParseEmailAddress address of
        Inl e \<Rightarrow> Err e
      | Inr (local, domain) \<Rightarrow>
          (case ExtractMailbox a address of
             Inl e \<Rightarrow> Err e
           | Inr mailbox \<Rightarrow>
               Ok \<lparr>rAddress = mail_address address, rPolicy = a, rLocalPart = local,
                   rDomain = domain, rMailbox = mailbox\<rparr>))"

definition ParseOrigin :: "Addressing \<Rightarrow> string \<Rightarrow> (addr_error, Origin) result" where
  [go_eval]: "ParseOrigin a address =
     (if address = [] then
        Ok \<lparr>oAddress = mail_address [], oPolicy = a, oLocalPart = [], oDomain = []\<rparr>
      else (case ParseEmailAddress address of
              Inl e \<Rightarrow> Err e
            | Inr (local, domain) \<Rightarrow>
                Ok \<lparr>oAddress = mail_address address, oPolicy = a, oLocalPart = local,
                    oDomain = domain\<rparr>))"

subsection \<open>Accept and store policies\<close>

definition ShouldAcceptDomain :: "Addressing \<Rightarrow> string \<Rightarrow> bool" where
  [go_eval]: "ShouldAcceptDomain a domain =
     (let domain = ToLower domain; c = SMTP (aConfig a) in
      if DefaultAccept c \<and> \<not> SliceContains (RejectDomains c) domain then True
      else if \<not> DefaultAccept c \<and> SliceContains (AcceptDomains c) domain then True
      else False)"

definition ShouldStoreDomain :: "Addressing \<Rightarrow> string \<Rightarrow> bool" where
  [go_eval]: "ShouldStoreDomain a domain =
     (let domain = ToLower domain; c = SMTP (aConfig a) in
      if DefaultStore c \<and> \<not> SliceContains (DiscardDomains c) domain then True
      else if \<not> DefaultStore c \<and> SliceContains (StoreDomains c) domain then True
      else False)"

fun reject_loop :: "string list \<Rightarrow> string \<Rightarrow> bool" where
  "reject_loop [] domain = True"
| "reject_loop (d # ds) domain = (if MatchWithWildcards d domain then False else reject_loop ds domain)"

definition ShouldAcceptOriginDomain :: "Addressing \<Rightarrow> string \<Rightarrow> bool" where
  [go_eval]: "ShouldAcceptOriginDomain a domain =
     (let domain = ToLower domain; ds = RejectOriginDomains (SMTP (aConfig a))
      in if length ds > 0 then reject_loop ds domain else True)"

definition Origin_ShouldAccept :: "Origin \<Rightarrow> bool" where
  [go_eval]: "Origin_ShouldAccept o' = ShouldAcceptOriginDomain (oPolicy o') (oDomain o')"

definition Recipient_ShouldAccept :: "Recipient \<Rightarrow> bool" where
  [go_eval]: "Recipient_ShouldAccept r = ShouldAcceptDomain (rPolicy r) (rDomain r)"

definition Recipient_ShouldStore :: "Recipient \<Rightarrow> bool" where
  [go_eval]: "Recipient_ShouldStore r = ShouldStoreDomain (rPolicy r) (rDomain r)"

end
