(* ===== verification/PolicyProps.thy ===== *)
theory PolicyProps
  imports Policy
begin

text \<open>
  Properties of \<open>pkg/policy\<close>: the domain grammar that \<open>ValidateDomainPart\<close> recognises, the
  behaviour of the address parser on unquoted addresses, well-formedness of what it returns,
  the canonical form of mailbox names, and the accept and store policies.
\<close>

subsection \<open>Characters the parser passes through\<close>

definition atext_dot :: "char \<Rightarrow> bool" where
  "atext_dot c \<longleftrightarrow> is_letter c \<or> is_digit c \<or> c \<in> set atext_specials \<or> c = CHR ''.''"

lemma specials_ascii: "c \<in> set atext_specials \<Longrightarrow> is_ascii c"
  by (auto simp: atext_specials_def is_ascii_def code_def)

lemma letter_ascii: "is_letter c \<Longrightarrow> is_ascii c"
  by (auto simp: is_letter_def is_lower_def is_upper_def is_ascii_def)

lemma digit_ascii: "is_digit c \<Longrightarrow> is_ascii c"
  by (auto simp: is_digit_def is_ascii_def)

lemma specials_not_upper: "c \<in> set atext_specials \<Longrightarrow> \<not> is_upper c"
  by (auto simp: atext_specials_def is_upper_def code_def)

lemma special_seps [simp]:
  "\<not> atext_dot (CHR ''@'')" "\<not> atext_dot BSLASH" "\<not> atext_dot DQUOTE" "\<not> is_letter (CHR ''.'')"
  "\<not> is_digit (CHR ''.'')" "CHR ''.'' \<notin> set atext_specials" "\<not> is_letter (CHR ''@'')"
  "\<not> is_digit (CHR ''@'')" "CHR ''@'' \<notin> set atext_specials"
  "\<not> is_letter BSLASH" "\<not> is_digit BSLASH" "BSLASH \<notin> set atext_specials"
  "\<not> is_letter DQUOTE" "\<not> is_digit DQUOTE" "DQUOTE \<notin> set atext_specials"
  by (simp_all add: atext_dot_def go_eval)

lemma mailbox_char_lower: "atext_dot c \<Longrightarrow> mailbox_char (lower_char c)"
proof (cases "is_upper c")
  case True
  then have "is_lower (lower_char c)"
    by (auto simp: is_lower_def is_upper_def code_lower_char)
  then show ?thesis by (simp add: mailbox_char_def)
next
  case False
  then show "atext_dot c \<Longrightarrow> ?thesis"
    by (auto simp: mailbox_char_def atext_dot_def is_letter_def lower_char_id)
qed

lemma mailbox_char_atext: "mailbox_char c \<Longrightarrow> atext_dot c"
  by (auto simp: mailbox_char_def atext_dot_def is_letter_def)

lemma mailbox_char_not_upper: "mailbox_char c \<Longrightarrow> \<not> is_upper c"
  using specials_not_upper by (auto simp: mailbox_char_def is_lower_def is_digit_def is_upper_def code_def)

text \<open>No two separators in a row.\<close>

fun no_pair :: "char \<Rightarrow> string \<Rightarrow> bool" where
  "no_pair x (a # b # cs) \<longleftrightarrow> \<not> (a = x \<and> b = x) \<and> no_pair x (b # cs)"
| "no_pair x cs \<longleftrightarrow> True"

lemma no_pair_Cons: "no_pair x (a # cs) \<longleftrightarrow> (cs = [] \<or> \<not> (a = x \<and> hd cs = x)) \<and> no_pair x cs"
  by (cases cs) auto

lemma no_pair_append: "no_pair x (cs @ ds) \<Longrightarrow> no_pair x cs"
  by (induction x cs rule: no_pair.induct) auto

lemma no_pair_take: "no_pair x cs \<Longrightarrow> no_pair x (take n cs)"
  using no_pair_append [of x "take n cs" "drop n cs"] by simp

lemma no_pair_map:
  "(\<And>c. f c = x \<Longrightarrow> c = x) \<Longrightarrow> no_pair x cs \<Longrightarrow> no_pair x (map f cs)"
  by (induction x cs rule: no_pair.induct) auto

lemma lower_char_dot: "lower_char c = CHR ''.'' \<Longrightarrow> c = CHR ''.''"
proof -
  assume l: "lower_char c = CHR ''.''"
  have "\<not> is_upper c"
  proof
    assume u: "is_upper c"
    with l have "code (CHR ''.'') = code c + 32" using code_lower_char [of c] by simp
    with u show False by (simp add: is_upper_def code_def)
  qed
  with l show ?thesis by (simp add: lower_char_id)
qed

subsection \<open>The domain grammar\<close>

definition valid_label :: "string \<Rightarrow> bool" where
  "valid_label l \<longleftrightarrow> l \<noteq> [] \<and> (\<forall>c\<in>set l. label_char c \<or> c = CHR ''-'') \<and> hd l \<noteq> CHR ''-''
     \<and> last l \<noteq> CHR ''-'' \<and> no_pair (CHR ''-'') l \<and> length (filter label_char l) \<le> 63"

definition bracketed :: "string \<Rightarrow> bool" where
  "bracketed d \<longleftrightarrow> length d \<ge> 4 \<and> hd d = CHR ''['' \<and> last d = CHR '']''"

definition bracket_body :: "string \<Rightarrow> string" where
  "bracket_body d = (if HasPrefix (tl d) ''IPv6:'' then butlast (drop 6 d) else butlast (tl d))"

definition strip_dot :: "string \<Rightarrow> string" where
  "strip_dot d = (if d \<noteq> [] \<and> last d = CHR ''.'' then butlast d else d)"

definition dotted_labels :: "string \<Rightarrow> bool" where
  "dotted_labels d \<longleftrightarrow> list_all valid_label (Split (strip_dot d) (CHR ''.''))"

lemma label_char_seps [simp]:
  "\<not> label_char (CHR ''-'')" "\<not> label_char (CHR ''.'')" "\<not> label_char (CHR ''['')"
  by (simp_all add: label_char_def go_eval)

text \<open>The loop in the middle of a label: \<open>prev\<close> was not a period.\<close>

lemma label_loop_mid:
  assumes "CHR ''.'' \<notin> set l" and "prev \<noteq> CHR ''.''" and "prev = CHR ''-'' \<or> label_char prev"
  shows "label_loop prev n (0 < n) (l @ CHR ''.'' # rest) \<longleftrightarrow>
     (\<forall>c\<in>set l. label_char c \<or> c = CHR ''-'') \<and> last (prev # l) \<noteq> CHR ''-''
     \<and> no_pair (CHR ''-'') (prev # l) \<and> n + length (filter label_char l) \<le> 63
     \<and> 0 < n + length (filter label_char l) \<and> label_loop (CHR ''.'') 0 False rest"
  using assms
proof (induction l arbitrary: prev n)
  case (Cons c l)
  show ?case
  proof (cases "label_char c")
    case True
    with Cons.prems have "c \<noteq> CHR ''.''" "c \<noteq> CHR ''-''" by auto
    with True Cons.prems Cons.IH [of c "Suc n"] show ?thesis
      by (simp add: no_pair_Cons)
  next
    case False
    with Cons.prems Cons.IH [of c n] show ?thesis
      by (auto simp: no_pair_Cons)
  qed
qed auto

lemma label_loop_label:
  assumes "CHR ''.'' \<notin> set l"
  shows "label_loop (CHR ''.'') 0 False (l @ CHR ''.'' # rest) \<longleftrightarrow>
     valid_label l \<and> label_loop (CHR ''.'') 0 False rest"
proof (cases l)
  case (Cons c cs)
  show ?thesis
  proof (cases "label_char c")
    case True
    with assms Cons have "c \<noteq> CHR ''.''" "c \<noteq> CHR ''-''" by auto
    with True assms Cons label_loop_mid [of cs c "Suc 0" rest] show ?thesis
      by (auto simp: valid_label_def)
  next
    case False
    with assms Cons show ?thesis by (auto simp: valid_label_def)
  qed
qed (simp add: valid_label_def)

lemma label_loop_Split:
  "label_loop (CHR ''.'') 0 False (s @ ''.'') \<longleftrightarrow> list_all valid_label (Split s (CHR ''.''))"
proof (induction "length s" arbitrary: s rule: less_induct)
  case less
  show ?case
  proof (cases "CHR ''.'' \<in> set s")
    case True
    then obtain l r where s: "s = l @ CHR ''.'' # r" "CHR ''.'' \<notin> set l"
      by (meson split_list_first)
    with less have "label_loop (CHR ''.'') 0 False (r @ ''.'') \<longleftrightarrow> list_all valid_label (Split r (CHR ''.''))"
      by simp
    with s label_loop_label [of l "r @ ''.''"] show ?thesis by (simp add: Split_append)
  next
    case False
    with label_loop_label [of s "[]"] show ?thesis by (simp add: Split_no_sep)
  qed
qed

lemma bracketed_body:
  "drop (if HasPrefix (tl d) ''IPv6:'' then 6 else 1) (take (length d - 1) d) = bracket_body d"
  by (cases d) (simp_all add: bracket_body_def butlast_conv_take drop_take)

lemma bracketed_not_dotted: "bracketed d \<Longrightarrow> \<not> dotted_labels d"
proof
  assume b: "bracketed d" and d: "dotted_labels d"
  obtain e where de: "d = CHR ''['' # e" using b by (cases d) (auto simp: bracketed_def)
  from b have "strip_dot d = d" by (auto simp: strip_dot_def bracketed_def)
  with d de have "list_all valid_label (Split (CHR ''['' # e) (CHR ''.''))"
    by (simp add: dotted_labels_def)
  then show False by (auto simp: valid_label_def split: list.splits)
qed

text \<open>
  C22: \<open>ValidateDomainPart\<close> accepts exactly the bracketed IP addresses and the dot-separated
  sequences of valid labels (with an optional final period) of at most 255 bytes.
\<close>
theorem ValidateDomainPart_iff:
  "ValidateDomainPart d \<longleftrightarrow>
     length d \<le> 255 \<and> (if bracketed d then ParseIP (bracket_body d) else dotted_labels d)"
proof (cases "d = []")
  case True
  then show ?thesis
    by (simp add: ValidateDomainPart_def bracketed_def dotted_labels_def strip_dot_def valid_label_def)
next
  case False
  have nb: "\<not> bracketed d \<Longrightarrow> (label_loop (CHR ''.'') 0 False
      (if last d \<noteq> CHR ''.'' then d @ ''.'' else d)) = dotted_labels d"
  proof (cases "last d = CHR ''.''")
    case True
    with False have "butlast d @ ''.'' = d" using append_butlast_last_id [OF False] by simp
    with True False label_loop_Split [of "butlast d"] show ?thesis
      by (simp add: dotted_labels_def strip_dot_def)
  next
    case l: False
    with label_loop_Split [of d] show ?thesis by (simp add: dotted_labels_def strip_dot_def)
  qed
  show ?thesis
  proof (cases "bracketed d")
    case True
    with bracketed_body [of d] False show ?thesis
      unfolding ValidateDomainPart_def by (simp add: Let_def bracketed_def split: if_splits)
  next
    case b: False
    with nb False show ?thesis
      by (auto simp: ValidateDomainPart_def Let_def bracketed_def)
  qed
qed

text \<open>
  The loop counts the alphanumeric bytes of a label and not its hyphens, so a label longer
  than the 63 bytes of RFC 1035 passes: 60 letters with hyphens between them are 119 bytes.
\<close>
definition long_label :: string where
  "long_label = concat (replicate 59 ''a-'') @ ''a''"

lemma ValidateDomainPart_long_label: "length long_label = 119 \<and> ValidateDomainPart long_label"
proof
  show "length long_label = 119"
    by (simp add: long_label_def length_concat sum_list_replicate)
  have np: "no_pair (CHR ''-'') (concat (replicate n ''a-'') @ ''a'')" for n
    by (induction n) (simp_all add: no_pair_Cons split: nat.split, case_tac n, simp_all)
  have "\<forall>c\<in>set long_label. label_char c \<or> c = CHR ''-''"
    by (auto simp: long_label_def label_char_def go_eval)
  moreover have "length (filter label_char long_label) = 60"
    by (simp add: long_label_def filter_concat length_concat sum_list_replicate label_char_def go_eval)
  ultimately have vl: "valid_label long_label"
    using np [of 59]
    by (simp add: valid_label_def long_label_def eval_nat_numeral)
  have "strip_dot long_label = long_label" by (simp add: strip_dot_def long_label_def)
  moreover have "CHR ''.'' \<notin> set long_label" by (auto simp: long_label_def)
  ultimately have "dotted_labels long_label" using vl by (simp add: dotted_labels_def Split_no_sep)
  moreover have "\<not> bracketed long_label" by (auto simp: bracketed_def long_label_def)
  ultimately show "ValidateDomainPart long_label"
    using \<open>length long_label = 119\<close> by (simp add: ValidateDomainPart_iff)
qed

subsection \<open>The address parser\<close>

text \<open>On bytes that need no quoting the loop only looks at the periods.\<close>

lemma local_loop_plain:
  assumes "is_letter c \<or> is_digit c \<or> c \<in> set atext_specials"
  shows "local_loop i prev cq sq buf (c # cs) = local_loop (Suc i) c False sq (buf @ [c]) cs"
  using assms by (cases "is_letter c"; cases "is_digit c") simp_all

lemma local_loop_dot:
  "local_loop i prev cq sq buf (CHR ''.'' # cs) =
     (if prev = CHR ''.'' then Err PeriodSequence
      else local_loop (Suc i) (CHR ''.'') False sq (buf @ ''.'') cs)"
  by simp

lemma local_loop_atext:
  assumes "\<forall>c\<in>set l. atext_dot c"
  shows "local_loop i prev False False buf (l @ rest) =
     (if no_pair (CHR ''.'') (prev # l)
      then local_loop (i + length l) (last (prev # l)) False False (buf @ l) rest
      else Err PeriodSequence)"
  using assms
proof (induction l arbitrary: i prev buf)
  case (Cons c l)
  have IH: "local_loop (Suc i) c False False (buf @ [c]) (l @ rest) =
     (if no_pair (CHR ''.'') (c # l)
      then local_loop (Suc i + length l) (last (c # l)) False False ((buf @ [c]) @ l) rest
      else Err PeriodSequence)"
    using Cons.prems by (intro Cons.IH) simp
  show ?case
  proof (cases "c = CHR ''.''")
    case True
    with IH show ?thesis by (simp add: local_loop_dot no_pair_Cons del: local_loop.simps)
  next
    case False
    with Cons.prems have "is_letter c \<or> is_digit c \<or> c \<in> set atext_specials"
      by (simp add: atext_dot_def)
    with False IH show ?thesis by (simp add: local_loop_plain no_pair_Cons del: local_loop.simps)
  qed
qed simp

lemma local_loop_at:
  assumes "\<forall>c\<in>set l. atext_dot c" and "no_pair (CHR ''.'') (prev # l)"
  shows "local_loop i prev False False buf (l @ CHR ''@'' # d) =
     (if i + length l > 128 then Err LocalTooLong
      else if last (prev # l) = CHR ''.'' then Err TrailingPeriod else Ok (buf @ l, d))"
  using assms local_loop_atext [of l i prev buf "CHR ''@'' # d"] by (auto simp: local_end_def)

lemma local_loop_bare:
  assumes "\<forall>c\<in>set l. atext_dot c" and "no_pair (CHR ''.'') (prev # l)"
  shows "local_loop i prev False False buf l = Ok (buf @ l, [])"
  using assms local_loop_atext [of l i prev buf "[]"] by (simp add: local_end_def)

text \<open>
  The parser on an address \<open>local@domain\<close> whose local part needs no quoting: which of the
  errors it reports and in which order, and otherwise the two parts unchanged.
\<close>
theorem parseEmailAddress_unquoted:
  assumes "l \<noteq> []" and "\<forall>c\<in>set l. atext_dot c"
  shows "parseEmailAddress (l @ ''@'' @ d) =
     (if length l + Suc (length d) > 320 then Err AddressTooLong
      else if hd l = CHR ''.'' then Err LeadingPeriod
      else if \<not> no_pair (CHR ''.'') l then Err PeriodSequence
      else if length l > 128 then Err LocalTooLong
      else if last l = CHR ''.'' then Err TrailingPeriod
      else Ok (l, d))"
proof -
  have hd: "hd (l @ CHR ''@'' # d) = hd l" using assms(1) by (cases l) auto
  have "hd l \<noteq> CHR ''@''" using assms by (cases l) auto
  with hd have "strip_route (l @ CHR ''@'' # d) = Ok (l @ CHR ''@'' # d)"
    by (simp add: strip_route_def)
  moreover have "hd l \<noteq> CHR ''.'' \<Longrightarrow> no_pair (CHR ''.'') (CHR ''.'' # l) = no_pair (CHR ''.'') l"
    using assms(1) by (simp add: no_pair_Cons)
  moreover have "no_pair (CHR ''.'') l \<Longrightarrow> hd l \<noteq> CHR ''.'' \<Longrightarrow>
      local_loop 0 (CHR ''.'') False False [] (l @ CHR ''@'' # d) =
        (if length l > 128 then Err LocalTooLong
         else if last l = CHR ''.'' then Err TrailingPeriod else Ok (l, d))"
    using assms local_loop_at [of l "CHR ''.''" 0 "[]" d] by (simp add: no_pair_Cons)
  moreover have "\<not> no_pair (CHR ''.'') l \<Longrightarrow>
      local_loop 0 (CHR ''.'') False False [] (l @ CHR ''@'' # d) = Err PeriodSequence"
    using assms local_loop_atext [of l 0 "CHR ''.''" "[]" "CHR ''@'' # d"] by (simp add: no_pair_Cons)
  ultimately show ?thesis
    using hd by (simp add: parseEmailAddress_def)
qed

theorem parseEmailAddress_unquoted_witness:
  "parseEmailAddress ''john.doe+x@mail.org'' = Ok (''john.doe+x'', ''mail.org'')
   \<and> parseEmailAddress ''john..doe@mail.org'' = Err PeriodSequence"
  using parseEmailAddress_unquoted [of "''john.doe+x''" "''mail.org''"]
    parseEmailAddress_unquoted [of "''john..doe''" "''mail.org''"]
  by (simp add: atext_dot_def go_eval)

text \<open>What the loop returns, quoting included: the local part is ASCII, at most 128 bytes
  before an \<open>@\<close>, and the domain is what follows an unquoted \<open>@\<close>.\<close>

lemma local_loop_step:
  assumes "local_loop i prev cq sq buf (c # cs) = Ok r"
  shows "(\<exists>cq' sq' buf'. local_loop (Suc i) c cq' sq' buf' cs = Ok r
            \<and> (buf' = buf \<or> buf' = buf @ [c] \<and> is_ascii c))
         \<or> c = CHR ''@'' \<and> i \<le> 128 \<and> r = (buf, cs)"
proof -
  have a: "is_letter c \<or> is_digit c \<or> c \<in> set atext_specials \<or> \<not> 127 < code c \<Longrightarrow> is_ascii c"
    using letter_ascii digit_ascii specials_ascii by (auto simp: is_ascii_def)
  have sep: "is_ascii (CHR ''.'')" "is_ascii DQUOTE" "is_ascii (CHR ''@'')"
    by (simp_all add: is_ascii_def code_def)
  show ?thesis
  proof (cases "is_letter c \<or> is_digit c \<or> c \<in> set atext_specials")
    case True
    then have "local_loop (Suc i) c False sq (buf @ [c]) cs = Ok r"
      using assms by (simp add: local_loop_plain del: local_loop.simps)
    with True a show ?thesis by blast
  next
    case False
    consider "c = CHR ''.''" | "c = BSLASH" | "c = DQUOTE" | "c = CHR ''@''"
      | "c \<noteq> CHR ''.''" "c \<noteq> BSLASH" "c \<noteq> DQUOTE" "c \<noteq> CHR ''@''" by blast
    then show ?thesis
    proof cases
      case 5
      then have "\<not> 127 < code c" "local_loop (Suc i) c False sq (buf @ [c]) cs = Ok r"
        using assms False by (auto split: if_splits)
      with a show ?thesis by blast
    qed (use assms sep in \<open>auto simp: local_end_def split: if_splits\<close>)
  qed
qed

lemma local_loop_Nil: "local_loop i prev cq sq buf [] = Ok r \<Longrightarrow> r = (buf, [])"
  by (simp add: local_end_def split: if_splits)

lemma local_loop_ascii:
  "local_loop i prev cq sq buf s = Ok (l, d) \<Longrightarrow> \<forall>c\<in>set buf. is_ascii c \<Longrightarrow> \<forall>c\<in>set l. is_ascii c"
proof (induction s arbitrary: i prev cq sq buf)
  case Nil
  from local_loop_Nil [OF Nil.prems(1)] Nil.prems(2) show ?case by simp
next
  case (Cons c s)
  from local_loop_step [OF Cons.prems(1)] show ?case
  proof
    assume "\<exists>cq' sq' buf'. local_loop (Suc i) c cq' sq' buf' s = Ok (l, d)
            \<and> (buf' = buf \<or> buf' = buf @ [c] \<and> is_ascii c)"
    then obtain cq' sq' buf' where n: "local_loop (Suc i) c cq' sq' buf' s = Ok (l, d)"
      "buf' = buf \<or> buf' = buf @ [c] \<and> is_ascii c" by blast
    then have "\<forall>c\<in>set buf'. is_ascii c" using Cons.prems(2) by auto
    with n(1) show ?thesis by (rule Cons.IH)
  next
    assume "c = CHR ''@'' \<and> i \<le> 128 \<and> (l, d) = (buf, s)"
    with Cons.prems(2) show ?thesis by simp
  qed
qed

lemma local_loop_split:
  "local_loop i prev cq sq buf s = Ok (l, d) \<Longrightarrow> d \<noteq> [] \<Longrightarrow> length buf \<le> i \<Longrightarrow>
     (\<exists>u. s = u @ CHR ''@'' # d) \<and> length l \<le> 128"
proof (induction s arbitrary: i prev cq sq buf)
  case Nil
  from local_loop_Nil [OF Nil.prems(1)] Nil.prems(2) show ?case by simp
next
  case (Cons c s)
  from local_loop_step [OF Cons.prems(1)] show ?case
  proof
    assume "\<exists>cq' sq' buf'. local_loop (Suc i) c cq' sq' buf' s = Ok (l, d)
            \<and> (buf' = buf \<or> buf' = buf @ [c] \<and> is_ascii c)"
    then obtain cq' sq' buf' where n: "local_loop (Suc i) c cq' sq' buf' s = Ok (l, d)"
      "buf' = buf \<or> buf' = buf @ [c]" by blast
    then have "length buf' \<le> Suc i" using Cons.prems(3) by auto
    with n(1) Cons.prems(2) obtain u where "s = u @ CHR ''@'' # d" "length l \<le> 128"
      using Cons.IH by blast
    then show ?thesis by (metis append_Cons)
  next
    assume "c = CHR ''@'' \<and> i \<le> 128 \<and> (l, d) = (buf, s)"
    with Cons.prems(3) show ?thesis by auto
  qed
qed

lemma strip_route_suffix: "strip_route a = Ok b \<Longrightarrow> (\<exists>u. a = u @ b) \<and> (a \<noteq> [] \<longrightarrow> b \<noteq> [])"
  by (auto simp: strip_route_def split: if_splits option.splits)
     (metis append_take_drop_id)

lemma parseEmailAddress_parts:
  assumes "parseEmailAddress a = Ok (l, d)"
  shows "(\<forall>c\<in>set l. is_ascii c) \<and> (d \<noteq> [] \<longrightarrow> (\<exists>u. a = u @ CHR ''@'' # d) \<and> length l \<le> 128)"
proof -
  from assms obtain b where b: "strip_route a = Ok b"
    "local_loop 0 (CHR ''.'') False False [] b = Ok (l, d)"
    by (auto simp: parseEmailAddress_def split: if_splits sum.splits)
  then obtain v where "a = v @ b" using strip_route_suffix by blast
  moreover have "d \<noteq> [] \<longrightarrow> (\<exists>u. b = u @ CHR ''@'' # d) \<and> length l \<le> 128"
    using local_loop_split [OF b(2)] by simp
  ultimately show ?thesis
    using local_loop_ascii [OF b(2)] by (metis append.assoc empty_iff list.set(1))
qed

text \<open>
  C34: an address that \<open>ParseEmailAddress\<close> accepts, quoted or not, ends in \<open>@\<close> and its domain;
  the domain passes validation, and the local part is ASCII of at most 128 bytes.
\<close>
theorem ParseEmailAddress_sound:
  assumes "ParseEmailAddress a = Ok (l, d)"
  shows "ValidateDomainPart d \<and> (\<exists>u. a = u @ ''@'' @ d) \<and> (\<forall>c\<in>set l. is_ascii c) \<and> length l \<le> 128"
proof -
  from assms have p: "parseEmailAddress a = Ok (l, d)" and v: "ValidateDomainPart d"
    by (auto simp: ParseEmailAddress_def split: sum.splits prod.splits if_splits)
  moreover have "d \<noteq> []" using v by (auto simp: ValidateDomainPart_def)
  ultimately show ?thesis using parseEmailAddress_parts [OF p] by simp
qed

theorem ParseEmailAddress_sound_witness:
  "ParseEmailAddress ''\"a b\"@x.org'' = Ok (''a b'', ''x.org'') \<and> ValidateDomainPart ''x.org''"
proof -
  have p: "ParseEmailAddress ''\"a b\"@x.org'' = Ok (''a b'', ''x.org'')"
    by (simp add: go_eval)
  from ParseEmailAddress_sound [OF p] p show ?thesis by blast
qed

subsection \<open>Mailbox names\<close>

lemma parseMailboxName_Ok:
  "parseMailboxName l = Ok m \<longleftrightarrow>
     l \<noteq> [] \<and> list_all mailbox_char (ToLower l) \<and> m = takeWhile (\<lambda>c. c \<noteq> CHR ''+'') (ToLower l)"
proof (cases "l \<noteq> [] \<and> list_all mailbox_char (ToLower l)")
  case True
  then have "filter (\<lambda>c. \<not> mailbox_char c) (ToLower l) = []"
    by (simp add: filter_empty_conv list_all_iff)
  with True show ?thesis
    using IndexByte_None [of "ToLower l" "CHR ''+''"] IndexByte_takeWhile [of "ToLower l" "CHR ''+''"]
    by (auto simp: parseMailboxName_def Let_def takeWhile_neq_id split: option.splits)
next
  case False
  then show ?thesis
    by (auto simp: parseMailboxName_def Let_def filter_empty_conv list_all_iff)
qed

lemma ToLower_mailbox: "list_all mailbox_char m \<Longrightarrow> ToLower m = m"
  by (simp add: ToLower_def list_all_iff map_idI lower_char_id mailbox_char_not_upper)

lemma parseMailboxName_canonical:
  assumes "list_all mailbox_char m" and "CHR ''+'' \<notin> set m" and "m \<noteq> []"
  shows "parseMailboxName m = Ok m"
  using assms by (simp add: parseMailboxName_Ok ToLower_mailbox takeWhile_neq_id)

lemma parseMailboxName_chars:
  assumes "parseMailboxName l = Ok m"
  shows "list_all mailbox_char m" and "CHR ''+'' \<notin> set m"
  using assms by (auto simp: parseMailboxName_Ok list_all_iff dest: set_takeWhileD)

text \<open>
  A mailbox name is made of lower-case letters, digits and the unquoted specials, holds no
  \<open>+\<close> (the extension is cut off), and parsing it again gives it back.
\<close>
theorem parseMailboxName_sound:
  assumes "parseMailboxName l = Ok m"
  shows "list_all mailbox_char m \<and> CHR ''+'' \<notin> set m \<and> (m \<noteq> [] \<longrightarrow> parseMailboxName m = Ok m)"
  using parseMailboxName_chars [OF assms] parseMailboxName_canonical by blast

theorem parseMailboxName_sound_witness:
  "parseMailboxName ''User+tag'' = Ok ''user'' \<and> list_all mailbox_char ''user''
   \<and> parseMailboxName ''user'' = Ok ''user''"
proof -
  have "parseMailboxName ''User+tag'' = Ok ''user''" by (simp add: go_eval)
  with parseMailboxName_sound [OF this] show ?thesis by simp
qed

text \<open>An address whose local part is only an extension has the empty mailbox name.\<close>
lemma empty_mailbox_name:
  "MailboxNaming (aConfig a) = LocalNaming \<Longrightarrow> ExtractMailbox a ''+tag@x.org'' = Ok []"
  by (simp add: go_eval)

text \<open>Without quoting characters the local part is the text before the \<open>@\<close>.\<close>

lemma local_loop_unquoted:
  assumes "DQUOTE \<notin> set s" and "BSLASH \<notin> set s"
    and "local_loop i prev False False buf s = Ok (l, d)"
  shows "\<exists>l'. l = buf @ l' \<and> list_all atext_dot l' \<and> no_pair (CHR ''.'') (prev # l') \<and> length l' \<le> length s"
  using assms
proof (induction s arbitrary: i prev buf)
  case (Cons c s)
  show ?case
  proof (cases "atext_dot c \<and> \<not> (c = CHR ''.'' \<and> prev = CHR ''.'')")
    case True
    then have "local_loop (Suc i) c False False (buf @ [c]) s = Ok (l, d)"
      using Cons.prems(3) local_loop_plain [of c i prev False False buf s]
      by (cases "c = CHR ''.''") (simp_all add: local_loop_dot atext_dot_def del: local_loop.simps)
    with Cons.IH Cons.prems(1,2) obtain l' where
      "l = (buf @ [c]) @ l'" "list_all atext_dot l'" "no_pair (CHR ''.'') (c # l')" "length l' \<le> length s"
      by fastforce
    with True show ?thesis by (intro exI [of _ "c # l'"]) (auto simp: no_pair_Cons)
  next
    case False
    then have "(l, d) = (buf, s)"
      using Cons.prems by (simp add: atext_dot_def local_end_def split: if_splits)
    then show ?thesis by simp
  qed
qed (simp add: local_end_def)

lemma parseEmailAddress_unquoted_local:
  assumes "DQUOTE \<notin> set a" and "BSLASH \<notin> set a" and "parseEmailAddress a = Ok (l, d)"
  shows "list_all atext_dot l \<and> no_pair (CHR ''.'') (CHR ''.'' # l) \<and> length l \<le> 320"
proof -
  from assms(3) obtain b where b: "strip_route a = Ok b" "length a \<le> 320"
    "local_loop 0 (CHR ''.'') False False [] b = Ok (l, d)"
    by (auto simp: parseEmailAddress_def split: if_splits sum.splits)
  then obtain u where u: "a = u @ b" using strip_route_suffix by blast
  with assms(1,2) have "DQUOTE \<notin> set b" "BSLASH \<notin> set b" by auto
  from local_loop_unquoted [OF this b(3)] u b(2) show ?thesis by auto
qed

lemma parseEmailAddress_bare:
  assumes "list_all atext_dot m" and "no_pair (CHR ''.'') (CHR ''.'' # m)" and "m \<noteq> []" and "length m \<le> 320"
  shows "parseEmailAddress m = Ok (m, [])"
proof -
  have h: "hd m \<noteq> CHR ''@''" "hd m \<noteq> CHR ''.''"
    using assms(1-3) by (cases m; auto simp: no_pair_Cons)+
  then show ?thesis
    using assms local_loop_bare [of m "CHR ''.''" 0 "[]"]
    by (simp add: parseEmailAddress_def strip_route_def list_all_iff)
qed

text \<open>
  With local naming, the mailbox a message for an unquoted address goes to is found again
  under its own name: \<open>ExtractMailbox\<close> maps the (non-empty) name to itself.
\<close>
theorem ExtractMailbox_local_lookup:
  assumes "MailboxNaming (aConfig a) = LocalNaming"
    and "DQUOTE \<notin> set addr" and "BSLASH \<notin> set addr"
    and "ExtractMailbox a addr = Ok m" and "m \<noteq> []"
  shows "ExtractMailbox a m = Ok m"
proof -
  from assms(1,4) obtain l d where l: "parseEmailAddress addr = Ok (l, d)" "parseMailboxName l = Ok m"
    by (auto simp: ExtractMailbox_def split: sum.splits prod.splits)
  from parseEmailAddress_unquoted_local [OF assms(2,3) l(1)]
  have at: "list_all atext_dot l" "no_pair (CHR ''.'') (CHR ''.'' # l)" "length l \<le> 320" by auto
  from l(2) have m: "m = takeWhile (\<lambda>c. c \<noteq> CHR ''+'') (ToLower l)" by (simp add: parseMailboxName_Ok)
  have canon: "list_all mailbox_char m" "parseMailboxName m = Ok m"
    using parseMailboxName_chars [OF l(2)] parseMailboxName_canonical assms(5) by blast+
  obtain n where n: "m = map lower_char (take n l)"
    using m by (metis ToLower_def take_map takeWhile_eq_take)
  have "no_pair (CHR ''.'') (CHR ''.'' # take n l)"
    using no_pair_take [OF at(2), of "Suc n"] by simp
  then have "no_pair (CHR ''.'') (map lower_char (CHR ''.'' # take n l))"
    by (rule no_pair_map [rotated]) (rule lower_char_dot)
  moreover have "lower_char (CHR ''.'') = CHR ''.''" by (simp add: lower_char_id is_upper_def code_def)
  ultimately have "no_pair (CHR ''.'') (CHR ''.'' # m)" by (simp add: n)
  moreover have "list_all atext_dot m" using canon(1) by (auto simp: list_all_iff mailbox_char_atext)
  moreover have "length m \<le> 320" using at(3) by (simp add: n)
  ultimately have "parseEmailAddress m = Ok (m, [])"
    using assms(5) parseEmailAddress_bare by blast
  with canon(2) assms(1) show ?thesis by (simp add: ExtractMailbox_def)
qed

definition example_smtp :: smtp_config where
  [go_eval]: "example_smtp = \<lparr>smtp_Addr = [], smtp_Domain = ''inbucket'', MaxRecipients = 2, MaxMessageBytes = 1000,
     DefaultAccept = True, AcceptDomains = [], RejectDomains = [''deny.com''], DefaultStore = True,
     StoreDomains = [], DiscardDomains = [''drop.com''], RejectOriginDomains = [''*.bad.com''],
     smtp_Timeout = 300, smtp_TLSEnabled = True, smtp_TLSPrivKey = [], smtp_TLSCert = [],
     smtp_Debug = False, smtp_ForceTLS = False\<rparr>"

definition example_policy :: "mbNaming \<Rightarrow> Addressing" where
  [go_eval]: "example_policy n = \<lparr>aConfig = \<lparr>LogLevel = ''info'', Lua = \<lparr>lua_Path = []\<rparr>, MailboxNaming = n, SMTP = example_smtp,
     POP3 = \<lparr>pop3_Addr = [], pop3_Domain = ''inbucket'', pop3_Timeout = 600, pop3_Debug = False,
       pop3_TLSEnabled = False, pop3_TLSPrivKey = [], pop3_TLSCert = [], pop3_ForceTLS = False\<rparr>,
     Web = \<lparr>web_Addr = [], BasePath = [], UIDir = [], GreetingFile = [], MonitorVisible = True,
       MonitorHistory = 30, PProf = False\<rparr>,
     Storage = \<lparr>Type = ''memory'', Params = [], RetentionPeriod = 86400, RetentionSleep = 50,
                MailboxMsgCap = 2\<rparr>\<rparr>\<rparr>"

theorem ExtractMailbox_local_lookup_witness:
  "ExtractMailbox (example_policy LocalNaming) ''Fred.B+x@mail.org'' = Ok ''fred.b''
   \<and> ExtractMailbox (example_policy LocalNaming) ''fred.b'' = Ok ''fred.b''"
proof -
  have e: "ExtractMailbox (example_policy LocalNaming) ''Fred.B+x@mail.org'' = Ok ''fred.b''"
    by (simp add: go_eval)
  have "ExtractMailbox (example_policy LocalNaming) ''fred.b'' = Ok ''fred.b''"
    by (rule ExtractMailbox_local_lookup [OF _ _ _ e]) (simp_all add: example_policy_def)
  with e show ?thesis by blast
qed

text \<open>
  With domain naming the mailbox keeps the case of the address, and a lookup by that name
  lower-cases it: mail for \<open>x@Mail.org\<close> is stored under a name that no bare lookup reaches.
\<close>
lemma domain_mailbox_case:
  "ExtractMailbox (example_policy DomainNaming) ''x@Mail.org'' = Ok ''Mail.org''
   \<and> ExtractMailbox (example_policy DomainNaming) ''Mail.org'' = Ok ''mail.org''"
  by (simp add: go_eval)

text \<open>With local naming a quoted local part may give a name that cannot be looked up.\<close>
lemma quoted_mailbox_lookup:
  "ExtractMailbox (example_policy LocalNaming) ''\".a\"@mail.org'' = Ok ''.a''
   \<and> ExtractMailbox (example_policy LocalNaming) ''.a'' = Err LeadingPeriod"
  by (simp add: go_eval)

subsection \<open>Accept and store policies\<close>

text \<open>
  Once \<open>Process\<close> has read the configuration, the accept and store decisions compare
  domains without regard to case on either side: under a default, all but the listed domains;
  otherwise only the listed ones.
\<close>
theorem domain_decisions_ignore_case:
  "(ShouldAcceptDomain \<lparr>aConfig = fst (Process c err)\<rparr> d \<longleftrightarrow>
      (if DefaultAccept (SMTP c) then ToLower d \<notin> ToLower ` set (RejectDomains (SMTP c))
       else ToLower d \<in> ToLower ` set (AcceptDomains (SMTP c))))
   \<and> (ShouldStoreDomain \<lparr>aConfig = fst (Process c err)\<rparr> d \<longleftrightarrow>
      (if DefaultStore (SMTP c) then ToLower d \<notin> ToLower ` set (DiscardDomains (SMTP c))
       else ToLower d \<in> ToLower ` set (StoreDomains (SMTP c))))"
  by (simp add: ShouldAcceptDomain_def ShouldStoreDomain_def SliceContains_iff Process_def
      lower_smtp_def SliceToLower_def)

lemma reject_loop_iff: "reject_loop ds d \<longleftrightarrow> (\<forall>p\<in>set ds. \<not> MatchWithWildcards p d)"
  by (induction ds) auto

lemma lower_char_star: "lower_char c = CHR ''*'' \<longleftrightarrow> c = CHR ''*''"
proof
  assume l: "lower_char c = CHR ''*''"
  have "\<not> is_upper c"
  proof
    assume u: "is_upper c"
    with l have "code (CHR ''*'') = code c + 32" using code_lower_char [of c] by simp
    with u show False by (simp add: is_upper_def code_def)
  qed
  with l show "c = CHR ''*''" by (simp add: lower_char_id)
qed (simp add: lower_char_id is_upper_def code_def)

lemma valid_domain_no_star: "ValidateDomainPart d \<Longrightarrow> \<not> bracketed d \<Longrightarrow> CHR ''*'' \<notin> set d"
proof -
  assume "ValidateDomainPart d" "\<not> bracketed d"
  then have dl: "list_all valid_label (Split (strip_dot d) (CHR ''.''))"
    by (simp add: ValidateDomainPart_iff dotted_labels_def)
  have "\<not> label_char (CHR ''*'')" by (simp add: go_eval)
  then have lab: "valid_label l \<Longrightarrow> CHR ''*'' \<notin> set l" for l by (auto simp: valid_label_def)
  have "CHR ''*'' \<in> set s \<Longrightarrow> \<exists>l\<in>set (Split s (CHR ''.'')). CHR ''*'' \<in> set l" for s
    by (induction s) (auto split: list.splits)
  with dl lab have "CHR ''*'' \<notin> set (strip_dot d)" unfolding list_all_iff by blast
  then show ?thesis
    by (cases d rule: rev_cases) (auto simp: strip_dot_def split: if_splits)
qed

text \<open>
  An origin with a validated (unbracketed) domain is refused exactly when the lower-cased
  domain is among the strings that one of the configured patterns denotes.
\<close>
theorem ShouldAcceptOriginDomain_iff:
  assumes "ValidateDomainPart d" and "\<not> bracketed d"
  shows "ShouldAcceptOriginDomain a d \<longleftrightarrow>
     (\<forall>p\<in>set (RejectOriginDomains (SMTP (aConfig a))). \<not> wild_match p (ToLower d))"
proof -
  have "CHR ''*'' \<notin> set (ToLower d)"
  proof
    assume "CHR ''*'' \<in> set (ToLower d)"
    then obtain c where "c \<in> set d" "lower_char c = CHR ''*''" by (auto simp: ToLower_def)
    with lower_char_star [of c] valid_domain_no_star [OF assms] show False by simp
  qed
  then have "MatchWithWildcards p (ToLower d) = wild_match p (ToLower d)" for p
    unfolding MatchWithWildcards_def by (rule wild_rows_match)
  then show ?thesis by (auto simp: ShouldAcceptOriginDomain_def reject_loop_iff Let_def)
qed

theorem ShouldAcceptOriginDomain_iff_witness:
  "ValidateDomainPart ''A.bad.com''
   \<and> \<not> ShouldAcceptOriginDomain (example_policy LocalNaming) ''A.bad.com''
   \<and> (\<exists>p\<in>set [''*.bad.com'']. wild_match p ''a.bad.com'')"
proof -
  have v: "ValidateDomainPart ''A.bad.com''" by (simp add: go_eval)
  have b: "\<not> bracketed ''A.bad.com''" by (simp add: bracketed_def)
  have r: "\<not> ShouldAcceptOriginDomain (example_policy LocalNaming) ''A.bad.com''" by (simp add: go_eval)
  have "ToLower ''A.bad.com'' = ''a.bad.com''" by (simp add: go_eval)
  with v r ShouldAcceptOriginDomain_iff [OF v b, of "example_policy LocalNaming"] show ?thesis
    by (simp add: example_policy_def example_smtp_def)
qed

end
