(* ===== verification/Events.thy ===== *)
theory Events
  imports StringUtil
begin

text \<open>
  \<open>pkg/extension\<close>: the event records (\<open>event/events.go\<close>) and the two listener brokers
  (\<open>broker.go\<close>, \<open>async_broker.go\<close>). A broker keeps two parallel slices, names and functions.
  A synchronous listener is a function from the event to an optional result. An asynchronous
  one is run in a goroutine of its own, so \<open>Async_Emit\<close> returns the goroutines it starts; the
  scheduler runs them in any order. What both promise to a caller that adds and removes
  listeners is the locale \<open>listener_registry\<close>.
\<close>

subsection \<open>Events\<close>

definition ActionDefer :: int where [go_eval]: "ActionDefer = 0"
definition ActionAllow :: int where [go_eval]: "ActionAllow = 1"
definition ActionDeny :: int where [go_eval]: "ActionDeny = 2"

record InboundMessage =
  imMailboxes :: "string list"
  imFrom :: "address option"
  imTo :: "address list"
  imSubject :: string
  imSize :: int

record MessageMetadata =
  mdMailbox :: string
  mdID :: string
  mdFrom :: "address option"
  mdTo :: "address list"
  mdDate :: int
  mdSubject :: string
  mdSize :: int
  mdSeen :: bool

record SMTPResponse =
  Action :: int
  ErrorCode :: int
  ErrorMsg :: string

record SMTPSession =
  ssFrom :: "address option"
  ssTo :: "address list"
  ssRemoteAddr :: string

subsection \<open>Listener lists\<close>

text \<open>The loop of \<open>lockedRemoveListener\<close>: cut both slices at the first entry of that name.\<close>

fun locked_remove :: "string \<Rightarrow> string list \<Rightarrow> 'f list \<Rightarrow> string list \<times> 'f list" where
  "locked_remove name (n # ns) (f # fs) =
     (if n = name then (ns, fs)
      else let (ns', fs') = locked_remove name ns fs in (n # ns', f # fs'))"
| "locked_remove name ns fs = (ns, fs)"

lemma locked_remove_zip:
  assumes "length ns = length fs" and "distinct ns"
  shows "length (fst (locked_remove n ns fs)) = length (snd (locked_remove n ns fs))
    \<and> zip (fst (locked_remove n ns fs)) (snd (locked_remove n ns fs))
        = filter (\<lambda>e. fst e \<noteq> n) (zip ns fs)"
  using assms
proof (induction n ns fs rule: locked_remove.induct)
  case (1 name n ns f fs)
  show ?case
  proof (cases "n = name")
    case True
    have "filter (\<lambda>e. fst e \<noteq> name) (zip ns fs) = zip ns fs"
      using "1.prems" True by (auto simp: filter_id_conv dest: set_zip_leftD)
    with True "1.prems" show ?thesis by simp
  next
    case False
    with 1 show ?thesis by (simp add: case_prod_beta Let_def)
  qed
qed auto

lemma locked_remove_distinct:
  "length ns = length fs \<Longrightarrow> distinct ns \<Longrightarrow> distinct (fst (locked_remove n ns fs))
     \<and> set (fst (locked_remove n ns fs)) = set ns - {n}"
  by (induction n ns fs rule: locked_remove.induct) (auto simp: case_prod_beta Let_def)

text \<open>What a broker promises about its listeners, in their order of priority.\<close>

locale listener_registry =
  fixes add :: "'b \<Rightarrow> string \<Rightarrow> 'f \<Rightarrow> 'b"
    and remove :: "'b \<Rightarrow> string \<Rightarrow> 'b"
    and entries :: "'b \<Rightarrow> (string \<times> 'f) list"
    and wf :: "'b \<Rightarrow> bool"
  assumes entries_distinct: "wf b \<Longrightarrow> distinct (map fst (entries b))"
    and wf_add: "wf b \<Longrightarrow> wf (add b n f)"
    and wf_remove: "wf b \<Longrightarrow> wf (remove b n)"
    and entries_remove: "wf b \<Longrightarrow> entries (remove b n) = filter (\<lambda>e. fst e \<noteq> n) (entries b)"
    and entries_add: "wf b \<Longrightarrow> entries (add b n f) = entries (remove b n) @ [(n, f)]"
begin

lemma add_replaces: "wf b \<Longrightarrow> entries (add (add b n f) n g) = entries (add b n g)"
  by (simp add: entries_add entries_remove wf_add)

lemma lookup_add:
  "wf b \<Longrightarrow> map_of (entries (add b n f)) k = (if k = n then Some f else map_of (entries b) k)"
proof -
  assume w: "wf b"
  have "map_of (filter (\<lambda>e. fst e \<noteq> n) xs @ [(n, f)]) k = (if k = n then Some f else map_of xs k)" for xs
    by (induction xs) auto
  with w show ?thesis by (simp add: entries_add entries_remove)
qed

lemma lookup_remove: "wf b \<Longrightarrow> map_of (entries (remove b n)) k = (if k = n then None else map_of (entries b) k)"
proof -
  assume w: "wf b"
  have "map_of (filter (\<lambda>e. fst e \<noteq> n) xs) k = (if k = n then None else map_of xs k)" for xs :: "(string \<times> 'f) list"
    by (induction xs) auto
  with w show ?thesis by (simp add: entries_remove)
qed

lemma remove_add: "wf b \<Longrightarrow> entries (remove (add b n f) n) = entries (remove b n)"
  by (simp add: entries_add entries_remove wf_add)

lemma add_order:
  "wf b \<Longrightarrow> m \<noteq> n \<Longrightarrow> filter (\<lambda>e. fst e \<noteq> n) (entries (add b n f)) = filter (\<lambda>e. fst e \<noteq> n) (entries b)"
  by (simp add: entries_add entries_remove)

end

subsection \<open>The synchronous broker\<close>

record ('e, 'r) EventBroker =
  listenerNames :: "string list"
  listenerFuncs :: "('e \<Rightarrow> 'r option) list"

definition empty_broker :: "('e, 'r) EventBroker" where
  [go_eval]: "empty_broker = \<lparr>listenerNames = [], listenerFuncs = []\<rparr>"

fun emit_loop :: "('e \<Rightarrow> 'r option) list \<Rightarrow> 'e \<Rightarrow> 'r option" where
  "emit_loop [] ev = None"
| "emit_loop (l # ls) ev = (case l ev of Some r \<Rightarrow> Some r | None \<Rightarrow> emit_loop ls ev)"

definition Emit :: "('e, 'r) EventBroker \<Rightarrow> 'e \<Rightarrow> 'r option" where
  [go_eval]: "Emit eb ev = emit_loop (listenerFuncs eb) ev"

definition RemoveListener :: "('e, 'r) EventBroker \<Rightarrow> string \<Rightarrow> ('e, 'r) EventBroker" where
  [go_eval]: "RemoveListener eb name =
     (let (ns, fs) = locked_remove name (listenerNames eb) (listenerFuncs eb)
      in \<lparr>listenerNames = ns, listenerFuncs = fs\<rparr>)"

definition AddListener :: "('e, 'r) EventBroker \<Rightarrow> string \<Rightarrow> ('e \<Rightarrow> 'r option) \<Rightarrow> ('e, 'r) EventBroker" where
  [go_eval]: "AddListener eb name listener =
     (let eb = RemoveListener eb name
      in \<lparr>listenerNames = listenerNames eb @ [name], listenerFuncs = listenerFuncs eb @ [listener]\<rparr>)"

definition broker_wf :: "('e, 'r) EventBroker \<Rightarrow> bool" where
  "broker_wf eb \<longleftrightarrow> length (listenerNames eb) = length (listenerFuncs eb) \<and> distinct (listenerNames eb)"

definition broker_entries :: "('e, 'r) EventBroker \<Rightarrow> (string \<times> ('e \<Rightarrow> 'r option)) list" where
  "broker_entries eb = zip (listenerNames eb) (listenerFuncs eb)"

lemma broker_wf_remove: "broker_wf eb \<Longrightarrow> broker_wf (RemoveListener eb n)"
  using locked_remove_zip [of "listenerNames eb" "listenerFuncs eb" n]
    locked_remove_distinct [of "listenerNames eb" "listenerFuncs eb" n]
  by (simp add: broker_wf_def RemoveListener_def case_prod_beta Let_def)

lemma broker_remove_names: "broker_wf eb \<Longrightarrow> n \<notin> set (listenerNames (RemoveListener eb n))"
  using locked_remove_distinct [of "listenerNames eb" "listenerFuncs eb" n]
  by (simp add: broker_wf_def RemoveListener_def case_prod_beta Let_def)

interpretation sync_registry: listener_registry AddListener RemoveListener broker_entries broker_wf
proof
  fix b :: "('e, 'r) EventBroker" and n :: string and f :: "'e \<Rightarrow> 'r option"
  assume w: "broker_wf b"
  show "distinct (map fst (broker_entries b))"
    using w by (simp add: broker_wf_def broker_entries_def)
  show "broker_wf (RemoveListener b n)" using w by (rule broker_wf_remove)
  show "broker_wf (AddListener b n f)"
    using broker_wf_remove [OF w, of n] broker_remove_names [OF w, of n]
    by (simp add: broker_wf_def AddListener_def Let_def)
  show "broker_entries (RemoveListener b n) = filter (\<lambda>e. fst e \<noteq> n) (broker_entries b)"
    using w locked_remove_zip [of "listenerNames b" "listenerFuncs b" n]
    by (simp add: broker_wf_def broker_entries_def RemoveListener_def case_prod_beta Let_def)
  show "broker_entries (AddListener b n f) = broker_entries (RemoveListener b n) @ [(n, f)]"
    using broker_wf_remove [OF w, of n]
    by (simp add: broker_wf_def broker_entries_def AddListener_def Let_def)
qed

lemma emit_loop_append: "emit_loop (xs @ ys) ev = (case emit_loop xs ev of None \<Rightarrow> emit_loop ys ev | r \<Rightarrow> r)"
  by (induction xs) (auto split: option.split)

text \<open>
  Registering a listener under a name replaces the one of that name and keeps the others in
  their order, at a higher priority than the new one: the new listener decides an event exactly
  when no remaining one does.
\<close>
theorem AddListener_priority:
  assumes "broker_wf eb"
  shows "map_of (broker_entries (AddListener eb n f)) k
           = (if k = n then Some f else map_of (broker_entries eb) k)
    \<and> Emit (AddListener eb n f) ev
        = (case Emit (RemoveListener eb n) ev of None \<Rightarrow> f ev | Some r \<Rightarrow> Some r)"
proof
  show "map_of (broker_entries (AddListener eb n f)) k
           = (if k = n then Some f else map_of (broker_entries eb) k)"
    using assms by (rule sync_registry.lookup_add)
  show "Emit (AddListener eb n f) ev
        = (case Emit (RemoveListener eb n) ev of None \<Rightarrow> f ev | Some r \<Rightarrow> Some r)"
    by (simp add: Emit_def AddListener_def Let_def emit_loop_append split: option.split)
qed

theorem AddListener_priority_witness:
  "Emit (AddListener (AddListener empty_broker ''a'' (\<lambda>x. if x < (3::nat) then Some x else None)) ''b'' Some) 5
     = Some 5"
proof -
  let ?eb = "AddListener empty_broker ''a'' (\<lambda>x. if x < (3::nat) then Some x else None)"
  have "broker_wf ?eb" by (simp add: broker_wf_def go_eval)
  from AddListener_priority [OF this, of "''b''" Some "''b''" 5] show ?thesis
    by (simp add: go_eval)
qed

subsection \<open>The asynchronous broker\<close>

record 'l AsyncEventBroker =
  asyncNames :: "string list"
  asyncFuncs :: "'l list"

definition empty_async :: "'l AsyncEventBroker" where
  [go_eval]: "empty_async = \<lparr>asyncNames = [], asyncFuncs = []\<rparr>"

text \<open>The goroutines \<open>Emit\<close> starts: each listener with its copy of the event.\<close>

definition Async_Emit :: "'l AsyncEventBroker \<Rightarrow> 'e \<Rightarrow> ('l \<times> 'e) list" where
  [go_eval]: "Async_Emit eb ev = map (\<lambda>l. (l, ev)) (asyncFuncs eb)"

definition Async_RemoveListener :: "'l AsyncEventBroker \<Rightarrow> string \<Rightarrow> 'l AsyncEventBroker" where
  [go_eval]: "Async_RemoveListener eb name =
     (let (ns, fs) = locked_remove name (asyncNames eb) (asyncFuncs eb)
      in \<lparr>asyncNames = ns, asyncFuncs = fs\<rparr>)"

definition Async_AddListener :: "'l AsyncEventBroker \<Rightarrow> string \<Rightarrow> 'l \<Rightarrow> 'l AsyncEventBroker" where
  [go_eval]: "Async_AddListener eb name listener =
     (let eb = Async_RemoveListener eb name
      in \<lparr>asyncNames = asyncNames eb @ [name], asyncFuncs = asyncFuncs eb @ [listener]\<rparr>)"

definition async_wf :: "'l AsyncEventBroker \<Rightarrow> bool" where
  "async_wf eb \<longleftrightarrow> length (asyncNames eb) = length (asyncFuncs eb) \<and> distinct (asyncNames eb)"

definition async_entries :: "'l AsyncEventBroker \<Rightarrow> (string \<times> 'l) list" where
  "async_entries eb = zip (asyncNames eb) (asyncFuncs eb)"

lemma async_wf_remove:
  "async_wf eb \<Longrightarrow> async_wf (Async_RemoveListener eb n) \<and> n \<notin> set (asyncNames (Async_RemoveListener eb n))"
  using locked_remove_zip [of "asyncNames eb" "asyncFuncs eb" n]
    locked_remove_distinct [of "asyncNames eb" "asyncFuncs eb" n]
  by (simp add: async_wf_def Async_RemoveListener_def case_prod_beta Let_def)

interpretation async_registry:
  listener_registry Async_AddListener Async_RemoveListener async_entries async_wf
proof
  fix b :: "'l AsyncEventBroker" and n :: string and f :: 'l
  assume w: "async_wf b"
  show "distinct (map fst (async_entries b))"
    using w by (simp add: async_wf_def async_entries_def)
  show "async_wf (Async_RemoveListener b n)" using async_wf_remove [OF w] by simp
  show "async_wf (Async_AddListener b n f)"
    using async_wf_remove [OF w, of n] by (simp add: async_wf_def Async_AddListener_def Let_def)
  show "async_entries (Async_RemoveListener b n) = filter (\<lambda>e. fst e \<noteq> n) (async_entries b)"
    using w locked_remove_zip [of "asyncNames b" "asyncFuncs b" n]
    by (simp add: async_wf_def async_entries_def Async_RemoveListener_def case_prod_beta Let_def)
  show "async_entries (Async_AddListener b n f) = async_entries (Async_RemoveListener b n) @ [(n, f)]"
    using async_wf_remove [OF w, of n]
    by (simp add: async_wf_def async_entries_def Async_AddListener_def Let_def)
qed

lemma Async_Emit_entries: "async_wf eb \<Longrightarrow> Async_Emit eb ev = map (\<lambda>e. (snd e, ev)) (async_entries eb)"
  by (rule nth_equalityI) (auto simp: Async_Emit_def async_entries_def async_wf_def)

end
