(* ===== verification/Storage.thy ===== *)
theory Storage
  imports Events
begin

text \<open>
  \<open>pkg/storage\<close>: the \<open>Message\<close> and \<open>Store\<close> interfaces and the hash lock. A message is the
  record of what its getters return; \<open>sSource\<close> is \<open>None\<close> where \<open>Source()\<close> fails. A store is a
  record of operations over a state (Go's method table): the managers and servers take it as an
  argument. What the callers rely on is the locale \<open>message_store\<close>, stated over an abstraction
  of the state, the message list of each mailbox; \<open>capped_store\<close> adds what a store without a
  size limit promises of \<open>AddMessage\<close>. Both are interpreted on the memory store.
\<close>

subsection \<open>The interfaces\<close>

record message =
  sMailbox :: string
  sID :: string
  sFrom :: "address option"
  sTo :: "address list"
  sDate :: int
  sSubject :: string
  sSource :: "string option"
  sSize :: int
  sSeen :: bool

text \<open>
  Errors of the storage layer; \<open>OsError\<close> is a failing call of the operating system,
  \<open>CorruptMailbox\<close> an index that does not decode, and \<open>Panic\<close> is a run-time panic of the store's goroutine, which
  ends the process.
\<close>

datatype store_error = ErrNotExist | ErrNotWritable | SourceError | OsError | CorruptMailbox | Panic

record 'st Store =
  AddMessage :: "'st \<Rightarrow> message \<Rightarrow> (store_error, string) result \<times> 'st"
  GetMessage :: "'st \<Rightarrow> string \<Rightarrow> string \<Rightarrow> (store_error, message option) result \<times> 'st"
  GetMessages :: "'st \<Rightarrow> string \<Rightarrow> (store_error, message list) result \<times> 'st"
  MarkSeen :: "'st \<Rightarrow> string \<Rightarrow> string \<Rightarrow> store_error option \<times> 'st"
  PurgeMessages :: "'st \<Rightarrow> string \<Rightarrow> store_error option \<times> 'st"
  RemoveMessage :: "'st \<Rightarrow> string \<Rightarrow> string \<Rightarrow> store_error option \<times> 'st"

text \<open>\<open>message.MakeMetadata\<close>.\<close>

definition MakeMetadata :: "message \<Rightarrow> MessageMetadata" where
  [go_eval]: "MakeMetadata m = \<lparr>mdMailbox = sMailbox m, mdID = sID m, mdFrom = sFrom m, mdTo = sTo m,
     mdDate = sDate m, mdSubject = sSubject m, mdSize = sSize m, mdSeen = sSeen m\<rparr>"

text \<open>
  \<open>message.Delivery\<close>, the message that is given to \<open>AddMessage\<close>: every getter reads the metadata,
  and \<open>Source\<close> is the reader.
\<close>

definition Delivery :: "MessageMetadata \<Rightarrow> string \<Rightarrow> message" where
  [go_eval]: "Delivery meta reader = \<lparr>sMailbox = mdMailbox meta, sID = mdID meta, sFrom = mdFrom meta, sTo = mdTo meta,
     sDate = mdDate meta, sSubject = mdSubject meta, sSource = Some reader, sSize = mdSize meta, sSeen = mdSeen meta\<rparr>"

lemma Delivery_simps [simp]:
  "MakeMetadata (Delivery meta reader) = meta" "sSource (Delivery meta reader) = Some reader"
  "sMailbox (Delivery meta reader) = mdMailbox meta" "sSubject (Delivery meta reader) = mdSubject meta"
  by (simp_all add: MakeMetadata_def Delivery_def)

subsection \<open>The hash lock\<close>

definition hex_val :: "char \<Rightarrow> nat" where
  [go_eval]: "hex_val c =
     (if is_digit c then code c - 48 else if is_lower c then code c - 87 else code c - 55)"

text \<open>
  \<open>HashLock.Get\<close>: the index of the lock for a hash, \<open>None\<close> for a nil lock. \<open>ParseInt\<close> with base
  16 also takes a sign: the index is then negative or two digits long.
\<close>

definition parse_hex3 :: "string \<Rightarrow> int option" where
  [go_eval]: "parse_hex3 s =
     (let (neg, ds) = (case s of
            c # cs \<Rightarrow> if c = CHR ''-'' then (True, cs) else if c = CHR ''+'' then (False, cs) else (False, s)
          | [] \<Rightarrow> (False, []))
      in if ds = [] \<or> \<not> list_all is_hexdigit ds then None
         else let v = int (foldl (\<lambda>n c. 16 * n + hex_val c) 0 ds) in Some (if neg then - v else v))"

definition HashLock_Get :: "string \<Rightarrow> int option" where
  [go_eval]: "HashLock_Get hash = (if length hash < 3 then None else parse_hex3 (take 3 hash))"

lemma hex_val_bound: "is_hexdigit c \<Longrightarrow> hex_val c < 16"
  by (auto simp: hex_val_def is_hexdigit_def is_digit_def is_lower_def)

lemma hexdigit_no_sign: "is_hexdigit c \<Longrightarrow> c \<noteq> CHR ''-'' \<and> c \<noteq> CHR ''+''"
  by (auto simp: is_hexdigit_def is_digit_def code_def)

text \<open>
  For a hexadecimal hash of three or more digits the lock exists and its index is within the
  array of 4096 locks.
\<close>
theorem HashLock_Get_bound:
  assumes "list_all is_hexdigit hash" and "3 \<le> length hash"
  shows "\<exists>i. HashLock_Get hash = Some i \<and> 0 \<le> i \<and> i < 4096"
proof -
  obtain a b c rest where h: "hash = a # b # c # rest"
    using assms(2) by (auto simp: numeral_eq_Suc Suc_le_length_iff)
  with assms(1) have d: "is_hexdigit a" "is_hexdigit b" "is_hexdigit c" by simp_all
  have "16 * (16 * hex_val a + hex_val b) + hex_val c < 4096"
  proof -
    have "hex_val a \<le> 15" "hex_val b \<le> 15" "hex_val c \<le> 15"
      using d hex_val_bound by fastforce+
    then show ?thesis by simp
  qed
  with d hexdigit_no_sign [OF d(1)] h show ?thesis
    by (simp add: HashLock_Get_def parse_hex3_def numeral_eq_Suc)
qed

theorem HashLock_Get_bound_witness: "\<exists>i. HashLock_Get ''fffabc'' = Some i \<and> 0 \<le> i \<and> i < 4096"
  by (rule HashLock_Get_bound) (simp_all add: go_eval)

subsection \<open>The contract of a store\<close>

text \<open>
  \<open>abs st mb\<close> are the messages of mailbox \<open>mb\<close>, oldest first, and \<open>inv\<close> the store's
  representation invariant. An add may evict messages of any mailbox (oldest first for a
  mailbox limit, store-wide for a size limit), so all it promises is that nothing but the new
  message appears and the order is kept.
\<close>

locale message_store =
  fixes ops :: "'st Store"
    and abs :: "'st \<Rightarrow> string \<Rightarrow> message list"
    and inv :: "'st \<Rightarrow> bool"
  assumes ids_distinct: "inv st \<Longrightarrow> distinct (map sID (abs st mb))"
    and mailbox_of: "inv st \<Longrightarrow> m \<in> set (abs st mb) \<Longrightarrow> sMailbox m = mb"
    and inv_add: "inv st \<Longrightarrow> AddMessage ops st m = (ra, st') \<Longrightarrow> inv st'"
    and add_result: "inv st \<Longrightarrow> sSource m = Some src \<Longrightarrow> \<exists>i st'. AddMessage ops st m = (Ok i, st')"
    and add_abs: "inv st \<Longrightarrow> AddMessage ops st m = (Ok i, st') \<Longrightarrow>
        subseq (abs st' mb)
          (abs st mb @ (if mb = sMailbox m
             then [m\<lparr>sID := i, sSize := int (length (the (sSource m))), sSeen := False\<rparr>] else []))"
    and inv_get: "inv st \<Longrightarrow> GetMessages ops st mb = (r, st') \<Longrightarrow> inv st'"
    and get_messages: "inv st \<Longrightarrow> GetMessages ops st mb = (r, st') \<Longrightarrow> r = Ok (abs st mb) \<and> abs st' = abs st"
    and inv_remove: "inv st \<Longrightarrow> RemoveMessage ops st mb i = (e, st') \<Longrightarrow> inv st'"
    and remove_abs: "inv st \<Longrightarrow> RemoveMessage ops st mb i = (e, st') \<Longrightarrow>
        abs st' = (abs st)(mb := filter (\<lambda>m. sID m \<noteq> i) (abs st mb))"
    and remove_result: "inv st \<Longrightarrow> RemoveMessage ops st mb i = (e, st') \<Longrightarrow>
        i \<in> sID ` set (abs st mb) \<Longrightarrow> e = None"
    and inv_purge: "inv st \<Longrightarrow> PurgeMessages ops st mb = (e, st') \<Longrightarrow> inv st'"
    and purge_abs: "inv st \<Longrightarrow> PurgeMessages ops st mb = (e, st') \<Longrightarrow> e = None \<and> abs st' = (abs st)(mb := [])"
    and inv_seen: "inv st \<Longrightarrow> MarkSeen ops st mb i = (e, st') \<Longrightarrow> inv st'"
    and seen_abs: "inv st \<Longrightarrow> MarkSeen ops st mb i = (e, st') \<Longrightarrow>
        e = None \<and> abs st' = (abs st)(mb := map (\<lambda>m. if sID m = i then m\<lparr>sSeen := True\<rparr> else m) (abs st mb))"
    and inv_get_one: "inv st \<Longrightarrow> GetMessage ops st mb i = (ro, st') \<Longrightarrow> inv st' \<and> abs st' = abs st"
    and get_one: "inv st \<Longrightarrow> GetMessage ops st mb i = (Ok (Some m), st') \<Longrightarrow>
        m \<in> set (abs st mb) \<and> (i \<noteq> ''latest'' \<longrightarrow> sID m = i)"
    and get_one_found: "inv st \<Longrightarrow> m \<in> set (abs st mb) \<Longrightarrow> sID m \<noteq> ''latest'' \<Longrightarrow>
        \<exists>st'. GetMessage ops st mb (sID m) = (Ok (Some m), st')"
    and get_missing: "inv st \<Longrightarrow> i \<notin> sID ` set (abs st mb) \<Longrightarrow> i \<noteq> ''latest'' \<Longrightarrow>
        GetMessage ops st mb i = (rm, st') \<Longrightarrow> rm = Ok None \<or> rm = Err ErrNotExist"
begin

lemma remove_step:
  assumes "inv st"
  shows "inv (snd (RemoveMessage ops st mb i))"
    and "abs (snd (RemoveMessage ops st mb i)) = (abs st)(mb := filter (\<lambda>m. sID m \<noteq> i) (abs st mb))"
proof -
  obtain e st' where r: "RemoveMessage ops st mb i = (e, st')" by fastforce
  show "inv (snd (RemoveMessage ops st mb i))" using inv_remove [OF assms r] r by simp
  show "abs (snd (RemoveMessage ops st mb i)) = (abs st)(mb := filter (\<lambda>m. sID m \<noteq> i) (abs st mb))"
    using remove_abs [OF assms r] r by simp
qed

lemma get_after_remove:
  assumes "inv st" and "RemoveMessage ops st mb i = (e, st')" and "GetMessages ops st' mb = (r, st'')"
  shows "\<exists>ms. r = Ok ms \<and> i \<notin> sID ` set ms"
  using get_messages [OF inv_remove [OF assms(1,2)] assms(3)] remove_abs [OF assms(1,2)] by auto

lemma get_after_purge:
  assumes "inv st" and "PurgeMessages ops st mb = (e, st')" and "GetMessages ops st' mb = (r, st'')"
  shows "r = Ok []"
  using get_messages [OF inv_purge [OF assms(1,2)] assms(3)] purge_abs [OF assms(1,2)] by auto

end

text \<open>A store with a limit per mailbox (0 for none) and no other: the new list is known.\<close>

definition keep_newest :: "int \<Rightarrow> 'a list \<Rightarrow> 'a list" where
  [go_eval]: "keep_newest cap xs = (if cap > 0 then drop (length xs - nat cap) xs else xs)"

lemma length_keep_newest: "0 < cap \<Longrightarrow> int (length (keep_newest cap xs)) \<le> cap"
  by (simp add: keep_newest_def)

lemma keep_newest_suffix: "suffix (keep_newest cap xs) xs"
  by (simp add: keep_newest_def suffix_drop)

locale capped_store = message_store +
  fixes cap :: int
  assumes add_capped: "inv st \<Longrightarrow> AddMessage ops st m = (Ok i, st') \<Longrightarrow>
      abs st' = (abs st)(sMailbox m := keep_newest cap (abs st (sMailbox m) @
        [m\<lparr>sID := i, sSize := int (length (the (sSource m))), sSeen := False\<rparr>]))"
begin

lemma add_then_get:
  assumes "inv st" and "AddMessage ops st m = (Ok i, st')" and "cap \<ge> 0"
    and "GetMessages ops st' (sMailbox m) = (r, st'')"
  shows "\<exists>ms. r = Ok ms \<and> ms \<noteq> [] \<and> last ms = m\<lparr>sID := i, sSize := int (length (the (sSource m))), sSeen := False\<rparr>
     \<and> (0 < cap \<longrightarrow> int (length ms) \<le> cap)"
proof -
  let ?m = "m\<lparr>sID := i, sSize := int (length (the (sSource m))), sSeen := False\<rparr>"
  let ?ms = "keep_newest cap (abs st (sMailbox m) @ [?m])"
  have "r = Ok ?ms"
    using get_messages [OF inv_add [OF assms(1,2)] assms(4)] add_capped [OF assms(1,2)] by simp
  moreover have "?ms \<noteq> [] \<and> last ?ms = ?m"
    using assms(3) by (auto simp: keep_newest_def)
  moreover have "0 < cap \<longrightarrow> int (length ?ms) \<le> cap" using length_keep_newest by blast
  ultimately show ?thesis by blast
qed

end

subsection \<open>Visiting the mailboxes\<close>

text \<open>
  \<open>VisitMailboxes\<close> calls a function with the messages of one mailbox after the other while it
  returns true. What it promises for a function that leaves the other mailboxes alone: every
  mailbox with mail is visited once, in some order, with the messages it has at that time, and
  beside them only mailboxes that the store has a record of: \<open>known\<close> (the memory store remembers empty ones).
\<close>

fun visit_each :: "'st Store \<Rightarrow> (message list \<Rightarrow> 'st \<Rightarrow> 'a \<Rightarrow> bool \<times> 'st \<times> 'a) \<Rightarrow> string list \<Rightarrow> 'st \<Rightarrow> 'a
    \<Rightarrow> bool \<times> 'st \<times> 'a" where
  "visit_each ds f [] st a = (True, st, a)"
| "visit_each ds f (mb # mbs) st a =
     (case GetMessages ds st mb of
        (r, st) \<Rightarrow>
          (case f (case r of Inl e \<Rightarrow> [] | Inr ms \<Rightarrow> ms) st a of
             (cont, st, a) \<Rightarrow> if \<not> cont then (False, st, a) else visit_each ds f mbs st a))"

lemma visit_each_append:
  "visit_each ds f (xs @ ys) st a =
    (case visit_each ds f xs st a of (cont, st, a) \<Rightarrow> if \<not> cont then (False, st, a) else visit_each ds f ys st a)"
  by (induction xs arbitrary: st a) (auto split: prod.split)

definition confined :: "('st \<Rightarrow> string \<Rightarrow> message list) \<Rightarrow> ('st \<Rightarrow> bool)
    \<Rightarrow> (message list \<Rightarrow> 'st \<Rightarrow> 'a \<Rightarrow> bool \<times> 'st \<times> 'a) \<Rightarrow> bool" where
  "confined A I f \<longleftrightarrow> (\<forall>st mb a cont st' a'. I st \<longrightarrow> f (A st mb) st a = (cont, st', a') \<longrightarrow>
     I st' \<and> (\<forall>m. m \<noteq> mb \<longrightarrow> A st' m = A st m))"

lemma confinedI:
  "(\<And>st mb a cont st' a'. I st \<Longrightarrow> f (A st mb) st a = (cont, st', a') \<Longrightarrow>
      I st' \<and> (\<forall>m. m \<noteq> mb \<longrightarrow> A st' m = A st m)) \<Longrightarrow> confined A I f"
  unfolding confined_def by blast

lemma confinedD:
  "confined A I f \<Longrightarrow> I st \<Longrightarrow> f (A st mb) st a = (cont, st', a') \<Longrightarrow>
    I st' \<and> (\<forall>m. m \<noteq> mb \<longrightarrow> A st' m = A st m)"
  unfolding confined_def by blast

locale visited_store = message_store ops abs inv
  for ops :: "'st Store" and abs :: "'st \<Rightarrow> string \<Rightarrow> message list" and inv :: "'st \<Rightarrow> bool" +
  fixes visit :: "(message list \<Rightarrow> 'st \<Rightarrow> 'a \<Rightarrow> bool \<times> 'st \<times> 'a) \<Rightarrow> 'st \<Rightarrow> 'a \<Rightarrow> store_error option \<times> 'st \<times> 'a"
    and known :: "'st \<Rightarrow> string set"
  assumes mail_known: "inv st \<Longrightarrow> abs st mb \<noteq> [] \<Longrightarrow> mb \<in> known st"
    and visit_spec: "inv st \<Longrightarrow> confined abs inv f \<Longrightarrow>
    \<exists>mbs. distinct mbs \<and> set mbs = known st
      \<and> visit f st a = (case visit_each ops f mbs st a of (cont, st, a) \<Rightarrow> (None, st, a))"

end
