(* ===== verification/StoreSpec.thy ===== *)
theory StoreSpec
  imports Storage
begin

text \<open>
  The abstract specification of a store: mailboxes as message lists without ids, and what a client
  that names messages by their position sees of adding, removing, marking and purging. Every store
  that satisfies the contract \<open>capped_store\<close> refines it.
\<close>

datatype client_op = CAdd message | CRemove string nat | CSeen string nat | CPurge string

definition blank :: "message \<Rightarrow> message" where
  [go_eval]: "blank m = m\<lparr>sID := []\<rparr>"

text \<open>The client lists the mailbox to learn the id of the message at the position.\<close>

definition id_at :: "'st Store \<Rightarrow> string \<Rightarrow> nat \<Rightarrow> 'st \<Rightarrow> string option \<times> 'st" where
  [go_eval]: "id_at ds mb k st =
     (case GetMessages ds st mb of
        (Inl e, st) \<Rightarrow> (None, st)
      | (Inr ms, st) \<Rightarrow> (if k < length ms then Some (sID (ms ! k)) else None, st))"

fun exec_op :: "'st Store \<Rightarrow> client_op \<Rightarrow> 'st \<Rightarrow> 'st" where
  "exec_op ds (CAdd m) st = snd (AddMessage ds st m)"
| "exec_op ds (CRemove mb k) st =
     (case id_at ds mb k st of (None, st) \<Rightarrow> st | (Some i, st) \<Rightarrow> snd (RemoveMessage ds st mb i))"
| "exec_op ds (CSeen mb k) st =
     (case id_at ds mb k st of (None, st) \<Rightarrow> st | (Some i, st) \<Rightarrow> snd (MarkSeen ds st mb i))"
| "exec_op ds (CPurge mb) st = snd (PurgeMessages ds st mb)"

fun spec_op :: "int \<Rightarrow> client_op \<Rightarrow> (string \<Rightarrow> message list) \<Rightarrow> (string \<Rightarrow> message list)" where
  "spec_op cap (CAdd m) L = L(sMailbox m := keep_newest cap (L (sMailbox m)
     @ [m\<lparr>sID := [], sSize := int (length (the (sSource m))), sSeen := False\<rparr>]))"
| "spec_op cap (CRemove mb k) L = L(mb := take k (L mb) @ drop (Suc k) (L mb))"
| "spec_op cap (CSeen mb k) L =
     (if k < length (L mb) then L(mb := (L mb)[k := (L mb ! k)\<lparr>sSeen := True\<rparr>]) else L)"
| "spec_op cap (CPurge mb) L = L(mb := [])"

fun op_ok :: "client_op \<Rightarrow> bool" where
  "op_ok (CAdd m) \<longleftrightarrow> sSource m \<noteq> None"
| "op_ok (CRemove mb k) \<longleftrightarrow> True"
| "op_ok (CSeen mb k) \<longleftrightarrow> True"
| "op_ok (CPurge mb) \<longleftrightarrow> True"

text \<open>What a client sees that lists a mailbox: the messages without their ids.\<close>

definition listing_of :: "'st Store \<Rightarrow> 'st \<Rightarrow> string \<Rightarrow> (store_error, message list) result" where
  [go_eval]: "listing_of ds st mb = (case fst (GetMessages ds st mb) of Inl e \<Rightarrow> Err e | Inr ms \<Rightarrow> Ok (map blank ms))"

lemma filter_id_at:
  assumes "distinct (map sID ms)" and "k < length ms"
  shows "filter (\<lambda>m. sID m \<noteq> sID (ms ! k)) ms = take k ms @ drop (Suc k) ms"
  using assms
proof (induction ms arbitrary: k)
  case (Cons m ms)
  show ?case
  proof (cases k)
    case 0
    with Cons.prems show ?thesis by (auto simp: filter_id_conv image_iff)
  next
    case (Suc j)
    then have "sID m \<noteq> sID (ms ! j)" using Cons.prems by (auto simp: image_iff)
    with Cons Suc show ?thesis by simp
  qed
qed simp

lemma seen_id_at:
  assumes "distinct (map sID ms)" and "k < length ms"
  shows "map (\<lambda>m. if sID m = sID (ms ! k) then m\<lparr>sSeen := True\<rparr> else m) ms = ms[k := (ms ! k)\<lparr>sSeen := True\<rparr>]"
  using assms by (intro nth_equalityI) (auto simp: nth_list_update distinct_conv_nth)

lemma map_keep_newest: "map f (keep_newest cap xs) = keep_newest cap (map f xs)"
  by (simp add: keep_newest_def drop_map)

lemma blank_new: "blank (m\<lparr>sID := j, sSize := s, sSeen := b\<rparr>) = m\<lparr>sID := [], sSize := s, sSeen := b\<rparr>"
  by (cases m) (simp add: blank_def)

lemma blank_seen: "blank (m\<lparr>sSeen := b\<rparr>) = (blank m)\<lparr>sSeen := b\<rparr>"
  by (cases m) (simp add: blank_def)

context capped_store
begin

definition view :: "'a \<Rightarrow> string \<Rightarrow> message list" where
  "view st mb = map blank (abs st mb)"

lemma listing_view: "inv st \<Longrightarrow> listing_of ops st mb = Ok (view st mb)"
  using get_messages [of st mb] by (cases "GetMessages ops st mb") (simp add: listing_of_def view_def)

lemma id_at_spec:
  assumes "inv st" and "id_at ops mb k st = (r, st')"
  shows "inv st' \<and> abs st' = abs st \<and> r = (if k < length (abs st mb) then Some (sID (abs st mb ! k)) else None)"
proof -
  obtain g st1 where g: "GetMessages ops st mb = (g, st1)" by fastforce
  with get_messages [OF assms(1) g] inv_get [OF assms(1) g] assms(2) show ?thesis by (auto simp: id_at_def)
qed

lemma exec_op_refines:
  assumes i: "inv st" and "op_ok c"
  shows "inv (exec_op ops c st) \<and> view (exec_op ops c st) = spec_op cap c (view st)"
proof (cases c)
  case (CAdd m)
  then obtain src where "sSource m = Some src" using assms(2) by auto
  then obtain j st' where a: "AddMessage ops st m = (Ok j, st')" using add_result [OF i] by blast
  from inv_add [OF i a] add_capped [OF i a] CAdd a show ?thesis
    by (auto simp: view_def map_keep_newest blank_new fun_eq_iff)
next
  case (CRemove mb k)
  obtain r st1 where r: "id_at ops mb k st = (r, st1)" by fastforce
  note s = id_at_spec [OF i r]
  show ?thesis
  proof (cases "k < length (abs st mb)")
    case True
    have "view (snd (RemoveMessage ops st1 mb (sID (abs st mb ! k)))) = (view st)(mb := take k (view st mb) @ drop (Suc k) (view st mb))"
      using remove_step(2) [of st1 mb "sID (abs st mb ! k)"] s filter_id_at [OF ids_distinct [OF i] True]
      by (auto simp: view_def fun_eq_iff take_map drop_map)
    with True s r CRemove remove_step(1) [of st1] show ?thesis by simp
  next
    case False
    with s r CRemove show ?thesis by (auto simp: view_def)
  qed
next
  case (CSeen mb k)
  obtain r st1 where r: "id_at ops mb k st = (r, st1)" by fastforce
  note s = id_at_spec [OF i r]
  show ?thesis
  proof (cases "k < length (abs st mb)")
    case True
    let ?i = "sID (abs st mb ! k)"
    obtain e st2 where m: "MarkSeen ops st1 mb ?i = (e, st2)" by fastforce
    have i1: "inv st1" using s by blast
    have "abs st2 = (abs st)(mb := (abs st mb)[k := (abs st mb ! k)\<lparr>sSeen := True\<rparr>])"
      using seen_abs [OF i1 m] s seen_id_at [OF ids_distinct [OF i] True] by simp
    then have "view st2 = (view st)(mb := (view st mb)[k := (view st mb ! k)\<lparr>sSeen := True\<rparr>])"
      using True by (auto simp: view_def fun_eq_iff map_update blank_seen)
    with True s r m CSeen inv_seen [OF i1 m] show ?thesis by (simp add: view_def)
  next
    case False
    with s r CSeen show ?thesis by (auto simp: view_def)
  qed
next
  case (CPurge mb)
  obtain e st' where p: "PurgeMessages ops st mb = (e, st')" by fastforce
  with purge_abs [OF i p] inv_purge [OF i p] CPurge show ?thesis by (auto simp: view_def)
qed

lemma exec_refines:
  "inv st \<Longrightarrow> \<forall>c\<in>set cs. op_ok c \<Longrightarrow>
    inv (fold (exec_op ops) cs st) \<and> view (fold (exec_op ops) cs st) = fold (spec_op cap) cs (view st)"
  by (induction cs arbitrary: st) (auto simp: exec_op_refines)

end

end
