(* ===== verification/MemStore.thy ===== *)
theory MemStore
  imports StoreSpec
begin

text \<open>
  \<open>pkg/storage/mem\<close>: the in-memory store (\<open>store.go\<close>, \<open>message.go\<close>) and its size enforcer
  (\<open>maxsize.go\<close>). Mailboxes and messages are association lists with distinct keys; Go ranges
  over a map in an unspecified order, the model in list order, and the properties do not depend
  on it. A caller of the enforcer waits until it has handled the request, so in one goroutine an
  operation and its enforcement are one function; \<open>None\<close> is a nil dereference in the enforcer.
  Operations of several goroutines that interleave between a mailbox's lock and the enforcer's
  channel are the subject of \<open>EnforcerRace\<close>.
\<close>

subsection \<open>State\<close>

record mem_message =
  mm_index :: nat
  mm_mailbox :: string
  mm_id :: string
  mm_from :: "address option"
  mm_to :: "address list"
  mm_date :: int
  mm_subject :: string
  mm_source :: string
  mm_seen :: bool

text \<open>The getters of \<open>message.go\<close>, as the interface sees them.\<close>

definition mm_Size :: "mem_message \<Rightarrow> int" where
  [go_eval]: "mm_Size m = int (length (mm_source m))"

definition to_message :: "mem_message \<Rightarrow> message" where
  [go_eval]: "to_message m = \<lparr>sMailbox = mm_mailbox m, sID = mm_id m, sFrom = mm_from m, sTo = mm_to m,
     sDate = mm_date m, sSubject = mm_subject m, sSource = Some (mm_source m), sSize = mm_Size m,
     sSeen = mm_seen m\<rparr>"

record mbox =
  mb_name :: string
  mb_last :: nat
  mb_first :: nat
  mb_messages :: "(string \<times> mem_message) list"

text \<open>
  The enforcer's local variables: \<open>all\<close> holds what it uses of a message (mailbox, id, size),
  \<open>els\<close> the messages whose \<open>el\<close> field it has set.
\<close>

record enforcer =
  en_max :: int
  en_all :: "((string \<times> string) \<times> int) list"
  en_cur :: int
  en_els :: "(string \<times> string) list"

text \<open>\<open>deleted\<close> records the \<open>AfterMessageDeleted\<close> events emitted, oldest first.\<close>

record mem_store =
  boxes :: "(string \<times> mbox) list"
  mcap :: int
  enf :: "enforcer option"
  deleted :: "MessageMetadata list"

text \<open>\<open>New\<close>: \<open>maxkb\<close> is the parameter's value, if given; \<open>None\<close> is the error return.\<close>

definition mem_New :: "int \<Rightarrow> string option \<Rightarrow> mem_store option" where
  [go_eval]: "mem_New cap maxkb =
     (let s = \<lparr>boxes = [], mcap = cap, enf = None, deleted = []\<rparr> in
      case maxkb of
        None \<Rightarrow> Some s
      | Some str \<Rightarrow>
          (case ParseInt 64 str of
             None \<Rightarrow> None
           | Some maxKB \<Rightarrow>
               if maxKB > 0
               then Some (s\<lparr>enf := Some \<lparr>en_max = maxKB * 1024, en_all = [], en_cur = 0, en_els = []\<rparr>\<rparr>)
               else Some s))"

subsection \<open>Mailboxes\<close>

definition get_box :: "mem_store \<Rightarrow> string \<Rightarrow> mbox" where
  [go_eval]: "get_box s mailbox =
     (case map_of (boxes s) mailbox of
        Some mb \<Rightarrow> mb
      | None \<Rightarrow> \<lparr>mb_name = mailbox, mb_last = 0, mb_first = 0, mb_messages = []\<rparr>)"

text \<open>\<open>withMailbox\<close> creates the mailbox if need be, also for a reader.\<close>

definition withMailbox :: "mem_store \<Rightarrow> string \<Rightarrow> (mbox \<Rightarrow> 'a \<times> mbox) \<Rightarrow> 'a \<times> mem_store" where
  [go_eval]: "withMailbox s mailbox f =
     (let (r, mb) = f (get_box s mailbox) in (r, s\<lparr>boxes := AList.update mailbox mb (boxes s)\<rparr>))"

text \<open>
  The cap loop of \<open>AddMessage\<close>. The first argument bounds the iterations; \<open>cap_loop_enough\<close>
  shows that the caller's bound is never reached.
\<close>

fun cap_loop :: "nat \<Rightarrow> int \<Rightarrow> mbox \<Rightarrow> mbox" where
  "cap_loop 0 cap mb = mb"
| "cap_loop (Suc n) cap mb =
     (if int (length (mb_messages mb)) > cap
      then cap_loop n cap (mb\<lparr>mb_messages := AList.delete (Utoa (mb_first mb)) (mb_messages mb),
                             mb_first := Suc (mb_first mb)\<rparr>)
      else mb)"

lemma cap_loop_numeral [go_eval]:
  "cap_loop (numeral v) cap mb =
     (if int (length (mb_messages mb)) > cap
      then cap_loop (pred_numeral v) cap (mb\<lparr>mb_messages := AList.delete (Utoa (mb_first mb)) (mb_messages mb),
                                           mb_first := Suc (mb_first mb)\<rparr>)
      else mb)"
  by (subst numeral_eq_Suc) simp

definition add_to_box :: "int \<Rightarrow> message \<Rightarrow> string \<Rightarrow> mbox \<Rightarrow> mem_message \<times> mbox" where
  [go_eval]: "add_to_box cap msg source mb =
     (let last' = Suc (mb_last mb);
          i = Utoa last';
          m = \<lparr>mm_index = last', mm_mailbox = sMailbox msg, mm_id = i, mm_from = sFrom msg,
               mm_to = sTo msg, mm_date = sDate msg, mm_subject = sSubject msg,
               mm_source = source, mm_seen = False\<rparr>;
          mb = mb\<lparr>mb_last := last', mb_messages := AList.update i m (mb_messages mb)\<rparr>
      in (m, if cap > 0 then cap_loop (Suc last' - mb_first mb) cap mb else mb))"

subsection \<open>Removal and the size enforcer\<close>

text \<open>\<open>removeMessage\<close> does not tell the enforcer.\<close>

definition removeMessage :: "mem_store \<Rightarrow> string \<Rightarrow> string \<Rightarrow> mem_message option \<times> mem_store" where
  [go_eval]: "removeMessage s mailbox i =
     (let (m, s) = withMailbox s mailbox (\<lambda>mb.
            case map_of (mb_messages mb) i of
              None \<Rightarrow> (None, mb)
            | Some m \<Rightarrow> (Some m, mb\<lparr>mb_messages := AList.delete i (mb_messages mb)\<rparr>))
      in case m of
           None \<Rightarrow> (None, s)
         | Some m \<Rightarrow> (Some m, s\<lparr>deleted := deleted s @ [MakeMetadata (to_message m)]\<rparr>))"

text \<open>
  The inner loop of \<open>maxSizeEnforcer\<close>: while the size is over the limit, take the oldest message
  off the list and remove it from its mailbox; the front of an empty list is nil (\<open>None\<close>).
\<close>

fun enforce_loop :: "int \<Rightarrow> ((string \<times> string) \<times> int) list \<Rightarrow> int \<Rightarrow> mem_store
    \<Rightarrow> (((string \<times> string) \<times> int) list \<times> int \<times> mem_store) option" where
  "enforce_loop maxSize [] cur s = (if cur > maxSize then None else Some ([], cur, s))"
| "enforce_loop maxSize (((mailbox, i), sz) # rest) cur s =
     (if cur > maxSize then
        (let (r, s') = removeMessage s mailbox i
         in enforce_loop maxSize rest (if r \<noteq> None then cur - sz else cur) s')
      else Some (((mailbox, i), sz) # rest, cur, s))"

definition enforcerDeliver :: "mem_store \<Rightarrow> mem_message \<Rightarrow> mem_store option" where
  [go_eval]: "enforcerDeliver s m =
     (case enf s of
        None \<Rightarrow> Some s
      | Some e \<Rightarrow>
          (let key = (mm_mailbox m, mm_id m) in
           case enforce_loop (en_max e) (en_all e @ [(key, mm_Size m)]) (en_cur e + mm_Size m) s of
             None \<Rightarrow> None
           | Some (all', cur', s') \<Rightarrow>
               Some (s'\<lparr>enf := Some (e\<lparr>en_all := all', en_cur := cur', en_els := key # en_els e\<rparr>)\<rparr>)))"

text \<open>\<open>all.Remove(m.el)\<close> panics on a nil element; it ignores one that has left the list, but the
  size is subtracted all the same.\<close>

definition enforcerRemove :: "mem_store \<Rightarrow> mem_message \<Rightarrow> mem_store option" where
  [go_eval]: "enforcerRemove s m =
     (case enf s of
        None \<Rightarrow> Some s
      | Some e \<Rightarrow>
          (let key = (mm_mailbox m, mm_id m) in
           if key \<notin> set (en_els e) then None
           else Some (s\<lparr>enf := Some (e\<lparr>en_all := filter (\<lambda>x. fst x \<noteq> key) (en_all e),
                                       en_cur := en_cur e - mm_Size m\<rparr>)\<rparr>)))"

subsection \<open>Operations\<close>

definition mem_AddMessage :: "mem_store \<Rightarrow> message \<Rightarrow> (store_error, string) result \<times> mem_store" where
  [go_eval]: "mem_AddMessage s message =
     (case sSource message of
        None \<Rightarrow> (Err SourceError, s)
      | Some source \<Rightarrow>
          (let (m, s) = withMailbox s (sMailbox message) (add_to_box (mcap s) message source)
           in case enforcerDeliver s m of
                None \<Rightarrow> (Err Panic, s)
              | Some s \<Rightarrow> (Ok (mm_id m), s)))"

definition mem_GetMessages :: "mem_store \<Rightarrow> string \<Rightarrow> (store_error, message list) result \<times> mem_store" where
  [go_eval]: "mem_GetMessages s mailbox =
     (let (ms, s) = withMailbox s mailbox (\<lambda>mb.
            (sort_key mm_index (map snd (mb_messages mb)), mb))
      in (Ok (map to_message ms), s))"

definition mem_GetMessage :: "mem_store \<Rightarrow> string \<Rightarrow> string \<Rightarrow> (store_error, message option) result \<times> mem_store" where
  [go_eval]: "mem_GetMessage s mailbox i =
     (if i = ''latest'' then
        (case mem_GetMessages s mailbox of
           (Inl e, s) \<Rightarrow> (Err e, s)
         | (Inr ms, s) \<Rightarrow> (Ok (if ms = [] then None else Some (last ms)), s))
      else
        (let (m, s) = withMailbox s mailbox (\<lambda>mb. (map_of (mb_messages mb) i, mb))
         in (Ok (map_option to_message m), s)))"

definition mem_MarkSeen :: "mem_store \<Rightarrow> string \<Rightarrow> string \<Rightarrow> store_error option \<times> mem_store" where
  [go_eval]: "mem_MarkSeen s mailbox i =
     (None, snd (withMailbox s mailbox (\<lambda>mb.
        ((), case map_of (mb_messages mb) i of
               None \<Rightarrow> mb
             | Some m \<Rightarrow> mb\<lparr>mb_messages := AList.update i (m\<lparr>mm_seen := True\<rparr>) (mb_messages mb)\<rparr>))))"

fun enforcerRemove_all :: "mem_store \<Rightarrow> mem_message list \<Rightarrow> mem_store option" where
  "enforcerRemove_all s [] = Some s"
| "enforcerRemove_all s (m # ms) =
     (case enforcerRemove s m of None \<Rightarrow> None | Some s \<Rightarrow> enforcerRemove_all s ms)"

definition mem_PurgeMessages :: "mem_store \<Rightarrow> string \<Rightarrow> store_error option \<times> mem_store" where
  [go_eval]: "mem_PurgeMessages s mailbox =
     (let (messages, s) = withMailbox s mailbox (\<lambda>mb.
            (map snd (mb_messages mb), mb\<lparr>mb_messages := []\<rparr>))
      in case enforcerRemove_all s messages of
           None \<Rightarrow> (Some Panic, s)
         | Some s \<Rightarrow>
             (None, s\<lparr>deleted := deleted s @ map (\<lambda>m. MakeMetadata (to_message m)) messages\<rparr>))"

definition mem_RemoveMessage :: "mem_store \<Rightarrow> string \<Rightarrow> string \<Rightarrow> store_error option \<times> mem_store" where
  [go_eval]: "mem_RemoveMessage s mailbox i =
     (let (m, s) = removeMessage s mailbox i in
      case m of
        None \<Rightarrow> (None, s)
      | Some m \<Rightarrow> (case enforcerRemove s m of None \<Rightarrow> (Some Panic, s) | Some s \<Rightarrow> (None, s)))"

text \<open>
  \<open>VisitMailboxes\<close>: the names are taken once; \<open>f\<close> may use the store and has a state of its own,
  and its first result tells whether to go on.
\<close>

fun visit_loop :: "(message list \<Rightarrow> mem_store \<Rightarrow> 'a \<Rightarrow> bool \<times> mem_store \<times> 'a) \<Rightarrow> string list
    \<Rightarrow> mem_store \<Rightarrow> 'a \<Rightarrow> mem_store \<times> 'a" where
  "visit_loop f [] s a = (s, a)"
| "visit_loop f (mailbox # names) s a =
     (case mem_GetMessages s mailbox of
        (r, s) \<Rightarrow>
          (case f (case r of Inl e \<Rightarrow> [] | Inr ms \<Rightarrow> ms) s a of
             (cont, s, a) \<Rightarrow> if \<not> cont then (s, a) else visit_loop f names s a))"

definition mem_VisitMailboxes :: "(message list \<Rightarrow> mem_store \<Rightarrow> 'a \<Rightarrow> bool \<times> mem_store \<times> 'a)
    \<Rightarrow> mem_store \<Rightarrow> 'a \<Rightarrow> store_error option \<times> mem_store \<times> 'a" where
  [go_eval]: "mem_VisitMailboxes f s a = (None, visit_loop f (map fst (boxes s)) s a)"

definition mem_ops :: "mem_store Store" where
  [go_eval]: "mem_ops = \<lparr>AddMessage = mem_AddMessage, GetMessage = mem_GetMessage, GetMessages = mem_GetMessages,
     MarkSeen = mem_MarkSeen, PurgeMessages = mem_PurgeMessages, RemoveMessage = mem_RemoveMessage\<rparr>"

end
