(* ===== verification/MemStoreProps.thy ===== *)
theory MemStoreProps
  imports MemStore
begin

text \<open>
  Correctness of the memory store: the representation invariant of a mailbox and of the size
  enforcer, that every operation keeps them, what every operation does to the message lists, and
  the interpretation of the storage contracts.
\<close>

subsection \<open>Mailboxes\<close>

definition box_msgs :: "mbox \<Rightarrow> mem_message list" where
  "box_msgs mb = map snd (mb_messages mb)"

definition box_ok :: "string \<Rightarrow> mbox \<Rightarrow> bool" where
  "box_ok name mb \<longleftrightarrow>
     sorted_wrt (<) (map (mm_index \<circ> snd) (mb_messages mb)) \<and> mb_first mb \<le> Suc (mb_last mb) \<and>
     (\<forall>(k, m)\<in>set (mb_messages mb). k = Utoa (mm_index m) \<and> mm_id m = k \<and> mm_mailbox m = name \<and>
        mb_first mb \<le> mm_index m \<and> mm_index m \<le> mb_last mb)"

lemma box_ok_mem:
  "box_ok name mb \<Longrightarrow> (k, m) \<in> set (mb_messages mb) \<Longrightarrow>
     k = Utoa (mm_index m) \<and> mm_id m = k \<and> mm_mailbox m = name \<and>
     mb_first mb \<le> mm_index m \<and> mm_index m \<le> mb_last mb"
  by (auto simp: box_ok_def)

lemma box_ok_messages:
  "box_ok name (mb\<lparr>mb_messages := al\<rparr>) \<longleftrightarrow>
     sorted_wrt (<) (map (mm_index \<circ> snd) al) \<and> mb_first mb \<le> Suc (mb_last mb) \<and>
     (\<forall>(k, m)\<in>set al. k = Utoa (mm_index m) \<and> mm_id m = k \<and> mm_mailbox m = name \<and>
        mb_first mb \<le> mm_index m \<and> mm_index m \<le> mb_last mb)"
  by (simp add: box_ok_def)

lemma box_ok_keys: "box_ok name mb \<Longrightarrow> map fst (mb_messages mb) = map (Utoa \<circ> mm_index) (box_msgs mb)"
  by (auto simp: box_msgs_def dest: box_ok_mem)

lemma box_ok_distinct:
  assumes "box_ok name mb"
  shows "distinct (map fst (mb_messages mb))" and "distinct (map mm_id (box_msgs mb))"
proof -
  have "sorted_wrt (<) (map mm_index (box_msgs mb))"
    using assms by (simp add: box_ok_def box_msgs_def)
  then have "distinct (map mm_index (box_msgs mb))"
    by (simp add: strict_sorted_iff)
  then have d: "distinct (map (Utoa \<circ> mm_index) (box_msgs mb))"
    by (auto simp: distinct_map inj_on_def)
  with box_ok_keys [OF assms] show "distinct (map fst (mb_messages mb))" by simp
  have "map mm_id (box_msgs mb) = map (Utoa \<circ> mm_index) (box_msgs mb)"
    using assms by (auto simp: box_msgs_def dest: box_ok_mem)
  with d show "distinct (map mm_id (box_msgs mb))" by metis
qed

lemma box_sort: "box_ok name mb \<Longrightarrow> sort_key mm_index (map snd (mb_messages mb)) = box_msgs mb"
proof -
  assume "box_ok name mb"
  then have "sorted_wrt (<) (map mm_index (box_msgs mb))"
    by (simp add: box_ok_def box_msgs_def)
  then have "sorted (map mm_index (box_msgs mb))" by (simp add: strict_sorted_iff)
  then show ?thesis by (simp add: box_msgs_def sort_key_id_if_sorted)
qed

lemma box_lookup:
  assumes "box_ok name mb"
  shows "map_of (mb_messages mb) i = find (\<lambda>m. mm_id m = i) (box_msgs mb)"
proof -
  have "\<forall>(k, m)\<in>set xs. mm_id m = k \<Longrightarrow> map_of xs i = find (\<lambda>m. mm_id m = i) (map snd xs)" for xs
    by (induction xs) auto
  from this [of "mb_messages mb"] assms show ?thesis
    by (auto simp: box_msgs_def dest: box_ok_mem)
qed

lemma find_id_Some: "find (\<lambda>m. mm_id m = i) ms = Some m \<Longrightarrow> m \<in> set ms \<and> mm_id m = i"
  by (auto simp: find_Some_iff)

lemma find_id_None: "find (\<lambda>m. mm_id m = i) ms = None \<longleftrightarrow> i \<notin> mm_id ` set ms"
  by (auto simp: find_None_iff)

lemma find_id_mem: "distinct (map mm_id ms) \<Longrightarrow> m \<in> set ms \<Longrightarrow> find (\<lambda>x. mm_id x = mm_id m) ms = Some m"
  by (induction ms) (auto simp: image_iff)

lemma box_delete:
  assumes "box_ok name mb"
  shows "box_ok name (mb\<lparr>mb_messages := AList.delete i (mb_messages mb)\<rparr>)"
    and "box_msgs (mb\<lparr>mb_messages := AList.delete i (mb_messages mb)\<rparr>)
          = filter (\<lambda>m. mm_id m \<noteq> i) (box_msgs mb)"
proof -
  have "sorted_wrt (<) (map (mm_index \<circ> snd) xs) \<Longrightarrow> sorted_wrt (<) (map (mm_index \<circ> snd) (filter P xs))"
    for P and xs :: "(string \<times> mem_message) list"
    by (induction xs) auto
  with assms show "box_ok name (mb\<lparr>mb_messages := AList.delete i (mb_messages mb)\<rparr>)"
    by (auto simp: box_ok_def AList_delete_filter)
  have "\<forall>(k, m)\<in>set xs. mm_id m = k \<Longrightarrow>
      map snd (filter (\<lambda>p. fst p \<noteq> i) xs) = filter (\<lambda>m. mm_id m \<noteq> i) (map snd xs)" for xs
    by (induction xs) auto
  with assms show "box_msgs (mb\<lparr>mb_messages := AList.delete i (mb_messages mb)\<rparr>)
          = filter (\<lambda>m. mm_id m \<noteq> i) (box_msgs mb)"
    by (auto simp: box_msgs_def AList_delete_filter dest: box_ok_mem)
qed

lemma box_ok_empty: "box_ok name \<lparr>mb_name = name, mb_last = 0, mb_first = 0, mb_messages = []\<rparr>"
  by (simp add: box_ok_def)

lemma box_ok_first:
  assumes "box_ok name mb" and "mb_messages mb = (k, m) # rest"
  shows "AList.delete (Utoa (mb_first mb)) (mb_messages mb)
           = (if mm_index m = mb_first mb then rest else mb_messages mb)"
    and "box_ok name (mb\<lparr>mb_messages := AList.delete (Utoa (mb_first mb)) (mb_messages mb),
                       mb_first := Suc (mb_first mb)\<rparr>)"
proof -
  have later: "mm_index m < mm_index m'" if "(k', m') \<in> set rest" for k' m'
    using assms that by (auto simp: box_ok_def)
  have k: "k = Utoa (mm_index m)" "mb_first mb \<le> mm_index m" "mm_index m \<le> mb_last mb"
    using box_ok_mem [OF assms(1), of k m] assms(2) by auto
  have keys: "k' = Utoa (mm_index m')" if "(k', m') \<in> set rest" for k' m'
    using box_ok_mem [OF assms(1), of k' m'] assms(2) that by auto
  have rest: "filter (\<lambda>p. fst p \<noteq> Utoa (mb_first mb)) rest = rest"
    using later keys k(2) by (fastforce simp: filter_id_conv)
  with k show del: "AList.delete (Utoa (mb_first mb)) (mb_messages mb)
           = (if mm_index m = mb_first mb then rest else mb_messages mb)"
    by (simp add: AList_delete_filter assms(2))
  have "mb_first mb < mm_index m'" if "(k', m') \<in> set (AList.delete (Utoa (mb_first mb)) (mb_messages mb))"
    for k' m'
    using that k later box_ok_mem [OF assms(1), of k' m'] unfolding del
    by (fastforce simp: assms(2) split: if_splits)
  with box_delete(1) [OF assms(1), of "Utoa (mb_first mb)"] k
  show "box_ok name (mb\<lparr>mb_messages := AList.delete (Utoa (mb_first mb)) (mb_messages mb),
                       mb_first := Suc (mb_first mb)\<rparr>)"
    by (auto simp: box_ok_def Suc_le_eq)
qed

text \<open>The cap loop leaves the newest \<open>cap\<close> messages; its bound on the iterations is enough.\<close>

lemma cap_loop_spec:
  assumes "box_ok name mb" and "0 < cap" and "Suc (mb_last mb) - mb_first mb \<le> n"
  shows "box_ok name (cap_loop n cap mb)
     \<and> mb_messages (cap_loop n cap mb) = keep_newest cap (mb_messages mb)
     \<and> mb_last (cap_loop n cap mb) = mb_last mb"
  using assms
proof (induction n arbitrary: mb)
  case 0
  have "mb_messages mb = []"
  proof (rule ccontr)
    assume "mb_messages mb \<noteq> []"
    then obtain k m where "(k, m) \<in> set (mb_messages mb)" by (cases "mb_messages mb") auto
    with "0.prems" box_ok_mem [OF "0.prems"(1) this] show False by simp
  qed
  with 0 show ?case by (simp add: keep_newest_def)
next
  case (Suc n)
  show ?case
  proof (cases "int (length (mb_messages mb)) > cap")
    case True
    then obtain k m rest where msgs: "mb_messages mb = (k, m) # rest"
      using Suc.prems(2) by (cases "mb_messages mb") auto
    let ?mb = "mb\<lparr>mb_messages := AList.delete (Utoa (mb_first mb)) (mb_messages mb),
                 mb_first := Suc (mb_first mb)\<rparr>"
    have ok: "box_ok name ?mb" using box_ok_first(2) [OF Suc.prems(1) msgs] .
    have "Suc (mb_last ?mb) - mb_first ?mb \<le> n" using Suc.prems(3) by simp
    from Suc.IH [OF ok Suc.prems(2) this]
    have IH: "box_ok name (cap_loop n cap ?mb)
      \<and> mb_messages (cap_loop n cap ?mb) = keep_newest cap (mb_messages ?mb)
      \<and> mb_last (cap_loop n cap ?mb) = mb_last mb"
      by simp
    have "keep_newest cap (mb_messages ?mb) = keep_newest cap (mb_messages mb)"
      using True Suc.prems(2) box_ok_first(1) [OF Suc.prems(1) msgs]
      by (auto simp: keep_newest_def msgs Suc_diff_le split: if_splits)
    with IH True show ?thesis by simp
  next
    case False
    with Suc.prems show ?thesis by (simp add: keep_newest_def)
  qed
qed

lemma add_to_box_spec:
  assumes "box_ok name mb" and "sMailbox msg = name" and "add_to_box cap msg src mb = (m, mb')"
  shows "box_ok name mb'"
    and "box_msgs mb' = keep_newest cap (box_msgs mb @ [m])"
    and "mb_last mb' = Suc (mb_last mb)"
    and "m = \<lparr>mm_index = Suc (mb_last mb), mm_mailbox = name, mm_id = Utoa (Suc (mb_last mb)),
              mm_from = sFrom msg, mm_to = sTo msg, mm_date = sDate msg, mm_subject = sSubject msg,
              mm_source = src, mm_seen = False\<rparr>"
proof -
  show m: "m = \<lparr>mm_index = Suc (mb_last mb), mm_mailbox = name, mm_id = Utoa (Suc (mb_last mb)),
              mm_from = sFrom msg, mm_to = sTo msg, mm_date = sDate msg, mm_subject = sSubject msg,
              mm_source = src, mm_seen = False\<rparr>"
    using assms(2,3) by (simp add: add_to_box_def Let_def)
  let ?mb = "mb\<lparr>mb_last := Suc (mb_last mb), mb_messages := mb_messages mb @ [(mm_id m, m)]\<rparr>"
  have "mm_id m \<notin> fst ` set (mb_messages mb)"
  proof
    assume "mm_id m \<in> fst ` set (mb_messages mb)"
    then obtain m' where "(mm_id m, m') \<in> set (mb_messages mb)" by auto
    from box_ok_mem [OF assms(1) this] m show False by auto
  qed
  then have up: "AList.update (mm_id m) m (mb_messages mb) = mb_messages mb @ [(mm_id m, m)]"
    by (rule AList_update_new)
  then have mb': "mb' = (if cap > 0 then cap_loop (Suc (Suc (mb_last mb)) - mb_first mb) cap ?mb else ?mb)"
    using assms(2,3) m by (auto simp: add_to_box_def Let_def)
  have ok: "box_ok name ?mb"
    using assms(1) m by (auto simp: box_ok_def sorted_wrt_append less_Suc_eq_le)
  have sp: "0 < cap \<Longrightarrow> box_ok name mb' \<and> mb_messages mb' = keep_newest cap (mb_messages ?mb)
      \<and> mb_last mb' = Suc (mb_last mb)"
    using cap_loop_spec [OF ok, of cap "Suc (Suc (mb_last mb)) - mb_first mb"] mb' by simp
  with mb' ok show "box_ok name mb'" by (cases "0 < cap") auto
  from sp mb' show "mb_last mb' = Suc (mb_last mb)" by (cases "0 < cap") auto
  have "0 < cap \<Longrightarrow> box_msgs mb' = keep_newest cap (box_msgs ?mb)"
    using sp by (simp add: box_msgs_def keep_newest_def drop_map)
  with mb' show "box_msgs mb' = keep_newest cap (box_msgs mb @ [m])"
    by (cases "0 < cap") (auto simp: box_msgs_def keep_newest_def)
qed

subsection \<open>The store without its enforcer\<close>

definition boxes_ok :: "mem_store \<Rightarrow> bool" where
  "boxes_ok s \<longleftrightarrow> distinct (map fst (boxes s)) \<and> (\<forall>(n, mb)\<in>set (boxes s). box_ok n mb)"

definition msgs_of :: "mem_store \<Rightarrow> string \<Rightarrow> mem_message list" where
  "msgs_of s n = box_msgs (get_box s n)"

definition mem_abs :: "mem_store \<Rightarrow> string \<Rightarrow> message list" where
  "mem_abs s n = map to_message (msgs_of s n)"

lemma get_box_ok: "boxes_ok s \<Longrightarrow> box_ok n (get_box s n)"
  by (auto simp: boxes_ok_def get_box_def box_ok_empty dest: map_of_SomeD split: option.split)

lemma get_box_update [simp]:
  "get_box (s\<lparr>boxes := AList.update n mb (boxes s)\<rparr>) k = (if k = n then mb else get_box s k)"
  by (simp add: get_box_def update_conv')

lemma boxes_ok_update:
  "boxes_ok s \<Longrightarrow> box_ok n mb \<Longrightarrow> boxes_ok (s\<lparr>boxes := AList.update n mb (boxes s)\<rparr>)"
proof -
  assume s: "boxes_ok s" and mb: "box_ok n mb"
  have "(k, b) \<in> set (AList.update n mb al) \<Longrightarrow> (k, b) = (n, mb) \<or> (k, b) \<in> set al"
    for k b and al :: "(string \<times> mbox) list"
    by (induction al) (auto split: if_splits)
  with s mb show ?thesis
    by (fastforce simp: boxes_ok_def distinct_update)
qed

lemma boxes_ok_fields [simp]:
  "boxes_ok (s\<lparr>deleted := d\<rparr>) = boxes_ok s" "boxes_ok (s\<lparr>enf := e\<rparr>) = boxes_ok s"
  "get_box (s\<lparr>deleted := d\<rparr>) n = get_box s n" "get_box (s\<lparr>enf := e\<rparr>) n = get_box s n"
  by (simp_all add: boxes_ok_def get_box_def)

lemma msgs_of_mem:
  "boxes_ok s \<Longrightarrow> m \<in> set (msgs_of s n) \<Longrightarrow>
     mm_mailbox m = n \<and> mm_id m = Utoa (mm_index m) \<and> mm_index m \<le> mb_last (get_box s n)"
proof -
  assume "boxes_ok s" "m \<in> set (msgs_of s n)"
  then obtain k where "(k, m) \<in> set (mb_messages (get_box s n))"
    by (auto simp: msgs_of_def box_msgs_def)
  from box_ok_mem [OF get_box_ok [OF \<open>boxes_ok s\<close>] this] show ?thesis by simp
qed

lemma msgs_of_distinct: "boxes_ok s \<Longrightarrow> distinct (map mm_id (msgs_of s n))"
  unfolding msgs_of_def by (rule box_ok_distinct(2) [OF get_box_ok])

text \<open>What a removal does, whether or not the message is there.\<close>

lemma removeMessage_spec:
  assumes "boxes_ok s" and "removeMessage s n i = (r, s')"
  shows "boxes_ok s'"
    and "msgs_of s' k = (if k = n then filter (\<lambda>m. mm_id m \<noteq> i) (msgs_of s n) else msgs_of s k)"
    and "mb_last (get_box s' k) = mb_last (get_box s k)"
    and "r = find (\<lambda>m. mm_id m = i) (msgs_of s n)"
    and "enf s' = enf s" and "mcap s' = mcap s"
    and "deleted s' = deleted s @ (case r of None \<Rightarrow> [] | Some m \<Rightarrow> [MakeMetadata (to_message m)])"
proof -
  let ?mb = "get_box s n"
  note ok = get_box_ok [OF assms(1), of n]
  note lk = box_lookup [OF ok, of i]
  have noop: "filter (\<lambda>m. mm_id m \<noteq> i) (box_msgs ?mb) = box_msgs ?mb"
    if "find (\<lambda>m. mm_id m = i) (box_msgs ?mb) = None"
    using that by (auto simp: find_id_None filter_id_conv)
  note defs = removeMessage_def withMailbox_def Let_def lk msgs_of_def
  show "boxes_ok s'"
    using assms ok box_delete(1) [OF ok] by (auto simp: defs boxes_ok_update split: option.splits)
  show "msgs_of s' k = (if k = n then filter (\<lambda>m. mm_id m \<noteq> i) (msgs_of s n) else msgs_of s k)"
    using assms noop box_delete(2) [OF ok] by (auto simp: defs split: option.splits)
  show "mb_last (get_box s' k) = mb_last (get_box s k)"
    using assms by (auto simp: defs split: option.splits)
  show "r = find (\<lambda>m. mm_id m = i) (msgs_of s n)"
    using assms by (auto simp: defs split: option.splits)
  show "enf s' = enf s" "mcap s' = mcap s"
    "deleted s' = deleted s @ (case r of None \<Rightarrow> [] | Some m \<Rightarrow> [MakeMetadata (to_message m)])"
    using assms by (auto simp: defs split: option.splits)
qed

subsection \<open>The enforcer\<close>

definition entry :: "mem_message \<Rightarrow> (string \<times> string) \<times> int" where
  "entry m = ((mm_mailbox m, mm_id m), mm_Size m)"

lemma entry_simps [simp]: "fst (entry m) = (mm_mailbox m, mm_id m)" "snd (entry m) = mm_Size m"
  by (simp_all add: entry_def)

lemma mm_Size_nonneg [simp]: "0 \<le> mm_Size m"
  by (simp add: mm_Size_def)

definition live :: "mem_store \<Rightarrow> ((string \<times> string) \<times> int) set" where
  "live s = (\<Union>n. entry ` set (msgs_of s n))"

lemma live_I: "m \<in> set (msgs_of s n) \<Longrightarrow> entry m \<in> live s"
  by (auto simp: live_def)

text \<open>The part of the enforcer's invariant its loop keeps: no key twice, every live message on
  the list with its size, and the list's total at most the counted size.\<close>

definition list_inv :: "((string \<times> string) \<times> int) list \<Rightarrow> int \<Rightarrow> mem_store \<Rightarrow> bool" where
  "list_inv all cur s \<longleftrightarrow> distinct (map fst all) \<and> live s \<subseteq> set all
     \<and> sum_list (map snd all) \<le> cur \<and> (\<forall>x\<in>set all. 0 \<le> snd x)"

definition known_inv :: "enforcer \<Rightarrow> mem_store \<Rightarrow> bool" where
  "known_inv e s \<longleftrightarrow> fst ` set (en_all e) \<subseteq> set (en_els e)
     \<and> (\<forall>(n, i)\<in>set (en_els e). \<exists>k \<le> mb_last (get_box s n). i = Utoa k)"

definition enf_ok :: "mem_store \<Rightarrow> bool" where
  "enf_ok s \<longleftrightarrow> (case enf s of None \<Rightarrow> True
     | Some e \<Rightarrow> list_inv (en_all e) (en_cur e) s \<and> known_inv e s \<and> en_cur e \<le> en_max e)"

definition mem_ok :: "mem_store \<Rightarrow> bool" where
  "mem_ok s \<longleftrightarrow> boxes_ok s \<and> enf_ok s"

lemma live_remove:
  assumes "boxes_ok s" and "removeMessage s n i = (r, s')"
  shows "live s' = {x \<in> live s. fst x \<noteq> (n, i)}"
proof -
  have mem: "m \<in> set (msgs_of s' k) \<longleftrightarrow> m \<in> set (msgs_of s k) \<and> fst (entry m) \<noteq> (n, i)" for m k
    using msgs_of_mem [OF assms(1), of m k] removeMessage_spec(2) [OF assms, of k] by auto
  show ?thesis
  proof (rule set_eqI)
    fix x
    show "x \<in> live s' \<longleftrightarrow> x \<in> {x \<in> live s. fst x \<noteq> (n, i)}"
      unfolding live_def using mem by blast
  qed
qed

lemma list_inv_pop:
  assumes "boxes_ok s" and "list_inv (((n, i), sz) # rest) cur s" and "removeMessage s n i = (r, s')"
  shows "list_inv rest (if r \<noteq> None then cur - sz else cur) s'"
    and "r \<noteq> None \<longleftrightarrow> ((n, i), sz) \<in> live s"
proof -
  have inv: "distinct (map fst rest)" "(n, i) \<notin> fst ` set rest" "live s \<subseteq> insert ((n, i), sz) (set rest)"
    "sz + sum_list (map snd rest) \<le> cur" "\<forall>x\<in>set rest. 0 \<le> snd x" "0 \<le> sz"
    using assms(2) by (auto simp: list_inv_def)
  have "live s' \<subseteq> set rest"
  proof
    fix x assume "x \<in> live s'"
    with live_remove [OF assms(1,3)] have "x \<in> live s" "fst x \<noteq> (n, i)" by auto
    with inv(3) show "x \<in> set rest" by auto
  qed
  with inv show "list_inv rest (if r \<noteq> None then cur - sz else cur) s'"
    by (auto simp: list_inv_def)
  show "r \<noteq> None \<longleftrightarrow> ((n, i), sz) \<in> live s"
  proof
    assume "r \<noteq> None"
    then obtain m where "find (\<lambda>m. mm_id m = i) (msgs_of s n) = Some m"
      using removeMessage_spec(4) [OF assms(1,3)] by auto
    from find_id_Some [OF this] have m: "m \<in> set (msgs_of s n)" "mm_id m = i" by simp_all
    have "entry m \<in> live s" "fst (entry m) = (n, i)"
      using live_I [OF m(1)] msgs_of_mem [OF assms(1) m(1)] m(2) by simp_all
    then have "entry m = ((n, i), sz) \<or> entry m \<in> set rest" using inv(3) by blast
    with inv(2) \<open>fst (entry m) = (n, i)\<close> have "entry m = ((n, i), sz)" by (metis imageI)
    with \<open>entry m \<in> live s\<close> show "((n, i), sz) \<in> live s" by simp
  next
    assume "((n, i), sz) \<in> live s"
    then obtain k m where m: "m \<in> set (msgs_of s k)" "entry m = ((n, i), sz)"
      by (auto simp: live_def)
    then have "k = n" "mm_id m = i"
      using msgs_of_mem [OF assms(1), of m k] by (simp_all add: entry_def)
    with m(1) have "i \<in> mm_id ` set (msgs_of s n)" by blast
    then show "r \<noteq> None"
      using removeMessage_spec(4) [OF assms(1,3)] find_id_None by metis
  qed
qed

text \<open>
  The loop ends without touching the front of an empty list when the size is within the limit or
  the last element is live and the rest is within the limit; it leaves the size within the limit.
\<close>

lemma enforce_loop_spec:
  assumes "boxes_ok s" and "list_inv all cur s"
    and "cur \<le> mx \<or> all \<noteq> [] \<and> last all \<in> live s \<and> cur - snd (last all) \<le> mx"
  shows "\<exists>all' cur' s'. enforce_loop mx all cur s = Some (all', cur', s')
     \<and> boxes_ok s' \<and> list_inv all' cur' s' \<and> cur' \<le> mx \<and> suffix all' all
     \<and> (\<forall>n. subseq (msgs_of s' n) (msgs_of s n)) \<and> (\<forall>n. mb_last (get_box s' n) = mb_last (get_box s n))
     \<and> mcap s' = mcap s"
  using assms
proof (induction mx all cur s rule: enforce_loop.induct)
  case (1 mx cur s)
  then show ?case by simp
next
  case (2 mx n i sz rest cur s)
  show ?case
  proof (cases "cur > mx")
    case True
    obtain r s' where r: "removeMessage s n i = (r, s')" by fastforce
    let ?cur = "if r \<noteq> None then cur - sz else cur"
    note sp = removeMessage_spec [OF "2.prems"(1) r]
    note pop = list_inv_pop [OF "2.prems"(1,2) r]
    have sz: "0 \<le> sz" using "2.prems"(2) by (simp add: list_inv_def)
    have "?cur \<le> mx \<or> rest \<noteq> [] \<and> last rest \<in> live s' \<and> ?cur - snd (last rest) \<le> mx"
    proof (cases "rest = []")
      case True
      with "2.prems"(3) \<open>cur > mx\<close> have "((n, i), sz) \<in> live s" "cur - sz \<le> mx" by auto
      with pop(2) show ?thesis by simp
    next
      case False
      with "2.prems"(3) \<open>cur > mx\<close> have l: "last rest \<in> live s" "cur - snd (last rest) \<le> mx" by auto
      have "fst (last rest) \<noteq> (n, i)"
        using "2.prems"(2) False by (auto simp: list_inv_def) (metis image_eqI last_in_set)
      with l live_remove [OF "2.prems"(1) r] have "last rest \<in> live s'" by simp
      with l sz False show ?thesis by auto
    qed
    from "2.IH" [OF True r [symmetric] refl sp(1) pop(1) this]
    obtain all' cur' s'' where IH: "enforce_loop mx rest ?cur s' = Some (all', cur', s'')"
      "boxes_ok s''" "list_inv all' cur' s''" "cur' \<le> mx" "suffix all' rest"
      "\<forall>n. subseq (msgs_of s'' n) (msgs_of s' n)"
      "\<forall>n. mb_last (get_box s'' n) = mb_last (get_box s' n)" "mcap s'' = mcap s'" by auto
    have "subseq (msgs_of s'' k) (msgs_of s k)" for k
      using IH(6) sp(2) [of k] by (metis subseq_filter_left subseq_order.order_trans)
    with IH sp(3,6) r True show ?thesis by (auto intro: suffix_ConsI)
  next
    case False
    with "2.prems" show ?thesis by auto
  qed
qed

subsection \<open>The operations keep the invariant\<close>

lemma mem_box_ok: "mem_ok s \<Longrightarrow> box_ok n (get_box s n)"
  by (simp add: mem_ok_def get_box_ok)

lemma enf_okI_None: "enf s = None \<Longrightarrow> enf_ok s"
  by (simp add: enf_ok_def)

lemma live_cong: "(\<And>n. msgs_of s' n = msgs_of s n) \<Longrightarrow> live s' = live s"
  by (simp add: live_def)

lemma enf_ok_cong:
  assumes "enf s' = enf s" and "live s' = live s"
    and "\<And>n. mb_last (get_box s' n) = mb_last (get_box s n)"
  shows "enf_ok s' = enf_ok s"
  using assms by (auto simp: enf_ok_def list_inv_def known_inv_def split: option.splits)

lemma msgs_of_fields [simp]:
  "msgs_of (s\<lparr>deleted := d\<rparr>) n = msgs_of s n" "msgs_of (s\<lparr>enf := e\<rparr>) n = msgs_of s n"
  by (simp_all add: msgs_of_def)

lemma live_fields [simp]: "live (s\<lparr>deleted := d\<rparr>) = live s" "live (s\<lparr>enf := e\<rparr>) = live s"
  by (simp_all add: live_def)

text \<open>An operation that only looks at a mailbox changes nothing but the set of mailboxes.\<close>

lemma withMailbox_read:
  assumes "mem_ok s" and "withMailbox s n (\<lambda>mb. (f mb, mb)) = (r, s')"
  shows "mem_ok s'" and "mem_abs s' = mem_abs s" and "r = f (get_box s n)"
    and "enf s' = enf s" and "mcap s' = mcap s" and "deleted s' = deleted s"
proof -
  have s': "s' = s\<lparr>boxes := AList.update n (get_box s n) (boxes s)\<rparr>" and r: "r = f (get_box s n)"
    using assms(2) by (auto simp: withMailbox_def)
  have box: "get_box s' k = get_box s k" for k by (simp add: s')
  then have "live s' = live s" by (simp add: live_def msgs_of_def)
  with box have "enf_ok s' = enf_ok s" by (intro enf_ok_cong) (simp_all add: s')
  moreover have "boxes_ok s'"
    using assms(1) by (simp add: s' mem_ok_def boxes_ok_update get_box_ok)
  ultimately show "mem_ok s'" using assms(1) by (simp add: mem_ok_def)
  show "mem_abs s' = mem_abs s" using box by (simp add: mem_abs_def msgs_of_def fun_eq_iff)
  show "r = f (get_box s n)" by (rule r)
  show "enf s' = enf s" "mcap s' = mcap s" "deleted s' = deleted s" by (simp_all add: s')
qed

lemma mem_GetMessages_spec:
  assumes "mem_ok s" and "mem_GetMessages s n = (r, s')"
  shows "mem_ok s'" and "mem_abs s' = mem_abs s" and "r = Ok (mem_abs s n)"
    and "enf s' = enf s" and "mcap s' = mcap s" and "deleted s' = deleted s"
proof -
  obtain ms where w: "withMailbox s n (\<lambda>mb. (sort_key mm_index (map snd (mb_messages mb)), mb)) = (ms, s')"
    and r: "r = Ok (map to_message ms)"
    using assms(2) by (auto simp: mem_GetMessages_def Let_def split: prod.splits)
  note rd = withMailbox_read [OF assms(1) w]
  have "ms = msgs_of s n"
    using rd(3) box_sort [OF mem_box_ok [OF assms(1)]] by (simp add: msgs_of_def)
  with r show "r = Ok (mem_abs s n)" by (simp add: mem_abs_def)
  show "mem_ok s'" "mem_abs s' = mem_abs s" "enf s' = enf s" "mcap s' = mcap s" "deleted s' = deleted s"
    using rd by simp_all
qed

lemma find_to_message:
  "map_option to_message (find (\<lambda>m. mm_id m = i) ms) = find (\<lambda>m. sID m = i) (map to_message ms)"
  by (induction ms) (auto simp: to_message_def)

lemma mem_GetMessage_spec:
  assumes "mem_ok s" and "mem_GetMessage s n i = (r, s')"
  shows "mem_ok s'" and "mem_abs s' = mem_abs s"
    and "r = Ok (if i = ''latest''
           then (if mem_abs s n = [] then None else Some (last (mem_abs s n)))
           else find (\<lambda>m. sID m = i) (mem_abs s n))"
proof -
  have "mem_ok s' \<and> mem_abs s' = mem_abs s \<and> r = Ok (if i = ''latest''
           then (if mem_abs s n = [] then None else Some (last (mem_abs s n)))
           else find (\<lambda>m. sID m = i) (mem_abs s n))"
  proof (cases "i = ''latest''")
    case True
    obtain g s'' where g: "mem_GetMessages s n = (g, s'')" by fastforce
    from True assms(2) g mem_GetMessages_spec [OF assms(1) g] show ?thesis
      by (auto simp: mem_GetMessage_def)
  next
    case False
    obtain m where w: "withMailbox s n (\<lambda>mb. (map_of (mb_messages mb) i, mb)) = (m, s')"
      and r: "r = Ok (map_option to_message m)"
      using assms(2) False by (auto simp: mem_GetMessage_def Let_def split: prod.splits)
    note rd = withMailbox_read [OF assms(1) w]
    have "m = find (\<lambda>m. mm_id m = i) (msgs_of s n)"
      using rd(3) box_lookup [OF mem_box_ok [OF assms(1)]] by (simp add: msgs_of_def)
    then have "map_option to_message m = find (\<lambda>m. sID m = i) (mem_abs s n)"
      by (simp only: find_to_message mem_abs_def)
    with r rd(1,2) False show ?thesis by simp
  qed
  then show "mem_ok s'" "mem_abs s' = mem_abs s" "r = Ok (if i = ''latest''
           then (if mem_abs s n = [] then None else Some (last (mem_abs s n)))
           else find (\<lambda>m. sID m = i) (mem_abs s n))" by blast+
qed

text \<open>\<open>MarkSeen\<close>.\<close>

lemma box_mark_seen:
  assumes "box_ok n mb" and "map_of (mb_messages mb) i = Some m"
  shows "box_ok n (mb\<lparr>mb_messages := AList.update i (m\<lparr>mm_seen := True\<rparr>) (mb_messages mb)\<rparr>)"
    and "box_msgs (mb\<lparr>mb_messages := AList.update i (m\<lparr>mm_seen := True\<rparr>) (mb_messages mb)\<rparr>)
         = map (\<lambda>x. if mm_id x = i then x\<lparr>mm_seen := True\<rparr> else x) (box_msgs mb)"
proof -
  have up: "AList.update i (f m) al = map (\<lambda>(k, x). (k, if k = i then f x else x)) al"
    if "map_of al i = Some m" "distinct (map fst al)" for f :: "mem_message \<Rightarrow> mem_message" and al
    using that
  proof (induction al)
    case (Cons p al)
    have "i \<notin> fst ` set al \<Longrightarrow> map (\<lambda>(k, x). (k, if k = i then f x else x)) al = al"
      by (intro map_idI) (force split: prod.splits)
    with Cons show ?case by (cases p) (auto split: if_splits)
  qed simp
  have al: "AList.update i (m\<lparr>mm_seen := True\<rparr>) (mb_messages mb)
      = map (\<lambda>(k, x). (k, if k = i then x\<lparr>mm_seen := True\<rparr> else x)) (mb_messages mb)"
    using up [OF assms(2) box_ok_distinct(1) [OF assms(1)], of "\<lambda>x. x\<lparr>mm_seen := True\<rparr>"] .
  have idx: "map (mm_index \<circ> snd) (AList.update i (m\<lparr>mm_seen := True\<rparr>) (mb_messages mb))
      = map (mm_index \<circ> snd) (mb_messages mb)"
    by (auto simp: al)
  have el: "k = Utoa (mm_index x) \<and> mm_id x = k \<and> mm_mailbox x = n \<and>
        mb_first mb \<le> mm_index x \<and> mm_index x \<le> mb_last mb"
    if kx: "(k, x) \<in> set (AList.update i (m\<lparr>mm_seen := True\<rparr>) (mb_messages mb))" for k x
  proof -
    obtain y where y: "(k, y) \<in> set (mb_messages mb)" "x = (if k = i then y\<lparr>mm_seen := True\<rparr> else y)"
      using kx unfolding al by auto
    from box_ok_mem [OF assms(1) y(1)] y(2) show ?thesis by (cases "k = i") simp_all
  qed
  have "sorted_wrt (<) (map (mm_index \<circ> snd) (mb_messages mb)) \<and> mb_first mb \<le> Suc (mb_last mb)"
    using assms(1) by (simp add: box_ok_def)
  with el show "box_ok n (mb\<lparr>mb_messages := AList.update i (m\<lparr>mm_seen := True\<rparr>) (mb_messages mb)\<rparr>)"
    unfolding box_ok_messages idx by blast
  show "box_msgs (mb\<lparr>mb_messages := AList.update i (m\<lparr>mm_seen := True\<rparr>) (mb_messages mb)\<rparr>)
         = map (\<lambda>x. if mm_id x = i then x\<lparr>mm_seen := True\<rparr> else x) (box_msgs mb)"
    using box_ok_mem [OF assms(1)] by (auto simp: box_msgs_def al)
qed

lemma mem_MarkSeen_spec:
  assumes "mem_ok s" and "mem_MarkSeen s n i = (e, s')"
  shows "mem_ok s'" and "e = None"
    and "mem_abs s' = (mem_abs s)(n := map (\<lambda>m. if sID m = i then m\<lparr>sSeen := True\<rparr> else m) (mem_abs s n))"
    and "enf s' = enf s" and "mcap s' = mcap s"
proof -
  let ?f = "\<lambda>x. if mm_id x = i then x\<lparr>mm_seen := True\<rparr> else x"
  let ?mb = "case map_of (mb_messages (get_box s n)) i of None \<Rightarrow> get_box s n
     | Some m \<Rightarrow> (get_box s n)\<lparr>mb_messages := AList.update i (m\<lparr>mm_seen := True\<rparr>) (mb_messages (get_box s n))\<rparr>"
  have s': "s' = s\<lparr>boxes := AList.update n ?mb (boxes s)\<rparr>" and "e = None"
    using assms(2) by (auto simp: mem_MarkSeen_def withMailbox_def)
  have ok: "boxes_ok s" using assms(1) by (simp add: mem_ok_def)
  note bx = get_box_ok [OF ok, of n]
  have b: "box_ok n ?mb \<and> box_msgs ?mb = map ?f (box_msgs (get_box s n)) \<and> mb_last ?mb = mb_last (get_box s n)"
  proof (cases "map_of (mb_messages (get_box s n)) i")
    case None
    with box_lookup [OF bx] have "i \<notin> mm_id ` set (box_msgs (get_box s n))" by (simp add: find_id_None)
    then have "map ?f (box_msgs (get_box s n)) = box_msgs (get_box s n)"
      by (intro map_idI) auto
    with None bx show ?thesis by simp
  next
    case (Some m)
    with box_mark_seen [OF bx Some] show ?thesis by simp
  qed
  have ms: "msgs_of s' k = (if k = n then map ?f (msgs_of s n) else msgs_of s k)" for k
    using b by (simp add: s' msgs_of_def)
  have "entry (?f m) = entry m" for m by (simp add: entry_def mm_Size_def)
  then have f: "map entry (map ?f xs) = map entry xs" for xs by (simp only: map_map comp_def)
  have "map entry (msgs_of s' k) = map entry (msgs_of s k)" for k
    unfolding ms using f by simp
  then have "entry ` set (msgs_of s' k) = entry ` set (msgs_of s k)" for k
    by (metis set_map)
  then have "live s' = live s" by (simp add: live_def)
  then have "enf_ok s' = enf_ok s" using b by (intro enf_ok_cong) (simp_all add: s')
  moreover have "boxes_ok s'" using boxes_ok_update [OF ok, of n ?mb] b by (simp add: s')
  ultimately show "mem_ok s'" using assms(1) by (simp add: mem_ok_def)
  show "e = None" by fact
  show "mem_abs s' = (mem_abs s)(n := map (\<lambda>m. if sID m = i then m\<lparr>sSeen := True\<rparr> else m) (mem_abs s n))"
    by (auto simp: mem_abs_def ms fun_eq_iff to_message_def mm_Size_def)
  show "enf s' = enf s" "mcap s' = mcap s" by (simp_all add: s')
qed

end
