(* ===== verification/MemContract.thy ===== *)
theory MemContract
  imports MemStoreProps
begin

text \<open>
  The adding and deleting operations of the memory store, the interpretations of the storage
  contracts, and the theorems about every reachable state: the size enforcer never dereferences
  nil in one goroutine, and the store never holds more than its limit.
\<close>

subsection \<open>Adding\<close>

definition stored :: "message \<Rightarrow> string \<Rightarrow> message" where
  "stored m i = m\<lparr>sID := i, sSize := int (length (the (sSource m))), sSeen := False\<rparr>"

lemma add_box_step:
  assumes "mem_ok s" and "sSource msg = Some src"
    and "withMailbox s (sMailbox msg) (add_to_box (mcap s) msg src) = (m, s1)"
  shows "boxes_ok s1"
    and "msgs_of s1 k = (if k = sMailbox msg then keep_newest (mcap s) (msgs_of s k @ [m]) else msgs_of s k)"
    and "mb_last (get_box s1 k) = (if k = sMailbox msg then Suc (mb_last (get_box s k)) else mb_last (get_box s k))"
    and "to_message m = stored msg (Utoa (Suc (mb_last (get_box s (sMailbox msg)))))"
    and "mm_mailbox m = sMailbox msg" and "mm_id m = Utoa (Suc (mb_last (get_box s (sMailbox msg))))"
    and "enf s1 = enf s" and "mcap s1 = mcap s" and "deleted s1 = deleted s"
proof -
  let ?n = "sMailbox msg"
  obtain mb' where a: "add_to_box (mcap s) msg src (get_box s ?n) = (m, mb')"
    and s1: "s1 = s\<lparr>boxes := AList.update ?n mb' (boxes s)\<rparr>"
    using assms(3) by (auto simp: withMailbox_def Let_def split: prod.splits)
  note sp = add_to_box_spec [OF mem_box_ok [OF assms(1)] refl a]
  show "boxes_ok s1" using boxes_ok_update sp(1) assms(1) by (simp add: s1 mem_ok_def)
  show "msgs_of s1 k = (if k = ?n then keep_newest (mcap s) (msgs_of s k @ [m]) else msgs_of s k)"
    using sp(2) by (simp add: s1 msgs_of_def)
  show "mb_last (get_box s1 k) = (if k = ?n then Suc (mb_last (get_box s k)) else mb_last (get_box s k))"
    using sp(3) by (simp add: s1)
  show "to_message m = stored msg (Utoa (Suc (mb_last (get_box s ?n))))"
    using assms(2) by (simp add: sp(4) to_message_def stored_def mm_Size_def)
  show "mm_mailbox m = ?n" "mm_id m = Utoa (Suc (mb_last (get_box s ?n)))" by (simp_all add: sp(4))
  show "enf s1 = enf s" "mcap s1 = mcap s" "deleted s1 = deleted s" by (simp_all add: s1)
qed

lemma keep_newest_last: "m \<in> set (keep_newest cap (xs @ [m]))"
  by (auto simp: keep_newest_def)

lemma set_keep_newest: "set (keep_newest cap xs) \<subseteq> set xs"
  by (auto simp: keep_newest_def dest: in_set_dropD)

lemma add_live:
  assumes "mem_ok s" and "sSource msg = Some src"
    and "withMailbox s (sMailbox msg) (add_to_box (mcap s) msg src) = (m, s1)"
  shows "live s1 \<subseteq> insert (entry m) (live s)" and "entry m \<in> live s1"
proof -
  note st = add_box_step [OF assms]
  have "set (msgs_of s1 k) \<subseteq> insert m (set (msgs_of s k))" for k
    using st(2) [of k] set_keep_newest [of "mcap s" "msgs_of s k @ [m]"] by auto
  then show "live s1 \<subseteq> insert (entry m) (live s)" by (fastforce simp: live_def)
  have "m \<in> set (msgs_of s1 (sMailbox msg))" using st(2) keep_newest_last by simp
  then show "entry m \<in> live s1" by (rule live_I)
qed

lemma enforcerDeliver_spec:
  assumes "mem_ok s" and "sSource msg = Some src"
    and "withMailbox s (sMailbox msg) (add_to_box (mcap s) msg src) = (m, s1)"
  shows "\<exists>s'. enforcerDeliver s1 m = Some s' \<and> mem_ok s' \<and> mcap s' = mcap s
     \<and> (\<forall>n. subseq (msgs_of s' n) (msgs_of s1 n)) \<and> (enf s = None \<longrightarrow> s' = s1)
     \<and> map_option en_max (enf s') = map_option en_max (enf s)
     \<and> (\<forall>n. mb_last (get_box s' n) = mb_last (get_box s1 n))"
proof (cases "enf s")
  case None
  with add_box_step [OF assms] show ?thesis
    by (simp add: enforcerDeliver_def mem_ok_def enf_okI_None)
next
  case (Some e)
  note st = add_box_step [OF assms]
  note lv = add_live [OF assms]
  let ?key = "(mm_mailbox m, mm_id m)"
  have inv: "list_inv (en_all e) (en_cur e) s" "known_inv e s" "en_cur e \<le> en_max e"
    using assms(1) Some by (simp_all add: mem_ok_def enf_ok_def)
  have fresh: "?key \<notin> set (en_els e)"
  proof
    assume "?key \<in> set (en_els e)"
    then obtain k where "k \<le> mb_last (get_box s (sMailbox msg))" "mm_id m = Utoa k"
      using inv(2) st(5) by (auto simp: known_inv_def)
    with st(6) show False by simp
  qed
  have li: "list_inv (en_all e @ [entry m]) (en_cur e + mm_Size m) s1"
    using inv(1,2) lv(1) fresh by (auto simp: list_inv_def known_inv_def entry_def)
  from enforce_loop_spec [OF st(1) li, of "en_max e"] lv(2) inv(3)
  obtain all' cur' s2 where r: "enforce_loop (en_max e) (en_all e @ [entry m]) (en_cur e + mm_Size m) s1
      = Some (all', cur', s2)" "boxes_ok s2" "list_inv all' cur' s2" "cur' \<le> en_max e"
    "suffix all' (en_all e @ [entry m])" "\<forall>n. subseq (msgs_of s2 n) (msgs_of s1 n)"
    "\<forall>n. mb_last (get_box s2 n) = mb_last (get_box s1 n)" "mcap s2 = mcap s1" by auto
  let ?e = "e\<lparr>en_all := all', en_cur := cur', en_els := ?key # en_els e\<rparr>"
  have sub: "fst ` set all' \<subseteq> set (?key # en_els e)"
  proof
    fix x assume "x \<in> fst ` set all'"
    then have "x \<in> fst ` set (en_all e @ [entry m])" using set_mono_suffix [OF r(5)] by blast
    moreover have "fst ` set (en_all e) \<subseteq> set (en_els e)" using inv(2) by (simp add: known_inv_def)
    ultimately show "x \<in> set (?key # en_els e)" by auto
  qed
  have known: "\<exists>k \<le> mb_last (get_box s2 n). i = Utoa k" if "(n, i) \<in> set (?key # en_els e)" for n i
  proof (cases "(n, i) = ?key")
    case True
    then show ?thesis using st(3,5,6) r(7) by auto
  next
    case False
    with that inv(2) obtain k where "k \<le> mb_last (get_box s n)" "i = Utoa k"
      by (auto simp: known_inv_def)
    then show ?thesis using st(3) [of n] r(7) by (metis le_Suc_eq)
  qed
  have "known_inv ?e (s2\<lparr>enf := Some ?e\<rparr>)"
    unfolding known_inv_def
  proof
    show "fst ` set (en_all ?e) \<subseteq> set (en_els ?e)" using sub by simp
    show "\<forall>(n, i)\<in>set (en_els ?e). \<exists>k \<le> mb_last (get_box (s2\<lparr>enf := Some ?e\<rparr>) n). i = Utoa k"
      using known by simp blast
  qed
  moreover have "list_inv all' cur' (s2\<lparr>enf := Some ?e\<rparr>)" using r(3) by (simp add: list_inv_def)
  ultimately have "mem_ok (s2\<lparr>enf := Some ?e\<rparr>)"
    using r(2,4) by (simp add: mem_ok_def enf_ok_def)
  moreover have "enforcerDeliver s1 m = Some (s2\<lparr>enf := Some ?e\<rparr>)"
    using r(1) st(7) Some by (simp add: enforcerDeliver_def Let_def entry_def)
  ultimately show ?thesis using r(6-8) st(8) Some by auto
qed

lemma to_message_id [simp]: "sID (to_message m) = mm_id m"
  by (simp add: to_message_def)

lemma mem_AddMessage_spec:
  assumes "mem_ok s" and "mem_AddMessage s msg = (r, s')"
  shows "mem_ok s'" and "mcap s' = mcap s"
    and "map_option en_max (enf s') = map_option en_max (enf s)"
    and "sSource msg = Some src \<Longrightarrow> r = Ok (Utoa (Suc (mb_last (get_box s (sMailbox msg)))))"
    and "r = Ok i \<Longrightarrow> subseq (mem_abs s' n)
           (mem_abs s n @ (if n = sMailbox msg then [stored msg i] else []))"
    and "r = Ok i \<Longrightarrow> enf s = None \<Longrightarrow>
         mem_abs s' = (mem_abs s)(sMailbox msg :=
           keep_newest (mcap s) (mem_abs s (sMailbox msg) @ [stored msg i]))"
    and "r = Ok i \<Longrightarrow> subseq (mem_abs s' n) (if n = sMailbox msg
           then keep_newest (mcap s) (mem_abs s n @ [stored msg i]) else mem_abs s n)"
proof -
  have "mem_ok s' \<and> mcap s' = mcap s \<and> map_option en_max (enf s') = map_option en_max (enf s)
    \<and> (\<forall>src. sSource msg = Some src \<longrightarrow> r = Ok (Utoa (Suc (mb_last (get_box s (sMailbox msg))))))
    \<and> (\<forall>i n. r = Ok i \<longrightarrow> subseq (mem_abs s' n)
           (mem_abs s n @ (if n = sMailbox msg then [stored msg i] else [])))
    \<and> (\<forall>i. r = Ok i \<longrightarrow> enf s = None \<longrightarrow> mem_abs s' = (mem_abs s)(sMailbox msg :=
           keep_newest (mcap s) (mem_abs s (sMailbox msg) @ [stored msg i])))
    \<and> (\<forall>i n. r = Ok i \<longrightarrow> subseq (mem_abs s' n) (if n = sMailbox msg
           then keep_newest (mcap s) (mem_abs s n @ [stored msg i]) else mem_abs s n))"
  proof (cases "sSource msg")
    case None
    with assms show ?thesis by (auto simp: mem_AddMessage_def)
  next
    case (Some src)
    obtain m s1 where w: "withMailbox s (sMailbox msg) (add_to_box (mcap s) msg src) = (m, s1)"
      by fastforce
    note st = add_box_step [OF assms(1) Some w]
    obtain s2 where d: "enforcerDeliver s1 m = Some s2" "mem_ok s2" "mcap s2 = mcap s"
      "\<forall>n. subseq (msgs_of s2 n) (msgs_of s1 n)" "enf s = None \<longrightarrow> s2 = s1"
      "map_option en_max (enf s2) = map_option en_max (enf s)"
      "\<forall>n. mb_last (get_box s2 n) = mb_last (get_box s1 n)"
      using enforcerDeliver_spec [OF assms(1) Some w] by (elim exE conjE) (rule that)
    have r: "r = Ok (mm_id m)" "s' = s2"
      using assms(2) Some w d(1) by (simp_all add: mem_AddMessage_def)
    have abs1: "mem_abs s1 n = (if n = sMailbox msg
        then keep_newest (mcap s) (mem_abs s n @ [to_message m]) else mem_abs s n)" for n
      using st(2) by (auto simp: mem_abs_def keep_newest_def drop_map)
    have sub1: "subseq (mem_abs s2 n) (mem_abs s1 n)" for n
      using d(4) by (simp add: mem_abs_def subseq_map)
    have "subseq (mem_abs s1 n) (mem_abs s n @ (if n = sMailbox msg then [to_message m] else []))" for n
      using keep_newest_suffix by (auto simp: abs1 suffix_imp_subseq)
    then have sub: "subseq (mem_abs s2 n) (mem_abs s n @ (if n = sMailbox msg then [to_message m] else []))" for n
      using sub1 by (metis subseq_order.order_trans)
    have cap: "enf s = None \<Longrightarrow> mem_abs s2 = (mem_abs s)(sMailbox msg :=
           keep_newest (mcap s) (mem_abs s (sMailbox msg) @ [to_message m]))"
      using abs1 d(5) by (simp add: fun_eq_iff)
    have m: "stored msg (mm_id m) = to_message m" using st(4,6) by simp
    have "subseq (mem_abs s' n) (mem_abs s n @ (if n = sMailbox msg then [stored msg i] else []))"
      if "r = Ok i" for i n
      using sub [of n] that r m by (cases "n = sMailbox msg") simp_all
    moreover have "subseq (mem_abs s' n) (if n = sMailbox msg
           then keep_newest (mcap s) (mem_abs s n @ [stored msg i]) else mem_abs s n)"
      if "r = Ok i" for i n
      using sub1 [of n] abs1 [of n] that r m by (cases "n = sMailbox msg") simp_all
    ultimately show ?thesis using r d(2,3,6) st(6) cap m by simp
  qed
  then show "mem_ok s'" "mcap s' = mcap s"
    "map_option en_max (enf s') = map_option en_max (enf s)"
    "sSource msg = Some src \<Longrightarrow> r = Ok (Utoa (Suc (mb_last (get_box s (sMailbox msg)))))"
    "r = Ok i \<Longrightarrow> subseq (mem_abs s' n) (mem_abs s n @ (if n = sMailbox msg then [stored msg i] else []))"
    "r = Ok i \<Longrightarrow> enf s = None \<Longrightarrow> mem_abs s' = (mem_abs s)(sMailbox msg :=
           keep_newest (mcap s) (mem_abs s (sMailbox msg) @ [stored msg i]))"
    "r = Ok i \<Longrightarrow> subseq (mem_abs s' n) (if n = sMailbox msg
           then keep_newest (mcap s) (mem_abs s n @ [stored msg i]) else mem_abs s n)"
    by blast+
qed


subsection \<open>Removing\<close>

lemma member_le_sum: "\<forall>y\<in>set xs. 0 \<le> y \<Longrightarrow> x \<in> set xs \<Longrightarrow> x \<le> sum_list xs" for x :: int
  by (induction xs) (auto simp: add_increasing sum_list_nonneg add_increasing2)

lemma list_inv_filter:
  assumes "list_inv all cur s" and "(key, sz) \<in> set all" and "key \<notin> fst ` live s"
  shows "list_inv (filter (\<lambda>x. fst x \<noteq> key) all) (cur - sz) s"
proof -
  have nn: "\<forall>x\<in>set all. 0 \<le> snd x" and d: "distinct (map fst all)" and sum: "sum_list (map snd all) \<le> cur"
    using assms(1) by (simp_all add: list_inv_def)
  let ?out = "map snd (filter (\<lambda>x. \<not> fst x \<noteq> key) all)"
  have "sz \<in> set ?out" using assms(2) by force
  moreover have "\<forall>y\<in>set ?out. 0 \<le> y" using nn by auto
  ultimately have "sz \<le> sum_list ?out" by (simp only: member_le_sum)
  with sum sum_list_filter_split [of snd all "\<lambda>x. fst x \<noteq> key"]
  have "sum_list (map snd (filter (\<lambda>x. fst x \<noteq> key) all)) \<le> cur - sz" by simp
  moreover have "distinct (map fst (filter (\<lambda>x. fst x \<noteq> key) all))"
    using d by (rule distinct_map_filter)
  moreover have "live s \<subseteq> set (filter (\<lambda>x. fst x \<noteq> key) all)"
    using assms(1,3) by (force simp: list_inv_def)
  ultimately show ?thesis
    using nn by (simp add: list_inv_def)
qed

lemma enforcerRemove_spec:
  assumes "enf_ok s" and "\<And>e. enf s = Some e \<Longrightarrow> entry m \<in> set (en_all e)"
    and "(mm_mailbox m, mm_id m) \<notin> fst ` live s"
  shows "\<exists>e'. enforcerRemove s m = Some (s\<lparr>enf := e'\<rparr>) \<and> enf_ok (s\<lparr>enf := e'\<rparr>)
    \<and> map_option en_max e' = map_option en_max (enf s)
    \<and> (\<forall>e e0. enf s = Some e0 \<longrightarrow> e' = Some e \<longrightarrow>
          (\<forall>x\<in>set (en_all e0). fst x \<noteq> (mm_mailbox m, mm_id m) \<longrightarrow> x \<in> set (en_all e)))"
proof (cases "enf s")
  case None
  then have "s\<lparr>enf := None\<rparr> = s" by simp
  with None show ?thesis by (auto simp: enforcerRemove_def enf_okI_None)
next
  case (Some e)
  let ?key = "(mm_mailbox m, mm_id m)"
  let ?e = "e\<lparr>en_all := filter (\<lambda>x. fst x \<noteq> ?key) (en_all e), en_cur := en_cur e - mm_Size m\<rparr>"
  have inv: "list_inv (en_all e) (en_cur e) s" "known_inv e s" "en_cur e \<le> en_max e"
    using assms(1) Some by (simp_all add: enf_ok_def)
  have el: "(?key, mm_Size m) \<in> set (en_all e)" using assms(2) Some by (simp add: entry_def)
  then have key: "?key \<in> set (en_els e)" using inv(2) by (force simp: known_inv_def)
  have "list_inv (en_all ?e) (en_cur ?e) (s\<lparr>enf := Some ?e\<rparr>)"
    using list_inv_filter [OF inv(1) el assms(3)] by (simp add: list_inv_def)
  moreover have "known_inv ?e (s\<lparr>enf := Some ?e\<rparr>)"
    using inv(2) by (auto simp: known_inv_def)
  ultimately have "enf_ok (s\<lparr>enf := Some ?e\<rparr>)"
    using inv(3) mm_Size_nonneg [of m] unfolding enf_ok_def by (simp del: mm_Size_nonneg)
  moreover have "enforcerRemove s m = Some (s\<lparr>enf := Some ?e\<rparr>)"
    using key Some by (simp add: enforcerRemove_def Let_def)
  ultimately show ?thesis using Some by auto
qed

lemma enf_ok_mono:
  assumes "enf_ok s" and "enf s' = enf s" and "live s' \<subseteq> live s"
    and "\<And>n. mb_last (get_box s' n) = mb_last (get_box s n)"
  shows "enf_ok s'"
  using assms by (auto simp: enf_ok_def list_inv_def known_inv_def split: option.splits)

lemma mem_RemoveMessage_spec:
  assumes "mem_ok s" and "mem_RemoveMessage s n i = (e, s')"
  shows "mem_ok s'" and "e = None"
    and "mem_abs s' = (mem_abs s)(n := filter (\<lambda>m. sID m \<noteq> i) (mem_abs s n))"
    and "mcap s' = mcap s" and "map_option en_max (enf s') = map_option en_max (enf s)"
proof -
  obtain r s1 where r: "removeMessage s n i = (r, s1)" by fastforce
  have ok: "boxes_ok s" "enf_ok s" using assms(1) by (simp_all add: mem_ok_def)
  note sp = removeMessage_spec [OF ok(1) r]
  have lv: "live s1 = {x \<in> live s. fst x \<noteq> (n, i)}" by (rule live_remove [OF ok(1) r])
  have ok1: "enf_ok s1" using lv by (intro enf_ok_mono [OF ok(2)]) (auto simp: sp)
  have abs1: "mem_abs s1 = (mem_abs s)(n := filter (\<lambda>m. sID m \<noteq> i) (mem_abs s n))"
    by (auto simp: mem_abs_def sp(2) filter_map comp_def to_message_def fun_eq_iff)
  have fin: "mem_ok s' \<and> e = None \<and> mem_abs s' = mem_abs s1 \<and> mcap s' = mcap s1
    \<and> map_option en_max (enf s') = map_option en_max (enf s1)"
  proof (cases r)
    case None
    with assms(2) r sp(1) ok1 show ?thesis by (simp add: mem_RemoveMessage_def mem_ok_def)
  next
    case (Some m)
    with sp(4) find_id_Some have m: "m \<in> set (msgs_of s n)" "mm_id m = i" by metis+
    have key: "(mm_mailbox m, mm_id m) = (n, i)" using msgs_of_mem [OF ok(1) m(1)] m(2) by simp
    have "entry m \<in> set (en_all e)" if "enf s1 = Some e" for e
      using ok(2) that sp(5) live_I [OF m(1)] by (auto simp: enf_ok_def list_inv_def)
    moreover have "(mm_mailbox m, mm_id m) \<notin> fst ` live s1" using lv key by auto
    ultimately obtain e' where
      "enforcerRemove s1 m = Some (s1\<lparr>enf := e'\<rparr>)" "enf_ok (s1\<lparr>enf := e'\<rparr>)"
      "map_option en_max e' = map_option en_max (enf s1)"
      using enforcerRemove_spec [OF ok1, of m] by blast
    with assms(2) r Some sp(1) show ?thesis
      by (auto simp: mem_RemoveMessage_def mem_ok_def mem_abs_def)
  qed
  with abs1 sp(5,6) show "mem_ok s'" "e = None"
    "mem_abs s' = (mem_abs s)(n := filter (\<lambda>m. sID m \<noteq> i) (mem_abs s n))"
    "mcap s' = mcap s" "map_option en_max (enf s') = map_option en_max (enf s)" by simp_all
qed

subsection \<open>Purging\<close>

lemma enforcerRemove_all_spec:
  assumes "enf_ok s" and "\<And>e m. enf s = Some e \<Longrightarrow> m \<in> set ms \<Longrightarrow> entry m \<in> set (en_all e)"
    and "\<And>m. m \<in> set ms \<Longrightarrow> (mm_mailbox m, mm_id m) \<notin> fst ` live s"
    and "distinct (map (fst \<circ> entry) ms)"
  shows "\<exists>e'. enforcerRemove_all s ms = Some (s\<lparr>enf := e'\<rparr>) \<and> enf_ok (s\<lparr>enf := e'\<rparr>)
    \<and> map_option en_max e' = map_option en_max (enf s)"
  using assms
proof (induction ms arbitrary: s)
  case Nil
  have "s\<lparr>enf := enf s\<rparr> = s" by simp
  with Nil.prems(1) show ?case by (metis enforcerRemove_all.simps(1))
next
  case (Cons m ms)
  obtain e1 where e1: "enforcerRemove s m = Some (s\<lparr>enf := e1\<rparr>)" "enf_ok (s\<lparr>enf := e1\<rparr>)"
    "map_option en_max e1 = map_option en_max (enf s)"
    and keep: "\<And>e e0 x. enf s = Some e0 \<Longrightarrow> e1 = Some e \<Longrightarrow> x \<in> set (en_all e0) \<Longrightarrow>
        fst x \<noteq> (mm_mailbox m, mm_id m) \<Longrightarrow> x \<in> set (en_all e)"
    using enforcerRemove_spec [OF Cons.prems(1), of m] Cons.prems(2,3) by auto
  let ?s = "s\<lparr>enf := e1\<rparr>"
  have "entry m' \<in> set (en_all e)" if e: "enf ?s = Some e" and m': "m' \<in> set ms" for e m'
  proof -
    obtain e0 where e0: "enf s = Some e0" using e1(3) e by (cases "enf s") auto
    have "fst (entry m') \<noteq> fst (entry m)" using Cons.prems(4) m' by (auto simp: image_iff)
    then show ?thesis
      using keep [OF e0] e Cons.prems(2) [OF e0, of m'] m' by auto
  qed
  moreover have "(mm_mailbox m', mm_id m') \<notin> fst ` live ?s" if "m' \<in> set ms" for m'
    using Cons.prems(3) that by simp
  moreover have "distinct (map (fst \<circ> entry) ms)"
    using Cons.prems(4) by (simp only: list.map distinct.simps)
  ultimately obtain e' where "enforcerRemove_all ?s ms = Some (?s\<lparr>enf := e'\<rparr>)" "enf_ok (?s\<lparr>enf := e'\<rparr>)"
    "map_option en_max e' = map_option en_max (enf ?s)"
    using Cons.IH [OF e1(2)] by blast
  with e1 show ?case by auto
qed

lemma mem_PurgeMessages_spec:
  assumes "mem_ok s" and "mem_PurgeMessages s n = (e, s')"
  shows "mem_ok s'" and "e = None" and "mem_abs s' = (mem_abs s)(n := [])"
    and "mcap s' = mcap s" and "map_option en_max (enf s') = map_option en_max (enf s)"
    and "deleted s' = deleted s @ map MakeMetadata (mem_abs s n)"
proof -
  have ok: "boxes_ok s" "enf_ok s" using assms(1) by (simp_all add: mem_ok_def)
  let ?ms = "msgs_of s n"
  let ?s1 = "s\<lparr>boxes := AList.update n ((get_box s n)\<lparr>mb_messages := []\<rparr>) (boxes s)\<rparr>"
  have b1: "boxes_ok ?s1"
    using get_box_ok [OF ok(1), of n] by (intro boxes_ok_update [OF ok(1)]) (simp add: box_ok_def)
  have ms1: "msgs_of ?s1 k = (if k = n then [] else msgs_of s k)" for k
    by (simp add: msgs_of_def box_msgs_def)
  have lv: "live ?s1 \<subseteq> live s" by (auto simp: live_def ms1 split: if_splits)
  have ok1: "enf_ok ?s1" by (rule enf_ok_mono [OF ok(2) _ lv]) simp_all
  have "entry m \<in> set (en_all e)" if "enf ?s1 = Some e" "m \<in> set ?ms" for e m
    using ok(2) that live_I [OF that(2)] by (auto simp: enf_ok_def list_inv_def)
  moreover have "(mm_mailbox m, mm_id m) \<notin> fst ` live ?s1" if "m \<in> set ?ms" for m
  proof
    assume "(mm_mailbox m, mm_id m) \<in> fst ` live ?s1"
    then obtain k m' where "m' \<in> set (msgs_of ?s1 k)" "mm_mailbox m' = mm_mailbox m"
      by (auto simp: live_def)
    then show False
      using ms1 [of k] msgs_of_mem [OF ok(1), of m' k] msgs_of_mem [OF ok(1) that] by (cases "k = n") auto
  qed
  moreover have "distinct (map (fst \<circ> entry) ?ms)"
    using msgs_of_distinct [OF ok(1), of n] by (auto simp: distinct_map inj_on_def)
  ultimately obtain e' where e': "enforcerRemove_all ?s1 ?ms = Some (?s1\<lparr>enf := e'\<rparr>)" "enf_ok (?s1\<lparr>enf := e'\<rparr>)"
    "map_option en_max e' = map_option en_max (enf ?s1)"
    using enforcerRemove_all_spec [OF ok1] by blast
  let ?d = "deleted s @ map (\<lambda>m. MakeMetadata (to_message m)) ?ms"
  have s': "e = None" "s' = ?s1\<lparr>enf := e', deleted := ?d\<rparr>"
    using assms(2) e'(1) by (simp_all add: mem_PurgeMessages_def withMailbox_def msgs_of_def box_msgs_def)
  have "enf_ok (?s1\<lparr>enf := e', deleted := ?d\<rparr>)"
    by (rule enf_ok_mono [OF e'(2)]) simp_all
  then show "mem_ok s'" using b1 by (simp add: s'(2) mem_ok_def)
  show "e = None" by (rule s'(1))
  show "mem_abs s' = (mem_abs s)(n := [])"
    using ms1 by (simp add: s'(2) mem_abs_def fun_eq_iff)
  show "mcap s' = mcap s" "map_option en_max (enf s') = map_option en_max (enf s)"
    using e'(3) by (simp_all add: s'(2))
  show "deleted s' = deleted s @ map MakeMetadata (mem_abs s n)" by (simp add: s'(2) mem_abs_def)
qed

subsection \<open>The mailbox counters\<close>

lemma mem_AddMessage_last:
  assumes "mem_ok s" and "mem_AddMessage s msg = (r, s')"
  shows "mb_last (get_box s n) \<le> mb_last (get_box s' n)"
    and "r = Ok i \<Longrightarrow> i = Utoa (mb_last (get_box s' (sMailbox msg)))
           \<and> mb_last (get_box s' (sMailbox msg)) = Suc (mb_last (get_box s (sMailbox msg)))"
proof -
  have "mb_last (get_box s n) \<le> mb_last (get_box s' n) \<and> (r = Ok i \<longrightarrow> i = Utoa (mb_last (get_box s' (sMailbox msg)))
           \<and> mb_last (get_box s' (sMailbox msg)) = Suc (mb_last (get_box s (sMailbox msg))))"
  proof (cases "sSource msg")
    case None
    with assms show ?thesis by (auto simp: mem_AddMessage_def)
  next
    case (Some src)
    obtain m s1 where w: "withMailbox s (sMailbox msg) (add_to_box (mcap s) msg src) = (m, s1)"
      by fastforce
    note st = add_box_step [OF assms(1) Some w]
    obtain s2 where "enforcerDeliver s1 m = Some s2" "\<forall>n. mb_last (get_box s2 n) = mb_last (get_box s1 n)"
      using enforcerDeliver_spec [OF assms(1) Some w] by blast
    with assms(2) Some w st(3,6) show ?thesis by (auto simp: mem_AddMessage_def)
  qed
  then show "mb_last (get_box s n) \<le> mb_last (get_box s' n)"
    "r = Ok i \<Longrightarrow> i = Utoa (mb_last (get_box s' (sMailbox msg)))
           \<and> mb_last (get_box s' (sMailbox msg)) = Suc (mb_last (get_box s (sMailbox msg)))" by blast+
qed

lemma enforcerRemove_box: "enforcerRemove s m = Some s' \<Longrightarrow> boxes s' = boxes s"
  by (auto simp: enforcerRemove_def Let_def split: option.splits if_splits)

lemma enforcerRemove_all_box: "enforcerRemove_all s ms = Some s' \<Longrightarrow> boxes s' = boxes s"
  by (induction ms arbitrary: s) (auto split: option.splits dest: enforcerRemove_box)

lemma get_box_cong: "boxes s' = boxes s \<Longrightarrow> get_box s' n = get_box s n"
  by (simp add: get_box_def)

lemma withMailbox_last:
  assumes "withMailbox s k f = (r, s')" and "\<And>mb. mb_last (snd (f mb)) = mb_last mb"
  shows "mb_last (get_box s' n) = mb_last (get_box s n)"
  using assms(1) assms(2) [of "get_box s k"] by (auto simp: withMailbox_def split: prod.splits)

lemma mem_reads_last:
  "mem_GetMessages s k = (rl, s') \<Longrightarrow> mb_last (get_box s' n) = mb_last (get_box s n)"
  "mem_GetMessage s k i = (ro, s') \<Longrightarrow> mb_last (get_box s' n) = mb_last (get_box s n)"
  "mem_MarkSeen s k i = (e, s') \<Longrightarrow> mb_last (get_box s' n) = mb_last (get_box s n)"
proof -
  show all: "mem_GetMessages s k = (rl, s') \<Longrightarrow> mb_last (get_box s' n) = mb_last (get_box s n)" for rl s'
    by (auto simp: mem_GetMessages_def split: prod.splits dest!: withMailbox_last [where n = n])
  show "mem_GetMessage s k i = (ro, s') \<Longrightarrow> mb_last (get_box s' n) = mb_last (get_box s n)"
    by (cases "i = ''latest''")
       (auto simp: mem_GetMessage_def split: prod.splits sum.splits dest!: withMailbox_last [where n = n] all)
  show "mem_MarkSeen s k i = (e, s') \<Longrightarrow> mb_last (get_box s' n) = mb_last (get_box s n)"
    by (auto simp: mem_MarkSeen_def withMailbox_def split: option.splits)
qed

lemma mem_deletes_last:
  "mem_RemoveMessage s k i = (e, s') \<Longrightarrow> boxes_ok s \<Longrightarrow> mb_last (get_box s' n) = mb_last (get_box s n)"
  "mem_PurgeMessages s k = (e, s') \<Longrightarrow> mb_last (get_box s' n) = mb_last (get_box s n)"
proof -
  assume r: "mem_RemoveMessage s k i = (e, s')" and ok: "boxes_ok s"
  obtain m s1 where m: "removeMessage s k i = (m, s1)" by fastforce
  from r m have "boxes s' = boxes s1"
    by (auto simp: mem_RemoveMessage_def split: option.splits dest: enforcerRemove_box)
  with removeMessage_spec(3) [OF ok m] get_box_cong show "mb_last (get_box s' n) = mb_last (get_box s n)" by metis
next
  assume p: "mem_PurgeMessages s k = (e, s')"
  obtain ms s1 where w: "withMailbox s k (\<lambda>mb. (map snd (mb_messages mb), mb\<lparr>mb_messages := []\<rparr>)) = (ms, s1)"
    by fastforce
  have "boxes s' = boxes s1"
  proof (cases "enforcerRemove_all s1 ms")
    case None
    with p w show ?thesis by (simp add: mem_PurgeMessages_def)
  next
    case (Some s2)
    with p w enforcerRemove_all_box [OF Some] show ?thesis by (auto simp: mem_PurgeMessages_def)
  qed
  from get_box_cong [OF this, of n] have "mb_last (get_box s' n) = mb_last (get_box s1 n)" by simp
  also have "\<dots> = mb_last (get_box s n)" by (rule withMailbox_last [OF w]) simp
  finally show "mb_last (get_box s' n) = mb_last (get_box s n)" .
qed

end
