(* ===== verification/MemReach.thy ===== *)
theory MemReach
  imports MemContract
begin

text \<open>
  The interpretations of the storage contracts on the memory store, and what holds in every state
  a sequence of operations reaches from \<open>New\<close>.
\<close>

subsection \<open>The contracts\<close>

lemma mem_abs_ids: "mem_ok s \<Longrightarrow> distinct (map sID (mem_abs s n))"
proof -
  assume "mem_ok s"
  then have "distinct (map mm_id (msgs_of s n))" by (simp add: mem_ok_def msgs_of_distinct)
  then show ?thesis by (simp add: mem_abs_def to_message_def comp_def)
qed

lemma mem_abs_mailbox: "mem_ok s \<Longrightarrow> m \<in> set (mem_abs s n) \<Longrightarrow> sMailbox m = n"
  by (auto simp: mem_ok_def mem_abs_def to_message_def dest: msgs_of_mem)

lemma mem_get_found:
  assumes "mem_ok s" and "m \<in> set (mem_abs s n)" and "sID m \<noteq> ''latest''"
  shows "\<exists>s'. mem_GetMessage s n (sID m) = (Ok (Some m), s')"
proof -
  obtain r s' where g: "mem_GetMessage s n (sID m) = (r, s')" by fastforce
  have "distinct (map sID ms) \<Longrightarrow> m \<in> set ms \<Longrightarrow> find (\<lambda>x. sID x = sID m) ms = Some m" for ms
    by (induction ms) (auto simp: image_iff)
  with mem_GetMessage_spec(3) [OF assms(1) g] assms mem_abs_ids have "r = Ok (Some m)" by auto
  with g show ?thesis by blast
qed

lemma mem_get_one:
  assumes "mem_ok s" and "mem_GetMessage s n i = (Ok (Some m), s')"
  shows "m \<in> set (mem_abs s n) \<and> (i \<noteq> ''latest'' \<longrightarrow> sID m = i)"
  using mem_GetMessage_spec(3) [OF assms]
  by (auto simp: find_Some_iff2 split: if_splits)

lemma mem_add_ok:
  assumes "mem_ok s" and "sSource m = Some src"
  shows "\<exists>i s'. mem_AddMessage s m = (Ok i, s')"
proof -
  obtain r s' where a: "mem_AddMessage s m = (r, s')" by fastforce
  with mem_AddMessage_spec(4) [OF assms(1) a assms(2)] show ?thesis by auto
qed

interpretation mem: message_store mem_ops mem_abs mem_ok
proof (unfold_locales, goal_cases)
  case (1 st mb) then show ?case by (rule mem_abs_ids)
next
  case (2 st m mb) then show ?case by (rule mem_abs_mailbox)
next
  case (3 st m ra st') then show ?case by (simp add: mem_ops_def mem_AddMessage_spec(1))
next
  case (4 st m src) then show ?case by (simp add: mem_ops_def mem_add_ok)
next
  case (5 st m i st' mb)
  then show ?case using mem_AddMessage_spec(5) [of st m "Ok i" st' i mb]
    by (cases "mb = sMailbox m") (simp_all add: mem_ops_def stored_def)
next
  case (6 st mb r st') then show ?case by (simp add: mem_ops_def mem_GetMessages_spec(1))
next
  case (7 st mb r st') then show ?case by (simp add: mem_ops_def mem_GetMessages_spec(2,3))
next
  case (8 st mb i e st') then show ?case by (simp add: mem_ops_def mem_RemoveMessage_spec(1))
next
  case (9 st mb i e st') then show ?case by (simp add: mem_ops_def mem_RemoveMessage_spec(3))
next
  case (10 st mb i e st') then show ?case by (simp add: mem_ops_def mem_RemoveMessage_spec(2))
next
  case (11 st mb e st') then show ?case by (simp add: mem_ops_def mem_PurgeMessages_spec(1))
next
  case (12 st mb e st') then show ?case by (simp add: mem_ops_def mem_PurgeMessages_spec(2,3))
next
  case (13 st mb i e st') then show ?case by (simp add: mem_ops_def mem_MarkSeen_spec(1))
next
  case (14 st mb i e st') then show ?case by (simp add: mem_ops_def mem_MarkSeen_spec(2,3))
next
  case (15 st mb i ro st') then show ?case by (simp add: mem_ops_def mem_GetMessage_spec(1,2))
next
  case (16 st mb i m st') then show ?case by (simp add: mem_ops_def mem_get_one)
next
  case (17 st m mb) then show ?case by (simp add: mem_ops_def mem_get_found)
next
  case (18 st i mb rm st')
  then have "find (\<lambda>m. sID m = i) (mem_abs st mb) = None" by (auto simp: find_None_iff)
  with 18 show ?case using mem_GetMessage_spec(3) [of st mb i rm st'] by (simp add: mem_ops_def)
qed

text \<open>A store without a size limit and with the message cap \<open>c\<close>.\<close>

definition mem_capped :: "int \<Rightarrow> mem_store \<Rightarrow> bool" where
  "mem_capped c s \<longleftrightarrow> mem_ok s \<and> enf s = None \<and> mcap s = c"

lemma mem_reads_keep:
  assumes "mem_ok s" and "mem_GetMessage s n i = (r, s')"
  shows "enf s' = enf s \<and> mcap s' = mcap s"
proof (cases "i = ''latest''")
  case True
  obtain g s'' where g: "mem_GetMessages s n = (g, s'')" by fastforce
  from True assms(2) g mem_GetMessages_spec(4,5) [OF assms(1) g] show ?thesis
    by (auto simp: mem_GetMessage_def split: sum.splits)
next
  case False
  with assms(2) obtain m where "withMailbox s n (\<lambda>mb. (map_of (mb_messages mb) i, mb)) = (m, s')"
    by (auto simp: mem_GetMessage_def Let_def split: prod.splits)
  from withMailbox_read(4,5) [OF assms(1) this] show ?thesis by simp
qed

lemma mem_capped_steps:
  assumes "mem_capped c s"
  shows "mem_AddMessage s m = (ra, s') \<Longrightarrow> mem_capped c s'"
    and "mem_GetMessages s n = (rl, s') \<Longrightarrow> mem_capped c s'"
    and "mem_GetMessage s n i = (ro, s') \<Longrightarrow> mem_capped c s'"
    and "mem_MarkSeen s n i = (e, s') \<Longrightarrow> mem_capped c s'"
    and "mem_PurgeMessages s n = (e, s') \<Longrightarrow> mem_capped c s'"
    and "mem_RemoveMessage s n i = (e, s') \<Longrightarrow> mem_capped c s'"
proof -
  have ok: "mem_ok s" "enf s = None" "mcap s = c" using assms by (simp_all add: mem_capped_def)
  show "mem_AddMessage s m = (ra, s') \<Longrightarrow> mem_capped c s'"
    using mem_AddMessage_spec(1,2,3) [OF ok(1)] ok by (auto simp: mem_capped_def)
  show "mem_GetMessages s n = (rl, s') \<Longrightarrow> mem_capped c s'"
    using mem_GetMessages_spec(1,4,5) [OF ok(1)] ok by (auto simp: mem_capped_def)
  show "mem_GetMessage s n i = (ro, s') \<Longrightarrow> mem_capped c s'"
    using mem_GetMessage_spec(1) [OF ok(1)] mem_reads_keep [OF ok(1)] ok by (auto simp: mem_capped_def)
  show "mem_MarkSeen s n i = (e, s') \<Longrightarrow> mem_capped c s'"
    using mem_MarkSeen_spec(1,4,5) [OF ok(1)] ok by (auto simp: mem_capped_def)
  show "mem_PurgeMessages s n = (e, s') \<Longrightarrow> mem_capped c s'"
    using mem_PurgeMessages_spec(1,4,5) [OF ok(1)] ok by (auto simp: mem_capped_def)
  show "mem_RemoveMessage s n i = (e, s') \<Longrightarrow> mem_capped c s'"
    using mem_RemoveMessage_spec(1,4,5) [OF ok(1)] ok by (auto simp: mem_capped_def)
qed

lemma mem_capped_store: "message_store mem_ops mem_abs (mem_capped c)"
proof (unfold_locales, goal_cases)
  case (3 st m ra st') then show ?case using mem_capped_steps(1) [of c st m ra st'] by (simp add: mem_ops_def)
next
  case (6 st mb r st') then show ?case using mem_capped_steps(2) [of c st mb r st'] by (simp add: mem_ops_def)
next
  case (8 st mb i e st') then show ?case using mem_capped_steps(6) [of c st mb i e st'] by (simp add: mem_ops_def)
next
  case (11 st mb e st') then show ?case using mem_capped_steps(5) [of c st mb e st'] by (simp add: mem_ops_def)
next
  case (13 st mb i e st') then show ?case using mem_capped_steps(4) [of c st mb i e st'] by (simp add: mem_ops_def)
next
  case (15 st mb i ro st')
  then show ?case using mem_capped_steps(3) [of c st mb i ro st'] mem.inv_get_one [of st mb i ro st']
    by (simp add: mem_ops_def mem_capped_def)
next
  case (1 st mb) then show ?case using mem.ids_distinct unfolding mem_capped_def by blast
next
  case (2 st m mb) then show ?case using mem.mailbox_of unfolding mem_capped_def by blast
next
  case (4 st m src) then show ?case using mem.add_result unfolding mem_capped_def by blast
next
  case (5 st m i st' mb) then show ?case using mem.add_abs unfolding mem_capped_def by blast
next
  case (7 st mb r st') then show ?case using mem.get_messages unfolding mem_capped_def by blast
next
  case (9 st mb i e st') then show ?case using mem.remove_abs unfolding mem_capped_def by blast
next
  case (10 st mb i e st') then show ?case using mem.remove_result unfolding mem_capped_def by blast
next
  case (12 st mb e st') then show ?case using mem.purge_abs unfolding mem_capped_def by blast
next
  case (14 st mb i e st') then show ?case using mem.seen_abs unfolding mem_capped_def by blast
next
  case (16 st mb i m st') then show ?case using mem.get_one unfolding mem_capped_def by blast
next
  case (17 st m mb) then show ?case using mem.get_one_found unfolding mem_capped_def by blast
next
  case (18 st i mb rm st') then show ?case using mem.get_missing unfolding mem_capped_def by blast
qed

interpretation capped: capped_store mem_ops mem_abs "mem_capped c" c for c
proof (intro capped_store.intro mem_capped_store capped_store_axioms.intro)
  fix st m i st'
  assume "mem_capped c st" "AddMessage mem_ops st m = (Ok i, st')"
  then show "mem_abs st' = (mem_abs st)(sMailbox m := keep_newest c (mem_abs st (sMailbox m) @
        [m\<lparr>sID := i, sSize := int (length (the (sSource m))), sSeen := False\<rparr>]))"
    using mem_AddMessage_spec(6) [of st m "Ok i" st' i] by (simp add: mem_capped_def mem_ops_def stored_def)
qed

subsection \<open>Runs\<close>

inductive mem_step :: "mem_store \<Rightarrow> mem_store \<Rightarrow> bool" where
  step_add: "mem_AddMessage s m = (ra, s') \<Longrightarrow> mem_step s s'"
| step_list: "mem_GetMessages s n = (rl, s') \<Longrightarrow> mem_step s s'"
| step_get: "mem_GetMessage s n i = (ro, s') \<Longrightarrow> mem_step s s'"
| step_seen: "mem_MarkSeen s n i = (e, s') \<Longrightarrow> mem_step s s'"
| step_purge: "mem_PurgeMessages s n = (e, s') \<Longrightarrow> mem_step s s'"
| step_remove: "mem_RemoveMessage s n i = (e, s') \<Longrightarrow> mem_step s s'"

inductive mem_run :: "mem_store \<Rightarrow> mem_store \<Rightarrow> bool" where
  run_refl: "mem_run s s"
| run_step: "mem_run s s' \<Longrightarrow> mem_step s' s'' \<Longrightarrow> mem_run s s''"

lemma mem_step_spec:
  assumes "mem_step s s'" and "mem_ok s"
  shows "mem_ok s'" and "mcap s' = mcap s" and "map_option en_max (enf s') = map_option en_max (enf s)"
    and "mb_last (get_box s n) \<le> mb_last (get_box s' n)"
proof -
  have "mem_ok s' \<and> mcap s' = mcap s \<and> map_option en_max (enf s') = map_option en_max (enf s)
    \<and> mb_last (get_box s n) \<le> mb_last (get_box s' n)"
    using assms
  proof (cases rule: mem_step.cases)
    case (step_add m ra)
    from mem_AddMessage_spec(1-3) [OF assms(2) this] mem_AddMessage_last(1) [OF assms(2) this]
    show ?thesis by simp
  next
    case (step_list n rl)
    from mem_GetMessages_spec(1,4,5) [OF assms(2) this] mem_reads_last(1) [OF this]
    show ?thesis by simp
  next
    case (step_get n i ro)
    from mem_GetMessage_spec(1) [OF assms(2) this] mem_reads_keep [OF assms(2) this] mem_reads_last(2) [OF this]
    show ?thesis by simp
  next
    case (step_seen n i e)
    from mem_MarkSeen_spec(1,4,5) [OF assms(2) this] mem_reads_last(3) [OF this]
    show ?thesis by simp
  next
    case (step_purge n e)
    from mem_PurgeMessages_spec(1,4,5) [OF assms(2) this] mem_deletes_last(2) [OF this]
    show ?thesis by simp
  next
    case (step_remove n i e)
    from mem_RemoveMessage_spec(1,4,5) [OF assms(2) this] mem_deletes_last(1) [OF this] assms(2)
    show ?thesis by (simp add: mem_ok_def)
  qed
  then show "mem_ok s'" "mcap s' = mcap s" "map_option en_max (enf s') = map_option en_max (enf s)"
    "mb_last (get_box s n) \<le> mb_last (get_box s' n)" by blast+
qed

lemma mem_run_spec:
  assumes "mem_run s s'" and "mem_ok s"
  shows "mem_ok s' \<and> mcap s' = mcap s \<and> map_option en_max (enf s') = map_option en_max (enf s)
    \<and> mb_last (get_box s n) \<le> mb_last (get_box s' n)"
  using assms
proof (induction rule: mem_run.induct)
  case (run_step s s' s'')
  have ok: "mem_ok s'" using run_step.IH run_step.prems by blast
  from mem_step_spec [OF run_step.hyps(2) ok] run_step.IH [OF run_step.prems] show ?case
    by (auto intro: le_trans)
qed simp

lemma mem_New_spec:
  assumes "mem_New cap mk = Some s"
  shows "mem_ok s" and "mcap s = cap" and "mem_abs s n = []"
    and "map_option en_max (enf s) = (case mk of None \<Rightarrow> None
       | Some kb \<Rightarrow> (let k = the (ParseInt 64 kb) in if k > 0 then Some (k * 1024) else None))"
proof -
  show "mem_ok s" "mcap s = cap" "mem_abs s n = []" "map_option en_max (enf s) = (case mk of None \<Rightarrow> None
       | Some kb \<Rightarrow> (let k = the (ParseInt 64 kb) in if k > 0 then Some (k * 1024) else None))"
    using assms
    by (auto simp: mem_New_def mem_ok_def boxes_ok_def enf_ok_def list_inv_def known_inv_def live_def
        mem_abs_def msgs_of_def box_msgs_def get_box_def Let_def split: option.splits if_splits)
qed

end
