(* ===== verification/MemProps.thy ===== *)
theory MemProps
  imports MemReach
begin

text \<open>The properties of the memory store and its size enforcer.\<close>

subsection \<open>The size limit\<close>

text \<open>The bytes of all stored messages.\<close>

definition mem_bytes :: "mem_store \<Rightarrow> int" where
  [go_eval]: "mem_bytes s = sum_list (map (\<lambda>(n, mb). sum_list (map (mm_Size \<circ> snd) (mb_messages mb))) (boxes s))"

lemma get_box_mem: "boxes_ok s \<Longrightarrow> (n, mb) \<in> set (boxes s) \<Longrightarrow> get_box s n = mb"
  by (auto simp: boxes_ok_def get_box_def)

definition entries :: "mem_store \<Rightarrow> ((string \<times> string) \<times> int) list" where
  "entries s = concat (map (\<lambda>(n, mb). map entry (box_msgs mb)) (boxes s))"

lemma entries_bytes: "mem_bytes s = sum_list (map snd (entries s))"
proof -
  have "sum_list (map (\<lambda>(n, mb). sum_list (map (mm_Size \<circ> snd) (mb_messages mb))) bs)
      = sum_list (map snd (concat (map (\<lambda>(n, mb). map entry (box_msgs mb)) bs)))" for bs
    by (induction bs) (auto simp: box_msgs_def comp_def)
  then show ?thesis by (simp add: mem_bytes_def entries_def)
qed

lemma entries_live: "boxes_ok s \<Longrightarrow> set (entries s) \<subseteq> live s"
proof
  fix x assume ok: "boxes_ok s" and "x \<in> set (entries s)"
  then obtain n mb m where m: "(n, mb) \<in> set (boxes s)" "m \<in> set (box_msgs mb)" "x = entry m"
    by (auto simp: entries_def)
  with get_box_mem [OF ok m(1)] have "m \<in> set (msgs_of s n)" by (simp add: msgs_of_def)
  with m(3) live_I show "x \<in> live s" by simp
qed

lemma entries_distinct:
  assumes "boxes_ok s" shows "distinct (map fst (entries s))"
proof -
  have "distinct (map fst (concat (map (\<lambda>(n, mb). map entry (box_msgs mb)) bs)))"
    if "distinct (map fst bs)" "\<forall>(n, mb)\<in>set bs. box_ok n mb" for bs
    using that
  proof (induction bs)
    case (Cons b bs)
    obtain n mb where b: "b = (n, mb)" by fastforce
    have ok: "box_ok n mb" and rest: "\<forall>(n, mb)\<in>set bs. box_ok n mb" and "n \<notin> fst ` set bs"
      using Cons.prems b by auto
    have mail: "mm_mailbox m = k" if "box_ok k mb'" "m \<in> set (box_msgs mb')" for k mb' m
      using that by (auto simp: box_msgs_def dest: box_ok_mem)
    have one: "distinct (map fst (map entry (box_msgs mb)))"
      using box_ok_distinct(2) [OF ok] by (auto simp: distinct_map inj_on_def)
    have "fst ` set (map entry (box_msgs mb)) \<inter> fst ` set (concat (map (\<lambda>(n, mb). map entry (box_msgs mb)) bs)) = {}"
    proof (rule ccontr)
      assume "\<not> ?thesis"
      then obtain m k mb' m' where "m \<in> set (box_msgs mb)" "(k, mb') \<in> set bs" "m' \<in> set (box_msgs mb')"
        "mm_mailbox m = mm_mailbox m'" by (fastforce simp: entry_def)
      with mail [OF ok] mail rest have "k = n" by fastforce
      with \<open>(k, mb') \<in> set bs\<close> \<open>n \<notin> fst ` set bs\<close> show False by force
    qed
    moreover have "distinct (map fst bs)" using Cons.prems(1) by simp
    from Cons.IH [OF this rest]
    have "distinct (map fst (concat (map (\<lambda>(n, mb). map entry (box_msgs mb)) bs)))" .
    moreover have "concat (map (\<lambda>(n, mb). map entry (box_msgs mb)) (b # bs))
        = map entry (box_msgs mb) @ concat (map (\<lambda>(n, mb). map entry (box_msgs mb)) bs)"
      by (simp add: b)
    ultimately show ?case using one by (simp only: map_append distinct_append set_map)
  qed simp
  with assms show ?thesis by (simp add: boxes_ok_def entries_def)
qed

lemma sum_list_subset:
  fixes f :: "'a \<Rightarrow> int"
  assumes "distinct xs" and "distinct ys" and "set xs \<subseteq> set ys" and "\<forall>y\<in>set ys. 0 \<le> f y"
  shows "sum_list (map f xs) \<le> sum_list (map f ys)"
proof -
  have "sum f (set xs) \<le> sum f (set ys)"
    using assms(3,4) by (intro sum_mono2) auto
  then show ?thesis using assms(1,2) by (simp add: sum_list_distinct_conv_sum_set)
qed

lemma mem_ok_bytes:
  assumes "mem_ok s" and "map_option en_max (enf s) = Some mx"
  shows "mem_bytes s \<le> mx"
proof -
  obtain e where e: "enf s = Some e" "en_max e = mx" using assms(2) by auto
  have ok: "boxes_ok s" "list_inv (en_all e) (en_cur e) s" "en_cur e \<le> mx"
    using assms(1) e by (simp_all add: mem_ok_def enf_ok_def)
  have "sum_list (map snd (entries s)) \<le> sum_list (map snd (en_all e))"
  proof (rule sum_list_subset)
    show "distinct (entries s)" using entries_distinct [OF ok(1)] distinct_map by blast
    show "distinct (en_all e)" using ok(2) by (simp add: list_inv_def distinct_map)
    show "set (entries s) \<subseteq> set (en_all e)"
      using entries_live [OF ok(1)] ok(2) by (auto simp: list_inv_def)
    show "\<forall>y\<in>set (en_all e). 0 \<le> snd y" using ok(2) by (simp add: list_inv_def)
  qed
  then show ?thesis using ok(2,3) by (simp add: entries_bytes list_inv_def)
qed

text \<open>
  C12: a memory store that was created with the parameter \<open>maxkb\<close> set to a positive number never
  holds more than that many kilobytes of messages, whatever operations are performed on it.
\<close>
theorem mem_size_limit:
  assumes "mem_New cap (Some kb) = Some s0" and "ParseInt 64 kb = Some k" and "0 < k"
    and "mem_run s0 s"
  shows "mem_bytes s \<le> k * 1024"
  using mem_New_spec(1,4) [OF assms(1)] assms(2,3) mem_run_spec [OF assms(4)]
  by (intro mem_ok_bytes) (simp_all add: Let_def)

lemma mem_step_cap:
  assumes "mem_step s s'" and "mem_ok s" and "0 < mcap s"
    and "\<And>n. int (length (mem_abs s n)) \<le> mcap s"
  shows "int (length (mem_abs s' n)) \<le> mcap s"
  using assms(1)
proof (cases rule: mem_step.cases)
  case (step_add m ra)
  show ?thesis
  proof (cases ra)
    case (Inl e)
    have "sSource m = None"
    proof (rule ccontr)
      assume "sSource m \<noteq> None"
      then obtain src where "sSource m = Some src" by auto
      with mem_AddMessage_spec(4) [OF assms(2) step_add] Inl show False by simp
    qed
    with step_add assms(4) show ?thesis by (auto simp: mem_AddMessage_def)
  next
    case (Inr i)
    from mem_AddMessage_spec(7) [OF assms(2) step_add Inr, of n]
    have "length (mem_abs s' n) \<le> length (if n = sMailbox m
        then keep_newest (mcap s) (mem_abs s n @ [stored m i]) else mem_abs s n)"
      by (rule list_emb_length)
    then show ?thesis
      using length_keep_newest [OF assms(3), of "mem_abs s n @ [stored m i]"] assms(4) [of n]
      by (cases "n = sMailbox m") auto
  qed
next
  case (step_list n rl)
  with mem_GetMessages_spec(2) [OF assms(2)] assms(4) show ?thesis by auto
next
  case (step_get n i ro)
  with mem_GetMessage_spec(2) [OF assms(2)] assms(4) show ?thesis by auto
next
  case (step_seen n' i e)
  with mem_MarkSeen_spec(3) [OF assms(2)] assms(4) [of n] show ?thesis by (cases "n = n'") auto
next
  case (step_purge n' e)
  with mem_PurgeMessages_spec(3) [OF assms(2)] assms(3) assms(4) [of n] show ?thesis by (cases "n = n'") auto
next
  case (step_remove n' i e)
  have "length (mem_abs s' n) \<le> length (mem_abs s n)"
    unfolding mem_RemoveMessage_spec(3) [OF assms(2) step_remove] by simp
  with assms(4) [of n] show ?thesis by simp
qed

lemma mem_run_cap:
  assumes "mem_run s s'" and "mem_ok s" and "0 < mcap s"
    and "\<And>n. int (length (mem_abs s n)) \<le> mcap s"
  shows "int (length (mem_abs s' n)) \<le> mcap s"
  using assms
proof (induction arbitrary: n rule: mem_run.induct)
  case (run_step s s' s'')
  have ok: "mem_ok s'" "mcap s' = mcap s" using mem_run_spec [OF run_step.hyps(1) run_step.prems(1)] by simp_all
  have "0 < mcap s'" using ok(2) run_step.prems(2) by simp
  moreover have "int (length (mem_abs s' k)) \<le> mcap s'" for k
    using run_step.IH [OF run_step.prems] ok(2) by simp
  ultimately have "int (length (mem_abs s'' n)) \<le> mcap s'"
    by (rule mem_step_cap [OF run_step.hyps(2) ok(1)])
  with ok(2) show ?case by simp
qed

text \<open>
  With a positive message cap no mailbox ever holds more messages than the cap, with or
  without a size limit.
\<close>
theorem mem_cap_bound:
  assumes "mem_New cap mk = Some s0" and "0 < cap" and "mem_run s0 s"
  shows "int (length (mem_abs s n)) \<le> cap"
  using mem_run_cap [OF assms(3) mem_New_spec(1) [OF assms(1)]] mem_New_spec(2,3) [OF assms(1)] assms(2)
  by simp

text \<open>A run of two deliveries into a store of two messages per mailbox and one kilobyte.\<close>

definition example_store :: "mem_store" where
  [go_eval]: "example_store = the (mem_New 2 (Some ''1''))"

definition example_msg :: "string \<Rightarrow> string \<Rightarrow> message" where
  [go_eval]: "example_msg mb src = \<lparr>sMailbox = mb, sID = [], sFrom = None, sTo = [], sDate = 0,
     sSubject = [], sSource = Some src, sSize = 0, sSeen = False\<rparr>"

definition example_two :: "mem_store" where
  [go_eval]: "example_two = snd (mem_AddMessage (snd (mem_AddMessage example_store (example_msg ''a'' ''x'')))
     (example_msg ''a'' ''y''))"

lemma step_add_snd: "mem_step s (snd (mem_AddMessage s m))"
  by (rule step_add [of s m "fst (mem_AddMessage s m)"]) simp

lemma example_run: "mem_run example_store example_two"
  unfolding example_two_def by (rule run_step [OF run_step [OF run_refl step_add_snd] step_add_snd])

lemma example_two_ids: "map sID (mem_abs example_two ''a'') = [''1'', ''2'']"
  by (simp add: go_eval mem_abs_def msgs_of_def box_msgs_def)

lemma example_New: "mem_New 2 (Some ''1'') = Some example_store"
  by (simp add: go_eval)

theorem mem_size_limit_witness: "mem_bytes example_two \<le> 1 * 1024"
  by (rule mem_size_limit [OF example_New _ _ example_run]) (simp_all add: go_eval)

theorem mem_cap_bound_witness: "int (length (mem_abs example_two ''a'')) \<le> 2"
  by (rule mem_cap_bound [OF example_New _ example_run]) simp

text \<open>
  In every state that a run reaches, adding a message with a readable source, removing and
  purging all succeed: the enforcer never dereferences the front of an empty list or the missing
  list element of a message, and no operation on a store without concurrency panics.
\<close>
theorem mem_never_panics:
  assumes "mem_New cap mk = Some s0" and "mem_run s0 s" and "sSource m = Some src"
  shows "is_ok (fst (mem_AddMessage s m)) \<and> fst (mem_RemoveMessage s n i) = None
    \<and> fst (mem_PurgeMessages s n) = None \<and> fst (mem_MarkSeen s n i) = None
    \<and> is_ok (fst (mem_GetMessages s n)) \<and> is_ok (fst (mem_GetMessage s n i))"
proof -
  have ok: "mem_ok s" using mem_run_spec [OF assms(2)] mem_New_spec(1) [OF assms(1)] by simp
  show ?thesis
    using mem_add_ok [OF ok assms(3)] mem_RemoveMessage_spec(2) [OF ok prod.collapse [symmetric]]
      mem_PurgeMessages_spec(2) [OF ok prod.collapse [symmetric]]
      mem_MarkSeen_spec(2) [OF ok prod.collapse [symmetric]]
      mem_GetMessages_spec(3) [OF ok prod.collapse [symmetric]]
      mem_GetMessage_spec(3) [OF ok prod.collapse [symmetric]]
    by (simp add: is_ok_iff) (metis fst_conv)
qed

theorem mem_never_panics_witness:
  "is_ok (fst (mem_AddMessage example_two (example_msg ''b'' ''z'')))
    \<and> fst (mem_RemoveMessage example_two ''a'' ''7'') = None
    \<and> fst (mem_PurgeMessages example_two ''a'') = None \<and> fst (mem_MarkSeen example_two ''a'' ''7'') = None
    \<and> is_ok (fst (mem_GetMessages example_two ''a'')) \<and> is_ok (fst (mem_GetMessage example_two ''a'' ''7''))"
  by (rule mem_never_panics [OF example_New example_run, where src = "''z''"]) (simp add: example_msg_def)

text \<open>
  A message id is never used twice in a mailbox, also after the message was deleted, evicted
  or the mailbox purged.
\<close>
theorem mem_ids_fresh:
  assumes "mem_New cap mk = Some s0" and "mem_run s0 s1" and "mem_AddMessage s1 m = (Ok i, s2)"
    and "mem_run s2 s3" and "mem_AddMessage s3 m' = (Ok i', s4)" and "sMailbox m' = sMailbox m"
  shows "i' \<noteq> i"
proof -
  have ok1: "mem_ok s1" using mem_run_spec [OF assms(2)] mem_New_spec(1) [OF assms(1)] by simp
  have ok2: "mem_ok s2" by (rule mem_AddMessage_spec(1) [OF ok1 assms(3)])
  have ok3: "mem_ok s3" using mem_run_spec [OF assms(4) ok2] by simp
  have "i = Utoa (mb_last (get_box s2 (sMailbox m)))"
    using mem_AddMessage_last(2) [OF ok1 assms(3) refl] by simp
  moreover have "i' = Utoa (Suc (mb_last (get_box s3 (sMailbox m))))"
    using mem_AddMessage_last(2) [OF ok3 assms(5) refl] assms(6) by simp
  moreover have "mb_last (get_box s2 (sMailbox m)) \<le> mb_last (get_box s3 (sMailbox m))"
    using mem_run_spec [OF assms(4) ok2] by simp
  ultimately show ?thesis by simp
qed


theorem mem_ids_fresh_witness:
  "fst (mem_AddMessage example_store (example_msg ''a'' ''x'')) = Ok ''1'' \<and> ''2'' \<noteq> ''1''
    \<and> fst (mem_AddMessage (snd (mem_AddMessage example_store (example_msg ''a'' ''x''))) (example_msg ''a'' ''y'')) = Ok ''2''"
proof -
  let ?m = "example_msg ''a'' ''x''" and ?m' = "example_msg ''a'' ''y''"
  let ?s = "snd (mem_AddMessage example_store ?m)"
  have "fst (mem_AddMessage example_store ?m) = Ok ''1''" "fst (mem_AddMessage ?s ?m') = Ok ''2''"
    by (simp_all add: go_eval)
  then have a: "mem_AddMessage example_store ?m = (Ok ''1'', ?s)"
    and b: "mem_AddMessage ?s ?m' = (Ok ''2'', snd (mem_AddMessage ?s ?m'))"
    by (metis prod.collapse)+
  have "''2'' \<noteq> ''1''"
    by (rule mem_ids_fresh [OF example_New run_refl a run_refl b]) (simp add: example_msg_def)
  with a b show ?thesis by (metis fst_conv)
qed

subsection \<open>What the operations do\<close>

text \<open>
  On a store without a size limit, after a successful add the mailbox lists the message last,
  with the returned id, unseen and with the length of its source as its size, after the newest
  \<open>cap - 1\<close> of the messages that were there; other mailboxes are unchanged.
\<close>
theorem mem_add_then_list:
  assumes "mem_New cap None = Some s0" and "0 \<le> cap" and "mem_run s0 s"
    and "mem_AddMessage s m = (Ok i, s')" and "mem_GetMessages s' n = (r, s'')"
  shows "r = Ok (if n = sMailbox m
      then keep_newest cap (mem_abs s n @ [m\<lparr>sID := i, sSize := int (length (the (sSource m))), sSeen := False\<rparr>])
      else mem_abs s n)"
proof -
  have c: "mem_capped cap s"
    using mem_run_spec [OF assms(3)] mem_New_spec [OF assms(1)] by (simp add: mem_capped_def)
  have a: "AddMessage mem_ops s m = (Ok i, s')" and g: "GetMessages mem_ops s' n = (r, s'')"
    using assms(4,5) by (simp_all add: mem_ops_def)
  show ?thesis
    using capped.get_messages [OF capped.inv_add [OF c a] g] capped.add_capped [OF c a] by simp
qed

theorem mem_add_then_list_witness:
  "fst (mem_GetMessages (snd (mem_AddMessage (the (mem_New 1 None)) (example_msg ''a'' ''x''))) ''a'')
    = Ok (keep_newest 1 (mem_abs (the (mem_New 1 None)) ''a'' @
        [(example_msg ''a'' ''x'')\<lparr>sID := ''1'', sSize := 1, sSeen := False\<rparr>]))"
proof -
  let ?s = "the (mem_New 1 None)" and ?m = "example_msg ''a'' ''x''"
  have n: "mem_New 1 None = Some ?s" by (simp add: go_eval)
  have "fst (mem_AddMessage ?s ?m) = Ok ''1''" by (simp add: go_eval)
  then have a: "mem_AddMessage ?s ?m = (Ok ''1'', snd (mem_AddMessage ?s ?m))" by (metis prod.collapse)
  show ?thesis
    using mem_add_then_list [OF n _ run_refl a prod.collapse [symmetric], of "''a''"]
    by (simp add: example_msg_def)
qed

text \<open>
  The size enforcer is not told of the messages the mailbox cap evicts. With a cap of one and
  a limit of one kilobyte, of two messages that fit each but not together the second is deleted
  as soon as it is delivered, and the mailbox is left empty; the add reports success.
\<close>
theorem capped_size_leak:
  assumes "length x \<le> 1024" and "length y \<le> 1024" and "1024 < length x + length y"
    and "mem_New 1 (Some ''1'') = Some s0" and "mem_AddMessage s0 (example_msg ''a'' x) = (Ok i, s1)"
    and "mem_AddMessage s1 (example_msg ''a'' y) = (r, s2)"
  shows "r = Ok ''2'' \<and> mem_abs s2 ''a'' = []"
proof -
  have s0: "s0 = \<lparr>boxes = [], mcap = 1, enf = Some \<lparr>en_max = 1024, en_all = [], en_cur = 0, en_els = []\<rparr>, deleted = []\<rparr>"
    using assms(4) by (simp add: go_eval)
  have s1: "s1 = \<lparr>boxes = [(''a'', \<lparr>mb_name = ''a'', mb_last = 1, mb_first = 0,
        mb_messages = [(''1'', \<lparr>mm_index = 1, mm_mailbox = ''a'', mm_id = ''1'', mm_from = None, mm_to = [],
          mm_date = 0, mm_subject = [], mm_source = x, mm_seen = False\<rparr>)]\<rparr>)], mcap = 1,
      enf = Some \<lparr>en_max = 1024, en_all = [((''a'', ''1''), int (length x))], en_cur = int (length x),
        en_els = [(''a'', ''1'')]\<rparr>, deleted = []\<rparr>"
    using assms(1,5) unfolding s0 by (clarsimp simp: go_eval)
  show ?thesis
    using assms(1-3,6) unfolding s1
    by (clarsimp simp: go_eval mem_abs_def msgs_of_def box_msgs_def)
qed

theorem capped_size_leak_witness:
  "fst (mem_AddMessage (snd (mem_AddMessage (the (mem_New 1 (Some ''1''))) (example_msg ''a'' (replicate 600 CHR ''x''))))
      (example_msg ''a'' (replicate 600 CHR ''y''))) = Ok ''2''"
proof -
  let ?x = "replicate 600 CHR ''x''" and ?y = "replicate 600 CHR ''y''"
  let ?s0 = "the (mem_New 1 (Some ''1''))"
  let ?s1 = "snd (mem_AddMessage ?s0 (example_msg ''a'' ?x))"
  have n: "mem_New 1 (Some ''1'') = Some ?s0" by (simp add: go_eval)
  obtain i where "fst (mem_AddMessage ?s0 (example_msg ''a'' ?x)) = Ok i"
    using mem_add_ok [OF mem_New_spec(1) [OF n], of "example_msg ''a'' ?x" ?x]
    by (auto simp: example_msg_def)
  then have a: "mem_AddMessage ?s0 (example_msg ''a'' ?x) = (Ok i, ?s1)" by (metis prod.collapse)
  show ?thesis
    using capped_size_leak [OF _ _ _ n a prod.collapse [symmetric], of ?y] by simp
qed

end
