(* ===== verification/Retention.thy ===== *)
theory Retention
  imports MemProps
begin

text \<open>
  \<open>pkg/storage/retention.go\<close>: the scanner that deletes messages older than the retention period.
  The store is the method table and its \<open>VisitMailboxes\<close>; times and durations are integers
  (nanoseconds). What \<open>ctx.Done()\<close> and the clock answer is an argument: \<open>stops\<close> are the outcomes
  of the \<open>select\<close> after each mailbox (\<open>True\<close> for a shutdown, and no shutdown once the list is
  used up), and \<open>round\<close> holds the answers of one round of \<open>Start\<close>.
\<close>

subsection \<open>One scan\<close>

record scan =
  retained :: nat
  storeSize :: int
  deletesTotal :: nat
  stops :: "bool list"

fun expire_loop :: "'st Store \<Rightarrow> int \<Rightarrow> message list \<Rightarrow> 'st \<Rightarrow> scan \<Rightarrow> 'st \<times> scan" where
  "expire_loop ds cutoff [] st sc = (st, sc)"
| "expire_loop ds cutoff (msg # messages) st sc =
     (if sDate msg < cutoff then
        (case RemoveMessage ds st (sMailbox msg) (sID msg) of
           (Some e, st) \<Rightarrow> expire_loop ds cutoff messages st sc
         | (None, st) \<Rightarrow> expire_loop ds cutoff messages st (sc\<lparr>deletesTotal := Suc (deletesTotal sc)\<rparr>))
      else expire_loop ds cutoff messages st
             (sc\<lparr>retained := Suc (retained sc), storeSize := storeSize sc + sSize msg\<rparr>))"

text \<open>The function that \<open>DoScan\<close> gives to \<open>VisitMailboxes\<close>.\<close>

definition scan_box :: "'st Store \<Rightarrow> int \<Rightarrow> message list \<Rightarrow> 'st \<Rightarrow> scan \<Rightarrow> bool \<times> 'st \<times> scan" where
  [go_eval]: "scan_box ds cutoff messages st sc =
     (let (st, sc) = expire_loop ds cutoff messages st sc in
      case stops sc of
        [] \<Rightarrow> (True, st, sc)
      | stop # rest \<Rightarrow> (\<not> stop, st, sc\<lparr>stops := rest\<rparr>))"

text \<open>The result is the error and the scan whose counters become the metrics when there is none.\<close>

definition DoScan :: "'st Store
    \<Rightarrow> ((message list \<Rightarrow> 'st \<Rightarrow> scan \<Rightarrow> bool \<times> 'st \<times> scan) \<Rightarrow> 'st \<Rightarrow> scan \<Rightarrow> store_error option \<times> 'st \<times> scan)
    \<Rightarrow> int \<Rightarrow> int \<Rightarrow> bool list \<Rightarrow> 'st \<Rightarrow> store_error option \<times> 'st \<times> scan" where
  [go_eval]: "DoScan ds visit now retentionPeriod sts st =
     (let cutoff = now + (-1) * retentionPeriod
      in visit (scan_box ds cutoff) st \<lparr>retained = 0, storeSize = 0, deletesTotal = 0, stops = sts\<rparr>)"

subsection \<open>The loop\<close>

definition time_Minute :: int where
  [go_eval]: "time_Minute = 60000000000"

text \<open>
  The answers of one round: the clock at \<open>time.Since\<close>, whether the context ends the sleep, the
  clock at the scan, the scan's own answers, and whether the context is done after it.
\<close>

record round =
  rd_check :: int
  rd_asleep :: bool
  rd_now :: int
  rd_stops :: "bool list"
  rd_after :: bool

text \<open>The loop of \<open>Start\<close>; it also returns the start times of the scans.\<close>

fun retention_loop :: "'st Store
    \<Rightarrow> ((message list \<Rightarrow> 'st \<Rightarrow> scan \<Rightarrow> bool \<times> 'st \<times> scan) \<Rightarrow> 'st \<Rightarrow> scan \<Rightarrow> store_error option \<times> 'st \<times> scan)
    \<Rightarrow> int \<Rightarrow> int \<Rightarrow> round list \<Rightarrow> 'st \<Rightarrow> 'st \<times> int list" where
  "retention_loop ds visit period start [] st = (st, [])"
| "retention_loop ds visit period start (r # rs) st =
     (if rd_check r - start < time_Minute \<and> rd_asleep r then (st, [])
      else (case DoScan ds visit (rd_now r) period (rd_stops r) st of
              (err, st, sc) \<Rightarrow>
                if rd_after r then (st, [rd_now r])
                else (case retention_loop ds visit period (rd_now r) rs st of
                        (st, scans) \<Rightarrow> (st, rd_now r # scans))))"

definition retention_Start :: "'st Store
    \<Rightarrow> ((message list \<Rightarrow> 'st \<Rightarrow> scan \<Rightarrow> bool \<times> 'st \<times> scan) \<Rightarrow> 'st \<Rightarrow> scan \<Rightarrow> store_error option \<times> 'st \<times> scan)
    \<Rightarrow> int \<Rightarrow> int \<Rightarrow> round list \<Rightarrow> 'st \<Rightarrow> 'st \<times> int list" where
  [go_eval]: "retention_Start ds visit period start rs st =
     (if period \<le> 0 then (st, []) else retention_loop ds visit period start rs st)"

subsection \<open>What a scan does\<close>

context message_store
begin

text \<open>The loop over the messages of one mailbox, a suffix \<open>ms\<close> of which is left to do.\<close>

lemma expire_loop_box:
  assumes "inv st" and "set ms \<subseteq> set (abs st mb)" and "distinct (map sID ms)"
    and "expire_loop ops cutoff ms st sc = (st', sc')"
  shows "inv st' \<and> abs st' = (abs st)(mb := filter (\<lambda>m. \<not> (sID m \<in> sID ` set ms \<and> sDate m < cutoff)) (abs st mb))
    \<and> retained sc' = retained sc + length (filter (\<lambda>m. cutoff \<le> sDate m) ms)
    \<and> storeSize sc' = storeSize sc + sum_list (map sSize (filter (\<lambda>m. cutoff \<le> sDate m) ms))
    \<and> deletesTotal sc' = deletesTotal sc + length (filter (\<lambda>m. sDate m < cutoff) ms)
    \<and> stops sc' = stops sc"
  using assms
proof (induction ms arbitrary: st sc)
  case Nil
  then show ?case by simp
next
  case (Cons m ms)
  have m: "m \<in> set (abs st mb)" and mb: "sMailbox m = mb"
    using Cons.prems(1,2) mailbox_of by auto
  have same: "x = m" if "x \<in> set (abs st mb)" "sID x = sID m" for x
    using ids_distinct [OF Cons.prems(1), of mb] m that by (auto simp: distinct_map inj_on_def)
  show ?case
  proof (cases "sDate m < cutoff")
    case True
    obtain e st1 where r: "RemoveMessage ops st mb (sID m) = (e, st1)" by fastforce
    have e: "e = None" using remove_result [OF Cons.prems(1) r] m by blast
    have abs1: "abs st1 = (abs st)(mb := filter (\<lambda>x. sID x \<noteq> sID m) (abs st mb))"
      by (rule remove_abs [OF Cons.prems(1) r])
    have sub: "set ms \<subseteq> set (abs st1 mb)" using Cons.prems(2,3) abs1 by (auto simp: image_iff)
    have ex: "expire_loop ops cutoff ms st1 (sc\<lparr>deletesTotal := Suc (deletesTotal sc)\<rparr>) = (st', sc')"
      using Cons.prems(4) r e True mb by simp
    have "distinct (map sID ms)" using Cons.prems(3) by simp
    note IH = Cons.IH [OF inv_remove [OF Cons.prems(1) r] sub this ex]
    have "filter (\<lambda>x. \<not> (sID x \<in> sID ` set ms \<and> sDate x < cutoff)) (abs st1 mb)
        = filter (\<lambda>x. \<not> (sID x \<in> sID ` set (m # ms) \<and> sDate x < cutoff)) (abs st mb)"
      unfolding abs1 using same True by (auto intro!: filter_cong)
    with IH abs1 True show ?thesis by auto
  next
    case False
    have "filter (\<lambda>x. \<not> (sID x \<in> sID ` set ms \<and> sDate x < cutoff)) (abs st mb)
        = filter (\<lambda>x. \<not> (sID x \<in> sID ` set (m # ms) \<and> sDate x < cutoff)) (abs st mb)"
      using same False by (auto intro!: filter_cong)
    with Cons.IH [OF Cons.prems(1), of "sc\<lparr>retained := Suc (retained sc), storeSize := storeSize sc + sSize m\<rparr>"]
      Cons.prems(2-4) False show ?thesis by auto
  qed
qed

text \<open>The whole mailbox.\<close>

lemma expire_box:
  assumes "inv st" and "expire_loop ops cutoff (abs st mb) st sc = (st', sc')"
  shows "inv st'" and "abs st' = (abs st)(mb := filter (\<lambda>m. cutoff \<le> sDate m) (abs st mb))"
    and "retained sc' = retained sc + length (filter (\<lambda>m. cutoff \<le> sDate m) (abs st mb))"
    and "deletesTotal sc' = deletesTotal sc + length (filter (\<lambda>m. sDate m < cutoff) (abs st mb))"
    and "storeSize sc' = storeSize sc + sum_list (map sSize (filter (\<lambda>m. cutoff \<le> sDate m) (abs st mb)))"
    and "stops sc' = stops sc"
proof -
  note b = expire_loop_box [OF assms(1) subset_refl ids_distinct [OF assms(1)] assms(2)]
  have "filter (\<lambda>m. \<not> (sID m \<in> sID ` set (abs st mb) \<and> sDate m < cutoff)) (abs st mb)
      = filter (\<lambda>m. cutoff \<le> sDate m) (abs st mb)"
    by (auto intro!: filter_cong)
  with b show "inv st'" "abs st' = (abs st)(mb := filter (\<lambda>m. cutoff \<le> sDate m) (abs st mb))"
    "retained sc' = retained sc + length (filter (\<lambda>m. cutoff \<le> sDate m) (abs st mb))"
    "deletesTotal sc' = deletesTotal sc + length (filter (\<lambda>m. sDate m < cutoff) (abs st mb))"
    "storeSize sc' = storeSize sc + sum_list (map sSize (filter (\<lambda>m. cutoff \<le> sDate m) (abs st mb)))"
    "stops sc' = stops sc" by auto
qed

end

text \<open>A store whose mailboxes the scanner visits.\<close>

locale scanned_store = visited_store ops abs inv visit known
  for ops :: "'st Store" and abs :: "'st \<Rightarrow> string \<Rightarrow> message list" and inv :: "'st \<Rightarrow> bool"
    and visit :: "(message list \<Rightarrow> 'st \<Rightarrow> scan \<Rightarrow> bool \<times> 'st \<times> scan) \<Rightarrow> 'st \<Rightarrow> scan \<Rightarrow> store_error option \<times> 'st \<times> scan"
    and known :: "'st \<Rightarrow> string set"
begin

lemma scan_box_confined: "confined abs inv (scan_box ops cutoff)"
proof (rule confinedI)
  fix st mb a cont st' a'
  assume i: "inv st" and s: "scan_box ops cutoff (abs st mb) st a = (cont, st', a')"
  obtain st1 sc1 where e: "expire_loop ops cutoff (abs st mb) st a = (st1, sc1)" by fastforce
  have "st' = st1" using s e by (auto simp: scan_box_def split: list.splits)
  with expire_box(1,2) [OF i e] show "inv st' \<and> (\<forall>m. m \<noteq> mb \<longrightarrow> abs st' m = abs st m)" by simp
qed

lemma visit_scan:
  assumes "inv st" and "distinct mbs" and "stops sc = []"
    and "visit_each ops (scan_box ops cutoff) mbs st sc = (cont, st', sc')"
  shows "inv st'
    \<and> (\<forall>n. abs st' n = (if n \<in> set mbs then filter (\<lambda>m. cutoff \<le> sDate m) (abs st n) else abs st n))
    \<and> retained sc' = retained sc + (\<Sum>n\<in>set mbs. length (filter (\<lambda>m. cutoff \<le> sDate m) (abs st n)))
    \<and> deletesTotal sc' = deletesTotal sc + (\<Sum>n\<in>set mbs. length (filter (\<lambda>m. sDate m < cutoff) (abs st n)))"
  using assms
proof (induction mbs arbitrary: st sc)
  case Nil
  then show ?case by simp
next
  case (Cons n mbs)
  obtain r s1 where g: "GetMessages ops st n = (r, s1)" by fastforce
  note get = get_messages [OF Cons.prems(1) g] inv_get [OF Cons.prems(1) g]
  obtain s2 sc2 where e: "expire_loop ops cutoff (abs s1 n) s1 sc = (s2, sc2)" by fastforce
  note ex = expire_box [OF get(2) e]
  have v: "visit_each ops (scan_box ops cutoff) mbs s2 sc2 = (cont, st', sc')"
  proof -
    have "scan_box ops cutoff (abs st n) s1 sc = (True, s2, sc2)"
      using Cons.prems(3) get(1) e ex(6) by (simp add: scan_box_def)
    then show ?thesis using Cons.prems(4) g get(1) by simp
  qed
  have "distinct mbs" "stops sc2 = []" using Cons.prems(2,3) ex(6) by simp_all
  note IH = Cons.IH [OF ex(1) this v]
  have abs2: "abs s2 k = (if k = n then filter (\<lambda>m. cutoff \<le> sDate m) (abs st n) else abs st k)" for k
    using ex(2) get(1) by simp
  have same: "(\<Sum>k\<in>set mbs. length (filter P (abs s2 k))) = (\<Sum>k\<in>set mbs. length (filter P (abs st k)))" for P
    using abs2 Cons.prems(2) by (intro sum.cong) auto
  have "abs st' k = (if k \<in> set (n # mbs) then filter (\<lambda>m. cutoff \<le> sDate m) (abs st k) else abs st k)" for k
    using IH abs2 [of k] Cons.prems(2) by (cases "k = n") simp_all
  moreover have "retained sc2 = retained sc + length (filter (\<lambda>m. cutoff \<le> sDate m) (abs st n))"
    "deletesTotal sc2 = deletesTotal sc + length (filter (\<lambda>m. sDate m < cutoff) (abs st n))"
    using ex(3,4) get(1) by simp_all
  ultimately show ?case using IH Cons.prems(2) unfolding same by simp
qed

text \<open>The whole scan, without a shutdown; the sums are over the mailboxes with mail.\<close>

lemma DoScan_spec:
  assumes "inv st" and "DoScan ops visit now period [] st = (err, st', sc)"
  shows "err = None" and "inv st'" and "abs st' n = filter (\<lambda>m. now - period \<le> sDate m) (abs st n)"
    and "deletesTotal sc = (\<Sum>n | abs st n \<noteq> []. length (filter (\<lambda>m. sDate m < now - period) (abs st n)))"
    and "retained sc = (\<Sum>n | abs st n \<noteq> []. length (abs st' n))"
proof -
  have mail: "{mb. abs st mb \<noteq> []} \<subseteq> known st" using mail_known [OF assms(1)] by blast
  let ?f = "scan_box ops (now - period)" and ?sc = "\<lparr>retained = 0, storeSize = 0, deletesTotal = 0, stops = []\<rparr>"
  obtain mbs where mbs: "distinct mbs" "set mbs = known st"
    "visit ?f st ?sc = (case visit_each ops ?f mbs st ?sc of (cont, st, a) \<Rightarrow> (None, st, a))"
    using visit_spec [OF assms(1) scan_box_confined] by blast
  obtain cont st1 sc1 where v: "visit_each ops ?f mbs st ?sc = (cont, st1, sc1)" by (metis prod_cases3)
  with assms(2) mbs(3) show err: "err = None" and i: "inv st'"
    using visit_scan [OF assms(1) mbs(1) _ v] by (simp_all add: DoScan_def)
  have e: "st1 = st'" "sc1 = sc" using assms(2) mbs(3) v by (simp_all add: DoScan_def)
  note sc = visit_scan [OF assms(1) mbs(1) _ v, unfolded e]
  show abs: "abs st' n = filter (\<lambda>m. now - period \<le> sDate m) (abs st n)" for n
  proof (cases "n \<in> set mbs")
    case False
    then have "abs st n = []" using mbs(2) mail by blast
    with False sc show ?thesis by simp
  qed (use sc in simp)
  have sums: "(\<Sum>n\<in>set mbs. length (filter P (abs st n))) = (\<Sum>n | abs st n \<noteq> []. length (filter P (abs st n)))" for P
    using mbs(2) [symmetric] mail by (intro sum.mono_neutral_right) auto
  show "deletesTotal sc = (\<Sum>n | abs st n \<noteq> []. length (filter (\<lambda>m. sDate m < now - period) (abs st n)))"
    using sc sums by simp
  show "retained sc = (\<Sum>n | abs st n \<noteq> []. length (abs st' n))" using sc sums by (simp add: abs)
qed

end

subsection \<open>Clients and scans\<close>

text \<open>What happens to a store: the operations of clients and whole scans, in any order.\<close>

datatype task = TOp client_op | TScan int int

fun exec_task :: "'st Store
    \<Rightarrow> ((message list \<Rightarrow> 'st \<Rightarrow> scan \<Rightarrow> bool \<times> 'st \<times> scan) \<Rightarrow> 'st \<Rightarrow> scan \<Rightarrow> store_error option \<times> 'st \<times> scan)
    \<Rightarrow> task \<Rightarrow> 'st \<Rightarrow> 'st" where
  "exec_task ds visit (TOp c) st = exec_op ds c st"
| "exec_task ds visit (TScan now period) st = fst (snd (DoScan ds visit now period [] st))"

fun spec_task :: "int \<Rightarrow> task \<Rightarrow> (string \<Rightarrow> message list) \<Rightarrow> (string \<Rightarrow> message list)" where
  "spec_task cap (TOp c) L = spec_op cap c L"
| "spec_task cap (TScan now period) L = (\<lambda>mb. filter (\<lambda>m. now - period \<le> sDate m) (L mb))"

fun task_ok :: "task \<Rightarrow> bool" where
  "task_ok (TOp c) \<longleftrightarrow> op_ok c"
| "task_ok (TScan now period) \<longleftrightarrow> True"

locale kept_store = capped_store ops abs inv cap + scanned_store ops abs inv visit known
  for ops :: "'st Store" and abs :: "'st \<Rightarrow> string \<Rightarrow> message list" and inv :: "'st \<Rightarrow> bool" and cap :: int
    and visit :: "(message list \<Rightarrow> 'st \<Rightarrow> scan \<Rightarrow> bool \<times> 'st \<times> scan) \<Rightarrow> 'st \<Rightarrow> scan \<Rightarrow> store_error option \<times> 'st \<times> scan"
    and known :: "'st \<Rightarrow> string set"
begin

lemma exec_task_refines:
  assumes i: "inv st" and "task_ok t"
  shows "inv (exec_task ops visit t st) \<and> view (exec_task ops visit t st) = spec_task cap t (view st)"
proof (cases t)
  case (TOp c)
  with exec_op_refines [OF i] assms(2) show ?thesis by simp
next
  case (TScan now period)
  obtain err st' sc where s: "DoScan ops visit now period [] st = (err, st', sc)" by (metis prod_cases3)
  have "view st' mb = filter (\<lambda>m. now - period \<le> sDate m) (view st mb)" for mb
    by (simp add: view_def DoScan_spec(3) [OF i s] filter_map comp_def blank_def)
  with TScan s DoScan_spec(2) [OF i s] show ?thesis by (simp add: fun_eq_iff)
qed

lemma exec_tasks_refine:
  "inv st \<Longrightarrow> \<forall>t\<in>set ts. task_ok t \<Longrightarrow>
    inv (fold (exec_task ops visit) ts st) \<and> view (fold (exec_task ops visit) ts st) = fold (spec_task cap) ts (view st)"
  by (induction ts arbitrary: st) (auto simp: exec_task_refines)

end

lemma visit_loop_each:
  "visit_loop f names s a = (case visit_each mem_ops f names s a of (cont, s, a) \<Rightarrow> (s, a))"
  by (induction names arbitrary: s a) (auto simp: mem_ops_def split: prod.split)

lemma mem_abs_named: "mem_abs s n \<noteq> [] \<Longrightarrow> n \<in> set (map fst (boxes s))"
proof (rule ccontr)
  assume n: "mem_abs s n \<noteq> []" "n \<notin> set (map fst (boxes s))"
  then have "map_of (boxes s) n = None" by (simp add: map_of_eq_None_iff)
  with n(1) show False by (simp add: mem_abs_def msgs_of_def box_msgs_def get_box_def)
qed

definition mem_known :: "mem_store \<Rightarrow> string set" where
  "mem_known s = fst ` set (boxes s)"

lemma mem_visit_spec:
  assumes "mem_ok st"
  shows "\<exists>mbs. distinct mbs \<and> set mbs = mem_known st
      \<and> mem_VisitMailboxes f st a = (case visit_each mem_ops f mbs st a of (cont, st, a) \<Rightarrow> (None, st, a))"
proof -
  have "distinct (map fst (boxes st))" using assms by (simp add: mem_ok_def boxes_ok_def)
  moreover have "mem_VisitMailboxes f st a = (case visit_each mem_ops f (map fst (boxes st)) st a of (cont, st, a) \<Rightarrow> (None, st, a))"
    by (simp add: mem_VisitMailboxes_def visit_loop_each split: prod.split)
  ultimately show ?thesis unfolding mem_known_def by (metis set_map)
qed

interpretation mem_scanned: scanned_store mem_ops mem_abs mem_ok mem_VisitMailboxes mem_known
  by unfold_locales (use mem_abs_named in \<open>simp add: mem_known_def\<close>, rule mem_visit_spec)

interpretation mem_visited: visited_store mem_ops mem_abs "mem_capped c" mem_VisitMailboxes mem_known for c
  by unfold_locales (use mem_abs_named in \<open>simp add: mem_known_def\<close>, rule mem_visit_spec, simp add: mem_capped_def)

interpretation mem_kept: kept_store mem_ops mem_abs "mem_capped c" c mem_VisitMailboxes mem_known for c
  by unfold_locales

text \<open>
  A scan of the memory store that no shutdown interrupts deletes exactly the messages dated
  before the cutoff and keeps the others, in every mailbox, and counts both.
\<close>
theorem DoScan_deletes_expired:
  assumes "mem_New cap mk = Some s0" and "mem_run s0 s"
    and "DoScan mem_ops mem_VisitMailboxes now period [] s = (err, s', sc)"
  shows "err = None \<and> (\<forall>n. mem_abs s' n = filter (\<lambda>m. now - period \<le> sDate m) (mem_abs s n))
    \<and> deletesTotal sc = (\<Sum>n | mem_abs s n \<noteq> []. length (filter (\<lambda>m. sDate m < now - period) (mem_abs s n)))
    \<and> retained sc = (\<Sum>n | mem_abs s n \<noteq> []. length (mem_abs s' n))"
proof -
  have "mem_ok s" using mem_run_spec [OF assms(2)] mem_New_spec(1) [OF assms(1)] by simp
  from mem_scanned.DoScan_spec [OF this assms(3)] show ?thesis by blast
qed

theorem DoScan_deletes_expired_witness:
  "\<exists>err s' sc. DoScan mem_ops mem_VisitMailboxes 100 10 [] example_two = (err, s', sc)
    \<and> err = None \<and> mem_abs s' ''a'' = []"
proof -
  obtain err s' sc where d: "DoScan mem_ops mem_VisitMailboxes 100 10 [] example_two = (err, s', sc)"
    by (metis prod_cases3)
  have "filter (\<lambda>m. 90 \<le> sDate m) (mem_abs example_two ''a'') = []"
    by (simp add: go_eval mem_abs_def msgs_of_def box_msgs_def)
  with DoScan_deletes_expired [OF example_New example_run d] d show ?thesis by auto
qed

subsection \<open>The pace of the loop\<close>

text \<open>
  \<open>time.After(d)\<close> does not fire before \<open>d\<close> has passed: a scan does not start before the end of
  the sleep, which lasts what is left of a minute since the last start.
\<close>

fun timer_ok :: "int \<Rightarrow> round list \<Rightarrow> bool" where
  "timer_ok start [] = True"
| "timer_ok start (r # rs) \<longleftrightarrow>
     rd_check r + (if rd_check r - start < time_Minute then time_Minute - (rd_check r - start) else 0) \<le> rd_now r
     \<and> timer_ok (rd_now r) rs"

fun paced :: "int \<Rightarrow> int list \<Rightarrow> bool" where
  "paced start [] = True"
| "paced start (t # ts) \<longleftrightarrow> start + time_Minute \<le> t \<and> paced t ts"

text \<open>
  The scanner starts no scan within a minute of its start or of the start of the previous
  scan, and none at all when the retention period is not positive.
\<close>
theorem retention_pace:
  assumes "timer_ok start rs"
  shows "paced start (snd (retention_Start ds visit period start rs st))
    \<and> (period \<le> 0 \<longrightarrow> retention_Start ds visit period start rs st = (st, []))"
proof -
  have "timer_ok start rs \<Longrightarrow> paced start (snd (retention_loop ds visit period start rs st))" for start st
  proof (induction rs arbitrary: start st)
    case (Cons r rs)
    have "start + time_Minute \<le> rd_now r" using Cons.prems by (auto split: if_splits)
    moreover have "paced (rd_now r) (snd (retention_loop ds visit period (rd_now r) rs st))" for st
      using Cons by simp
    ultimately show ?case by (simp add: case_prod_beta)
  qed simp
  with assms show ?thesis by (simp add: retention_Start_def)
qed

theorem retention_pace_witness:
  "paced 0 (snd (retention_Start mem_ops mem_VisitMailboxes 5 0
     [\<lparr>rd_check = 1, rd_asleep = False, rd_now = time_Minute, rd_stops = [], rd_after = True\<rparr>] example_two))"
  using retention_pace [of 0 "[\<lparr>rd_check = 1, rd_asleep = False, rd_now = time_Minute, rd_stops = [], rd_after = True\<rparr>]"]
  by (simp add: go_eval)

end
