(* ===== verification/MsgHub.thy ===== *)
theory MsgHub
  imports Storage
begin

text \<open>
  \<open>pkg/msghub/hub.go\<close>: the hub that keeps a history of the last messages and relays stored and
  deleted messages to its listeners. The hub is an actor: every method queues an operation, and
  one goroutine runs them in order, so a history of the hub is a list of operations.

  The ring is the list of its cells, from the one to write next (the oldest) on; \<open>None\<close> for a nil
  value. \<open>ring.New\<close> of a non-positive length is the nil ring. A listener is an interface; what it
  answers may depend on everything it has been told: \<open>fails l es\<close> says whether it returns an
  error for the last of the events \<open>es\<close>. \<open>heard\<close> logs the calls, oldest first.
\<close>

datatype hub_event = Received MessageMetadata | Deleted string string

record 'l Hub =
  history :: "MessageMetadata option list option"
  listeners :: "'l list"
  heard :: "('l \<times> hub_event) list"

definition hub_New :: "int \<Rightarrow> 'l Hub" where
  [go_eval]: "hub_New historyLen =
     \<lparr>history = (if historyLen \<le> 0 then None else Some (replicate (nat historyLen) None)),
      listeners = [], heard = []\<rparr>"

subsection \<open>Operations\<close>

definition heard_by :: "('l \<times> hub_event) list \<Rightarrow> 'l \<Rightarrow> hub_event list" where
  [go_eval]: "heard_by log l = map snd (filter (\<lambda>e. fst e = l) log)"

text \<open>One call of a listener: the error flag and the log with the call.\<close>

definition call :: "('l \<Rightarrow> hub_event list \<Rightarrow> bool) \<Rightarrow> 'l \<Rightarrow> hub_event \<Rightarrow> ('l \<times> hub_event) list
    \<Rightarrow> bool \<times> ('l \<times> hub_event) list" where
  [go_eval]: "call fails l ev log = (let log = log @ [(l, ev)] in (fails l (heard_by log l), log))"

text \<open>The loops over \<open>h.listeners\<close>: an erring listener is deleted from the set.\<close>

fun relay :: "('l \<Rightarrow> hub_event list \<Rightarrow> bool) \<Rightarrow> hub_event \<Rightarrow> 'l list \<Rightarrow> ('l \<times> hub_event) list
    \<Rightarrow> 'l list \<times> ('l \<times> hub_event) list" where
  "relay fails ev [] log = ([], log)"
| "relay fails ev (l # ls) log =
     (let (err, log) = call fails l ev log; (ls', log) = relay fails ev ls log
      in (if err then ls' else l # ls', log))"

definition Dispatch :: "('l \<Rightarrow> hub_event list \<Rightarrow> bool) \<Rightarrow> MessageMetadata \<Rightarrow> 'l Hub \<Rightarrow> 'l Hub" where
  [go_eval]: "Dispatch fails msg h =
     (case history h of
        None \<Rightarrow> h
      | Some r \<Rightarrow>
          (let (ls, log) = relay fails (Received msg) (listeners h) (heard h)
           in h\<lparr>history := Some (rotate1 (Some msg # tl r)), listeners := ls, heard := log\<rparr>))"

text \<open>
  The search of \<open>Delete\<close> looks at \<open>p.Next()\<close> first: the cells after the first one, in order, then
  the first; it clears the first entry that matches.
\<close>

fun clear_first :: "string \<Rightarrow> string \<Rightarrow> MessageMetadata option list \<Rightarrow> MessageMetadata option list" where
  "clear_first mailbox i [] = []"
| "clear_first mailbox i (None # r) = None # clear_first mailbox i r"
| "clear_first mailbox i (Some m # r) =
     (if mailbox = mdMailbox m \<and> i = mdID m then None # r else Some m # clear_first mailbox i r)"

definition Delete :: "('l \<Rightarrow> hub_event list \<Rightarrow> bool) \<Rightarrow> string \<Rightarrow> string \<Rightarrow> 'l Hub \<Rightarrow> 'l Hub" where
  [go_eval]: "Delete fails mailbox i h =
     (case history h of
        None \<Rightarrow> h
      | Some r \<Rightarrow>
          (let r' = clear_first mailbox i (rotate1 r);
               (ls, log) = relay fails (Deleted mailbox i) (listeners h) (heard h)
           in h\<lparr>history := Some (last r' # butlast r'), listeners := ls, heard := log\<rparr>))"

text \<open>Playback ignores the listener's errors.\<close>

fun playback :: "('l \<Rightarrow> hub_event list \<Rightarrow> bool) \<Rightarrow> 'l \<Rightarrow> MessageMetadata option list
    \<Rightarrow> ('l \<times> hub_event) list \<Rightarrow> ('l \<times> hub_event) list" where
  "playback fails l [] log = log"
| "playback fails l (None # r) log = playback fails l r log"
| "playback fails l (Some m # r) log = playback fails l r (snd (call fails l (Received m) log))"

definition hub_AddListener :: "('l \<Rightarrow> hub_event list \<Rightarrow> bool) \<Rightarrow> 'l \<Rightarrow> 'l Hub \<Rightarrow> 'l Hub" where
  [go_eval]: "hub_AddListener fails l h =
     (let log = (case history h of None \<Rightarrow> heard h | Some r \<Rightarrow> playback fails l r (heard h))
      in h\<lparr>listeners := (if l \<in> set (listeners h) then listeners h else listeners h @ [l]), heard := log\<rparr>)"

definition hub_RemoveListener :: "'l \<Rightarrow> 'l Hub \<Rightarrow> 'l Hub" where
  [go_eval]: "hub_RemoveListener l h = h\<lparr>listeners := filter (\<lambda>x. x \<noteq> l) (listeners h)\<rparr>"

datatype 'l hub_op =
    OpDispatch MessageMetadata
  | OpDelete string string
  | OpAdd 'l
  | OpRemove 'l
  | OpSync

text \<open>\<open>runOp\<close>: the operation a method has queued.\<close>

fun runOp :: "('l \<Rightarrow> hub_event list \<Rightarrow> bool) \<Rightarrow> 'l hub_op \<Rightarrow> 'l Hub \<Rightarrow> 'l Hub" where
  "runOp fails (OpDispatch m) h = Dispatch fails m h"
| "runOp fails (OpDelete mailbox i) h = Delete fails mailbox i h"
| "runOp fails (OpAdd l) h = hub_AddListener fails l h"
| "runOp fails (OpRemove l) h = hub_RemoveListener l h"
| "runOp fails OpSync h = h"

text \<open>\<open>Start\<close>: the operations of the queue in their order.\<close>

definition Start :: "('l \<Rightarrow> hub_event list \<Rightarrow> bool) \<Rightarrow> 'l hub_op list \<Rightarrow> 'l Hub \<Rightarrow> 'l Hub" where
  [go_eval]: "Start fails ops h = fold (runOp fails) ops h"

subsection \<open>The history\<close>

text \<open>
  The specification: every dispatched message with whether it still stands, i.e. no later
  operation deletes it. The history holds those of the last \<open>n\<close> that do.
\<close>

fun standing :: "'l hub_op list \<Rightarrow> (MessageMetadata \<times> bool) list" where
  "standing [] = []"
| "standing (OpDispatch m # ops) = (m, OpDelete (mdMailbox m) (mdID m) \<notin> set ops) # standing ops"
| "standing (op # ops) = standing ops"

definition last_n :: "nat \<Rightarrow> 'a list \<Rightarrow> 'a list" where
  [go_eval]: "last_n n xs = drop (length xs - n) xs"

definition cell :: "MessageMetadata \<times> bool \<Rightarrow> MessageMetadata option" where
  "cell e = (if snd e then Some (fst e) else None)"

definition mkey :: "MessageMetadata \<Rightarrow> string \<times> string" where
  [go_eval]: "mkey m = (mdMailbox m, mdID m)"

fun played :: "MessageMetadata option list \<Rightarrow> MessageMetadata list" where
  "played [] = []"
| "played (None # r) = played r"
| "played (Some m # r) = m # played r"

lemma played_append [simp]: "played (xs @ ys) = played xs @ played ys"
  by (induction xs rule: played.induct) auto

lemma played_none [simp]: "played (replicate n None) = []"
  by (induction n) auto

lemma played_cells: "played (map cell es) = map fst (filter snd es)"
  by (induction es) (auto simp: cell_def)

lemma standing_dispatch: "standing (ops @ [OpDispatch m]) = standing ops @ [(m, True)]"
  by (induction ops rule: standing.induct) auto

lemma standing_delete:
  "standing (ops @ [OpDelete mb i]) = map (\<lambda>(m, b). (m, b \<and> mkey m \<noteq> (mb, i))) (standing ops)"
  by (induction ops rule: standing.induct) (auto simp: mkey_def)

lemma standing_other:
  "standing (ops @ [OpAdd l]) = standing ops" "standing (ops @ [OpRemove l]) = standing ops"
  "standing (ops @ [OpSync]) = standing ops"
  by (induction ops rule: standing.induct) auto

lemma clear_first_map:
  assumes "distinct (map mkey (played r))"
  shows "clear_first mb i r = map (\<lambda>c. case c of Some m \<Rightarrow> if mkey m = (mb, i) then None else c | None \<Rightarrow> c) r"
  using assms
proof (induction mb i r rule: clear_first.induct)
  case (3 mb i m r)
  have "map (\<lambda>c. case c of Some m \<Rightarrow> if mkey m = (mb, i) then None else c | None \<Rightarrow> c) r = r"
    if "(mb, i) \<notin> mkey ` set (played r)" for r
    using that by (induction r rule: played.induct) auto
  with 3 show ?case by (auto simp: mkey_def)
qed auto

lemma rotate1_back: "xs \<noteq> [] \<Longrightarrow> last (rotate1 xs) # butlast (rotate1 xs) = xs"
  by (cases xs) auto

lemma last_n_snoc: "0 < n \<Longrightarrow> n \<le> length xs \<Longrightarrow> last_n n (xs @ [x]) = tl (last_n n xs) @ [x]"
  by (simp add: last_n_def tl_drop Suc_diff_le drop_Suc)

lemma last_n_map: "last_n n (map f xs) = map f (last_n n xs)"
  by (simp add: last_n_def drop_map)

lemma length_last_n: "n \<le> length xs \<Longrightarrow> length (last_n n xs) = n"
  by (simp add: last_n_def)

lemma Start_snoc: "Start fails (ops @ [op]) h = runOp fails op (Start fails ops h)"
  by (simp add: Start_def)

lemma played_last_n:
  "played (last_n n (replicate n None @ map cell es)) = map fst (filter snd (last_n n es))"
  by (simp add: last_n_def drop_map played_cells)

lemma played_rotate1: "distinct (map mkey (played (rotate1 r))) = distinct (map mkey (played r))"
proof (cases r)
  case (Cons c cs)
  have "played (c # cs) = played [c] @ played cs" by (cases c) auto
  moreover have "played (cs @ [c]) = played cs @ played [c]" by simp
  ultimately show ?thesis using Cons by auto
qed simp

lemma played_drop_distinct:
  "distinct (map f (played xs)) \<Longrightarrow> distinct (map f (played (last_n n xs)))"
proof -
  assume d: "distinct (map f (played xs))"
  have "played xs = played (take (length xs - n) xs) @ played (last_n n xs)"
    by (metis append_take_drop_id last_n_def played_append)
  with d show ?thesis by simp
qed

lemma hub_ring:
  assumes "0 < n" and "distinct (map (mkey \<circ> fst) (standing ops))"
  shows "history (Start fails ops (hub_New (int n)))
           = Some (last_n n (replicate n None @ map cell (standing ops)))"
  using assms(2)
proof (induction ops rule: rev_induct)
  case Nil
  then show ?case using assms(1) by (simp add: Start_def hub_New_def last_n_def)
next
  case (snoc op ops)
  let ?es = "standing ops" and ?h = "Start fails ops (hub_New (int n))"
  let ?xs = "replicate n None @ map cell ?es"
  show ?case
  proof (cases op)
    case (OpDispatch m)
    have "history ?h = Some (last_n n ?xs)"
      using snoc by (simp add: OpDispatch standing_dispatch)
    moreover have "map cell [(m, True)] = [Some m]" by (simp add: cell_def)
    ultimately show ?thesis
      using last_n_snoc [OF assms(1), of ?xs "Some m"]
      by (simp add: Start_snoc OpDispatch standing_dispatch Dispatch_def case_prod_beta Let_def)
  next
    case (OpDelete mb i)
    let ?g = "\<lambda>c. case c of Some m \<Rightarrow> if mkey m = (mb, i) then None else c | None \<Rightarrow> c"
    let ?r = "last_n n ?xs"
    have d: "distinct (map (mkey \<circ> fst) ?es)"
      using snoc.prems by (simp add: OpDelete standing_delete comp_def case_prod_beta)
    then have h: "history ?h = Some ?r" by (rule snoc.IH)
    have "distinct (map mkey (played ?xs))"
      using d by (simp add: played_cells comp_def distinct_map_filter)
    then have "distinct (map mkey (played (rotate1 ?r)))"
      by (simp only: played_rotate1 played_drop_distinct)
    from clear_first_map [OF this, of mb i]
    have c: "clear_first mb i (rotate1 ?r) = rotate1 (map ?g ?r)" by (simp only: rotate1_map)
    have "?g (cell e) = cell (fst e, snd e \<and> mkey (fst e) \<noteq> (mb, i))" for e by (simp add: cell_def)
    then have "map ?g (map cell ?es) = map cell (standing (ops @ [OpDelete mb i]))"
      by (simp add: standing_delete case_prod_beta)
    then have g: "map ?g ?r = last_n n (replicate n None @ map cell (standing (ops @ [OpDelete mb i])))"
      by (simp add: last_n_map [symmetric])
    have "map ?g ?r \<noteq> []"
      using length_last_n [of n ?xs] assms(1) by auto
    with rotate1_back [OF this] c g h show ?thesis
      by (simp add: Start_snoc OpDelete Delete_def case_prod_beta Let_def)
  next
    case (OpAdd l)
    with snoc show ?thesis
      by (simp add: Start_snoc standing_other hub_AddListener_def Let_def)
  next
    case (OpRemove l)
    with snoc show ?thesis
      by (simp add: Start_snoc standing_other hub_RemoveListener_def)
  next
    case OpSync
    with snoc show ?thesis by (simp add: Start_snoc standing_other)
  qed
qed

subsection \<open>The listeners\<close>

lemma heard_by_append: "heard_by (log @ [(k, ev)]) l = heard_by log l @ (if k = l then [ev] else [])"
  by (simp add: heard_by_def)

lemma relay_heard:
  "distinct ls \<Longrightarrow> heard_by (snd (relay fails ev ls log)) l = heard_by log l @ (if l \<in> set ls then [ev] else [])"
proof (induction ls arbitrary: log)
  case (Cons k ls)
  then show ?case by (auto simp: call_def case_prod_beta Let_def heard_by_append)
qed simp

lemma relay_set:
  "set (fst (relay fails ev ls log)) \<subseteq> set ls"
  "\<forall>es. \<not> fails l es \<Longrightarrow> l \<in> set ls \<Longrightarrow> l \<in> set (fst (relay fails ev ls log))"
  "distinct ls \<Longrightarrow> distinct (fst (relay fails ev ls log))"
proof -
  show sub: "set (fst (relay fails ev ls log)) \<subseteq> set ls" for ls log
  proof (induction ls arbitrary: log)
    case (Cons k ls)
    then show ?case using Cons.IH [of "snd (call fails k ev log)"] by (auto simp: case_prod_beta Let_def)
  qed simp
  show "\<forall>es. \<not> fails l es \<Longrightarrow> l \<in> set ls \<Longrightarrow> l \<in> set (fst (relay fails ev ls log))"
    by (induction ls arbitrary: log) (auto simp: case_prod_beta Let_def call_def)
  show "distinct ls \<Longrightarrow> distinct (fst (relay fails ev ls log))"
  proof (induction ls arbitrary: log)
    case (Cons k ls)
    then show ?case using sub [of ls "snd (call fails k ev log)"] by (auto simp: case_prod_beta Let_def)
  qed simp
qed

lemma playback_heard:
  "heard_by (playback fails k r log) l = heard_by log l @ (if k = l then map Received (played r) else [])"
  by (induction fails k r log rule: playback.induct) (auto simp: call_def Let_def heard_by_append)

text \<open>What an operation tells the registered listeners.\<close>

fun told :: "'l hub_op list \<Rightarrow> hub_event list" where
  "told [] = []"
| "told (OpDispatch m # ops) = Received m # told ops"
| "told (OpDelete mb i # ops) = Deleted mb i # told ops"
| "told (op # ops) = told ops"

definition hub_wf :: "'l Hub \<Rightarrow> bool" where
  "hub_wf h \<longleftrightarrow> distinct (listeners h) \<and> history h \<noteq> None"

lemma runOp_wf: "hub_wf h \<Longrightarrow> hub_wf (runOp fails op h)"
  by (cases op) (auto simp: hub_wf_def Dispatch_def Delete_def hub_AddListener_def hub_RemoveListener_def
      case_prod_beta Let_def relay_set split: option.split)

lemma Start_wf: "hub_wf h \<Longrightarrow> hub_wf (Start fails ops h)"
  by (induction ops rule: rev_induct) (simp_all add: Start_def runOp_wf)

lemma Start_registered:
  assumes "hub_wf h" and "l \<in> set (listeners h)" and "\<forall>es. \<not> fails l es"
    and "OpAdd l \<notin> set ops" and "OpRemove l \<notin> set ops"
  shows "heard_by (heard (Start fails ops h)) l = heard_by (heard h) l @ told ops"
  using assms(1,2,4,5)
proof (induction ops arbitrary: h)
  case Nil
  then show ?case by (simp add: Start_def)
next
  case (Cons op ops)
  let ?h = "runOp fails op h"
  have d: "distinct (listeners h)" and hist: "history h \<noteq> None" using Cons.prems(1) by (simp_all add: hub_wf_def)
  have one: "heard_by (heard ?h) l = heard_by (heard h) l @ told [op] \<and> l \<in> set (listeners ?h)"
    using Cons.prems(2-4) hist relay_set(2) [where fails = fails and l = l, OF assms(3)]
    by (cases op) (auto simp: relay_heard [OF d] playback_heard Dispatch_def Delete_def hub_AddListener_def hub_RemoveListener_def
        case_prod_beta Let_def split: option.split)
  have "told [op] @ told ops = told (op # ops)" by (cases op) auto
  with one Cons.IH [of ?h] runOp_wf [OF Cons.prems(1)] Cons.prems(3,4) show ?case
    by (simp add: Start_def)
qed

lemma Start_unheard:
  assumes "hub_wf h" and "l \<notin> set (listeners h)" and "OpAdd l \<notin> set ops"
  shows "heard_by (heard (Start fails ops h)) l = heard_by (heard h) l
    \<and> l \<notin> set (listeners (Start fails ops h))"
  using assms
proof (induction ops rule: rev_induct)
  case Nil
  then show ?case by (simp add: Start_def)
next
  case (snoc op ops)
  let ?h = "Start fails ops h"
  have d: "distinct (listeners ?h)" and hist: "history ?h \<noteq> None"
    using Start_wf [OF snoc.prems(1)] by (simp_all add: hub_wf_def)
  have IH: "heard_by (heard ?h) l = heard_by (heard h) l" "l \<notin> set (listeners ?h)"
    using snoc by simp_all
  have sub: "l \<notin> set (fst (relay fails ev (listeners ?h) log))" for ev log
    using relay_set(1) [of fails ev "listeners ?h" log] IH(2) by blast
  show ?case
    using IH snoc.prems(3) hist sub
    by (cases op) (auto simp: relay_heard [OF d] playback_heard Start_snoc Dispatch_def Delete_def hub_AddListener_def hub_RemoveListener_def
        case_prod_beta Let_def split: option.split)
qed

text \<open>
  A listener that does not fail hears, when it registers, those of the last \<open>n\<close> dispatched
  messages that have not been deleted since, oldest first, and from then on every dispatched
  message and every deletion in the order the hub runs them.
\<close>
theorem hub_listener_hears:
  assumes "0 < n" and "\<forall>es. \<not> fails l es" and "distinct (map (mkey \<circ> fst) (standing ops))"
    and "OpAdd l \<notin> set ops" and "OpAdd l \<notin> set later" and "OpRemove l \<notin> set later"
  shows "heard_by (heard (Start fails (ops @ OpAdd l # later) (hub_New (int n)))) l
    = map Received (map fst (filter snd (last_n n (standing ops)))) @ told later"
proof -
  let ?h = "Start fails ops (hub_New (int n))"
  let ?h1 = "hub_AddListener fails l ?h"
  have wf: "hub_wf (hub_New (int n))" using assms(1) by (simp add: hub_wf_def hub_New_def)
  have un: "heard_by (heard ?h) l = []"
    using Start_unheard [OF wf _ assms(4)] by (simp add: hub_New_def heard_by_def)
  have "heard_by (heard ?h1) l = map Received (map fst (filter snd (last_n n (standing ops))))"
    by (simp add: hub_AddListener_def hub_ring [OF assms(1,3)] playback_heard un played_last_n Let_def)
  moreover have "Start fails (ops @ OpAdd l # later) (hub_New (int n)) = Start fails later ?h1"
    by (simp add: Start_def)
  moreover have "hub_wf ?h1" using runOp_wf [OF Start_wf [OF wf], of fails "OpAdd l"] by simp
  moreover have "l \<in> set (listeners ?h1)" by (simp add: hub_AddListener_def Let_def)
  ultimately show ?thesis using Start_registered [where fails = fails and l = l, OF _ _ assms(2,5,6)] by simp
qed

definition example_meta :: "string \<Rightarrow> MessageMetadata" where
  [go_eval]: "example_meta i = \<lparr>mdMailbox = ''a'', mdID = i, mdFrom = None, mdTo = [], mdDate = 0,
     mdSubject = [], mdSize = 1, mdSeen = False\<rparr>"

theorem hub_listener_hears_witness:
  "heard_by (heard (Start (\<lambda>l es. l = (1::nat))
     ([OpAdd 1, OpDispatch (example_meta ''1''), OpDispatch (example_meta ''2''),
       OpDispatch (example_meta ''3''), OpDelete ''a'' ''2''] @ OpAdd 0 # [OpDispatch (example_meta ''4'')])
     (hub_New (int 2)))) 0
   = [Received (example_meta ''3''), Received (example_meta ''4'')]"
  by (subst hub_listener_hears) (simp_all add: go_eval)

text \<open>
  A hub that was created without a history (a length of zero or less) relays nothing: no
  listener ever hears of a message, whatever is dispatched.
\<close>
theorem hub_without_history_is_silent:
  assumes "historyLen \<le> 0"
  shows "heard (Start fails ops (hub_New historyLen)) = []"
proof -
  have "history (Start fails ops (hub_New historyLen)) = None
      \<and> heard (Start fails ops (hub_New historyLen)) = []"
  proof (induction ops rule: rev_induct)
    case Nil
    then show ?case using assms by (simp add: Start_def hub_New_def)
  next
    case (snoc op ops)
    then show ?case
      by (cases op) (auto simp: Start_snoc Dispatch_def Delete_def hub_AddListener_def hub_RemoveListener_def)
  qed
  then show ?thesis ..
qed

theorem hub_without_history_is_silent_witness:
  "heard (Start (\<lambda>l es. False) [OpAdd (0::nat), OpDispatch (example_meta ''1'')] (hub_New 0)) = []"
  by (rule hub_without_history_is_silent) simp

end
