(* ===== verification/Manager.thy ===== *)
theory Manager
  imports Policy MemProps
begin

text \<open>
  \<open>pkg/message/manager.go\<close>: the \<open>StoreManager\<close> through which the servers and controllers reach a
  store. \<open>enmime\<close> is a third-party package: its functions are the record \<open>Enmime\<close>, an argument.
  So are the clock (\<open>now\<close> and \<open>tstamp\<close>, the time and its rendering). \<open>AfterMessageStored.Emit\<close>
  starts the listeners in goroutines; the model returns the list of the emitted events.
\<close>

record ('hdr, 'env) Enmime =
  DecodeHeaders :: "string \<Rightarrow> 'hdr option"
  HeaderGet :: "'hdr \<Rightarrow> string \<Rightarrow> string"
  ParseAddressList :: "string \<Rightarrow> address list option"
  ReadEnvelope :: "string \<Rightarrow> 'env option"

record 'st StoreManager =
  AddrPolicy :: Addressing
  mgStore :: "'st Store"
  BeforeMessageStored :: "(InboundMessage, InboundMessage) EventBroker"

datatype deliver_error = HeaderError | StoreFailed store_error | EnvelopeError

subsection \<open>Deliver\<close>

text \<open>The two header lines \<open>Deliver\<close> puts before the message.\<close>

definition ReturnPath :: "string \<Rightarrow> string" where
  [go_eval]: "ReturnPath from = ''Return-Path: <'' @ from @ ''>'' @ CRLF"

definition Received_for :: "string \<Rightarrow> string \<Rightarrow> string \<Rightarrow> string" where
  [go_eval]: "Received_for recvdHeader mb tstamp = recvdHeader @ ''  for <'' @ mb @ ''>; '' @ tstamp @ CRLF"

definition delivery :: "InboundMessage \<Rightarrow> string \<Rightarrow> string \<Rightarrow> string \<Rightarrow> int \<Rightarrow> string \<Rightarrow> string \<Rightarrow> message" where
  [go_eval]: "delivery inbound from recvdHeader source now tstamp mb =
     Delivery
       \<lparr>mdMailbox = mb, mdID = [], mdFrom = imFrom inbound, mdTo = imTo inbound, mdDate = now,
        mdSubject = imSubject inbound, mdSize = imSize inbound, mdSeen = False\<rparr>
       (ReturnPath from @ Received_for recvdHeader mb tstamp @ source)"

fun deliver_loop :: "'st Store \<Rightarrow> (string \<Rightarrow> message) \<Rightarrow> string list \<Rightarrow> 'st \<Rightarrow> MessageMetadata list
    \<Rightarrow> deliver_error option \<times> 'st \<times> MessageMetadata list" where
  "deliver_loop store mk [] st evs = (None, st, evs)"
| "deliver_loop store mk (mb # mbs) st evs =
     (case AddMessage store st (mk mb) of
        (Inl err, st) \<Rightarrow> (Some (StoreFailed err), st, evs)
      | (Inr i, st) \<Rightarrow> deliver_loop store mk mbs st (evs @ [(MakeMetadata (mk mb))\<lparr>mdID := i\<rparr>]))"

definition Deliver :: "('hdr, 'env) Enmime \<Rightarrow> 'st StoreManager \<Rightarrow> int \<Rightarrow> string \<Rightarrow> Origin \<Rightarrow> Recipient list
    \<Rightarrow> string \<Rightarrow> string \<Rightarrow> 'st \<Rightarrow> deliver_error option \<times> 'st \<times> MessageMetadata list" where
  [go_eval]: "Deliver en mg now tstamp from recipients recvdHeader source st =
     (case DecodeHeaders en source of
        None \<Rightarrow> (Some HeaderError, st, [])
      | Some header \<Rightarrow>
          (let fromAddrs = (case ParseAddressList en (HeaderGet en header ''From'') of
                 None \<Rightarrow> [oAddress from]
               | Some as \<Rightarrow> if as = [] then [oAddress from] else as);
               toAddrs = (case ParseAddressList en (HeaderGet en header ''To'') of
                 None \<Rightarrow> map rAddress recipients
               | Some as \<Rightarrow> as);
               inbound = \<lparr>imMailboxes = map rMailbox recipients, imFrom = Some (hd fromAddrs),
                 imTo = toAddrs, imSubject = HeaderGet en header ''Subject'', imSize = int (length source)\<rparr>;
               inbound = (case Emit (BeforeMessageStored mg) inbound of
                 None \<Rightarrow> inbound\<lparr>imMailboxes := map rMailbox (filter Recipient_ShouldStore recipients)\<rparr>
               | Some extResult \<Rightarrow> extResult)
           in deliver_loop (mgStore mg)
                (delivery inbound (Address (oAddress from)) recvdHeader source now tstamp)
                (imMailboxes inbound) st []))"

subsection \<open>The other operations\<close>

definition GetMetadata :: "'st StoreManager \<Rightarrow> string \<Rightarrow> 'st \<Rightarrow> (store_error, MessageMetadata list) result \<times> 'st" where
  [go_eval]: "GetMetadata mg mailbox st =
     (case GetMessages (mgStore mg) st mailbox of
        (Inl err, st) \<Rightarrow> (Err err, st)
      | (Inr messages, st) \<Rightarrow> (Ok (map MakeMetadata messages), st))"

text \<open>A missing message is \<open>Ok None\<close>, Go's \<open>nil, nil\<close>.\<close>

definition mg_GetMessage :: "('hdr, 'env) Enmime \<Rightarrow> 'st StoreManager \<Rightarrow> string \<Rightarrow> string \<Rightarrow> 'st
    \<Rightarrow> (deliver_error, (MessageMetadata \<times> 'env) option) result \<times> 'st" where
  [go_eval]: "mg_GetMessage en mg mailbox i st =
     (case GetMessage (mgStore mg) st mailbox i of
        (Inl err, st) \<Rightarrow> (Err (StoreFailed err), st)
      | (Inr None, st) \<Rightarrow> (Ok None, st)
      | (Inr (Some sm), st) \<Rightarrow>
          (case sSource sm of
             None \<Rightarrow> (Err (StoreFailed SourceError), st)
           | Some r \<Rightarrow>
               (case ReadEnvelope en r of
                  None \<Rightarrow> (Err EnvelopeError, st)
                | Some env \<Rightarrow> (Ok (Some (MakeMetadata sm, env)), st))))"

definition mg_MarkSeen :: "'st StoreManager \<Rightarrow> string \<Rightarrow> string \<Rightarrow> 'st \<Rightarrow> store_error option \<times> 'st" where
  [go_eval]: "mg_MarkSeen mg mailbox i st = MarkSeen (mgStore mg) st mailbox i"

definition mg_PurgeMessages :: "'st StoreManager \<Rightarrow> string \<Rightarrow> 'st \<Rightarrow> store_error option \<times> 'st" where
  [go_eval]: "mg_PurgeMessages mg mailbox st = PurgeMessages (mgStore mg) st mailbox"

definition mg_RemoveMessage :: "'st StoreManager \<Rightarrow> string \<Rightarrow> string \<Rightarrow> 'st \<Rightarrow> store_error option \<times> 'st" where
  [go_eval]: "mg_RemoveMessage mg mailbox i st = RemoveMessage (mgStore mg) st mailbox i"

definition SourceReader :: "'st StoreManager \<Rightarrow> string \<Rightarrow> string \<Rightarrow> 'st \<Rightarrow> (store_error, string option) result \<times> 'st" where
  [go_eval]: "SourceReader mg mailbox i st =
     (case GetMessage (mgStore mg) st mailbox i of
        (Inl err, st) \<Rightarrow> (Err err, st)
      | (Inr None, st) \<Rightarrow> (Ok None, st)
      | (Inr (Some sm), st) \<Rightarrow>
          (case sSource sm of None \<Rightarrow> (Err SourceError, st) | Some r \<Rightarrow> (Ok (Some r), st)))"

definition MailboxForAddress :: "'st StoreManager \<Rightarrow> string \<Rightarrow> (addr_error, string) result" where
  [go_eval]: "MailboxForAddress mg mailbox = ExtractMailbox (AddrPolicy mg) mailbox"

subsection \<open>What a delivery does\<close>

context capped_store
begin

text \<open>On a store without a limit, every mailbox of the list gets its copy and an event.\<close>

lemma deliver_loop_stores:
  assumes "inv st" and "cap \<le> 0" and "\<And>mb. sMailbox (mk mb) = mb \<and> sSource (mk mb) = Some (src mb)"
    and "deliver_loop ops mk mbs st evs = (e, st', evs')"
  shows "e = None \<and> inv st'
    \<and> (\<forall>n. map sSource (abs st' n) = map sSource (abs st n) @ replicate (count_list mbs n) (Some (src n)))
    \<and> (\<forall>n. set (abs st n) \<subseteq> set (abs st' n))
    \<and> (\<exists>new. evs' = evs @ new \<and> map mdMailbox new = mbs
         \<and> (\<forall>ev\<in>set new. \<exists>m\<in>set (abs st' (mdMailbox ev)). sID m = mdID ev \<and> sSource m = Some (src (mdMailbox ev))))"
  using assms(1,4)
proof (induction mbs arbitrary: st evs)
  case Nil
  then show ?case by simp
next
  case (Cons mb mbs)
  have mk: "sMailbox (mk mb) = mb" "sSource (mk mb) = Some (src mb)" using assms(3) by simp_all
  obtain i st1 where a: "AddMessage ops st (mk mb) = (Ok i, st1)"
    using add_result [OF Cons.prems(1) mk(2)] by blast
  let ?m = "(mk mb)\<lparr>sID := i, sSize := int (length (src mb)), sSeen := False\<rparr>"
  let ?ev = "(MakeMetadata (mk mb))\<lparr>mdID := i\<rparr>"
  have abs1: "abs st1 n = (if n = mb then abs st mb @ [?m] else abs st n)" for n
    using add_capped [OF Cons.prems(1) a] assms(2) mk by (simp add: keep_newest_def)
  have l: "deliver_loop ops mk mbs st1 (evs @ [?ev]) = (e, st', evs')"
    using Cons.prems(2) a by simp
  from Cons.IH [OF inv_add [OF Cons.prems(1) a] l] obtain new where IH: "e = None" "inv st'"
    "\<And>n. map sSource (abs st' n) = map sSource (abs st1 n) @ replicate (count_list mbs n) (Some (src n))"
    "\<And>n. set (abs st1 n) \<subseteq> set (abs st' n)" "evs' = (evs @ [?ev]) @ new" "map mdMailbox new = mbs"
    "\<forall>ev\<in>set new. \<exists>m\<in>set (abs st' (mdMailbox ev)). sID m = mdID ev \<and> sSource m = Some (src (mdMailbox ev))"
    by blast
  have "map sSource (abs st' n) = map sSource (abs st n) @ replicate (count_list (mb # mbs) n) (Some (src n))" for n
    using IH(3) [of n] abs1 [of n] mk by (cases "n = mb") simp_all
  moreover have "set (abs st n) \<subseteq> set (abs st' n)" for n
    using IH(4) [of n] abs1 [of n] by (cases "n = mb") auto
  moreover have "?m \<in> set (abs st' mb)" using IH(4) [of mb] abs1 [of mb] by auto
  then have "\<exists>m\<in>set (abs st' (mdMailbox ?ev)). sID m = mdID ?ev \<and> sSource m = Some (src (mdMailbox ?ev))"
    using mk by (intro bexI [of _ ?m]) (simp_all add: MakeMetadata_def)
  then have "\<forall>ev\<in>set (?ev # new). \<exists>m\<in>set (abs st' (mdMailbox ev)). sID m = mdID ev \<and> sSource m = Some (src (mdMailbox ev))"
    using IH(7) by simp
  moreover have "evs' = evs @ (?ev # new)" "map mdMailbox (?ev # new) = mb # mbs"
    using IH(5,6) mk by (simp_all add: MakeMetadata_def)
  ultimately show ?case using IH(1,2) by (intro conjI allI exI [of _ "?ev # new"])
qed

end

text \<open>The message as \<open>Deliver\<close> shows it to the extensions, and the mailboxes it delivers to.\<close>

definition inbound_of :: "('hdr, 'env) Enmime \<Rightarrow> 'hdr \<Rightarrow> Origin \<Rightarrow> Recipient list \<Rightarrow> string \<Rightarrow> InboundMessage" where
  [go_eval]: "inbound_of en header from recipients source =
     \<lparr>imMailboxes = map rMailbox recipients,
      imFrom = Some (case ParseAddressList en (HeaderGet en header ''From'') of
        Some (a # as) \<Rightarrow> a | _ \<Rightarrow> oAddress from),
      imTo = (case ParseAddressList en (HeaderGet en header ''To'') of
        None \<Rightarrow> map rAddress recipients | Some as \<Rightarrow> as),
      imSubject = HeaderGet en header ''Subject'', imSize = int (length source)\<rparr>"

definition destinations :: "'st StoreManager \<Rightarrow> InboundMessage \<Rightarrow> Recipient list \<Rightarrow> string list" where
  [go_eval]: "destinations mg inbound recipients =
     (case Emit (BeforeMessageStored mg) inbound of
        None \<Rightarrow> map rMailbox (filter Recipient_ShouldStore recipients)
      | Some r \<Rightarrow> imMailboxes r)"

lemma Deliver_loop:
  assumes "DecodeHeaders en source = Some header"
  shows "\<exists>inbound. Deliver en mg now tstamp from recipients recvdHeader source st
    = deliver_loop (mgStore mg) (delivery inbound (Address (oAddress from)) recvdHeader source now tstamp)
        (destinations mg (inbound_of en header from recipients source) recipients) st []"
proof -
  have hd: "hd (case x of None \<Rightarrow> [oAddress from] | Some as \<Rightarrow> if as = [] then [oAddress from] else as)
      = (case x of Some (a # as) \<Rightarrow> a | _ \<Rightarrow> oAddress from)" for x
    by (cases x) (auto split: list.split)
  let ?i = "inbound_of en header from recipients source"
  show ?thesis
  proof (cases "Emit (BeforeMessageStored mg) ?i")
    case None
    then show ?thesis
      by (intro exI [of _ "?i\<lparr>imMailboxes := map rMailbox (filter Recipient_ShouldStore recipients)\<rparr>"])
         (simp add: Deliver_def assms hd inbound_of_def destinations_def Let_def)
  next
    case (Some r)
    then show ?thesis
      by (intro exI [of _ r]) (simp add: Deliver_def assms hd inbound_of_def destinations_def Let_def)
  qed
qed

context capped_store
begin

lemma Deliver_copies:
  assumes "inv st" and "cap \<le> 0" and "mgStore mg = ops" and "DecodeHeaders en source = Some header"
    and "Deliver en mg now tstamp from recipients recvdHeader source st = (err, st', evs)"
  shows "err = None \<and> inv st'
    \<and> (\<forall>n. map sSource (abs st' n) = map sSource (abs st n)
          @ replicate (count_list (destinations mg (inbound_of en header from recipients source) recipients) n)
              (Some (ReturnPath (Address (oAddress from)) @ Received_for recvdHeader n tstamp @ source)))
    \<and> map mdMailbox evs = destinations mg (inbound_of en header from recipients source) recipients
    \<and> (\<forall>ev\<in>set evs. \<exists>m\<in>set (abs st' (mdMailbox ev)). sID m = mdID ev
          \<and> sSource m = Some (ReturnPath (Address (oAddress from)) @ Received_for recvdHeader (mdMailbox ev) tstamp @ source))"
proof -
  let ?src = "\<lambda>n. ReturnPath (Address (oAddress from)) @ Received_for recvdHeader n tstamp @ source"
  let ?ds = "destinations mg (inbound_of en header from recipients source) recipients"
  obtain inbound where d: "deliver_loop ops (delivery inbound (Address (oAddress from)) recvdHeader source now tstamp)
      ?ds st [] = (err, st', evs)"
    using Deliver_loop [OF assms(4), of mg now tstamp "from" recipients recvdHeader st] assms(3,5) by auto
  have mk: "sMailbox (delivery inbound (Address (oAddress from)) recvdHeader source now tstamp n) = n
      \<and> sSource (delivery inbound (Address (oAddress from)) recvdHeader source now tstamp n) = Some (?src n)" for n
    by (simp add: delivery_def)
  from deliver_loop_stores [OF assms(1,2) mk d] show ?thesis by auto
qed

end

lemma mem_run_capped: "mem_New cap None = Some s0 \<Longrightarrow> mem_run s0 s \<Longrightarrow> mem_capped cap s"
  using mem_run_spec [of s0 s] mem_New_spec [of cap None s0] by (simp add: mem_capped_def)

text \<open>
  C20: on a memory store without limits, a message whose headers decode is delivered without an
  error: every mailbox gets one copy per destination, after what it held, with the return path
  and the trace line before the message; the destinations are those of the first extension that
  answers, otherwise the mailboxes of the recipients whose domain the policy stores. One event is
  emitted per copy, in order.
\<close>
theorem Deliver_stores:
  assumes "mem_New cap None = Some s0" and "cap \<le> 0" and "mem_run s0 s" and "mgStore mg = mem_ops"
    and "DecodeHeaders en source = Some header"
    and "Deliver en mg now tstamp from recipients recvdHeader source s = (err, s', evs)"
  shows "err = None
    \<and> (\<forall>n. map sSource (mem_abs s' n) = map sSource (mem_abs s n)
          @ replicate (count_list (destinations mg (inbound_of en header from recipients source) recipients) n)
              (Some (ReturnPath (Address (oAddress from)) @ Received_for recvdHeader n tstamp @ source)))
    \<and> map mdMailbox evs = destinations mg (inbound_of en header from recipients source) recipients"
  using capped.Deliver_copies [OF mem_run_capped [OF assms(1,3)] assms(2,4-6)] by blast

text \<open>A mail parser for the examples: no header line is an address list.\<close>

definition example_enmime :: "(unit, unit) Enmime" where
  [go_eval]: "example_enmime = \<lparr>DecodeHeaders = (\<lambda>s. Some ()), HeaderGet = (\<lambda>h n. []),
     ParseAddressList = (\<lambda>s. None), ReadEnvelope = (\<lambda>s. Some ())\<rparr>"

definition example_root :: Root where
  [go_eval]: "example_root = \<lparr>LogLevel = [], Lua = \<lparr>lua_Path = []\<rparr>, MailboxNaming = LocalNaming,
     SMTP = \<lparr>smtp_Addr = [], smtp_Domain = ''h'', MaxRecipients = 2, MaxMessageBytes = 100, DefaultAccept = True,
       AcceptDomains = [], RejectDomains = [''no.x''], DefaultStore = True, StoreDomains = [],
       DiscardDomains = [''d.x''], RejectOriginDomains = [''bad.x''], smtp_Timeout = 0,
       smtp_TLSEnabled = False, smtp_TLSPrivKey = [], smtp_TLSCert = [],
     smtp_Debug = False, smtp_ForceTLS = False\<rparr>,
     POP3 = \<lparr>pop3_Addr = [], pop3_Domain = ''h'', pop3_Timeout = 0, pop3_Debug = False,
       pop3_TLSEnabled = False, pop3_TLSPrivKey = [], pop3_TLSCert = [], pop3_ForceTLS = False\<rparr>,
     Web = \<lparr>web_Addr = [], BasePath = [], UIDir = [], GreetingFile = [], MonitorVisible = True,
       MonitorHistory = 30, PProf = False\<rparr>,
     Storage = \<lparr>Type = ''memory'', Params = [], RetentionPeriod = 0, RetentionSleep = 0, MailboxMsgCap = 0\<rparr>\<rparr>"

definition example_mg :: "mem_store StoreManager" where
  [go_eval]: "example_mg = \<lparr>AddrPolicy = \<lparr>aConfig = example_root\<rparr>, mgStore = mem_ops,
     BeforeMessageStored = empty_broker\<rparr>"

definition example_rcpt :: "string \<Rightarrow> string \<Rightarrow> Recipient" where
  [go_eval]: "example_rcpt mb d = \<lparr>rAddress = mail_address (mb @ ''@'' @ d), rPolicy = \<lparr>aConfig = example_root\<rparr>,
     rLocalPart = mb, rDomain = d, rMailbox = mb\<rparr>"

definition example_origin :: Origin where
  [go_eval]: "example_origin = \<lparr>oAddress = mail_address ''s@x'', oPolicy = \<lparr>aConfig = example_root\<rparr>,
     oLocalPart = ''s'', oDomain = ''x''\<rparr>"

lemma example_unlimited: "mem_New 0 None = Some (the (mem_New 0 None))"
  by (simp add: go_eval)

theorem Deliver_stores_witness:
  "\<exists>s' evs. Deliver example_enmime example_mg 5 ''t'' example_origin
      [example_rcpt ''a'' ''x.y'', example_rcpt ''b'' ''d.x''] ''R'' ''hi'' (the (mem_New 0 None)) = (None, s', evs)
    \<and> map mdMailbox evs = [''a''] \<and> mem_abs s' ''b'' = []"
proof -
  let ?rs = "[example_rcpt ''a'' ''x.y'', example_rcpt ''b'' ''d.x'']"
  obtain err s' evs where d: "Deliver example_enmime example_mg 5 ''t'' example_origin ?rs ''R'' ''hi''
      (the (mem_New 0 None)) = (err, s', evs)" by (metis prod_cases3)
  have ds: "destinations example_mg (inbound_of example_enmime () example_origin ?rs ''hi'') ?rs = [''a'']"
    by (simp add: go_eval)
  have "mgStore example_mg = mem_ops" "DecodeHeaders example_enmime ''hi'' = Some ()"
    by (simp_all add: example_mg_def example_enmime_def)
  from Deliver_stores [OF example_unlimited _ run_refl this d]
  have "err = None \<and> map mdMailbox evs = [''a'']
      \<and> map sSource (mem_abs s' ''b'') = map sSource (mem_abs (the (mem_New 0 None)) ''b'')"
    unfolding ds by simp
  then show ?thesis using d mem_New_spec(3) [OF example_unlimited] by auto
qed

lemma mem_ids_not_latest: "mem_ok s \<Longrightarrow> m \<in> set (mem_abs s n) \<Longrightarrow> sID m \<noteq> ''latest''"
proof
  assume "mem_ok s" "m \<in> set (mem_abs s n)" "sID m = ''latest''"
  then obtain k where "Utoa k = ''latest''"
    by (auto simp: mem_abs_def mem_ok_def dest: msgs_of_mem)
  with Utoa_hd_digit [of k] show False by (simp add: is_digit_def code_def)
qed

text \<open>
  What was delivered can be read back: for every event of a delivery, the source of the
  message with the event's mailbox and id is the delivered message after the two header lines.
\<close>
theorem Deliver_then_SourceReader:
  assumes "mem_New cap None = Some s0" and "cap \<le> 0" and "mem_run s0 s" and "mgStore mg = mem_ops"
    and "DecodeHeaders en source = Some header"
    and "Deliver en mg now tstamp from recipients recvdHeader source s = (err, s', evs)"
    and "ev \<in> set evs"
  shows "fst (SourceReader mg (mdMailbox ev) (mdID ev) s')
    = Ok (Some (ReturnPath (Address (oAddress from)) @ Received_for recvdHeader (mdMailbox ev) tstamp @ source))"
proof -
  from capped.Deliver_copies [OF mem_run_capped [OF assms(1,3)] assms(2,4-6)] assms(7)
  obtain m where c: "mem_capped cap s'" and m: "m \<in> set (mem_abs s' (mdMailbox ev))" "sID m = mdID ev"
    "sSource m = Some (ReturnPath (Address (oAddress from)) @ Received_for recvdHeader (mdMailbox ev) tstamp @ source)"
    by blast
  have "mem_ok s'" using c by (simp add: mem_capped_def)
  from capped.get_one_found [OF c m(1) mem_ids_not_latest [OF this m(1)]] m(2)
  obtain s'' where "GetMessage mem_ops s' (mdMailbox ev) (mdID ev) = (Ok (Some m), s'')" by auto
  with m(3) assms(4) show ?thesis by (simp add: SourceReader_def)
qed

theorem Deliver_then_SourceReader_witness:
  "\<exists>s' (ev :: MessageMetadata). fst (SourceReader example_mg (mdMailbox ev) (mdID ev) s')
     = Ok (Some (ReturnPath ''s@x'' @ Received_for ''R'' (mdMailbox ev) ''t'' @ ''hi''))"
proof -
  let ?rs = "[example_rcpt ''a'' ''x.y'']"
  obtain err s' evs where d: "Deliver example_enmime example_mg 5 ''t'' example_origin ?rs ''R'' ''hi''
      (the (mem_New 0 None)) = (err, s', evs)" by (metis prod_cases3)
  have ds: "destinations example_mg (inbound_of example_enmime () example_origin ?rs ''hi'') ?rs = [''a'']"
    by (simp add: go_eval)
  have st: "mgStore example_mg = mem_ops" and hd: "DecodeHeaders example_enmime ''hi'' = Some ()"
    by (simp_all add: example_mg_def example_enmime_def)
  from capped.Deliver_copies [OF mem_run_capped [OF example_unlimited run_refl] _ st hd d] ds obtain ev where "ev \<in> set evs"
    by (cases evs) auto
  from Deliver_then_SourceReader [OF example_unlimited _ run_refl st hd d this]
  have "fst (SourceReader example_mg (mdMailbox ev) (mdID ev) s')
     = Ok (Some (ReturnPath ''s@x'' @ Received_for ''R'' (mdMailbox ev) ''t'' @ ''hi''))"
    by (simp add: example_origin_def)
  then show ?thesis by blast
qed

text \<open>
  A delivery stops at the first mailbox whose add fails: the mailboxes before it keep their
  copies and their events have been emitted, the ones after it get nothing, and the error is the
  store's. This holds over any store.
\<close>
theorem Deliver_partial_failure:
  assumes "Deliver en mg now tstamp from recipients recvdHeader source st = (Some (StoreFailed e), st', evs)"
  shows "\<exists>header before mb rest st1. DecodeHeaders en source = Some header
    \<and> destinations mg (inbound_of en header from recipients source) recipients = before @ mb # rest
    \<and> map mdMailbox evs = before
    \<and> (\<exists>inbound. fst (AddMessage (mgStore mg) st1
          (delivery inbound (Address (oAddress from)) recvdHeader source now tstamp mb)) = Err e)"
proof -
  obtain header where h: "DecodeHeaders en source = Some header"
    using assms by (cases "DecodeHeaders en source") (auto simp: Deliver_def)
  let ?ds = "destinations mg (inbound_of en header from recipients source) recipients"
  obtain inbound where d: "deliver_loop (mgStore mg)
      (delivery inbound (Address (oAddress from)) recvdHeader source now tstamp) ?ds st [] = (Some (StoreFailed e), st', evs)"
    using Deliver_loop [OF h, of mg now tstamp "from" recipients recvdHeader st] assms by auto
  have "\<exists>before mb rest st1. mbs = before @ mb # rest \<and> map mdMailbox evs' = map mdMailbox evs0 @ before
      \<and> fst (AddMessage store st1 (delivery inbound f r so no ts mb)) = Err e"
    if "deliver_loop store (delivery inbound f r so no ts) mbs s0 evs0 = (Some (StoreFailed e), st', evs')"
    for store :: "'a Store" and f r so no ts mbs s0 evs0 evs'
    using that
  proof (induction mbs arbitrary: s0 evs0)
    case (Cons mb mbs)
    obtain res s1 where a: "AddMessage store s0 (delivery inbound f r so no ts mb) = (res, s1)" by fastforce
    show ?case
    proof (cases res)
      case (Inl e')
      with Cons.prems a have "e' = e" "evs' = evs0" by simp_all
      with a Inl show ?thesis by (intro exI [of _ "[]"] exI [of _ mb] exI [of _ mbs] exI [of _ s0]) simp
    next
      case (Inr i)
      let ?ev = "(MakeMetadata (delivery inbound f r so no ts mb))\<lparr>mdID := i\<rparr>"
      from Cons.prems a Inr have "deliver_loop store (delivery inbound f r so no ts) mbs s1 (evs0 @ [?ev])
          = (Some (StoreFailed e), st', evs')" by simp
      from Cons.IH [OF this] obtain dn mb' rest st1 where
        "mbs = dn @ mb' # rest" "map mdMailbox evs' = map mdMailbox (evs0 @ [?ev]) @ dn"
        "fst (AddMessage store st1 (delivery inbound f r so no ts mb')) = Err e" by blast
      then show ?thesis
        by (intro exI [of _ "mb # dn"] exI [of _ mb'] exI [of _ rest] exI [of _ st1])
           (simp add: MakeMetadata_def delivery_def)
    qed
  qed simp
  from this [OF d] h show ?thesis by fastforce
qed

text \<open>A store that takes one message and fails from then on.\<close>

definition once_store :: "nat Store" where
  [go_eval]: "once_store = \<lparr>AddMessage = (\<lambda>n m. if n = 0 then (Ok ''1'', 1) else (Err ErrNotWritable, n)),
     GetMessage = (\<lambda>n mb i. (Ok None, n)), GetMessages = (\<lambda>n mb. (Ok [], n)),
     MarkSeen = (\<lambda>n mb i. (None, n)), PurgeMessages = (\<lambda>n mb. (None, n)), RemoveMessage = (\<lambda>n mb i. (None, n))\<rparr>"

theorem Deliver_partial_failure_witness:
  "\<exists>before mb rest. [''a'', ''b'', ''c''] = before @ mb # rest \<and> before = [''a'']"
proof -
  let ?mg = "\<lparr>AddrPolicy = \<lparr>aConfig = example_root\<rparr>, mgStore = once_store, BeforeMessageStored = empty_broker\<rparr>"
  let ?rs = "[example_rcpt ''a'' ''x'', example_rcpt ''b'' ''x'', example_rcpt ''c'' ''x'']"
  have d: "\<exists>st' evs. Deliver example_enmime ?mg 5 ''t'' example_origin ?rs ''R'' ''hi'' 0
      = (Some (StoreFailed ErrNotWritable), st', evs) \<and> map mdMailbox evs = [''a'']"
    by (simp add: go_eval)
  then obtain st' evs where d: "Deliver example_enmime ?mg 5 ''t'' example_origin ?rs ''R'' ''hi'' 0
      = (Some (StoreFailed ErrNotWritable), st', evs)" and "map mdMailbox evs = [''a'']"
    by (elim exE conjE) (rule that)
  moreover have "destinations ?mg (inbound_of example_enmime header example_origin ?rs ''hi'') ?rs = [''a'', ''b'', ''c'']" for header
    by (simp add: go_eval)
  ultimately show ?thesis using Deliver_partial_failure [OF d] by auto
qed

end
