(* ===== verification/Regex.thy ===== *)
theory Regex
  imports GoStrings
begin

text \<open>
  Go's \<open>regexp\<close> package, as far as the program uses it: a pattern is a datatype, and matching is
  the leftmost-first search its documentation describes, a backtracking matcher that tries the
  alternatives in the order of their priority (repetitions are greedy). A position of the matcher
  is the rest of the input; \<open>k\<close> is what is still to match after the pattern; groups are recorded
  as they close, the latest first.

  The first argument bounds the repetitions: a repetition whose body consumes at least one byte
  never needs more than there are bytes (\<open>match_re_fuel\<close>). Patterns are over bytes: the classes
  of the program's patterns treat all bytes of a multi-byte rune alike.
\<close>

datatype regex =
    Eps
  | Cls "char \<Rightarrow> bool"
  | Cat regex regex
  | Alt regex regex
  | Star regex
  | Group nat regex
  | EndText

type_synonym caps = "(nat \<times> string) list"

fun match_re :: "nat \<Rightarrow> regex \<Rightarrow> (caps \<Rightarrow> string \<Rightarrow> 'a option) \<Rightarrow> caps \<Rightarrow> string \<Rightarrow> 'a option" where
  "match_re n Eps k c s = k c s"
| "match_re n (Cls P) k c s = (case s of [] \<Rightarrow> None | x # xs \<Rightarrow> if P x then k c xs else None)"
| "match_re n (Cat a b) k c s = match_re n a (\<lambda>c s. match_re n b k c s) c s"
| "match_re n (Alt a b) k c s =
     (case match_re n a k c s of Some r \<Rightarrow> Some r | None \<Rightarrow> match_re n b k c s)"
| "match_re 0 (Star a) k c s = k c s"
| "match_re (Suc n) (Star a) k c s =
     (case match_re (Suc n) a (\<lambda>c s. match_re n (Star a) k c s) c s of Some r \<Rightarrow> Some r | None \<Rightarrow> k c s)"
| "match_re n (Group i a) k c s =
     match_re n a (\<lambda>c s'. k ((i, take (length s - length s') s) # c) s') c s"
| "match_re n EndText k c s = (if s = [] then k c s else None)"

abbreviation Opt :: "regex \<Rightarrow> regex" where "Opt r \<equiv> Alt r Eps"
abbreviation Plus :: "regex \<Rightarrow> regex" where "Plus r \<equiv> Cat r (Star r)"

definition Lit :: "char \<Rightarrow> regex" where
  [go_eval]: "Lit x = Cls (\<lambda>c. c = x)"

definition LitFold :: "char \<Rightarrow> regex" where
  [go_eval]: "LitFold x = Cls (\<lambda>c. upper_char c = upper_char x)"

definition is_space :: "char \<Rightarrow> bool" where
  [go_eval]: "is_space c \<longleftrightarrow> code c \<in> {9, 10, 12, 13, 32}"

definition is_word :: "char \<Rightarrow> bool" where
  [go_eval]: "is_word c \<longleftrightarrow> is_letter c \<or> is_digit c \<or> c = CHR ''_''"

text \<open>A match at the start of \<open>s\<close>: the groups and the rest of the input.\<close>

definition match_here :: "regex \<Rightarrow> string \<Rightarrow> (caps \<times> string) option" where
  [go_eval]: "match_here r s = match_re (Suc (length s)) r (\<lambda>c s'. Some (c, s')) [] s"

text \<open>The text of a group; that of a group that took no part in the match is empty.\<close>

definition submatch :: "caps \<Rightarrow> nat \<Rightarrow> string" where
  [go_eval]: "submatch c i = (case map_of c i of None \<Rightarrow> [] | Some t \<Rightarrow> t)"

text \<open>
  \<open>FindAllStringSubmatch(s, -1)\<close> for a pattern that does not match the empty string: the leftmost
  match, then those of the rest of the input. The first argument bounds the steps.
\<close>

fun find_all :: "nat \<Rightarrow> regex \<Rightarrow> string \<Rightarrow> caps list" where
  "find_all 0 r s = []"
| "find_all (Suc n) r s =
     (case match_here r s of
        Some (c, rest) \<Rightarrow> c # find_all n r rest
      | None \<Rightarrow> (case s of [] \<Rightarrow> [] | x # xs \<Rightarrow> find_all n r xs))"

definition FindAllStringSubmatch :: "regex \<Rightarrow> string \<Rightarrow> caps list" where
  [go_eval]: "FindAllStringSubmatch r s = find_all (Suc (length s)) r s"

subsection \<open>What a match means\<close>

text \<open>The words of a pattern without groups.\<close>

fun words :: "regex \<Rightarrow> string set" where
  "words Eps = {[]}"
| "words (Cls P) = {[c] | c. P c}"
| "words (Cat a b) = {u @ v | u v. u \<in> words a \<and> v \<in> words b}"
| "words (Alt a b) = words a \<union> words b"
| "words (Star a) = {concat us | us. set us \<subseteq> words a}"
| "words (Group i a) = words a"
| "words EndText = {[]}"

fun groups :: "regex \<Rightarrow> nat set" where
  "groups (Cat a b) = groups a \<union> groups b"
| "groups (Alt a b) = groups a \<union> groups b"
| "groups (Star a) = groups a"
| "groups (Group i a) = insert i (groups a)"
| "groups _ = {}"

text \<open>A match takes a word of the pattern off the input and records only the pattern's groups.\<close>

lemma match_re_sound:
  assumes "match_re n r k c s = Some x"
  shows "\<exists>u v c'. s = u @ v \<and> u \<in> words r \<and> k c' v = Some x \<and> (\<forall>i. i \<notin> groups r \<longrightarrow> map_of c' i = map_of c i)"
  using assms
proof (induction n r k c s arbitrary: x rule: match_re.induct)
  case (1 n k c s)
  then show ?case by (intro exI [of _ "[]"] exI [of _ s] exI [of _ c]) simp
next
  case (2 n P k c s)
  then obtain a as where "s = a # as" "P a" "k c as = Some x" by (cases s) (auto split: if_splits)
  then show ?case by (intro exI [of _ "[a]"] exI [of _ as] exI [of _ c]) simp
next
  case (3 n a b k c s)
  from "3.prems" have "match_re n a (\<lambda>c s. match_re n b k c s) c s = Some x" by simp
  from "3.IH"(2) [OF this] obtain u v c' where uv: "s = u @ v" "u \<in> words a" "match_re n b k c' v = Some x"
    "\<forall>i. i \<notin> groups a \<longrightarrow> map_of c' i = map_of c i" by blast
  from "3.IH"(1) [OF uv(3)] obtain u' v' c'' where "v = u' @ v'" "u' \<in> words b" "k c'' v' = Some x"
    "\<forall>i. i \<notin> groups b \<longrightarrow> map_of c'' i = map_of c' i" by blast
  with uv show ?case by (intro exI [of _ "u @ u'"] exI [of _ v'] exI [of _ c'']) auto
next
  case (4 n a b k c s)
  show ?case
  proof (cases "match_re n a k c s")
    case None
    with "4.prems" have b: "match_re n b k c s = Some x" by simp
    from "4.IH"(2) [OF None b] show ?thesis by auto
  next
    case (Some y)
    with "4.prems" "4.IH"(1) [OF Some] show ?thesis by auto
  qed
next
  case (5 a k c s)
  then show ?case by (intro exI [of _ "[]"] exI [of _ s] exI [of _ c]) (auto intro: exI [of _ "[]"])
next
  case (6 n a k c s)
  show ?case
  proof (cases "match_re (Suc n) a (\<lambda>c s. match_re n (Star a) k c s) c s")
    case None
    with "6.prems" show ?thesis
      by (intro exI [of _ "[]"] exI [of _ s] exI [of _ c]) (auto intro: exI [of _ "[]"])
  next
    case (Some y)
    with "6.prems" have "y = x" by simp
    from "6.IH"(2) [OF Some] obtain u v c' where uv: "s = u @ v" "u \<in> words a"
      "match_re n (Star a) k c' v = Some y" "\<forall>i. i \<notin> groups a \<longrightarrow> map_of c' i = map_of c i" by blast
    from "6.IH"(1) [OF uv(3)] obtain w v' c'' where w: "v = w @ v'" "w \<in> words (Star a)"
      "k c'' v' = Some y" "\<forall>i. i \<notin> groups (Star a) \<longrightarrow> map_of c'' i = map_of c' i" by blast
    from w(2) obtain us where "w = concat us" "set us \<subseteq> words a" by auto
    then have "u @ w \<in> words (Star a)" using uv(2) by (auto intro!: exI [of _ "u # us"])
    with uv w \<open>y = x\<close> show ?thesis
      by (intro exI [of _ "u @ w"] exI [of _ v'] exI [of _ c'']) auto
  qed
next
  case (7 n i a k c s)
  then have "match_re n a (\<lambda>c s'. k ((i, take (length s - length s') s) # c) s') c s = Some x" by simp
  from "7.IH" [OF this] obtain u v c' where "s = u @ v" "u \<in> words a"
    "k ((i, take (length s - length v) s) # c') v = Some x" "\<forall>j. j \<notin> groups a \<longrightarrow> map_of c' j = map_of c j" by blast
  then show ?case
    by (intro exI [of _ u] exI [of _ v] exI [of _ "(i, take (length s - length v) s) # c'"]) auto
next
  case (8 n k c s)
  then show ?case by (intro exI [of _ "[]"] exI [of _ s] exI [of _ c]) (auto split: if_splits)
qed

text \<open>A group records the word it has matched.\<close>

lemma match_re_group:
  assumes "match_re n (Group i a) k c s = Some x"
  shows "\<exists>u v c'. s = u @ v \<and> u \<in> words a \<and> k ((i, u) # c') v = Some x
    \<and> (\<forall>j. j \<notin> groups a \<longrightarrow> map_of c' j = map_of c j)"
proof -
  from assms have "match_re n a (\<lambda>c s'. k ((i, take (length s - length s') s) # c) s') c s = Some x" by simp
  from match_re_sound [OF this] obtain u v c' where "s = u @ v" "u \<in> words a"
    "k ((i, take (length s - length v) s) # c') v = Some x" "\<forall>j. j \<notin> groups a \<longrightarrow> map_of c' j = map_of c j" by blast
  then show ?thesis by (intro exI [of _ u] exI [of _ v] exI [of _ c']) auto
qed

lemma match_re_opt_group:
  assumes "match_re n (Opt (Group i a)) k c s = Some x" and "map_of c i = None"
  shows "\<exists>u v c'. s = u @ v \<and> (u \<in> words a \<or> u = []) \<and> k c' v = Some x \<and> submatch c' i = u
    \<and> (\<forall>j. j \<noteq> i \<longrightarrow> j \<notin> groups a \<longrightarrow> map_of c' j = map_of c j)"
proof (cases "match_re n (Group i a) k c s")
  case None
  with assms show ?thesis
    by (intro exI [of _ "[]"] exI [of _ s] exI [of _ c]) (simp add: submatch_def)
next
  case (Some y)
  with assms(1) have "match_re n (Group i a) k c s = Some x" by simp
  from match_re_group [OF this] obtain u v c' where "s = u @ v" "u \<in> words a" "k ((i, u) # c') v = Some x"
    "\<forall>j. j \<notin> groups a \<longrightarrow> map_of c' j = map_of c j" by blast
  then show ?thesis
    by (intro exI [of _ u] exI [of _ v] exI [of _ "(i, u) # c'"]) (simp add: submatch_def)
qed

subsection \<open>Runs\<close>

text \<open>
  A repetition runs through the bytes its body can take one at a time, up to one where the body
  fails; if the rest of the pattern matches there, that is the match. \<open>g\<close> is what the body
  records of a byte.
\<close>

lemma star_run:
  fixes k :: "caps \<Rightarrow> string \<Rightarrow> 'a option"
  assumes "\<And>m K c y ys. y \<in> set u \<Longrightarrow> K (g y c) ys = Some x \<Longrightarrow> match_re m a K c (y # ys) = Some x"
    and "\<And>m K c. match_re m a K c v = (None :: 'a option)"
    and "length u \<le> n" and "k (fold g u c) v = Some x"
  shows "match_re n (Star a) k c (u @ v) = Some x"
  using assms(1,3,4)
proof (induction u arbitrary: n c)
  case Nil
  then show ?case using assms(2) by (cases n) simp_all
next
  case (Cons y ys)
  then obtain m where n: "n = Suc m" "length ys \<le> m" by (cases n) auto
  have "match_re m (Star a) k (g y c) (ys @ v) = Some x" using Cons n(2) by simp
  with Cons.prems(1) n(1) show ?case by simp
qed

lemma plus_run:
  fixes k :: "caps \<Rightarrow> string \<Rightarrow> 'a option"
  assumes "\<And>m K c y ys. y \<in> set u \<Longrightarrow> K (g y c) ys = Some x \<Longrightarrow> match_re m a K c (y # ys) = Some x"
    and "\<And>m K c. match_re m a K c v = (None :: 'a option)"
    and "u \<noteq> []" and "length u \<le> n" and "k (fold g u c) v = Some x"
  shows "match_re n (Plus a) k c (u @ v) = Some x"
proof -
  obtain y ys where u: "u = y # ys" using assms(3) by (cases u) auto
  have "match_re n (Star a) k (g y c) (ys @ v) = Some x"
    using assms u by (intro star_run) auto
  with assms(1) [of y] u show ?thesis by simp
qed

lemma fold_const [simp]: "fold (\<lambda>y c. c) u = id"
  by (induction u) auto

text \<open>A run of a class.\<close>

lemma class_plus_run:
  assumes "\<forall>y\<in>set u. P y" and "v = [] \<or> \<not> P (hd v)" and "u \<noteq> []" and "length u \<le> n" and "k c v = Some x"
  shows "match_re n (Plus (Cls P)) k c (u @ v) = Some x"
  using assms by (intro plus_run [where g = "\<lambda>y c. c"]) (auto split: list.split)

lemma class_star_run:
  assumes "\<forall>y\<in>set u. P y" and "v = [] \<or> \<not> P (hd v)" and "length u \<le> n" and "k c v = Some x"
  shows "match_re n (Star (Cls P)) k c (u @ v) = Some x"
  using assms by (intro star_run [where g = "\<lambda>y c. c"]) (auto split: list.split)

subsection \<open>The bound on repetitions\<close>

text \<open>
  Patterns whose repetitions always consume something: a bound greater than the length of the
  input gives the same result as any larger one.
\<close>

fun nonempty :: "regex \<Rightarrow> bool" where
  "nonempty Eps = False"
| "nonempty (Cls P) = True"
| "nonempty (Cat a b) = (nonempty a \<or> nonempty b)"
| "nonempty (Alt a b) = (nonempty a \<and> nonempty b)"
| "nonempty (Star a) = False"
| "nonempty (Group i a) = nonempty a"
| "nonempty EndText = False"

fun productive :: "regex \<Rightarrow> bool" where
  "productive (Cat a b) = (productive a \<and> productive b)"
| "productive (Alt a b) = (productive a \<and> productive b)"
| "productive (Star a) = (productive a \<and> nonempty a)"
| "productive (Group i a) = productive a"
| "productive _ = True"

lemma nonempty_words: "nonempty r \<Longrightarrow> [] \<notin> words r"
  by (induction r) auto

lemma match_re_fuel:
  assumes "productive r" and "length s < n" and "length s < n'"
    and "\<And>c' s'. length s' + (if nonempty r then 1 else 0) \<le> length s \<Longrightarrow> k c' s' = k' c' s'"
  shows "match_re n r k c s = match_re n' r k' c s"
  using assms
proof (induction r arbitrary: n n' k k' c s)
  case (Cls P)
  then show ?case by (cases s) auto
next
  case (Cat a b)
  have "match_re n b k c' s' = match_re n' b k' c' s'" if "length s' + (if nonempty a then 1 else 0) \<le> length s" for c' s'
    using Cat.prems that by (intro Cat.IH(2)) (auto split: if_splits)
  then have "match_re n a (match_re n b k) c s = match_re n' a (match_re n' b k') c s"
    using Cat.prems by (intro Cat.IH(1)) auto
  then show ?case by simp
next
  case (Alt a b)
  have "match_re n a k c s = match_re n' a k' c s"
    using Alt.prems by (intro Alt.IH(1)) (auto split: if_splits)
  moreover have "match_re n b k c s = match_re n' b k' c s"
    using Alt.prems by (intro Alt.IH(2)) (auto split: if_splits)
  ultimately show ?case by (simp only: match_re.simps)
next
  case (Star a)
  show ?case
    using Star.prems(2-4)
  proof (induction "length s" arbitrary: n n' s c rule: less_induct)
    case less
    obtain m m' where nm: "n = Suc m" "n' = Suc m'" using less.prems(1,2) by (cases n; cases n') auto
    have a: "productive a" "nonempty a" using Star.prems(1) by simp_all
    have "match_re m (Star a) k c' s' = match_re m' (Star a) k' c' s'" if "length s' < length s" for c' s'
    proof (rule less.hyps [OF that])
      show "length s' < m" "length s' < m'" using less.prems(1,2) that nm by simp_all
      show "k c'' s'' = k' c'' s''" if "length s'' + (if nonempty (Star a) then 1 else 0) \<le> length s'" for c'' s''
        using less.prems(3) that \<open>length s' < length s\<close> by simp
    qed
    then have "match_re (Suc m) a (match_re m (Star a) k) c s = match_re (Suc m') a (match_re m' (Star a) k') c s"
      using less.prems(1,2) nm a by (intro Star.IH) auto
    moreover have "k c s = k' c s" using less.prems(3) by simp
    ultimately show ?case unfolding nm by (simp only: match_re.simps)
  qed
next
  case (Group i a)
  then have "match_re n a (\<lambda>c s'. k ((i, take (length s - length s') s) # c) s') c s
      = match_re n' a (\<lambda>c s'. k' ((i, take (length s - length s') s) # c) s') c s"
    by (intro Group.IH) auto
  then show ?case by simp
qed auto

end
