(* ===== verification/TextProto.thy ===== *)
theory TextProto
  imports GoStrings
begin

text \<open>
  The parts of \<open>bufio\<close> and \<open>net/textproto\<close> the servers read and write lines with. The input of a
  connection is the list of what its reads yield: bytes, and errors where a read fails; after the
  list every read reports the end of the input. A deadline that passes is an error of the list.
  Lines are not limited (a line cut off by an error exactly at a multiple of the 4096 bytes of
  the reader's buffer is the one case where the real reader differs).
\<close>

datatype rerr = ReadEOF | ReadTimeout | ReadOther | UnexpectedEOF

datatype inev = B char | E rerr

subsection \<open>Lines\<close>

text \<open>Bytes up to and with the next LF, or up to an error.\<close>

fun ReadSlice :: "inev list \<Rightarrow> string \<times> rerr option \<times> inev list" where
  "ReadSlice [] = ([], Some ReadEOF, [])"
| "ReadSlice (E e # es) = ([], Some e, es)"
| "ReadSlice (B c # es) =
     (if c = LF then ([c], None, es)
      else let (l, e, es') = ReadSlice es in (c # l, e, es'))"

text \<open>The end of a line, LF or CR LF, dropped.\<close>

definition chop_eol :: "string \<Rightarrow> string" where
  [go_eval]: "chop_eol l =
     (if l \<noteq> [] \<and> last l = LF
      then (let l = butlast l in if l \<noteq> [] \<and> last l = CR then butlast l else l)
      else l)"

text \<open>
  \<open>textproto.Reader.ReadLine\<close>: a line cut off by an error is returned as a line, and the error
  is lost; only an error before the first byte is reported.
\<close>

definition ReadLine :: "inev list \<Rightarrow> (rerr, string) result \<times> inev list" where
  [go_eval]: "ReadLine es =
     (let (l, e, es') = ReadSlice es
      in if l = [] then (Err (case e of None \<Rightarrow> ReadEOF | Some e \<Rightarrow> e), es') else (Ok (chop_eol l), es'))"

text \<open>\<open>bufio.Reader.ReadString('\n')\<close>: the line with its LF; on an error the callers drop the rest.\<close>

definition ReadString :: "inev list \<Rightarrow> (rerr, string) result \<times> inev list" where
  [go_eval]: "ReadString es =
     (let (l, e, es') = ReadSlice es
      in case e of Some e \<Rightarrow> (Err e, es') | None \<Rightarrow> (Ok l, es'))"

lemma ReadSlice_length: "ReadSlice es = (l, e, es') \<Longrightarrow> length es' \<le> length es \<and> (es \<noteq> [] \<longrightarrow> length es' < length es)"
  by (induction es arbitrary: l e es' rule: ReadSlice.induct) (fastforce split: if_splits prod.splits)+

lemma ReadLine_length: "ReadLine es = (r, es') \<Longrightarrow> length es' \<le> length es \<and> (es \<noteq> [] \<longrightarrow> length es' < length es)"
  by (auto simp: ReadLine_def Let_def split: prod.splits if_splits dest: ReadSlice_length)

lemma ReadString_length: "ReadString es = (r, es') \<Longrightarrow> length es' \<le> length es \<and> (es \<noteq> [] \<longrightarrow> length es' < length es)"
  by (auto simp: ReadString_def Let_def split: prod.splits option.splits dest: ReadSlice_length)

lemma ReadLine_Nil [simp]: "ReadLine [] = (Err ReadEOF, [])"
  by (simp add: ReadLine_def)

lemma ReadString_Nil [simp]: "ReadString [] = (Err ReadEOF, [])"
  by (simp add: ReadString_def)

lemma ReadSlice_line: "LF \<notin> set l \<Longrightarrow> ReadSlice (map B l @ B LF # es) = (l @ [LF], None, es)"
  by (induction l) auto

lemma chop_eol_crlf [simp]: "chop_eol (l @ CRLF) = l"
  by (simp add: chop_eol_def butlast_append)

text \<open>A line of the peer, ended by CR LF.\<close>

definition sent_line :: "string \<Rightarrow> inev list" where
  [go_eval]: "sent_line l = map B (l @ CRLF)"

lemma ReadSlice_sent: "LF \<notin> set l \<Longrightarrow> ReadSlice (sent_line l @ es) = (l @ CRLF, None, es)"
  using ReadSlice_line [of "l @ [CR]" es] by (simp add: sent_line_def)

lemma ReadLine_sent: "LF \<notin> set l \<Longrightarrow> ReadLine (sent_line l @ es) = (Ok l, es)"
  by (simp add: ReadLine_def ReadSlice_sent)

lemma ReadString_sent: "LF \<notin> set l \<Longrightarrow> ReadString (sent_line l @ es) = (Ok (l @ CRLF), es)"
  by (simp add: ReadString_def ReadSlice_sent)

subsection \<open>The dot reader\<close>

datatype dot_state = StBeginLine | StDot | StDotCR | StCR | StData

definition dot_add :: "string \<Rightarrow> (rerr, string) result \<times> inev list \<Rightarrow> (rerr, string) result \<times> inev list" where
  [go_eval]: "dot_add s r = (map_sum id (\<lambda>t. s @ t) (fst r), snd r)"

text \<open>
  \<open>ReadDotBytes\<close>: the state machine of \<open>textproto\<close>'s \<open>dotReader\<close>. Where the code puts the byte
  back after a CR that starts no CR LF, the recursion keeps it.
\<close>

function dot_loop :: "dot_state \<Rightarrow> inev list \<Rightarrow> (rerr, string) result \<times> inev list" where
  "dot_loop st [] = (Err UnexpectedEOF, [])"
| "dot_loop st (E e # es) = (Err (if e = ReadEOF then UnexpectedEOF else e), es)"
| "dot_loop StBeginLine (B c # es) =
     (if c = CHR ''.'' then dot_loop StDot es
      else if c = CR then dot_loop StCR es
      else dot_add [c] (dot_loop StData es))"
| "dot_loop StDot (B c # es) =
     (if c = CR then dot_loop StDotCR es
      else if c = LF then (Ok [], es)
      else dot_add [c] (dot_loop StData es))"
| "dot_loop StDotCR (B c # es) =
     (if c = LF then (Ok [], es) else dot_add [CR] (dot_loop StData (B c # es)))"
| "dot_loop StCR (B c # es) =
     (if c = LF then dot_add [LF] (dot_loop StBeginLine es)
      else dot_add [CR] (dot_loop StData (B c # es)))"
| "dot_loop StData (B c # es) =
     (if c = CR then dot_loop StCR es
      else if c = LF then dot_add [LF] (dot_loop StBeginLine es)
      else dot_add [c] (dot_loop StData es))"
  by pat_completeness auto

termination
  by (relation "measure (\<lambda>(st, es). 2 * length es + (if st = StDotCR \<or> st = StCR then 1 else 0))") auto

definition ReadDotBytes :: "inev list \<Rightarrow> (rerr, string) result \<times> inev list" where
  [go_eval]: "ReadDotBytes es = dot_loop StBeginLine es"

lemma dot_add_simps [simp]:
  "dot_add s (Ok t, es) = (Ok (s @ t), es)" "dot_add s (Err e, es) = (Err e, es)"
  "dot_add s (dot_add t r) = dot_add (s @ t) r" "snd (dot_add s r) = snd r"
  by (simp_all add: dot_add_def) (cases "fst r"; simp)

lemma dot_loop_length: "length (snd (dot_loop st es)) \<le> length es \<and> (es \<noteq> [] \<longrightarrow> length (snd (dot_loop st es)) < length es)"
  by (induction st es rule: dot_loop.induct) auto

subsection \<open>Dot stuffing\<close>

text \<open>What a client sends for a list of lines: RFC 5321's transparency and the final dot.\<close>

definition dot_stuff :: "string \<Rightarrow> string" where
  [go_eval]: "dot_stuff l = (if HasPrefix l ''.'' then ''.'' @ l else l)"

definition dot_wire :: "string list \<Rightarrow> inev list" where
  [go_eval]: "dot_wire ls = concat (map (\<lambda>l. sent_line (dot_stuff l)) ls) @ sent_line ''.''"

definition unlines :: "string list \<Rightarrow> string" where
  [go_eval]: "unlines ls = concat (map (\<lambda>l. l @ [LF]) ls)"

lemma dot_data_line:
  assumes "LF \<notin> set l"
  shows "dot_loop StData (map B (l @ CRLF) @ es) = dot_add (l @ [LF]) (dot_loop StBeginLine es)"
  using assms
proof (induction l)
  case (Cons c l)
  show ?case
  proof (cases "c = CR")
    case True
    obtain d ds where d: "l @ CRLF = d # ds" "d \<noteq> LF" using Cons.prems by (cases l) auto
    with Cons True show ?thesis by (simp del: map_append)
  next
    case False
    moreover have "c \<noteq> LF" using Cons.prems by auto
    ultimately show ?thesis using Cons by simp
  qed
qed simp

lemma dot_begin_line:
  assumes "LF \<notin> set l"
  shows "dot_loop StBeginLine (sent_line (dot_stuff l) @ es) = dot_add (l @ [LF]) (dot_loop StBeginLine es)"
proof (cases l)
  case Nil
  then show ?thesis by (simp add: sent_line_def dot_stuff_def HasPrefix_def)
next
  case (Cons c cs)
  note dt = dot_data_line [OF assms, of es] dot_data_line [of cs es]
  show ?thesis
  proof (cases "c = CHR ''.''")
    case True
    with Cons assms dt show ?thesis by (simp add: sent_line_def dot_stuff_def HasPrefix_def)
  next
    case False
    show ?thesis
    proof (cases "c = CR")
      case True
      obtain d ds where d: "cs @ CRLF = d # ds" "d \<noteq> LF" using assms Cons by (cases cs) auto
      with Cons True False assms dt show ?thesis
        by (simp add: sent_line_def dot_stuff_def HasPrefix_def del: map_append)
    next
      case False
      with \<open>c \<noteq> CHR ''.''\<close> Cons assms dt show ?thesis
        by (simp add: sent_line_def dot_stuff_def HasPrefix_def)
    qed
  qed
qed

lemma dot_wire_read:
  assumes "\<forall>l\<in>set ls. LF \<notin> set l"
  shows "ReadDotBytes (dot_wire ls @ rest) = (Ok (unlines ls), rest)"
  using assms
proof (induction ls)
  case Nil
  then show ?case by (simp add: ReadDotBytes_def dot_wire_def unlines_def sent_line_def)
next
  case (Cons l ls)
  have "ReadDotBytes (dot_wire (l # ls) @ rest) = dot_loop StBeginLine (sent_line (dot_stuff l) @ (dot_wire ls @ rest))"
    by (simp add: ReadDotBytes_def dot_wire_def)
  also have "\<dots> = dot_add (l @ [LF]) (Ok (unlines ls), rest)"
    using Cons dot_begin_line [of l "dot_wire ls @ rest"] by (simp add: ReadDotBytes_def)
  finally show ?case by (simp add: unlines_def)
qed

subsection \<open>The line scanner\<close>

text \<open>
  \<open>bufio.Scanner\<close> with \<open>ScanLines\<close>: the lines, without LF or CR LF, and whether the scan ended in
  \<open>ErrTooLong\<close>: a line and its end must fit in the 65536 bytes of the buffer.
\<close>

definition drop_cr :: "string \<Rightarrow> string" where
  [go_eval]: "drop_cr l = (if l \<noteq> [] \<and> last l = CR then butlast l else l)"

definition MaxScanTokenSize :: nat where
  [go_eval]: "MaxScanTokenSize = 65536"

function scan_lines :: "string \<Rightarrow> string list \<times> bool" where
  "scan_lines s =
     (if s = [] then ([], False)
      else let raw = takeWhile (\<lambda>c. c \<noteq> LF) s
           in if length raw \<ge> MaxScanTokenSize then ([], True)
              else let (ls, err) = scan_lines (drop (Suc (length raw)) s) in (drop_cr raw # ls, err))"
  by auto

termination
  by (relation "measure length") auto

declare scan_lines.simps [simp del, go_eval]

lemma scan_lines_Nil [simp]: "scan_lines [] = ([], False)"
  by (simp add: scan_lines.simps)

lemma scan_lines_line:
  assumes "LF \<notin> set l" and "length l < MaxScanTokenSize"
  shows "scan_lines (l @ LF # s) = (drop_cr l # fst (scan_lines s), snd (scan_lines s))"
proof -
  have "takeWhile (\<lambda>c. c \<noteq> LF) (l @ LF # s) = l"
    using assms(1) by (intro takeWhile_append_stop) auto
  with assms(2) show ?thesis
    by (subst scan_lines.simps) (simp add: Let_def case_prod_beta)
qed

lemma scan_unlines:
  assumes "\<forall>l\<in>set ls. LF \<notin> set l \<and> length l < MaxScanTokenSize"
  shows "scan_lines (unlines ls) = (map drop_cr ls, False)"
  using assms by (induction ls) (simp_all add: unlines_def scan_lines_line)

lemma scan_lines_no_LF: "l \<in> set (fst (scan_lines s)) \<Longrightarrow> LF \<notin> set l"
proof (induction s rule: scan_lines.induct)
  case (1 s)
  have "LF \<notin> set (drop_cr (takeWhile (\<lambda>c. c \<noteq> LF) s))"
    by (auto simp: drop_cr_def dest: set_takeWhileD in_set_butlastD)
  with 1 show ?case
    by (subst (asm) (2) scan_lines.simps) (auto simp: Let_def case_prod_beta split: if_splits)
qed

end
