(* ===== verification/Smtp.thy ===== *)
theory Smtp
  imports Manager Regex TextProto
begin

text \<open>
  \<open>pkg/server/smtp/handler.go\<close>: one SMTP session. The record \<open>Session\<close> holds the session's fields
  and the world it acts on: the unread input of the connection, the decrypted input that follows
  a TLS handshake, the outcome of the coming writes (a write past the list succeeds), the lines
  sent, and the store. Handlers are functions from session to session, one per method, in the
  order of the code. \<open>crashed\<close> records a nil dereference. Logging and the debug output have no
  counterpart; a deadline that cannot be set is a failing read or write.
\<close>

subsection \<open>Data\<close>

datatype State = GREET | READY | LOGIN | PASSWORD | MAIL | DATA | QUIT

definition usernameChallenge :: string where [go_eval]: "usernameChallenge = ''VXNlciBOYW1lAA==''"
definition passwordChallenge :: string where [go_eval]: "passwordChallenge = ''UGFzc3dvcmQA''"

text \<open>
  \<open>fromRegex\<close>: group 1 is the path, group 2 the ESMTP parameters, group 3 a byte of them.
\<close>

definition from_path :: regex where
  [go_eval]: "from_path =
     Plus (Alt (Plus (Alt (Cat (Lit BSLASH) (Lit CHR ''>'')) (Cls (\<lambda>c. c \<noteq> CHR ''>''))))
               (Cat (Lit DQUOTE) (Cat (Plus (Cls (\<lambda>c. c \<noteq> DQUOTE)))
                 (Cat (Lit DQUOTE) (Cat (Lit CHR ''@'') (Cls (\<lambda>c. c \<noteq> CHR ''>'')))))))"

definition from_params :: regex where
  [go_eval]: "from_params =
     Cat (Lit CHR '' '') (Plus (Group 3 (Alt (Cls (\<lambda>c. is_word c \<or> c = CHR ''='' \<or> c = CHR '' ''))
       (Cat (Lit CHR ''='') (Cat (Lit CHR ''<'') (Lit CHR ''>''))))))"

definition fromRegex :: regex where
  [go_eval]: "fromRegex =
     Cat (LitFold CHR ''F'') (Cat (LitFold CHR ''R'') (Cat (LitFold CHR ''O'') (Cat (LitFold CHR ''M'')
       (Cat (Lit CHR '':'') (Cat (Star (Cls is_space)) (Cat (Lit CHR ''<'')
         (Cat (Opt (Group 1 from_path)) (Cat (Lit CHR ''>'') (Cat (Opt (Group 2 from_params)) EndText)))))))))"

definition commands :: "string list" where
  [go_eval]: "commands = [''HELO'', ''EHLO'', ''MAIL'', ''RCPT'', ''DATA'', ''RSET'', ''SEND'', ''SOML'', ''SAML'',
     ''VRFY'', ''EXPN'', ''HELP'', ''NOOP'', ''QUIT'', ''TURN'', ''STARTTLS'', ''AUTH'']"

record ('hdr, 'env, 'st) Server =
  config :: smtp_config
  tlsConfig :: bool
  addrPolicy :: Addressing
  manager :: "'st StoreManager"
  enmime :: "('hdr, 'env) Enmime"
  BeforeMailFromAccepted :: "(SMTPSession, SMTPResponse) EventBroker"
  BeforeRcptToAccepted :: "(SMTPSession, SMTPResponse) EventBroker"
  clock :: "nat \<Rightarrow> int \<times> string"

record 'st Session =
  remoteDomain :: string
  remoteHost :: string
  sendError :: bool
  state :: State
  origin :: "Origin option"
  recipients :: "Recipient list"
  tlsState :: bool
  conn_in :: "inev list"
  tls_in :: "inev list"
  writes :: "bool list"
  sent :: "string list"
  store :: 'st
  emitted :: "MessageMetadata list"
  receivedTotal :: nat
  crashed :: bool

text \<open>
  \<open>NewServer\<close>: the TLS configuration is never nil; a certificate that does not load
  (\<open>cert_ok\<close>) only disables STARTTLS.
\<close>

definition smtp_NewServer :: "smtp_config \<Rightarrow> bool \<Rightarrow> 'st StoreManager \<Rightarrow> ('hdr, 'env) Enmime \<Rightarrow> Addressing
    \<Rightarrow> (SMTPSession, SMTPResponse) EventBroker \<Rightarrow> (SMTPSession, SMTPResponse) EventBroker
    \<Rightarrow> (nat \<Rightarrow> int \<times> string) \<Rightarrow> ('hdr, 'env, 'st) Server" where
  [go_eval]: "smtp_NewServer c cert_ok mg en apolicy mf rt clk =
     \<lparr>config = (if smtp_TLSEnabled c \<and> \<not> cert_ok then c\<lparr>smtp_TLSEnabled := False\<rparr> else c),
      tlsConfig = True, addrPolicy = apolicy, manager = mg, enmime = en,
      BeforeMailFromAccepted = mf, BeforeRcptToAccepted = rt, clock = clk\<rparr>"

text \<open>\<open>NewSession\<close>: \<open>input\<close> is what the connection yields, decrypted if TLS is forced.\<close>

definition NewSession :: "('hdr, 'env, 'st) Server \<Rightarrow> string \<Rightarrow> inev list \<Rightarrow> inev list \<Rightarrow> bool list \<Rightarrow> 'st \<Rightarrow> 'st Session" where
  [go_eval]: "NewSession sv host input tls ws st =
     \<lparr>remoteDomain = [], remoteHost = host, sendError = False, state = GREET, origin = None,
      recipients = [], tlsState = smtp_ForceTLS (config sv), conn_in = input, tls_in = tls,
      writes = ws, sent = [], store = st, emitted = [], receivedTotal = 0, crashed = False\<rparr>"

subsection \<open>Replies and state\<close>

text \<open>\<open>send\<close>: an error is kept, and a later success does not clear it.\<close>

definition send :: "string \<Rightarrow> 'st Session \<Rightarrow> 'st Session" where
  [go_eval]: "send msg s =
     (case writes s of
        [] \<Rightarrow> s\<lparr>sent := sent s @ [msg]\<rparr>
      | ok # rest \<Rightarrow>
          (if ok then s\<lparr>writes := rest, sent := sent s @ [msg]\<rparr> else s\<lparr>writes := rest, sendError := True\<rparr>))"

definition enterState :: "State \<Rightarrow> 'st Session \<Rightarrow> 'st Session" where
  [go_eval]: "enterState st s = s\<lparr>state := st\<rparr>"

definition reset :: "'st Session \<Rightarrow> 'st Session" where
  [go_eval]: "reset s = (enterState READY s)\<lparr>origin := None, recipients := []\<rparr>"

definition ooSeq :: "string \<Rightarrow> 'st Session \<Rightarrow> 'st Session" where
  [go_eval]: "ooSeq cmd s = send (''503 Command '' @ cmd @ '' is out of sequence'') s"

definition greet :: "('hdr, 'env, 'st) Server \<Rightarrow> 'st Session \<Rightarrow> 'st Session" where
  [go_eval]: "greet sv s = send (''220 '' @ smtp_Domain (config sv) @ '' Inbucket SMTP ready'') s"

definition extSession :: "'st Session \<Rightarrow> SMTPSession" where
  [go_eval]: "extSession s = \<lparr>ssFrom = map_option oAddress (origin s), ssTo = map rAddress (recipients s),
     ssRemoteAddr = remoteHost s\<rparr>"

text \<open>\<open>fmt.Sprintf("%03d %s", code, msg)\<close>.\<close>

definition deny_reply :: "SMTPResponse \<Rightarrow> string" where
  [go_eval]: "deny_reply r =
     (if ErrorCode r < 0 then ''-'' @ pad0 2 (Utoa (nat (- ErrorCode r))) else pad0 3 (Utoa (nat (ErrorCode r))))
       @ '' '' @ ErrorMsg r"

text \<open>
  \<open>readDataBlock\<close> and \<open>readLine\<close>: the input is a list of bytes and errors, and a deadline that
  cannot be set is an error of it.
\<close>

definition readDataBlock :: "'st Session \<Rightarrow> (rerr, string) result \<times> 'st Session" where
  [go_eval]: "readDataBlock s = (let (b, rest) = ReadDotBytes (conn_in s) in (b, s\<lparr>conn_in := rest\<rparr>))"

definition readLine :: "'st Session \<Rightarrow> (rerr, string) result \<times> 'st Session" where
  [go_eval]: "readLine s = (let (line, rest) = ReadLine (conn_in s) in (line, s\<lparr>conn_in := rest\<rparr>))"

subsection \<open>Parsing\<close>

definition parseCmd :: "string \<Rightarrow> (string \<times> string) option" where
  [go_eval]: "parseCmd line =
     (let line = TrimRight line CRLF;
          l = (case IndexByte line (CHR '' '') of Some i \<Rightarrow> i | None \<Rightarrow> length line)
      in if l = 0 then Some ([], [])
         else if l < 4 then None
         else if IndexByte line (CHR '' '') \<noteq> None
           then Some (ToUpper (take l line), Trim (drop (Suc l) line) '' '')
           else Some (ToUpper line, []))"

definition parseHelloArgument :: "string \<Rightarrow> string option" where
  [go_eval]: "parseHelloArgument arg =
     (let domain = (case IndexByte arg (CHR '' '') of Some idx \<Rightarrow> take idx arg | None \<Rightarrow> arg)
      in if domain = [] then None else Some domain)"

definition args_regex :: regex where
  [go_eval]: "args_regex =
     Cat (Lit CHR '' '') (Cat (Group 1 (Plus (Cls is_word))) (Cat (Lit CHR ''='')
       (Group 2 (Alt (Plus (Cls is_word)) (Cat (Lit CHR ''<'') (Lit CHR ''>''))))))"

text \<open>The result is the association list of the map, a later value of a key replacing an earlier.\<close>

definition parseArgs :: "string \<Rightarrow> (string \<times> string) list option" where
  [go_eval]: "parseArgs arg =
     (let pm = FindAllStringSubmatch args_regex arg
      in if pm = [] then None
         else Some (fold (\<lambda>m args. AList.update (ToUpper (submatch m 1)) (submatch m 2) args) pm []))"

definition arg_value :: "(string \<times> string) list \<Rightarrow> string \<Rightarrow> string" where
  [go_eval]: "arg_value args k = (case map_of args k of None \<Rightarrow> [] | Some v \<Rightarrow> v)"

subsection \<open>MAIL\<close>

text \<open>The parameters: \<open>Some reply\<close> is a refusal.\<close>

definition check_params :: "('hdr, 'env, 'st) Server \<Rightarrow> string \<Rightarrow> string option" where
  [go_eval]: "check_params sv params =
     (if params = [] then None
      else (case parseArgs params of
              None \<Rightarrow> Some ''501 Unable to parse MAIL ESMTP parameters''
            | Some args \<Rightarrow>
                if arg_value args ''SIZE'' = [] then None
                else (case ParseInt 32 (arg_value args ''SIZE'') of
                        None \<Rightarrow> Some ''501 Unable to parse SIZE as an integer''
                      | Some size' \<Rightarrow>
                          if size' > MaxMessageBytes (config sv) then Some ''552 Max message size exceeded''
                          else None)))"

definition parseMailFromCmd :: "('hdr, 'env, 'st) Server \<Rightarrow> string \<Rightarrow> 'st Session \<Rightarrow> 'st Session" where
  [go_eval]: "parseMailFromCmd sv arg s =
     (case match_here fromRegex arg of
        None \<Rightarrow> send ''501 Was expecting MAIL arg syntax of FROM:<address>'' s
      | Some (m, rest) \<Rightarrow>
          (case check_params sv (submatch m 2) of
             Some reply \<Rightarrow> send reply s
           | None \<Rightarrow>
               (case ParseOrigin (addrPolicy sv) (submatch m 1) of
                  Inl err \<Rightarrow> send ''501 Bad origin address syntax'' s
                | Inr org \<Rightarrow>
                    (let extResult = Emit (BeforeMailFromAccepted sv) ((extSession s)\<lparr>ssFrom := Some (oAddress org)\<rparr>);
                         extAction = (case extResult of Some r \<Rightarrow> Action r | None \<Rightarrow> ActionDefer)
                     in if extAction = ActionDeny
                        then send (case extResult of Some r \<Rightarrow> deny_reply r | None \<Rightarrow> []) s
                        else (let s = s\<lparr>origin := Some org\<rparr> in
                              if extAction = ActionDefer \<and> \<not> Origin_ShouldAccept org
                              then send ''501 Unauthorized domain'' s
                              else enterState MAIL
                                     (send (''250 Roger, accepting mail from <'' @ submatch m 1 @ ''>'') s))))))"

subsection \<open>The handlers of the states\<close>

definition greetHandler :: "('hdr, 'env, 'st) Server \<Rightarrow> string \<Rightarrow> string \<Rightarrow> 'st Session \<Rightarrow> 'st Session" where
  [go_eval]: "greetHandler sv cmd arg s =
     (let readyBanner = ''Great, let's get this show on the road'' in
      if cmd = ''HELO'' then
        (case parseHelloArgument arg of
           None \<Rightarrow> send ''501 Domain/address argument required for HELO'' s
         | Some domain \<Rightarrow>
             enterState READY (send (''250 '' @ readyBanner) (s\<lparr>remoteDomain := domain\<rparr>)))
      else if cmd = ''EHLO'' then
        (case parseHelloArgument arg of
           None \<Rightarrow> send ''501 Domain/address argument required for EHLO'' s
         | Some domain \<Rightarrow>
             (let s = s\<lparr>remoteDomain := domain\<rparr>;
                  s = send (''250-'' @ readyBanner) s;
                  s = send ''250-8BITMIME'' s;
                  s = send ''250-AUTH PLAIN LOGIN'' s;
                  s = (if smtp_TLSEnabled (config sv) \<and> \<not> smtp_ForceTLS (config sv) \<and> tlsConfig sv \<and> \<not> tlsState s
                       then send ''250-STARTTLS'' s else s);
                  s = send (''250 SIZE '' @ Itoa (MaxMessageBytes (config sv))) s
              in enterState READY s))
      else ooSeq cmd s)"

definition loginHandler :: "'st Session \<Rightarrow> 'st Session" where
  [go_eval]: "loginHandler s = enterState PASSWORD (send (''334 '' @ passwordChallenge) s)"

definition passwordHandler :: "'st Session \<Rightarrow> 'st Session" where
  [go_eval]: "passwordHandler s = enterState READY (send ''235 Authentication successful'' s)"

text \<open>
  STARTTLS replaces the reader: what the old one had buffered is lost, and the session goes on
  with the decrypted input (which begins with an error if the handshake fails).
\<close>

definition readyHandler :: "('hdr, 'env, 'st) Server \<Rightarrow> string \<Rightarrow> string \<Rightarrow> 'st Session \<Rightarrow> 'st Session" where
  [go_eval]: "readyHandler sv cmd arg s =
     (if cmd = ''STARTTLS'' then
        (if \<not> smtp_TLSEnabled (config sv) then send ''454 TLS unavailable on the server'' s
         else if tlsState s then send ''454 A TLS session already agreed upon.'' s
         else (let s = send ''220 STARTTLS'' s
               in enterState GREET (s\<lparr>conn_in := tls_in s, tls_in := [], tlsState := True\<rparr>)))
      else if cmd = ''AUTH'' then
        (let args = SplitN arg (CHR '' '') 3; authMethod = hd args in
         if authMethod = ''PLAIN'' then
           (if length args \<noteq> 2 then send ''500 Bad auth arguments'' s
            else send ''235 2.7.0 Authentication successful'' s)
         else if authMethod = ''LOGIN'' then enterState LOGIN (send (''334 '' @ usernameChallenge) s)
         else send (''500 Unsupported AUTH method: '' @ authMethod) s)
      else if cmd = ''MAIL'' then parseMailFromCmd sv arg s
      else if cmd = ''EHLO'' then send ''250 Session reset'' (reset s)
      else ooSeq cmd s)"

definition rcptCmd :: "('hdr, 'env, 'st) Server \<Rightarrow> string \<Rightarrow> 'st Session \<Rightarrow> 'st Session" where
  [go_eval]: "rcptCmd sv arg s =
     (if length arg < 4 \<or> ToUpper (take 3 arg) \<noteq> ''TO:''
      then send ''501 Was expecting RCPT arg syntax of TO:<address>'' s
      else
        (let addr = Trim (drop 3 arg) ''<> '' in
         case NewRecipient (addrPolicy sv) addr of
           Inl err \<Rightarrow> send ''501 Bad recipient address syntax'' s
         | Inr recip \<Rightarrow>
             (let ext = extSession s;
                  extResult = Emit (BeforeRcptToAccepted sv) (ext\<lparr>ssTo := ssTo ext @ [rAddress recip]\<rparr>);
                  extAction = (case extResult of Some r \<Rightarrow> Action r | None \<Rightarrow> ActionDefer)
              in if extAction = ActionDeny
                 then send (case extResult of Some r \<Rightarrow> deny_reply r | None \<Rightarrow> []) s
                 else if extAction = ActionDefer \<and> \<not> Recipient_ShouldAccept recip
                 then send ''550 Relay not permitted'' s
                 else if int (length (recipients s)) \<ge> MaxRecipients (config sv)
                 then send (''552 Limit of '' @ Itoa (MaxRecipients (config sv)) @ '' recipients exceeded'') s
                 else send (''250 I'll make sure <'' @ addr @ ''> gets this'')
                        (s\<lparr>recipients := recipients s @ [recip]\<rparr>))))"

definition mailHandler :: "('hdr, 'env, 'st) Server \<Rightarrow> string \<Rightarrow> string \<Rightarrow> 'st Session \<Rightarrow> 'st Session" where
  [go_eval]: "mailHandler sv cmd arg s =
     (if cmd = ''RCPT'' then rcptCmd sv arg s
      else if cmd = ''DATA'' then
        (if arg \<noteq> [] then send ''501 DATA command should not have any arguments'' s
         else if recipients s = [] then ooSeq cmd s
         else enterState DATA s)
      else if cmd = ''EHLO'' then send ''250 Session reset'' (reset s)
      else ooSeq cmd s)"

definition recvdHeader :: "('hdr, 'env, 'st) Server \<Rightarrow> 'st Session \<Rightarrow> string" where
  [go_eval]: "recvdHeader sv s = ''Received: from '' @ remoteDomain s @ '' (['' @ remoteHost s @ '']) by ''
     @ smtp_Domain (config sv) @ CRLF"

definition dataHandler :: "('hdr, 'env, 'st) Server \<Rightarrow> 'st Session \<Rightarrow> 'st Session" where
  [go_eval]: "dataHandler sv s =
     (let s = send ''354 Start mail input; end with <CRLF>.<CRLF>'' s;
          (msgBuf, s) = readDataBlock s
      in case msgBuf of
           Inl err \<Rightarrow> enterState QUIT (if err = ReadTimeout then send ''221 Idle timeout, bye bye'' s else s)
         | Inr mailData \<Rightarrow>
             (case origin s of
                None \<Rightarrow> s\<lparr>crashed := True\<rparr>
              | Some org \<Rightarrow>
                  (let (now, tstamp) = clock sv (length (sent s));
                       (err, st, evs) = Deliver (enmime sv) (manager sv) now tstamp org (recipients s)
                                          (recvdHeader sv s) mailData (store s);
                       s = s\<lparr>store := st, emitted := emitted s @ evs\<rparr>
                   in if err \<noteq> None then reset (send ''451 Failed to store message'' s)
                      else reset (send ''250 Mail accepted for delivery''
                                   (s\<lparr>receivedTotal := receivedTotal s + length (recipients s)\<rparr>)))))"

subsection \<open>The session loop\<close>

text \<open>What the loop does with a command line that was read; \<open>False\<close> is a \<open>break\<close>.\<close>

definition command :: "('hdr, 'env, 'st) Server \<Rightarrow> string \<Rightarrow> 'st Session \<Rightarrow> 'st Session \<times> bool" where
  [go_eval]: "command sv line s =
     (case parseCmd line of
        None \<Rightarrow> (send ''500 Syntax error, command garbled'' s, True)
      | Some (cmd, arg) \<Rightarrow>
          if cmd = [] then (send ''500 Speak up'' s, True)
          else if cmd \<notin> set commands
          then (send (''500 Syntax error, '' @ cmd @ '' command unrecognized'') s, True)
          else if cmd \<in> set [''SEND'', ''SOML'', ''SAML'', ''EXPN'', ''HELP'', ''TURN'']
          then (send (''502 '' @ cmd @ '' command not implemented'') s, True)
          else if cmd = ''VRFY'' then (send ''252 Cannot VRFY user, but will accept message'' s, True)
          else if cmd = ''NOOP'' then (send ''250 I have successfully done nothing'' s, True)
          else if cmd = ''RSET'' then (send ''250 Session reset'' (reset s), True)
          else if cmd = ''QUIT'' then (enterState QUIT (send ''221 Goodnight and good luck'' s), True)
          else (case state s of
                  GREET \<Rightarrow> (greetHandler sv cmd arg s, True)
                | READY \<Rightarrow> (readyHandler sv cmd arg s, True)
                | MAIL \<Rightarrow> (mailHandler sv cmd arg s, True)
                | _ \<Rightarrow> (s, False)))"

definition body :: "('hdr, 'env, 'st) Server \<Rightarrow> 'st Session \<Rightarrow> 'st Session \<times> bool" where
  [go_eval]: "body sv s =
     (if state s = DATA then (dataHandler sv s, True)
      else
        (let (line, s) = readLine s in
         case line of
           Inr line \<Rightarrow>
             (if state s = LOGIN then (loginHandler s, True)
              else if state s = PASSWORD then (passwordHandler s, True)
              else command sv line s)
         | Inl err \<Rightarrow>
             (if err = ReadEOF then (s, False)
              else if err = ReadTimeout then (send ''221 Idle timeout, bye bye'' s, False)
              else (send ''221 Connection error, sorry'' s, False))))"

end
