(* ===== verification/SmtpLoop.thy ===== *)
theory SmtpLoop
  imports Smtp
begin

text \<open>
  The loop of \<open>startSession\<close>, which ends on every input, and the invariant of the session's state
  machine over the states the loop passes through.
\<close>

subsection \<open>What the handlers leave alone\<close>

lemma send_fields [simp]:
  "state (send m s) = state s" "origin (send m s) = origin s" "recipients (send m s) = recipients s"
  "conn_in (send m s) = conn_in s" "tls_in (send m s) = tls_in s" "tlsState (send m s) = tlsState s"
  "store (send m s) = store s" "emitted (send m s) = emitted s" "crashed (send m s) = crashed s"
  "remoteDomain (send m s) = remoteDomain s" "remoteHost (send m s) = remoteHost s"
  "receivedTotal (send m s) = receivedTotal s"
  by (auto simp: send_def split: list.split)

lemma send_update [simp]:
  "send m (s\<lparr>conn_in := x\<rparr>) = (send m s)\<lparr>conn_in := x\<rparr>"
  by (auto simp: send_def split: list.split)

lemma enterState_fields [simp]:
  "state (enterState st s) = st" "origin (enterState st s) = origin s" "recipients (enterState st s) = recipients s"
  "conn_in (enterState st s) = conn_in s" "tls_in (enterState st s) = tls_in s" "crashed (enterState st s) = crashed s"
  "store (enterState st s) = store s" "emitted (enterState st s) = emitted s" "tlsState (enterState st s) = tlsState s"
  "sent (enterState st s) = sent s" "sendError (enterState st s) = sendError s"
  "remoteDomain (enterState st s) = remoteDomain s" "remoteHost (enterState st s) = remoteHost s"
  "writes (enterState st s) = writes s"
  by (simp_all add: enterState_def)

lemma reset_fields [simp]:
  "state (reset s) = READY" "origin (reset s) = None" "recipients (reset s) = []" "sent (reset s) = sent s"
  "conn_in (reset s) = conn_in s" "tls_in (reset s) = tls_in s" "crashed (reset s) = crashed s"
  "store (reset s) = store s" "emitted (reset s) = emitted s" "tlsState (reset s) = tlsState s"
  "sendError (reset s) = sendError s" "writes (reset s) = writes s"
  "remoteDomain (reset s) = remoteDomain s" "remoteHost (reset s) = remoteHost s"
  by (simp_all add: reset_def)

lemmas handler_defs = greetHandler_def loginHandler_def passwordHandler_def readyHandler_def mailHandler_def
  rcptCmd_def parseMailFromCmd_def ooSeq_def

lemma parseMailFromCmd_input [simp]:
  "conn_in (parseMailFromCmd sv arg s) = conn_in s" "tls_in (parseMailFromCmd sv arg s) = tls_in s"
  by (auto simp: parseMailFromCmd_def Let_def split: option.split sum.split prod.split)

lemma rcptCmd_input [simp]: "conn_in (rcptCmd sv arg s) = conn_in s" "tls_in (rcptCmd sv arg s) = tls_in s"
  by (auto simp: rcptCmd_def Let_def split: sum.split)

lemma greetHandler_input [simp]:
  "conn_in (greetHandler sv cmd arg s) = conn_in s" "tls_in (greetHandler sv cmd arg s) = tls_in s"
  by (auto simp: greetHandler_def ooSeq_def Let_def split: option.split)

lemma mailHandler_input [simp]:
  "conn_in (mailHandler sv cmd arg s) = conn_in s" "tls_in (mailHandler sv cmd arg s) = tls_in s"
  by (auto simp: mailHandler_def ooSeq_def)

lemma readyHandler_input:
  "length (conn_in (readyHandler sv cmd arg s)) + length (tls_in (readyHandler sv cmd arg s))
     \<le> length (conn_in s) + length (tls_in s)"
  by (auto simp: readyHandler_def ooSeq_def Let_def)

lemma command_input:
  assumes "command sv line s = (s', cont)"
  shows "length (conn_in s') + length (tls_in s') \<le> length (conn_in s) + length (tls_in s)"
proof (cases "parseCmd line")
  case None
  with assms show ?thesis by (auto simp: command_def)
next
  case (Some p)
  obtain cmd arg where p: "p = (cmd, arg)" by fastforce
  show ?thesis
    using assms readyHandler_input [of sv cmd arg s]
    unfolding command_def Some p option.case prod.case
    by (cases "state s") (auto split: if_splits)
qed

subsection \<open>The loop\<close>

definition session_measure :: "'st Session \<Rightarrow> nat" where
  "session_measure s = length (conn_in s) + length (tls_in s) + (if state s = QUIT then 0 else 1)"

lemma dataHandler_input:
  assumes "state s = DATA"
  shows "session_measure (dataHandler sv s) < session_measure s"
proof -
  let ?r = "ReadDotBytes (conn_in s)"
  let ?s = "send ''354 Start mail input; end with <CRLF>.<CRLF>'' s"
  have len: "length (snd ?r) \<le> length (conn_in s)" "conn_in s \<noteq> [] \<Longrightarrow> length (snd ?r) < length (conn_in s)"
    using dot_loop_length [of StBeginLine "conn_in s"] by (auto simp: ReadDotBytes_def)
  show ?thesis
  proof (cases "fst ?r")
    case (Inl e)
    then show ?thesis using len(1) assms
      by (auto simp: dataHandler_def readDataBlock_def Let_def case_prod_beta session_measure_def)
  next
    case (Inr d)
    then have "conn_in s \<noteq> []" by (auto simp: ReadDotBytes_def)
    then have "length (snd ?r) < length (conn_in s)" by (rule len(2))
    then show ?thesis using assms Inr
      by (auto simp: dataHandler_def readDataBlock_def Let_def case_prod_beta session_measure_def split: option.split)
  qed
qed

lemma body_decreases:
  assumes "body sv s = (s', True)" and "state s \<noteq> QUIT"
  shows "session_measure s' < session_measure s"
proof (cases "state s = DATA")
  case True
  with assms dataHandler_input [OF True, of sv] show ?thesis by (auto simp: body_def readLine_def)
next
  case False
  obtain r rest where r: "ReadLine (conn_in s) = (r, rest)" by fastforce
  show ?thesis
  proof (cases r)
    case (Inl e)
    with assms(1) False r show ?thesis by (auto simp: body_def readLine_def Let_def split: if_splits)
  next
    case (Inr line)
    with r have "conn_in s \<noteq> []" by auto
    with ReadLine_length [OF r] have len: "length rest < length (conn_in s)" by simp
    let ?s = "s\<lparr>conn_in := rest\<rparr>"
    have "length (conn_in s') + length (tls_in s') \<le> length rest + length (tls_in s)"
    proof (cases "state s = LOGIN \<or> state s = PASSWORD")
      case True
      with assms(1) False r Inr show ?thesis
        by (auto simp: body_def readLine_def loginHandler_def passwordHandler_def)
    next
      case False
      with assms(1) \<open>state s \<noteq> DATA\<close> r Inr have "command sv line ?s = (s', True)"
        by (simp add: body_def readLine_def)
      from command_input [OF this] show ?thesis by simp
    qed
    with len assms(2) show ?thesis by (auto simp: session_measure_def)
  qed
qed

function smtp_loop :: "('hdr, 'env, 'st) Server \<Rightarrow> 'st Session \<Rightarrow> 'st Session" where
  "smtp_loop sv s =
     (if state s = QUIT \<or> sendError s then s
      else (case body sv s of (s', cont) \<Rightarrow> if cont then smtp_loop sv s' else s'))"
  by auto

termination
  by (relation "measure (\<lambda>(sv, s). session_measure s)") (auto dest!: sym [of _ "body _ _"] body_decreases)

declare smtp_loop.simps [simp del]

definition startSession :: "('hdr, 'env, 'st) Server \<Rightarrow> string \<Rightarrow> inev list \<Rightarrow> inev list \<Rightarrow> bool list \<Rightarrow> 'st \<Rightarrow> 'st Session" where
  "startSession sv host input tls ws st = smtp_loop sv (greet sv (NewSession sv host input tls ws st))"

text \<open>The sessions the loop passes through, its last one included.\<close>

inductive smtp_reach :: "('hdr, 'env, 'st) Server \<Rightarrow> 'st Session \<Rightarrow> 'st Session \<Rightarrow> bool" for sv s0 where
  reach_start: "smtp_reach sv s0 s0"
| reach_step: "smtp_reach sv s0 s \<Longrightarrow> state s \<noteq> QUIT \<Longrightarrow> \<not> sendError s \<Longrightarrow> body sv s = (s', cont)
    \<Longrightarrow> smtp_reach sv s0 s'"

lemma smtp_reach_trans: "smtp_reach sv s1 s2 \<Longrightarrow> smtp_reach sv s0 s1 \<Longrightarrow> smtp_reach sv s0 s2"
  by (induction rule: smtp_reach.induct) (auto intro: smtp_reach.intros)

lemma smtp_loop_reach: "smtp_reach sv s (smtp_loop sv s)"
proof (induction sv s rule: smtp_loop.induct)
  case (1 sv s)
  show ?case
  proof (cases "state s = QUIT \<or> sendError s")
    case True
    then show ?thesis by (subst smtp_loop.simps) (simp add: reach_start)
  next
    case False
    obtain s' cont where b: "body sv s = (s', cont)" by fastforce
    have step: "smtp_reach sv s s'" using False by (intro reach_step [OF reach_start _ _ b]) auto
    show ?thesis
    proof (cases cont)
      case True
      with False b have "smtp_reach sv s' (smtp_loop sv s')" using 1 by auto
      from smtp_reach_trans [OF this step] show ?thesis
        using True False b by (subst smtp_loop.simps) simp
    next
      case False
      with \<open>\<not> (state s = QUIT \<or> sendError s)\<close> b step show ?thesis by (subst smtp_loop.simps) simp
    qed
  qed
qed

text \<open>The session is over in the end: quit, failed to write, or stopped by a failing read.\<close>

lemma smtp_loop_over:
  "state (smtp_loop sv s) = QUIT \<or> sendError (smtp_loop sv s)
    \<or> (\<exists>s1. smtp_reach sv s s1 \<and> state s1 \<noteq> QUIT \<and> body sv s1 = (smtp_loop sv s, False))"
proof (induction sv s rule: smtp_loop.induct)
  case (1 sv s)
  show ?case
  proof (cases "state s = QUIT \<or> sendError s")
    case True
    then show ?thesis by (subst (1 2) smtp_loop.simps) auto
  next
    case False
    obtain s' cont where b: "body sv s = (s', cont)" by fastforce
    have step: "smtp_reach sv s s'" using False by (intro reach_step [OF reach_start _ _ b]) auto
    show ?thesis
    proof (cases cont)
      case True
      with False b have l: "smtp_loop sv s = smtp_loop sv s'" by (subst smtp_loop.simps) simp
      from 1 [OF False b [symmetric] True] show ?thesis
        unfolding l using smtp_reach_trans [OF _ step] by blast
    next
      case c: False
      with False b have l: "smtp_loop sv s = s'" by (subst smtp_loop.simps) simp
      with b c show ?thesis using reach_start [of sv s] \<open>\<not> (state s = QUIT \<or> sendError s)\<close> by auto
    qed
  qed
qed

end
