(* ===== verification/SmtpProps.thy ===== *)
theory SmtpProps
  imports SmtpLoop
begin

text \<open>The properties of an SMTP session.\<close>

subsection \<open>The state machine\<close>

text \<open>
  An accepted sender or recipient: the policy accepts its domain, or an extension answered the
  event with an action that is neither a deferral nor a denial.
\<close>

definition overridden :: "(SMTPSession, SMTPResponse) EventBroker \<Rightarrow> bool" where
  "overridden eb \<longleftrightarrow> (\<exists>ev r. Emit eb ev = Some r \<and> Action r \<noteq> ActionDefer \<and> Action r \<noteq> ActionDeny)"

definition sender_ok :: "('hdr, 'env, 'st) Server \<Rightarrow> Origin \<Rightarrow> bool" where
  "sender_ok sv org \<longleftrightarrow> (\<exists>a. ParseOrigin (addrPolicy sv) a = Ok org)
     \<and> (Origin_ShouldAccept org \<or> overridden (BeforeMailFromAccepted sv))"

definition recipient_ok :: "('hdr, 'env, 'st) Server \<Rightarrow> Recipient \<Rightarrow> bool" where
  "recipient_ok sv r \<longleftrightarrow> (\<exists>a. NewRecipient (addrPolicy sv) a = Ok r)
     \<and> (Recipient_ShouldAccept r \<or> overridden (BeforeRcptToAccepted sv))"

definition smtp_inv :: "('hdr, 'env, 'st) Server \<Rightarrow> 'st Session \<Rightarrow> bool" where
  "smtp_inv sv s \<longleftrightarrow>
     (state s \<in> {MAIL, DATA} \<longrightarrow> (\<exists>org. origin s = Some org \<and> sender_ok sv org)) \<and>
     (state s = DATA \<longrightarrow> recipients s \<noteq> []) \<and>
     (state s \<in> {GREET, READY, LOGIN, PASSWORD} \<longrightarrow> recipients s = []) \<and>
     (\<forall>r\<in>set (recipients s). recipient_ok sv r) \<and>
     (recipients s \<noteq> [] \<longrightarrow> int (length (recipients s)) \<le> MaxRecipients (config sv)) \<and>
     \<not> crashed s"

lemma smtp_inv_send [simp]: "smtp_inv sv (send m s) = smtp_inv sv s"
  by (simp add: smtp_inv_def)

lemma smtp_inv_input [simp]: "smtp_inv sv (s\<lparr>conn_in := x\<rparr>) = smtp_inv sv s"
  by (simp add: smtp_inv_def)

lemma smtp_inv_reset: "smtp_inv sv s \<Longrightarrow> smtp_inv sv (reset s)"
  by (simp add: smtp_inv_def)

lemma parseMailFromCmd_inv:
  assumes "smtp_inv sv s" and "state s = READY"
  shows "smtp_inv sv (parseMailFromCmd sv arg s)"
proof (cases "match_here fromRegex arg")
  case None
  with assms show ?thesis by (simp add: parseMailFromCmd_def)
next
  case (Some mr)
  obtain m rest where mr: "mr = (m, rest)" by fastforce
  show ?thesis
  proof (cases "check_params sv (submatch m 2)")
    case None
    show ?thesis
    proof (cases "ParseOrigin (addrPolicy sv) (submatch m 1)")
      case (Inl e)
      with Some mr None assms show ?thesis by (simp add: parseMailFromCmd_def)
    next
      case (Inr org)
      let ?ev = "(extSession s)\<lparr>ssFrom := Some (oAddress org)\<rparr>"
      have ok: "sender_ok sv org"
        if "case Emit (BeforeMailFromAccepted sv) ?ev of None \<Rightarrow> Origin_ShouldAccept org
            | Some r \<Rightarrow> Action r \<noteq> ActionDeny \<and> (Action r = ActionDefer \<longrightarrow> Origin_ShouldAccept org)"
        using that Inr by (auto simp: sender_ok_def overridden_def split: option.splits)
      from Some mr None Inr assms ok show ?thesis
        by (cases "Emit (BeforeMailFromAccepted sv) ?ev")
           (auto simp: parseMailFromCmd_def Let_def smtp_inv_def ActionDefer_def ActionDeny_def)
    qed
  next
    case (Some reply)
    with \<open>match_here fromRegex arg = Some mr\<close> mr assms show ?thesis by (simp add: parseMailFromCmd_def)
  qed
qed

lemma rcptCmd_inv:
  assumes "smtp_inv sv s" and "state s = MAIL"
  shows "smtp_inv sv (rcptCmd sv arg s)"
proof (cases "length arg < 4 \<or> ToUpper (take 3 arg) \<noteq> ''TO:''")
  case True
  with assms show ?thesis by (simp add: rcptCmd_def)
next
  case False
  let ?addr = "Trim (drop 3 arg) ''<> ''"
  show ?thesis
  proof (cases "NewRecipient (addrPolicy sv) ?addr")
    case (Inl e)
    with False assms show ?thesis by (simp add: rcptCmd_def)
  next
    case (Inr r)
    let ?ev = "(extSession s)\<lparr>ssTo := ssTo (extSession s) @ [rAddress r]\<rparr>"
    let ?act = "case Emit (BeforeRcptToAccepted sv) ?ev of Some r \<Rightarrow> Action r | None \<Rightarrow> ActionDefer"
    have ok: "recipient_ok sv r" if "?act \<noteq> ActionDeny" "?act = ActionDefer \<longrightarrow> Recipient_ShouldAccept r"
      using that Inr by (auto simp: recipient_ok_def overridden_def split: option.splits)
    show ?thesis
    proof (cases "?act = ActionDeny \<or> ?act = ActionDefer \<and> \<not> Recipient_ShouldAccept r
        \<or> MaxRecipients (config sv) \<le> int (length (recipients s))")
      case True
      with False Inr assms show ?thesis by (auto simp: rcptCmd_def Let_def)
    next
      case accepted: False
      then have "rcptCmd sv arg s = send (''250 I'll make sure <'' @ ?addr @ ''> gets this'')
          (s\<lparr>recipients := recipients s @ [r]\<rparr>)"
        using False Inr by (auto simp: rcptCmd_def Let_def)
      with assms accepted ok show ?thesis by (simp add: smtp_inv_def)
    qed
  qed
qed

lemma greetHandler_inv: "smtp_inv sv s \<Longrightarrow> state s = GREET \<Longrightarrow> smtp_inv sv (greetHandler sv cmd arg s)"
  by (auto simp: greetHandler_def ooSeq_def Let_def smtp_inv_def split: option.split)

lemma smtp_inv_if: "smtp_inv sv (if b then x else y) = (if b then smtp_inv sv x else smtp_inv sv y)"
  by simp

lemma readyHandler_inv:
  assumes "smtp_inv sv s" and "state s = READY"
  shows "smtp_inv sv (readyHandler sv cmd arg s)"
proof -
  have "smtp_inv sv (enterState LOGIN (send m s))" for m
    using assms by (simp add: smtp_inv_def)
  moreover have "smtp_inv sv (enterState GREET ((send m s)\<lparr>conn_in := x, tls_in := y, tlsState := z\<rparr>))" for m x y z
    using assms by (simp add: smtp_inv_def)
  ultimately show ?thesis
    using assms(1) smtp_inv_reset [OF assms(1)] parseMailFromCmd_inv [OF assms, of arg]
    by (simp add: readyHandler_def ooSeq_def Let_def smtp_inv_if)
qed

lemma mailHandler_inv:
  assumes "smtp_inv sv s" and "state s = MAIL"
  shows "smtp_inv sv (mailHandler sv cmd arg s)"
proof -
  have "recipients s \<noteq> [] \<Longrightarrow> smtp_inv sv (enterState DATA s)"
    using assms by (auto simp: smtp_inv_def)
  then show ?thesis
    using assms(1) smtp_inv_reset [OF assms(1)] rcptCmd_inv [OF assms, of arg]
    by (simp add: mailHandler_def ooSeq_def smtp_inv_if)
qed

lemma command_inv:
  assumes "smtp_inv sv s" and "command sv line s = (s', cont)"
  shows "smtp_inv sv s'"
proof (cases "parseCmd line")
  case None
  with assms show ?thesis by (auto simp: command_def)
next
  case (Some p)
  obtain cmd arg where p: "p = (cmd, arg)" by fastforce
  have "smtp_inv sv (enterState QUIT (send m s))" for m
    using assms(1) by (auto simp: smtp_inv_def)
  then show ?thesis
    using assms smtp_inv_reset [OF assms(1)] greetHandler_inv [of sv s cmd arg]
      readyHandler_inv [of sv s cmd arg] mailHandler_inv [of sv s cmd arg]
    unfolding command_def Some p option.case prod.case
    by (cases "state s") (auto split: if_splits)
qed

lemma dataHandler_inv:
  assumes "smtp_inv sv s" and "state s = DATA"
  shows "smtp_inv sv (dataHandler sv s)"
proof -
  obtain org where "origin s = Some org" using assms by (auto simp: smtp_inv_def)
  with assms show ?thesis
    by (auto simp: dataHandler_def readDataBlock_def Let_def case_prod_beta smtp_inv_def split: sum.split)
qed

lemma body_inv:
  assumes "smtp_inv sv s" and "body sv s = (s', cont)"
  shows "smtp_inv sv s'"
proof (cases "state s = DATA")
  case True
  with assms dataHandler_inv [OF assms(1) True] show ?thesis by (simp add: body_def readLine_def)
next
  case False
  obtain r rest where r: "ReadLine (conn_in s) = (r, rest)" by fastforce
  let ?s = "s\<lparr>conn_in := rest\<rparr>"
  show ?thesis
  proof (cases r)
    case (Inl e)
    with assms False r show ?thesis by (auto simp: body_def readLine_def Let_def split: if_splits)
  next
    case (Inr line)
    consider "state s = LOGIN" | "state s = PASSWORD" | "command sv line ?s = (s', cont)"
      using assms(2) False r Inr by (auto simp: body_def readLine_def Let_def split: if_splits)
    then show ?thesis
    proof cases
      case 1
      with assms False r Inr show ?thesis by (auto simp: body_def readLine_def loginHandler_def smtp_inv_def)
    next
      case 2
      with assms False r Inr show ?thesis by (auto simp: body_def readLine_def passwordHandler_def smtp_inv_def)
    next
      case 3
      show ?thesis by (rule command_inv [OF _ 3]) (simp add: assms(1))
    qed
  qed
qed

lemma smtp_reach_inv: "smtp_reach sv s0 s \<Longrightarrow> smtp_inv sv s0 \<Longrightarrow> smtp_inv sv s"
  by (induction rule: smtp_reach.induct) (auto intro: body_inv)

lemma start_inv: "smtp_inv sv (greet sv (NewSession sv host input tls ws st))"
  by (simp add: greet_def NewSession_def smtp_inv_def)

text \<open>
  C6: whatever a client sends, in every state of a session: while mail is accepted or read there
  is a sender, parsed and accepted by the policy or by an extension; every recipient has been
  parsed and accepted likewise; there are never more recipients than configured, none outside a
  transaction and at least one while data is read; and the session never dereferences nil.
\<close>
theorem smtp_session_invariant:
  assumes "smtp_reach sv (greet sv (NewSession sv host input tls ws st)) s"
  shows "(state s = MAIL \<or> state s = DATA \<longrightarrow> (\<exists>org. origin s = Some org \<and> sender_ok sv org))
    \<and> (\<forall>r\<in>set (recipients s). recipient_ok sv r)
    \<and> int (length (recipients s)) \<le> max 0 (MaxRecipients (config sv))
    \<and> (state s = DATA \<longrightarrow> recipients s \<noteq> [])
    \<and> (state s \<in> {GREET, READY, LOGIN, PASSWORD} \<longrightarrow> recipients s = []) \<and> \<not> crashed s"
  using smtp_reach_inv [OF assms start_inv] by (cases "recipients s = []") (auto simp: smtp_inv_def)

text \<open>A server over the memory store for the examples, and a client that sends lines.\<close>

definition example_server :: "bool \<Rightarrow> (unit, unit, mem_store) Server" where
  [go_eval]: "example_server tls = \<lparr>config = (SMTP example_root)\<lparr>smtp_TLSEnabled := tls\<rparr>, tlsConfig = True,
     addrPolicy = \<lparr>aConfig = example_root\<rparr>, manager = example_mg, enmime = example_enmime,
     BeforeMailFromAccepted = empty_broker, BeforeRcptToAccepted = empty_broker, clock = (\<lambda>n. (5, ''t''))\<rparr>"

definition client :: "string list \<Rightarrow> inev list" where
  [go_eval]: "client ls = concat (map sent_line ls)"

theorem smtp_session_invariant_witness:
  "\<not> crashed (startSession (example_server False) ''h'' (client [''HELO x'', ''MAIL FROM:<a@b>'', ''DATA'']) [] []
      (the (mem_New 0 None)))"
  using smtp_session_invariant [OF smtp_loop_reach, of "example_server False" "''h''"
      "client [''HELO x'', ''MAIL FROM:<a@b>'', ''DATA'']" "[]" "[]" "the (mem_New 0 None)"]
  unfolding startSession_def by (elim conjE)

subsection \<open>The end of a session\<close>

lemma body_stops:
  assumes "body sv s = (s', False)" and "state s \<noteq> QUIT"
  shows "\<exists>e rest. ReadLine (conn_in s) = (Err e, rest)"
proof -
  obtain r rest where r: "ReadLine (conn_in s) = (r, rest)" by fastforce
  show ?thesis
  proof (cases r)
    case (Inl e)
    with r show ?thesis by simp
  next
    case (Inr line)
    let ?s = "s\<lparr>conn_in := rest\<rparr>"
    have "state s \<noteq> DATA" "state s \<noteq> LOGIN" "state s \<noteq> PASSWORD" and c: "command sv line ?s = (s', False)"
      using assms(1) r Inr by (auto simp: body_def readLine_def Let_def split: if_splits)
    then have "state s = GREET \<or> state s = READY \<or> state s = MAIL" using assms(2) by (cases "state s") auto
    then have "snd (command sv line ?s)"
      by (auto simp: command_def split: option.split prod.split)
    with c show ?thesis by simp
  qed
qed


subsection \<open>STARTTLS\<close>


definition example_ready :: "inev list \<Rightarrow> inev list \<Rightarrow> mem_store Session" where
  [go_eval]: "example_ready input tls =
     (NewSession (example_server True) ''h'' input tls [] (the (mem_New 0 None)))\<lparr>state := READY\<rparr>"


subsection \<open>MAIL\<close>

lemma Cls_Some: "match_re n (Cls P) k c s = Some x \<Longrightarrow> \<exists>a t. s = a # t \<and> P a \<and> k c t = Some x"
  by (cases s) (auto split: if_splits)

lemma Cat_Cls_Some:
  "match_re n (Cat (Cls P) r) k c s = Some x \<Longrightarrow> \<exists>a t. s = a # t \<and> P a \<and> match_re n r k c t = Some x"
  by (cases s) (auto split: if_splits)

lemma words_star_class: "u \<in> words (Star (Cls P)) \<Longrightarrow> list_all P u"
proof -
  have "set us \<subseteq> {[c] | c. P c} \<Longrightarrow> list_all P (concat us)" for us by (induction us) auto
  then show "u \<in> words (Star (Cls P)) \<Longrightarrow> list_all P u" by auto
qed

lemma from_params_words: "u \<in> words from_params \<Longrightarrow> hd u = CHR '' ''"
  by (auto simp: from_params_def Lit_def)

lemma from_groups: "groups from_path = {}" "groups from_params = {3}"
  by (simp_all add: from_path_def from_params_def Lit_def)

lemma upper_letter: "upper_char a = upper_char b \<Longrightarrow> is_upper b \<Longrightarrow> upper_char a = b"
  by (simp add: upper_char_def is_lower_def is_upper_def)

text \<open>
  An argument of MAIL that the pattern accepts has the form FROM:, white space, the path in
  angle brackets and nothing but the parameters after it, which are empty or begin with a space;
  the two groups are the path and the parameters.
\<close>
theorem fromRegex_sound:
  assumes "match_here fromRegex arg = Some (m, rest)"
  shows "\<exists>f ws. arg = f @ '':'' @ ws @ ''<'' @ submatch m 1 @ ''>'' @ submatch m 2 \<and> ToUpper f = ''FROM''
    \<and> list_all is_space ws \<and> (submatch m 2 = [] \<or> hd (submatch m 2) = CHR '' '') \<and> rest = []"
proof -
  let ?n = "Suc (length arg)" and ?K = "\<lambda>c s'. Some (c, s') :: (caps \<times> string) option"
  have M: "match_re ?n fromRegex ?K [] arg = Some (m, rest)"
    using assms by (simp add: match_here_def)
  let ?R9 = "Cat (Opt (Group 2 from_params)) EndText"
  let ?R8 = "Cat (Cls (\<lambda>c. c = CHR ''>'')) ?R9"
  let ?R7 = "Cat (Opt (Group 1 from_path)) ?R8"
  let ?R6 = "Cat (Cls (\<lambda>c. c = CHR ''<'')) ?R7"
  let ?R5 = "Cat (Star (Cls is_space)) ?R6"
  let ?R4 = "Cat (Cls (\<lambda>c. c = CHR '':'')) ?R5"
  let ?R3 = "Cat (Cls (\<lambda>c. upper_char c = upper_char CHR ''M'')) ?R4"
  let ?R2 = "Cat (Cls (\<lambda>c. upper_char c = upper_char CHR ''O'')) ?R3"
  let ?R1 = "Cat (Cls (\<lambda>c. upper_char c = upper_char CHR ''R'')) ?R2"
  from M [unfolded fromRegex_def LitFold_def Lit_def, THEN Cat_Cls_Some] obtain a1 t1 where
    a1: "arg = a1 # t1" "upper_char a1 = upper_char CHR ''F''" and M1: "match_re ?n ?R1 ?K [] t1 = Some (m, rest)" by blast
  from M1 [THEN Cat_Cls_Some] obtain a2 t2 where
    a2: "t1 = a2 # t2" "upper_char a2 = upper_char CHR ''R''" and M2: "match_re ?n ?R2 ?K [] t2 = Some (m, rest)" by blast
  from M2 [THEN Cat_Cls_Some] obtain a3 t3 where
    a3: "t2 = a3 # t3" "upper_char a3 = upper_char CHR ''O''" and M3: "match_re ?n ?R3 ?K [] t3 = Some (m, rest)" by blast
  from M3 [THEN Cat_Cls_Some] obtain a4 t4 where
    a4: "t3 = a4 # t4" "upper_char a4 = upper_char CHR ''M''" and M4: "match_re ?n ?R4 ?K [] t4 = Some (m, rest)" by blast
  from M4 [THEN Cat_Cls_Some] obtain t5 where
    a5: "t4 = CHR '':'' # t5" and M5: "match_re ?n ?R5 ?K [] t5 = Some (m, rest)" by blast
  from M5 have "match_re ?n (Star (Cls is_space)) (match_re ?n ?R6 ?K) [] t5 = Some (m, rest)" by simp
  from match_re_sound [OF this] obtain ws v c1 where
    ws: "t5 = ws @ v" "ws \<in> words (Star (Cls is_space))" "\<forall>i. map_of c1 i = None"
    and M6: "match_re ?n ?R6 ?K c1 v = Some (m, rest)" by auto
  from M6 [THEN Cat_Cls_Some] obtain t6 where
    a6: "v = CHR ''<'' # t6" and M7: "match_re ?n ?R7 ?K c1 t6 = Some (m, rest)" by blast
  from M7 have "match_re ?n (Opt (Group 1 from_path)) (match_re ?n ?R8 ?K) c1 t6 = Some (m, rest)" by simp
  from match_re_opt_group [OF this] ws(3) obtain u1 v1 c2 where
    u1: "t6 = u1 @ v1" "submatch c2 1 = u1" "\<forall>j. j \<noteq> 1 \<longrightarrow> map_of c2 j = None"
    and M8: "match_re ?n ?R8 ?K c2 v1 = Some (m, rest)" unfolding from_groups by auto
  from M8 [THEN Cat_Cls_Some] obtain t7 where
    a7: "v1 = CHR ''>'' # t7" and M9: "match_re ?n ?R9 ?K c2 t7 = Some (m, rest)" by blast
  from M9 have "match_re ?n (Opt (Group 2 from_params)) (match_re ?n EndText ?K) c2 t7 = Some (m, rest)" by simp
  from match_re_opt_group [OF this] u1(3) obtain u2 v2 c3 where
    u2: "t7 = u2 @ v2" "u2 \<in> words from_params \<or> u2 = []" "submatch c3 2 = u2"
    "\<forall>j. j \<noteq> 2 \<longrightarrow> j \<noteq> 3 \<longrightarrow> map_of c3 j = map_of c2 j"
    and M10: "match_re ?n EndText ?K c3 v2 = Some (m, rest)" unfolding from_groups by auto
  from M10 have fin: "v2 = []" "m = c3" "rest = []" by (auto split: if_splits)
  have "submatch m 1 = u1" "submatch m 2 = u2" using u1(2) u2(3,4) fin(2) by (simp_all add: submatch_def)
  moreover have "ToUpper [a1, a2, a3, a4] = ''FROM''"
    using a1(2) a2(2) a3(2) a4(2) by (simp add: go_eval)
  moreover have "u2 = [] \<or> hd u2 = CHR '' ''" using u2(2) from_params_words by blast
  ultimately show ?thesis
    using a1(1) a2(1) a3(1) a4(1) a5 ws(1) a6 u1(1) a7 u2(1) fin words_star_class [OF ws(2)]
    by (intro exI [of _ "[a1, a2, a3, a4]"] exI [of _ ws]) simp
qed

text \<open>What the pattern captures of a plain path (no angle bracket, no backslash) and plain parameters.\<close>

definition plain_path :: "string \<Rightarrow> bool" where
  [go_eval]: "plain_path a \<longleftrightarrow> list_all (\<lambda>c. c \<noteq> CHR ''>'' \<and> c \<noteq> BSLASH) a"

definition plain_params :: "string \<Rightarrow> bool" where
  [go_eval]: "plain_params p \<longleftrightarrow> p = [] \<or> (hd p = CHR '' '' \<and> tl p \<noteq> []
     \<and> list_all (\<lambda>c. is_word c \<or> c = CHR ''='' \<or> c = CHR '' '') (tl p))"

lemma from_path_run:
  fixes k :: "caps \<Rightarrow> string \<Rightarrow> 'a option"
  assumes "plain_path a" and "a \<noteq> []" and "length a \<le> n" and "k c (CHR ''>'' # t) = Some x"
  shows "match_re n from_path k c (a @ CHR ''>'' # t) = Some x"
proof -
  let ?A = "Alt (Cat (Lit BSLASH) (Lit CHR ''>'')) (Cls (\<lambda>c. c \<noteq> CHR ''>''))"
  let ?Q = "Cat (Lit DQUOTE) (Cat (Plus (Cls (\<lambda>c. c \<noteq> DQUOTE)))
                 (Cat (Lit DQUOTE) (Cat (Lit CHR ''@'') (Cls (\<lambda>c. c \<noteq> CHR ''>'')))))"
  let ?X = "Alt (Plus ?A) ?Q"
  have stop: "match_re m ?X K c' (CHR ''>'' # t) = (None :: 'a option)" for m K c'
    by (simp add: Lit_def)
  have "match_re n (Star ?X) k c (CHR ''>'' # t) = Some x"
    using assms(4) stop by (cases n) simp_all
  then have "match_re n (Plus ?A) (match_re n (Star ?X) k) c (a @ CHR ''>'' # t) = Some x"
    using assms(1-3) by (intro plus_run [where g = "\<lambda>y c. c"]) (auto simp: Lit_def plain_path_def list_all_iff)
  then show ?thesis by (simp add: from_path_def)
qed

lemma from_params_run:
  fixes k :: "caps \<Rightarrow> string \<Rightarrow> 'a option"
  assumes "plain_params (CHR '' '' # p)" and "length p \<le> n"
    and "\<And>c'. (\<And>j. j \<noteq> 3 \<Longrightarrow> map_of c' j = map_of c j) \<Longrightarrow> k c' [] = Some (f c')"
  shows "\<exists>c'. match_re n from_params k c (CHR '' '' # p) = Some (f c') \<and> (\<forall>j. j \<noteq> 3 \<longrightarrow> map_of c' j = map_of c j)"
proof -
  let ?P = "\<lambda>c. is_word c \<or> c = CHR ''='' \<or> c = CHR '' ''"
  let ?g = "\<lambda>y c. (3, [y]) # c"
  let ?G = "Group 3 (Alt (Cls ?P) (Cat (Lit CHR ''='') (Cat (Lit CHR ''<'') (Lit CHR ''>''))))"
  have keep: "j \<noteq> 3 \<Longrightarrow> map_of (fold ?g u c) j = map_of c j" for j u and c :: caps
    by (induction u arbitrary: c) auto
  have "match_re n (Plus ?G) k c (p @ []) = Some (f (fold ?g p c))"
  proof (rule plus_run [where g = ?g])
    show "match_re m ?G K c' (y # ys) = Some (f (fold ?g p c))"
      if "y \<in> set p" "K (?g y c') ys = Some (f (fold ?g p c))" for m K c' y ys
      using that assms(1) by (auto simp: plain_params_def list_all_iff Suc_diff_le)
    show "match_re m ?G K c' [] = (None :: 'a option)" for m K c' by (simp add: Lit_def)
  qed (use assms keep in \<open>auto simp: plain_params_def\<close>)
  then have "match_re n from_params k c (CHR '' '' # p) = Some (f (fold ?g p c))"
    by (simp add: from_params_def Lit_def)
  with keep show ?thesis by blast
qed

lemma fromRegex_head:
  "match_re (Suc n) (Cat (LitFold CHR ''F'') (Cat (LitFold CHR ''R'') (Cat (LitFold CHR ''O'') (Cat (LitFold CHR ''M'')
       (Cat (Lit CHR '':'') (Cat (Star (Cls is_space)) (Cat (Lit CHR ''<'') r))))))) k c (''FROM:<'' @ t)
   = match_re (Suc n) r k c t"
  by (simp add: LitFold_def Lit_def is_space_def code_def)

lemma fromRegex_plain:
  assumes "plain_path a" and "plain_params p"
  shows "\<exists>m. match_here fromRegex (''FROM:<'' @ a @ ''>'' @ p) = Some (m, []) \<and> submatch m 1 = a \<and> submatch m 2 = p"
proof -
  let ?arg = "''FROM:<'' @ a @ ''>'' @ p"
  let ?n = "Suc (length ?arg)" and ?K = "\<lambda>c s'. Some (c, s') :: (caps \<times> string) option"
  let ?R9 = "Cat (Opt (Group 2 from_params)) EndText"
  let ?R8 = "Cat (Cls (\<lambda>c. c = CHR ''>'')) ?R9"
  define c1 where "c1 = (if a = [] then [] else [(1, a)] :: caps)"
  have "\<exists>m. match_re ?n ?R9 ?K c1 p = Some (m, []) \<and> submatch m 1 = a \<and> submatch m 2 = p"
  proof (cases p)
    case Nil
    have "match_re ?n from_params k c [] = None" for k :: "caps \<Rightarrow> string \<Rightarrow> (caps \<times> string) option" and c
      by (simp add: from_params_def Lit_def)
    with Nil show ?thesis by (auto simp: c1_def submatch_def)
  next
    case (Cons b q)
    with assms(2) have b: "p = CHR '' '' # q" "plain_params (CHR '' '' # q)" by (auto simp: plain_params_def)
    let ?k = "\<lambda>c s'. match_re ?n EndText ?K ((2, take (length p - length s') p) # c) s'"
    have "\<exists>c'. match_re ?n from_params ?k c1 (CHR '' '' # q) = Some ((2, p) # c', [])
        \<and> (\<forall>j. j \<noteq> 3 \<longrightarrow> map_of c' j = map_of c1 j)"
      by (rule from_params_run [OF b(2), where f = "\<lambda>c'. ((2, p) # c', [])"]) (simp_all add: b(1))
    then obtain c' where c': "match_re ?n from_params ?k c1 p = Some ((2, p) # c', [])"
      "\<forall>j. j \<noteq> 3 \<longrightarrow> map_of c' j = map_of c1 j" unfolding b(1) by blast
    then have "match_re ?n ?R9 ?K c1 p = Some ((2, p) # c', [])" by simp
    moreover have "submatch ((2, p) # c') 1 = a" "submatch ((2, p) # c') 2 = p"
      using c'(2) by (auto simp: submatch_def c1_def)
    ultimately show ?thesis by blast
  qed
  then obtain m where m: "match_re ?n ?R9 ?K c1 p = Some (m, [])" "submatch m 1 = a" "submatch m 2 = p" by blast
  have "match_re ?n (Opt (Group 1 from_path)) (match_re ?n ?R8 ?K) [] (a @ CHR ''>'' # p) = Some (m, [])"
  proof (cases "a = []")
    case True
    have "match_re ?n from_path k c (CHR ''>'' # p) = None" for k :: "caps \<Rightarrow> string \<Rightarrow> (caps \<times> string) option" and c
      by (simp add: from_path_def Lit_def)
    then show ?thesis using m(1) True by (simp add: c1_def)
  next
    case False
    have "match_re ?n from_path (\<lambda>c s'. match_re ?n ?R8 ?K ((1, take (length (a @ CHR ''>'' # p) - length s') (a @ CHR ''>'' # p)) # c) s')
        [] (a @ CHR ''>'' # p) = Some (m, [])"
      by (rule from_path_run) (use assms(1) False m(1) in \<open>simp_all add: c1_def\<close>)
    then show ?thesis by simp
  qed
  then have "match_re ?n (Cat (Opt (Group 1 from_path)) ?R8) ?K [] (a @ CHR ''>'' # p) = Some (m, [])"
    by (simp only: match_re.simps)
  then have "match_re ?n fromRegex ?K [] ?arg = Some (m, [])"
    using fromRegex_head [of "length ?arg" "Cat (Opt (Group 1 from_path)) ?R8" ?K "[]" "a @ CHR ''>'' # p"]
    by (simp only: fromRegex_def Lit_def append_Cons append_Nil)
  with m show ?thesis by (auto simp: match_here_def)
qed

theorem fromRegex_sound_witness:
  "\<exists>m rest f ws. match_here fromRegex (''FROM:<'' @ ''a@b'' @ ''>'' @ '' SIZE=9'') = Some (m, rest)
    \<and> ''FROM:<'' @ ''a@b'' @ ''>'' @ '' SIZE=9'' = f @ '':'' @ ws @ ''<'' @ submatch m 1 @ ''>'' @ submatch m 2"
proof -
  have "plain_path ''a@b''" "plain_params '' SIZE=9''" by (simp_all add: go_eval)
  from fromRegex_plain [OF this] obtain m
    where m: "match_here fromRegex (''FROM:<'' @ ''a@b'' @ ''>'' @ '' SIZE=9'') = Some (m, [])" by blast
  from fromRegex_sound [OF m] m show ?thesis by blast
qed

text \<open>The parameter string of a SIZE and what \<open>parseArgs\<close> makes of it.\<close>

lemma digit_word: "is_digit c \<Longrightarrow> is_word c"
  by (simp add: is_word_def)

lemma parseArgs_SIZE:
  assumes "list_all is_digit d" and "d \<noteq> []"
  shows "parseArgs ('' SIZE='' @ d) = Some [(''SIZE'', d)]"
proof -
  let ?s = "'' SIZE='' @ d" and ?K = "\<lambda>c s'. Some (c, s') :: (caps \<times> string) option"
  let ?n = "Suc (length ?s)"
  let ?G2 = "Group 2 (Alt (Plus (Cls is_word)) (Cat (Lit CHR ''<'') (Lit CHR ''>'')))"
  have w: "\<forall>y\<in>set d. is_word y" using assms(1) digit_word by (auto simp: list_all_iff)
  have "match_re ?n (Plus (Cls is_word)) (\<lambda>c s'. ?K ((2, take (length d - length s') d) # c) s') [(1, ''SIZE'')] (d @ [])
      = Some ([(2, d), (1, ''SIZE'')], [])"
    using w assms(2) by (intro class_plus_run) simp_all
  then have g2: "match_re ?n ?G2 ?K [(1, ''SIZE'')] d = Some ([(2, d), (1, ''SIZE'')], [])" by simp
  have "match_re ?n (Plus (Cls is_word))
      (\<lambda>c s'. match_re ?n (Cat (Lit CHR ''='') ?G2) ?K ((1, take (length (''SIZE'' @ ''='' @ d) - length s') (''SIZE'' @ ''='' @ d)) # c) s')
      [] (''SIZE'' @ (''='' @ d)) = Some ([(2, d), (1, ''SIZE'')], [])"
  proof (rule class_plus_run)
    show "match_re ?n (Cat (Lit CHR ''='') ?G2) ?K
        ((1, take (length (''SIZE'' @ ''='' @ d) - length (''='' @ d)) (''SIZE'' @ ''='' @ d)) # []) (''='' @ d)
      = Some ([(2, d), (1, ''SIZE'')], [])"
      using g2 by (simp add: Lit_def Suc_diff_le)
  qed (simp_all add: go_eval)
  then have "match_re ?n (Group 1 (Plus (Cls is_word))) (match_re ?n (Cat (Lit CHR ''='') ?G2) ?K) [] (''SIZE'' @ (''='' @ d))
      = Some ([(2, d), (1, ''SIZE'')], [])"
    by (simp only: match_re.simps append_assoc)
  then have m: "match_here args_regex ?s = Some ([(2, d), (1, ''SIZE'')], [])"
    by (simp only: match_here_def args_regex_def Lit_def match_re.simps append_Cons append_Nil list.case simp_thms if_True)
  have e: "match_here args_regex [] = None" by (simp add: match_here_def args_regex_def Lit_def)
  have "FindAllStringSubmatch args_regex ?s = [[(2, d), (1, ''SIZE'')]]"
    unfolding FindAllStringSubmatch_def using m e by simp
  then show ?thesis by (simp add: parseArgs_def submatch_def go_eval)
qed

text \<open>
  A client that announces a message larger than the configured maximum is refused at once,
  with reply 552, and nothing else changes; a smaller announcement makes no difference to the
  command.
\<close>
theorem smtp_size_limit:
  assumes "plain_path a" and "int n < 2 ^ 31"
  shows "parseMailFromCmd sv (''FROM:<'' @ a @ ''> SIZE='' @ Utoa n) s
    = (if int n > MaxMessageBytes (config sv) then send ''552 Max message size exceeded'' s
       else parseMailFromCmd sv (''FROM:<'' @ a @ ''>'') s)"
proof -
  let ?p = "'' SIZE='' @ Utoa n"
  have dig: "list_all is_digit (Utoa n)" "Utoa n \<noteq> []" using Utoa_digits by simp_all
  then have "plain_params ?p"
    by (auto simp: plain_params_def list_all_iff is_word_def is_letter_def is_upper_def code_def)
  from fromRegex_plain [OF assms(1) this] obtain m where
    m: "match_here fromRegex (''FROM:<'' @ a @ ''>'' @ ?p) = Some (m, [])" "submatch m 1 = a" "submatch m 2 = ?p" by blast
  have "plain_params []" by (simp add: plain_params_def)
  from fromRegex_plain [OF assms(1) this] obtain m0 where
    m0: "match_here fromRegex (''FROM:<'' @ a @ ''>'' @ []) = Some (m0, [])" "submatch m0 1 = a" "submatch m0 2 = []" by blast
  have pi: "ParseInt 32 (Utoa n) = Some (int n)" using assms(2) by (intro ParseInt_Utoa) simp
  have cp: "check_params sv ?p = (if int n > MaxMessageBytes (config sv) then Some ''552 Max message size exceeded'' else None)"
    using parseArgs_SIZE [OF dig] pi by (simp add: check_params_def arg_value_def)
  have cp0: "check_params sv [] = None" by (simp add: check_params_def)
  have arg: "''FROM:<'' @ a @ ''> SIZE='' @ Utoa n = ''FROM:<'' @ a @ ''>'' @ ?p" by simp
  show ?thesis
    unfolding arg parseMailFromCmd_def m(1) m0(1) [unfolded append_Nil2] option.case prod.case m(2,3) m0(2,3) cp cp0
    by simp
qed

theorem smtp_size_limit_witness:
  "parseMailFromCmd (example_server False) (''FROM:<'' @ ''a@b'' @ ''> SIZE='' @ Utoa 101) (example_ready [] [])
    = send ''552 Max message size exceeded'' (example_ready [] [])"
proof -
  have "plain_path ''a@b''" by (simp add: go_eval)
  from smtp_size_limit [OF this, of 101 "example_server False" "example_ready [] []"] show ?thesis
    by (simp add: example_server_def example_root_def)
qed

end
