(* ===== verification/SmtpSession.thy ===== *)
theory SmtpSession
  imports SmtpProps
begin

text \<open>
  What single command lines do in the loop of an SMTP session, and a whole mail transaction from
  the greeting to the goodbye.
\<close>

subsection \<open>Command lines\<close>

lemma Trim_id: "s \<noteq> [] \<Longrightarrow> hd s \<notin> set cs \<Longrightarrow> last s \<notin> set cs \<Longrightarrow> Trim s cs = s"
  by (simp add: Trim_def TrimLeft_id TrimRight_id)

lemma parseCmd_verb:
  assumes "4 \<le> length verb" and "CHR '' '' \<notin> set verb" and "arg \<noteq> []" and "hd arg \<noteq> CHR '' ''"
    and "last arg \<noteq> CHR '' ''" and "last arg \<noteq> CR" and "last arg \<noteq> LF" and "ToUpper verb = cmd"
  shows "parseCmd (verb @ '' '' @ arg) = Some (cmd, arg)"
proof -
  have "TrimRight (verb @ '' '' @ arg) CRLF = verb @ '' '' @ arg"
    using assms(3,6,7) by (intro TrimRight_id) auto
  moreover have "IndexByte (verb @ '' '' @ arg) (CHR '' '') = Some (length verb)"
    using IndexByte_append [OF assms(2), of arg] by simp
  moreover have "Trim arg '' '' = arg" using assms(3-5) by (intro Trim_id) auto
  moreover have "verb \<noteq> []" using assms(1) by auto
  ultimately show ?thesis using assms(1,8) by (simp add: parseCmd_def Let_def)
qed

lemma upper_verbs: "ToUpper ''HELO'' = ''HELO''" "ToUpper ''MAIL'' = ''MAIL''" "ToUpper ''RCPT'' = ''RCPT''"
  by (simp_all add: ToUpper_def char_eval)

text \<open>
  A command word of four or more bytes and an argument are parsed back from the line that
  joins them with a space, the word in upper case.
\<close>
theorem parseCmd_joined:
  assumes "4 \<le> length verb" and "CHR '' '' \<notin> set verb" and "arg \<noteq> []" and "hd arg \<noteq> CHR '' ''"
    and "last arg \<notin> {CHR '' '', CR, LF}"
  shows "parseCmd (verb @ '' '' @ arg) = Some (ToUpper verb, arg)"
  using assms by (intro parseCmd_verb) auto

theorem parseCmd_joined_witness: "parseCmd (''mail'' @ '' '' @ ''FROM:<a@b>'') = Some (ToUpper ''mail'', ''FROM:<a@b>'')"
  by (rule parseCmd_joined) simp_all



lemma smtp_loop_line:
  assumes "state s = GREET \<or> state s = READY \<or> state s = MAIL" and "\<not> sendError s"
    and "conn_in s = sent_line l @ rest" and "LF \<notin> set l" and "command sv l (s\<lparr>conn_in := rest\<rparr>) = (s', True)"
  shows "smtp_loop sv s = smtp_loop sv s'"
proof -
  have "body sv s = (s', True)"
    using assms(1) ReadLine_sent [OF assms(4), of rest] assms(3,5) by (auto simp: body_def readLine_def)
  moreover have "state s \<noteq> QUIT" using assms(1) by auto
  ultimately show ?thesis using assms(2) by (subst smtp_loop.simps) simp
qed

lemma smtp_loop_data:
  assumes "state s = DATA" and "\<not> sendError s"
  shows "smtp_loop sv s = smtp_loop sv (dataHandler sv s)"
  using assms by (subst smtp_loop.simps) (simp add: body_def readLine_def)

lemma smtp_loop_quit: "state s = QUIT \<Longrightarrow> smtp_loop sv s = s"
  by (subst smtp_loop.simps) simp

lemma send_ok: "writes s = [] \<Longrightarrow> send m s = s\<lparr>sent := sent s @ [m]\<rparr>"
  by (simp add: send_def)

text \<open>
  RSET, in whatever state commands are read, ends the transaction: the session is ready for a
  new sender and holds no sender and no recipient. This is also so before the client has
  introduced itself, so that RSET takes the place of HELO.
\<close>
theorem smtp_rset:
  assumes "state s = GREET \<or> state s = READY \<or> state s = MAIL" and "\<not> sendError s"
    and "conn_in s = sent_line ''RSET'' @ rest"
  shows "\<exists>s'. smtp_loop sv s = smtp_loop sv s' \<and> state s' = READY \<and> origin s' = None \<and> recipients s' = []
    \<and> conn_in s' = rest \<and> remoteDomain s' = remoteDomain s \<and> store s' = store s"
proof -
  have p: "parseCmd ''RSET'' = Some (''RSET'', [])" by (simp add: go_eval)
  have "command sv ''RSET'' (s\<lparr>conn_in := rest\<rparr>) = (send ''250 Session reset'' (reset (s\<lparr>conn_in := rest\<rparr>)), True)"
    using p by (simp add: command_def commands_def)
  from smtp_loop_line [OF assms(1-3) _ this] show ?thesis
    by (intro exI [of _ "send ''250 Session reset'' (reset (s\<lparr>conn_in := rest\<rparr>))"]) simp
qed

theorem smtp_rset_witness:
  "\<exists>s'. smtp_loop (example_server False) (NewSession (example_server False) ''h'' (sent_line ''RSET'' @ client [''MAIL FROM:<a@b>'']) [] [] (the (mem_New 0 None)))
      = smtp_loop (example_server False) s' \<and> state s' = READY \<and> remoteDomain s' = [] \<and> conn_in s' = client [''MAIL FROM:<a@b>'']"
  using smtp_rset [of "NewSession (example_server False) ''h'' (sent_line ''RSET'' @ client [''MAIL FROM:<a@b>'']) [] [] (the (mem_New 0 None))"
      "client [''MAIL FROM:<a@b>'']" "example_server False"]
  by (auto simp: NewSession_def)

subsection \<open>A transaction\<close>

lemma command_state:
  assumes "parseCmd line = Some (cmd, arg)" and "cmd \<in> set commands"
    and "cmd \<notin> {''SEND'', ''SOML'', ''SAML'', ''EXPN'', ''HELP'', ''TURN'', ''VRFY'', ''NOOP'', ''RSET'', ''QUIT''}"
  shows "state s = GREET \<Longrightarrow> command sv line s = (greetHandler sv cmd arg s, True)"
    and "state s = READY \<Longrightarrow> command sv line s = (readyHandler sv cmd arg s, True)"
    and "state s = MAIL \<Longrightarrow> command sv line s = (mailHandler sv cmd arg s, True)"
proof -
  have ne: "cmd \<noteq> []" using assms(2) by (auto simp: commands_def)
  have c: "command sv line s = (case state s of
                  GREET \<Rightarrow> (greetHandler sv cmd arg s, True)
                | READY \<Rightarrow> (readyHandler sv cmd arg s, True)
                | MAIL \<Rightarrow> (mailHandler sv cmd arg s, True)
                | _ \<Rightarrow> (s, False))"
    using assms ne by (simp add: command_def)
  show "state s = GREET \<Longrightarrow> command sv line s = (greetHandler sv cmd arg s, True)"
    "state s = READY \<Longrightarrow> command sv line s = (readyHandler sv cmd arg s, True)"
    "state s = MAIL \<Longrightarrow> command sv line s = (mailHandler sv cmd arg s, True)" by (simp_all add: c)
qed

lemma helo_line:
  assumes "state s = GREET" and "\<not> sendError s" and "writes s = []" and "conn_in s = sent_line (''HELO '' @ h) @ rest"
    and "h \<noteq> []" and "set h \<inter> {CHR '' '', CR, LF} = {}"
  shows "smtp_loop sv s = smtp_loop sv (s\<lparr>conn_in := rest, remoteDomain := h,
           sent := sent s @ [''250 Great, let's get this show on the road''], state := READY\<rparr>)"
proof (rule smtp_loop_line)
  have "last h \<in> set h" "hd h \<in> set h" using assms(5) by simp_all
  then have "hd h \<noteq> CHR '' ''" "last h \<noteq> CHR '' ''" "last h \<noteq> CR" "last h \<noteq> LF"
    using assms(6) by (metis disjoint_insert(1) Int_commute insert_disjoint(1))+
  then have "parseCmd (''HELO'' @ '' '' @ h) = Some (''HELO'', h)"
    using assms(5) by (intro parseCmd_verb upper_verbs) auto
  then have p: "parseCmd (''HELO '' @ h) = Some (''HELO'', h)" by simp
  have "IndexByte h (CHR '' '') = None" using assms(6) by (simp add: IndexByte_None)
  then have "parseHelloArgument h = Some h" using assms(5) by (simp add: parseHelloArgument_def)
  then show "command sv (''HELO '' @ h) (s\<lparr>conn_in := rest\<rparr>) = (s\<lparr>conn_in := rest, remoteDomain := h,
           sent := sent s @ [''250 Great, let's get this show on the road''], state := READY\<rparr>, True)"
    using command_state(1) [OF p, of "s\<lparr>conn_in := rest\<rparr>" sv] assms(1,3)
    by (simp add: commands_def greetHandler_def send_ok enterState_def)
qed (use assms in auto)

lemma mail_line:
  assumes "state s = READY" and "\<not> sendError s" and "writes s = []"
    and "conn_in s = sent_line (''MAIL FROM:<'' @ a @ ''>'') @ rest" and "plain_path a" and "LF \<notin> set a"
    and "ParseOrigin (addrPolicy sv) a = Ok org" and "Origin_ShouldAccept org"
    and "\<And>ev. Emit (BeforeMailFromAccepted sv) ev = None"
  shows "smtp_loop sv s = smtp_loop sv (s\<lparr>conn_in := rest, origin := Some org,
           sent := sent s @ [''250 Roger, accepting mail from <'' @ a @ ''>''], state := MAIL\<rparr>)"
proof (rule smtp_loop_line)
  show "conn_in s = sent_line (''MAIL'' @ '' '' @ (''FROM:<'' @ a @ ''>'')) @ rest" using assms(4) by simp
  have p: "parseCmd (''MAIL'' @ '' '' @ (''FROM:<'' @ a @ ''>'')) = Some (''MAIL'', ''FROM:<'' @ a @ ''>'')"
    by (intro parseCmd_verb upper_verbs) simp_all
  have "plain_params []" by (simp add: plain_params_def)
  from fromRegex_plain [OF assms(5) this] obtain m where
    m: "match_here fromRegex (''FROM:<'' @ a @ ''>'') = Some (m, [])" "submatch m 1 = a" "submatch m 2 = []" by auto
  have r: "parseMailFromCmd sv (''FROM:<'' @ a @ ''>'') (s\<lparr>conn_in := rest\<rparr>) = s\<lparr>conn_in := rest, origin := Some org,
           sent := sent s @ [''250 Roger, accepting mail from <'' @ a @ ''>''], state := MAIL\<rparr>"
    unfolding parseMailFromCmd_def m(1) option.case prod.case m(2,3)
    using assms(3,7-9) by (simp add: check_params_def send_ok enterState_def ActionDefer_def ActionDeny_def)
  show "command sv (''MAIL'' @ '' '' @ (''FROM:<'' @ a @ ''>'')) (s\<lparr>conn_in := rest\<rparr>) = (s\<lparr>conn_in := rest, origin := Some org,
           sent := sent s @ [''250 Roger, accepting mail from <'' @ a @ ''>''], state := MAIL\<rparr>, True)"
    using command_state(2) [OF p, of "s\<lparr>conn_in := rest\<rparr>" sv] assms(1) r
    by (simp add: commands_def readyHandler_def)
qed (use assms in auto)

lemma rcpt_line:
  assumes "state s = MAIL" and "\<not> sendError s" and "writes s = []"
    and "conn_in s = sent_line (''RCPT TO:<'' @ b @ ''>'') @ rest" and "LF \<notin> set b"
    and "b \<noteq> []" and "hd b \<notin> set ''<> ''" and "last b \<notin> set ''<> ''"
    and "NewRecipient (addrPolicy sv) b = Ok r" and "Recipient_ShouldAccept r"
    and "int (length (recipients s)) < MaxRecipients (config sv)"
    and "\<And>ev. Emit (BeforeRcptToAccepted sv) ev = None"
  shows "smtp_loop sv s = smtp_loop sv (s\<lparr>conn_in := rest, recipients := recipients s @ [r],
           sent := sent s @ [''250 I'll make sure <'' @ b @ ''> gets this'']\<rparr>)"
proof (rule smtp_loop_line)
  show "conn_in s = sent_line (''RCPT'' @ '' '' @ (''TO:<'' @ b @ ''>'')) @ rest" using assms(4) by simp
  have p: "parseCmd (''RCPT'' @ '' '' @ (''TO:<'' @ b @ ''>'')) = Some (''RCPT'', ''TO:<'' @ b @ ''>'')"
    by (intro parseCmd_verb upper_verbs) simp_all
  have "TrimLeft (''<'' @ b @ ''>'') ''<> '' = b @ ''>''"
    using assms(6,7) TrimLeft_id [of "b @ ''>''" "''<> ''"] by (simp add: TrimLeft_def)
  moreover have "TrimRight (b @ ''>'') ''<> '' = b"
    using TrimRight_id [of b "''<> ''"] assms(8) by (simp add: TrimRight_def)
  ultimately have t: "Trim (''<'' @ b @ ''>'') ''<> '' = b" by (simp add: Trim_def)
  have u: "ToUpper (take 3 (''TO:<'' @ b @ ''>'')) = ''TO:''" by (simp add: go_eval)
  have "rcptCmd sv (''TO:<'' @ b @ ''>'') (s\<lparr>conn_in := rest\<rparr>) = s\<lparr>conn_in := rest, recipients := recipients s @ [r],
           sent := sent s @ [''250 I'll make sure <'' @ b @ ''> gets this'']\<rparr>"
    using assms(3,6,9-12) t u
    by (simp add: rcptCmd_def Let_def send_ok ActionDefer_def ActionDeny_def)
  then show "command sv (''RCPT'' @ '' '' @ (''TO:<'' @ b @ ''>'')) (s\<lparr>conn_in := rest\<rparr>)
     = (s\<lparr>conn_in := rest, recipients := recipients s @ [r],
           sent := sent s @ [''250 I'll make sure <'' @ b @ ''> gets this'']\<rparr>, True)"
    using command_state(3) [OF p, of "s\<lparr>conn_in := rest\<rparr>" sv] assms(1)
    by (simp add: commands_def mailHandler_def)
qed (use assms in auto)

lemma data_line:
  assumes "state s = MAIL" and "\<not> sendError s" and "conn_in s = sent_line ''DATA'' @ rest" and "recipients s \<noteq> []"
  shows "smtp_loop sv s = smtp_loop sv (s\<lparr>conn_in := rest, state := DATA\<rparr>)"
proof (rule smtp_loop_line)
  have p: "parseCmd ''DATA'' = Some (''DATA'', [])" by (simp add: go_eval)
  show "command sv ''DATA'' (s\<lparr>conn_in := rest\<rparr>) = (s\<lparr>conn_in := rest, state := DATA\<rparr>, True)"
    using command_state(3) [OF p, of "s\<lparr>conn_in := rest\<rparr>" sv] assms(1,4)
    by (simp add: commands_def mailHandler_def enterState_def)
qed (use assms in auto)

lemma quit_line:
  assumes "state s = READY" and "\<not> sendError s" and "writes s = []" and "conn_in s = sent_line ''QUIT'' @ rest"
  shows "smtp_loop sv s = s\<lparr>conn_in := rest, sent := sent s @ [''221 Goodnight and good luck''], state := QUIT\<rparr>"
proof -
  have p: "parseCmd ''QUIT'' = Some (''QUIT'', [])" by (simp add: go_eval)
  have "command sv ''QUIT'' (s\<lparr>conn_in := rest\<rparr>)
      = (s\<lparr>conn_in := rest, sent := sent s @ [''221 Goodnight and good luck''], state := QUIT\<rparr>, True)"
    using p assms(3) by (simp add: command_def commands_def send_ok enterState_def)
  from smtp_loop_line [OF _ assms(2,4) _ this] assms(1)
  have "smtp_loop sv s = smtp_loop sv (s\<lparr>conn_in := rest, sent := sent s @ [''221 Goodnight and good luck''], state := QUIT\<rparr>)"
    by simp
  then show ?thesis by (simp add: smtp_loop_quit)
qed

text \<open>The data of a message, when the delivery succeeds.\<close>

lemma data_block:
  assumes "state s = DATA" and "\<not> sendError s" and "writes s = []" and "conn_in s = dot_wire ls @ rest"
    and "\<forall>l\<in>set ls. LF \<notin> set l" and "origin s = Some org" and "clock sv (Suc (length (sent s))) = (now, tstamp)"
    and "Deliver (enmime sv) (manager sv) now tstamp org (recipients s) (recvdHeader sv s) (unlines ls) (store s) = (None, st, evs)"
  shows "smtp_loop sv s = smtp_loop sv (s\<lparr>conn_in := rest, store := st, emitted := emitted s @ evs,
     receivedTotal := receivedTotal s + length (recipients s),
     sent := sent s @ [''354 Start mail input; end with <CRLF>.<CRLF>'', ''250 Mail accepted for delivery''],
     state := READY, origin := None, recipients := []\<rparr>)"
proof -
  have r: "ReadDotBytes (dot_wire ls @ rest) = (Ok (unlines ls), rest)" by (rule dot_wire_read [OF assms(5)])
  have h: "recvdHeader sv (s\<lparr>sent := x, conn_in := y\<rparr>) = recvdHeader sv s" for x y
    by (simp add: recvdHeader_def)
  show ?thesis
    unfolding smtp_loop_data [OF assms(1,2)]
    using assms(3,4,6-8) r by (simp add: dataHandler_def readDataBlock_def send_ok h reset_def enterState_def)
qed

text \<open>The lines of a client that sends one message to one recipient.\<close>

definition mail_session :: "string \<Rightarrow> string \<Rightarrow> string \<Rightarrow> string list \<Rightarrow> inev list" where
  "mail_session h a b ls =
     sent_line (''HELO '' @ h) @ sent_line (''MAIL FROM:<'' @ a @ ''>'') @ sent_line (''RCPT TO:<'' @ b @ ''>'')
       @ sent_line ''DATA'' @ dot_wire ls @ sent_line ''QUIT''"

lemma smtp_transaction:
  assumes h: "h \<noteq> []" "set h \<inter> {CHR '' '', CR, LF} = {}"
    and a: "plain_path a" "LF \<notin> set a" "ParseOrigin (addrPolicy sv) a = Ok org" "Origin_ShouldAccept org"
    and b: "LF \<notin> set b" "b \<noteq> []" "hd b \<notin> set ''<> ''" "last b \<notin> set ''<> ''"
      "NewRecipient (addrPolicy sv) b = Ok r" "Recipient_ShouldAccept r" "0 < MaxRecipients (config sv)"
    and ext: "\<And>ev. Emit (BeforeMailFromAccepted sv) ev = None" "\<And>ev. Emit (BeforeRcptToAccepted sv) ev = None"
    and ls: "\<forall>l\<in>set ls. LF \<notin> set l"
    and d: "clock sv 5 = (now, tstamp)"
      "Deliver (enmime sv) (manager sv) now tstamp org [r]
        (''Received: from '' @ h @ '' (['' @ host @ '']) by '' @ smtp_Domain (config sv) @ CRLF) (unlines ls) st = (None, st', evs)"
  shows "store (startSession sv host (mail_session h a b ls) tls [] st) = st'
    \<and> emitted (startSession sv host (mail_session h a b ls) tls [] st) = evs
    \<and> state (startSession sv host (mail_session h a b ls) tls [] st) = QUIT
    \<and> sent (startSession sv host (mail_session h a b ls) tls [] st)
       = [''220 '' @ smtp_Domain (config sv) @ '' Inbucket SMTP ready'', ''250 Great, let's get this show on the road'',
          ''250 Roger, accepting mail from <'' @ a @ ''>'', ''250 I'll make sure <'' @ b @ ''> gets this'',
          ''354 Start mail input; end with <CRLF>.<CRLF>'', ''250 Mail accepted for delivery'', ''221 Goodnight and good luck'']"
proof -
  let ?r5 = "sent_line ''QUIT'' @ []" let ?r4 = "dot_wire ls @ ?r5" let ?r3 = "sent_line ''DATA'' @ ?r4"
  let ?r2 = "sent_line (''RCPT TO:<'' @ b @ ''>'') @ ?r3" let ?r1 = "sent_line (''MAIL FROM:<'' @ a @ ''>'') @ ?r2"
  define s0 where "s0 = greet sv (NewSession sv host (mail_session h a b ls) tls [] st)"
  define s1 where "s1 = s0\<lparr>conn_in := ?r1, remoteDomain := h, sent := sent s0 @ [''250 Great, let's get this show on the road''], state := READY\<rparr>"
  define s2 where "s2 = s1\<lparr>conn_in := ?r2, origin := Some org, sent := sent s1 @ [''250 Roger, accepting mail from <'' @ a @ ''>''], state := MAIL\<rparr>"
  define s3 where "s3 = s2\<lparr>conn_in := ?r3, recipients := recipients s2 @ [r], sent := sent s2 @ [''250 I'll make sure <'' @ b @ ''> gets this'']\<rparr>"
  define s4 where "s4 = s3\<lparr>conn_in := ?r4, state := DATA\<rparr>"
  define s5 where "s5 = s4\<lparr>conn_in := ?r5, store := st', emitted := emitted s4 @ evs, receivedTotal := receivedTotal s4 + length (recipients s4),
     sent := sent s4 @ [''354 Start mail input; end with <CRLF>.<CRLF>'', ''250 Mail accepted for delivery''],
     state := READY, origin := None, recipients := []\<rparr>"
  note defs = s5_def s4_def s3_def s2_def s1_def s0_def greet_def NewSession_def send_def
  have "smtp_loop sv s0 = smtp_loop sv s1"
    unfolding s1_def by (rule helo_line [OF _ _ _ _ h]) (simp_all add: s0_def greet_def NewSession_def send_def mail_session_def)
  also have "\<dots> = smtp_loop sv s2"
    unfolding s2_def by (rule mail_line [OF _ _ _ _ a(1,2,3,4) ext(1)]) (simp_all add: s1_def s0_def greet_def NewSession_def send_def)
  also have "\<dots> = smtp_loop sv s3"
    unfolding s3_def by (rule rcpt_line [OF _ _ _ _ b(1-6) _ ext(2)])
      (use b(7) in \<open>simp_all add: s2_def s1_def s0_def greet_def NewSession_def send_def\<close>)
  also have "\<dots> = smtp_loop sv s4"
    unfolding s4_def by (rule data_line) (simp_all add: s3_def s2_def s1_def s0_def greet_def NewSession_def send_def)
  also have "\<dots> = smtp_loop sv s5"
    unfolding s5_def
  proof (rule data_block [OF _ _ _ _ ls])
    show "origin s4 = Some org" "state s4 = DATA" "\<not> sendError s4" "writes s4 = []" "conn_in s4 = dot_wire ls @ ?r5"
      by (simp_all add: defs)
    have "length (sent s4) = 4" by (simp add: defs)
    then show "clock sv (Suc (length (sent s4))) = (now, tstamp)" using d(1) by (simp add: numeral_eq_Suc)
    have "recvdHeader sv s4 = ''Received: from '' @ h @ '' (['' @ host @ '']) by '' @ smtp_Domain (config sv) @ CRLF"
      "recipients s4 = [r]" "store s4 = st" by (simp_all add: defs recvdHeader_def)
    with d(2) show "Deliver (enmime sv) (manager sv) now tstamp org (recipients s4) (recvdHeader sv s4) (unlines ls) (store s4)
        = (None, st', evs)" by simp
  qed
  also have "\<dots> = s5\<lparr>conn_in := [], sent := sent s5 @ [''221 Goodnight and good luck''], state := QUIT\<rparr>"
    by (rule quit_line) (simp_all add: defs)
  finally have fin: "startSession sv host (mail_session h a b ls) tls [] st
      = s5\<lparr>conn_in := [], sent := sent s5 @ [''221 Goodnight and good luck''], state := QUIT\<rparr>"
    by (simp add: startSession_def s0_def)
  show ?thesis unfolding fin by (simp add: defs)
qed

end
