(* ===== verification/Pop3.thy ===== *)
theory Pop3
  imports Config Storage TextProto
begin

text \<open>
  \<open>pkg/server/pop3/handler.go\<close>: one POP3 session, modelled like the SMTP session. The messages of
  a mailbox are loaded once, at login, as the values of their getters; \<open>retain\<close> marks the ones to
  keep. \<open>tlsState\<close> is a field of the server in the code, shared by its sessions: here it is part
  of the world a session starts from and leaves behind. \<open>handshakes\<close> holds the outcome of the TLS
  handshakes. \<open>crashed\<close> records an index out of range.
\<close>

subsection \<open>Data\<close>

datatype PopState = AUTHORIZATION | TRANSACTION | POP_QUIT

definition pop_commands :: "string list" where
  [go_eval]: "pop_commands = [''QUIT'', ''STAT'', ''LIST'', ''RETR'', ''DELE'', ''NOOP'', ''RSET'', ''TOP'',
     ''UIDL'', ''USER'', ''PASS'', ''APOP'', ''CAPA'', ''STLS'']"

record 'st PopServer =
  pop_config :: pop3_config
  pop_tlsConfig :: bool
  pop_store :: "'st Store"

record 'st PopSession =
  pop_sendError :: bool
  pop_state :: PopState
  pop_user :: string
  messages :: "message list"
  retain :: "bool list"
  msgCount :: int
  pop_tlsState :: bool
  pop_in :: "inev list"
  pop_tls_in :: "inev list"
  handshakes :: "bool list"
  pop_writes :: "bool list"
  pop_sent :: "string list"
  pop_world :: 'st
  pop_crashed :: bool

text \<open>\<open>NewServer\<close>: \<open>None\<close> when TLS is enabled and the certificate does not load.\<close>

definition pop_NewServer :: "pop3_config \<Rightarrow> bool \<Rightarrow> 'st Store \<Rightarrow> 'st PopServer option" where
  [go_eval]: "pop_NewServer c cert_ok st =
     (if pop3_TLSEnabled c \<and> \<not> cert_ok then None
      else Some \<lparr>pop_config = c, pop_tlsConfig = pop3_TLSEnabled c, pop_store = st\<rparr>)"

definition pop_NewSession :: "'st PopServer \<Rightarrow> bool \<Rightarrow> inev list \<Rightarrow> inev list \<Rightarrow> bool list \<Rightarrow> bool list \<Rightarrow> 'st \<Rightarrow> 'st PopSession" where
  [go_eval]: "pop_NewSession sv tls input tls_input hs ws st =
     \<lparr>pop_sendError = False, pop_state = AUTHORIZATION, pop_user = [], messages = [], retain = [],
      msgCount = 0, pop_tlsState = (if pop3_ForceTLS (pop_config sv) then True else tls), pop_in = input,
      pop_tls_in = tls_input, handshakes = hs, pop_writes = ws, pop_sent = [], pop_world = st, pop_crashed = False\<rparr>"

subsection \<open>Replies\<close>

definition pop_send :: "string \<Rightarrow> 'st PopSession \<Rightarrow> 'st PopSession" where
  [go_eval]: "pop_send msg s =
     (case pop_writes s of
        [] \<Rightarrow> s\<lparr>pop_sent := pop_sent s @ [msg]\<rparr>
      | ok # rest \<Rightarrow>
          (if ok then s\<lparr>pop_writes := rest, pop_sent := pop_sent s @ [msg]\<rparr>
           else s\<lparr>pop_writes := rest, pop_sendError := True\<rparr>))"

fun pop_send_all :: "string list \<Rightarrow> 'st PopSession \<Rightarrow> 'st PopSession" where
  "pop_send_all [] s = s"
| "pop_send_all (l # ls) s = pop_send_all ls (pop_send l s)"

definition pop_enterState :: "PopState \<Rightarrow> 'st PopSession \<Rightarrow> 'st PopSession" where
  [go_eval]: "pop_enterState st s = s\<lparr>pop_state := st\<rparr>"

definition pop_ooSeq :: "string \<Rightarrow> 'st PopSession \<Rightarrow> 'st PopSession" where
  [go_eval]: "pop_ooSeq cmd s = pop_send (''-ERR Command '' @ cmd @ '' is out of sequence'') s"

definition pop_readLine :: "'st PopSession \<Rightarrow> (rerr, string) result \<times> 'st PopSession" where
  [go_eval]: "pop_readLine s = (let (line, rest) = ReadString (pop_in s) in (line, s\<lparr>pop_in := rest\<rparr>))"

definition pop_parseCmd :: "string \<Rightarrow> string \<times> string list" where
  [go_eval]: "pop_parseCmd line =
     (let line = TrimRight line CRLF in
      if line = [] then ([], [])
      else (let words = Split line (CHR '' '') in (ToUpper (hd words), tl words)))"

subsection \<open>The mailbox\<close>

definition retainAll :: "'st PopSession \<Rightarrow> 'st PopSession" where
  [go_eval]: "retainAll s = s\<lparr>retain := replicate (length (messages s)) True, msgCount := int (length (messages s))\<rparr>"

definition pop_reset :: "'st PopSession \<Rightarrow> 'st PopSession" where
  [go_eval, simp]: "pop_reset s = retainAll s"

definition loadMailbox :: "'st PopServer \<Rightarrow> 'st PopSession \<Rightarrow> 'st PopSession" where
  [go_eval]: "loadMailbox sv s =
     (let (m, st) = GetMessages (pop_store sv) (pop_world s) (pop_user s)
      in retainAll (s\<lparr>pop_world := st, messages := (case m of Inl err \<Rightarrow> [] | Inr ms \<Rightarrow> ms)\<rparr>))"

text \<open>The loop of \<open>processDeletes\<close>; an error of the store is only logged.\<close>

fun delete_loop :: "'st Store \<Rightarrow> string \<Rightarrow> message list \<Rightarrow> bool list \<Rightarrow> 'st \<Rightarrow> 'st" where
  "delete_loop ds user (msg # ms) (r # rs) st =
     (if \<not> r then delete_loop ds user ms rs (snd (RemoveMessage ds st user (sID msg)))
      else delete_loop ds user ms rs st)"
| "delete_loop ds user ms rs st = st"

definition processDeletes :: "'st PopServer \<Rightarrow> 'st PopSession \<Rightarrow> 'st PopSession" where
  [go_eval]: "processDeletes sv s =
     s\<lparr>pop_world := delete_loop (pop_store sv) (pop_user s) (messages s) (retain s) (pop_world s)\<rparr>"

subsection \<open>Sending a message\<close>

definition scan_end :: "bool \<Rightarrow> 'st PopSession \<Rightarrow> 'st PopSession" where
  [go_eval]: "scan_end err s =
     (if err then pop_send ''-ERR Failed to RETR that message, internal error'' (pop_send ''.'' s)
      else pop_send ''.'' s)"

definition sendMessage :: "message \<Rightarrow> 'st PopSession \<Rightarrow> 'st PopSession" where
  [go_eval]: "sendMessage msg s =
     (case sSource msg of
        None \<Rightarrow> pop_send ''-ERR Failed to RETR that message, internal error'' s
      | Some source \<Rightarrow>
          (let (lines, err) = scan_lines source
           in scan_end err (pop_send_all (map dot_stuff lines) s)))"

text \<open>
  The loop of \<open>sendMessageTop\<close>: the lines to send, and whether it broke off before the end of the
  scan (no scan error is reported then).
\<close>

fun top_loop :: "bool \<Rightarrow> int \<Rightarrow> string list \<Rightarrow> string list \<times> bool" where
  "top_loop inBody lineCount [] = ([], False)"
| "top_loop inBody lineCount (line # lines) =
     (let line = dot_stuff line in
      if inBody then
        (if lineCount < 1 then ([], True)
         else (let (ls, stop) = top_loop inBody (lineCount - 1) lines in (line # ls, stop)))
      else (let (ls, stop) = top_loop (if line = [] then True else inBody) lineCount lines in (line # ls, stop)))"

definition sendMessageTop :: "message \<Rightarrow> int \<Rightarrow> 'st PopSession \<Rightarrow> 'st PopSession" where
  [go_eval]: "sendMessageTop msg lineCount s =
     (case sSource msg of
        None \<Rightarrow> pop_send ''-ERR Failed to RETR that message, internal error'' s
      | Some source \<Rightarrow>
          (let (lines, err) = scan_lines source; (ls, stop) = top_loop False lineCount lines
           in scan_end (err \<and> \<not> stop) (pop_send_all ls s)))"

subsection \<open>AUTHORIZATION\<close>

definition authorizationHandler :: "'st PopServer \<Rightarrow> string \<Rightarrow> string list \<Rightarrow> 'st PopSession \<Rightarrow> 'st PopSession" where
  [go_eval]: "authorizationHandler sv cmd args s =
     (if cmd = ''QUIT'' then pop_enterState POP_QUIT (pop_send ''+OK Goodnight and good luck'' s)
      else if cmd = ''STLS'' then
        (if \<not> pop3_TLSEnabled (pop_config sv) \<or> pop3_ForceTLS (pop_config sv)
         then pop_send ''-ERR TLS unavailable on the server'' s
         else if pop_tlsState s then pop_send ''-ERR A TLS session already agreed upon.'' s
         else
           (let s = pop_send ''+OK Begin TLS Negotiation'' s;
                s = (case handshakes s of
                       [] \<Rightarrow> s
                     | ok # rest \<Rightarrow> (let s = s\<lparr>handshakes := rest\<rparr> in if ok then s else pop_ooSeq cmd s))
            in s\<lparr>pop_in := pop_tls_in s, pop_tls_in := [], pop_tlsState := True\<rparr>))
      else if cmd = ''USER'' then
        (case args of
           u # _ \<Rightarrow> pop_send (''+OK Hello '' @ u @ '', welcome to Inbucket'') (s\<lparr>pop_user := u\<rparr>)
         | [] \<Rightarrow> pop_send ''-ERR Missing username argument'' s)
      else if cmd = ''PASS'' then
        (if pop_user s = [] then pop_ooSeq cmd s
         else (let s = loadMailbox sv s
               in pop_enterState TRANSACTION
                    (pop_send (''+OK Found '' @ Itoa (msgCount s) @ '' messages for '' @ pop_user s) s)))
      else if cmd = ''APOP'' then
        (if length args \<noteq> 2 then pop_send ''-ERR APOP requires two arguments'' s
         else (let s = loadMailbox sv (s\<lparr>pop_user := hd args\<rparr>)
               in pop_enterState TRANSACTION
                    (pop_send (''+OK Found '' @ Itoa (msgCount s) @ '' messages for '' @ pop_user s) s)))
      else pop_ooSeq cmd s)"

subsection \<open>TRANSACTION\<close>

text \<open>
  The message number that every command checks alike: \<open>arg\<close> is what its replies call the argument.
  The result is a refusal, or the index of the message.
\<close>

definition msg_index :: "string \<Rightarrow> string \<Rightarrow> string \<Rightarrow> 'st PopSession \<Rightarrow> (string, nat) result" where
  [go_eval]: "msg_index cmd arg a s =
     (case ParseInt 32 a of
        None \<Rightarrow> Err (''-ERR '' @ cmd @ '' command requires an integer argument'')
      | Some msgNum \<Rightarrow>
          if msgNum < 1 then Err (''-ERR '' @ cmd @ arg @ '' must be greater than 0'')
          else if msgNum > int (length (messages s))
          then Err (''-ERR '' @ cmd @ arg @ '' must not exceed the number of messages'')
          else Ok (nat msgNum - 1))"

text \<open>The numbered lines of LIST and UIDL: the messages still retained.\<close>

definition listing :: "(message \<Rightarrow> string) \<Rightarrow> 'st PopSession \<Rightarrow> string list" where
  [go_eval]: "listing show s =
     map (\<lambda>(i, m, r). Utoa (Suc i) @ '' '' @ show m)
       (filter (\<lambda>(i, m, r). r) (zip [0..<length (messages s)] (zip (messages s) (retain s))))"

definition pop_STAT :: "string list \<Rightarrow> 'st PopSession \<Rightarrow> 'st PopSession" where
  [go_eval]: "pop_STAT args s =
     (if args \<noteq> [] then pop_send ''-ERR STAT command must have no arguments'' s
      else (let kept = filter snd (zip (messages s) (retain s))
            in pop_send (''+OK '' @ Itoa (int (length kept)) @ '' '' @ Itoa (sum_list (map (sSize \<circ> fst) kept))) s))"

text \<open>LIST and UIDL: \<open>show\<close> is what they tell of a message.\<close>

definition pop_LIST :: "string \<Rightarrow> (message \<Rightarrow> string) \<Rightarrow> string list \<Rightarrow> 'st PopSession \<Rightarrow> 'st PopSession" where
  [go_eval]: "pop_LIST cmd show args s =
     (case args of
        [] \<Rightarrow> pop_send_all (listing show s @ [''.''])
                (pop_send (''+OK Listing '' @ Itoa (msgCount s) @ '' messages'') s)
      | [a] \<Rightarrow>
          (case msg_index cmd '' argument'' a s of
             Inl reply \<Rightarrow> pop_send reply s
           | Inr i \<Rightarrow>
               if i \<ge> length (retain s) then s\<lparr>pop_crashed := True\<rparr>
               else if \<not> retain s ! i then pop_send (''-ERR You deleted message '' @ Utoa (Suc i)) s
               else pop_send (''+OK '' @ Utoa (Suc i) @ '' '' @ show (messages s ! i)) s)
      | _ \<Rightarrow> pop_send (''-ERR '' @ cmd @ '' command must have zero or one argument'') s)"

definition pop_DELE :: "string list \<Rightarrow> 'st PopSession \<Rightarrow> 'st PopSession" where
  [go_eval]: "pop_DELE args s =
     (case args of
        [a] \<Rightarrow>
          (case msg_index ''DELE'' '' argument'' a s of
             Inl reply \<Rightarrow> pop_send reply s
           | Inr i \<Rightarrow>
               if i \<ge> length (retain s) then s\<lparr>pop_crashed := True\<rparr>
               else if retain s ! i
               then pop_send (''+OK Deleted message '' @ Utoa (Suc i))
                      (s\<lparr>retain := (retain s)[i := False], msgCount := msgCount s - 1\<rparr>)
               else pop_send (''-ERR Message '' @ Utoa (Suc i) @ '' has already been deleted'') s)
      | _ \<Rightarrow> pop_send ''-ERR DELE command requires a single argument'' s)"

definition pop_RETR :: "string list \<Rightarrow> 'st PopSession \<Rightarrow> 'st PopSession" where
  [go_eval]: "pop_RETR args s =
     (case args of
        [a] \<Rightarrow>
          (case msg_index ''RETR'' '' argument'' a s of
             Inl reply \<Rightarrow> pop_send reply s
           | Inr i \<Rightarrow>
               sendMessage (messages s ! i)
                 (pop_send (''+OK '' @ Itoa (sSize (messages s ! i)) @ '' bytes follows'') s))
      | _ \<Rightarrow> pop_send ''-ERR RETR command requires a single argument'' s)"

definition pop_TOP :: "string list \<Rightarrow> 'st PopSession \<Rightarrow> 'st PopSession" where
  [go_eval]: "pop_TOP args s =
     (case args of
        [a, b] \<Rightarrow>
          (case msg_index ''TOP'' '' first argument'' a s of
             Inl reply \<Rightarrow> pop_send reply s
           | Inr i \<Rightarrow>
               (case ParseInt 32 b of
                  None \<Rightarrow> pop_send ''-ERR TOP command requires an integer argument'' s
                | Some lines \<Rightarrow>
                    if lines < 0 then pop_send ''-ERR TOP second argument must be non-negative'' s
                    else sendMessageTop (messages s ! i) lines (pop_send ''+OK Top of message follows'' s)))
      | _ \<Rightarrow> pop_send ''-ERR TOP command requires two arguments'' s)"

definition transactionHandler :: "'st PopServer \<Rightarrow> string \<Rightarrow> string list \<Rightarrow> 'st PopSession \<Rightarrow> 'st PopSession" where
  [go_eval]: "transactionHandler sv cmd args s =
     (if cmd = ''STAT'' then pop_STAT args s
      else if cmd = ''LIST'' then pop_LIST cmd (\<lambda>m. Itoa (sSize m)) args s
      else if cmd = ''UIDL'' then pop_LIST cmd sID args s
      else if cmd = ''DELE'' then pop_DELE args s
      else if cmd = ''RETR'' then pop_RETR args s
      else if cmd = ''TOP'' then pop_TOP args s
      else if cmd = ''QUIT'' then
        pop_enterState POP_QUIT (processDeletes sv (pop_send ''+OK We will process your deletes'' s))
      else if cmd = ''NOOP'' then pop_send ''+OK I have successfully done nothing'' s
      else if cmd = ''RSET'' then pop_send ''+OK Session reset'' (pop_reset s)
      else pop_ooSeq cmd s)"

subsection \<open>The session loop\<close>

definition capabilities :: "'st PopServer \<Rightarrow> 'st PopSession \<Rightarrow> string list" where
  [go_eval]: "capabilities sv s =
     [''+OK Capability list follows'', ''TOP'', ''USER'', ''UIDL'', ''IMPLEMENTATION Inbucket'']
       @ (if pop_tlsConfig sv \<and> \<not> pop_tlsState s \<and> \<not> pop3_ForceTLS (pop_config sv) then [''STLS''] else [])
       @ [''.'']"

definition pop_command :: "'st PopServer \<Rightarrow> string \<Rightarrow> 'st PopSession \<Rightarrow> 'st PopSession \<times> bool" where
  [go_eval]: "pop_command sv line s =
     (let (cmd, args) = pop_parseCmd line in
      if cmd = ''CAPA'' then (pop_send_all (capabilities sv s) s, True)
      else if cmd = [] then (pop_send ''-ERR Speak up'' s, True)
      else if cmd \<notin> set pop_commands
      then (pop_send (''-ERR Syntax error, '' @ cmd @ '' command unrecognized'') s, True)
      else (case pop_state s of
              AUTHORIZATION \<Rightarrow> (authorizationHandler sv cmd args s, True)
            | TRANSACTION \<Rightarrow> (transactionHandler sv cmd args s, True)
            | POP_QUIT \<Rightarrow> (s, False)))"

definition pop_body :: "'st PopServer \<Rightarrow> 'st PopSession \<Rightarrow> 'st PopSession \<times> bool" where
  [go_eval]: "pop_body sv s =
     (let (line, s) = pop_readLine s in
      case line of
        Inr line \<Rightarrow> pop_command sv line s
      | Inl err \<Rightarrow>
          (if err = ReadEOF then (s, False)
           else if err = ReadTimeout then (pop_send ''-ERR Idle timeout, bye bye'' s, False)
           else (pop_send ''-ERR Connection error, sorry'' s, False)))"

text \<open>The greeting: the process id, the time in seconds and the domain.\<close>

definition pop_greet :: "'st PopServer \<Rightarrow> int \<Rightarrow> int \<Rightarrow> 'st PopSession \<Rightarrow> 'st PopSession" where
  [go_eval]: "pop_greet sv pid now s =
     pop_send (''+OK Inbucket POP3 server ready <'' @ Itoa pid @ ''.'' @ Itoa now @ ''@''
       @ pop3_Domain (pop_config sv) @ ''>'') s"

end
