(* ===== verification/Pop3Loop.thy ===== *)
theory Pop3Loop
  imports Pop3 MemProps
begin

text \<open>
  The loop of a POP3 session, which ends on every input, and the invariant of its states.
\<close>

subsection \<open>What the operations leave alone\<close>

lemma pop_send_fields [simp]:
  "pop_state (pop_send m s) = pop_state s" "pop_user (pop_send m s) = pop_user s"
  "messages (pop_send m s) = messages s" "retain (pop_send m s) = retain s" "msgCount (pop_send m s) = msgCount s"
  "pop_tlsState (pop_send m s) = pop_tlsState s" "pop_in (pop_send m s) = pop_in s"
  "pop_tls_in (pop_send m s) = pop_tls_in s" "pop_world (pop_send m s) = pop_world s"
  "pop_crashed (pop_send m s) = pop_crashed s" "handshakes (pop_send m s) = handshakes s"
  by (auto simp: pop_send_def split: list.split)

lemma pop_send_all_fields [simp]:
  "pop_state (pop_send_all ls s) = pop_state s" "pop_user (pop_send_all ls s) = pop_user s"
  "messages (pop_send_all ls s) = messages s" "retain (pop_send_all ls s) = retain s"
  "msgCount (pop_send_all ls s) = msgCount s" "pop_tlsState (pop_send_all ls s) = pop_tlsState s"
  "pop_in (pop_send_all ls s) = pop_in s" "pop_tls_in (pop_send_all ls s) = pop_tls_in s"
  "pop_world (pop_send_all ls s) = pop_world s" "pop_crashed (pop_send_all ls s) = pop_crashed s"
  by (induction ls arbitrary: s) simp_all

lemma pop_enterState_fields [simp]:
  "pop_state (pop_enterState st s) = st" "pop_user (pop_enterState st s) = pop_user s"
  "messages (pop_enterState st s) = messages s" "retain (pop_enterState st s) = retain s"
  "msgCount (pop_enterState st s) = msgCount s" "pop_tlsState (pop_enterState st s) = pop_tlsState s"
  "pop_in (pop_enterState st s) = pop_in s" "pop_tls_in (pop_enterState st s) = pop_tls_in s"
  "pop_world (pop_enterState st s) = pop_world s" "pop_crashed (pop_enterState st s) = pop_crashed s"
  by (simp_all add: pop_enterState_def)

lemma retainAll_fields [simp]:
  "pop_state (retainAll s) = pop_state s" "messages (retainAll s) = messages s"
  "retain (retainAll s) = replicate (length (messages s)) True" "msgCount (retainAll s) = int (length (messages s))"
  "pop_in (retainAll s) = pop_in s" "pop_tls_in (retainAll s) = pop_tls_in s"
  "pop_world (retainAll s) = pop_world s" "pop_crashed (retainAll s) = pop_crashed s"
  "pop_user (retainAll s) = pop_user s" "pop_tlsState (retainAll s) = pop_tlsState s"
  by (simp_all add: retainAll_def)

lemma pop_ooSeq_send: "pop_ooSeq cmd s = pop_send (''-ERR Command '' @ cmd @ '' is out of sequence'') s"
  by (simp add: pop_ooSeq_def)

lemma scan_end_fields [simp]:
  "pop_state (scan_end e s) = pop_state s" "pop_user (scan_end e s) = pop_user s"
  "messages (scan_end e s) = messages s" "retain (scan_end e s) = retain s" "msgCount (scan_end e s) = msgCount s"
  "pop_in (scan_end e s) = pop_in s" "pop_tls_in (scan_end e s) = pop_tls_in s"
  "pop_world (scan_end e s) = pop_world s" "pop_crashed (scan_end e s) = pop_crashed s"
  by (simp_all add: scan_end_def)

lemma sendMessage_fields [simp]:
  "pop_state (sendMessage m s) = pop_state s" "pop_user (sendMessage m s) = pop_user s"
  "messages (sendMessage m s) = messages s" "retain (sendMessage m s) = retain s" "msgCount (sendMessage m s) = msgCount s"
  "pop_in (sendMessage m s) = pop_in s" "pop_tls_in (sendMessage m s) = pop_tls_in s"
  "pop_world (sendMessage m s) = pop_world s" "pop_crashed (sendMessage m s) = pop_crashed s"
  by (auto simp: sendMessage_def case_prod_beta Let_def split: option.split)

lemma sendMessageTop_fields [simp]:
  "pop_state (sendMessageTop m n s) = pop_state s" "pop_user (sendMessageTop m n s) = pop_user s"
  "messages (sendMessageTop m n s) = messages s" "retain (sendMessageTop m n s) = retain s"
  "msgCount (sendMessageTop m n s) = msgCount s" "pop_in (sendMessageTop m n s) = pop_in s"
  "pop_tls_in (sendMessageTop m n s) = pop_tls_in s" "pop_world (sendMessageTop m n s) = pop_world s"
  "pop_crashed (sendMessageTop m n s) = pop_crashed s"
  by (auto simp: sendMessageTop_def case_prod_beta Let_def split: option.split)

lemmas transaction_defs = pop_STAT_def pop_LIST_def pop_DELE_def pop_RETR_def pop_TOP_def

lemma transaction_commands_keep [simp]:
  "pop_world (pop_STAT args s) = pop_world s" "pop_world (pop_LIST cmd f args s) = pop_world s"
  "pop_world (pop_DELE args s) = pop_world s" "pop_world (pop_RETR args s) = pop_world s"
  "pop_world (pop_TOP args s) = pop_world s"
  "pop_in (pop_STAT args s) = pop_in s" "pop_in (pop_LIST cmd f args s) = pop_in s"
  "pop_in (pop_DELE args s) = pop_in s" "pop_in (pop_RETR args s) = pop_in s" "pop_in (pop_TOP args s) = pop_in s"
  "pop_tls_in (pop_STAT args s) = pop_tls_in s" "pop_tls_in (pop_LIST cmd f args s) = pop_tls_in s"
  "pop_tls_in (pop_DELE args s) = pop_tls_in s" "pop_tls_in (pop_RETR args s) = pop_tls_in s"
  "pop_tls_in (pop_TOP args s) = pop_tls_in s"
  "pop_state (pop_STAT args s) = pop_state s" "pop_state (pop_LIST cmd f args s) = pop_state s"
  "pop_state (pop_DELE args s) = pop_state s" "pop_state (pop_RETR args s) = pop_state s"
  "pop_state (pop_TOP args s) = pop_state s"
  by (simp_all add: transaction_defs Let_def split: list.split option.split sum.split)

lemma transactionHandler_input [simp]:
  "pop_in (transactionHandler sv cmd args s) = pop_in s" "pop_tls_in (transactionHandler sv cmd args s) = pop_tls_in s"
  by (simp_all add: transactionHandler_def processDeletes_def pop_ooSeq_def)

lemma loadMailbox_fields [simp]:
  "pop_in (loadMailbox sv s) = pop_in s" "pop_tls_in (loadMailbox sv s) = pop_tls_in s"
  "pop_state (loadMailbox sv s) = pop_state s" "pop_user (loadMailbox sv s) = pop_user s"
  "pop_crashed (loadMailbox sv s) = pop_crashed s"
  by (simp_all add: loadMailbox_def case_prod_beta Let_def)

lemma authorizationHandler_input:
  "length (pop_in (authorizationHandler sv cmd args s)) + length (pop_tls_in (authorizationHandler sv cmd args s))
     \<le> length (pop_in s) + length (pop_tls_in s)"
  by (auto simp: authorizationHandler_def pop_ooSeq_def Let_def split: list.split)

lemma pop_command_input:
  assumes "pop_command sv line s = (s', cont)"
  shows "length (pop_in s') + length (pop_tls_in s') \<le> length (pop_in s) + length (pop_tls_in s)"
proof -
  obtain cmd args where p: "pop_parseCmd line = (cmd, args)" by fastforce
  show ?thesis
    using assms authorizationHandler_input [of sv cmd args s] unfolding pop_command_def p Let_def prod.case
    by (cases "pop_state s") (auto split: if_splits)
qed

subsection \<open>The loop\<close>

definition pop_measure :: "'st PopSession \<Rightarrow> nat" where
  "pop_measure s = length (pop_in s) + length (pop_tls_in s)"

lemma pop_body_decreases:
  assumes "pop_body sv s = (s', True)"
  shows "pop_measure s' < pop_measure s"
proof -
  obtain r rest where r: "ReadString (pop_in s) = (r, rest)" by fastforce
  show ?thesis
  proof (cases r)
    case (Inl e)
    with assms r show ?thesis by (auto simp: pop_body_def pop_readLine_def Let_def split: if_splits)
  next
    case (Inr line)
    with r have "pop_in s \<noteq> []" by auto
    with ReadString_length [OF r] have len: "length rest < length (pop_in s)" by simp
    from assms r Inr have "pop_command sv line (s\<lparr>pop_in := rest\<rparr>) = (s', True)"
      by (simp add: pop_body_def pop_readLine_def)
    from pop_command_input [OF this] len show ?thesis by (simp add: pop_measure_def)
  qed
qed

function pop_loop :: "'st PopServer \<Rightarrow> 'st PopSession \<Rightarrow> 'st PopSession" where
  "pop_loop sv s =
     (if pop_state s = POP_QUIT \<or> pop_sendError s then s
      else (case pop_body sv s of (s', cont) \<Rightarrow> if cont then pop_loop sv s' else s'))"
  by auto

termination
  by (relation "measure (\<lambda>(sv, s). pop_measure s)") (auto dest!: sym [of _ "pop_body _ _"] pop_body_decreases)

declare pop_loop.simps [simp del]

definition pop_startSession :: "'st PopServer \<Rightarrow> int \<Rightarrow> int \<Rightarrow> bool \<Rightarrow> inev list \<Rightarrow> inev list \<Rightarrow> bool list \<Rightarrow> bool list
    \<Rightarrow> 'st \<Rightarrow> 'st PopSession" where
  "pop_startSession sv pid now tls input tls_input hs ws st =
     pop_loop sv (pop_greet sv pid now (pop_NewSession sv tls input tls_input hs ws st))"

inductive pop_reach :: "'st PopServer \<Rightarrow> 'st PopSession \<Rightarrow> 'st PopSession \<Rightarrow> bool" for sv s0 where
  pop_reach_start: "pop_reach sv s0 s0"
| pop_reach_step: "pop_reach sv s0 s \<Longrightarrow> pop_state s \<noteq> POP_QUIT \<Longrightarrow> \<not> pop_sendError s \<Longrightarrow> pop_body sv s = (s', cont)
    \<Longrightarrow> pop_reach sv s0 s'"

lemma pop_reach_trans: "pop_reach sv s1 s2 \<Longrightarrow> pop_reach sv s0 s1 \<Longrightarrow> pop_reach sv s0 s2"
  by (induction rule: pop_reach.induct) (auto intro: pop_reach.intros)

lemma pop_loop_over:
  "pop_reach sv s (pop_loop sv s) \<and> (pop_state (pop_loop sv s) = POP_QUIT \<or> pop_sendError (pop_loop sv s)
    \<or> (\<exists>s1. pop_reach sv s s1 \<and> pop_state s1 \<noteq> POP_QUIT \<and> pop_body sv s1 = (pop_loop sv s, False)))"
proof (induction sv s rule: pop_loop.induct)
  case (1 sv s)
  show ?case
  proof (cases "pop_state s = POP_QUIT \<or> pop_sendError s")
    case True
    then have "pop_loop sv s = s" by (subst pop_loop.simps) simp
    with True show ?thesis by (auto intro: pop_reach_start)
  next
    case False
    obtain s' cont where b: "pop_body sv s = (s', cont)" by fastforce
    have step: "pop_reach sv s s'" using False by (intro pop_reach_step [OF pop_reach_start _ _ b]) auto
    show ?thesis
    proof (cases cont)
      case True
      with False b have l: "pop_loop sv s = pop_loop sv s'" by (subst pop_loop.simps) simp
      from 1 [OF False b [symmetric] True] show ?thesis
        unfolding l using pop_reach_trans [OF _ step] by blast
    next
      case c: False
      with False b have l: "pop_loop sv s = s'" by (subst pop_loop.simps) simp
      with b c step show ?thesis using pop_reach_start [of sv s] False by auto
    qed
  qed
qed

subsection \<open>The invariant\<close>

definition pop_inv :: "'st PopSession \<Rightarrow> bool" where
  "pop_inv s \<longleftrightarrow> length (retain s) = length (messages s) \<and> msgCount s = int (length (filter id (retain s)))
     \<and> \<not> pop_crashed s"

lemma pop_inv_send [simp]: "pop_inv (pop_send m s) = pop_inv s" "pop_inv (pop_send_all ls s) = pop_inv s"
  "pop_inv (pop_enterState st s) = pop_inv s" "pop_inv (sendMessage msg s) = pop_inv s"
  "pop_inv (sendMessageTop msg n s) = pop_inv s"
  by (simp_all add: pop_inv_def)

lemma pop_inv_fields [simp]:
  "pop_inv (s\<lparr>pop_in := x\<rparr>) = pop_inv s" "pop_inv (s\<lparr>pop_user := u\<rparr>) = pop_inv s"
  "pop_inv (s\<lparr>pop_world := w\<rparr>) = pop_inv s" "pop_inv (s\<lparr>handshakes := hs\<rparr>) = pop_inv s"
  "pop_inv (s\<lparr>pop_in := x, pop_tls_in := y, pop_tlsState := z\<rparr>) = pop_inv s"
  by (simp_all add: pop_inv_def)

lemma retainAll_inv: "\<not> pop_crashed s \<Longrightarrow> pop_inv (retainAll s)"
  by (simp add: pop_inv_def)

lemma loadMailbox_inv: "pop_inv s \<Longrightarrow> pop_inv (loadMailbox sv s)"
  by (simp add: loadMailbox_def case_prod_beta Let_def pop_inv_def)

lemma msg_index_bound: "msg_index cmd arg a s = Ok i \<Longrightarrow> i < length (messages s)"
  by (auto simp: msg_index_def split: option.splits if_splits)

lemma transaction_commands_inv:
  assumes "pop_inv s"
  shows "pop_inv (pop_STAT args s)" and "pop_inv (pop_LIST cmd f args s)" and "pop_inv (pop_DELE args s)"
    and "pop_inv (pop_RETR args s)" and "pop_inv (pop_TOP args s)"
proof -
  have len: "length (retain s) = length (messages s)" and c: "\<not> pop_crashed s"
    and n: "msgCount s = int (length (filter id (retain s)))" using assms by (simp_all add: pop_inv_def)
  have bound: "\<not> length (retain s) \<le> i" if "msg_index cmd arg a s = Ok i" for cmd arg a i
    using msg_index_bound [OF that] len by simp
  have dele: "pop_inv (s\<lparr>retain := (retain s)[i := False], msgCount := msgCount s - 1\<rparr>)"
    if "\<not> length (retain s) \<le> i" "retain s ! i" for i
    using filter_upd_False [of i "retain s" False] that len c n by (simp add: pop_inv_def)
  show "pop_inv (pop_STAT args s)" using assms by (simp add: pop_STAT_def Let_def)
  show "pop_inv (pop_LIST cmd f args s)"
    using assms by (auto simp: pop_LIST_def split: list.split sum.split dest: bound)
  show "pop_inv (pop_DELE args s)"
    using assms dele by (auto simp: pop_DELE_def split: list.split sum.split dest: bound)
  show "pop_inv (pop_RETR args s)" using assms by (auto simp: pop_RETR_def split: list.split sum.split)
  show "pop_inv (pop_TOP args s)" using assms by (auto simp: pop_TOP_def split: list.split sum.split option.split)
qed

lemma transactionHandler_inv: "pop_inv s \<Longrightarrow> pop_inv (transactionHandler sv cmd args s)"
proof -
  assume i: "pop_inv s"
  then have "pop_inv (retainAll s)" by (intro retainAll_inv) (simp add: pop_inv_def)
  with i show ?thesis
    by (simp add: transactionHandler_def transaction_commands_inv processDeletes_def pop_ooSeq_def)
qed

lemma authorizationHandler_inv: "pop_inv s \<Longrightarrow> pop_inv (authorizationHandler sv cmd args s)"
  by (simp add: authorizationHandler_def pop_ooSeq_def Let_def loadMailbox_inv split: list.split)

lemma pop_body_inv:
  assumes "pop_inv s" and "pop_body sv s = (s', cont)"
  shows "pop_inv s'"
proof -
  obtain r rest where r: "ReadString (pop_in s) = (r, rest)" by fastforce
  show ?thesis
  proof (cases r)
    case (Inl e)
    with assms r show ?thesis by (auto simp: pop_body_def pop_readLine_def Let_def split: if_splits)
  next
    case (Inr line)
    obtain cmd args where p: "pop_parseCmd line = (cmd, args)" by fastforce
    from assms(2) r Inr have c: "pop_command sv line (s\<lparr>pop_in := rest\<rparr>) = (s', cont)"
      by (simp add: pop_body_def pop_readLine_def)
    have "pop_inv (s\<lparr>pop_in := rest\<rparr>)" using assms(1) by simp
    with c show ?thesis
      using transactionHandler_inv [of "s\<lparr>pop_in := rest\<rparr>" sv cmd args]
        authorizationHandler_inv [of "s\<lparr>pop_in := rest\<rparr>" sv cmd args]
      unfolding pop_command_def p Let_def prod.case
      by (cases "pop_state s") (auto split: if_splits)
  qed
qed

lemma pop_reach_inv: "pop_reach sv s0 s \<Longrightarrow> pop_inv s0 \<Longrightarrow> pop_inv s"
  by (induction rule: pop_reach.induct) (auto intro: pop_body_inv)

lemma pop_start_inv: "pop_inv (pop_greet sv pid now (pop_NewSession sv tls input tls_input hs ws st))"
  by (simp add: pop_greet_def pop_NewSession_def pop_inv_def)

end
