(* ===== verification/Pop3Props.thy ===== *)
theory Pop3Props
  imports Pop3Loop
begin

text \<open>The properties of a POP3 session.\<close>

subsection \<open>The session\<close>

definition example_pop :: "bool \<Rightarrow> mem_store PopServer" where
  [go_eval]: "example_pop tls = \<lparr>pop_config = \<lparr>pop3_Addr = [], pop3_Domain = ''h'', pop3_Timeout = 0, pop3_Debug = False,
       pop3_TLSEnabled = tls, pop3_TLSPrivKey = [], pop3_TLSCert = [], pop3_ForceTLS = False\<rparr>,
     pop_tlsConfig = tls, pop_store = mem_ops\<rparr>"

definition pop_client :: "string list \<Rightarrow> inev list" where
  [go_eval]: "pop_client ls = concat (map sent_line ls)"



lemma pop_body_stops:
  assumes "pop_body sv s = (s', False)" and "pop_state s \<noteq> POP_QUIT"
  shows "\<exists>e rest. ReadString (pop_in s) = (Err e, rest)"
proof -
  obtain r rest where r: "ReadString (pop_in s) = (r, rest)" by fastforce
  show ?thesis
  proof (cases r)
    case (Inl e)
    with r show ?thesis by simp
  next
    case (Inr line)
    obtain cmd args where p: "pop_parseCmd line = (cmd, args)" by fastforce
    from assms(1) r Inr have c: "pop_command sv line (s\<lparr>pop_in := rest\<rparr>) = (s', False)"
      by (simp add: pop_body_def pop_readLine_def)
    then have False
      using assms(2) unfolding pop_command_def p Let_def prod.case
      by (cases "pop_state s") (auto split: if_splits)
    then show ?thesis ..
  qed
qed

text \<open>
  A session ends on every input, and only because the client quit, a reply could not be
  written, or a line could not be read.
\<close>
theorem pop_session_ends:
  shows "pop_state (pop_loop sv s) = POP_QUIT \<or> pop_sendError (pop_loop sv s)
    \<or> (\<exists>s1 e rest. pop_reach sv s s1 \<and> ReadString (pop_in s1) = (Err e, rest))"
  using pop_loop_over [of sv s] pop_body_stops by blast

subsection \<open>Deleting\<close>

definition marked :: "message list \<Rightarrow> bool list \<Rightarrow> string set" where
  "marked ms rs = {sID m | m. (m, False) \<in> set (zip ms rs)}"

context message_store
begin

lemma delete_loop_spec:
  assumes "inv st" and "length ms = length rs"
  shows "inv (delete_loop ops user ms rs st)
    \<and> abs (delete_loop ops user ms rs st) = (abs st)(user := filter (\<lambda>m. sID m \<notin> marked ms rs) (abs st user))"
  using assms(2,1)
proof (induction ms rs arbitrary: st rule: list_induct2)
  case Nil
  then show ?case by (simp add: marked_def)
next
  case (Cons m ms r rs)
  show ?case
  proof (cases r)
    case True
    then have "marked (m # ms) (r # rs) = marked ms rs" by (auto simp: marked_def)
    with Cons True show ?thesis by simp
  next
    case False
    let ?st = "snd (RemoveMessage ops st user (sID m))"
    have "marked (m # ms) (r # rs) = insert (sID m) (marked ms rs)" using False by (auto simp: marked_def)
    then have "filter (\<lambda>x. sID x \<notin> marked ms rs) (filter (\<lambda>x. sID x \<noteq> sID m) (abs st user))
        = filter (\<lambda>x. sID x \<notin> marked (m # ms) (r # rs)) (abs st user)"
      by (auto intro: filter_cong)
    with False remove_step [OF Cons.prems, of user "sID m"] Cons.IH [of ?st] show ?thesis
      by (simp add: fun_eq_iff)
  qed
qed

lemma loadMailbox_keeps:
  assumes "pop_store sv = ops" and "inv (pop_world s)"
  shows "inv (pop_world (loadMailbox sv s)) \<and> abs (pop_world (loadMailbox sv s)) = abs (pop_world s)
    \<and> messages (loadMailbox sv s) = abs (pop_world s) (pop_user s)"
proof -
  obtain r st where g: "GetMessages ops (pop_world s) (pop_user s) = (r, st)" by fastforce
  with assms(1) get_messages [OF assms(2) g] inv_get [OF assms(2) g] show ?thesis
    by (simp add: loadMailbox_def Let_def)
qed

lemma authorization_keeps:
  assumes "pop_store sv = ops" and "inv (pop_world s)"
  shows "inv (pop_world (authorizationHandler sv cmd args s))
    \<and> abs (pop_world (authorizationHandler sv cmd args s)) = abs (pop_world s)"
  using assms loadMailbox_keeps [OF assms(1), of s] loadMailbox_keeps [OF assms(1), of "s\<lparr>pop_user := hd args\<rparr>"]
  by (simp add: authorizationHandler_def pop_ooSeq_def Let_def split: list.split)

lemma transaction_keeps:
  assumes "pop_store sv = ops" and "inv (pop_world s)" and "length (retain s) = length (messages s)"
  shows "inv (pop_world (transactionHandler sv cmd args s))
    \<and> (if cmd = ''QUIT''
       then abs (pop_world (transactionHandler sv cmd args s))
         = (abs (pop_world s))(pop_user s := filter (\<lambda>m. sID m \<notin> marked (messages s) (retain s)) (abs (pop_world s) (pop_user s)))
       else abs (pop_world (transactionHandler sv cmd args s)) = abs (pop_world s))"
  using assms delete_loop_spec [OF assms(2) assms(3) [symmetric], of "pop_user s"]
  by (simp add: transactionHandler_def processDeletes_def pop_ooSeq_def)

lemma pop_body_keeps:
  assumes "pop_store sv = ops" and "inv (pop_world s)" and "pop_inv s" and "pop_body sv s = (s', cont)"
  shows "inv (pop_world s') \<and> (pop_state s' \<noteq> POP_QUIT \<longrightarrow> abs (pop_world s') = abs (pop_world s))"
proof -
  obtain r rest where r: "ReadString (pop_in s) = (r, rest)" by fastforce
  show ?thesis
  proof (cases r)
    case (Inl e)
    with assms r show ?thesis by (auto simp: pop_body_def pop_readLine_def Let_def split: if_splits)
  next
    case (Inr line)
    obtain cmd args where p: "pop_parseCmd line = (cmd, args)" by fastforce
    let ?s = "s\<lparr>pop_in := rest\<rparr>"
    from assms(4) r Inr have c: "pop_command sv line ?s = (s', cont)" by (simp add: pop_body_def pop_readLine_def)
    have q: "pop_state (transactionHandler sv ''QUIT'' args ?s) = POP_QUIT" by (simp add: transactionHandler_def)
    have len: "length (retain ?s) = length (messages ?s)" using assms(3) by (simp add: pop_inv_def)
    have i: "inv (pop_world ?s)" using assms(2) by simp
    note a = authorization_keeps [OF assms(1) i, of cmd args] transaction_keeps [OF assms(1) i len, of cmd args]
    show ?thesis
      using c a q assms(2) unfolding pop_command_def p Let_def prod.case
      by (cases "pop_state s"; cases "cmd = ''QUIT''") (auto split: if_splits)
  qed
qed

end

text \<open>
  C7: a QUIT in the transaction state deletes from the user's mailbox exactly the messages the
  session marked; messages delivered since the login stay, and so does every other mailbox.
\<close>
theorem pop_quit_deletes_marked:
  assumes "mem_New cap mk = Some s0" and "mem_run s0 (pop_world s)" and "pop_store sv = mem_ops"
    and "length (retain s) = length (messages s)"
  shows "mem_abs (pop_world (transactionHandler sv ''QUIT'' args s)) n
    = (if n = pop_user s then filter (\<lambda>m. sID m \<notin> marked (messages s) (retain s)) (mem_abs (pop_world s) n)
       else mem_abs (pop_world s) n)"
proof -
  have "mem_ok (pop_world s)" using mem_run_spec [OF assms(2)] mem_New_spec(1) [OF assms(1)] by simp
  from mem.transaction_keeps [OF assms(3) this assms(4), of "''QUIT''" args] show ?thesis by simp
qed

definition example_open :: "mem_store PopSession" where
  [go_eval]: "example_open = (pop_NewSession (example_pop False) False [] [] [] [] example_two)
     \<lparr>pop_state := TRANSACTION, pop_user := ''a'', messages := mem_abs example_two ''a'', retain := [False, True], msgCount := 1\<rparr>"

theorem pop_quit_deletes_marked_witness:
  "map sID (mem_abs (pop_world (transactionHandler (example_pop False) ''QUIT'' [] example_open)) ''a'') = [''2'']"
proof -
  have two: "mem_abs example_two ''a'' = [a, b] \<Longrightarrow> sID a = ''1'' \<and> sID b = ''2''" for a b
    using example_two_ids by simp
  obtain a b where ab: "mem_abs example_two ''a'' = [a, b]"
    using example_two_ids by (auto simp: map_eq_Cons_conv)
  have w: "pop_world example_open = example_two" "pop_user example_open = ''a''" "messages example_open = [a, b]"
    "retain example_open = [False, True]" by (simp_all add: example_open_def pop_NewSession_def ab)
  have r: "mem_run example_store (pop_world example_open)" using example_run w by simp
  have st: "pop_store (example_pop False) = mem_ops" by (simp add: example_pop_def)
  have "length (retain example_open) = length (messages example_open)" using w by simp
  from pop_quit_deletes_marked [OF example_New r st this, of "[]" "''a''"] show ?thesis
    using two [OF ab] by (simp add: w ab marked_def)
qed

text \<open>
  Until a session reaches the end of its QUIT, it deletes nothing: in every other state that
  the session can be in, also when the connection breaks, all mailboxes hold what they held.
\<close>
theorem pop_no_delete_without_quit:
  assumes "mem_New cap mk = Some s0" and "mem_run s0 st" and "pop_store sv = mem_ops"
    and "pop_reach sv (pop_greet sv pid now (pop_NewSession sv tls input tls_input hs ws st)) s"
    and "pop_state s \<noteq> POP_QUIT"
  shows "mem_abs (pop_world s) = mem_abs st"
proof -
  have ok: "mem_ok st" using mem_run_spec [OF assms(2)] mem_New_spec(1) [OF assms(1)] by simp
  let ?s = "pop_greet sv pid now (pop_NewSession sv tls input tls_input hs ws st)"
  have w: "pop_world ?s = st" by (simp add: pop_greet_def pop_NewSession_def)
  have "pop_reach sv ?s s \<Longrightarrow> pop_inv s \<and> mem_ok (pop_world s) \<and> (pop_state s \<noteq> POP_QUIT \<longrightarrow> mem_abs (pop_world s) = mem_abs st)"
  proof (induction rule: pop_reach.induct)
    case pop_reach_start
    then show ?case using ok w pop_start_inv by simp
  next
    case (pop_reach_step s s' cont)
    then show ?case
      using mem.pop_body_keeps [OF assms(3) _ _ pop_reach_step.hyps(4)] pop_body_inv [OF _ pop_reach_step.hyps(4)] by auto
  qed
  then show ?thesis using assms(4,5) by blast
qed

theorem pop_no_delete_without_quit_witness:
  "mem_abs (pop_world (pop_greet (example_pop False) 7 8
     (pop_NewSession (example_pop False) False [] [] [] [] example_two))) = mem_abs example_two"
  by (rule pop_no_delete_without_quit [OF example_New example_run _ pop_reach_start])
     (simp_all add: example_pop_def pop_greet_def pop_NewSession_def)

subsection \<open>Reading\<close>

lemma pop_send_ok: "pop_writes s = [] \<Longrightarrow> pop_send m s = s\<lparr>pop_sent := pop_sent s @ [m]\<rparr>"
  by (simp add: pop_send_def)

lemma pop_send_all_ok: "pop_writes s = [] \<Longrightarrow> pop_send_all ls s = s\<lparr>pop_sent := pop_sent s @ ls\<rparr>"
proof (induction ls arbitrary: s)
  case (Cons l ls)
  have "pop_writes (pop_send l s) = []" using Cons.prems by (simp add: pop_send_ok)
  from Cons.IH [OF this] Cons.prems show ?case by (simp add: pop_send_ok)
qed simp

lemma msg_index_Utoa:
  "i < length (messages s) \<Longrightarrow> int (Suc i) < 2 ^ 31 \<Longrightarrow> msg_index cmd arg (Utoa (Suc i)) s = Ok i"
  using ParseInt_Utoa [of "Suc i" 32] by (simp add: msg_index_def)

lemma pop_RETR_data:
  assumes "i < length (messages s)" and "int (Suc i) < 2 ^ 31" and "pop_writes s = []"
    and "sSource (messages s ! i) = Some src" and "scan_lines src = (ls, False)"
  shows "\<exists>data. pop_sent (pop_RETR [Utoa (Suc i)] s)
      = pop_sent s @ [''+OK '' @ Itoa (sSize (messages s ! i)) @ '' bytes follows''] @ data
    \<and> ReadDotBytes (pop_client data @ rest) = (Ok (unlines ls), rest)"
proof -
  let ?data = "map dot_stuff ls @ [''.'']"
  have "pop_sent (pop_RETR [Utoa (Suc i)] s)
      = pop_sent s @ [''+OK '' @ Itoa (sSize (messages s ! i)) @ '' bytes follows''] @ ?data"
    using msg_index_Utoa [OF assms(1,2)] assms(3-5)
    by (simp add: pop_RETR_def sendMessage_def scan_end_def pop_send_ok pop_send_all_ok)
  moreover have "\<forall>l\<in>set ls. LF \<notin> set l" using scan_lines_no_LF [of _ src] assms(5) by simp
  then have "ReadDotBytes (dot_wire ls @ rest) = (Ok (unlines ls), rest)"
    by (rule dot_wire_read)
  then have "ReadDotBytes (pop_client ?data @ rest) = (Ok (unlines ls), rest)"
    by (simp add: dot_wire_def pop_client_def comp_def)
  ultimately show ?thesis by blast
qed

text \<open>
  RETR of a message whose lines the scanner can hold sends the announcement and then lines
  from which a client that undoes the dot stuffing reads exactly the lines of the message's
  source, and nothing after the final dot.
\<close>
theorem pop_RETR_roundtrip:
  assumes "i < length (messages s)" and "int (Suc i) < 2 ^ 31" and "pop_writes s = []"
    and "sSource (messages s ! i) = Some src" and "scan_lines src = (ls, False)"
  shows "\<exists>data. pop_sent (pop_RETR [Utoa (Suc i)] s)
      = pop_sent s @ [''+OK '' @ Itoa (sSize (messages s ! i)) @ '' bytes follows''] @ data
    \<and> ReadDotBytes (pop_client data @ rest) = (Ok (unlines ls), rest)"
  using assms by (rule pop_RETR_data)

definition example_lines :: "mem_store PopSession" where
  [go_eval]: "example_lines = example_open\<lparr>messages := [example_msg ''a'' (unlines [''H: v'', [], ''.x'', ''y''])], retain := [True]\<rparr>"

lemma scan_example: "scan_lines (unlines [''H: v'', [], ''.x'', ''y'']) = ([''H: v'', [], ''.x'', ''y''], False)"
  by (subst scan_unlines) (simp_all add: MaxScanTokenSize_def drop_cr_def)

theorem pop_RETR_roundtrip_witness:
  "\<exists>data. pop_sent (pop_RETR [Utoa (Suc 0)] example_lines)
      = pop_sent example_lines @ [''+OK '' @ Itoa (sSize (messages example_lines ! 0)) @ '' bytes follows''] @ data
    \<and> ReadDotBytes (pop_client data @ []) = (Ok (unlines [''H: v'', [], ''.x'', ''y'']), [])"
  by (rule pop_RETR_roundtrip [where src = "unlines [''H: v'', [], ''.x'', ''y'']"])
     (simp_all add: example_lines_def example_open_def example_msg_def pop_NewSession_def scan_example)

text \<open>The lines TOP is to send: the header, the blank line after it and \<open>n\<close> lines of the body.\<close>

definition top_spec :: "nat \<Rightarrow> string list \<Rightarrow> string list" where
  "top_spec n ls = takeWhile (\<lambda>l. l \<noteq> []) ls
     @ (case dropWhile (\<lambda>l. l \<noteq> []) ls of [] \<Rightarrow> [] | l # body \<Rightarrow> l # take n body)"

lemma dot_stuff_Nil [simp]: "dot_stuff l = [] \<longleftrightarrow> l = []"
  by (cases l) (auto simp: dot_stuff_def HasPrefix_def)

lemma top_loop_body: "0 \<le> n \<Longrightarrow> fst (top_loop True n ls) = map dot_stuff (take (nat n) ls)"
proof (induction ls arbitrary: n)
  case (Cons l ls)
  show ?case
  proof (cases "n < 1")
    case True
    with Cons.prems show ?thesis by simp
  next
    case False
    then obtain m where m: "nat n = Suc m" "nat (n - 1) = m" using Cons.prems by (cases "nat n") auto
    with False Cons.IH [of "n - 1"] show ?thesis by (simp add: case_prod_beta Let_def)
  qed
qed simp

lemma top_loop_spec: "0 \<le> n \<Longrightarrow> fst (top_loop False n ls) = map dot_stuff (top_spec (nat n) ls)"
proof (induction ls)
  case (Cons l ls)
  then show ?case using top_loop_body [OF Cons.prems] by (simp add: case_prod_beta Let_def top_spec_def dot_stuff_def HasPrefix_def)
qed (simp add: top_spec_def)

text \<open>
  TOP with a line count sends, dot stuffed, the header lines, the blank line and as many
  lines of the body as asked for or there are, and the final dot.
\<close>
theorem pop_TOP_lines:
  assumes "i < length (messages s)" and "int (Suc i) < 2 ^ 31" and "int n < 2 ^ 31" and "pop_writes s = []"
    and "sSource (messages s ! i) = Some src" and "scan_lines src = (ls, False)"
  shows "pop_sent (pop_TOP [Utoa (Suc i), Utoa n] s)
    = pop_sent s @ [''+OK Top of message follows''] @ map dot_stuff (top_spec n ls) @ [''.'']"
  using msg_index_Utoa [OF assms(1,2)] ParseInt_Utoa [of n 32] assms(3-6) top_loop_spec [of "int n" ls]
  by (simp add: pop_TOP_def sendMessageTop_def scan_end_def pop_send_ok pop_send_all_ok case_prod_beta Let_def)

theorem pop_TOP_lines_witness:
  "pop_sent (pop_TOP [Utoa (Suc 0), Utoa 1] example_lines)
    = pop_sent example_lines @ [''+OK Top of message follows''] @ map dot_stuff [''H: v'', [], ''.x''] @ [''.'']"
proof -
  have "pop_sent (pop_TOP [Utoa (Suc 0), Utoa 1] example_lines)
    = pop_sent example_lines @ [''+OK Top of message follows''] @ map dot_stuff (top_spec 1 [''H: v'', [], ''.x'', ''y'']) @ [''.'']"
    by (rule pop_TOP_lines [where src = "unlines [''H: v'', [], ''.x'', ''y'']"])
       (simp_all add: example_lines_def example_open_def example_msg_def pop_NewSession_def scan_example)
  then show ?thesis by (simp add: top_spec_def)
qed

subsection \<open>Marking\<close>

text \<open>
  After DELE the message is marked, so that listings and the statistics leave it out and a
  second DELE is refused, and RSET brings every message back.
\<close>
theorem pop_DELE_then_RSET:
  assumes "pop_inv s" and "i < length (messages s)" and "int (Suc i) < 2 ^ 31" and "retain s ! i"
  shows "retain (pop_DELE [Utoa (Suc i)] s) = (retain s)[i := False]
    \<and> pop_DELE [Utoa (Suc i)] (pop_DELE [Utoa (Suc i)] s)
        = pop_send (''-ERR Message '' @ Utoa (Suc i) @ '' has already been deleted'') (pop_DELE [Utoa (Suc i)] s)
    \<and> msgCount (pop_DELE [Utoa (Suc i)] s) = msgCount s - 1
    \<and> retain (transactionHandler sv ''RSET'' args (pop_DELE [Utoa (Suc i)] s)) = replicate (length (messages s)) True"
proof -
  have len: "length (retain s) = length (messages s)" using assms(1) by (simp add: pop_inv_def)
  let ?s1 = "pop_send (''+OK Deleted message '' @ Utoa (Suc i)) (s\<lparr>retain := (retain s)[i := False], msgCount := msgCount s - 1\<rparr>)"
  have d: "pop_DELE [Utoa (Suc i)] s = ?s1"
    using msg_index_Utoa [OF assms(2,3)] assms(2,4) len by (simp add: pop_DELE_def)
  have "i < length (messages ?s1)" using assms(2) by simp
  from msg_index_Utoa [OF this assms(3)]
  have "pop_DELE [Utoa (Suc i)] ?s1 = pop_send (''-ERR Message '' @ Utoa (Suc i) @ '' has already been deleted'') ?s1"
    using assms(2) len by (simp add: pop_DELE_def)
  then show ?thesis unfolding d by (simp add: transactionHandler_def)
qed

theorem pop_DELE_then_RSET_witness:
  "retain (pop_DELE [Utoa (Suc 1)] example_open) = [False, False]"
proof -
  have l: "length (mem_abs example_two ''a'') = 2" using example_two_ids by (metis length_map length_Cons list.size(3) numeral_2_eq_2)
  have "pop_inv example_open" "1 < length (messages example_open)" "retain example_open ! 1" "retain example_open = [False, True]"
    by (simp_all add: example_open_def pop_NewSession_def pop_inv_def l)
  from pop_DELE_then_RSET [OF this(1,2) _ this(3)] this(4) show ?thesis by simp
qed

text \<open>
  The TLS state belongs to the server: once one session has accepted STLS, every later
  session of the server is refused it, and its capabilities no longer offer it, although that
  session talks in plain text.
\<close>
theorem pop_stls_once_per_server:
  assumes "pop3_TLSEnabled (pop_config sv)" and "\<not> pop3_ForceTLS (pop_config sv)" and "\<not> pop_tlsState s"
    and "s1 = authorizationHandler sv ''STLS'' args s"
    and "s2 = pop_NewSession sv (pop_tlsState s1) input tls_input hs ws st"
  shows "authorizationHandler sv ''STLS'' args s2 = pop_send ''-ERR A TLS session already agreed upon.'' s2
    \<and> ''STLS'' \<notin> set (capabilities sv s2) \<and> pop_in s2 = input"
proof -
  have "pop_tlsState s1"
    unfolding assms(4) using assms(1-3) by (auto simp: authorizationHandler_def Let_def)
  with assms(1,2,5) show ?thesis
    by (simp add: authorizationHandler_def pop_NewSession_def capabilities_def)
qed

theorem pop_stls_once_per_server_witness:
  "''STLS'' \<notin> set (capabilities (example_pop True)
     (pop_NewSession (example_pop True) (pop_tlsState (authorizationHandler (example_pop True) ''STLS'' []
        (pop_NewSession (example_pop True) False [] [] [True] [] example_two))) [] [] [] [] example_two))"
  using pop_stls_once_per_server [OF _ _ _ refl refl, of "example_pop True"
      "pop_NewSession (example_pop True) False [] [] [True] [] example_two" "[]" "[]" "[]" "[]" "[]" example_two]
  by (simp add: example_pop_def pop_NewSession_def)

end
