(* ===== verification/FileSys.thy ===== *)
theory FileSys
  imports Prelude
begin

text \<open>
  The part of Go's \<open>os\<close> package the file store uses, over a tree of directories and files. A path
  is the list of its components. A file holds bytes, or a stream of gob values (a value type of
  the caller's choice) of which the last may be cut off. The calls fail where the tree makes them
  fail; for every other failure (a full disk, a lost device) the state carries a list of outcomes,
  one for each call to come, and a call past its end succeeds. A failing call changes nothing,
  except a write, which leaves a part of its data.
\<close>

type_synonym path = "string list"

datatype 'g fdata = Raw string | Gob "'g list" bool

text \<open>\<open>Fail n torn\<close>: a write leaves \<open>n\<close> bytes or values, and a part of a further value if \<open>torn\<close>.\<close>

datatype outcome = Good | Fail nat bool

record 'g files =
  fdirs :: "path list"
  ffiles :: "(path \<times> 'g fdata) list"
  faults :: "outcome list"

definition next_outcome :: "'g files \<Rightarrow> outcome \<times> 'g files" where
  [go_eval]: "next_outcome w = (case faults w of [] \<Rightarrow> (Good, w) | f # fs \<Rightarrow> (f, w\<lparr>faults := fs\<rparr>))"

definition path_exists :: "'g files \<Rightarrow> path \<Rightarrow> bool" where
  [go_eval]: "path_exists w p \<longleftrightarrow> p \<in> set (fdirs w) \<or> p \<in> fst ` set (ffiles w)"

definition children :: "'g files \<Rightarrow> path \<Rightarrow> string list" where
  [go_eval]: "children w p =
     map last (filter (\<lambda>q. q \<noteq> [] \<and> butlast q = p) (fdirs w @ map fst (ffiles w)))"

text \<open>Every call returns whether it succeeded; \<open>Stat\<close> whether the path exists.\<close>

definition os_Stat :: "path \<Rightarrow> 'g files \<Rightarrow> bool \<times> 'g files" where
  [go_eval]: "os_Stat p w = (let (f, w) = next_outcome w in (f = Good \<and> path_exists w p, w))"

definition os_MkdirAll :: "path \<Rightarrow> 'g files \<Rightarrow> bool \<times> 'g files" where
  [go_eval]: "os_MkdirAll p w =
     (let (f, w) = next_outcome w; ps = filter (\<lambda>q. q \<noteq> []) (prefixes p) in
      if f \<noteq> Good \<or> (\<exists>q\<in>set ps. q \<in> fst ` set (ffiles w)) then (False, w)
      else (True, w\<lparr>fdirs := fdirs w @ filter (\<lambda>q. q \<notin> set (fdirs w)) ps\<rparr>))"

definition os_Create :: "path \<Rightarrow> 'g files \<Rightarrow> bool \<times> 'g files" where
  [go_eval]: "os_Create p w =
     (let (f, w) = next_outcome w in
      if f \<noteq> Good \<or> butlast p \<notin> set (fdirs w) \<or> p \<in> set (fdirs w) then (False, w)
      else (True, w\<lparr>ffiles := AList.update p (Raw []) (ffiles w)\<rparr>))"

text \<open>Writing, flushing and closing a file that \<open>Create\<close> has emptied.\<close>

definition os_WriteRaw :: "path \<Rightarrow> string \<Rightarrow> 'g files \<Rightarrow> bool \<times> 'g files" where
  [go_eval]: "os_WriteRaw p s w =
     (case next_outcome w of
        (Good, w) \<Rightarrow> (True, w\<lparr>ffiles := AList.update p (Raw s) (ffiles w)\<rparr>)
      | (Fail n torn, w) \<Rightarrow> (False, w\<lparr>ffiles := AList.update p (Raw (take n s)) (ffiles w)\<rparr>))"

definition os_WriteGob :: "path \<Rightarrow> 'g list \<Rightarrow> 'g files \<Rightarrow> bool \<times> 'g files" where
  [go_eval]: "os_WriteGob p gs w =
     (case next_outcome w of
        (Good, w) \<Rightarrow> (True, w\<lparr>ffiles := AList.update p (Gob gs False) (ffiles w)\<rparr>)
      | (Fail n torn, w) \<Rightarrow>
          (False, w\<lparr>ffiles := AList.update p (Gob (take n gs) (torn \<and> n < length gs)) (ffiles w)\<rparr>))"

definition os_ReadFile :: "path \<Rightarrow> 'g files \<Rightarrow> 'g fdata option \<times> 'g files" where
  [go_eval]: "os_ReadFile p w =
     (let (f, w) = next_outcome w in (if f \<noteq> Good then None else map_of (ffiles w) p, w))"

definition os_Remove :: "path \<Rightarrow> 'g files \<Rightarrow> bool \<times> 'g files" where
  [go_eval]: "os_Remove p w =
     (let (f, w) = next_outcome w in
      if f \<noteq> Good then (False, w)
      else if p \<in> fst ` set (ffiles w) then (True, w\<lparr>ffiles := AList.delete p (ffiles w)\<rparr>)
      else if p \<in> set (fdirs w) \<and> children w p = []
      then (True, w\<lparr>fdirs := filter (\<lambda>q. q \<noteq> p) (fdirs w)\<rparr>)
      else (False, w))"

definition os_RemoveAll :: "path \<Rightarrow> 'g files \<Rightarrow> bool \<times> 'g files" where
  [go_eval]: "os_RemoveAll p w =
     (let (f, w) = next_outcome w in
      if f \<noteq> Good then (False, w)
      else (True, w\<lparr>fdirs := filter (\<lambda>q. \<not> prefix p q) (fdirs w),
                    ffiles := filter (\<lambda>x. \<not> prefix p (fst x)) (ffiles w)\<rparr>))"

definition os_Readdirnames :: "path \<Rightarrow> 'g files \<Rightarrow> string list option \<times> 'g files" where
  [go_eval]: "os_Readdirnames p w =
     (let (f, w) = next_outcome w in
      (if f \<noteq> Good \<or> p \<notin> set (fdirs w) then None else Some (children w p), w))"

subsection \<open>Without faults\<close>

lemma next_outcome_Nil [simp]: "faults w = [] \<Longrightarrow> next_outcome w = (Good, w)"
  by (simp add: next_outcome_def)

lemma ffiles_key: "p \<in> fst ` set (ffiles w) \<longleftrightarrow> map_of (ffiles w) p \<noteq> None"
  by (metis dom_map_of_conv_image_fst domIff)

lemma os_Stat_ok: "faults w = [] \<Longrightarrow> os_Stat p w = (path_exists w p, w)"
  by (simp add: os_Stat_def)

lemma os_WriteRaw_ok:
  "faults w = [] \<Longrightarrow> os_WriteRaw p s w = (True, w\<lparr>ffiles := AList.update p (Raw s) (ffiles w)\<rparr>)"
  by (simp add: os_WriteRaw_def)

lemma os_WriteGob_ok:
  "faults w = [] \<Longrightarrow> os_WriteGob p gs w = (True, w\<lparr>ffiles := AList.update p (Gob gs False) (ffiles w)\<rparr>)"
  by (simp add: os_WriteGob_def)

lemma os_ReadFile_ok: "faults w = [] \<Longrightarrow> os_ReadFile p w = (map_of (ffiles w) p, w)"
  by (simp add: os_ReadFile_def)

lemma map_of_filter_key: "map_of (filter (\<lambda>x. P (fst x)) al) k = (if P k then map_of al k else None)"
  by (induction al) auto

lemma map_of_update [simp]: "map_of (AList.update k v al) = (map_of al)(k \<mapsto> v)"
  by (simp add: update_conv')

subsection \<open>Well-formed trees\<close>

text \<open>The ancestors of a directory or file are directories.\<close>

definition tree_ok :: "'g files \<Rightarrow> bool" where
  "tree_ok w \<longleftrightarrow> [] \<notin> set (fdirs w)
     \<and> (\<forall>d\<in>set (fdirs w). \<forall>q. q \<noteq> [] \<and> prefix q d \<longrightarrow> q \<in> set (fdirs w))
     \<and> (\<forall>p. map_of (ffiles w) p \<noteq> None \<longrightarrow> p \<noteq> [] \<and> butlast p \<in> set (fdirs w))"

lemma tree_ok_dirs: "tree_ok w \<Longrightarrow> d \<in> set (fdirs w) \<Longrightarrow> q \<noteq> [] \<Longrightarrow> prefix q d \<Longrightarrow> q \<in> set (fdirs w)"
  by (auto simp: tree_ok_def)

lemma tree_ok_file:
  "tree_ok w \<Longrightarrow> map_of (ffiles w) p \<noteq> None \<Longrightarrow> q \<noteq> [] \<Longrightarrow> strict_prefix q p \<Longrightarrow> q \<in> set (fdirs w)"
  unfolding tree_ok_def
  by (metis prefix_snoc append_butlast_last_id strict_prefix_def)

lemma tree_ok_fields [simp]: "tree_ok (w\<lparr>faults := fs\<rparr>) = tree_ok w"
  by (simp add: tree_ok_def)

lemma tree_ok_put:
  "tree_ok w \<Longrightarrow> p \<noteq> [] \<Longrightarrow> butlast p \<in> set (fdirs w) \<Longrightarrow> tree_ok (w\<lparr>ffiles := AList.update p x (ffiles w)\<rparr>)"
  by (auto simp: tree_ok_def)

lemma tree_ok_delete: "tree_ok w \<Longrightarrow> tree_ok (w\<lparr>ffiles := AList.delete p (ffiles w)\<rparr>)"
  by (auto simp: tree_ok_def delete_conv')

lemma tree_ok_mkdir:
  assumes "tree_ok w"
  shows "tree_ok (w\<lparr>fdirs := fdirs w @ filter (\<lambda>q. q \<notin> set (fdirs w)) (filter (\<lambda>q. q \<noteq> []) (prefixes p))\<rparr>)"
  using assms unfolding tree_ok_def by (auto intro: prefix_order.trans)

lemma tree_okI:
  assumes "[] \<notin> set (fdirs w)"
    and "\<And>d q. d \<in> set (fdirs w) \<Longrightarrow> q \<noteq> [] \<Longrightarrow> prefix q d \<Longrightarrow> q \<in> set (fdirs w)"
    and "\<And>p. map_of (ffiles w) p \<noteq> None \<Longrightarrow> p \<noteq> [] \<and> butlast p \<in> set (fdirs w)"
  shows "tree_ok w"
  using assms unfolding tree_ok_def by blast

lemma tree_ok_parent: "tree_ok w \<Longrightarrow> map_of (ffiles w) p \<noteq> None \<Longrightarrow> p \<noteq> [] \<and> butlast p \<in> set (fdirs w)"
  unfolding tree_ok_def by blast

lemma prefix_butlast: "prefix p (butlast q) \<Longrightarrow> prefix p q"
  by (metis append_butlast_last_id butlast.simps(1) prefix_prefix)

lemma tree_ok_subtree:
  assumes "tree_ok w"
  shows "tree_ok (w\<lparr>fdirs := filter (\<lambda>q. \<not> prefix p q) (fdirs w), ffiles := filter (\<lambda>x. \<not> prefix p (fst x)) (ffiles w)\<rparr>)"
proof (rule tree_okI, goal_cases)
  case 1
  then show ?case using assms by (simp add: tree_ok_def)
next
  case (2 d q)
  have "\<not> prefix p q" using 2(1,3) prefix_order.trans by fastforce
  with tree_ok_dirs [OF assms, of d q] 2 show ?case by simp
next
  case (3 f)
  then have f: "map_of (ffiles w) f \<noteq> None" "\<not> prefix p f" using map_of_filter_key [of "\<lambda>q. \<not> prefix p q" "ffiles w" f] by (auto split: if_splits)
  with tree_ok_parent [OF assms f(1)] prefix_butlast [of p f] show ?case by auto
qed

lemma childless_dir:
  assumes w: "tree_ok w" and c: "children w p = []" and p: "p \<noteq> []"
  shows "d \<in> set (fdirs w) \<Longrightarrow> \<not> strict_prefix p d" and "map_of (ffiles w) f \<noteq> None \<Longrightarrow> \<not> strict_prefix p f"
proof -
  have no: "butlast q \<noteq> p" if "q \<noteq> []" "q \<in> set (fdirs w) \<or> map_of (ffiles w) q \<noteq> None" for q
  proof -
    have "q \<in> set (fdirs w @ map fst (ffiles w))" using that(2) ffiles_key [of q w] by auto
    with c that(1) show ?thesis unfolding children_def by (auto simp: filter_empty_conv)
  qed
  show dirs: "\<not> strict_prefix p d" if d: "d \<in> set (fdirs w)" for d
  proof
    assume "strict_prefix p d"
    then obtain x xs where x: "d = p @ x # xs" by (rule strict_prefixE')
    have "p @ [x] \<in> set (fdirs w)" by (rule tree_ok_dirs [OF w d]) (simp_all add: x)
    with no [of "p @ [x]"] show False by simp
  qed
  show "\<not> strict_prefix p f" if f: "map_of (ffiles w) f \<noteq> None"
  proof
    assume s: "strict_prefix p f"
    have "butlast f \<in> set (fdirs w)" "f \<noteq> []" using w f by (auto simp: tree_ok_def)
    with dirs [of "butlast f"] no [of f] f s show False
      by (metis append_butlast_last_id prefix_snoc strict_prefix_def)
  qed
qed

lemma tree_ok_rmdir:
  assumes w: "tree_ok w" and c: "children w p = []" and p: "p \<noteq> []"
  shows "tree_ok (w\<lparr>fdirs := filter (\<lambda>q. q \<noteq> p) (fdirs w)\<rparr>)"
proof (rule tree_okI, goal_cases)
  case 1
  then show ?case using w by (simp add: tree_ok_def)
next
  case (2 d q)
  then have d: "d \<in> set (fdirs w)" "d \<noteq> p" by simp_all
  have "q \<noteq> p" using childless_dir(1) [OF w c p d(1)] 2(3) d(2) by (auto simp: strict_prefix_def)
  with tree_ok_dirs [OF w d(1) 2(2,3)] show ?case by simp
next
  case (3 f)
  then have f: "map_of (ffiles w) f \<noteq> None" by simp
  have "butlast f \<noteq> p"
    using childless_dir(2) [OF w c p f] tree_ok_parent [OF w f] by (metis append_butlast_last_id strict_prefixI')
  with tree_ok_parent [OF w f] show ?case by simp
qed

end
