(* ===== verification/FileStore.thy ===== *)
theory FileStore
  imports Config StoreSpec FileSys
begin

text \<open>
  \<open>pkg/storage/file\<close>: the file store (\<open>fstore.go\<close>, \<open>mbox.go\<close>, \<open>fmessage.go\<close>). Each mailbox is a
  directory with an index file and one raw file per message; every operation makes a fresh
  \<open>mbox\<close>, loads the index, and writes it back. The state holds the file system, the digest
  function behind the directory names, what the clock tells each time an id is made (the time and
  its rendering as a prefix), and how many numbers \<open>countChannel\<close> has given out. A message is
  handed out with the contents its raw file has at that moment. The hash lock makes the operations
  on one mailbox exclude each other, so each is one step.
\<close>

subsection \<open>State\<close>

record fmessage =
  Fid :: string
  Fdate :: int
  Ffrom :: "address option"
  Fto :: "address list"
  Fsubject :: string
  Fsize :: int
  Fseen :: bool

datatype gobval = GobString string | GobMsg fmessage

record fmbox =
  fb_name :: string
  fb_dirName :: string
  fb_path :: path
  fb_indexPath :: path
  fb_indexLoaded :: bool
  fb_messages :: "fmessage list"

record fstore =
  fs_mailPath :: string
  messageCap :: int
  fs_world :: "gobval files"
  fs_sha1 :: "string \<Rightarrow> string"
  fs_clock :: "nat \<Rightarrow> int \<times> string"
  fs_count :: nat
  fs_deleted :: "MessageMetadata list"

definition indexFileName :: string where
  [go_eval]: "indexFileName = ''index.gob''"

definition on_world :: "(gobval files \<Rightarrow> 'a \<times> gobval files) \<Rightarrow> fstore \<Rightarrow> 'a \<times> fstore" where
  [go_eval]: "on_world f st = (let (r, w) = f (fs_world st) in (r, st\<lparr>fs_world := w\<rparr>))"

text \<open>\<open>getMailPath\<close>, without the lexical cleaning of the joined path.\<close>

definition getMailPath :: "string \<Rightarrow> string" where
  [go_eval]: "getMailPath base = map (\<lambda>c. if c = CHR ''$'' then CHR '':'' else c) base @ ''/mail''"

definition file_New :: "storage_config \<Rightarrow> gobval files \<Rightarrow> (string \<Rightarrow> string) \<Rightarrow> (nat \<Rightarrow> int \<times> string) \<Rightarrow> nat
    \<Rightarrow> (store_error, fstore) result" where
  [go_eval]: "file_New cfg w sha1 clk n =
     (let path = (case map_of (Params cfg) ''path'' of None \<Rightarrow> [] | Some p \<Rightarrow> p) in
      if path = [] then Err OsError
      else
        (let mailPath = getMailPath path;
             (ex, w) = os_Stat [mailPath] w;
             (ok, w) = (if ex then (True, w) else os_MkdirAll [mailPath] w)
         in if \<not> ok then Err OsError
            else Ok \<lparr>fs_mailPath = mailPath, messageCap = MailboxMsgCap cfg, fs_world = w, fs_sha1 = sha1,
                     fs_clock = clk, fs_count = n, fs_deleted = []\<rparr>))"

text \<open>
  \<open>generateID\<close>: \<open>countGenerator\<close> gives out 0 to 9999 over and over.
\<close>

definition generateID :: "fstore \<Rightarrow> string \<times> fstore" where
  [go_eval]: "generateID st =
     (snd (fs_clock st (fs_count st)) @ ''-'' @ pad0 4 (Utoa (fs_count st mod 10000)),
      st\<lparr>fs_count := Suc (fs_count st)\<rparr>)"

subsection \<open>Mailboxes\<close>

definition mboxFromHash :: "fstore \<Rightarrow> string \<Rightarrow> fmbox" where
  [go_eval]: "mboxFromHash st hash =
     (let path = [fs_mailPath st, take 3 hash, take 6 hash, hash]
      in \<lparr>fb_name = [], fb_dirName = hash, fb_path = path, fb_indexPath = path @ [indexFileName],
          fb_indexLoaded = False, fb_messages = []\<rparr>)"

definition fs_mbox :: "fstore \<Rightarrow> string \<Rightarrow> fmbox" where
  [go_eval]: "fs_mbox st mailbox =
     (let hash = HashMailboxName (fs_sha1 st) mailbox;
          path = [fs_mailPath st, take 3 hash, take 6 hash, hash]
      in \<lparr>fb_name = mailbox, fb_dirName = hash, fb_path = path, fb_indexPath = path @ [indexFileName],
          fb_indexLoaded = False, fb_messages = []\<rparr>)"

definition rawPath :: "fmbox \<Rightarrow> fmessage \<Rightarrow> path" where
  [go_eval]: "rawPath mb m = fb_path mb @ [Fid m @ ''.raw'']"

text \<open>\<open>Source\<close> and the other getters.\<close>

definition raw_source :: "fstore \<Rightarrow> path \<Rightarrow> string option" where
  [go_eval]: "raw_source st p = (case map_of (ffiles (fs_world st)) p of Some (Raw s) \<Rightarrow> Some s | _ \<Rightarrow> None)"

definition f_to_message :: "fstore \<Rightarrow> fmbox \<Rightarrow> fmessage \<Rightarrow> message" where
  [go_eval]: "f_to_message st mb m =
     \<lparr>sMailbox = fb_name mb, sID = Fid m, sFrom = Ffrom m, sTo = Fto m, sDate = Fdate m,
      sSubject = Fsubject m, sSource = raw_source st (rawPath mb m), sSize = Fsize m, sSeen = Fseen m\<rparr>"

text \<open>
  The loop of \<open>readIndex\<close>: the messages decoded before the end of the stream or an error, and
  whether it was the end.
\<close>

fun decode_msgs :: "gobval list \<Rightarrow> bool \<Rightarrow> bool \<times> fmessage list" where
  "decode_msgs [] torn = (\<not> torn, [])"
| "decode_msgs (GobMsg m # gs) torn = (let (ok, ms) = decode_msgs gs torn in (ok, m # ms))"
| "decode_msgs (GobString s # gs) torn = (False, [])"

definition readIndex :: "fmbox \<Rightarrow> fstore \<Rightarrow> store_error option \<times> fmbox \<times> fstore" where
  [go_eval]: "readIndex mb st =
     (let mb = mb\<lparr>fb_messages := []\<rparr>; (ex, st) = on_world (os_Stat (fb_indexPath mb)) st in
      if \<not> ex then (None, mb\<lparr>fb_indexLoaded := True\<rparr>, st)
      else
        (let (file, st) = on_world (os_ReadFile (fb_indexPath mb)) st in
         case file of
           None \<Rightarrow> (Some OsError, mb, st)
         | Some (Gob (GobString name # gs) torn) \<Rightarrow>
             (let (ok, ms) = decode_msgs gs torn; mb = mb\<lparr>fb_name := name, fb_messages := ms\<rparr>
              in if ok then (None, mb\<lparr>fb_indexLoaded := True\<rparr>, st) else (Some CorruptMailbox, mb, st))
         | _ \<Rightarrow> (Some CorruptMailbox, mb, st)))"

text \<open>What every operation begins with.\<close>

definition load :: "fmbox \<Rightarrow> fstore \<Rightarrow> store_error option \<times> fmbox \<times> fstore" where
  [go_eval]: "load mb st = (if \<not> fb_indexLoaded mb then readIndex mb st else (None, mb, st))"

definition createDir :: "fmbox \<Rightarrow> fstore \<Rightarrow> bool \<times> fstore" where
  [go_eval]: "createDir mb st =
     (let (ex, st) = on_world (os_Stat (fb_path mb)) st in
      if \<not> ex then on_world (os_MkdirAll (fb_path mb)) st else (True, st))"

definition removeDirIfEmpty :: "path \<Rightarrow> fstore \<Rightarrow> bool \<times> fstore" where
  [go_eval]: "removeDirIfEmpty p st =
     (let (names, st) = on_world (os_Readdirnames p) st in
      case names of
        None \<Rightarrow> (False, st)
      | Some names \<Rightarrow> if names \<noteq> [] then (False, st) else on_world (os_Remove p) st)"

definition removeDir :: "fmbox \<Rightarrow> fstore \<Rightarrow> bool \<times> fstore" where
  [go_eval]: "removeDir mb st =
     (let (ok, st) = on_world (os_RemoveAll (fb_path mb)) st in
      if \<not> ok then (False, st)
      else
        (let dir = butlast (fb_path mb); (removed, st) = removeDirIfEmpty dir st in
         (True, if removed then snd (removeDirIfEmpty (butlast dir) st) else st)))"

definition writeIndex :: "fmbox \<Rightarrow> fstore \<Rightarrow> bool \<times> fstore" where
  [go_eval]: "writeIndex mb st =
     (if fb_messages mb \<noteq> [] then
        (let (ok, st) = createDir mb st in
         if \<not> ok then (False, st)
         else
           (let (ok, st) = on_world (os_Create (fb_indexPath mb)) st in
            if \<not> ok then (False, st)
            else on_world (os_WriteGob (fb_indexPath mb) (GobString (fb_name mb) # map GobMsg (fb_messages mb))) st))
      else removeDir mb st)"

definition getMessages :: "fmbox \<Rightarrow> fstore \<Rightarrow> (store_error, message list) result \<times> fstore" where
  [go_eval]: "getMessages mb st =
     (case load mb st of
        (Some e, mb, st) \<Rightarrow> (Err e, st)
      | (None, mb, st) \<Rightarrow> (Ok (map (f_to_message st mb) (fb_messages mb)), st))"

definition getMessage :: "fmbox \<Rightarrow> string \<Rightarrow> fstore \<Rightarrow> (store_error, message option) result \<times> fstore" where
  [go_eval]: "getMessage mb i st =
     (case load mb st of
        (Some e, mb, st) \<Rightarrow> (Err e, st)
      | (None, mb, st) \<Rightarrow>
          if i = ''latest'' \<and> fb_messages mb \<noteq> [] then (Ok (Some (f_to_message st mb (last (fb_messages mb)))), st)
          else (case List.find (\<lambda>m. Fid m = i) (fb_messages mb) of
                  None \<Rightarrow> (Err ErrNotExist, st)
                | Some m \<Rightarrow> (Ok (Some (f_to_message st mb m)), st)))"

text \<open>\<open>removeMessage\<close> also returns the mailbox, which its callers go on using.\<close>

definition f_removeMessage :: "fmbox \<Rightarrow> string \<Rightarrow> fstore \<Rightarrow> store_error option \<times> fmbox \<times> fstore" where
  [go_eval]: "f_removeMessage mb i st =
     (case load mb st of
        (Some e, mb, st) \<Rightarrow> (Some e, mb, st)
      | (None, mb, st) \<Rightarrow>
          (case dropWhile (\<lambda>m. i \<noteq> Fid m) (fb_messages mb) of
             [] \<Rightarrow> (Some ErrNotExist, mb, st)
           | msg # rest \<Rightarrow>
               (let mb = mb\<lparr>fb_messages := takeWhile (\<lambda>m. i \<noteq> Fid m) (fb_messages mb) @ rest\<rparr>;
                    st = st\<lparr>fs_deleted := fs_deleted st @ [MakeMetadata (f_to_message st mb msg)]\<rparr>;
                    (ok, st) = writeIndex mb st
                in if \<not> ok then (Some OsError, mb, st)
                   else if fb_messages mb = [] then (None, mb, st)
                   else (let (ok, st) = on_world (os_Remove (rawPath mb msg)) st
                         in (if ok then None else Some OsError, mb, st)))))"

definition purge :: "fmbox \<Rightarrow> fstore \<Rightarrow> store_error option \<times> fstore" where
  [go_eval]: "purge mb st = (let (ok, st) = writeIndex (mb\<lparr>fb_messages := []\<rparr>) st in (if ok then None else Some OsError, st))"

text \<open>
  The cap loop of \<open>newMessage\<close>: a failing removal is only logged, but has taken the message off the
  list, so the number of messages bounds the iterations (\<open>evict_loop_enough\<close>).
\<close>

fun evict_loop :: "nat \<Rightarrow> fmbox \<Rightarrow> fstore \<Rightarrow> fmbox \<times> fstore" where
  "evict_loop 0 mb st = (mb, st)"
| "evict_loop (Suc n) mb st =
     (if int (length (fb_messages mb)) \<ge> messageCap st \<and> fb_messages mb \<noteq> [] then
        (case f_removeMessage mb (Fid (hd (fb_messages mb))) st of (e, mb, st) \<Rightarrow> evict_loop n mb st)
      else (mb, st))"

definition newMessage :: "fmbox \<Rightarrow> fstore \<Rightarrow> (store_error, fmessage) result \<times> fmbox \<times> fstore" where
  [go_eval]: "newMessage mb st =
     (case load mb st of
        (Some e, mb, st) \<Rightarrow> (Err e, mb, st)
      | (None, mb, st) \<Rightarrow>
          (let (mb, st) = (if messageCap st > 0 then evict_loop (length (fb_messages mb)) mb st else (mb, st));
               date = fst (fs_clock st (fs_count st));
               (i, st) = generateID st
           in (Ok \<lparr>Fid = i, Fdate = date, Ffrom = None, Fto = [], Fsubject = [], Fsize = 0, Fseen = False\<rparr>, mb, st)))"

subsection \<open>Operations\<close>

definition file_AddMessage :: "fstore \<Rightarrow> message \<Rightarrow> (store_error, string) result \<times> fstore" where
  [go_eval]: "file_AddMessage st m =
     (let mb = fs_mbox st (sMailbox m) in
      case sSource m of
        None \<Rightarrow> (Err SourceError, st)
      | Some source \<Rightarrow>
          (case newMessage mb st of
             (Inl e, mb, st) \<Rightarrow> (Err e, st)
           | (Inr fm, mb, st) \<Rightarrow>
               (let (ok, st) = createDir mb st in
                if \<not> ok then (Err OsError, st)
                else
                  (let (ok, st) = on_world (os_Create (rawPath mb fm)) st in
                   if \<not> ok then (Err OsError, st)
                   else
                     (let (ok, st) = on_world (os_WriteRaw (rawPath mb fm) source) st in
                      if \<not> ok then (Err OsError, snd (on_world (os_Remove (rawPath mb fm)) st))
                      else
                        (let fm = fm\<lparr>Fdate := sDate m, Ffrom := sFrom m, Fto := sTo m,
                               Fsize := int (length source), Fsubject := sSubject m\<rparr>;
                             mb = mb\<lparr>fb_messages := fb_messages mb @ [fm]\<rparr>;
                             (ok, st) = writeIndex mb st
                         in if \<not> ok then (Err OsError, snd (on_world (os_Remove (rawPath mb fm)) st))
                            else (Ok (Fid fm), st)))))))"

definition file_GetMessage :: "fstore \<Rightarrow> string \<Rightarrow> string \<Rightarrow> (store_error, message option) result \<times> fstore" where
  [go_eval]: "file_GetMessage st mailbox i = getMessage (fs_mbox st mailbox) i st"

definition file_GetMessages :: "fstore \<Rightarrow> string \<Rightarrow> (store_error, message list) result \<times> fstore" where
  [go_eval]: "file_GetMessages st mailbox = getMessages (fs_mbox st mailbox) st"

text \<open>The loop of \<open>MarkSeen\<close>: \<open>None\<close> when the message is marked already.\<close>

fun seen_loop :: "string \<Rightarrow> fmessage list \<Rightarrow> fmessage list option" where
  "seen_loop i [] = Some []"
| "seen_loop i (m # ms) =
     (if Fid m = i then (if Fseen m then None else Some (m\<lparr>Fseen := True\<rparr> # ms))
      else map_option ((#) m) (seen_loop i ms))"

definition file_MarkSeen :: "fstore \<Rightarrow> string \<Rightarrow> string \<Rightarrow> store_error option \<times> fstore" where
  [go_eval]: "file_MarkSeen st mailbox i =
     (case load (fs_mbox st mailbox) st of
        (Some e, mb, st) \<Rightarrow> (Some e, st)
      | (None, mb, st) \<Rightarrow>
          (case seen_loop i (fb_messages mb) of
             None \<Rightarrow> (None, st)
           | Some ms \<Rightarrow>
               (let (ok, st) = writeIndex (mb\<lparr>fb_messages := ms\<rparr>) st in (if ok then None else Some OsError, st))))"

definition file_RemoveMessage :: "fstore \<Rightarrow> string \<Rightarrow> string \<Rightarrow> store_error option \<times> fstore" where
  [go_eval]: "file_RemoveMessage st mailbox i =
     (case f_removeMessage (fs_mbox st mailbox) i st of (e, mb, st) \<Rightarrow> (e, st))"

definition file_PurgeMessages :: "fstore \<Rightarrow> string \<Rightarrow> store_error option \<times> fstore" where
  [go_eval]: "file_PurgeMessages st mailbox =
     (case load (fs_mbox st mailbox) st of
        (Some e, mb, st) \<Rightarrow> (Some e, st)
      | (None, mb, st) \<Rightarrow>
          purge mb (st\<lparr>fs_deleted := fs_deleted st @ map (\<lambda>m. MakeMetadata (f_to_message st mb m)) (fb_messages mb)\<rparr>))"

subsection \<open>Visiting the mailboxes\<close>

text \<open>
  The three nested loops of \<open>VisitMailboxes\<close>; each returns the error, whether to go on, and the
  states of the store and of the visitor.
\<close>

fun visit_boxes :: "(message list \<Rightarrow> fstore \<Rightarrow> 'a \<Rightarrow> bool \<times> fstore \<times> 'a) \<Rightarrow> string list \<Rightarrow> fstore \<Rightarrow> 'a
    \<Rightarrow> store_error option \<times> bool \<times> fstore \<times> 'a" where
  "visit_boxes f [] st a = (None, True, st, a)"
| "visit_boxes f (name3 # names) st a =
     (if length name3 < 6 then (Some Panic, False, st, a)
      else (case getMessages (mboxFromHash st name3) st of
              (Inl e, st) \<Rightarrow> (Some e, False, st, a)
            | (Inr msgs, st) \<Rightarrow>
                (case f msgs st a of
                   (cont, st, a) \<Rightarrow> if \<not> cont then (None, False, st, a) else visit_boxes f names st a)))"

fun visit_dirs2 :: "(message list \<Rightarrow> fstore \<Rightarrow> 'a \<Rightarrow> bool \<times> fstore \<times> 'a) \<Rightarrow> string \<Rightarrow> string list \<Rightarrow> fstore \<Rightarrow> 'a
    \<Rightarrow> store_error option \<times> bool \<times> fstore \<times> 'a" where
  "visit_dirs2 f name1 [] st a = (None, True, st, a)"
| "visit_dirs2 f name1 (name2 # names) st a =
     (case on_world (os_Readdirnames [fs_mailPath st, name1, name2]) st of
        (None, st) \<Rightarrow> (Some OsError, False, st, a)
      | (Some names3, st) \<Rightarrow>
          (case visit_boxes f names3 st a of
             (e, cont, st, a) \<Rightarrow> if \<not> cont then (e, False, st, a) else visit_dirs2 f name1 names st a))"

fun visit_dirs1 :: "(message list \<Rightarrow> fstore \<Rightarrow> 'a \<Rightarrow> bool \<times> fstore \<times> 'a) \<Rightarrow> string list \<Rightarrow> fstore \<Rightarrow> 'a
    \<Rightarrow> store_error option \<times> bool \<times> fstore \<times> 'a" where
  "visit_dirs1 f [] st a = (None, True, st, a)"
| "visit_dirs1 f (name1 # names) st a =
     (case on_world (os_Readdirnames [fs_mailPath st, name1]) st of
        (None, st) \<Rightarrow> (Some OsError, False, st, a)
      | (Some names2, st) \<Rightarrow>
          (case visit_dirs2 f name1 names2 st a of
             (e, cont, st, a) \<Rightarrow> if \<not> cont then (e, False, st, a) else visit_dirs1 f names st a))"

definition file_VisitMailboxes :: "(message list \<Rightarrow> fstore \<Rightarrow> 'a \<Rightarrow> bool \<times> fstore \<times> 'a) \<Rightarrow> fstore \<Rightarrow> 'a
    \<Rightarrow> store_error option \<times> fstore \<times> 'a" where
  [go_eval]: "file_VisitMailboxes f st a =
     (case on_world (os_Readdirnames [fs_mailPath st]) st of
        (None, st) \<Rightarrow> (Some OsError, st, a)
      | (Some names1, st) \<Rightarrow> (case visit_dirs1 f names1 st a of (e, cont, st, a) \<Rightarrow> (e, st, a)))"

definition file_ops :: "fstore Store" where
  [go_eval]: "file_ops = \<lparr>AddMessage = file_AddMessage, GetMessage = file_GetMessage, GetMessages = file_GetMessages,
     MarkSeen = file_MarkSeen, PurgeMessages = file_PurgeMessages, RemoveMessage = file_RemoveMessage\<rparr>"

end
