(* ===== verification/FileProps.thy ===== *)
theory FileProps
  imports FileStore
begin

text \<open>
  Correctness of the file store while no call of the operating system fails: the representation
  invariant of the directory tree and the index files, what every operation does to the message
  lists, and the interpretation of the storage contracts. SHA-1 is idealised: the invariant holds
  the assumption that no two mailbox names have the same digest.
\<close>

subsection \<open>Names and identifiers\<close>

lemma hex_digit_inj: "a < 16 \<Longrightarrow> b < 16 \<Longrightarrow> hex_digit a = hex_digit b \<Longrightarrow> a = b"
proof -
  assume ab: "a < 16" "b < 16" "hex_digit a = hex_digit b"
  have c: "code (hex_digit n) = (if n < 10 then 48 + n else 87 + n)" if "n < 16" for n
    using that by (simp add: hex_digit_def code_char_of)
  have "code (hex_digit a) = code (hex_digit b)" by (simp only: ab(3))
  with ab(1,2) show "a = b" unfolding c [OF ab(1)] c [OF ab(2)] by (simp split: if_splits)
qed

lemma EncodeToString_Cons:
  "EncodeToString (c # s) = hex_digit (code c div 16) # hex_digit (code c mod 16) # EncodeToString s"
  by (simp add: EncodeToString_def)

lemma EncodeToString_inj: "EncodeToString s = EncodeToString t \<Longrightarrow> s = t"
proof (induction s arbitrary: t)
  case Nil
  then show ?case by (cases t) (simp_all add: EncodeToString_def)
next
  case (Cons c s)
  then obtain d t' where t: "t = d # t'" by (cases t) (simp_all add: EncodeToString_def)
  with Cons.prems have e: "hex_digit (code c div 16) = hex_digit (code d div 16)"
    "hex_digit (code c mod 16) = hex_digit (code d mod 16)" "EncodeToString s = EncodeToString t'"
    by (simp_all add: EncodeToString_Cons)
  have "code c div 16 = code d div 16"
    by (rule hex_digit_inj [OF _ _ e(1)]) (use code_less [of c] code_less [of d] in auto)
  moreover have "code c mod 16 = code d mod 16" by (rule hex_digit_inj [OF _ _ e(2)]) auto
  ultimately have "code c = code d" by (metis div_mult_mod_eq)
  with Cons.IH [OF e(3)] t show ?case by (simp add: code_inj)
qed

lemma length_EncodeToString: "length (EncodeToString s) = 2 * length s"
  by (induction s) (simp_all add: EncodeToString_def)

lemma HashMailboxName_inj: "inj sha1 \<Longrightarrow> HashMailboxName sha1 a = HashMailboxName sha1 b \<Longrightarrow> a = b"
  by (auto simp: HashMailboxName_def dest: EncodeToString_inj injD)

text \<open>The id made when the counter has given out \<open>k\<close> numbers.\<close>

definition gen_id :: "fstore \<Rightarrow> nat \<Rightarrow> string" where
  [go_eval]: "gen_id st k = snd (fs_clock st k) @ ''-'' @ pad0 4 (Utoa (k mod 10000))"

lemma generateID_gen: "generateID st = (gen_id st (fs_count st), st\<lparr>fs_count := Suc (fs_count st)\<rparr>)"
  by (simp add: generateID_def gen_id_def)

subsection \<open>The invariant\<close>

definition mdir :: "fstore \<Rightarrow> string \<Rightarrow> path" where
  "mdir st mb = fb_path (fs_mbox st mb)"

definition rawp :: "fstore \<Rightarrow> string \<Rightarrow> string \<Rightarrow> path" where
  "rawp st mb i = mdir st mb @ [i @ ''.raw'']"

definition ipath :: "fstore \<Rightarrow> string \<Rightarrow> path" where
  "ipath st mb = mdir st mb @ [indexFileName]"

abbreviation filemap :: "fstore \<Rightarrow> path \<Rightarrow> gobval fdata option" where
  "filemap st \<equiv> map_of (ffiles (fs_world st))"

definition base_ok :: "fstore \<Rightarrow> bool" where
  "base_ok st \<longleftrightarrow> faults (fs_world st) = [] \<and> inj (fs_sha1 st) \<and> (\<forall>x. 3 \<le> length (fs_sha1 st x)) \<and> inj_on (gen_id st) {fs_count st..}
     \<and> tree_ok (fs_world st) \<and> [fs_mailPath st] \<in> set (fdirs (fs_world st))
     \<and> (\<forall>d\<in>set (fdirs (fs_world st)). length d \<le> 4) \<and> (\<forall>p. filemap st p \<noteq> None \<longrightarrow> length p = 5)"

definition index_file :: "string \<Rightarrow> fmessage list \<Rightarrow> gobval fdata option" where
  "index_file mb ms = (if ms = [] then None else Some (Gob (GobString mb # map GobMsg ms) False))"

definition holds :: "fstore \<Rightarrow> string \<Rightarrow> fmessage list \<Rightarrow> bool" where
  "holds st mb ms \<longleftrightarrow> filemap st (ipath st mb) = index_file mb ms \<and> distinct (map Fid ms)
     \<and> (\<forall>m\<in>set ms. (\<exists>s. filemap st (rawp st mb (Fid m)) = Some (Raw s) \<and> Fsize m = int (length s))
          \<and> Fid m \<notin> gen_id st ` {fs_count st..})"

definition file_ok :: "fstore \<Rightarrow> bool" where
  "file_ok st \<longleftrightarrow> base_ok st \<and> (\<forall>mb. \<exists>ms. holds st mb ms)"

definition index_msgs :: "fstore \<Rightarrow> string \<Rightarrow> fmessage list" where
  "index_msgs st mb = (case filemap st (ipath st mb) of
     Some (Gob (GobString n # gs) torn) \<Rightarrow> snd (decode_msgs gs torn) | _ \<Rightarrow> [])"

definition file_abs :: "fstore \<Rightarrow> string \<Rightarrow> message list" where
  "file_abs st mb = map (f_to_message st (fs_mbox st mb)) (index_msgs st mb)"

text \<open>A mailbox as \<open>load\<close> leaves it.\<close>

definition fbox :: "fstore \<Rightarrow> string \<Rightarrow> fmessage list \<Rightarrow> fmbox" where
  "fbox st mb ms = (fs_mbox st mb)\<lparr>fb_indexLoaded := True, fb_messages := ms\<rparr>"

lemma fbox_simps [simp]:
  "fb_path (fbox st mb ms) = mdir st mb" "fb_indexPath (fbox st mb ms) = ipath st mb"
  "fb_messages (fbox st mb ms) = ms" "fb_name (fbox st mb ms) = mb" "fb_indexLoaded (fbox st mb ms)"
  "rawPath (fbox st mb ms) m = rawp st mb (Fid m)" "(fbox st mb ms)\<lparr>fb_messages := ms'\<rparr> = fbox st mb ms'"
  by (simp_all add: fbox_def mdir_def ipath_def rawPath_def rawp_def fs_mbox_def Let_def)

lemma fs_mbox_simps [simp]:
  "fb_path (fs_mbox st mb) = mdir st mb" "fb_indexPath (fs_mbox st mb) = ipath st mb"
  "fb_name (fs_mbox st mb) = mb" "\<not> fb_indexLoaded (fs_mbox st mb)" "rawPath (fs_mbox st mb) m = rawp st mb (Fid m)"
  by (simp_all add: mdir_def ipath_def rawPath_def rawp_def fs_mbox_def Let_def)

lemma f_to_message_fbox: "f_to_message st (fbox st mb ms) = f_to_message st (fs_mbox st mb)"
  by (rule ext) (simp add: f_to_message_def)

lemma mdir_eq:
  "mdir st mb = [fs_mailPath st, take 3 (HashMailboxName (fs_sha1 st) mb), take 6 (HashMailboxName (fs_sha1 st) mb),
     HashMailboxName (fs_sha1 st) mb]"
  by (simp add: mdir_def fs_mbox_def Let_def)

lemma length_mdir [simp]: "length (mdir st mb) = 4"
  by (simp add: mdir_eq)

lemma mdir_inj: "base_ok st \<Longrightarrow> mdir st a = mdir st b \<Longrightarrow> a = b"
  by (auto simp: mdir_eq base_ok_def dest: HashMailboxName_inj)

lemma prefix_mdir: "prefix (mdir st a) (mdir st b @ [x]) \<longleftrightarrow> mdir st a = mdir st b"
  by (auto simp: mdir_eq)

lemma ipath_raw [simp]: "ipath st a \<noteq> rawp st b i" "rawp st b i \<noteq> ipath st a"
proof -
  have "last indexFileName \<noteq> last (i @ ''.raw'')" by (simp add: indexFileName_def)
  then have "indexFileName \<noteq> i @ ''.raw''" by metis
  then show "ipath st a \<noteq> rawp st b i" "rawp st b i \<noteq> ipath st a" by (auto simp: ipath_def rawp_def)
qed

lemma rawp_inj [simp]: "rawp st mb i = rawp st mb j \<longleftrightarrow> i = j"
  by (simp add: rawp_def)

lemma in_mdir [simp]: "prefix (mdir st mb) (ipath st mb)" "prefix (mdir st mb) (rawp st mb i)"
  by (simp_all add: ipath_def rawp_def)

lemma decode_GobMsg [simp]: "decode_msgs (map GobMsg ms) torn = (\<not> torn, ms)"
  by (induction ms) simp_all

lemma index_msgs_holds: "holds st mb ms \<Longrightarrow> index_msgs st mb = ms"
  by (simp add: holds_def index_msgs_def index_file_def)

lemma index_msgs_file: "filemap st (ipath st mb) = Some (Gob (GobString n # map GobMsg ms) torn) \<Longrightarrow> index_msgs st mb = ms"
  by (simp add: index_msgs_def)

lemma file_abs_holds: "holds st mb ms \<Longrightarrow> file_abs st mb = map (f_to_message st (fs_mbox st mb)) ms"
  by (simp add: file_abs_def index_msgs_holds)

lemma file_okE:
  assumes "file_ok st"
  obtains ms where "holds st mb ms" "index_msgs st mb = ms" "base_ok st"
  using assms index_msgs_holds unfolding file_ok_def by blast

lemma sID_f [simp]: "sID (f_to_message st mb m) = Fid m" "sSeen (f_to_message st mb m) = Fseen m"
  "sMailbox (f_to_message st mb m) = fb_name mb"
  by (simp_all add: f_to_message_def)

subsection \<open>What the operations leave alone\<close>

definition same_config :: "fstore \<Rightarrow> fstore \<Rightarrow> bool" where
  "same_config st st' \<longleftrightarrow> fs_mailPath st' = fs_mailPath st \<and> messageCap st' = messageCap st
     \<and> fs_sha1 st' = fs_sha1 st \<and> fs_clock st' = fs_clock st"

lemma same_config_refl [simp]: "same_config st st"
  by (simp add: same_config_def)

lemma same_config_trans: "same_config a b \<Longrightarrow> same_config b c \<Longrightarrow> same_config a c"
  by (simp add: same_config_def)

lemma same_config_eqs:
  assumes "same_config st st'"
  shows "mdir st' = mdir st" "ipath st' = ipath st" "rawp st' = rawp st" "gen_id st' = gen_id st"
    "fs_mbox st' = fs_mbox st" "fbox st' = fbox st" "messageCap st' = messageCap st"
proof -
  have e: "fs_mailPath st' = fs_mailPath st" "messageCap st' = messageCap st" "fs_sha1 st' = fs_sha1 st"
    "fs_clock st' = fs_clock st"
    using assms by (simp_all add: same_config_def)
  show m: "fs_mbox st' = fs_mbox st" "mdir st' = mdir st" "gen_id st' = gen_id st"
    by (intro ext, simp add: fs_mbox_def mdir_eq gen_id_def e)+
  show "ipath st' = ipath st" "rawp st' = rawp st" "fbox st' = fbox st" "messageCap st' = messageCap st"
    by (intro ext, simp add: ipath_def rawp_def fbox_def m)+ (rule e)
qed

text \<open>A step on the mailbox \<open>mb\<close>: nothing changes outside of its directory.\<close>

definition step_on :: "string \<Rightarrow> fstore \<Rightarrow> fstore \<Rightarrow> bool" where
  "step_on mb st st' \<longleftrightarrow> base_ok st' \<and> same_config st st' \<and> fs_count st \<le> fs_count st'
     \<and> (\<forall>p. \<not> prefix (mdir st mb) p \<longrightarrow> filemap st' p = filemap st p)"

lemma step_on_refl: "base_ok st \<Longrightarrow> step_on mb st st"
  by (simp add: step_on_def)

lemma step_on_trans: "step_on mb a b \<Longrightarrow> step_on mb b c \<Longrightarrow> step_on mb a c"
  unfolding step_on_def using same_config_trans [of a b c] same_config_eqs(1) [of a b] by auto

lemma holds_other:
  assumes "base_ok st" and "step_on mb st st'" and "mb' \<noteq> mb" and "holds st mb' ms"
  shows "holds st' mb' ms" and "map (f_to_message st' (fs_mbox st' mb')) ms = map (f_to_message st (fs_mbox st mb')) ms"
proof -
  note eqs = same_config_eqs [of st st']
  have c: "same_config st st'" and n: "fs_count st \<le> fs_count st'" using assms(2) by (auto simp: step_on_def)
  have ne: "mdir st mb \<noteq> mdir st mb'" using mdir_inj [OF assms(1)] assms(3) by metis
  have f: "filemap st' (mdir st mb' @ [x]) = filemap st (mdir st mb' @ [x])" for x
    using assms(2) prefix_mdir [of st mb mb' x] ne by (auto simp: step_on_def)
  from f have fi: "filemap st' (ipath st mb') = filemap st (ipath st mb')"
    and fr: "filemap st' (rawp st mb' i) = filemap st (rawp st mb' i)" for i
    by (auto simp: ipath_def rawp_def)
  have "gen_id st ` {fs_count st'..} \<subseteq> gen_id st ` {fs_count st..}" using n by auto
  with assms(4) show "holds st' mb' ms"
    unfolding holds_def eqs(2-4) [OF c] fi fr by blast
  show "map (f_to_message st' (fs_mbox st' mb')) ms = map (f_to_message st (fs_mbox st mb')) ms"
    by (simp add: f_to_message_def raw_source_def eqs [OF c] fr)
qed

lemma commit:
  assumes ok: "file_ok st" and step: "step_on mb st st'" and h: "holds st' mb ms"
  shows "file_ok st'" and "file_abs st' = (file_abs st)(mb := map (f_to_message st' (fs_mbox st' mb)) ms)"
proof -
  have b: "base_ok st" using ok by (simp add: file_ok_def)
  have "\<exists>ms. holds st' mb' ms" for mb'
  proof (cases "mb' = mb")
    case False
    obtain ms' where "holds st mb' ms'" using ok by (auto simp: file_ok_def)
    from holds_other(1) [OF b step False this] show ?thesis ..
  qed (use h in blast)
  with step show "file_ok st'" by (simp add: file_ok_def step_on_def)
  show "file_abs st' = (file_abs st)(mb := map (f_to_message st' (fs_mbox st' mb)) ms)"
  proof
    fix mb'
    show "file_abs st' mb' = ((file_abs st)(mb := map (f_to_message st' (fs_mbox st' mb)) ms)) mb'"
    proof (cases "mb' = mb")
      case True
      with h show ?thesis by (simp add: file_abs_holds)
    next
      case False
      obtain ms' where h': "holds st mb' ms'" using ok by (auto simp: file_ok_def)
      from holds_other [OF b step False h'] False show ?thesis
        by (simp add: file_abs_holds [OF h'] file_abs_holds)
    qed
  qed
qed

subsection \<open>The steps of an operation\<close>

definition quiet :: "fstore \<Rightarrow> fstore \<Rightarrow> bool" where
  "quiet st st' \<longleftrightarrow> same_config st st' \<and> fs_count st' = fs_count st \<and> fs_deleted st' = fs_deleted st"

lemma quiet_refl [simp]: "quiet st st"
  by (simp add: quiet_def)

lemma quiet_trans: "quiet a b \<Longrightarrow> quiet b c \<Longrightarrow> quiet a c"
  by (auto simp: quiet_def intro: same_config_trans)

lemma quiet_world [simp]: "quiet st (st\<lparr>fs_world := w\<rparr>)"
  by (simp add: quiet_def same_config_def)

lemma gen_id_world [simp]: "gen_id (st\<lparr>fs_world := w\<rparr>) = gen_id st"
  by (rule ext) (simp add: gen_id_def)

lemma mdir_world [simp]: "mdir (st\<lparr>fs_world := w\<rparr>) mb = mdir st mb"
  by (simp add: mdir_eq)

lemma base_okD:
  assumes "base_ok st"
  shows "faults (fs_world st) = []" "tree_ok (fs_world st)" "[fs_mailPath st] \<in> set (fdirs (fs_world st))"
    "d \<in> set (fdirs (fs_world st)) \<Longrightarrow> length d \<le> 4" "filemap st p \<noteq> None \<Longrightarrow> length p = 5"
  using assms unfolding base_ok_def by blast+

lemma base_ok_world:
  assumes "base_ok st" and "faults w = []" and "tree_ok w" and "[fs_mailPath st] \<in> set (fdirs w)"
    and "\<And>d. d \<in> set (fdirs w) \<Longrightarrow> length d \<le> 4" and "\<And>p. map_of (ffiles w) p \<noteq> None \<Longrightarrow> length p = 5"
  shows "base_ok (st\<lparr>fs_world := w\<rparr>)"
  using assms by (simp add: base_ok_def)

definition put :: "fstore \<Rightarrow> path \<Rightarrow> gobval fdata \<Rightarrow> fstore" where
  "put st p v = st\<lparr>fs_world := (fs_world st)\<lparr>ffiles := AList.update p v (ffiles (fs_world st))\<rparr>\<rparr>"

definition cut :: "fstore \<Rightarrow> path \<Rightarrow> fstore" where
  "cut st p = st\<lparr>fs_world := (fs_world st)\<lparr>ffiles := AList.delete p (ffiles (fs_world st))\<rparr>\<rparr>"

lemma put_cut_simps [simp]:
  "filemap (put st p v) = (filemap st)(p \<mapsto> v)" "fdirs (fs_world (put st p v)) = fdirs (fs_world st)"
  "quiet st (put st p v)" "mdir (put st p v) mb = mdir st mb"
  "filemap (cut st p) = (filemap st)(p := None)" "fdirs (fs_world (cut st p)) = fdirs (fs_world st)"
  "quiet st (cut st p)" "mdir (cut st p) mb = mdir st mb"
  by (auto simp: put_def cut_def delete_conv' fun_eq_iff)

lemma base_ok_put:
  assumes "base_ok st" and "mdir st mb \<in> set (fdirs (fs_world st))"
  shows "base_ok (put st (mdir st mb @ [x]) v)"
  unfolding put_def
  by (rule base_ok_world [OF assms(1)])
    (use assms base_okD [OF assms(1)] in \<open>auto intro: tree_ok_put split: if_splits\<close>)

lemma base_ok_cut: "base_ok st \<Longrightarrow> base_ok (cut st p)"
  unfolding cut_def
  by (rule base_ok_world) (auto simp: base_okD delete_conv' intro: tree_ok_delete split: if_splits)

lemma file_not_dir: "base_ok st \<Longrightarrow> length p = 5 \<Longrightarrow> p \<notin> set (fdirs (fs_world st))"
  using base_okD(4) by fastforce

lemma Create_ok:
  assumes "base_ok st" and "mdir st mb \<in> set (fdirs (fs_world st))"
  shows "on_world (os_Create (mdir st mb @ [x])) st = (True, put st (mdir st mb @ [x]) (Raw []))"
  using assms file_not_dir [OF assms(1), of "mdir st mb @ [x]"]
  by (simp add: on_world_def os_Create_def base_okD put_def)

lemma WriteRaw_ok: "base_ok st \<Longrightarrow> on_world (os_WriteRaw p s) st = (True, put st p (Raw s))"
  by (simp add: on_world_def os_WriteRaw_ok base_okD put_def)

lemma WriteGob_ok: "base_ok st \<Longrightarrow> on_world (os_WriteGob p gs) st = (True, put st p (Gob gs False))"
  by (simp add: on_world_def os_WriteGob_ok base_okD put_def)

lemma Remove_ok: "base_ok st \<Longrightarrow> filemap st p \<noteq> None \<Longrightarrow> on_world (os_Remove p) st = (True, cut st p)"
  using ffiles_key [of p "fs_world st"] by (simp add: on_world_def os_Remove_def base_okD cut_def)

lemma createDir_ok:
  assumes b: "base_ok st"
  obtains st' where "createDir (fbox st mb ms) st = (True, st')" "base_ok st'" "quiet st st'"
    "ffiles (fs_world st') = ffiles (fs_world st)" "mdir st mb \<in> set (fdirs (fs_world st'))"
proof (cases "mdir st mb \<in> set (fdirs (fs_world st))")
  case True
  then have "createDir (fbox st mb ms) st = (True, st)"
    by (simp add: createDir_def on_world_def os_Stat_ok base_okD [OF b] path_exists_def)
  with True b show ?thesis by (intro that [of st]) auto
next
  case False
  have nf: "q \<notin> fst ` set (ffiles (fs_world st))" if "prefix q (mdir st mb)" for q
    using ffiles_key [of q "fs_world st"] base_okD(5) [OF b, of q] prefix_length_le [OF that] by auto
  let ?new = "filter (\<lambda>q. q \<notin> set (fdirs (fs_world st))) (filter (\<lambda>q. q \<noteq> []) (prefixes (mdir st mb)))"
  let ?w = "(fs_world st)\<lparr>fdirs := fdirs (fs_world st) @ ?new\<rparr>"
  have "createDir (fbox st mb ms) st = (True, st\<lparr>fs_world := ?w\<rparr>)"
    using False nf [of "mdir st mb"] nf
    by (simp add: createDir_def on_world_def os_Stat_ok os_MkdirAll_def base_okD [OF b] path_exists_def)
  moreover have "base_ok (st\<lparr>fs_world := ?w\<rparr>)"
  proof (rule base_ok_world [OF b])
    show "tree_ok ?w" by (rule tree_ok_mkdir [OF base_okD(2) [OF b]])
    show "length d \<le> 4" if "d \<in> set (fdirs ?w)" for d
      using that base_okD(4) [OF b, of d] prefix_length_le [of d "mdir st mb"] by auto
  qed (use base_okD [OF b] in auto)
  moreover have "mdir st mb \<noteq> []" by (simp add: mdir_eq)
  ultimately show ?thesis by (intro that [of "st\<lparr>fs_world := ?w\<rparr>"]) auto
qed

lemma removeDirIfEmpty_ok:
  assumes b: "base_ok st" and p: "2 \<le> length p" "length p \<le> 4"
  obtains r st' where "removeDirIfEmpty p st = (r, st')" "base_ok st'" "quiet st st'"
    "ffiles (fs_world st') = ffiles (fs_world st)"
proof (cases "p \<in> set (fdirs (fs_world st)) \<and> children (fs_world st) p = []")
  case True
  let ?w = "(fs_world st)\<lparr>fdirs := filter (\<lambda>q. q \<noteq> p) (fdirs (fs_world st))\<rparr>"
  have "p \<notin> fst ` set (ffiles (fs_world st))"
    using ffiles_key [of p "fs_world st"] base_okD(5) [OF b, of p] p by auto
  with True have "removeDirIfEmpty p st = (True, st\<lparr>fs_world := ?w\<rparr>)"
    by (simp add: removeDirIfEmpty_def on_world_def os_Readdirnames_def os_Remove_def base_okD [OF b])
  moreover have "base_ok (st\<lparr>fs_world := ?w\<rparr>)"
  proof (rule base_ok_world [OF b])
    show "tree_ok ?w" by (rule tree_ok_rmdir [OF base_okD(2) [OF b]]) (use True p in auto)
  qed (use base_okD [OF b] p in auto)
  ultimately show ?thesis by (intro that [of True "st\<lparr>fs_world := ?w\<rparr>"]) auto
next
  case False
  then have "removeDirIfEmpty p st = (False, st)"
    by (auto simp: removeDirIfEmpty_def on_world_def os_Readdirnames_def base_okD [OF b])
  with b show ?thesis by (intro that [of False st]) auto
qed

lemma removeDir_ok:
  assumes b: "base_ok st"
  obtains st' where "removeDir (fbox st mb ms) st = (True, st')" "base_ok st'" "quiet st st'"
    "filemap st' = (\<lambda>p. if prefix (mdir st mb) p then None else filemap st p)"
proof -
  let ?d = "mdir st mb"
  let ?w = "(fs_world st)\<lparr>fdirs := filter (\<lambda>q. \<not> prefix ?d q) (fdirs (fs_world st)),
      ffiles := filter (\<lambda>x. \<not> prefix ?d (fst x)) (ffiles (fs_world st))\<rparr>"
  let ?st = "st\<lparr>fs_world := ?w\<rparr>"
  have files: "filemap ?st = (\<lambda>p. if prefix ?d p then None else filemap st p)"
    using map_of_filter_key [of "\<lambda>q. \<not> prefix ?d q" "ffiles (fs_world st)"] by auto
  have b1: "base_ok ?st"
  proof (rule base_ok_world [OF b])
    show "tree_ok ?w" by (rule tree_ok_subtree [OF base_okD(2) [OF b]])
    show "[fs_mailPath st] \<in> set (fdirs ?w)" using base_okD(3) [OF b] by (auto simp: mdir_eq)
    show "length p = 5" if "map_of (ffiles ?w) p \<noteq> None" for p
      using that files base_okD(5) [OF b, of p] by (auto split: if_splits)
  qed (use base_okD [OF b] in auto)
  obtain r st2 where r: "removeDirIfEmpty (butlast ?d) ?st = (r, st2)" "base_ok st2" "quiet ?st st2"
    "ffiles (fs_world st2) = ffiles ?w"
    using removeDirIfEmpty_ok [OF b1, of "butlast ?d"] by (auto simp: mdir_eq)
  obtain r' st3 where r': "removeDirIfEmpty (butlast (butlast ?d)) st2 = (r', st3)" "base_ok st3" "quiet st2 st3"
    "ffiles (fs_world st3) = ffiles (fs_world st2)"
    using removeDirIfEmpty_ok [OF r(2), of "butlast (butlast ?d)"] by (auto simp: mdir_eq)
  have rm: "removeDir (fbox st mb ms) st = (True, if r then st3 else st2)"
    using r(1) r'(1) by (simp add: removeDir_def on_world_def os_RemoveAll_def base_okD [OF b])
  have q1: "quiet st st2" by (rule quiet_trans [OF quiet_world r(3)])
  have q: "quiet st st2" "quiet st st3" by (rule q1, rule quiet_trans [OF q1 r'(3)])
  have f2: "filemap st2 = filemap ?st" and f3: "filemap st3 = filemap ?st" using r(4) r'(4) by simp_all
  show ?thesis
  proof (rule that [OF rm])
    show "base_ok (if r then st3 else st2)" "quiet st (if r then st3 else st2)" using r(2) r'(2) q by simp_all
    show "filemap (if r then st3 else st2) = (\<lambda>p. if prefix ?d p then None else filemap st p)"
      using f2 f3 files by (cases r) simp_all
  qed
qed

lemma writeIndex_ok:
  assumes b: "base_ok st"
  obtains st' where "writeIndex (fbox st mb ms) st = (True, st')" "base_ok st'" "quiet st st'"
    "filemap st' = (if ms = [] then (\<lambda>p. if prefix (mdir st mb) p then None else filemap st p)
       else (filemap st)(ipath st mb \<mapsto> Gob (GobString mb # map GobMsg ms) False))"
proof (cases "ms = []")
  case True
  obtain st' where "removeDir (fbox st mb ms) st = (True, st')" "base_ok st'" "quiet st st'"
    "filemap st' = (\<lambda>p. if prefix (mdir st mb) p then None else filemap st p)"
    using removeDir_ok [OF b] .
  with True show ?thesis by (intro that [of st']) (simp_all add: writeIndex_def)
next
  case False
  obtain st1 where st1: "createDir (fbox st mb ms) st = (True, st1)" "base_ok st1" "quiet st st1"
    "ffiles (fs_world st1) = ffiles (fs_world st)" "mdir st mb \<in> set (fdirs (fs_world st1))"
    using createDir_ok [OF b] .
  have e: "mdir st1 mb = mdir st mb" "ipath st1 mb = ipath st mb"
    using st1(3) same_config_eqs(1,2) [of st st1] by (simp_all add: quiet_def)
  let ?gs = "GobString mb # map GobMsg ms"
  let ?st2 = "put st1 (ipath st mb) (Raw [])"
  have c: "on_world (os_Create (ipath st mb)) st1 = (True, ?st2)"
    using Create_ok [of st1 mb indexFileName] st1(2,5) e by (simp add: ipath_def)
  have b2: "base_ok ?st2" using base_ok_put [of st1 mb indexFileName] st1(2,5) e by (simp add: ipath_def)
  have b3: "base_ok (put ?st2 (ipath st mb) (Gob ?gs False))"
    using base_ok_put [OF b2, of mb indexFileName] st1(5) e by (simp add: ipath_def)
  have "writeIndex (fbox st mb ms) st = (True, put ?st2 (ipath st mb) (Gob ?gs False))"
    using False st1(1) c WriteGob_ok [OF b2] by (simp add: writeIndex_def)
  moreover have "quiet st (put ?st2 (ipath st mb) (Gob ?gs False))"
    using st1(3) quiet_trans put_cut_simps(3) by metis
  ultimately show ?thesis using b3 False st1(4) by (intro that [of "put ?st2 (ipath st mb) (Gob ?gs False)"]) auto
qed

end
