(* ===== verification/FileContract.thy ===== *)
theory FileContract
  imports FileProps
begin

text \<open>
  What each operation of the file store does to the message lists while no call of the operating
  system fails, and the interpretation of the storage contracts on it.
\<close>

lemma deleted_fields [simp]:
  "mdir (st\<lparr>fs_deleted := d\<rparr>) = mdir st" "ipath (st\<lparr>fs_deleted := d\<rparr>) = ipath st"
  "rawp (st\<lparr>fs_deleted := d\<rparr>) = rawp st" "gen_id (st\<lparr>fs_deleted := d\<rparr>) = gen_id st"
  "fs_mbox (st\<lparr>fs_deleted := d\<rparr>) = fs_mbox st" "fbox (st\<lparr>fs_deleted := d\<rparr>) = fbox st"
  "f_to_message (st\<lparr>fs_deleted := d\<rparr>) = f_to_message st" "holds (st\<lparr>fs_deleted := d\<rparr>) = holds st"
  "base_ok (st\<lparr>fs_deleted := d\<rparr>) = base_ok st" "file_ok (st\<lparr>fs_deleted := d\<rparr>) = file_ok st"
  "file_abs (st\<lparr>fs_deleted := d\<rparr>) = file_abs st" "same_config st (st\<lparr>fs_deleted := d\<rparr>)"
proof -
  show c: "same_config st (st\<lparr>fs_deleted := d\<rparr>)" by (simp add: same_config_def)
  show e: "mdir (st\<lparr>fs_deleted := d\<rparr>) = mdir st" "ipath (st\<lparr>fs_deleted := d\<rparr>) = ipath st"
    "rawp (st\<lparr>fs_deleted := d\<rparr>) = rawp st" "gen_id (st\<lparr>fs_deleted := d\<rparr>) = gen_id st"
    "fs_mbox (st\<lparr>fs_deleted := d\<rparr>) = fs_mbox st" "fbox (st\<lparr>fs_deleted := d\<rparr>) = fbox st"
    by (rule same_config_eqs [OF c])+
  show f: "f_to_message (st\<lparr>fs_deleted := d\<rparr>) = f_to_message st"
    by (intro ext) (simp add: f_to_message_def raw_source_def)
  show h: "holds (st\<lparr>fs_deleted := d\<rparr>) = holds st" by (intro ext) (simp add: holds_def e)
  show b: "base_ok (st\<lparr>fs_deleted := d\<rparr>) = base_ok st" by (simp add: base_ok_def e)
  show "file_ok (st\<lparr>fs_deleted := d\<rparr>) = file_ok st" by (simp add: file_ok_def b h)
  show "file_abs (st\<lparr>fs_deleted := d\<rparr>) = file_abs st"
    by (intro ext) (simp add: file_abs_def index_msgs_def f e)
qed

lemma file_ok_base: "file_ok st \<Longrightarrow> base_ok st"
  by (simp add: file_ok_def)

lemma holds_index_msgs: "file_ok st \<Longrightarrow> holds st mb (index_msgs st mb)"
  using file_okE by metis

lemma file_abs_map: "file_abs st mb = map (f_to_message st (fs_mbox st mb)) (index_msgs st mb)"
  by (simp add: file_abs_def)

subsection \<open>Loading\<close>

lemma load_index:
  assumes b: "base_ok st" and h: "filemap st (ipath st mb) = index_file mb ms"
  shows "load (fs_mbox st mb) st = (None, fbox st mb ms, st)"
proof -
  have nd: "ipath st mb \<notin> set (fdirs (fs_world st))" by (rule file_not_dir [OF b]) (simp add: ipath_def)
  have ex: "path_exists (fs_world st) (ipath st mb) \<longleftrightarrow> ms \<noteq> []"
    using nd h ffiles_key [of "ipath st mb" "fs_world st"] by (simp add: path_exists_def index_file_def)
  show ?thesis
  proof (cases "ms = []")
    case True
    with ex show ?thesis
      by (simp add: load_def readIndex_def on_world_def os_Stat_ok base_okD [OF b] fbox_def)
  next
    case False
    then have f: "filemap st (ipath st mb) = Some (Gob (GobString mb # map GobMsg ms) False)"
      using h by (simp add: index_file_def)
    have "(fs_mbox st mb)\<lparr>fb_name := mb\<rparr> = fs_mbox st mb" by (simp add: fs_mbox_def Let_def)
    then have n: "(fs_mbox st mb)\<lparr>fb_indexLoaded := True, fb_name := mb, fb_messages := x\<rparr> = fbox st mb x" for x
      by (simp add: fbox_def)
    from False ex f n show ?thesis
      by (simp add: load_def readIndex_def on_world_def os_Stat_ok os_ReadFile_ok base_okD [OF b] fbox_def)
  qed
qed

lemma load_ok: "file_ok st \<Longrightarrow> load (fs_mbox st mb) st = (None, fbox st mb (index_msgs st mb), st)"
  using holds_index_msgs [of st mb] by (intro load_index file_ok_base) (simp_all add: holds_def)

lemma load_fbox [simp]: "load (fbox st mb ms) st' = (None, fbox st mb ms, st')"
  by (simp add: load_def)

lemma GetMessages_ok: "file_ok st \<Longrightarrow> file_GetMessages st mb = (Ok (file_abs st mb), st)"
  by (simp add: file_GetMessages_def getMessages_def load_ok f_to_message_fbox file_abs_map)

lemma GetMessage_ok:
  assumes "file_ok st"
  shows "file_GetMessage st mb i =
    ((if i = ''latest'' \<and> file_abs st mb \<noteq> [] then Ok (Some (last (file_abs st mb)))
      else case List.find (\<lambda>m. sID m = i) (file_abs st mb) of None \<Rightarrow> Err ErrNotExist | Some m \<Rightarrow> Ok (Some m)), st)"
proof -
  have f: "List.find (\<lambda>m. sID m = i) (map (f_to_message st (fs_mbox st mb)) ms)
      = map_option (f_to_message st (fs_mbox st mb)) (List.find (\<lambda>m. Fid m = i) ms)" for ms
    by (induction ms) auto
  show ?thesis
    by (simp add: file_GetMessage_def getMessage_def load_ok [OF assms] f_to_message_fbox file_abs_map f last_map
        split: option.split)
qed

subsection \<open>Saving\<close>

lemma save_ok:
  assumes ok: "file_ok st" and d: "distinct (map Fid ms)"
    and raws: "\<forall>m\<in>set ms. (\<exists>s. filemap st (rawp st mb (Fid m)) = Some (Raw s) \<and> Fsize m = int (length s))
      \<and> Fid m \<notin> gen_id st ` {fs_count st..}"
  obtains st' where "writeIndex (fbox st mb ms) st = (True, st')" "file_ok st'" "quiet st st'" "index_msgs st' mb = ms"
    "file_abs st' = (file_abs st)(mb := map (f_to_message st (fs_mbox st mb)) ms)"
    "ms \<noteq> [] \<Longrightarrow> filemap st' = (filemap st)(ipath st mb \<mapsto> Gob (GobString mb # map GobMsg ms) False)"
proof -
  note b = file_ok_base [OF ok]
  obtain st' where w: "writeIndex (fbox st mb ms) st = (True, st')" and b': "base_ok st'" and q: "quiet st st'"
    and f: "filemap st' = (if ms = [] then (\<lambda>p. if prefix (mdir st mb) p then None else filemap st p)
       else (filemap st)(ipath st mb \<mapsto> Gob (GobString mb # map GobMsg ms) False))"
    using writeIndex_ok [OF b] .
  have c: "same_config st st'" and n: "fs_count st' = fs_count st" using q by (simp_all add: quiet_def)
  note e = same_config_eqs [OF c]
  have step: "step_on mb st st'" using b' c n f by (auto simp: step_on_def)
  have raw: "filemap st' (rawp st mb (Fid m)) = filemap st (rawp st mb (Fid m))" if "m \<in> set ms" for m
    using that f by auto
  have h: "holds st' mb ms"
    using d raws raw f by (auto simp: holds_def e n index_file_def)
  have "map (f_to_message st' (fs_mbox st' mb)) ms = map (f_to_message st (fs_mbox st mb)) ms"
    using raw by (simp add: f_to_message_def raw_source_def e)
  with commit [OF ok step h] w q f index_msgs_holds [OF h] show ?thesis by (intro that [of st']) auto
qed

lemma save_sub_ok:
  assumes ok: "file_ok st" and d: "distinct (map Fid ms)"
    and sub: "\<forall>m\<in>set ms. \<exists>m0\<in>set (index_msgs st mb). Fid m = Fid m0 \<and> Fsize m = Fsize m0"
  obtains st' where "writeIndex (fbox st mb ms) st = (True, st')" "file_ok st'" "quiet st st'" "index_msgs st' mb = ms"
    "file_abs st' = (file_abs st)(mb := map (f_to_message st (fs_mbox st mb)) ms)"
    "ms \<noteq> [] \<Longrightarrow> filemap st' = (filemap st)(ipath st mb \<mapsto> Gob (GobString mb # map GobMsg ms) False)"
proof -
  have "\<forall>m\<in>set ms. (\<exists>s. filemap st (rawp st mb (Fid m)) = Some (Raw s) \<and> Fsize m = int (length s))
      \<and> Fid m \<notin> gen_id st ` {fs_count st..}"
    using sub holds_index_msgs [OF ok, of mb] unfolding holds_def by metis
  from save_ok [OF ok d this] that show ?thesis by blast
qed

subsection \<open>Removing\<close>

lemma split_at_id:
  assumes "distinct (map Fid ms)" and "m \<in> set ms"
  shows "\<exists>rest. dropWhile (\<lambda>x. Fid m \<noteq> Fid x) ms = m # rest
    \<and> takeWhile (\<lambda>x. Fid m \<noteq> Fid x) ms @ rest = filter (\<lambda>x. Fid x \<noteq> Fid m) ms"
  using assms
proof (induction ms)
  case (Cons x ms)
  show ?case
  proof (cases "x = m")
    case True
    with Cons.prems have "filter (\<lambda>x. Fid x \<noteq> Fid m) ms = ms"
      by (auto simp: filter_id_conv image_iff)
    with True show ?thesis by simp
  next
    case False
    then have "Fid m \<in> Fid ` set ms" using Cons.prems(2) by auto
    then have "Fid m \<noteq> Fid x" using Cons.prems(1) by (metis distinct.simps(2) list.simps(9) list.set_map)
    with Cons False show ?thesis by auto
  qed
qed simp

lemma removeMessage_missing:
  "i \<notin> Fid ` set ms \<Longrightarrow> f_removeMessage (fbox st mb ms) i st = (Some ErrNotExist, fbox st mb ms, st)"
proof -
  assume "i \<notin> Fid ` set ms"
  then have d: "dropWhile (\<lambda>m. i \<noteq> Fid m) ms = []" by auto
  show ?thesis by (simp add: f_removeMessage_def d)
qed

lemma removeMessage_ok:
  assumes ok: "file_ok st" and ms: "index_msgs st mb = ms" and m: "m \<in> set ms"
  obtains st' where
    "f_removeMessage (fbox st mb ms) (Fid m) st = (None, fbox st mb (filter (\<lambda>x. Fid x \<noteq> Fid m) ms), st')"
    "file_ok st'" "same_config st st'" "fs_count st' = fs_count st"
    "index_msgs st' mb = filter (\<lambda>x. Fid x \<noteq> Fid m) ms"
    "file_abs st' = (file_abs st)(mb := filter (\<lambda>x. sID x \<noteq> Fid m) (file_abs st mb))"
    "fs_deleted st' = fs_deleted st @ [MakeMetadata (f_to_message st (fs_mbox st mb) m)]"
proof -
  let ?ms = "filter (\<lambda>x. Fid x \<noteq> Fid m) ms"
  let ?st = "st\<lparr>fs_deleted := fs_deleted st @ [MakeMetadata (f_to_message st (fs_mbox st mb) m)]\<rparr>"
  have h: "holds st mb ms" using holds_index_msgs [OF ok, of mb] ms by simp
  then have d: "distinct (map Fid ms)" by (simp add: holds_def)
  then have d': "distinct (map Fid ?ms)" by (rule distinct_map_filter)
  obtain rest where rest: "dropWhile (\<lambda>x. Fid m \<noteq> Fid x) ms = m # rest" "takeWhile (\<lambda>x. Fid m \<noteq> Fid x) ms @ rest = ?ms"
    using split_at_id [OF d m] by blast
  have "file_ok ?st" using ok by simp
  moreover have "index_msgs ?st mb = ms" using ms by (simp add: index_msgs_def)
  ultimately obtain st1 where s1: "writeIndex (fbox st mb ?ms) ?st = (True, st1)" "file_ok st1" "quiet ?st st1"
    "index_msgs st1 mb = ?ms" "file_abs st1 = (file_abs st)(mb := map (f_to_message st (fs_mbox st mb)) ?ms)"
    "?ms \<noteq> [] \<Longrightarrow> filemap st1 = (filemap st)(ipath st mb \<mapsto> Gob (GobString mb # map GobMsg ?ms) False)"
    using save_sub_ok [of ?st ?ms mb] d' by auto
  have c1: "same_config st st1" "fs_count st1 = fs_count st" "fs_deleted st1 = fs_deleted ?st"
    using s1(3) by (auto simp: quiet_def same_config_def)
  note e = same_config_eqs [OF c1(1)]
  have abs: "map (f_to_message st (fs_mbox st mb)) ?ms = filter (\<lambda>x. sID x \<noteq> Fid m) (file_abs st mb)"
    by (simp add: file_abs_map ms filter_map comp_def)
  have rm: "f_removeMessage (fbox st mb ms) (Fid m) st =
      (if ?ms = [] then (None, fbox st mb ?ms, st1)
       else (case on_world (os_Remove (rawp st mb (Fid m))) st1 of (ok, st') \<Rightarrow> (if ok then None else Some OsError, fbox st mb ?ms, st')))"
    using rest s1(1) by (simp add: f_removeMessage_def f_to_message_fbox)
  show ?thesis
  proof (cases "?ms = []")
    case True
    with rm s1 c1 abs show ?thesis by (intro that [of st1]) auto
  next
    case False
    let ?st2 = "cut st1 (rawp st mb (Fid m))"
    note f1 = s1(6) [OF False]
    obtain s where "filemap st (rawp st mb (Fid m)) = Some (Raw s)" using h m by (auto simp: holds_def)
    then have "filemap st1 (rawp st mb (Fid m)) \<noteq> None" using f1 by auto
    then have r2: "on_world (os_Remove (rawp st mb (Fid m))) st1 = (True, ?st2)"
      by (rule Remove_ok [OF file_ok_base [OF s1(2)]])
    have q2: "quiet st1 ?st2" by simp
    then have c2: "same_config st1 ?st2" "fs_count ?st2 = fs_count st1" "fs_deleted ?st2 = fs_deleted st1"
      by (auto simp: quiet_def)
    note e2 = same_config_eqs [OF c2(1)]
    have step: "step_on mb st1 ?st2"
      using base_ok_cut [OF file_ok_base [OF s1(2)]] c2 e by (auto simp: step_on_def)
    have h1: "holds st1 mb ?ms" using holds_index_msgs [OF s1(2), of mb] s1(4) by simp
    have h2: "holds ?st2 mb ?ms" using h1 by (auto simp: holds_def e2 e c2(2))
    have "map (f_to_message ?st2 (fs_mbox ?st2 mb)) ?ms = map (f_to_message st1 (fs_mbox st1 mb)) ?ms"
      by (simp add: f_to_message_def raw_source_def e e2)
    also have "\<dots> = file_abs st1 mb" by (simp add: file_abs_map s1(4))
    finally have "file_abs ?st2 = file_abs st1" using commit(2) [OF s1(2) step h2] by simp
    with commit(1) [OF s1(2) step h2] rm r2 False s1(5) c1 c2 abs index_msgs_holds [OF h2]
    show ?thesis by (intro that [of ?st2]) (auto intro: same_config_trans)
  qed
qed

subsection \<open>Evicting and adding\<close>

lemma filter_tl:
  assumes "distinct (map Fid (m # ms))"
  shows "filter (\<lambda>x. Fid x \<noteq> Fid m) (m # ms) = ms"
  using assms by (auto simp: filter_id_conv image_iff)

text \<open>The bound of the caller is enough: the loop ends with room for one more message.\<close>

lemma evict_loop_enough:
  assumes "file_ok st" and "index_msgs st mb = ms" and "0 < messageCap st" and "length ms \<le> n"
  shows "\<exists>st'. evict_loop n (fbox st mb ms) st = (fbox st mb (drop (Suc (length ms) - nat (messageCap st)) ms), st')
    \<and> file_ok st' \<and> same_config st st' \<and> fs_count st' = fs_count st
    \<and> index_msgs st' mb = drop (Suc (length ms) - nat (messageCap st)) ms
    \<and> file_abs st' = (file_abs st)(mb := drop (Suc (length ms) - nat (messageCap st)) (file_abs st mb))"
  using assms
proof (induction n arbitrary: st ms)
  case 0
  then show ?case by (auto simp: file_abs_map)
next
  case (Suc n)
  note e0 = same_config_eqs
  show ?case
  proof (cases "int (length ms) \<ge> messageCap st \<and> ms \<noteq> []")
    case False
    then have "Suc (length ms) - nat (messageCap st) = 0" using Suc.prems(3) by auto
    moreover have "evict_loop (Suc n) (fbox st mb ms) st = (fbox st mb ms, st)" using False by auto
    ultimately show ?thesis using Suc.prems(1,2) by auto
  next
    case True
    then obtain m ms1 where ms: "ms = m # ms1" by (cases ms) auto
    have d: "distinct (map Fid ms)" using holds_index_msgs [OF Suc.prems(1), of mb] Suc.prems(2) by (simp add: holds_def)
    have tl: "filter (\<lambda>x. Fid x \<noteq> Fid m) ms = ms1" using filter_tl [of m ms1] d ms by simp
    obtain st1 where r: "f_removeMessage (fbox st mb ms) (Fid m) st = (None, fbox st mb ms1, st1)"
      "file_ok st1" "same_config st st1" "fs_count st1 = fs_count st" "index_msgs st1 mb = ms1"
      "file_abs st1 = (file_abs st)(mb := filter (\<lambda>x. sID x \<noteq> Fid m) (file_abs st mb))"
      using removeMessage_ok [OF Suc.prems(1,2), of m] ms unfolding tl by auto
    note e = same_config_eqs [OF r(3)]
    have abs: "filter (\<lambda>x. sID x \<noteq> Fid m) (file_abs st mb) = tl (file_abs st mb)"
    proof -
      have "filter (\<lambda>x. sID x \<noteq> Fid m) (file_abs st mb) = map (f_to_message st (fs_mbox st mb)) (filter (\<lambda>x. Fid x \<noteq> Fid m) ms)"
        by (simp add: file_abs_map Suc.prems(2) filter_map comp_def)
      then show ?thesis unfolding tl by (simp add: file_abs_map Suc.prems(2) ms)
    qed
    have k: "Suc (length ms) - nat (messageCap st) = Suc (Suc (length ms1) - nat (messageCap st))"
      using True ms Suc.prems(3) by auto
    have l: "length ms1 \<le> n" using Suc.prems(4) ms by simp
    have cap: "0 < messageCap st1" using Suc.prems(3) e by simp
    have drop: "drop (Suc (length ms) - nat (messageCap st)) xs = drop (Suc (length ms1) - nat (messageCap st)) (tl xs)"
      for xs :: "'x list" unfolding k by (simp add: drop_Suc)
    have go: "evict_loop (Suc n) (fbox st mb ms) st = evict_loop n (fbox st mb ms1) st1"
      using True r(1) ms by simp
    obtain st2 where st2: "evict_loop n (fbox st mb ms1) st1 = (fbox st mb (drop (Suc (length ms1) - nat (messageCap st)) ms1), st2)"
      "file_ok st2" "same_config st1 st2" "fs_count st2 = fs_count st1"
      "index_msgs st2 mb = drop (Suc (length ms1) - nat (messageCap st)) ms1"
      "file_abs st2 = (file_abs st1)(mb := drop (Suc (length ms1) - nat (messageCap st)) (file_abs st1 mb))"
      using Suc.IH [OF r(2,5) cap l] unfolding e by blast
    show ?thesis
      unfolding go drop
      using st2 r(4,6) same_config_trans [OF r(3) st2(3)] by (intro exI [of _ st2]) (simp add: ms abs)
  qed
qed

lemma base_ok_count: "fs_count st \<le> n \<Longrightarrow> base_ok st \<Longrightarrow> base_ok (st\<lparr>fs_count := n\<rparr>)"
  using same_config_eqs(4) [of st "st\<lparr>fs_count := n\<rparr>"]
  by (auto simp: base_ok_def same_config_def intro: inj_on_subset)

lemma count_fields [simp]:
  assumes "fs_count st \<le> n"
  shows "file_ok st \<Longrightarrow> file_ok (st\<lparr>fs_count := n\<rparr>)"
    and "file_abs (st\<lparr>fs_count := n\<rparr>) = file_abs st" and "index_msgs (st\<lparr>fs_count := n\<rparr>) = index_msgs st"
    and "same_config st (st\<lparr>fs_count := n\<rparr>)"
proof -
  show c: "same_config st (st\<lparr>fs_count := n\<rparr>)" by (simp add: same_config_def)
  note e = same_config_eqs [OF c]
  show "index_msgs (st\<lparr>fs_count := n\<rparr>) = index_msgs st" by (intro ext) (simp add: index_msgs_def e)
  then show "file_abs (st\<lparr>fs_count := n\<rparr>) = file_abs st"
    by (intro ext) (simp add: file_abs_def e f_to_message_def raw_source_def)
  have "gen_id st ` {n..} \<subseteq> gen_id st ` {fs_count st..}" using assms by auto
  then have "holds st mb ms \<Longrightarrow> holds (st\<lparr>fs_count := n\<rparr>) mb ms" for mb ms
    by (simp add: holds_def e) blast
  moreover have "base_ok st \<Longrightarrow> base_ok (st\<lparr>fs_count := n\<rparr>)" by (rule base_ok_count [OF assms])
  ultimately show "file_ok st \<Longrightarrow> file_ok (st\<lparr>fs_count := n\<rparr>)" unfolding file_ok_def by metis
qed

lemma newMessage_ok:
  assumes ok: "file_ok st"
  obtains fm st' where "newMessage (fs_mbox st mb) st = (Ok fm, fbox st mb (index_msgs st' mb), st')" "file_ok st'"
    "same_config st st'" "fs_count st' = Suc (fs_count st)" "Fid fm = gen_id st (fs_count st)" "\<not> Fseen fm"
    "file_abs st' = (file_abs st)(mb := (if messageCap st > 0
       then drop (Suc (length (file_abs st mb)) - nat (messageCap st)) (file_abs st mb) else file_abs st mb))"
    "Fid fm \<notin> Fid ` set (index_msgs st' mb)"
proof -
  let ?ms = "index_msgs st mb"
  let ?cut = "\<lambda>xs. if messageCap st > 0 then drop (Suc (length ?ms) - nat (messageCap st)) xs else xs"
  obtain st1 where st1: "(if messageCap st > 0 then evict_loop (length ?ms) (fbox st mb ?ms) st else (fbox st mb ?ms, st))
      = (fbox st mb (?cut ?ms), st1)" "file_ok st1" "same_config st st1" "fs_count st1 = fs_count st"
    "index_msgs st1 mb = ?cut ?ms" "file_abs st1 = (file_abs st)(mb := ?cut (file_abs st mb))"
  proof (cases "messageCap st > 0")
    case True
    then obtain st1 where "evict_loop (length ?ms) (fbox st mb ?ms) st = (fbox st mb (?cut ?ms), st1)" "file_ok st1"
      "same_config st st1" "fs_count st1 = fs_count st" "index_msgs st1 mb = ?cut ?ms"
      "file_abs st1 = (file_abs st)(mb := ?cut (file_abs st mb))"
      using evict_loop_enough [OF ok refl True, of mb "length ?ms"] by auto
    with True show ?thesis by (intro that [of st1]) simp_all
  next
    case False
    with ok show ?thesis by (intro that [of st]) simp_all
  qed
  note e = same_config_eqs [OF st1(3)]
  let ?fm = "\<lparr>Fid = gen_id st (fs_count st), Fdate = fst (fs_clock st (fs_count st)), Ffrom = None, Fto = [],
    Fsubject = [], Fsize = 0, Fseen = False\<rparr>"
  let ?st2 = "st1\<lparr>fs_count := Suc (fs_count st)\<rparr>"
  have cl: "fs_clock st1 = fs_clock st" using st1(3) by (simp add: same_config_def)
  have n: "newMessage (fs_mbox st mb) st = (Ok ?fm, fbox st mb (?cut ?ms), ?st2)"
  proof (cases "0 < messageCap st")
    case True
    then have "evict_loop (length ?ms) (fbox st mb ?ms) st = (fbox st mb (?cut ?ms), st1)" using st1(1) by simp
    with True show ?thesis by (simp add: newMessage_def load_ok [OF ok] generateID_gen e(4) cl st1(4))
  next
    case False
    then have "st1 = st" using st1(1) by simp
    with False show ?thesis by (simp add: newMessage_def load_ok [OF ok] generateID_gen)
  qed
  have i2: "index_msgs ?st2 mb = ?cut ?ms" using st1(4,5) by simp
  have "gen_id st (fs_count st) \<notin> Fid ` set ?ms"
  proof
    assume "gen_id st (fs_count st) \<in> Fid ` set ?ms"
    then obtain x where x: "x \<in> set ?ms" "Fid x = gen_id st (fs_count st)" by auto
    then have "gen_id st (fs_count st) \<notin> gen_id st ` {fs_count st..}"
      using holds_index_msgs [OF ok, of mb] unfolding holds_def by metis
    then show False by auto
  qed
  moreover have "set (?cut ?ms) \<subseteq> set ?ms" by (auto dest: in_set_dropD)
  ultimately have new: "gen_id st (fs_count st) \<notin> Fid ` set (?cut ?ms)" by auto
  have len: "length (file_abs st mb) = length ?ms" by (simp add: file_abs_map)
  have c2: "same_config st ?st2"
    by (rule same_config_trans [OF st1(3)]) (rule count_fields(4), simp add: st1(4))
  show ?thesis
    by (rule that [of ?fm ?st2]) (use n i2 new st1 c2 len in \<open>simp_all\<close>)
qed

lemma AddMessage_ok:
  assumes ok: "file_ok st" and src: "sSource m = Some source"
  obtains st' where "file_AddMessage st m = (Ok (gen_id st (fs_count st)), st')" "file_ok st'" "same_config st st'"
    "file_abs st' = (file_abs st)(sMailbox m := keep_newest (messageCap st) (file_abs st (sMailbox m)
       @ [m\<lparr>sID := gen_id st (fs_count st), sSize := int (length source), sSeen := False\<rparr>]))"
proof -
  let ?mb = "sMailbox m" and ?i = "gen_id st (fs_count st)"
  obtain fm st1 where n: "newMessage (fs_mbox st ?mb) st = (Ok fm, fbox st ?mb (index_msgs st1 ?mb), st1)"
    "file_ok st1" "same_config st st1" "fs_count st1 = Suc (fs_count st)" "Fid fm = ?i" "\<not> Fseen fm"
    "file_abs st1 = (file_abs st)(?mb := (if messageCap st > 0
       then drop (Suc (length (file_abs st ?mb)) - nat (messageCap st)) (file_abs st ?mb) else file_abs st ?mb))"
    "Fid fm \<notin> Fid ` set (index_msgs st1 ?mb)"
    using newMessage_ok [OF ok] .
  note e1 = same_config_eqs [OF n(3)]
  let ?ms = "index_msgs st1 ?mb" and ?raw = "rawp st ?mb ?i"
  have b1: "base_ok st1" using n(2) by (rule file_ok_base)
  obtain st2 where c: "createDir (fbox st ?mb ?ms) st1 = (True, st2)" "base_ok st2" "quiet st1 st2"
    "ffiles (fs_world st2) = ffiles (fs_world st1)" "mdir st ?mb \<in> set (fdirs (fs_world st2))"
    using createDir_ok [OF b1, of ?mb ?ms] unfolding e1 by blast
  have c2: "same_config st st2" using n(3) c(3) same_config_trans by (auto simp: quiet_def)
  note e2 = same_config_eqs [OF c2]
  let ?st3 = "put st2 ?raw (Raw [])"
  let ?st4 = "put ?st3 ?raw (Raw source)"
  have cr: "on_world (os_Create ?raw) st2 = (True, ?st3)"
    using Create_ok [OF c(2), of ?mb] c(5) by (simp add: rawp_def e2)
  have b3: "base_ok ?st3" using base_ok_put [OF c(2), of ?mb] c(5) by (simp add: rawp_def e2)
  have b4: "base_ok ?st4"
    using base_ok_put [OF b3, of ?mb "?i @ ''.raw''"] c(5) by (simp add: rawp_def e2)
  have q4: "quiet st1 ?st4" by (rule quiet_trans [OF c(3)], rule quiet_trans [of _ ?st3]) simp_all
  then have c14: "same_config st1 ?st4" "fs_count ?st4 = fs_count st1" by (simp_all add: quiet_def)
  note e4 = same_config_eqs [OF c14(1)]
  have f2: "filemap st2 = filemap st1" using c(4) by simp
  have f4: "filemap ?st4 = (filemap st1)(?raw \<mapsto> Raw source)" using f2 by simp
  have step: "step_on ?mb st1 ?st4" using b4 c14 f4 by (auto simp: step_on_def e1)
  have raw_ne: "rawp st ?mb (Fid x) \<noteq> ?raw" if "x \<in> set ?ms" for x
    using n(8) that unfolding n(5) by (metis imageI rawp_inj)
  have h1: "holds st1 ?mb ?ms" by (rule holds_index_msgs [OF n(2)])
  have h4: "holds ?st4 ?mb ?ms"
    using h1 raw_ne by (auto simp: holds_def e4 e1 c14(2) f2)
  have same: "map (f_to_message ?st4 (fs_mbox ?st4 ?mb)) ?ms = map (f_to_message st1 (fs_mbox st1 ?mb)) ?ms"
    using raw_ne by (simp add: f_to_message_def raw_source_def e4 e1 f2)
  have ok4: "file_ok ?st4" by (rule commit(1) [OF n(2) step h4])
  have "file_abs ?st4 = (file_abs st1)(?mb := file_abs st1 ?mb)"
    unfolding commit(2) [OF n(2) step h4] same by (simp add: file_abs_map)
  then have abs4: "file_abs ?st4 = file_abs st1" by simp
  let ?fm = "fm\<lparr>Fdate := sDate m, Ffrom := sFrom m, Fto := sTo m, Fsize := int (length source), Fsubject := sSubject m\<rparr>"
  have d: "distinct (map Fid (?ms @ [?fm]))" using h1 n(8) by (auto simp: holds_def)
  have "inj_on (gen_id st) {fs_count st..}" using file_ok_base [OF ok] by (simp add: base_ok_def)
  then have fresh: "?i \<notin> gen_id st ` {Suc (fs_count st)..}" by (auto dest!: inj_onD)
  have raws: "\<forall>x\<in>set (?ms @ [?fm]). (\<exists>s. filemap ?st4 (rawp ?st4 ?mb (Fid x)) = Some (Raw s) \<and> Fsize x = int (length s))
      \<and> Fid x \<notin> gen_id ?st4 ` {fs_count ?st4..}"
    using h4 n(4,5) fresh by (auto simp: holds_def e4 e1 c14(2) f2)
  obtain st5 where w: "writeIndex (fbox ?st4 ?mb (?ms @ [?fm])) ?st4 = (True, st5)" "file_ok st5" "quiet ?st4 st5"
    "file_abs st5 = (file_abs ?st4)(?mb := map (f_to_message ?st4 (fs_mbox ?st4 ?mb)) (?ms @ [?fm]))"
    using save_ok [OF ok4 d raws] by blast
  have fb: "fbox ?st4 ?mb = fbox st ?mb" by (simp add: e4 e1)
  have "file_AddMessage st m = (Ok ?i, st5)"
    using n(1,5) c(1) cr WriteRaw_ok [OF b3, of ?raw source] w(1)
    by (simp add: file_AddMessage_def src fb)
  moreover have "same_config st st5"
    using n(3) c14(1) w(3) by (auto simp: quiet_def intro: same_config_trans)
  moreover have "file_abs st5 = (file_abs st)(?mb := keep_newest (messageCap st) (file_abs st ?mb
       @ [m\<lparr>sID := ?i, sSize := int (length source), sSeen := False\<rparr>]))"
  proof -
    have new: "f_to_message ?st4 (fs_mbox ?st4 ?mb) ?fm = m\<lparr>sID := ?i, sSize := int (length source), sSeen := False\<rparr>"
      using n(5,6) src by (simp add: f_to_message_def raw_source_def e4 e1 f2)
    have "map (f_to_message ?st4 (fs_mbox ?st4 ?mb)) ?ms = file_abs st1 ?mb" unfolding same by (simp add: file_abs_map)
    with new w(4) n(7) show ?thesis by (auto simp: abs4 keep_newest_def drop_append)
  qed
  ultimately show ?thesis by (intro that [of st5]) (use w in auto)
qed

subsection \<open>The contract\<close>

lemma seen_loop_eq:
  assumes "distinct (map Fid ms)"
  shows "seen_loop i ms = (if \<exists>m\<in>set ms. Fid m = i \<and> Fseen m then None
    else Some (map (\<lambda>m. if Fid m = i then m\<lparr>Fseen := True\<rparr> else m) ms))"
  using assms
proof (induction ms)
  case (Cons m ms)
  show ?case
  proof (cases "Fid m = i")
    case True
    then have "\<forall>x\<in>set ms. Fid x \<noteq> i" using Cons.prems by (auto simp: image_iff)
    with True show ?thesis by (auto simp: map_idI)
  qed (use Cons in auto)
qed simp

lemma MarkSeen_ok:
  assumes ok: "file_ok st"
  obtains st' where "file_MarkSeen st mb i = (None, st')" "file_ok st'" "same_config st st'"
    "file_abs st' = (file_abs st)(mb := map (\<lambda>m. if sID m = i then m\<lparr>sSeen := True\<rparr> else m) (file_abs st mb))"
proof -
  let ?ms = "index_msgs st mb" and ?see = "\<lambda>m. if Fid m = i then m\<lparr>Fseen := True\<rparr> else m"
  have d: "distinct (map Fid ?ms)" using holds_index_msgs [OF ok, of mb] by (simp add: holds_def)
  show ?thesis
  proof (cases "\<exists>m\<in>set ?ms. Fid m = i \<and> Fseen m")
    case True
    have "map (\<lambda>m. if sID m = i then m\<lparr>sSeen := True\<rparr> else m) (file_abs st mb) = file_abs st mb"
    proof (rule map_idI)
      fix x assume "x \<in> set (file_abs st mb)"
      then obtain m where m: "m \<in> set ?ms" "x = f_to_message st (fs_mbox st mb) m" by (auto simp: file_abs_map)
      obtain m' where m': "m' \<in> set ?ms" "Fid m' = i" "Fseen m'" using True by blast
      have "Fseen m" if "Fid m = i" using m(1) m' that d by (auto simp: distinct_map dest: inj_onD)
      with m(2) show "(if sID x = i then x\<lparr>sSeen := True\<rparr> else x) = x" by (simp add: f_to_message_def)
    qed
    with ok True show ?thesis
      by (intro that [of st]) (simp_all add: file_MarkSeen_def load_ok seen_loop_eq [OF d])
  next
    case False
    have "map Fid (map ?see ?ms) = map Fid ?ms" by simp
    then have d': "distinct (map Fid (map ?see ?ms))" using d by metis
    have sub: "\<forall>m\<in>set (map ?see ?ms). \<exists>m0\<in>set ?ms. Fid m = Fid m0 \<and> Fsize m = Fsize m0" by auto
    obtain st' where "writeIndex (fbox st mb (map ?see ?ms)) st = (True, st')" "file_ok st'" "quiet st st'"
      "file_abs st' = (file_abs st)(mb := map (f_to_message st (fs_mbox st mb)) (map ?see ?ms))"
      using save_sub_ok [OF ok d' sub] by blast
    moreover have "map (f_to_message st (fs_mbox st mb)) (map ?see ?ms)
        = map (\<lambda>m. if sID m = i then m\<lparr>sSeen := True\<rparr> else m) (file_abs st mb)"
      by (simp add: file_abs_map f_to_message_def rawp_def)
    moreover have "seen_loop i ?ms = Some (map ?see ?ms)" by (simp only: seen_loop_eq [OF d] False if_False)
    ultimately show ?thesis
      by (intro that [of st']) (simp_all add: file_MarkSeen_def load_ok [OF ok] quiet_def)
  qed
qed

lemma Remove_message_ok:
  assumes ok: "file_ok st"
  obtains e st' where "file_RemoveMessage st mb i = (e, st')" "file_ok st'" "same_config st st'"
    "file_abs st' = (file_abs st)(mb := filter (\<lambda>m. sID m \<noteq> i) (file_abs st mb))"
    "e = (if i \<in> sID ` set (file_abs st mb) then None else Some ErrNotExist)"
proof (cases "i \<in> Fid ` set (index_msgs st mb)")
  case True
  then obtain m where m: "m \<in> set (index_msgs st mb)" "i = Fid m" by blast
  have "f_removeMessage (fs_mbox st mb) i st = f_removeMessage (fbox st mb (index_msgs st mb)) i st"
    by (simp add: f_removeMessage_def load_ok [OF ok])
  moreover have "i \<in> sID ` set (file_abs st mb)" using True by (auto simp: file_abs_map image_image)
  moreover obtain st' where
    "f_removeMessage (fbox st mb (index_msgs st mb)) (Fid m) st
       = (None, fbox st mb (filter (\<lambda>x. Fid x \<noteq> Fid m) (index_msgs st mb)), st')"
    "file_ok st'" "same_config st st'" "file_abs st' = (file_abs st)(mb := filter (\<lambda>x. sID x \<noteq> Fid m) (file_abs st mb))"
    using removeMessage_ok [OF ok refl m(1)] by blast
  ultimately show ?thesis by (intro that [of None st']) (simp_all add: file_RemoveMessage_def m(2))
next
  case False
  have "f_removeMessage (fs_mbox st mb) i st = f_removeMessage (fbox st mb (index_msgs st mb)) i st"
    by (simp add: f_removeMessage_def load_ok [OF ok])
  with removeMessage_missing [OF False] have r: "file_RemoveMessage st mb i = (Some ErrNotExist, st)"
    by (simp add: file_RemoveMessage_def)
  have n: "i \<notin> sID ` set (file_abs st mb)" using False by (simp add: file_abs_map image_image)
  then have "filter (\<lambda>m. sID m \<noteq> i) (file_abs st mb) = file_abs st mb" by (auto simp: filter_id_conv image_iff)
  with r n ok show ?thesis by (intro that [of "Some ErrNotExist" st]) simp_all
qed

lemma Purge_ok:
  assumes ok: "file_ok st"
  obtains st' where "file_PurgeMessages st mb = (None, st')" "file_ok st'" "same_config st st'"
    "file_abs st' = (file_abs st)(mb := [])"
    "fs_deleted st' = fs_deleted st @ map MakeMetadata (file_abs st mb)"
proof -
  let ?st = "st\<lparr>fs_deleted := fs_deleted st @ map MakeMetadata (file_abs st mb)\<rparr>"
  obtain st' where w: "writeIndex (fbox ?st mb []) ?st = (True, st')" "file_ok st'" "quiet ?st st'"
    "file_abs st' = (file_abs ?st)(mb := map (f_to_message ?st (fs_mbox ?st mb)) [])"
    using save_sub_ok [of ?st "[]" mb] ok by auto
  have "file_PurgeMessages st mb = (None, st')"
    using w(1) by (simp add: file_PurgeMessages_def purge_def load_ok [OF ok] f_to_message_fbox file_abs_map comp_def)
  moreover have "same_config st st'" "fs_deleted st' = fs_deleted ?st"
    using w(3) by (auto simp: quiet_def same_config_def)
  ultimately show ?thesis using w by (intro that [of st']) auto
qed

text \<open>
  The states of the store with message cap \<open>c\<close>, mail directory \<open>p\<close>, digest \<open>h\<close> and ids in \<open>I\<close>.
\<close>

definition file_capped :: "int \<Rightarrow> string \<Rightarrow> (string \<Rightarrow> string) \<Rightarrow> string set \<Rightarrow> fstore \<Rightarrow> bool" where
  "file_capped c p h I st \<longleftrightarrow> file_ok st \<and> messageCap st = c \<and> fs_mailPath st = p \<and> fs_sha1 st = h
     \<and> range (gen_id st) \<subseteq> I \<and> (\<forall>mb. sID ` set (file_abs st mb) \<subseteq> I)"

lemma file_capped_step:
  assumes "file_capped c p h I st" and "file_ok st'" and "same_config st st'"
    and "file_abs st' = (file_abs st)(mb := xs)" and "sID ` set xs \<subseteq> I"
  shows "file_capped c p h I st'"
  using assms same_config_eqs(4) [OF assms(3)] by (simp add: file_capped_def same_config_def)

lemma file_capped_ids: "file_capped c p h I st \<Longrightarrow> sID ` set (file_abs st mb) \<subseteq> I" "file_capped c p h I st \<Longrightarrow> gen_id st k \<in> I"
  by (auto simp: file_capped_def)

lemma file_cappedD: "file_capped c p h I st \<Longrightarrow> file_ok st"
  by (simp add: file_capped_def)

lemma add_spec:
  assumes "file_capped c p h I st" and "file_AddMessage st m = (r, st')"
  shows "file_capped c p h I st'"
    and "r = Ok i \<Longrightarrow> file_abs st' = (file_abs st)(sMailbox m := keep_newest c (file_abs st (sMailbox m) @
        [m\<lparr>sID := i, sSize := int (length (the (sSource m))), sSeen := False\<rparr>]))"
    and "sSource m \<noteq> None \<Longrightarrow> is_ok r"
proof -
  have ok: "file_ok st" and c: "messageCap st = c" using assms(1) by (simp_all add: file_capped_def)
  have none: "sSource m = None \<Longrightarrow> r = Err SourceError \<and> st' = st" using assms(2) by (simp add: file_AddMessage_def Let_def)
  have some: "r = Ok (gen_id st (fs_count st)) \<and> file_ok st' \<and> same_config st st'
    \<and> file_abs st' = (file_abs st)(sMailbox m := keep_newest c (file_abs st (sMailbox m)
       @ [m\<lparr>sID := gen_id st (fs_count st), sSize := int (length source), sSeen := False\<rparr>]))"
    if src: "sSource m = Some source" for source
  proof -
    obtain st1 where "file_AddMessage st m = (Ok (gen_id st (fs_count st)), st1)" "file_ok st1" "same_config st st1"
      "file_abs st1 = (file_abs st)(sMailbox m := keep_newest (messageCap st) (file_abs st (sMailbox m)
       @ [m\<lparr>sID := gen_id st (fs_count st), sSize := int (length source), sSeen := False\<rparr>]))"
      using AddMessage_ok [OF ok src] .
    with assms(2) c show ?thesis by simp
  qed
  show "file_capped c p h I st'"
  proof (cases "sSource m")
    case None
    with none assms(1) show ?thesis by simp
  next
    case (Some source)
    let ?new = "m\<lparr>sID := gen_id st (fs_count st), sSize := int (length source), sSeen := False\<rparr>"
    have "set (keep_newest c (file_abs st (sMailbox m) @ [?new])) \<subseteq> set (file_abs st (sMailbox m) @ [?new])"
      by (rule set_mono_suffix [OF keep_newest_suffix])
    then have "sID ` set (keep_newest c (file_abs st (sMailbox m) @ [?new])) \<subseteq> I"
      using file_capped_ids [OF assms(1)] by fastforce
    with some [OF Some] file_capped_step [OF assms(1)] show ?thesis by blast
  qed
  show "file_abs st' = (file_abs st)(sMailbox m := keep_newest c (file_abs st (sMailbox m) @
        [m\<lparr>sID := i, sSize := int (length (the (sSource m))), sSeen := False\<rparr>]))" if "r = Ok i"
    using that none some by (cases "sSource m") auto
  show "is_ok r" if "sSource m \<noteq> None" using that some by (cases "sSource m") auto
qed

lemma file_abs_distinct:
  assumes "file_ok st"
  shows "distinct (map sID (file_abs st mb))"
  using holds_index_msgs [OF assms, of mb] by (simp add: file_abs_map holds_def comp_def)

lemma find_distinct:
  "distinct (map sID ms) \<Longrightarrow> m \<in> set ms \<Longrightarrow> List.find (\<lambda>x. sID x = sID m) ms = Some m"
  by (induction ms) (auto simp: image_iff)

lemma remove_spec:
  assumes "file_capped c p h I st" and "file_RemoveMessage st mb i = (e, st')"
  shows "file_capped c p h I st' \<and> file_abs st' = (file_abs st)(mb := filter (\<lambda>m. sID m \<noteq> i) (file_abs st mb))
    \<and> e = (if i \<in> sID ` set (file_abs st mb) then None else Some ErrNotExist)"
proof -
  obtain e1 st1 where "file_RemoveMessage st mb i = (e1, st1)" "file_ok st1" "same_config st st1"
    "file_abs st1 = (file_abs st)(mb := filter (\<lambda>m. sID m \<noteq> i) (file_abs st mb))"
    "e1 = (if i \<in> sID ` set (file_abs st mb) then None else Some ErrNotExist)"
    using Remove_message_ok [OF file_cappedD [OF assms(1)]] .
  moreover have "sID ` set (filter (\<lambda>m. sID m \<noteq> i) (file_abs st mb)) \<subseteq> I"
    using file_capped_ids(1) [OF assms(1), of mb] by auto
  ultimately show ?thesis using assms(2) file_capped_step [OF assms(1)] by simp
qed

lemma purge_spec:
  assumes "file_capped c p h I st" and "file_PurgeMessages st mb = (e, st')"
  shows "file_capped c p h I st' \<and> e = None \<and> file_abs st' = (file_abs st)(mb := [])"
proof -
  obtain st1 where "file_PurgeMessages st mb = (None, st1)" "file_ok st1" "same_config st st1" "file_abs st1 = (file_abs st)(mb := [])"
    using Purge_ok [OF file_cappedD [OF assms(1)]] by blast
  with assms(2) file_capped_step [OF assms(1), of st1 mb "[]"] show ?thesis by simp
qed

lemma seen_spec:
  assumes "file_capped c p h I st" and "file_MarkSeen st mb i = (e, st')"
  shows "file_capped c p h I st' \<and> e = None
    \<and> file_abs st' = (file_abs st)(mb := map (\<lambda>m. if sID m = i then m\<lparr>sSeen := True\<rparr> else m) (file_abs st mb))"
proof -
  obtain st1 where "file_MarkSeen st mb i = (None, st1)" "file_ok st1" "same_config st st1"
    "file_abs st1 = (file_abs st)(mb := map (\<lambda>m. if sID m = i then m\<lparr>sSeen := True\<rparr> else m) (file_abs st mb))"
    using MarkSeen_ok [OF file_cappedD [OF assms(1)]] .
  moreover have "sID ` set (map (\<lambda>m. if sID m = i then m\<lparr>sSeen := True\<rparr> else m) (file_abs st mb)) \<subseteq> I"
    using file_capped_ids(1) [OF assms(1), of mb] by auto
  ultimately show ?thesis using assms(2) file_capped_step [OF assms(1)] by simp
qed

interpretation disk: capped_store file_ops file_abs "file_capped c p h I" c for c p h I
proof (unfold_locales, goal_cases)
  case (1 st mb) then show ?case using file_abs_distinct file_cappedD by blast
next
  case (2 st m mb) then show ?case by (auto simp: file_abs_map)
next
  case (3 st m ra st') then show ?case using add_spec(1) by (simp add: file_ops_def)
next
  case (4 st m src)
  obtain r st' where a: "file_AddMessage st m = (r, st')" by fastforce
  have "is_ok r" using add_spec(3) [OF 4(1) a] 4(2) by simp
  with a show ?case by (auto simp: file_ops_def is_ok_iff)
next
  case (5 st m i st' mb)
  have a: "file_AddMessage st m = (Ok i, st')" using 5(2) by (simp add: file_ops_def)
  show ?case
    using add_spec(2) [OF 5(1) a refl] keep_newest_suffix
    by (auto intro: suffix_imp_subseq)
next
  case (6 st mb r st') then show ?case using GetMessages_ok file_cappedD by (auto simp: file_ops_def)
next
  case (7 st mb r st') then show ?case using GetMessages_ok [OF file_cappedD] by (auto simp: file_ops_def)
next
  case (8 st mb i e st') then show ?case using remove_spec by (simp add: file_ops_def)
next
  case (9 st mb i e st') then show ?case using remove_spec by (simp add: file_ops_def)
next
  case (10 st mb i e st') then show ?case using remove_spec [of c p h I st mb i e st'] by (simp add: file_ops_def)
next
  case (11 st mb e st') then show ?case using purge_spec by (simp add: file_ops_def)
next
  case (12 st mb e st') then show ?case using purge_spec by (simp add: file_ops_def)
next
  case (13 st mb i e st') then show ?case using seen_spec by (simp add: file_ops_def)
next
  case (14 st mb i e st') then show ?case using seen_spec by (simp add: file_ops_def)
next
  case (15 st mb i ro st') then show ?case using GetMessage_ok [OF file_cappedD] by (auto simp: file_ops_def)
next
  case (16 st mb i m st')
  then show ?case using GetMessage_ok [OF file_cappedD [OF 16(1)], of mb i]
    by (auto simp: file_ops_def find_Some_iff split: if_splits option.splits)
next
  case (17 st m mb)
  then show ?case
    using GetMessage_ok [OF file_cappedD [OF 17(1)], of mb "sID m"]
      find_distinct [OF file_abs_distinct [OF file_cappedD [OF 17(1)]] 17(2)]
    by (simp add: file_ops_def)
next
  case (18 st i mb rm st')
  then have "List.find (\<lambda>m. sID m = i) (file_abs st mb) = None" by (auto simp: find_None_iff)
  with 18 show ?case using GetMessage_ok [OF file_cappedD [OF 18(1)], of mb i] by (simp add: file_ops_def)
next
  case (19 st m i st') then show ?case using add_spec(2) by (simp add: file_ops_def)
qed

end
