(* ===== verification/FileReach.thy ===== *)
theory FileReach
  imports FileContract MemProps
begin

text \<open>
  The file store from its creation on: ids, agreement with the memory store, and restarts. Ids are unique while the clock gives the same label to fewer than
  10000 of them; the digest is taken to be injective.
\<close>

subsection \<open>Ids\<close>

definition new_id :: "(nat \<Rightarrow> int \<times> string) \<Rightarrow> nat \<Rightarrow> string" where
  [go_eval]: "new_id clk k = snd (clk k) @ ''-'' @ pad0 4 (Utoa (k mod 10000))"

definition env_ok :: "(string \<Rightarrow> string) \<Rightarrow> (nat \<Rightarrow> int \<times> string) \<Rightarrow> bool" where
  "env_ok sha1 clk \<longleftrightarrow> inj sha1 \<and> (\<forall>x. 3 \<le> length (sha1 x)) \<and> (\<forall>i j. snd (clk i) = snd (clk j) \<longrightarrow> j < i + 10000)"

lemma gen_new_id: "gen_id st = new_id (fs_clock st)"
  by (rule ext) (simp add: gen_id_def new_id_def)

lemma length_Utoa: "k < 10 ^ n \<Longrightarrow> 0 < n \<Longrightarrow> length (Utoa k) \<le> n"
proof (induction n arbitrary: k)
  case (Suc n)
  show ?case
  proof (cases "k < 10")
    case True
    then show ?thesis by (subst Utoa.simps) simp
  next
    case False
    then have "n \<noteq> 0" using Suc.prems(1) by (cases n) auto
    then have "length (Utoa (k div 10)) \<le> n" using Suc.IH [of "k div 10"] Suc.prems(1) by simp
    with False show ?thesis by (subst Utoa.simps) simp
  qed
qed simp

lemma dec_val_pad0: "dec_val (pad0 n s) = dec_val s"
proof -
  have "dec_val (replicate k CHR ''0'' @ s) = dec_val s" for k
    by (induction k) (simp_all add: dec_val_def digit_val_def code_def)
  then show ?thesis by (simp add: pad0_def)
qed

lemma pad0_inj: "pad0 n (Utoa i) = pad0 n (Utoa j) \<Longrightarrow> i = j"
  by (metis dec_val_pad0 dec_val_Utoa)

lemma new_id_eq:
  assumes "new_id clk i = new_id clk' j"
  shows "snd (clk i) = snd (clk' j) \<and> i mod 10000 = j mod 10000"
proof -
  have l: "length (pad0 4 (Utoa (k mod 10000))) = 4" for k
    using length_Utoa [of "k mod 10000" 4] by (simp add: pad0_def)
  have "snd (clk i) = snd (clk' j) \<and> ''-'' @ pad0 4 (Utoa (i mod 10000)) = ''-'' @ pad0 4 (Utoa (j mod 10000))"
    using assms unfolding new_id_def by (subst (asm) append_eq_append_conv) (simp_all add: l)
  then show ?thesis using pad0_inj by auto
qed

text \<open>
  Two calls of \<open>generateID\<close> give the same id exactly when the clock gave them the same label and
  their numbers agree modulo 10000: ids are unique while fewer than 10000 are made per second.
\<close>
theorem generateID_unique:
  "fst (generateID (st\<lparr>fs_count := i\<rparr>)) = fst (generateID (st\<lparr>fs_count := j\<rparr>))
    \<longleftrightarrow> snd (fs_clock st i) = snd (fs_clock st j) \<and> i mod 10000 = j mod 10000"
  using new_id_eq [of "fs_clock st" i "fs_clock st" j] by (auto simp: generateID_def new_id_def)

lemma mod_close: "i \<le> j \<Longrightarrow> j < i + n \<Longrightarrow> i mod n = j mod n \<Longrightarrow> i = (j::nat)"
  using mod_eq_dvd_iff_nat [of i j n] dvd_imp_le [of n "j - i"] by force

lemma new_id_inj:
  assumes "env_ok sha1 clk"
  shows "inj (new_id clk)"
proof (rule injI)
  fix i j
  assume "new_id clk i = new_id clk j"
  then have e: "snd (clk i) = snd (clk j)" "i mod 10000 = j mod 10000" using new_id_eq by blast+
  then have "j < i + 10000" "i < j + 10000" using assms unfolding env_ok_def by auto
  with mod_close [of i j 10000] mod_close [of j i 10000] e(2) show "i = j" by (cases "i \<le> j") simp_all
qed

subsection \<open>Creation and agreement with the memory store\<close>

definition no_files :: "gobval files" where
  [go_eval]: "no_files = \<lparr>fdirs = [], ffiles = [], faults = []\<rparr>"

lemma file_New_config:
  "file_New cfg w sha1 clk n = Ok f \<Longrightarrow> fs_sha1 f = sha1 \<and> fs_clock f = clk \<and> fs_count f = n \<and> fs_deleted f = []
    \<and> messageCap f = MailboxMsgCap cfg
    \<and> (\<exists>p. map_of (Params cfg) ''path'' = Some p \<and> fs_mailPath f = getMailPath p)"
  by (auto simp: file_New_def Let_def split: option.splits if_splits prod.splits)

lemma file_New_world:
  "file_New cfg w sha1 clk n = Ok f \<Longrightarrow> faults w = [] \<Longrightarrow> [fs_mailPath f] \<in> set (fdirs w) \<Longrightarrow> fs_world f = w"
  by (auto simp: file_New_def Let_def os_Stat_ok path_exists_def split: option.splits if_splits prod.splits)

lemma file_New_fresh:
  assumes "file_New cfg no_files sha1 clk n = Ok f" and env: "env_ok sha1 clk"
  shows "file_capped (MailboxMsgCap cfg) (fs_mailPath f) sha1 (range (new_id clk)) f" and "file_abs f = (\<lambda>mb. [])"
proof -
  note c = file_New_config [OF assms(1)]
  have w: "fs_world f = no_files\<lparr>fdirs := [[fs_mailPath f]]\<rparr>"
    using assms(1) by (auto simp: file_New_def Let_def no_files_def os_Stat_ok os_MkdirAll_def path_exists_def
        split: option.splits if_splits)
  have "inj_on (gen_id f) {fs_count f..}"
    using new_id_inj [OF env] c by (auto simp: gen_new_id intro: inj_on_subset)
  moreover have "tree_ok (fs_world f)" unfolding w by (rule tree_okI) (auto simp: no_files_def prefix_Cons)
  ultimately have "base_ok f" using env c w by (simp add: base_ok_def env_ok_def no_files_def)
  moreover have "holds f mb []" for mb by (simp add: holds_def index_file_def w no_files_def)
  ultimately have "file_ok f" unfolding file_ok_def by auto
  moreover show "file_abs f = (\<lambda>mb. [])" by (rule ext) (simp add: file_abs_def index_msgs_def w no_files_def)
  ultimately show "file_capped (MailboxMsgCap cfg) (fs_mailPath f) sha1 (range (new_id clk)) f"
    using c by (simp add: file_capped_def gen_new_id)
qed

subsection \<open>Agreement and restarts\<close>

lemma mem_New_capped: "mem_New cap None = Some s \<Longrightarrow> mem_capped cap s \<and> mem_abs s = (\<lambda>mb. [])"
  using mem_New_spec [of cap None s] by (auto simp: mem_capped_def)

lemma file_spec:
  assumes "file_capped c p h I f" and "\<forall>c\<in>set cs. op_ok c"
  shows "file_capped c p h I (fold (exec_op file_ops) cs f)"
    and "disk.view (fold (exec_op file_ops) cs f) = fold (spec_op c) cs (disk.view f)"
  using disk.exec_refines [OF assms] by simp_all

lemma mem_spec:
  assumes "mem_New cap None = Some s" and "\<forall>c\<in>set cs. op_ok c"
  shows "listing_of mem_ops (fold (exec_op mem_ops) cs s) mb = Ok (fold (spec_op cap) cs (\<lambda>mb. []) mb)"
proof -
  note s = mem_New_capped [OF assms(1)]
  have "mem_capped cap (fold (exec_op mem_ops) cs s)"
    "capped.view (fold (exec_op mem_ops) cs s) = fold (spec_op cap) cs (capped.view s)"
    using capped.exec_refines [of cap s cs] s assms(2) by simp_all
  moreover have "capped.view s = (\<lambda>mb. [])" using s by (simp add: capped.view_def fun_eq_iff)
  ultimately show ?thesis using capped.listing_view by simp
qed

text \<open>
  The two stores are interchangeable: after any sequence of adds, removals, marks and purges a
  client that lists a mailbox of a fresh file store and of a fresh memory store with the same
  message cap gets the same messages, ids aside.
\<close>
theorem file_agrees_with_memory:
  assumes "env_ok sha1 clk" and "file_New cfg no_files sha1 clk 0 = Ok f"
    and "mem_New (MailboxMsgCap cfg) None = Some s" and "\<forall>c\<in>set cs. op_ok c"
  shows "listing_of file_ops (fold (exec_op file_ops) cs f) mb = listing_of mem_ops (fold (exec_op mem_ops) cs s) mb"
proof -
  note f = file_New_fresh [OF assms(2,1)]
  have "disk.view f = (\<lambda>mb. [])" by (simp add: disk.view_def f(2) fun_eq_iff)
  with file_spec [OF f(1) assms(4)] mem_spec [OF assms(3,4)] disk.listing_view show ?thesis by simp
qed

lemma same_place:
  assumes "fs_mailPath f' = fs_mailPath f" and "fs_sha1 f' = fs_sha1 f" and "fs_world f' = fs_world f"
  shows "fs_mbox f' = fs_mbox f" and "mdir f' = mdir f" and "index_msgs f' = index_msgs f" and "file_abs f' = file_abs f"
    and "ipath f' = ipath f" and "rawp f' = rawp f"
proof -
  show m: "fs_mbox f' = fs_mbox f" "mdir f' = mdir f"
    by (intro ext, simp add: fs_mbox_def mdir_eq assms)+
  show i: "ipath f' = ipath f" "rawp f' = rawp f" by (intro ext, simp add: ipath_def rawp_def m)+
  show x: "index_msgs f' = index_msgs f" by (intro ext, simp add: index_msgs_def i assms)
  show "file_abs f' = file_abs f" by (intro ext, simp add: file_abs_def x m f_to_message_def raw_source_def assms)
qed

lemma file_New_again:
  assumes "base_ok st" and "map_of (Params cfg) ''path'' = Some p" and "fs_mailPath st = getMailPath p" and "p \<noteq> []"
  shows "\<exists>f. file_New cfg (fs_world st) sha1 clk n = Ok f"
  using assms(2-4) base_okD(1,3) [OF assms(1)] by (simp add: file_New_def Let_def os_Stat_ok path_exists_def)

text \<open>Opening a store on the files of another: no id on disk is one the clock will make.\<close>

lemma reopen_base:
  assumes b: "base_ok st" and new: "file_New cfg (fs_world st) (fs_sha1 st) clk n = Ok f" and env: "env_ok (fs_sha1 st) clk"
    and path: "map_of (Params cfg) ''path'' = Some p" "fs_mailPath st = getMailPath p"
  shows "base_ok f" and "fs_mailPath f = fs_mailPath st" and "fs_sha1 f = fs_sha1 st" and "fs_world f = fs_world st"
    and "gen_id f = new_id clk"
proof -
  note c = file_New_config [OF new]
  show mp: "fs_mailPath f = fs_mailPath st" and s: "fs_sha1 f = fs_sha1 st" using c path by simp_all
  show w: "fs_world f = fs_world st"
    using file_New_world [OF new] mp base_okD(1,3) [OF b] by simp
  show g: "gen_id f = new_id clk" using c by (simp add: gen_new_id)
  have "inj_on (gen_id f) {fs_count f..}" using new_id_inj [OF env] by (auto simp: g intro: inj_on_subset)
  then show "base_ok f" using b w mp s by (simp add: base_ok_def)
qed

text \<open>The clock has moved on: none of its labels is one of before.\<close>

definition later_clock :: "(nat \<Rightarrow> int \<times> string) \<Rightarrow> (nat \<Rightarrow> int \<times> string) \<Rightarrow> bool" where
  "later_clock clk clk' \<longleftrightarrow> (\<forall>i j. snd (clk i) \<noteq> snd (clk' j))"

lemma later_new_id: "later_clock clk clk' \<Longrightarrow> new_id clk i \<noteq> new_id clk' j"
  using new_id_eq [of clk i clk' j] by (auto simp: later_clock_def)

lemma file_reopen:
  assumes st: "file_capped c d sha1 (range (new_id clk0)) st" and new: "file_New cfg (fs_world st) sha1 clk n = Ok f"
    and env: "env_ok sha1 clk" and path: "map_of (Params cfg) ''path'' = Some p" "d = getMailPath p"
    and ids: "later_clock clk0 clk"
  shows "file_capped (MailboxMsgCap cfg) d sha1 (range (new_id clk0) \<union> range (new_id clk)) f" and "file_abs f = file_abs st"
proof -
  have ok: "file_ok st" "fs_mailPath st = d" "fs_sha1 st = sha1" using st by (simp_all add: file_capped_def)
  note r = reopen_base [OF file_ok_base [OF ok(1)], unfolded ok, OF new env path]
  note e = same_place [OF r(2-4) [folded ok(2,3)]]
  have "holds f mb (index_msgs st mb)" for mb
  proof -
    have h: "holds st mb (index_msgs st mb)" by (rule holds_index_msgs [OF ok(1)])
    have "Fid m \<notin> new_id clk ` {n..}" if "m \<in> set (index_msgs st mb)" for m
    proof -
      have "Fid m \<in> range (new_id clk0)"
        using file_capped_ids(1) [OF st, of mb] that by (fastforce simp: file_abs_map image_image)
      with later_new_id [OF ids] show ?thesis by (metis (no_types, lifting) imageE)
    qed
    with h file_New_config [OF new] show ?thesis by (simp add: holds_def e r)
  qed
  with r have "file_ok f" unfolding file_ok_def by auto
  moreover show a: "file_abs f = file_abs st" by (rule e)
  ultimately show "file_capped (MailboxMsgCap cfg) d sha1 (range (new_id clk0) \<union> range (new_id clk)) f"
    using r file_New_config [OF new] file_capped_ids(1) [OF st] by (auto simp: file_capped_def)
qed

text \<open>
  A file store that is closed and opened again behaves as one that was never closed, which is
  as the memory store does: with any operations before and after, listings agree. The clock has
  moved on in between.
\<close>
theorem file_survives_restart:
  assumes "env_ok sha1 clk" and "file_New cfg no_files sha1 clk 0 = Ok f"
    and "mem_New (MailboxMsgCap cfg) None = Some s" and "\<forall>c\<in>set (before @ after). op_ok c"
    and "st = fold (exec_op file_ops) before f" and "env_ok sha1 clk'"
    and "file_New cfg (fs_world st) sha1 clk' 0 = Ok f'"
    and "later_clock clk clk'"
  shows "listing_of file_ops (fold (exec_op file_ops) after f') mb
    = listing_of mem_ops (fold (exec_op mem_ops) (before @ after) s) mb"
proof -
  note f = file_New_fresh [OF assms(2,1)] and c = file_New_config [OF assms(2)]
  have ok: "file_capped (MailboxMsgCap cfg) (fs_mailPath f) sha1 (range (new_id clk)) st"
    "disk.view st = fold (spec_op (MailboxMsgCap cfg)) before (disk.view f)"
    using file_spec [OF f(1), of before] assms(4,5) by simp_all
  from c obtain p where p: "map_of (Params cfg) ''path'' = Some p" "fs_mailPath f = getMailPath p" by auto
  note f' = file_reopen [OF ok(1) assms(7,6) p assms(8)]
  have "disk.view f' = disk.view st" by (simp add: disk.view_def f'(2) fun_eq_iff)
  moreover have "disk.view f = (\<lambda>mb. [])" by (simp add: disk.view_def f(2) fun_eq_iff)
  ultimately have v: "disk.view f' = fold (spec_op (MailboxMsgCap cfg)) before (\<lambda>mb. [])"
    using ok(2) by simp
  have "\<forall>c\<in>set after. op_ok c" using assms(4) by simp
  from file_spec [OF f'(1) this] v disk.listing_view mem_spec [OF assms(3,4)] show ?thesis by simp
qed

subsection \<open>Examples\<close>

definition example_disk_config :: storage_config where
  [go_eval]: "example_disk_config = \<lparr>Type = ''file'', Params = [(''path'', ''/d'')], RetentionPeriod = 0, RetentionSleep = 0, MailboxMsgCap = 0\<rparr>"

definition example_clock :: "string \<Rightarrow> nat \<Rightarrow> int \<times> string" where
  [go_eval]: "example_clock p k = (int k, p @ Utoa k)"

definition example_disk :: fstore where
  [go_eval]: "example_disk = \<lparr>fs_mailPath = ''/d/mail'', messageCap = 0, fs_world = no_files\<lparr>fdirs := [[''/d/mail'']]\<rparr>,
     fs_sha1 = (\<lambda>x. ''sha'' @ x), fs_clock = example_clock ''a'', fs_count = 0, fs_deleted = []\<rparr>"

definition example_mail :: message where
  [go_eval]: "example_mail = \<lparr>sMailbox = ''bob'', sID = [], sFrom = None, sTo = [], sDate = 7, sSubject = ''hi'',
     sSource = Some ''text'', sSize = 0, sSeen = False\<rparr>"

lemma example_env: "env_ok (\<lambda>x. ''sha'' @ x) (example_clock p)"
  by (auto simp: env_ok_def example_clock_def inj_def)

lemma example_disk_New: "file_New example_disk_config no_files (\<lambda>x. ''sha'' @ x) (example_clock ''a'') 0 = Ok example_disk"
  by (simp add: go_eval)

lemma example_disk_ok: "file_capped 0 ''/d/mail'' (\<lambda>x. ''sha'' @ x) (range (new_id (example_clock ''a''))) example_disk" "file_abs example_disk = (\<lambda>mb. [])"
  using file_New_fresh [OF example_disk_New example_env] by (simp_all add: example_disk_config_def example_disk_def)

theorem file_agrees_with_memory_witness:
  "\<exists>s. mem_New 0 None = Some s
    \<and> listing_of file_ops (fold (exec_op file_ops) [CAdd example_mail, CSeen ''bob'' 0] example_disk) ''bob''
      = listing_of mem_ops (fold (exec_op mem_ops) [CAdd example_mail, CSeen ''bob'' 0] s) ''bob''"
proof -
  obtain s where s: "mem_New 0 None = Some s" by (simp add: go_eval)
  moreover have "mem_New (MailboxMsgCap example_disk_config) None = Some s" using s by (simp add: example_disk_config_def)
  ultimately show ?thesis
    using file_agrees_with_memory [OF example_env example_disk_New, of s "[CAdd example_mail, CSeen ''bob'' 0]" "''bob''"]
    by (simp add: example_mail_def)
qed

text \<open>The example store with one message.\<close>

definition example_disk1 :: fstore where
  [go_eval]: "example_disk1 = exec_op file_ops (CAdd example_mail) example_disk"

lemma example_disk1_ok:
  "file_capped 0 ''/d/mail'' (\<lambda>x. ''sha'' @ x) (range (new_id (example_clock ''a''))) example_disk1" "map sID (file_abs example_disk1 ''bob'') = [new_id (example_clock ''a'') 0]"
  "mb \<noteq> ''bob'' \<Longrightarrow> file_abs example_disk1 mb = []"
proof -
  obtain st where st: "file_AddMessage example_disk example_mail = (Ok (gen_id example_disk (fs_count example_disk)), st)" "file_ok st"
    "same_config example_disk st"
    "file_abs st = (file_abs example_disk)(''bob'' := keep_newest 0 (file_abs example_disk ''bob''
       @ [example_mail\<lparr>sID := gen_id example_disk (fs_count example_disk), sSize := int (length ''text''), sSeen := False\<rparr>]))"
    using AddMessage_ok [OF file_cappedD [OF example_disk_ok(1)], of example_mail "''text''"]
    by (auto simp: example_mail_def example_disk_def)
  have "example_disk1 = st" by (simp add: example_disk1_def file_ops_def st)
  moreover have "gen_id example_disk (fs_count example_disk) = new_id (example_clock ''a'') 0"
    by (simp add: gen_new_id example_disk_def)
  ultimately show "map sID (file_abs example_disk1 ''bob'') = [new_id (example_clock ''a'') 0]"
    "mb \<noteq> ''bob'' \<Longrightarrow> file_abs example_disk1 mb = []"
    using st example_disk_ok(2) by (simp_all add: keep_newest_def)
  show "file_capped 0 ''/d/mail'' (\<lambda>x. ''sha'' @ x) (range (new_id (example_clock ''a''))) example_disk1"
    using file_spec(1) [OF example_disk_ok(1), of "[CAdd example_mail]"] by (simp add: example_disk1_def example_mail_def)
qed

lemma example_disk1_place: "fs_mailPath example_disk1 = ''/d/mail''" "fs_sha1 example_disk1 = (\<lambda>x. ''sha'' @ x)" "messageCap example_disk1 = 0"
  using example_disk1_ok(1) by (simp_all add: file_capped_def)

theorem file_survives_restart_witness:
  "\<exists>s f'. mem_New 0 None = Some s
    \<and> file_New example_disk_config (fs_world example_disk1) (\<lambda>x. ''sha'' @ x) (example_clock ''b'') 0 = Ok f'
    \<and> listing_of file_ops (fold (exec_op file_ops) [CAdd example_mail] f') ''bob''
      = listing_of mem_ops (fold (exec_op mem_ops) ([CAdd example_mail] @ [CAdd example_mail]) s) ''bob''"
proof -
  obtain s where s: "mem_New 0 None = Some s" by (simp add: go_eval)
  have s': "mem_New (MailboxMsgCap example_disk_config) None = Some s" using s by (simp add: example_disk_config_def)
  have "map_of (Params example_disk_config) ''path'' = Some ''/d''" "fs_mailPath example_disk1 = getMailPath ''/d''"
    by (simp_all add: example_disk_config_def getMailPath_def example_disk1_place(1))
  from file_New_again [OF file_ok_base [OF file_cappedD [OF example_disk1_ok(1)]] this]
  obtain f' where f': "file_New example_disk_config (fs_world example_disk1) (\<lambda>x. ''sha'' @ x) (example_clock ''b'') 0 = Ok f'"
    by blast
  have st: "example_disk1 = fold (exec_op file_ops) [CAdd example_mail] example_disk" by (simp add: example_disk1_def)
  have new: "later_clock (example_clock ''a'') (example_clock ''b'')" by (simp add: later_clock_def example_clock_def)
  have ops: "\<forall>c\<in>set ([CAdd example_mail] @ [CAdd example_mail]). op_ok c" by (simp add: example_mail_def)
  have "listing_of file_ops (fold (exec_op file_ops) [CAdd example_mail] f') ''bob''
      = listing_of mem_ops (fold (exec_op mem_ops) ([CAdd example_mail] @ [CAdd example_mail]) s) ''bob''"
    by (rule file_survives_restart [OF example_env example_disk_New s' ops st example_env f']) (rule new)
  with s f' show ?thesis by blast
qed

end
