(* ===== verification/MailFlow.thy ===== *)
theory MailFlow
  imports SmtpSession Pop3Props FileReach
begin

text \<open>
  Mail on its way through the system: an SMTP session delivers through the manager into a store, and
  a POP3 session reads it from there. Proved once for every store that satisfies \<open>capped_store\<close>;
  the memory store and the file store do.
\<close>

lemma ParseOrigin_address: "ParseOrigin ap a = Ok org \<Longrightarrow> Address (oAddress org) = a"
  by (auto simp: ParseOrigin_def split: if_splits sum.splits)

lemma drop_cr_crlf: "drop_cr (x @ [CR]) = x"
  by (simp add: drop_cr_def)

text \<open>The lines a delivered message begins with.\<close>

definition trace_lines :: "string \<Rightarrow> string \<Rightarrow> string \<Rightarrow> string \<Rightarrow> string \<Rightarrow> string \<Rightarrow> string list" where
  "trace_lines a h host domain mailbox tstamp =
     [''Return-Path: <'' @ a @ ''>'', ''Received: from '' @ h @ '' (['' @ host @ '']) by '' @ domain,
      ''  for <'' @ mailbox @ ''>; '' @ tstamp]"

lemma stored_lines:
  "ReturnPath a @ Received_for (''Received: from '' @ h @ '' (['' @ host @ '']) by '' @ domain @ CRLF) mailbox tstamp @ unlines ls
    = unlines (map (\<lambda>l. l @ [CR]) (trace_lines a h host domain mailbox tstamp) @ ls)"
  by (simp add: ReturnPath_def Received_for_def unlines_def trace_lines_def)

context capped_store
begin

lemma session_stores:
  assumes st: "inv st" "cap \<le> 0" "mgStore (manager sv) = ops" "DecodeHeaders (enmime sv) (unlines ls) = Some header"
    and h: "h \<noteq> []" "set h \<inter> {CHR '' '', CR, LF} = {}"
    and a: "plain_path a" "LF \<notin> set a" "ParseOrigin (addrPolicy sv) a = Ok org" "Origin_ShouldAccept org"
    and b: "LF \<notin> set b" "b \<noteq> []" "hd b \<notin> set ''<> ''" "last b \<notin> set ''<> ''"
      "NewRecipient (addrPolicy sv) b = Ok r" "Recipient_ShouldAccept r" "0 < MaxRecipients (config sv)"
      "Recipient_ShouldStore r"
    and ext: "\<And>ev. Emit (BeforeMailFromAccepted sv) ev = None" "\<And>ev. Emit (BeforeRcptToAccepted sv) ev = None"
      "\<And>ev. Emit (BeforeMessageStored (manager sv)) ev = None"
    and ls: "\<forall>l\<in>set ls. LF \<notin> set l"
    and tr: "clock sv 5 = (now, tstamp)"
  shows "inv (store (startSession sv host (mail_session h a b ls) tls [] st))
    \<and> map sSource (abs (store (startSession sv host (mail_session h a b ls) tls [] st)) (rMailbox r))
      = map sSource (abs st (rMailbox r)) @ [Some (unlines (map (\<lambda>l. l @ [CR])
          (trace_lines a h host (smtp_Domain (config sv)) (rMailbox r) tstamp) @ ls))]"
proof -
  let ?hdr = "''Received: from '' @ h @ '' (['' @ host @ '']) by '' @ smtp_Domain (config sv) @ CRLF"
  obtain err st' evs where d: "Deliver (enmime sv) (manager sv) now tstamp org [r] ?hdr (unlines ls) st = (err, st', evs)"
    by (metis prod_cases3)
  have ds: "destinations (manager sv) (inbound_of (enmime sv) header org [r] (unlines ls)) [r] = [rMailbox r]"
    using ext(3) b(8) by (simp add: destinations_def)
  have "Address (oAddress org) = a" using a(3) by (rule ParseOrigin_address)
  with Deliver_copies [OF st d] ds have del: "err = None" "inv st'"
    "map sSource (abs st' (rMailbox r)) = map sSource (abs st (rMailbox r))
       @ [Some (ReturnPath a @ Received_for ?hdr (rMailbox r) tstamp @ unlines ls)]" by auto
  from smtp_transaction [OF h a b(1-7) ext(1,2) ls tr d [unfolded del(1)]] del(2,3)
  show ?thesis unfolding stored_lines by simp
qed

lemma loaded: "pop_store psv = ops \<Longrightarrow> inv (pop_world q) \<Longrightarrow> messages (loadMailbox psv q) = abs (pop_world q) (pop_user q)"
  using loadMailbox_keeps by blast

text \<open>What a client reads from the last message of a mailbox.\<close>

lemma pop_reads_last:
  assumes "inv (pop_world q)" and "map sSource (abs (pop_world q) (pop_user q)) = old @ [Some (unlines (map (\<lambda>l. l @ [CR]) tr @ ls))]"
    and "\<forall>l\<in>set ls. LF \<notin> set l \<and> length l < MaxScanTokenSize" and "\<forall>l\<in>set tr. LF \<notin> set l \<and> Suc (length l) < MaxScanTokenSize"
    and "pop_store psv = ops" and "pop_writes q = []" and "p = loadMailbox psv q" and "int (length (messages p)) < 2 ^ 31"
  shows "\<exists>data. pop_sent (pop_RETR [Utoa (length (messages p))] p)
      = pop_sent q @ [''+OK '' @ Itoa (sSize (last (messages p))) @ '' bytes follows''] @ data
    \<and> ReadDotBytes (pop_client data @ rest) = (Ok (unlines (tr @ map drop_cr ls)), rest)"
proof -
  let ?src = "unlines (map (\<lambda>l. l @ [CR]) tr @ ls)"
  have ms: "messages p = abs (pop_world q) (pop_user q)"
    using loaded [OF assms(5,1)] by (simp add: assms(7))
  have ne: "messages p \<noteq> []" and "last (map sSource (messages p)) = Some ?src" using assms(2) unfolding ms by auto
  then have src: "sSource (last (messages p)) = Some ?src" by (simp add: last_map)
  let ?i = "length (messages p) - 1"
  have i: "?i < length (messages p)" "Suc ?i = length (messages p)" "messages p ! ?i = last (messages p)"
    using ne by (simp_all add: last_conv_nth)
  have ws: "pop_writes p = []" "pop_sent p = pop_sent q"
    using assms(6) by (simp_all add: assms(7) loadMailbox_def retainAll_def case_prod_beta Let_def)
  have "scan_lines ?src = (map drop_cr (map (\<lambda>l. l @ [CR]) tr @ ls), False)"
    by (rule scan_unlines) (use assms(3,4) in auto)
  also have "map drop_cr (map (\<lambda>l. l @ [CR]) tr @ ls) = tr @ map drop_cr ls"
    by (simp add: drop_cr_crlf comp_def)
  finally have sc: "scan_lines ?src = (tr @ map drop_cr ls, False)" .
  from pop_RETR_data [OF i(1) _ ws(1) _ sc, of rest] src assms(8) i(2,3) ws(2) show ?thesis by simp
qed

end

subsection \<open>An example session\<close>

definition example_smtp :: "'st Store \<Rightarrow> (unit, unit, 'st) Server" where
  [go_eval]: "example_smtp ds = \<lparr>config = SMTP example_root, tlsConfig = True,
     addrPolicy = \<lparr>aConfig = example_root\<rparr>,
     manager = \<lparr>AddrPolicy = \<lparr>aConfig = example_root\<rparr>, mgStore = ds, BeforeMessageStored = empty_broker\<rparr>,
     enmime = example_enmime, BeforeMailFromAccepted = empty_broker, BeforeRcptToAccepted = empty_broker,
     clock = (\<lambda>n. (5, ''t''))\<rparr>"

definition example_pop3 :: "'st Store \<Rightarrow> 'st PopServer" where
  [go_eval]: "example_pop3 ds = \<lparr>pop_config = \<lparr>pop3_Addr = [], pop3_Domain = ''h'', pop3_Timeout = 0, pop3_Debug = False,
       pop3_TLSEnabled = False, pop3_TLSPrivKey = [], pop3_TLSCert = [], pop3_ForceTLS = False\<rparr>,
     pop_tlsConfig = False, pop_store = ds\<rparr>"

definition example_lines :: "string list" where
  [go_eval]: "example_lines = [''S: v'', [], ''.z'']"

definition example_sender :: Origin where
  [go_eval]: "example_sender = \<lparr>oAddress = mail_address ''s@x.y'', oPolicy = \<lparr>aConfig = example_root\<rparr>, oLocalPart = ''s'', oDomain = ''x.y''\<rparr>"

definition example_receiver :: Recipient where
  [go_eval]: "example_receiver = \<lparr>rAddress = mail_address ''joe@d.e'', rPolicy = \<lparr>aConfig = example_root\<rparr>, rLocalPart = ''joe'',
     rDomain = ''d.e'', rMailbox = ''joe''\<rparr>"

definition example_after :: "'st Store \<Rightarrow> 'st \<Rightarrow> 'st" where
  "example_after ds st = store (startSession (example_smtp ds) ''9.9.9.9'' (mail_session ''c'' ''s@x.y'' ''joe@d.e'' example_lines) [] [] st)"

text \<open>What the session theorems need to know of the example.\<close>

lemma example_session:
  shows "mgStore (manager (example_smtp ds)) = ds" "DecodeHeaders (enmime (example_smtp ds)) (unlines example_lines) = Some ()"
    and "''c'' \<noteq> []" "set ''c'' \<inter> {CHR '' '', CR, LF} = {}"
    and "plain_path ''s@x.y''" "LF \<notin> set ''s@x.y''" "ParseOrigin (addrPolicy (example_smtp ds)) ''s@x.y'' = Ok example_sender"
      "Origin_ShouldAccept example_sender"
    and "LF \<notin> set ''joe@d.e''" "''joe@d.e'' \<noteq> []" "hd ''joe@d.e'' \<notin> set ''<> ''" "last ''joe@d.e'' \<notin> set ''<> ''"
      "NewRecipient (addrPolicy (example_smtp ds)) ''joe@d.e'' = Ok example_receiver" "Recipient_ShouldAccept example_receiver"
      "0 < MaxRecipients (config (example_smtp ds))" "Recipient_ShouldStore example_receiver"
    and "Emit (BeforeMailFromAccepted (example_smtp ds)) ev = None" "Emit (BeforeRcptToAccepted (example_smtp ds)) ev = None"
      "Emit (BeforeMessageStored (manager (example_smtp ds))) ev' = None"
  by (simp_all add: example_smtp_def example_lines_def example_enmime_def empty_broker_def Emit_def)
     (simp_all add: go_eval)

lemma example_wire:
  "\<forall>l\<in>set example_lines. LF \<notin> set l" "\<forall>l\<in>set example_lines. LF \<notin> set l \<and> length l < MaxScanTokenSize"
  "clock (example_smtp ds) 5 = (5, ''t'')" "smtp_Domain (config (example_smtp ds)) = ''h''" "rMailbox example_receiver = ''joe''"
  "\<forall>l\<in>set (trace_lines ''s@x.y'' ''c'' ''9.9.9.9'' (smtp_Domain (config (example_smtp ds))) (rMailbox example_receiver) ''t'').
     LF \<notin> set l \<and> Suc (length l) < MaxScanTokenSize"
  by (simp_all add: example_lines_def example_smtp_def example_root_def example_receiver_def trace_lines_def MaxScanTokenSize_def)

context capped_store
begin

text \<open>The example mailbox holds one message when it was empty.\<close>

lemma example_one:
  assumes "inv st" and "cap \<le> 0" and "abs st ''joe'' = []"
  shows "inv (example_after ops st)" and "length (abs (example_after ops st) ''joe'') = 1"
  using session_stores [OF assms(1,2) example_session(1-19) example_wire(1,3), of "''9.9.9.9''" "[]"] assms(3)
  by (auto simp: example_after_def example_wire simp flip: length_map [of sSource])

end

end
