(* ===== verification/FileFaults.thy ===== *)
theory FileFaults
  imports FileReach
begin

text \<open>
  What goes wrong on the disk: an index write that fails, and ids that are made again after a
  restart within the same second.
\<close>

subsection \<open>A failing write\<close>

definition with_faults :: "outcome list \<Rightarrow> fstore \<Rightarrow> fstore" where
  [go_eval]: "with_faults fs st = st\<lparr>fs_world := (fs_world st)\<lparr>faults := fs\<rparr>\<rparr>"

lemma with_faults_config: "same_config st (with_faults fs st)"
  by (simp add: with_faults_def same_config_def)

lemma with_faults_simps [simp]:
  "fs_mbox (with_faults fs st) = fs_mbox st" "ipath (with_faults fs st) = ipath st" "rawp (with_faults fs st) = rawp st"
  "mdir (with_faults fs st) = mdir st" "gen_id (with_faults fs st) = gen_id st" "fs_clock (with_faults fs st) = fs_clock st"
  "messageCap (with_faults fs st) = messageCap st" "fs_count (with_faults fs st) = fs_count st"
  "fs_world (with_faults fs st) = (fs_world st)\<lparr>faults := fs\<rparr>"
  "(with_faults fs st)\<lparr>fs_count := k\<rparr> = with_faults fs (st\<lparr>fs_count := k\<rparr>)"
  using same_config_eqs [OF with_faults_config [of st fs]] by (simp_all add: with_faults_def)

text \<open>The calls, when the next outcome is good.\<close>

lemma next_good [simp]:
  "on_world (os_Stat p) (with_faults (Good # fs) st) = (path_exists (fs_world st) p, with_faults fs st)"
  "on_world (os_ReadFile p) (with_faults (Good # fs) st) = (filemap st p, with_faults fs st)"
  "butlast p \<in> set (fdirs (fs_world st)) \<Longrightarrow> p \<notin> set (fdirs (fs_world st)) \<Longrightarrow>
    on_world (os_Create p) (with_faults (Good # fs) st) = (True, with_faults fs (put st p (Raw [])))"
  "on_world (os_WriteRaw p src) (with_faults (Good # fs) st) = (True, with_faults fs (put st p (Raw src)))"
  by (simp_all add: on_world_def with_faults_def put_def next_outcome_def os_Stat_def os_ReadFile_def os_Create_def
      os_WriteRaw_def path_exists_def)

lemma next_end [simp]:
  "on_world (os_WriteGob p gs) (with_faults [Fail n torn] st) = (False, with_faults [] (put st p (Gob (take n gs) (torn \<and> n < length gs))))"
  "filemap st p \<noteq> None \<Longrightarrow> on_world (os_Remove p) (with_faults [] st) = (True, with_faults [] (cut st p))"
  "on_world (os_Stat p) (with_faults [] st) = (path_exists (fs_world st) p, with_faults [] st)"
  "on_world (os_ReadFile p) (with_faults [] st) = (filemap st p, with_faults [] st)"
  using ffiles_key [of p "fs_world st"]
  by (simp_all add: on_world_def with_faults_def put_def cut_def next_outcome_def os_Stat_def os_ReadFile_def os_Remove_def
      os_WriteGob_def path_exists_def)

lemma decode_take:
  "decode_msgs (take n (map GobMsg ms)) torn = (\<not> torn, take n ms)"
  by (simp add: take_map)

lemma truncated_listing:
  assumes "faults (fs_world s) = []" and "filemap s (ipath s mb) = Some (Gob (take n (GobString mb # map GobMsg (ms @ [x]))) torn)"
    and "n \<le> Suc (length ms)"
  shows "file_GetMessages s mb = (if n = 0 \<or> torn then Err CorruptMailbox
    else Ok (map (f_to_message s (fs_mbox s mb)) (take (n - 1) ms)), s)"
proof -
  have ex: "path_exists (fs_world s) (ipath s mb)"
    using assms(2) ffiles_key [of "ipath s mb" "fs_world s"] by (simp add: path_exists_def)
  note step = file_GetMessages_def getMessages_def load_def readIndex_def on_world_def os_Stat_ok os_ReadFile_ok
  show ?thesis
  proof (cases n)
    case 0
    with assms ex show ?thesis by (simp add: step)
  next
    case (Suc k)
    then have k: "take n (GobString mb # map GobMsg (ms @ [x])) = GobString mb # map GobMsg (take k ms)"
      using assms(3) by (simp add: take_map)
    have f: "f_to_message s ((fs_mbox s mb)\<lparr>fb_name := mb, fb_messages := m, fb_indexLoaded := y\<rparr>) = f_to_message s (fs_mbox s mb)" for m y
      by (rule ext) (simp add: f_to_message_def rawPath_def)
    show ?thesis using assms(1,2) ex Suc unfolding k by (simp add: step f)
  qed
qed

text \<open>An add whose write of the index fails, at the eighth call to the operating system.\<close>

lemma failed_index_add:
  assumes ok: "file_ok st" and ms: "index_msgs st (sMailbox m) \<noteq> []" and cap: "messageCap st \<le> 0" and src: "sSource m = Some src"
  obtains s fm where "file_AddMessage (with_faults (replicate 7 Good @ [Fail n torn]) st) m = (Err OsError, s)"
    "faults (fs_world s) = []" "same_config st s"
    "filemap s = (filemap st)(ipath st (sMailbox m) \<mapsto> Gob (take n (GobString (sMailbox m) # map GobMsg (index_msgs st (sMailbox m) @ [fm])))
        (torn \<and> n < Suc (Suc (length (index_msgs st (sMailbox m))))), rawp st (sMailbox m) (gen_id st (fs_count st)) := None)"
proof -
  let ?mb = "sMailbox m" and ?i = "gen_id st (fs_count st)"
  let ?ms = "index_msgs st ?mb" and ?d = "mdir st ?mb"
  note b = file_ok_base [OF ok]
  have h: "holds st ?mb ?ms" by (rule holds_index_msgs [OF ok])
  then have f: "filemap st (ipath st ?mb) = Some (Gob (GobString ?mb # map GobMsg ?ms) False)"
    using ms by (simp add: holds_def index_file_def)
  then have d: "?d \<in> set (fdirs (fs_world st))"
    using tree_ok_parent [OF base_okD(2) [OF b], of "ipath st ?mb"] by (simp add: ipath_def)
  have nd: "p \<notin> set (fdirs (fs_world st))" if "length p = 5" for p using file_not_dir [OF b that] .
  have ex: "path_exists (fs_world st) (ipath st ?mb)" "path_exists (fs_world st) ?d"
    using f d ffiles_key [of "ipath st ?mb" "fs_world st"] by (simp_all add: path_exists_def)
  have ld: "load (fs_mbox st ?mb) (with_faults (replicate 7 Good @ [Fail n torn]) st)
      = (None, fbox st ?mb ?ms, with_faults (replicate 5 Good @ [Fail n torn]) st)"
    using f ex by (simp add: load_def readIndex_def fbox_def numeral_eq_Suc)
  have rep: "replicate 7 Good @ x = Good # Good # Good # Good # Good # Good # Good # x"
    "replicate 5 Good @ x = Good # Good # Good # Good # Good # x" for x
    by (simp_all add: numeral_eq_Suc)
  let ?fm = "\<lparr>Fid = ?i, Fdate = fst (fs_clock st (fs_count st)), Ffrom = None, Fto = [], Fsubject = [], Fsize = 0, Fseen = False\<rparr>"
  let ?st1 = "st\<lparr>fs_count := Suc (fs_count st)\<rparr>"
  have nw: "newMessage (fs_mbox st ?mb) (with_faults (replicate 7 Good @ [Fail n torn]) st)
      = (Ok ?fm, fbox st ?mb ?ms, with_faults (replicate 5 Good @ [Fail n torn]) ?st1)"
    using cap by (simp add: newMessage_def ld generateID_gen)
  let ?raw = "rawp st ?mb ?i"
  let ?st3 = "put (put ?st1 ?raw (Raw [])) ?raw (Raw src)"
  let ?fm' = "?fm\<lparr>Fdate := sDate m, Ffrom := sFrom m, Fto := sTo m, Fsize := int (length src), Fsubject := sSubject m\<rparr>"
  let ?gs = "GobString ?mb # map GobMsg (?ms @ [?fm'])"
  let ?st5 = "put (put ?st3 (ipath st ?mb) (Raw [])) (ipath st ?mb) (Gob (take n ?gs) (torn \<and> n < length ?gs))"
  have cd: "createDir (fbox st ?mb xs) (with_faults (Good # fs) s) = (True, with_faults fs s)"
    if "fdirs (fs_world s) = fdirs (fs_world st)" for xs fs s
    using d that by (simp add: createDir_def path_exists_def)
  have dirs: "length p = 5 \<Longrightarrow> p \<notin> set (fdirs (fs_world st))" "butlast ?raw = ?d" "butlast (ipath st ?mb) = ?d"
    "length ?raw = 5" "length (ipath st ?mb) = 5" for p
    using nd by (simp_all add: rawp_def ipath_def)
  have wi: "writeIndex (fbox st ?mb (?ms @ [?fm'])) (with_faults [Good, Good, Fail n torn] ?st3) = (False, with_faults [] ?st5)"
    using d by (simp add: writeIndex_def cd dirs)
  let ?st' = "with_faults [] (cut ?st5 ?raw)"
  have add: "file_AddMessage (with_faults (replicate 7 Good @ [Fail n torn]) st) m = (Err OsError, ?st')"
    unfolding file_AddMessage_def Let_def src using d wi by (simp add: nw [unfolded rep] rep cd dirs)
  show ?thesis
  proof (rule that [OF add])
    show "same_config st ?st'" by (simp add: put_def cut_def with_faults_def same_config_def)
  qed (simp_all add: fun_eq_iff)
qed

text \<open>
  C39: a write of the index that fails (the eighth call to the operating system of an add to a mailbox that
  has messages) is reported, but the index was emptied before: it is left with the first \<open>n\<close> values,
  so the mailbox is unreadable, or has silently lost the messages behind them.
\<close>
theorem file_failed_index_write:
  assumes ok: "file_ok st" and ms: "file_abs st (sMailbox m) \<noteq> []" and cap: "messageCap st \<le> 0" and src: "sSource m = Some src"
    and n: "n \<le> Suc (length (file_abs st (sMailbox m)))"
  shows "\<exists>st'. file_AddMessage (with_faults (replicate 7 Good @ [Fail n torn]) st) m = (Err OsError, st')
    \<and> fst (file_GetMessages st' (sMailbox m))
      = (if n = 0 \<or> torn then Err CorruptMailbox else Ok (take (n - 1) (file_abs st (sMailbox m))))"
proof -
  let ?mb = "sMailbox m" and ?i = "gen_id st (fs_count st)" and ?ms = "index_msgs st (sMailbox m)"
  have ne: "?ms \<noteq> []" and n': "n \<le> Suc (length ?ms)" using ms n by (simp_all add: file_abs_map)
  obtain s fm where s: "file_AddMessage (with_faults (replicate 7 Good @ [Fail n torn]) st) m = (Err OsError, s)"
    "faults (fs_world s) = []" "same_config st s"
    "filemap s = (filemap st)(ipath st ?mb \<mapsto> Gob (take n (GobString ?mb # map GobMsg (?ms @ [fm]))) (torn \<and> n < Suc (Suc (length ?ms))),
        rawp st ?mb ?i := None)"
    using failed_index_add [OF ok ne cap src] .
  note e = same_config_eqs [OF s(3)]
  have "filemap s (ipath s ?mb) = Some (Gob (take n (GobString ?mb # map GobMsg (?ms @ [fm]))) torn)"
    using n' by (simp add: s(4) e)
  note t = truncated_listing [OF s(2) this n', unfolded e]
  have "f_to_message s (fs_mbox st ?mb) x = f_to_message st (fs_mbox st ?mb) x" if "x \<in> set ?ms" for x
  proof -
    have "Fid x \<noteq> ?i" using holds_index_msgs [OF ok, of ?mb] that by (auto simp: holds_def)
    then show ?thesis by (simp add: f_to_message_def raw_source_def s(4))
  qed
  then have "map (f_to_message s (fs_mbox st ?mb)) (take (n - 1) ?ms) = take (n - 1) (file_abs st ?mb)"
    by (auto simp: file_abs_map take_map dest: in_set_takeD)
  with s(1) t show ?thesis by auto
qed

subsection \<open>Restarting within the same second\<close>

text \<open>
  C40: when the first id after a restart is one on disk (a restart within the second of the first
  message), the next message to that mailbox takes the id, and overwrites the raw file, of the
  message that has it: both messages are listed, and both have the new contents.
\<close>
theorem file_restart_overwrites:
  assumes ok: "file_ok st" and new: "file_New cfg (fs_world st) (fs_sha1 st) clk 0 = Ok f" and env: "env_ok (fs_sha1 st) clk"
    and path: "map_of (Params cfg) ''path'' = Some p" "fs_mailPath st = getMailPath p"
    and clash: "m0 \<in> set (file_abs st (sMailbox m))" "sID m0 = new_id clk 0"
    and cap: "MailboxMsgCap cfg \<le> 0" and src: "sSource m = Some src"
  shows "\<exists>f'. file_AddMessage f m = (Ok (sID m0), f')
    \<and> map sID (file_abs f' (sMailbox m)) = map sID (file_abs st (sMailbox m)) @ [sID m0]
    \<and> (\<forall>x\<in>set (file_abs f' (sMailbox m)). sID x = sID m0 \<longrightarrow> sSource x = Some src)"
proof -
  let ?mb = "sMailbox m" and ?i = "new_id clk 0" and ?ms = "index_msgs st (sMailbox m)"
  note r = reopen_base [OF file_ok_base [OF ok] new env path] and c = file_New_config [OF new]
  note e = same_place [OF r(2-4)]
  have h: "filemap f (ipath f ?mb) = index_file ?mb ?ms"
    using holds_index_msgs [OF ok, of ?mb] by (simp add: holds_def e r)
  let ?f1 = "f\<lparr>fs_count := 1\<rparr>"
  have c1: "same_config f ?f1" by (simp add: same_config_def)
  have b1: "base_ok ?f1" using base_ok_count [of f 1] r(1) c by simp
  let ?fm = "\<lparr>Fid = ?i, Fdate = fst (clk 0), Ffrom = None, Fto = [], Fsubject = [], Fsize = 0, Fseen = False\<rparr>"
  have nw: "newMessage (fs_mbox f ?mb) f = (Ok ?fm, fbox f ?mb ?ms, ?f1)"
    using cap c by (simp add: newMessage_def load_index [OF r(1) h] generateID_gen r(5))
  obtain f2 where f2: "createDir (fbox f ?mb ?ms) ?f1 = (True, f2)" "base_ok f2" "quiet ?f1 f2" "mdir f ?mb \<in> set (fdirs (fs_world f2))"
    using createDir_ok [OF b1, of ?mb ?ms] unfolding same_config_eqs [OF c1] by blast
  have c2: "same_config f f2" using f2(3) c1 same_config_trans by (auto simp: quiet_def)
  note e2 = same_config_eqs [OF c2]
  let ?raw = "rawp f ?mb ?i"
  let ?f3 = "put f2 ?raw (Raw [])"
  let ?f4 = "put ?f3 ?raw (Raw src)"
  have cr: "on_world (os_Create ?raw) f2 = (True, ?f3)" using Create_ok [OF f2(2), of ?mb] f2(4) by (simp add: rawp_def e2)
  have b3: "base_ok ?f3" using base_ok_put [OF f2(2), of ?mb] f2(4) by (simp add: rawp_def e2)
  have b4: "base_ok ?f4" using base_ok_put [OF b3, of ?mb "?i @ ''.raw''"] f2(4) by (simp add: rawp_def e2)
  have "quiet f2 ?f4" by (rule quiet_trans [of _ ?f3]) simp_all
  then have c4: "same_config f ?f4" using c2 same_config_trans by (auto simp: quiet_def)
  note e4 = same_config_eqs [OF c4]
  let ?fm' = "?fm\<lparr>Fdate := sDate m, Ffrom := sFrom m, Fto := sTo m, Fsize := int (length src), Fsubject := sSubject m\<rparr>"
  obtain f5 where f5: "writeIndex (fbox f ?mb (?ms @ [?fm'])) ?f4 = (True, f5)" "quiet ?f4 f5"
    "filemap f5 = (filemap ?f4)(ipath f ?mb \<mapsto> Gob (GobString ?mb # map GobMsg (?ms @ [?fm'])) False)"
    using writeIndex_ok [OF b4, of ?mb "?ms @ [?fm']"] unfolding e4 by auto
  have c5: "same_config f f5" using f5(2) c4 same_config_trans by (auto simp: quiet_def)
  note e5 = same_config_eqs [OF c5]
  have add: "file_AddMessage f m = (Ok ?i, f5)"
    using nw f2(1) cr WriteRaw_ok [OF b3, of ?raw src] f5(1) by (simp add: file_AddMessage_def src)
  have abs: "file_abs f5 ?mb = map (f_to_message f5 (fs_mbox f ?mb)) (?ms @ [?fm'])"
    unfolding file_abs_map e5 by (subst index_msgs_file [of f5 ?mb ?mb "?ms @ [?fm']" False]) (simp_all only: e5 f5(3) fun_upd_same)
  have "raw_source f5 ?raw = Some src" by (simp add: raw_source_def f5(3))
  with abs clash(2) have "\<forall>x\<in>set (file_abs f5 ?mb). sID x = sID m0 \<longrightarrow> sSource x = Some src"
    by (auto simp: f_to_message_def)
  moreover have "map sID (file_abs f5 ?mb) = map sID (file_abs st ?mb) @ [sID m0]"
    unfolding abs clash(2) by (simp add: file_abs_map)
  ultimately show ?thesis using add clash(2) by auto
qed

subsection \<open>Examples\<close>

lemma example_disk1_full: "index_msgs example_disk1 ''bob'' \<noteq> []" "length (file_abs example_disk1 ''bob'') = 1"
  using example_disk1_ok(2) by (auto simp: file_abs_map)

theorem file_failed_index_write_witness:
  "\<exists>st'. file_AddMessage (with_faults (replicate 7 Good @ [Fail 1 False]) example_disk1) example_mail = (Err OsError, st')
    \<and> fst (file_GetMessages st' ''bob'') = Ok []"
proof -
  have c: "messageCap example_disk1 \<le> 0" by (simp add: example_disk1_place)
  have m: "sMailbox example_mail = ''bob''" "sSource example_mail = Some ''text''" by (simp_all add: example_mail_def)
  show ?thesis
    using file_failed_index_write [OF file_cappedD [OF example_disk1_ok(1)] _ c m(2), of 1 False] example_disk1_full
    unfolding m(1) by (auto simp: file_abs_map)
qed

theorem file_restart_overwrites_witness:
  "\<exists>f f'. file_New example_disk_config (fs_world example_disk1) (\<lambda>x. ''sha'' @ x) (example_clock ''a'') 0 = Ok f
    \<and> file_AddMessage f (example_mail\<lparr>sSource := Some ''new''\<rparr>) = (Ok ''a0-0000'', f')
    \<and> map sID (file_abs f' ''bob'') = [''a0-0000'', ''a0-0000'']"
proof -
  have p: "map_of (Params example_disk_config) ''path'' = Some ''/d''" "fs_mailPath example_disk1 = getMailPath ''/d''"
    by (simp_all add: example_disk_config_def getMailPath_def example_disk1_place)
  note sha = example_disk1_place(2)
  note ok = file_cappedD [OF example_disk1_ok(1)]
  obtain f where f: "file_New example_disk_config (fs_world example_disk1) (\<lambda>x. ''sha'' @ x) (example_clock ''a'') 0 = Ok f"
    using file_New_again [OF file_ok_base [OF ok] p] by fastforce
  obtain m0 where m0: "m0 \<in> set (file_abs example_disk1 ''bob'')" "sID m0 = new_id (example_clock ''a'') 0"
    using example_disk1_ok(2) by (auto simp: map_eq_Cons_conv)
  have "replicate 3 CHR ''0'' = ''000''" by (simp add: numeral_eq_Suc)
  then have i: "new_id (example_clock ''a'') 0 = ''a0-0000''" by (simp add: go_eval)
  let ?m = "example_mail\<lparr>sSource := Some ''new''\<rparr>"
  have m: "sMailbox ?m = ''bob''" "sSource ?m = Some ''new''" by (simp_all add: example_mail_def)
  have f0: "file_New example_disk_config (fs_world example_disk1) (fs_sha1 example_disk1) (example_clock ''a'') 0 = Ok f"
    using f by (simp add: sha)
  have e: "env_ok (fs_sha1 example_disk1) (example_clock ''a'')" unfolding sha by (rule example_env)
  have cap: "MailboxMsgCap example_disk_config \<le> 0" by (simp add: example_disk_config_def)
  from file_restart_overwrites [OF ok f0 e p _ m0(2) cap m(2)] m0 f show ?thesis
    unfolding m(1) i example_disk1_ok(2) by auto
qed

end
