(* ===== verification/Web.thy ===== *)
theory Web
  imports Manager
begin

text \<open>
  What the HTTP controllers share: \<open>pkg/server/web\<close> (\<open>Context\<close>, \<open>Handler.ServeHTTP\<close>, \<open>RenderJSON\<close>),
  the accessors of \<open>pkg/message/message.go\<close>, and the JSON structs. A handler takes the request's
  variables and body to its outcome and the new state of the store; the outcome is the reply (a
  JSON document is the value that is encoded), a 404, an error that \<open>ServeHTTP\<close> turns into a 500, or
  a panic. Gorilla's router and \<open>enmime\<close> are third-party: the variables are given, and an envelope
  is read through the record \<open>Envelope\<close> of accessors.
\<close>

subsection \<open>Messages\<close>

record Part =
  ContentType :: string
  FileName :: string
  Content :: string

record MIMEError =
  meName :: string
  meDetail :: string
  meSevere :: bool

record 'env Envelope =
  Inlines :: "'env \<Rightarrow> Part list"
  envAttachments :: "'env \<Rightarrow> Part list"
  RootHeader :: "'env \<Rightarrow> (string \<times> string list) list"
  envHTML :: "'env \<Rightarrow> string"
  envText :: "'env \<Rightarrow> string"
  envErrors :: "'env \<Rightarrow> MIMEError list"

definition Attachments :: "'env Envelope \<Rightarrow> 'env \<Rightarrow> Part list" where
  [go_eval]: "Attachments ev env = Inlines ev env @ envAttachments ev env"

subsection \<open>Replies\<close>

record JSONMessageHeaderV1 =
  jMailbox :: string
  jID :: string
  jFrom :: string
  jTo :: "string list"
  jSubject :: string
  jDate :: int
  jPosixMillis :: int
  jSize :: int
  jSeen :: bool

record JSONMessageAttachmentV1 =
  jaFileName :: string
  jaContentType :: string
  jaDownloadLink :: string
  jaViewLink :: string
  jaMD5 :: string

record JSONMessageV1 = JSONMessageHeaderV1 +
  jText :: string
  jHTML :: string
  jHeader :: "(string \<times> string list) list"
  jAttachments :: "JSONMessageAttachmentV1 list"

record jsonAttachment =
  uaID :: string
  uaFileName :: string
  uaContentType :: string

record jsonMessage = JSONMessageHeaderV1 +
  uHeader :: "(string \<times> string list) list"
  uText :: string
  uHTML :: string
  uAttachments :: "jsonAttachment list"
  uErrors :: "MIMEError list"

record jsonSMTPConfig =
  jcAddr :: string
  jcDefaultAccept :: bool
  jcAcceptDomains :: "string list"
  jcRejectDomains :: "string list"
  jcDefaultStore :: bool
  jcStoreDomains :: "string list"
  jcDiscardDomains :: "string list"
  jcRejectOriginDomains :: "string list"

record jsonStorageConfig =
  jcMailboxMsgCap :: int
  jcStoreType :: string
  jcRetentionPeriod :: string

record jsonServerConfig =
  jcVersion :: string
  jcBuildDate :: string
  jcPOP3Listener :: string
  jcWebListener :: string
  jcSMTPConfig :: jsonSMTPConfig
  jcStorageConfig :: jsonStorageConfig

datatype json =
    JHeaders "JSONMessageHeaderV1 list"
  | JMessage JSONMessageV1
  | JUIMessage jsonMessage
  | JStatus jsonServerConfig
  | JOK

datatype web_error =
    BadAddress addr_error
  | ManagerFailed deliver_error
  | BadJSON
  | BadNumber
  | NoAttachment
  | UpgradeFailed
  | GreetingFailed

datatype content = JSON json | Data string string

datatype http_reply = Reply content | NotFound | Failed web_error | Panicked

text \<open>\<open>ServeHTTP\<close>: the status of the response. A panic aborts the request in \<open>net/http\<close>.\<close>

definition ServeHTTP :: "http_reply \<Rightarrow> int option" where
  [go_eval]: "ServeHTTP r = (case r of Reply b \<Rightarrow> Some 200 | NotFound \<Rightarrow> Some 404 | Failed e \<Rightarrow> Some 500 | Panicked \<Rightarrow> None)"

definition RenderJSON :: "json \<Rightarrow> http_reply" where
  [go_eval]: "RenderJSON j = Reply (JSON j)"

record ('hdr, 'env, 'st) Context =
  Vars :: "string \<Rightarrow> string"
  ctxManager :: "'st StoreManager"
  mime :: "('hdr, 'env) Enmime"
  envelope :: "'env Envelope"

text \<open>Integer division of Go, which rounds towards zero.\<close>

definition go_div :: "int \<Rightarrow> int \<Rightarrow> int" where
  [go_eval]: "go_div a b = sgn a * sgn b * (\<bar>a\<bar> div \<bar>b\<bar>)"

definition header_of :: "string \<Rightarrow> MessageMetadata \<Rightarrow> JSONMessageHeaderV1" where
  [go_eval]: "header_of name msg =
     \<lparr>jMailbox = name, jID = mdID msg, jFrom = StringAddress (mdFrom msg), jTo = StringAddressList (map Some (mdTo msg)),
      jSubject = mdSubject msg, jDate = mdDate msg, jPosixMillis = go_div (mdDate msg) 1000000, jSize = mdSize msg,
      jSeen = mdSeen msg\<rparr>"

text \<open>How every handler of a mailbox begins.\<close>

definition at_mailbox :: "('hdr, 'env, 'st) Context \<Rightarrow> (string \<Rightarrow> 'st \<Rightarrow> http_reply \<times> 'st) \<Rightarrow> 'st \<Rightarrow> http_reply \<times> 'st" where
  [go_eval]: "at_mailbox ctx f st =
     (case MailboxForAddress (ctxManager ctx) (Vars ctx ''name'') of
        Inl e \<Rightarrow> (Failed (BadAddress e), st)
      | Inr name \<Rightarrow> f name st)"

end
