(* ===== verification/Rest.thy ===== *)
theory Rest
  imports Web
begin

text \<open>
  \<open>pkg/rest/apiv1_controller.go\<close>: the REST API over the store manager. \<open>md5\<close> is the digest function of
  \<open>crypto/md5\<close>, \<open>host\<close> the host of the request, and the body of a PATCH is what the JSON decoder makes
  of it: the field \<open>seen\<close>, or an error.
\<close>

definition MailboxListV1 :: "('hdr, 'env, 'st) Context \<Rightarrow> 'st \<Rightarrow> http_reply \<times> 'st" where
  [go_eval]: "MailboxListV1 ctx = at_mailbox ctx (\<lambda>name st.
     case GetMetadata (ctxManager ctx) name st of
       (Inl e, st) \<Rightarrow> (Failed (ManagerFailed (StoreFailed e)), st)
     | (Inr messages, st) \<Rightarrow> (RenderJSON (JHeaders (map (header_of name) messages)), st))"

text \<open>The attachments of a message, with their links.\<close>

fun attachment_links :: "(string \<Rightarrow> string) \<Rightarrow> string \<Rightarrow> string \<Rightarrow> string \<Rightarrow> nat \<Rightarrow> Part list \<Rightarrow> JSONMessageAttachmentV1 list" where
  "attachment_links md5 host name i k [] = []"
| "attachment_links md5 host name i k (part # parts) =
     (let link = ''http://'' @ host @ ''/serve/mailbox/'' @ name @ ''/'' @ i @ ''/attach/'' @ Utoa k @ ''/'' @ FileName part
      in \<lparr>jaFileName = FileName part, jaContentType = ContentType part, jaDownloadLink = link, jaViewLink = link,
          jaMD5 = EncodeToString (md5 (Content part))\<rparr> # attachment_links md5 host name i (Suc k) parts)"

definition MailboxShowV1 :: "(string \<Rightarrow> string) \<Rightarrow> string \<Rightarrow> ('hdr, 'env, 'st) Context \<Rightarrow> 'st \<Rightarrow> http_reply \<times> 'st" where
  [go_eval]: "MailboxShowV1 md5 host ctx = at_mailbox ctx (\<lambda>name st.
     let i = Vars ctx ''id'' in
     case mg_GetMessage (mime ctx) (ctxManager ctx) name i st of
       (Inl e, st) \<Rightarrow> (if e \<noteq> StoreFailed ErrNotExist then Failed (ManagerFailed e) else NotFound, st)
     | (Inr None, st) \<Rightarrow> (NotFound, st)
     | (Inr (Some (msg, env)), st) \<Rightarrow>
         (RenderJSON (JMessage (JSONMessageHeaderV1.extend (header_of name msg)
            (JSONMessageV1.fields (envText (envelope ctx) env) (envHTML (envelope ctx) env) (RootHeader (envelope ctx) env)
              (attachment_links md5 host name i 0 (Attachments (envelope ctx) env))))), st))"

definition MailboxMarkSeenV1 :: "bool option \<Rightarrow> ('hdr, 'env, 'st) Context \<Rightarrow> 'st \<Rightarrow> http_reply \<times> 'st" where
  [go_eval]: "MailboxMarkSeenV1 req_body ctx = at_mailbox ctx (\<lambda>name st.
     case req_body of
       None \<Rightarrow> (Failed BadJSON, st)
     | Some seen \<Rightarrow>
         if seen then
           (case mg_MarkSeen (ctxManager ctx) name (Vars ctx ''id'') st of
              (Some e, st) \<Rightarrow> (if e = ErrNotExist then NotFound else Failed (ManagerFailed (StoreFailed e)), st)
            | (None, st) \<Rightarrow> (RenderJSON JOK, st))
         else (RenderJSON JOK, st))"

definition MailboxPurgeV1 :: "('hdr, 'env, 'st) Context \<Rightarrow> 'st \<Rightarrow> http_reply \<times> 'st" where
  [go_eval]: "MailboxPurgeV1 ctx = at_mailbox ctx (\<lambda>name st.
     case mg_PurgeMessages (ctxManager ctx) name st of
       (Some e, st) \<Rightarrow> (Failed (ManagerFailed (StoreFailed e)), st)
     | (None, st) \<Rightarrow> (RenderJSON JOK, st))"

definition MailboxSourceV1 :: "('hdr, 'env, 'st) Context \<Rightarrow> 'st \<Rightarrow> http_reply \<times> 'st" where
  [go_eval]: "MailboxSourceV1 ctx = at_mailbox ctx (\<lambda>name st.
     case SourceReader (ctxManager ctx) name (Vars ctx ''id'') st of
       (Inl e, st) \<Rightarrow> (if e \<noteq> ErrNotExist then Failed (ManagerFailed (StoreFailed e)) else NotFound, st)
     | (Inr None, st) \<Rightarrow> (NotFound, st)
     | (Inr (Some r), st) \<Rightarrow> (Reply (Data ''text/plain'' r), st))"

definition MailboxDeleteV1 :: "('hdr, 'env, 'st) Context \<Rightarrow> 'st \<Rightarrow> http_reply \<times> 'st" where
  [go_eval]: "MailboxDeleteV1 ctx = at_mailbox ctx (\<lambda>name st.
     case mg_RemoveMessage (ctxManager ctx) name (Vars ctx ''id'') st of
       (Some e, st) \<Rightarrow> (if e = ErrNotExist then NotFound else Failed (ManagerFailed (StoreFailed e)), st)
     | (None, st) \<Rightarrow> (RenderJSON JOK, st))"

end
