(* ===== verification/Sanitize.thy ===== *)
theory Sanitize
  imports GoStrings
begin

text \<open>
  \<open>pkg/webui/sanitize\<close>: the filter of inline styles (\<open>css.go\<close>) and of the tags that carry them
  (\<open>html.go\<close>). The CSS scanner, the HTML tokenizer with its escaping, and the \<open>bluemonday\<close> policy are
  third-party: the record \<open>Sanitizers\<close>, with the tokens they yield as lists. The specification reads a
  style as declarations, each the tokens up to a semicolon, and keeps those whose first token names
  an allowed property.
\<close>

datatype css_type = TokenEOF | TokenError | TokenIdent | TokenS | TokenChar | TokenOther

text \<open>A token: its type, the name of the type (\<open>Type.String()\<close>), and its text.\<close>

record css_token =
  tType :: css_type
  tName :: string
  tValue :: string

definition allowedProperties :: "string list" where
  [go_eval]: "allowedProperties =
     [''align'', ''background-color'', ''border'', ''border-bottom'', ''border-left'', ''border-radius'', ''border-right'',
      ''border-top'', ''box-sizing'', ''clear'', ''color'', ''content'', ''display'', ''font-family'', ''font-size'',
      ''font-weight'', ''height'', ''line-height'', ''margin'', ''margin-bottom'', ''margin-left'', ''margin-right'',
      ''margin-top'', ''max-height'', ''max-width'', ''overflow'', ''padding'', ''padding-bottom'', ''padding-left'',
      ''padding-right'', ''padding-top'', ''table-layout'', ''text-align'', ''text-decoration'', ''text-shadow'',
      ''vertical-align'', ''width'', ''word-break'']"

datatype css_state = StateStart | StateEat | StateValid

definition is_semi :: "css_token \<Rightarrow> bool" where
  [go_eval]: "is_semi t \<longleftrightarrow> tType t = TokenChar \<and> tValue t = '';''"

text \<open>The state handlers: what is written, and the next state.\<close>

definition stateStart :: "css_token \<Rightarrow> string \<times> css_state" where
  [go_eval]: "stateStart t =
     (if tType t = TokenIdent then
        (if ToLower (tValue t) \<notin> set allowedProperties then ([], StateEat) else (tValue t, StateValid))
      else if tType t = TokenS then ([], StateStart)
      else (''/*'' @ tName t @ ''*/'', StateEat))"

definition stateEat :: "css_token \<Rightarrow> string \<times> css_state" where
  [go_eval]: "stateEat t = ([], if is_semi t then StateStart else StateEat)"

definition stateValid :: "css_token \<Rightarrow> string \<times> css_state" where
  [go_eval]: "stateValid t = (tValue t, if is_semi t then StateStart else StateValid)"

definition css_step :: "css_state \<Rightarrow> css_token \<Rightarrow> string \<times> css_state" where
  [go_eval]: "css_step s t = (case s of StateStart \<Rightarrow> stateStart t | StateEat \<Rightarrow> stateEat t | StateValid \<Rightarrow> stateValid t)"

fun style_loop :: "css_state \<Rightarrow> string \<Rightarrow> css_token list \<Rightarrow> string" where
  "style_loop s b [] = b"
| "style_loop s b (t # ts) =
     (if tType t = TokenEOF then b
      else if tType t = TokenError then []
      else (let (out, s) = css_step s t in style_loop s (b @ out) ts))"

subsection \<open>Tags\<close>

datatype html_token =
    HError bool
  | HTag bool string string "(string \<times> string) list"
  | HOther string

text \<open>
  \<open>HError eof\<close>; \<open>HTag selfclosing raw name attrs\<close>, with the attributes \<open>TagAttr\<close> yields;
  \<open>HOther raw\<close>.
\<close>

record Sanitizers =
  css_scan :: "string \<Rightarrow> css_token list"
  html_tokens :: "string \<Rightarrow> html_token list"
  html_escape :: "string \<Rightarrow> string"
  bluemonday :: "string \<Rightarrow> string"

definition sanitizeStyle :: "Sanitizers \<Rightarrow> string \<Rightarrow> string" where
  [go_eval]: "sanitizeStyle sz input = style_loop StateStart [] (css_scan sz input)"

fun tag_attrs :: "Sanitizers \<Rightarrow> (string \<times> string) list \<Rightarrow> string" where
  "tag_attrs sz [] = []"
| "tag_attrs sz ((key, val) # rest) =
     (let style = (ToLower key = ''style'');
          strval = (if style then sanitizeStyle sz val else val)
      in (if \<not> style \<or> strval \<noteq> [] then '' '' @ key @ ''=\"'' @ html_escape sz strval @ ''\"'' else [])
           @ tag_attrs sz rest)"

text \<open>\<open>styleTagFilter\<close>: \<open>None\<close> for an error of the tokenizer other than the end.\<close>

fun styleTagFilter :: "Sanitizers \<Rightarrow> html_token list \<Rightarrow> string option" where
  "styleTagFilter sz [] = Some []"
| "styleTagFilter sz (HError eof # ts) = (if eof then Some [] else None)"
| "styleTagFilter sz (HTag selfclosing raw name attrs # ts) =
     map_option ((@) (if attrs = [] then raw
        else ''<'' @ name @ tag_attrs sz attrs @ (if selfclosing then ''/'' else []) @ ''>'')) (styleTagFilter sz ts)"
| "styleTagFilter sz (HOther raw # ts) = map_option ((@) raw) (styleTagFilter sz ts)"

definition sanitizeStyleTags :: "Sanitizers \<Rightarrow> string \<Rightarrow> string option" where
  [go_eval]: "sanitizeStyleTags sz input = styleTagFilter sz (html_tokens sz input)"

definition sanitize_HTML :: "Sanitizers \<Rightarrow> string \<Rightarrow> string option" where
  [go_eval]: "sanitize_HTML sz html = map_option (bluemonday sz) (sanitizeStyleTags sz html)"

subsection \<open>Declarations\<close>

text \<open>The tokens up to and with the first semicolon, and the rest.\<close>

fun to_semi :: "css_token list \<Rightarrow> css_token list \<times> css_token list" where
  "to_semi [] = ([], [])"
| "to_semi (t # ts) = (if is_semi t then ([t], ts) else let (d, rest) = to_semi ts in (t # d, rest))"

lemma to_semi_length: "to_semi ts = (d, rest) \<Longrightarrow> length rest \<le> length ts"
  by (induction ts arbitrary: d rest) (fastforce split: if_splits prod.splits)+

text \<open>A style as declarations: white space is dropped where one would begin.\<close>

function declarations :: "css_token list \<Rightarrow> css_token list list" where
  "declarations [] = []"
| "declarations (t # ts) =
     (if tType t = TokenS then declarations ts
      else (t # fst (to_semi ts)) # declarations (snd (to_semi ts)))"
  by pat_completeness auto

termination
proof (relation "measure length")
  fix t :: css_token and ts
  show "(snd (to_semi ts), t # ts) \<in> measure length"
    using to_semi_length [of ts] by (cases "to_semi ts") fastforce
qed auto

definition clean_declaration :: "css_token list \<Rightarrow> string" where
  [go_eval]: "clean_declaration d =
     (let t = hd d in
      if tType t = TokenIdent then (if ToLower (tValue t) \<in> set allowedProperties then concat (map tValue d) else [])
      else ''/*'' @ tName t @ ''*/'')"

declare declarations.simps [go_eval]

definition plain_tokens :: "css_token list \<Rightarrow> bool" where
  [go_eval]: "plain_tokens ts \<longleftrightarrow> list_all (\<lambda>t. tType t \<noteq> TokenEOF \<and> tType t \<noteq> TokenError) ts"

text \<open>The end of the scanner's tokens, where the state no longer matters.\<close>

definition css_end :: "css_token list \<Rightarrow> bool" where
  [go_eval]: "css_end e \<longleftrightarrow> (case e of [] \<Rightarrow> True | t # ts \<Rightarrow> tType t = TokenEOF \<or> tType t = TokenError)"

lemma style_loop_end: "css_end e \<Longrightarrow> style_loop s b e = style_loop StateStart b e"
  by (cases e) (auto simp: css_end_def)

lemma plain_tokens_simps [simp]:
  "plain_tokens []" "plain_tokens (t # ts) \<longleftrightarrow> tType t \<noteq> TokenEOF \<and> tType t \<noteq> TokenError \<and> plain_tokens ts"
  by (simp_all add: plain_tokens_def)

lemma plain_to_semi: "plain_tokens ts \<Longrightarrow> plain_tokens (snd (to_semi ts))"
  by (induction ts) (auto split: prod.splits)

lemma style_loop_eat:
  "plain_tokens ts \<Longrightarrow> css_end e \<Longrightarrow>
    style_loop StateEat b (ts @ e) = style_loop StateStart b (snd (to_semi ts) @ e)"
  by (induction ts) (auto simp: style_loop_end [of e StateEat] css_step_def stateEat_def split: prod.splits)

lemma style_loop_valid:
  "plain_tokens ts \<Longrightarrow> css_end e \<Longrightarrow>
    style_loop StateValid b (ts @ e)
      = style_loop StateStart (b @ concat (map tValue (fst (to_semi ts)))) (snd (to_semi ts) @ e)"
  by (induction ts arbitrary: b)
    (auto simp: style_loop_end [of e StateValid] css_step_def stateValid_def split: prod.splits)

lemma style_loop_declarations:
  "plain_tokens ts \<Longrightarrow> css_end e \<Longrightarrow>
    style_loop StateStart b (ts @ e) = style_loop StateStart (b @ concat (map clean_declaration (declarations ts))) e"
proof (induction ts arbitrary: b rule: declarations.induct)
  case (2 t ts)
  show ?case
  proof (cases "tType t = TokenS")
    case True
    with 2 show ?thesis by (simp add: css_step_def stateStart_def)
  next
    case False
    have p: "plain_tokens ts" "plain_tokens (snd (to_semi ts))" using 2(3) plain_to_semi by auto
    have "style_loop StateStart b ((t # ts) @ e)
        = style_loop StateStart (b @ clean_declaration (t # fst (to_semi ts))) (snd (to_semi ts) @ e)"
      using 2(3,4) False style_loop_eat [OF p(1) 2(4)] style_loop_valid [OF p(1) 2(4)]
      by (simp add: css_step_def stateStart_def clean_declaration_def)
    with 2(2) [OF False p(2) 2(4)] False show ?thesis by simp
  qed
qed simp

text \<open>
  C30: the style filter is the declaration-wise one: a scanned style is cut into declarations (a first
  token that is not white space, and everything to the next semicolon); one whose first token is an
  identifier is kept whole if the identifier is an allowed property and dropped otherwise, any
  other is replaced by a comment. A scanner error gives the empty style.
\<close>
theorem sanitizeStyle_declarations:
  assumes "css_scan sz input = ts @ [t]" and "plain_tokens ts" and "tType t = TokenEOF \<or> tType t = TokenError"
  shows "sanitizeStyle sz input = (if tType t = TokenEOF then concat (map clean_declaration (declarations ts)) else [])"
  using style_loop_declarations [OF assms(2), of "[t]" "[]"] assms(1,3) by (auto simp: sanitizeStyle_def css_end_def)

text \<open>A scanner for the examples that knows one style, with an empty declaration in its middle.\<close>

definition example_sanitizers :: Sanitizers where
  [go_eval]: "example_sanitizers = \<lparr>css_scan = (\<lambda>s.
       [\<lparr>tType = TokenIdent, tName = ''IDENT'', tValue = ''color''\<rparr>, \<lparr>tType = TokenChar, tName = ''CHAR'', tValue = '':''\<rparr>,
        \<lparr>tType = TokenIdent, tName = ''IDENT'', tValue = ''red''\<rparr>, \<lparr>tType = TokenChar, tName = ''CHAR'', tValue = '';''\<rparr>,
        \<lparr>tType = TokenChar, tName = ''CHAR'', tValue = '';''\<rparr>,
        \<lparr>tType = TokenIdent, tName = ''IDENT'', tValue = ''width''\<rparr>, \<lparr>tType = TokenChar, tName = ''CHAR'', tValue = '':''\<rparr>,
        \<lparr>tType = TokenOther, tName = ''NUMBER'', tValue = ''1''\<rparr>, \<lparr>tType = TokenEOF, tName = ''EOF'', tValue = []\<rparr>]),
     html_tokens = (\<lambda>s. [HOther s, HError True]), html_escape = id, bluemonday = id\<rparr>"

theorem sanitizeStyle_declarations_witness:
  "sanitizeStyle example_sanitizers ''color:red;;width:1'' = ''color:red;/*CHAR*/''"
proof -
  let ?ts = "butlast (css_scan example_sanitizers ''color:red;;width:1'')"
  have "css_scan example_sanitizers ''color:red;;width:1'' = ?ts @ [\<lparr>tType = TokenEOF, tName = ''EOF'', tValue = []\<rparr>]" "plain_tokens ?ts"
    by (simp_all add: example_sanitizers_def)
  from sanitizeStyle_declarations [OF this] show ?thesis by (simp add: go_eval)
qed

end
