(* ===== verification/WebUI.thy ===== *)
theory WebUI
  imports Rest Sanitize
begin

text \<open>
  \<open>pkg/webui/mailbox_controller.go\<close>: the controllers behind the web interface, and
  \<open>pkg/server/web/helpers.go\<close>, which renders plain text as HTML. Which parts of a text are URLs is
  decided by a regular expression: the parameter \<open>urls\<close> splits a text into pieces and says which of
  them are matches.
\<close>

subsection \<open>Text as HTML\<close>

definition escape_char :: "char \<Rightarrow> string" where
  [go_eval]: "escape_char c =
     (if c = CHR ''&'' then ''&amp;'' else if c = CHR 39 then ''&#39;'' else if c = CHR ''<'' then ''&lt;''
      else if c = CHR ''>'' then ''&gt;'' else if c = CHR 34 then ''&#34;'' else [c])"

definition EscapeString :: "string \<Rightarrow> string" where
  [go_eval]: "EscapeString s = concat (map escape_char s)"

text \<open>\<open>strings.ReplaceAll(url, "&amp;", "&")\<close>.\<close>

fun unescape_amp :: "string \<Rightarrow> string" where
  "unescape_amp [] = []"
| "unescape_amp (c # s) =
     (if HasPrefix (c # s) ''&amp;'' then CHR ''&'' # unescape_amp (drop 4 s) else c # unescape_amp s)"

definition WrapURL :: "string \<Rightarrow> string" where
  [go_eval]: "WrapURL url = ''<a href=\"'' @ unescape_amp url @ ''\" target=\"_blank\">'' @ url @ ''</a>''"

text \<open>The replacer of line ends.\<close>

fun replace_eol :: "string \<Rightarrow> string" where
  "replace_eol [] = []"
| "replace_eol (c # s) =
     (if c = CR then ''<br/>'' @ LF # replace_eol (if s \<noteq> [] \<and> hd s = LF then tl s else s)
      else if c = LF then ''<br/>'' @ LF # replace_eol s
      else c # replace_eol s)"

definition TextToHTML :: "(string \<Rightarrow> (bool \<times> string) list) \<Rightarrow> string \<Rightarrow> string" where
  [go_eval]: "TextToHTML urls text =
     replace_eol (concat (map (\<lambda>(u, s). if u then WrapURL s else s) (urls (EscapeString text))))"

subsection \<open>The controllers\<close>

fun ui_attachments :: "nat \<Rightarrow> Part list \<Rightarrow> jsonAttachment list" where
  "ui_attachments k [] = []"
| "ui_attachments k (part # parts) =
     \<lparr>uaID = Utoa k, uaFileName = FileName part, uaContentType = ContentType part\<rparr> # ui_attachments (Suc k) parts"

definition html_body :: "Sanitizers \<Rightarrow> string \<Rightarrow> string" where
  [go_eval]: "html_body sz html =
     (if html \<noteq> [] then (case sanitize_HTML sz html of Some str \<Rightarrow> str | None \<Rightarrow> ''Inbucket HTML sanitizer failed.'') else [])"

definition MailboxMessage :: "Sanitizers \<Rightarrow> (string \<Rightarrow> (bool \<times> string) list) \<Rightarrow> ('hdr, 'env, 'st) Context \<Rightarrow> 'st \<Rightarrow> http_reply \<times> 'st" where
  [go_eval]: "MailboxMessage sz urls ctx = at_mailbox ctx (\<lambda>name st.
     case mg_GetMessage (mime ctx) (ctxManager ctx) name (Vars ctx ''id'') st of
       (Inl e, st) \<Rightarrow> (if e \<noteq> StoreFailed ErrNotExist then Failed (ManagerFailed e) else NotFound, st)
     | (Inr None, st) \<Rightarrow> (NotFound, st)
     | (Inr (Some (msg, env)), st) \<Rightarrow>
         (RenderJSON (JUIMessage (JSONMessageHeaderV1.extend (header_of name msg)
            (jsonMessage.fields (RootHeader (envelope ctx) env) (TextToHTML urls (envText (envelope ctx) env))
              (html_body sz (envHTML (envelope ctx) env)) (ui_attachments 0 (Attachments (envelope ctx) env))
              (envErrors (envelope ctx) env)))), st))"

text \<open>The other three test only for \<open>ErrNotExist\<close>, and use a nil message.\<close>

definition MailboxHTML :: "('hdr, 'env, 'st) Context \<Rightarrow> 'st \<Rightarrow> http_reply \<times> 'st" where
  [go_eval]: "MailboxHTML ctx = at_mailbox ctx (\<lambda>name st.
     case mg_GetMessage (mime ctx) (ctxManager ctx) name (Vars ctx ''id'') st of
       (Inl e, st) \<Rightarrow> (if e = StoreFailed ErrNotExist then NotFound else Failed (ManagerFailed e), st)
     | (Inr None, st) \<Rightarrow> (Panicked, st)
     | (Inr (Some (msg, env)), st) \<Rightarrow> (Reply (Data ''text/html; charset=UTF-8'' (envHTML (envelope ctx) env)), st))"

definition MailboxSource :: "('hdr, 'env, 'st) Context \<Rightarrow> 'st \<Rightarrow> http_reply \<times> 'st" where
  [go_eval]: "MailboxSource ctx = at_mailbox ctx (\<lambda>name st.
     case SourceReader (ctxManager ctx) name (Vars ctx ''id'') st of
       (Inl e, st) \<Rightarrow> (if e = ErrNotExist then NotFound else Failed (ManagerFailed (StoreFailed e)), st)
     | (Inr None, st) \<Rightarrow> (Panicked, st)
     | (Inr (Some r), st) \<Rightarrow> (Reply (Data ''text/plain'' r), st))"

definition MailboxViewAttach :: "('hdr, 'env, 'st) Context \<Rightarrow> 'st \<Rightarrow> http_reply \<times> 'st" where
  [go_eval]: "MailboxViewAttach ctx = at_mailbox ctx (\<lambda>name st.
     case ParseUint 32 (Vars ctx ''num'') of
       None \<Rightarrow> (Failed BadNumber, st)
     | Some num \<Rightarrow>
         (case mg_GetMessage (mime ctx) (ctxManager ctx) name (Vars ctx ''id'') st of
            (Inl e, st) \<Rightarrow> (if e = StoreFailed ErrNotExist then NotFound else Failed (ManagerFailed e), st)
          | (Inr None, st) \<Rightarrow> (Panicked, st)
          | (Inr (Some (msg, env)), st) \<Rightarrow>
              (let parts = Attachments (envelope ctx) env in
               if num \<ge> length parts then (Failed NoAttachment, st)
               else (Reply (Data (ContentType (parts ! num)) (Content (parts ! num))), st))))"

end
