(* ===== verification/WebProps.thy ===== *)
theory WebProps
  imports WebUI FileReach
begin

text \<open>
  What the controllers do over any store that keeps the contract, what becomes of a request for a
  message that is not there, and what TextToHTML lets through.
\<close>

context message_store
begin

lemma list_reply:
  assumes "inv st" and "mgStore (ctxManager ctx) = ops" and "MailboxForAddress (ctxManager ctx) (Vars ctx ''name'') = Ok mb"
    and "MailboxListV1 ctx st = (r, st')"
  shows "r = Reply (JSON (JHeaders (map (\<lambda>m. header_of mb (MakeMetadata m)) (abs st mb)))) \<and> inv st' \<and> abs st' = abs st"
proof -
  obtain g st1 where g: "GetMessages ops st mb = (g, st1)" by fastforce
  with get_messages [OF assms(1) g] inv_get [OF assms(1) g] assms(2-4) show ?thesis
    by (auto simp: MailboxListV1_def at_mailbox_def GetMetadata_def RenderJSON_def comp_def)
qed

lemma seen_reply:
  assumes "inv st" and "mgStore (ctxManager ctx) = ops" and "MailboxForAddress (ctxManager ctx) (Vars ctx ''name'') = Ok mb"
    and "MailboxMarkSeenV1 (Some True) ctx st = (r, st')"
  shows "r = Reply (JSON JOK) \<and> inv st'
    \<and> abs st' = (abs st)(mb := map (\<lambda>m. if sID m = Vars ctx ''id'' then m\<lparr>sSeen := True\<rparr> else m) (abs st mb))"
proof -
  obtain e st1 where m: "MarkSeen ops st mb (Vars ctx ''id'') = (e, st1)" by fastforce
  with seen_abs [OF assms(1) m] inv_seen [OF assms(1) m] assms(2-4) show ?thesis
    by (simp add: MailboxMarkSeenV1_def at_mailbox_def mg_MarkSeen_def RenderJSON_def)
qed

lemma delete_reply:
  assumes "inv st" and "mgStore (ctxManager ctx) = ops" and "MailboxForAddress (ctxManager ctx) (Vars ctx ''name'') = Ok mb"
    and "Vars ctx ''id'' \<in> sID ` set (abs st mb)" and "MailboxDeleteV1 ctx st = (r, st')"
  shows "r = Reply (JSON JOK) \<and> inv st' \<and> abs st' = (abs st)(mb := filter (\<lambda>m. sID m \<noteq> Vars ctx ''id'') (abs st mb))"
proof -
  obtain e st1 where d: "RemoveMessage ops st mb (Vars ctx ''id'') = (e, st1)" by fastforce
  with remove_result [OF assms(1) d assms(4)] remove_abs [OF assms(1) d] inv_remove [OF assms(1) d] assms(2,3,5) show ?thesis
    by (simp add: MailboxDeleteV1_def at_mailbox_def mg_RemoveMessage_def RenderJSON_def)
qed

lemma show_missing:
  assumes "inv st" and "mgStore (ctxManager ctx) = ops" and "MailboxForAddress (ctxManager ctx) (Vars ctx ''name'') = Ok mb"
    and "Vars ctx ''id'' \<notin> sID ` set (abs st mb)" and "Vars ctx ''id'' \<noteq> ''latest''"
  shows "fst (MailboxShowV1 md5 host ctx st) = NotFound" and "fst (MailboxSourceV1 ctx st) = NotFound"
    and "fst (MailboxMessage sz urls ctx st) = NotFound"
proof -
  obtain g st1 where g: "GetMessage ops st mb (Vars ctx ''id'') = (g, st1)" by fastforce
  note m = get_missing [OF assms(1,4,5) g]
  show "fst (MailboxShowV1 md5 host ctx st) = NotFound" "fst (MailboxSourceV1 ctx st) = NotFound"
    "fst (MailboxMessage sz urls ctx st) = NotFound"
    using m g assms(2,3)
    by (auto simp: MailboxShowV1_def MailboxSourceV1_def MailboxMessage_def at_mailbox_def mg_GetMessage_def SourceReader_def)
qed

end

text \<open>
  The life of a message over the REST API, on every store that keeps the contract: PATCH marks it
  seen, the listing then is that of the mailbox with the mark, DELETE removes it, and after that it
  is not found any more, while the listing has all the others.
\<close>
theorem rest_message_life:
  assumes store: "message_store ops listing ok" and st: "ok st" "mgStore (ctxManager ctx) = ops"
      "MailboxForAddress (ctxManager ctx) (Vars ctx ''name'') = Ok mb"
    and i: "Vars ctx ''id'' \<in> sID ` set (listing st mb)" "Vars ctx ''id'' \<noteq> ''latest''"
    and run: "MailboxMarkSeenV1 (Some True) ctx st = (r1, st1)" "MailboxListV1 ctx st1 = (r2, st2)"
      "MailboxDeleteV1 ctx st2 = (r3, st3)"
  shows "ServeHTTP r1 = Some 200
    \<and> r2 = Reply (JSON (JHeaders (map (\<lambda>m. (header_of mb (MakeMetadata m))\<lparr>jSeen := sSeen m \<or> sID m = Vars ctx ''id''\<rparr>) (listing st mb))))
    \<and> ServeHTTP r3 = Some 200 \<and> ServeHTTP (fst (MailboxShowV1 md5 host ctx st3)) = Some 404
    \<and> fst (MailboxListV1 ctx st3)
      = Reply (JSON (JHeaders (map (\<lambda>m. header_of mb (MakeMetadata m)) (filter (\<lambda>m. sID m \<noteq> Vars ctx ''id'') (listing st mb)))))"
proof -
  let ?i = "Vars ctx ''id''"
  let ?mark = "\<lambda>m. if sID m = ?i then m\<lparr>sSeen := True\<rparr> else m"
  note s1 = message_store.seen_reply [OF store st run(1)]
  then have l1: "ok st1" "listing st1 mb = map ?mark (listing st mb)" by simp_all
  note s2 = message_store.list_reply [OF store l1(1) st(2,3) run(2)]
  then have l2: "ok st2" "listing st2 mb = map ?mark (listing st mb)" using l1(2) by simp_all
  have ids: "map sID (map ?mark ms) = map sID ms" "filter (\<lambda>m. sID m \<noteq> ?i) (map ?mark ms) = filter (\<lambda>m. sID m \<noteq> ?i) ms" for ms
    by (induction ms) auto
  have "?i \<in> sID ` set (listing st2 mb)" using i(1) ids(1) [of "listing st mb"] unfolding l2(2) by (metis set_map)
  note s3 = message_store.delete_reply [OF store l2(1) st(2,3) this run(3)]
  then have l3: "ok st3" "listing st3 mb = filter (\<lambda>m. sID m \<noteq> ?i) (listing st mb)"
    using l2(2) ids(2) by simp_all
  have "?i \<notin> sID ` set (listing st3 mb)" unfolding l3(2) by auto
  note s4 = message_store.show_missing(1) [OF store l3(1) st(2,3) this i(2)]
  obtain r4 st4 where r4: "MailboxListV1 ctx st3 = (r4, st4)" by fastforce
  note s5 = message_store.list_reply [OF store l3(1) st(2,3) r4]
  have "header_of mb (MakeMetadata (?mark m)) = (header_of mb (MakeMetadata m))\<lparr>jSeen := sSeen m \<or> sID m = ?i\<rparr>" for m
    by (cases m) (simp add: header_of_def MakeMetadata_def)
  then have "r2 = Reply (JSON (JHeaders (map (\<lambda>m. (header_of mb (MakeMetadata m))\<lparr>jSeen := sSeen m \<or> sID m = ?i\<rparr>) (listing st mb))))"
    using s2 l1(2) by (simp add: comp_def)
  with s1 s3 s4 s5 r4 l3(2) show ?thesis by (simp add: ServeHTTP_def)
qed

definition example_context :: "'st Store \<Rightarrow> string \<Rightarrow> string \<Rightarrow> (unit, unit, 'st) Context" where
  [go_eval]: "example_context ds name i = \<lparr>Vars = (\<lambda>v. if v = ''name'' then name else if v = ''id'' then i else ''0''),
     ctxManager = \<lparr>AddrPolicy = \<lparr>aConfig = example_root\<rparr>, mgStore = ds, BeforeMessageStored = empty_broker\<rparr>,
     mime = example_enmime,
     envelope = \<lparr>Inlines = (\<lambda>e. []), envAttachments = (\<lambda>e. []), RootHeader = (\<lambda>e. []), envHTML = (\<lambda>e. []),
       envText = (\<lambda>e. []), envErrors = (\<lambda>e. [])\<rparr>\<rparr>"

lemma example_context_simps:
  "mgStore (ctxManager (example_context ds ''a'' i)) = ds" "Vars (example_context ds ''a'' i) ''id'' = i"
  "Vars (example_context ds ''a'' i) ''num'' = ''0''"
  "MailboxForAddress (ctxManager (example_context ds ''a'' i)) (Vars (example_context ds ''a'' i) ''name'') = Ok ''a''"
  by (simp_all add: go_eval)

lemma example_two_set: "sID ` set (mem_abs example_two ''a'') = {''1'', ''2''}"
  using example_two_ids by (metis list.set_map list.simps(15) set_empty)

theorem rest_message_life_witness:
  "\<exists>s. ServeHTTP (fst (MailboxDeleteV1 (example_context mem_ops ''a'' ''1'') s)) = Some 200
    \<and> ServeHTTP (fst (MailboxShowV1 id ''h'' (example_context mem_ops ''a'' ''1'') (snd (MailboxDeleteV1 (example_context mem_ops ''a'' ''1'') s)))) = Some 404"
proof -
  let ?c = "example_context mem_ops ''a'' ''1''"
  obtain r1 st1 r2 st2 r3 st3 where run: "MailboxMarkSeenV1 (Some True) ?c example_two = (r1, st1)" "MailboxListV1 ?c st1 = (r2, st2)"
    "MailboxDeleteV1 ?c st2 = (r3, st3)" by (metis prod.exhaust)
  have "mem_ok example_two" using mem_run_spec [OF example_run] mem_New_spec [OF example_New] by simp
  moreover have "Vars ?c ''id'' \<in> sID ` set (mem_abs example_two ''a'')" by (simp add: example_two_set example_context_simps)
  ultimately show ?thesis
    using rest_message_life [OF mem.message_store_axioms _ example_context_simps(1,4) _ _ run, of id "''h''"] run(3)
    by (intro exI [of _ st2]) (simp add: example_context_simps)
qed

subsection \<open>Messages that are not there\<close>

lemma mem_GetMessage_missing:
  assumes "mem_ok s" and "i \<notin> sID ` set (mem_abs s mb)" and "i \<noteq> ''latest''"
  shows "\<exists>s'. mem_GetMessage s mb i = (Ok None, s')"
proof -
  obtain r s' where g: "mem_GetMessage s mb i = (r, s')" by fastforce
  have "List.find (\<lambda>m. sID m = i) (mem_abs s mb) = None" using assms(2) by (auto simp: find_None_iff image_iff)
  with mem_GetMessage_spec(3) [OF assms(1) g] assms(3) g show ?thesis by auto
qed

text \<open>
  A request for a message that is not in its mailbox. The REST API and the JSON of the web
  interface answer 404 over both stores. The HTML, source and attachment pages do so over the file
  store; over the memory store, which reports no error, they dereference the nil message.
\<close>
theorem webui_missing_message:
  assumes mem: "mem_ok s" "mgStore (ctxManager c) = mem_ops" "MailboxForAddress (ctxManager c) (Vars c ''name'') = Ok mb"
      "Vars c ''id'' \<notin> sID ` set (mem_abs s mb)" "Vars c ''id'' \<noteq> ''latest''" "ParseUint 32 (Vars c ''num'') = Some n"
    and disk: "file_ok f" "mgStore (ctxManager d) = file_ops" "MailboxForAddress (ctxManager d) (Vars d ''name'') = Ok mb'"
      "Vars d ''id'' \<notin> sID ` set (file_abs f mb')" "Vars d ''id'' \<noteq> ''latest''" "ParseUint 32 (Vars d ''num'') = Some n'"
  shows "fst (MailboxShowV1 md5 host c s) = NotFound \<and> fst (MailboxMessage sz urls c s) = NotFound
    \<and> fst (MailboxHTML c s) = Panicked \<and> fst (MailboxSource c s) = Panicked \<and> fst (MailboxViewAttach c s) = Panicked
    \<and> fst (MailboxShowV1 md5 host d f) = NotFound \<and> fst (MailboxMessage sz urls d f) = NotFound
    \<and> fst (MailboxHTML d f) = NotFound \<and> fst (MailboxSource d f) = NotFound \<and> fst (MailboxViewAttach d f) = NotFound"
proof -
  obtain s' where g: "GetMessage mem_ops s mb (Vars c ''id'') = (Ok None, s')"
    using mem_GetMessage_missing [OF mem(1,4,5)] by (auto simp: mem_ops_def)
  have "List.find (\<lambda>m. sID m = Vars d ''id'') (file_abs f mb') = None" using disk(4) by (auto simp: find_None_iff image_iff)
  then have g': "GetMessage file_ops f mb' (Vars d ''id'') = (Err ErrNotExist, f)"
    using GetMessage_ok [OF disk(1), of mb' "Vars d ''id''"] disk(5) by (simp add: file_ops_def)
  note defs = MailboxShowV1_def MailboxMessage_def MailboxHTML_def MailboxSource_def MailboxViewAttach_def at_mailbox_def
    mg_GetMessage_def SourceReader_def
  show ?thesis using g g' mem(2,3,6) disk(2,3,6) by (simp add: defs)
qed

theorem webui_missing_message_witness:
  "fst (MailboxHTML (example_context mem_ops ''a'' ''9'') example_two) = Panicked
    \<and> fst (MailboxHTML (example_context file_ops ''a'' ''9'') example_disk) = NotFound"
proof -
  have m: "mem_ok example_two" using mem_run_spec [OF example_run] mem_New_spec [OF example_New] by simp
  have d: "file_ok example_disk" by (rule file_cappedD [OF example_disk_ok(1)])
  have i: "''9'' \<notin> sID ` set (mem_abs example_two ''a'')" "''9'' \<notin> sID ` set (file_abs example_disk ''a'')" "ParseUint 32 ''0'' = Some 0"
    by (simp_all add: example_two_set example_disk_ok(2)) (simp add: go_eval)
  show ?thesis
    using webui_missing_message [OF m example_context_simps(1,4) _ _ _ d example_context_simps(1,4), of "''9''" 0 "''9''" 0] i
    by (simp add: example_context_simps)
qed

subsection \<open>Plain text as HTML\<close>

text \<open>
  HTML without any markup but line breaks and links whose address is quoted; \<open>eol\<close> says whether
  there may be bare line ends.
\<close>

definition plain_chars :: "string \<Rightarrow> bool" where
  "plain_chars s \<longleftrightarrow> set s \<inter> {CHR ''<'', CHR ''>'', CHR 34} = {}"

inductive safe_html :: "bool \<Rightarrow> string \<Rightarrow> bool" where
  safe_end: "safe_html eol []"
| safe_char: "c \<noteq> CHR ''<'' \<Longrightarrow> c \<noteq> CHR ''>'' \<Longrightarrow> c \<noteq> CHR 34 \<Longrightarrow> eol \<or> c \<noteq> CR \<Longrightarrow> safe_html eol s \<Longrightarrow> safe_html eol (c # s)"
| safe_break: "safe_html False s \<Longrightarrow> safe_html False (''<br/>'' @ LF # s)"
| safe_link: "plain_chars u \<Longrightarrow> plain_chars t \<Longrightarrow> set u \<inter> {CR, LF} = {} \<Longrightarrow> set t \<inter> {CR, LF} = {} \<Longrightarrow> safe_html eol s \<Longrightarrow>
    safe_html eol (''<a href=\"'' @ u @ ''\" target=\"_blank\">'' @ t @ ''</a>'' @ s)"

inductive_cases safe_ConsE: "safe_html True (c # s)"

lemma plain_chars_simps [simp]:
  "plain_chars []" "plain_chars (c # s) \<longleftrightarrow> c \<noteq> CHR ''<'' \<and> c \<noteq> CHR ''>'' \<and> c \<noteq> CHR 34 \<and> plain_chars s"
  "plain_chars (s @ t) \<longleftrightarrow> plain_chars s \<and> plain_chars t"
  by (auto simp: plain_chars_def)

lemma EscapeString_plain: "plain_chars (EscapeString s)"
  by (induction s) (auto simp: EscapeString_def escape_char_def)

lemma unescape_amp_set: "set (unescape_amp s) \<subseteq> insert (CHR ''&'') (set s)"
  by (induction s rule: unescape_amp.induct) (auto dest: in_set_dropD)

lemma safe_text: "plain_chars t \<Longrightarrow> safe_html True s \<Longrightarrow> safe_html True (t @ s)"
  by (induction t) (auto intro: safe_char)

lemma safe_pieces:
  assumes "plain_chars (concat (map snd ps))" and "\<And>u. (True, u) \<in> set ps \<Longrightarrow> set u \<inter> {CR, LF} = {}"
  shows "safe_html True (concat (map (\<lambda>(u, s). if u then WrapURL s else s) ps))"
  using assms
proof (induction ps)
  case Nil
  then show ?case by (simp add: safe_end)
next
  case (Cons p ps)
  obtain u t where p: "p = (u, t)" by fastforce
  have rest: "safe_html True (concat (map (\<lambda>(u, s). if u then WrapURL s else s) ps))" using Cons by simp
  show ?case
  proof (cases u)
    case True
    have t: "plain_chars t" "set t \<inter> {CR, LF} = {}" using Cons.prems p True by auto
    then have "plain_chars (unescape_amp t)" "set (unescape_amp t) \<inter> {CR, LF} = {}"
      using unescape_amp_set [of t] by (auto simp: plain_chars_def)
    from safe_link [OF this(1) t(1) this(2) t(2) rest] p True show ?thesis by (simp add: WrapURL_def)
  next
    case False
    then show ?thesis using Cons.prems p safe_text [OF _ rest] by simp
  qed
qed

lemma replace_eol_no: "set t \<inter> {CR, LF} = {} \<Longrightarrow> replace_eol (t @ s) = t @ replace_eol s"
  by (induction t) auto

lemma replace_eol_safe: "safe_html True s \<Longrightarrow> safe_html False (replace_eol s)"
proof (induction s rule: length_induct)
  case (1 s)
  from 1(2) show ?case
  proof cases
    case safe_end
    then show ?thesis by (simp add: safe_html.safe_end)
  next
    case (safe_char c s')
    have IH: "safe_html True x \<Longrightarrow> length x \<le> length s' \<Longrightarrow> safe_html False (replace_eol x)" for x
      using 1(1) safe_char(1) by simp
    show ?thesis
    proof (cases "c = CR \<and> s' \<noteq> [] \<and> hd s' = LF")
      case True
      then obtain x where x: "s' = LF # x" by (cases s') auto
      then have "safe_html True x" using safe_char(6) by (auto elim: safe_ConsE)
      from safe_break [OF IH [OF this]] show ?thesis using True x safe_char(1) by simp
    next
      case False
      have r: "safe_html False (replace_eol s')" by (rule IH [OF safe_char(6)]) simp
      from False safe_char(1-4) safe_break [OF r] safe_html.safe_char [OF safe_char(2-4) _ r] show ?thesis
        by (cases "c = CR"; cases "c = LF") auto
    qed
  next
    case (safe_link u t s')
    let ?t = "''<a href=\"'' @ u @ ''\" target=\"_blank\">'' @ t @ ''</a>''"
    have r: "safe_html False (replace_eol s')" using 1(1) safe_link by auto
    have "set ?t \<inter> {CR, LF} = {}" using safe_link(4,5) by auto
    from replace_eol_no [OF this] safe_html.safe_link [OF safe_link(2-5) r] safe_link(1) show ?thesis by simp
  qed simp
qed

text \<open>
  C29: whatever the text of a message is, the HTML made of it has no markup but line breaks and links,
  and an address cannot leave its quotes. The pieces found by the URL pattern make up the text, and
  the matches have no line ends in them.
\<close>
theorem TextToHTML_safe:
  assumes "\<And>t. concat (map snd (urls t)) = t" and "\<And>t u. (True, u) \<in> set (urls t) \<Longrightarrow> set u \<inter> {CR, LF} = {}"
  shows "safe_html False (TextToHTML urls text)"
  unfolding TextToHTML_def
  by (rule replace_eol_safe, rule safe_pieces) (use assms EscapeString_plain in auto)

theorem TextToHTML_safe_witness: "safe_html False (TextToHTML (\<lambda>t. [(t = ''w.x'', t)]) ''w.x'')"
  by (rule TextToHTML_safe) (auto split: if_splits)

end
