(* ===== verification/Monitor.thy ===== *)
theory Monitor
  imports Web MsgHub
begin

text \<open>
  \<open>pkg/rest/socketv1_controller.go\<close> and \<open>socketv2_controller.go\<close>: the listeners that feed the hub's
  events to a web socket. A listener has a channel of 100 events. Three goroutines meet at it: the hub
  sends to it, \<open>WSWriter\<close> receives from it and writes to the socket, and \<open>WSReader\<close> waits for the
  client to go away; the two of the socket call \<open>Close\<close> at their end. The state holds the listener and
  what became of the goroutines; a relation has one rule for each of their steps, in any order. The
  two versions differ in what they send, and version 1 ignores deletions.
\<close>

subsection \<open>Listeners\<close>

record 'ev msgListener =
  ml_c :: "'ev list"
  ml_closed :: bool
  ml_mailbox :: string

text \<open>Sending to the channel: done, blocked while it is full, or a panic when it is closed.\<close>

datatype 'l sending = Sent 'l | Blocked | SendPanic

definition chan_send :: "'ev \<Rightarrow> 'ev msgListener \<Rightarrow> 'ev msgListener sending" where
  [go_eval]: "chan_send ev ml =
     (if ml_closed ml then SendPanic
      else if length (ml_c ml) < 100 then Sent (ml\<lparr>ml_c := ml_c ml @ [ev]\<rparr>) else Blocked)"

definition newMsgListener :: "string \<Rightarrow> 'ev msgListener" where
  [go_eval]: "newMsgListener mailbox = \<lparr>ml_c = [], ml_closed = False, ml_mailbox = mailbox\<rparr>"

definition ReceiveV1 :: "MessageMetadata \<Rightarrow> MessageMetadata msgListener \<Rightarrow> MessageMetadata msgListener sending" where
  [go_eval]: "ReceiveV1 msg ml =
     (if ml_mailbox ml \<noteq> [] \<and> ml_mailbox ml \<noteq> mdMailbox msg then Sent ml else chan_send msg ml)"

definition DeleteV1 :: "string \<Rightarrow> string \<Rightarrow> MessageMetadata msgListener \<Rightarrow> MessageMetadata msgListener sending" where
  [go_eval]: "DeleteV1 mailbox i ml = Sent ml"

text \<open>The JSON of a listing, without the seen flag.\<close>

definition metadataToHeader :: "MessageMetadata \<Rightarrow> JSONMessageHeaderV1" where
  [go_eval]: "metadataToHeader msg =
     \<lparr>jMailbox = mdMailbox msg, jID = mdID msg, jFrom = StringAddress (mdFrom msg), jTo = StringAddressList (map Some (mdTo msg)),
      jSubject = mdSubject msg, jDate = mdDate msg, jPosixMillis = go_div (mdDate msg) 1000000, jSize = mdSize msg,
      jSeen = False\<rparr>"

record JSONMonitorEventV2 =
  Variant :: string
  Identifier :: "(string \<times> string) option"
  Header :: "JSONMessageHeaderV1 option"

definition ReceiveV2 :: "MessageMetadata \<Rightarrow> JSONMonitorEventV2 msgListener \<Rightarrow> JSONMonitorEventV2 msgListener sending" where
  [go_eval]: "ReceiveV2 msg ml =
     (if ml_mailbox ml \<noteq> [] \<and> ml_mailbox ml \<noteq> mdMailbox msg then Sent ml
      else chan_send \<lparr>Variant = ''message-stored'', Identifier = None, Header = Some (metadataToHeader msg)\<rparr> ml)"

definition DeleteV2 :: "string \<Rightarrow> string \<Rightarrow> JSONMonitorEventV2 msgListener \<Rightarrow> JSONMonitorEventV2 msgListener sending" where
  [go_eval]: "DeleteV2 mailbox i ml =
     (if ml_mailbox ml \<noteq> [] \<and> ml_mailbox ml \<noteq> mailbox then Sent ml
      else chan_send \<lparr>Variant = ''message-deleted'', Identifier = Some (mailbox, i), Header = None\<rparr> ml)"

text \<open>The hub's call for an event.\<close>

definition hearV1 :: "hub_event \<Rightarrow> MessageMetadata msgListener \<Rightarrow> MessageMetadata msgListener sending" where
  [go_eval]: "hearV1 ev ml = (case ev of Received msg \<Rightarrow> ReceiveV1 msg ml | Deleted mailbox i \<Rightarrow> DeleteV1 mailbox i ml)"

definition hearV2 :: "hub_event \<Rightarrow> JSONMonitorEventV2 msgListener \<Rightarrow> JSONMonitorEventV2 msgListener sending" where
  [go_eval]: "hearV2 ev ml = (case ev of Received msg \<Rightarrow> ReceiveV2 msg ml | Deleted mailbox i \<Rightarrow> DeleteV2 mailbox i ml)"

subsection \<open>Sockets\<close>

datatype 'ev frame = FrameJSON 'ev | FramePing | FrameClose

text \<open>
  \<open>registered\<close>: the hub calls the listener; \<open>removing\<close>: a \<open>RemoveListener\<close> is in the hub's queue.
\<close>

record 'ev socket =
  listener :: "'ev msgListener"
  frames :: "'ev frame list"
  registered :: bool
  removing :: bool
  reader_on :: bool
  writer_on :: bool

definition new_socket :: "string \<Rightarrow> 'ev socket" where
  [go_eval]: "new_socket mailbox =
     \<lparr>listener = newMsgListener mailbox, frames = [], registered = True, removing = False, reader_on = True, writer_on = True\<rparr>"

text \<open>
  The handlers: the connection is upgraded to a web socket, which can fail, and the listener is
  made; \<open>WSWriter\<close> and \<open>WSReader\<close> then run on it.
\<close>

definition MonitorAllMessagesV1 :: "bool \<Rightarrow> (web_error, MessageMetadata socket) result" where
  [go_eval]: "MonitorAllMessagesV1 upgraded = (if upgraded then Ok (new_socket []) else Err UpgradeFailed)"

definition MonitorMailboxMessagesV1 :: "('hdr, 'env, 'st) Context \<Rightarrow> bool \<Rightarrow> (web_error, MessageMetadata socket) result" where
  [go_eval]: "MonitorMailboxMessagesV1 ctx upgraded =
     (case MailboxForAddress (ctxManager ctx) (Vars ctx ''name'') of
        Inl e \<Rightarrow> Err (BadAddress e)
      | Inr name \<Rightarrow> if upgraded then Ok (new_socket name) else Err UpgradeFailed)"

definition MonitorAllMessagesV2 :: "bool \<Rightarrow> (web_error, JSONMonitorEventV2 socket) result" where
  [go_eval]: "MonitorAllMessagesV2 upgraded = (if upgraded then Ok (new_socket []) else Err UpgradeFailed)"

definition MonitorMailboxMessagesV2 :: "('hdr, 'env, 'st) Context \<Rightarrow> bool \<Rightarrow> (web_error, JSONMonitorEventV2 socket) result" where
  [go_eval]: "MonitorMailboxMessagesV2 ctx upgraded =
     (case MailboxForAddress (ctxManager ctx) (Vars ctx ''name'') of
        Inl e \<Rightarrow> Err (BadAddress e)
      | Inr name \<Rightarrow> if upgraded then Ok (new_socket name) else Err UpgradeFailed)"

text \<open>
  \<open>Close\<close>: its \<open>select\<close> receives from the channel if it can; the event it takes is lost.
\<close>

definition ws_Close :: "'ev socket \<Rightarrow> 'ev socket" where
  [go_eval]: "ws_Close s =
     (let ml = listener s in
      if ml_c ml \<noteq> [] then s\<lparr>listener := ml\<lparr>ml_c := tl (ml_c ml)\<rparr>\<rparr>
      else if ml_closed ml then s
      else s\<lparr>removing := True, listener := ml\<lparr>ml_closed := True\<rparr>\<rparr>)"

text \<open>A write to the socket, which ends the writer when it fails.\<close>

definition ws_write :: "'ev frame \<Rightarrow> bool \<Rightarrow> 'ev socket \<Rightarrow> 'ev socket" where
  [go_eval]: "ws_write f ok s =
     (if ok then s\<lparr>frames := frames s @ [f]\<rparr> else ws_Close (s\<lparr>writer_on := False\<rparr>))"

inductive socket_step :: "(hub_event \<Rightarrow> 'ev msgListener \<Rightarrow> 'ev msgListener sending) \<Rightarrow> 'ev socket \<Rightarrow> hub_event list \<Rightarrow> 'ev socket \<Rightarrow> bool"
  for hear where
  hub_sends: "registered s \<Longrightarrow> hear ev (listener s) = Sent ml \<Longrightarrow> socket_step hear s [ev] (s\<lparr>listener := ml\<rparr>)"
| hub_panics: "registered s \<Longrightarrow> hear ev (listener s) = SendPanic \<Longrightarrow> socket_step hear s [ev] s"
| hub_removes: "removing s \<Longrightarrow> socket_step hear s [] (s\<lparr>registered := False, removing := False\<rparr>)"
| writer_event: "writer_on s \<Longrightarrow> ml_c (listener s) = ev # q \<Longrightarrow>
    socket_step hear s [] (ws_write (FrameJSON ev) ok (s\<lparr>listener := (listener s)\<lparr>ml_c := q\<rparr>\<rparr>))"
| writer_closed: "writer_on s \<Longrightarrow> ml_c (listener s) = [] \<Longrightarrow> ml_closed (listener s) \<Longrightarrow>
    socket_step hear s [] (ws_Close (s\<lparr>frames := frames s @ [FrameClose], writer_on := False\<rparr>))"
| writer_ping: "writer_on s \<Longrightarrow> socket_step hear s [] (ws_write FramePing ok s)"
| reader_ends: "reader_on s \<Longrightarrow> socket_step hear s [] (ws_Close (s\<lparr>reader_on := False\<rparr>))"

text \<open>A run, with the events the hub has sent.\<close>

inductive socket_run :: "(hub_event \<Rightarrow> 'ev msgListener \<Rightarrow> 'ev msgListener sending) \<Rightarrow> 'ev socket \<Rightarrow> hub_event list \<Rightarrow> 'ev socket \<Rightarrow> bool"
  for hear where
  run_here: "socket_run hear s [] s"
| run_on: "socket_run hear s evs s' \<Longrightarrow> socket_step hear s' new s'' \<Longrightarrow> socket_run hear s (evs @ new) s''"

end
