(* ===== verification/MonitorProps.thy ===== *)
theory MonitorProps
  imports Monitor WebProps
begin

text \<open>
  What a web socket shows of the hub's events, proved once for both versions of the listener, and how
  a socket that is closed while events wait for it stops the hub.
\<close>

definition sent_events :: "'ev socket \<Rightarrow> 'ev list" where
  [go_eval]: "sent_events s = concat (map (\<lambda>f. case f of FrameJSON e \<Rightarrow> [e] | _ \<Rightarrow> []) (frames s))"

definition watched :: "string \<Rightarrow> string \<Rightarrow> bool" where
  [go_eval]: "watched mailbox mb \<longleftrightarrow> mailbox = [] \<or> mailbox = mb"

text \<open>The events a client that watches \<open>mailbox\<close> should see.\<close>

definition wantedV1 :: "string \<Rightarrow> hub_event \<Rightarrow> MessageMetadata option" where
  [go_eval]: "wantedV1 mailbox ev =
     (case ev of Received m \<Rightarrow> if watched mailbox (mdMailbox m) then Some m else None | Deleted mb i \<Rightarrow> None)"

definition wantedV2 :: "string \<Rightarrow> hub_event \<Rightarrow> JSONMonitorEventV2 option" where
  [go_eval]: "wantedV2 mailbox ev =
     (case ev of
        Received m \<Rightarrow> if watched mailbox (mdMailbox m)
          then Some \<lparr>Variant = ''message-stored'', Identifier = None, Header = Some (metadataToHeader m)\<rparr> else None
      | Deleted mb i \<Rightarrow> if watched mailbox mb
          then Some \<lparr>Variant = ''message-deleted'', Identifier = Some (mb, i), Header = None\<rparr> else None)"

definition wanted_list :: "(string \<Rightarrow> hub_event \<Rightarrow> 'ev option) \<Rightarrow> string \<Rightarrow> hub_event list \<Rightarrow> 'ev list" where
  [go_eval]: "wanted_list wanted mailbox evs = concat (map (\<lambda>ev. case wanted mailbox ev of None \<Rightarrow> [] | Some e \<Rightarrow> [e]) evs)"

lemma wanted_list_simps [simp]:
  "wanted_list wanted mb [] = []" "wanted_list wanted mb (xs @ ys) = wanted_list wanted mb xs @ wanted_list wanted mb ys"
  "wanted_list wanted mb [ev] = (case wanted mb ev of None \<Rightarrow> [] | Some e \<Rightarrow> [e])"
  by (simp_all add: wanted_list_def)

text \<open>No goroutine of the socket is left, but the hub still calls the listener, whose channel is full.\<close>

definition wedged :: "'ev socket \<Rightarrow> bool" where
  [go_eval]: "wedged s \<longleftrightarrow> registered s \<and> \<not> removing s \<and> \<not> reader_on s \<and> \<not> writer_on s
     \<and> \<not> ml_closed (listener s) \<and> length (ml_c (listener s)) = 100"

lemma sent_events_simps [simp]:
  "sent_events (s\<lparr>listener := l\<rparr>) = sent_events s" "sent_events (s\<lparr>writer_on := b\<rparr>) = sent_events s"
  "sent_events (s\<lparr>reader_on := b\<rparr>) = sent_events s" "sent_events (s\<lparr>registered := b\<rparr>) = sent_events s"
  "sent_events (s\<lparr>removing := b\<rparr>) = sent_events s" "sent_events (s\<lparr>frames := fs @ [FramePing]\<rparr>) = sent_events (s\<lparr>frames := fs\<rparr>)"
  "sent_events (s\<lparr>frames := fs @ [FrameClose]\<rparr>) = sent_events (s\<lparr>frames := fs\<rparr>)"
  "sent_events (s\<lparr>frames := fs @ [FrameJSON e]\<rparr>) = sent_events (s\<lparr>frames := fs\<rparr>) @ [e]"
  "sent_events (s\<lparr>frames := frames s\<rparr>) = sent_events s"
  by (simp_all add: sent_events_def)

locale socket_kind =
  fixes hear :: "hub_event \<Rightarrow> 'ev msgListener \<Rightarrow> 'ev msgListener sending"
    and wanted :: "string \<Rightarrow> hub_event \<Rightarrow> 'ev option"
  assumes hear_eq: "hear ev ml = (case wanted (ml_mailbox ml) ev of None \<Rightarrow> Sent ml | Some e \<Rightarrow> chan_send e ml)"
begin

definition sock_inv :: "string \<Rightarrow> hub_event list \<Rightarrow> 'ev socket \<Rightarrow> bool" where
  "sock_inv mb evs s \<longleftrightarrow> ml_mailbox (listener s) = mb \<and> length (ml_c (listener s)) \<le> 100
     \<and> subseq (sent_events s @ ml_c (listener s)) (wanted_list wanted mb evs)
     \<and> (reader_on s \<and> writer_on s \<longrightarrow> sent_events s @ ml_c (listener s) = wanted_list wanted mb evs \<and> \<not> ml_closed (listener s))
     \<and> (ml_closed (listener s) \<longrightarrow> ml_c (listener s) = []) \<and> (removing s \<or> \<not> registered s \<longrightarrow> ml_closed (listener s))"

lemma inv_new: "sock_inv mb [] (new_socket mb)"
  by (simp add: sock_inv_def new_socket_def newMsgListener_def sent_events_def)

lemma subseq_tl: "subseq (xs @ tl ys) (xs @ ys)"
proof -
  have "subseq (tl ys) ys" by (cases ys) auto
  from list_emb_append_mono [OF subseq_order.order_refl this] show ?thesis .
qed

lemma subseq_snoc: "subseq (xs @ ys) zs \<Longrightarrow> subseq (xs @ ys @ [e]) (zs @ [e])"
  using list_emb_append_mono [of "(=)" "xs @ ys" zs "[e]" "[e]"] by simp

lemma subseq_more: "subseq xs zs \<Longrightarrow> subseq xs (zs @ ws)"
  using list_emb_append_mono [of "(=)" xs zs "[]" ws] by simp

text \<open>\<open>Close\<close>, once one of the goroutines has ended.\<close>

lemma inv_Close:
  assumes "sock_inv mb evs s" and "\<not> (reader_on s \<and> writer_on s)"
  shows "sock_inv mb evs (ws_Close s)"
proof -
  have "subseq (sent_events s @ tl (ml_c (listener s))) (wanted_list wanted mb evs)"
    using assms(1) subseq_tl subseq_order.trans unfolding sock_inv_def by blast
  with assms show ?thesis by (auto simp: sock_inv_def ws_Close_def Let_def)
qed

lemma inv_step:
  assumes "socket_step hear s new s'" and "sock_inv mb evs s"
  shows "sock_inv mb (evs @ new) s'"
  using assms
proof (induction rule: socket_step.induct)
  case (hub_sends s ev ml)
  then show ?case
    by (auto simp: sock_inv_def hear_eq chan_send_def intro: subseq_snoc split: option.splits if_splits)
next
  case (hub_panics s ev)
  then show ?case
    by (auto simp: sock_inv_def hear_eq chan_send_def intro: subseq_more split: option.splits if_splits)
next
  case (hub_removes s)
  then show ?case by (auto simp: sock_inv_def)
next
  case (writer_event s ev q ok)
  let ?s = "s\<lparr>listener := (listener s)\<lparr>ml_c := q\<rparr>\<rparr>"
  show ?case
  proof (cases ok)
    case True
    with writer_event show ?thesis by (auto simp: sock_inv_def ws_write_def)
  next
    case False
    have "subseq (sent_events s @ q) (sent_events s @ ev # q)" using subseq_tl [of "sent_events s" "ev # q"] by simp
    with writer_event have "sock_inv mb evs (?s\<lparr>writer_on := False\<rparr>)"
      by (auto simp: sock_inv_def intro: subseq_order.trans)
    from inv_Close [OF this] False show ?thesis by (simp add: ws_write_def)
  qed
next
  case (writer_closed s)
  then have "sock_inv mb evs (s\<lparr>frames := frames s @ [FrameClose], writer_on := False\<rparr>)"
    by (auto simp: sock_inv_def)
  from inv_Close [OF this] show ?case by simp
next
  case (writer_ping s ok)
  show ?case
  proof (cases ok)
    case True
    with writer_ping show ?thesis by (auto simp: sock_inv_def ws_write_def)
  next
    case False
    from writer_ping have "sock_inv mb evs (s\<lparr>writer_on := False\<rparr>)" by (auto simp: sock_inv_def)
    from inv_Close [OF this] False show ?thesis by (simp add: ws_write_def)
  qed
next
  case (reader_ends s)
  then have "sock_inv mb evs (s\<lparr>reader_on := False\<rparr>)" by (auto simp: sock_inv_def)
  from inv_Close [OF this] show ?case by simp
qed

lemma inv_run:
  assumes "socket_run hear s evs s'" and "sock_inv mb old s"
  shows "sock_inv mb (old @ evs) s'"
  using assms by (induction rule: socket_run.induct) (auto dest: inv_step)

lemma run_trans: "socket_run hear s2 evs' s3 \<Longrightarrow> socket_run hear s1 evs s2 \<Longrightarrow> socket_run hear s1 (evs @ evs') s3"
proof (induction rule: socket_run.induct)
  case (run_on s evs' s' new s'')
  from socket_run.run_on [OF run_on.IH [OF run_on.prems] run_on.hyps(2)] show ?case by simp
qed simp

lemma send_many:
  assumes "registered s" and "\<not> ml_closed (listener s)" and "wanted (ml_mailbox (listener s)) ev = Some e"
  shows "length (ml_c (listener s)) + n \<le> 100 \<Longrightarrow>
    socket_run hear s (replicate n ev) (s\<lparr>listener := (listener s)\<lparr>ml_c := ml_c (listener s) @ replicate n e\<rparr>\<rparr>)"
proof (induction n)
  case 0
  then show ?case using run_here [of hear s] by simp
next
  case (Suc n)
  let ?s = "s\<lparr>listener := (listener s)\<lparr>ml_c := ml_c (listener s) @ replicate n e\<rparr>\<rparr>"
  have "hear ev (listener ?s) = Sent ((listener ?s)\<lparr>ml_c := ml_c (listener ?s) @ [e]\<rparr>)"
    using assms Suc.prems by (simp add: hear_eq chan_send_def)
  with hub_sends [of ?s hear ev "(listener ?s)\<lparr>ml_c := ml_c (listener ?s) @ [e]\<rparr>"] assms(1)
  have "socket_step hear ?s [ev] (s\<lparr>listener := (listener s)\<lparr>ml_c := ml_c (listener s) @ replicate (Suc n) e\<rparr>\<rparr>)"
    by (simp add: replicate_append_same)
  from socket_run.run_on [OF Suc.IH this] Suc.prems show ?case by (simp add: replicate_append_same)
qed

lemma wedged_step: "socket_step hear s new s' \<Longrightarrow> wedged s \<Longrightarrow> s' = s"
  by (induction rule: socket_step.induct)
    (auto simp: wedged_def hear_eq chan_send_def split: option.splits)

lemma wedged_run: "socket_run hear s evs s' \<Longrightarrow> wedged s \<Longrightarrow> s' = s"
  by (induction rule: socket_run.induct) (auto dest: wedged_step)

lemma wedge:
  assumes "wanted mb ev = Some e"
  shows "\<exists>s. socket_run hear (new_socket mb) (replicate 103 ev) s \<and> wedged s \<and> ml_mailbox (listener s) = mb"
proof -
  let ?new = "new_socket mb :: 'ev socket"
  let ?q = "\<lambda>n. ?new\<lparr>listener := (listener ?new)\<lparr>ml_c := replicate n e\<rparr>\<rparr>"
  let ?ended = "(?q 0)\<lparr>reader_on := False, writer_on := False\<rparr>"
  let ?full = "?ended\<lparr>listener := (listener ?new)\<lparr>ml_c := replicate 100 e\<rparr>\<rparr>"
  have n: "registered ?new" "ml_mailbox (listener ?new) = mb" "\<not> ml_closed (listener ?new)" "ml_c (listener ?new) = []"
    "reader_on ?new" "writer_on ?new" "\<not> removing ?new"
    by (simp_all add: new_socket_def newMsgListener_def)
  have r3: "socket_run hear ?new (replicate 3 ev) (?q 3)" using send_many [of ?new ev e 3] assms n by simp
  have "ws_Close ((?q 3)\<lparr>reader_on := False\<rparr>) = (?q 2)\<lparr>reader_on := False\<rparr>"
    by (simp add: ws_Close_def numeral_3_eq_3 numeral_2_eq_2)
  with reader_ends [of "?q 3" hear] n have "socket_step hear (?q 3) [] ((?q 2)\<lparr>reader_on := False\<rparr>)" by simp
  from socket_run.run_on [OF r3 this] have r2: "socket_run hear ?new (replicate 3 ev) ((?q 2)\<lparr>reader_on := False\<rparr>)" by simp
  have q2: "ml_c (listener ((?q 2)\<lparr>reader_on := False\<rparr>)) = e # [e]" by (simp add: numeral_2_eq_2)
  have "ws_write (FrameJSON e) False (((?q 2)\<lparr>reader_on := False\<rparr>)\<lparr>listener := (listener ((?q 2)\<lparr>reader_on := False\<rparr>))\<lparr>ml_c := [e]\<rparr>\<rparr>) = ?ended"
    by (simp add: ws_write_def ws_Close_def)
  with writer_event [OF _ q2, of hear False] n have "socket_step hear ((?q 2)\<lparr>reader_on := False\<rparr>) [] ?ended" by simp
  from socket_run.run_on [OF r2 this] have r0: "socket_run hear ?new (replicate 3 ev) ?ended" by simp
  have "socket_run hear ?ended (replicate 100 ev) ?full" using send_many [of ?ended ev e 100] assms n by simp
  from run_trans [OF this r0] have "socket_run hear ?new (replicate 103 ev) ?full" by (simp flip: replicate_add)
  moreover have "wedged ?full" using n by (simp add: wedged_def)
  ultimately show ?thesis using n(2) by (intro exI [of _ ?full]) simp
qed

end

lemma hearV1_eq: "hearV1 ev ml = (case wantedV1 (ml_mailbox ml) ev of None \<Rightarrow> Sent ml | Some e \<Rightarrow> chan_send e ml)"
  by (cases ev) (auto simp: hearV1_def wantedV1_def watched_def ReceiveV1_def DeleteV1_def)

lemma hearV2_eq: "hearV2 ev ml = (case wantedV2 (ml_mailbox ml) ev of None \<Rightarrow> Sent ml | Some e \<Rightarrow> chan_send e ml)"
  by (cases ev) (auto simp: hearV2_def wantedV2_def watched_def ReceiveV2_def DeleteV2_def)

interpretation v1: socket_kind hearV1 wantedV1
  by unfold_locales (rule hearV1_eq)

interpretation v2: socket_kind hearV2 wantedV2
  by unfold_locales (rule hearV2_eq)

text \<open>
  C28: a client that watches the mailbox of an address, or all mailboxes: whatever the order in which
  the hub, the reader and the writer of its web socket take their steps, what was written to the
  socket and what waits in its channel (never more than 100 events) are events the client asked
  for, in the hub's order; while neither goroutine has ended, they are all of them.
\<close>
theorem monitor_shows_events:
  assumes mb: "MailboxForAddress (ctxManager c) (Vars c ''name'') = Ok name"
    and new: "MonitorMailboxMessagesV1 c u = Ok n \<and> MonitorMailboxMessagesV2 c u = Ok n' \<and> mb = name
      \<or> MonitorAllMessagesV1 u = Ok n \<and> MonitorAllMessagesV2 u = Ok n' \<and> mb = []"
    and run: "socket_run hearV1 n evs s" "socket_run hearV2 n' evs' s'"
  shows "subseq (sent_events s @ ml_c (listener s)) (wanted_list wantedV1 mb evs) \<and> length (ml_c (listener s)) \<le> 100
    \<and> (reader_on s \<and> writer_on s \<longrightarrow> sent_events s @ ml_c (listener s) = wanted_list wantedV1 mb evs)
    \<and> subseq (sent_events s' @ ml_c (listener s')) (wanted_list wantedV2 mb evs') \<and> length (ml_c (listener s')) \<le> 100
    \<and> (reader_on s' \<and> writer_on s' \<longrightarrow> sent_events s' @ ml_c (listener s') = wanted_list wantedV2 mb evs')"
proof -
  have n: "n = new_socket mb" "n' = new_socket mb"
    using mb new by (auto simp: MonitorMailboxMessagesV1_def MonitorMailboxMessagesV2_def MonitorAllMessagesV1_def
        MonitorAllMessagesV2_def split: if_splits)
  show ?thesis
    using v1.inv_run [OF run(1) [unfolded n(1)] v1.inv_new] v2.inv_run [OF run(2) [unfolded n(2)] v2.inv_new]
    unfolding v1.sock_inv_def v2.sock_inv_def by simp
qed

definition example_event :: MessageMetadata where
  [go_eval]: "example_event = \<lparr>mdMailbox = ''bob'', mdID = ''1'', mdFrom = None, mdTo = [], mdDate = 0, mdSubject = [], mdSize = 4, mdSeen = False\<rparr>"

theorem monitor_shows_events_witness:
  "\<exists>s. socket_run hearV2 (new_socket ''bob'') (replicate 2 (Received example_event)) s
    \<and> length (sent_events s @ ml_c (listener s)) = 2"
proof -
  let ?n1 = "new_socket ''bob'' :: MessageMetadata socket" and ?n2 = "new_socket ''bob'' :: JSONMonitorEventV2 socket"
  let ?ev = "Received example_event"
  let ?e = "\<lparr>Variant = ''message-stored'', Identifier = None, Header = Some (metadataToHeader example_event)\<rparr>"
  let ?s1 = "?n1\<lparr>listener := (listener ?n1)\<lparr>ml_c := ml_c (listener ?n1) @ replicate 2 example_event\<rparr>\<rparr>"
  let ?s2 = "?n2\<lparr>listener := (listener ?n2)\<lparr>ml_c := ml_c (listener ?n2) @ replicate 2 ?e\<rparr>\<rparr>"
  have w: "wantedV1 ''bob'' ?ev = Some example_event" "wantedV2 ''bob'' ?ev = Some ?e"
    by (simp_all add: wantedV1_def wantedV2_def watched_def example_event_def)
  have r: "socket_run hearV1 ?n1 (replicate 2 ?ev) ?s1" "socket_run hearV2 ?n2 (replicate 2 ?ev) ?s2"
    by (rule v1.send_many v2.send_many; use w in \<open>simp add: new_socket_def newMsgListener_def\<close>)+
  let ?c = "example_context mem_ops ''bob'' []"
  have m: "MailboxForAddress (ctxManager ?c) (Vars ?c ''name'') = Ok ''bob''" by (simp add: go_eval)
  then have new: "MonitorMailboxMessagesV1 ?c True = Ok ?n1 \<and> MonitorMailboxMessagesV2 ?c True = Ok ?n2 \<and> ''bob'' = ''bob''
      \<or> MonitorAllMessagesV1 True = Ok ?n1 \<and> MonitorAllMessagesV2 True = Ok ?n2 \<and> ''bob'' = []"
    by (simp add: MonitorMailboxMessagesV1_def MonitorMailboxMessagesV2_def)
  have "reader_on ?s2 \<and> writer_on ?s2" by (simp add: new_socket_def)
  with monitor_shows_events [OF m new r] have "sent_events ?s2 @ ml_c (listener ?s2) = wanted_list wantedV2 ''bob'' (replicate 2 ?ev)" by blast
  moreover have "length (wanted_list wantedV2 ''bob'' (replicate 2 ?ev)) = 2" using w(2) by (simp add: wanted_list_def numeral_2_eq_2)
  ultimately show ?thesis using r(2) by metis
qed

text \<open>
  C27: a socket whose reader and writer end while events wait in the channel stays registered, as each
  \<open>Close\<close> takes an event for the sign of a closed channel. After 100 more events its channel is full:
  the hub blocks in \<open>Receive\<close>, and no step of the socket will ever make room.
\<close>
theorem monitor_wedges_hub:
  assumes "watched mb (mdMailbox m)"
  shows "\<exists>s. socket_run hearV2 (new_socket mb) (replicate 103 (Received m)) s
    \<and> hearV2 (Received m) (listener s) = Blocked \<and> (\<forall>evs s'. socket_run hearV2 s evs s' \<longrightarrow> s' = s)"
proof -
  let ?e = "\<lparr>Variant = ''message-stored'', Identifier = None, Header = Some (metadataToHeader m)\<rparr>"
  have w: "wantedV2 mb (Received m) = Some ?e" using assms by (simp add: wantedV2_def)
  from v2.wedge [OF this] obtain s where s: "socket_run hearV2 (new_socket mb) (replicate 103 (Received m)) s" "wedged s"
    "ml_mailbox (listener s) = mb" by blast
  have "hearV2 (Received m) (listener s) = Blocked"
    using s(2,3) w by (simp add: hearV2_eq chan_send_def wedged_def)
  with s v2.wedged_run show ?thesis by blast
qed

theorem monitor_wedges_hub_witness:
  "\<exists>s. socket_run hearV2 (new_socket []) (replicate 103 (Received example_event)) s
    \<and> hearV2 (Received example_event) (listener s) = Blocked"
  using monitor_wedges_hub [of "[]" example_event] by (auto simp: watched_def)

text \<open>A listener that is closed before the hub has removed it makes the hub's send panic.\<close>

lemma monitor_send_panics:
  "\<exists>s. socket_run hearV2 (new_socket []) [] s \<and> registered s \<and> hearV2 (Received m) (listener s) = SendPanic"
proof -
  let ?n = "new_socket [] :: JSONMonitorEventV2 socket"
  have "socket_step hearV2 ?n [] (ws_Close (?n\<lparr>reader_on := False\<rparr>))" by (rule reader_ends) (simp add: new_socket_def)
  from socket_run.run_on [OF run_here this] show ?thesis
    by (intro exI [of _ "ws_Close (?n\<lparr>reader_on := False\<rparr>)"])
      (simp add: go_eval)
qed

end
