(* ===== verification/Listener.thy ===== *)
theory Listener
  imports Prelude
begin

text \<open>
  \<open>pkg/server/smtp/listener.go\<close> and \<open>pkg/server/pop3/listener.go\<close>: how a server starts, accepts
  connections, reports a fatal error, and is drained. The state holds the local variables of
  \<open>serve\<close>, the listener, the channel \<open>notify\<close>, the wait group, and the goroutines of the sessions:
  those that were started by \<open>go\<close> and have not run yet, and those that run. A relation has one rule
  for each step of these goroutines, in any order. The two servers differ in where a session is
  added to the wait group: \<open>pop3\<close> does so before the \<open>go\<close>, \<open>smtp\<close> in the new goroutine.
\<close>

subsection \<open>The state\<close>

text \<open>What \<open>Accept\<close> returns: a connection, an error that is a timeout, another error.\<close>

datatype 'c accepted = Conn 'c | AcceptTimeout | AcceptError string

record 'c acceptor =
  sessionID :: int
  tempDelay :: int
  serving :: bool
  listening :: bool
  ctx_done :: bool
  ready :: bool
  slept :: "int list"
  notify :: "string list"
  notify_closed :: bool
  wg :: int
  spawned :: "(int \<times> 'c) list"
  running :: "(int \<times> 'c) list"

definition new_acceptor :: "'c acceptor" where
  [go_eval]: "new_acceptor =
     \<lparr>sessionID = 1, tempDelay = 0, serving = False, listening = False, ctx_done = False, ready = False, slept = [],
      notify = [], notify_closed = False, wg = 0, spawned = [], running = []\<rparr>"

subsection \<open>The operations\<close>

text \<open>A fatal error: it is sent to the channel, which is closed.\<close>

definition fail_with :: "string \<Rightarrow> 'c acceptor \<Rightarrow> 'c acceptor" where
  [go_eval]: "fail_with e s = s\<lparr>notify := notify s @ [e], notify_closed := True\<rparr>"

text \<open>\<open>Start\<close>, up to its wait for the shutdown: resolving the address and listening can fail.\<close>

definition server_Start :: "string option \<Rightarrow> string option \<Rightarrow> 'c acceptor \<Rightarrow> 'c acceptor" where
  [go_eval]: "server_Start resolve listen s =
     (case resolve of Some e \<Rightarrow> fail_with e s
      | None \<Rightarrow> (case listen of Some e \<Rightarrow> fail_with e s
                 | None \<Rightarrow> s\<lparr>listening := True, serving := True, ready := True\<rparr>))"

text \<open>The next delay, in nanoseconds.\<close>

definition next_delay :: "int \<Rightarrow> int" where
  [go_eval]: "next_delay d = (let d = (if d = 0 then 5 * 1000000 else d * 2) in if d > 1000000000 then 1000000000 else d)"

definition retry :: "'c acceptor \<Rightarrow> 'c acceptor" where
  [go_eval]: "retry s = s\<lparr>tempDelay := next_delay (tempDelay s), slept := slept s @ [next_delay (tempDelay s)], sessionID := sessionID s + 1\<rparr>"

definition stop_serving :: "string \<Rightarrow> 'c acceptor \<Rightarrow> 'c acceptor" where
  [go_eval]: "stop_serving e s = (if ctx_done s then s else fail_with e s)\<lparr>serving := False\<rparr>"

text \<open>One round of \<open>serve\<close>.\<close>

definition smtp_serve :: "'c accepted \<Rightarrow> 'c acceptor \<Rightarrow> 'c acceptor" where
  [go_eval]: "smtp_serve a s =
     (case a of AcceptTimeout \<Rightarrow> retry s
      | AcceptError e \<Rightarrow> stop_serving e s
      | Conn c \<Rightarrow> s\<lparr>tempDelay := 0, spawned := spawned s @ [(sessionID s, c)], sessionID := sessionID s + 1\<rparr>)"

definition pop_serve :: "'c accepted \<Rightarrow> 'c acceptor \<Rightarrow> 'c acceptor" where
  [go_eval]: "pop_serve a s =
     (case a of AcceptTimeout \<Rightarrow> retry s
      | AcceptError e \<Rightarrow> stop_serving e s
      | Conn c \<Rightarrow> s\<lparr>tempDelay := 0, wg := wg s + 1, spawned := spawned s @ [(sessionID s, c)], sessionID := sessionID s + 1\<rparr>)"

text \<open>What \<open>startSession\<close> does first, and what it defers to its end.\<close>

definition smtp_begin :: "int \<times> 'c \<Rightarrow> 'c acceptor \<Rightarrow> 'c acceptor" where
  [go_eval]: "smtp_begin x s = s\<lparr>spawned := remove1 x (spawned s), running := running s @ [x], wg := wg s + 1\<rparr>"

definition pop_begin :: "int \<times> 'c \<Rightarrow> 'c acceptor \<Rightarrow> 'c acceptor" where
  [go_eval]: "pop_begin x s = s\<lparr>spawned := remove1 x (spawned s), running := running s @ [x]\<rparr>"

definition session_end :: "int \<times> 'c \<Rightarrow> 'c acceptor \<Rightarrow> 'c acceptor" where
  [go_eval]: "session_end x s = s\<lparr>running := remove1 x (running s), wg := wg s - 1\<rparr>"

text \<open>\<open>Drain\<close> returns when the counter of the wait group is zero.\<close>

definition Drain :: "'c acceptor \<Rightarrow> bool" where
  [go_eval]: "Drain s \<longleftrightarrow> wg s = 0"

text \<open>
  The steps. \<open>Start\<close> can be called with a context that is done already. A listener that is closed only has errors for \<open>Accept\<close>; the context is cancelled from
  outside, upon which \<open>Start\<close> closes the listener.
\<close>

inductive server_step :: "('c accepted \<Rightarrow> 'c acceptor \<Rightarrow> 'c acceptor) \<Rightarrow> (int \<times> 'c \<Rightarrow> 'c acceptor \<Rightarrow> 'c acceptor)
    \<Rightarrow> 'c acceptor \<Rightarrow> 'c acceptor \<Rightarrow> bool"
  for serve start where
  accepts: "serving s \<Longrightarrow> listening s \<or> (\<exists>e. a = AcceptError e) \<Longrightarrow> server_step serve start s (serve a s)"
| begins: "x \<in> set (spawned s) \<Longrightarrow> server_step serve start s (start x s)"
| ends: "x \<in> set (running s) \<Longrightarrow> server_step serve start s (session_end x s)"
| cancels: "server_step serve start s (s\<lparr>ctx_done := True\<rparr>)"
| closes: "ctx_done s \<Longrightarrow> server_step serve start s (s\<lparr>listening := False\<rparr>)"

inductive server_reach :: "('c accepted \<Rightarrow> 'c acceptor \<Rightarrow> 'c acceptor) \<Rightarrow> (int \<times> 'c \<Rightarrow> 'c acceptor \<Rightarrow> 'c acceptor)
    \<Rightarrow> 'c acceptor \<Rightarrow> bool"
  for serve start where
  started: "server_reach serve start (server_Start resolve listen (new_acceptor\<lparr>ctx_done := b\<rparr>))"
| further: "server_reach serve start s \<Longrightarrow> server_step serve start s s' \<Longrightarrow> server_reach serve start s'"

subsection \<open>The delays\<close>

definition backoff :: "nat \<Rightarrow> int" where
  [go_eval]: "backoff k = min (5000000 * 2 ^ k) 1000000000"

lemma next_delay_backoff: "next_delay (backoff k) = backoff (Suc k)"
  by (auto simp: next_delay_def backoff_def Let_def min_def)

lemma retries:
  "0 < n \<Longrightarrow> tempDelay s = 0 \<Longrightarrow>
    slept ((retry ^^ n) s) = slept s @ map backoff [0..<n] \<and> tempDelay ((retry ^^ n) s) = backoff (n - 1)"
proof (induction n)
  case (Suc n)
  then show ?case
    by (cases n) (auto simp: retry_def next_delay_backoff, auto simp: next_delay_def backoff_def)
qed simp

lemma fold_timeouts:
  assumes "\<And>s. serve AcceptTimeout s = retry s" and "tempDelay s = 0"
  shows "slept (fold serve (replicate n AcceptTimeout) s) = slept s @ map backoff [0..<n]"
proof -
  have "fold serve (replicate n AcceptTimeout) s = (retry ^^ n) s" for s
    using assms(1) by (induction n arbitrary: s) (simp_all add: funpow_swap1)
  with retries [of n s] assms(2) show ?thesis by (cases n) simp_all
qed

text \<open>
  After a connection, the servers sleep 5 ms, 10 ms, 20 ms and so on, never longer than a
  second, for as many timeouts as come in a row.
\<close>
theorem accept_backoff:
  "slept (fold smtp_serve (Conn c # replicate n AcceptTimeout) s) = slept s @ map (\<lambda>k. min (5000000 * 2 ^ k) 1000000000) [0..<n]
    \<and> slept (fold pop_serve (Conn c # replicate n AcceptTimeout) s) = slept s @ map (\<lambda>k. min (5000000 * 2 ^ k) 1000000000) [0..<n]"
proof -
  let ?s = "smtp_serve (Conn c) s" and ?p = "pop_serve (Conn c) s"
  have "tempDelay ?s = 0" "slept ?s = slept s" "tempDelay ?p = 0" "slept ?p = slept s"
    by (simp_all add: smtp_serve_def pop_serve_def)
  with fold_timeouts [of smtp_serve ?s n] fold_timeouts [of pop_serve ?p n] show ?thesis
    unfolding fold_simps(2) by (simp add: smtp_serve_def pop_serve_def backoff_def)
qed

subsection \<open>The sessions\<close>

text \<open>The numbers of the sessions are distinct and below the next one.\<close>

definition numbered :: "(int \<times> 'c) list \<Rightarrow> (int \<times> 'c) list \<Rightarrow> int \<Rightarrow> bool" where
  [go_eval]: "numbered sp ru n \<longleftrightarrow> distinct (map fst sp @ map fst ru) \<and> list_all (\<lambda>i. i < n) (map fst sp @ map fst ru)"

lemma below_next: "list_all (\<lambda>i :: int. i < n) xs \<Longrightarrow> list_all (\<lambda>i. i < n + 1) xs"
  by (induction xs) auto

lemma numbered_skip: "numbered sp ru n \<Longrightarrow> numbered sp ru (n + 1)"
  unfolding numbered_def using below_next by blast

lemma numbered_add:
  assumes "numbered sp ru n"
  shows "numbered (sp @ [(n, c)]) ru (n + 1)"
proof -
  have "n \<notin> set (map fst sp @ map fst ru)" using assms by (auto simp: numbered_def list_all_iff)
  moreover have "list_all (\<lambda>i. i < n + 1) (map fst sp @ map fst ru)"
    using assms below_next unfolding numbered_def by blast
  ultimately show ?thesis using assms by (auto simp: numbered_def)
qed

lemma numbered_move: "numbered sp ru n \<Longrightarrow> x \<in> set sp \<Longrightarrow> numbered (remove1 x sp) (ru @ [x]) n"
  by (erule remove1_split) (auto simp: numbered_def)

lemma numbered_end: "numbered sp ru n \<Longrightarrow> x \<in> set ru \<Longrightarrow> numbered sp (remove1 x ru) n"
  by (erule remove1_split) (auto simp: numbered_def)

lemma length_move: "x \<in> set xs \<Longrightarrow> int (length (remove1 x xs)) = int (length xs) - 1"
  by (erule remove1_split) simp

text \<open>The steps other than the cancellation, which comes from outside.\<close>

definition own_step :: "('c accepted \<Rightarrow> 'c acceptor \<Rightarrow> 'c acceptor) \<Rightarrow> (int \<times> 'c \<Rightarrow> 'c acceptor \<Rightarrow> 'c acceptor)
    \<Rightarrow> 'c acceptor \<Rightarrow> 'c acceptor \<Rightarrow> bool" where
  "own_step serve start s s' \<longleftrightarrow> server_step serve start s s' \<and> ctx_done s' = ctx_done s"

text \<open>
  What the two servers have in common: they are the same up to the number \<open>early\<close> that is added to the
  wait group before the goroutine of a session runs.
\<close>

locale session_server =
  fixes serve :: "'c accepted \<Rightarrow> 'c acceptor \<Rightarrow> 'c acceptor" and start :: "int \<times> 'c \<Rightarrow> 'c acceptor \<Rightarrow> 'c acceptor"
    and early :: int
  assumes serve_timeout: "serve AcceptTimeout s = retry s"
    and serve_error: "serve (AcceptError e) s = stop_serving e s"
    and serve_conn: "serve (Conn c) s
      = s\<lparr>tempDelay := 0, wg := wg s + early, spawned := spawned s @ [(sessionID s, c)], sessionID := sessionID s + 1\<rparr>"
    and start_session: "start x s = s\<lparr>spawned := remove1 x (spawned s), running := running s @ [x], wg := wg s + (1 - early)\<rparr>"
begin

definition sessions_inv :: "'c acceptor \<Rightarrow> bool" where
  "sessions_inv s \<longleftrightarrow> wg s = early * int (length (spawned s)) + int (length (running s))
    \<and> numbered (spawned s) (running s) (sessionID s)"

definition errors_inv :: "'c acceptor \<Rightarrow> bool" where
  "errors_inv s \<longleftrightarrow> length (notify s) \<le> 1 \<and> (notify_closed s \<longleftrightarrow> notify s \<noteq> []) \<and> (serving s \<longrightarrow> ready s \<and> notify s = [])
    \<and> (\<not> serving s \<and> notify s = [] \<longrightarrow> ready s \<and> ctx_done s) \<and> (ready s \<and> \<not> listening s \<longrightarrow> ctx_done s)"

lemma inv_start:
  "sessions_inv (server_Start resolve listen (new_acceptor\<lparr>ctx_done := b\<rparr>))
    \<and> errors_inv (server_Start resolve listen (new_acceptor\<lparr>ctx_done := b\<rparr>))"
  by (auto simp: sessions_inv_def errors_inv_def numbered_def server_Start_def fail_with_def new_acceptor_def split: option.splits)

lemma sessions_serve: "sessions_inv s \<Longrightarrow> sessions_inv (serve a s)"
  by (cases a) (auto simp: sessions_inv_def serve_timeout serve_error serve_conn retry_def stop_serving_def
      fail_with_def distrib_left numbered_skip numbered_add)

lemma errors_serve: "errors_inv s \<Longrightarrow> serving s \<Longrightarrow> errors_inv (serve a s)"
  by (cases a) (auto simp: errors_inv_def serve_timeout serve_error serve_conn retry_def stop_serving_def fail_with_def)

lemma sessions_step: "server_step serve start s s' \<Longrightarrow> sessions_inv s \<Longrightarrow> sessions_inv s'"
proof (induction rule: server_step.induct)
  case (begins x s)
  then show ?case by (simp add: sessions_inv_def start_session numbered_move length_move algebra_simps)
next
  case (ends x s)
  then show ?case by (simp add: sessions_inv_def session_end_def numbered_end length_move)
qed (simp_all add: sessions_serve, simp_all add: sessions_inv_def)

lemma errors_step: "server_step serve start s s' \<Longrightarrow> errors_inv s \<Longrightarrow> errors_inv s'"
  by (induction rule: server_step.induct)
    (simp_all add: errors_serve, simp_all add: errors_inv_def start_session session_end_def)

lemma inv_reach: "server_reach serve start s \<Longrightarrow> sessions_inv s \<and> errors_inv s"
  by (induction rule: server_reach.induct) (auto intro: inv_start [THEN conjunct1] inv_start [THEN conjunct2] sessions_step errors_step)

text \<open>Once the context is done and the listener closed, one more \<open>Accept\<close> ends \<open>serve\<close> without an error.\<close>

lemma shutdown: "ctx_done s \<Longrightarrow> serve (AcceptError e) s = s\<lparr>serving := False\<rparr>"
  by (simp add: serve_error stop_serving_def)

text \<open>
  Then the server winds down by steps of its own, none of which cancels: the listener is closed,
  \<open>serve\<close> returns, and every session runs to its end.
\<close>

lemma sessions_finish:
  "sessions_inv s \<Longrightarrow> \<exists>s'. (own_step serve start)\<^sup>*\<^sup>* s s' \<and> spawned s' = [] \<and> running s' = [] \<and> wg s' = 0
    \<and> serving s' = serving s \<and> notify s' = notify s \<and> ctx_done s' = ctx_done s"
proof (induction "2 * length (spawned s) + length (running s)" arbitrary: s rule: less_induct)
  case less
  consider (run) x xs where "running s = x # xs" | (spawn) x xs where "running s = []" "spawned s = x # xs"
    | (finished) "running s = []" "spawned s = []"
    by (cases "running s"; cases "spawned s") auto
  then show ?case
  proof cases
    case run
    let ?t = "session_end x s"
    have st: "own_step serve start s ?t" unfolding own_step_def using run ends [of x s serve start] by (simp add: session_end_def)
    have "server_step serve start s ?t" using st by (simp add: own_step_def)
    note inv = sessions_step [OF this less.prems]
    have "2 * length (spawned ?t) + length (running ?t) < 2 * length (spawned s) + length (running s)"
      using run by (simp add: session_end_def)
    from less.hyps [OF this inv] obtain s' where "(own_step serve start)\<^sup>*\<^sup>* ?t s'" "spawned s' = [] \<and> running s' = [] \<and> wg s' = 0"
      "serving s' = serving ?t \<and> notify s' = notify ?t \<and> ctx_done s' = ctx_done ?t" by blast
    with converse_rtranclp_into_rtranclp [of "own_step serve start", OF st] show ?thesis by (auto simp: session_end_def)
  next
    case spawn
    let ?t = "start x s"
    have st: "own_step serve start s ?t" unfolding own_step_def using spawn begins [of x s serve start] by (simp add: start_session)
    have "server_step serve start s ?t" using st by (simp add: own_step_def)
    note inv = sessions_step [OF this less.prems]
    have "2 * length (spawned ?t) + length (running ?t) < 2 * length (spawned s) + length (running s)"
      using spawn by (simp add: start_session)
    from less.hyps [OF this inv] obtain s' where "(own_step serve start)\<^sup>*\<^sup>* ?t s'" "spawned s' = [] \<and> running s' = [] \<and> wg s' = 0"
      "serving s' = serving ?t \<and> notify s' = notify ?t \<and> ctx_done s' = ctx_done ?t" by blast
    with converse_rtranclp_into_rtranclp [of "own_step serve start", OF st] show ?thesis by (auto simp: start_session)
  next
    case finished
    with less.prems show ?thesis by (auto simp: sessions_inv_def)
  qed
qed

lemma winds_down:
  assumes "server_reach serve start s" and "ctx_done s"
  shows "\<exists>s'. (own_step serve start)\<^sup>*\<^sup>* s s' \<and> \<not> serving s' \<and> spawned s' = [] \<and> running s' = [] \<and> wg s' = 0 \<and> notify s' = notify s"
proof -
  have "\<exists>t. (own_step serve start)\<^sup>*\<^sup>* s t \<and> \<not> serving t \<and> sessions_inv t \<and> notify t = notify s"
  proof (cases "serving s")
    case True
    let ?t = "serve (AcceptError []) s"
    have st: "own_step serve start s ?t"
      unfolding own_step_def using True accepts [of s "AcceptError []" serve start] by (simp add: serve_error stop_serving_def fail_with_def)
    have "sessions_inv ?t" using sessions_serve inv_reach [OF assms(1)] by blast
    with st shutdown [OF assms(2), of "[]"] show ?thesis by (intro exI [of _ ?t]) auto
  next
    case False
    with inv_reach [OF assms(1)] show ?thesis by blast
  qed
  then obtain t where t: "(own_step serve start)\<^sup>*\<^sup>* s t" "\<not> serving t" "sessions_inv t" "notify t = notify s" by blast
  from sessions_finish [OF t(3)] t show ?thesis by (metis rtranclp_trans)
qed

end

interpretation smtp: session_server smtp_serve smtp_begin 0
  by unfold_locales (simp_all add: smtp_serve_def smtp_begin_def)

interpretation pop: session_server pop_serve pop_begin 1
  by unfold_locales (simp_all add: pop_serve_def pop_begin_def)

text \<open>
  At most one error is reported by a server, upon which it serves no more, and its channel is
  closed exactly then. A server that serves no more and has not reported an error was told to stop.
  The sessions that were begun and are not over have different numbers.
\<close>
theorem server_reports_failure:
  assumes "server_reach smtp_serve smtp_begin s" and "server_reach pop_serve pop_begin p"
  shows "length (notify s) \<le> 1 \<and> (notify_closed s \<longleftrightarrow> notify s \<noteq> []) \<and> (serving s \<longrightarrow> notify s = [])
    \<and> (\<not> serving s \<and> notify s = [] \<longrightarrow> ctx_done s) \<and> distinct (map fst (spawned s @ running s))
    \<and> length (notify p) \<le> 1 \<and> (notify_closed p \<longleftrightarrow> notify p \<noteq> []) \<and> (serving p \<longrightarrow> notify p = [])
    \<and> (\<not> serving p \<and> notify p = [] \<longrightarrow> ctx_done p) \<and> distinct (map fst (spawned p @ running p))"
  using smtp.inv_reach [OF assms(1)] pop.inv_reach [OF assms(2)]
  by (simp add: smtp.sessions_inv_def smtp.errors_inv_def pop.sessions_inv_def pop.errors_inv_def numbered_def)

text \<open>A connection is accepted, and then the server is told to stop.\<close>

definition one_accepted :: "(nat accepted \<Rightarrow> nat acceptor \<Rightarrow> nat acceptor) \<Rightarrow> nat acceptor" where
  [go_eval]: "one_accepted serve =
     serve (AcceptError ''closed'') ((serve (Conn 7) (server_Start None None new_acceptor))\<lparr>ctx_done := True, listening := False\<rparr>)"

lemma reach_one_accepted:
  assumes "\<And>s :: nat acceptor. serving (serve (Conn 7) s) = serving s"
  shows "server_reach serve start (one_accepted serve)"
proof -
  let ?s = "server_Start None None new_acceptor :: nat acceptor"
  have 1: "server_reach serve start ?s"
    using started [of serve start None None False] by (simp add: new_acceptor_def)
  have 2: "serving ?s" "listening ?s" by (simp_all add: server_Start_def)
  then have 3: "server_reach serve start (serve (Conn 7) ?s)" by (intro further [OF 1] accepts) simp_all
  have 4: "server_reach serve start ((serve (Conn 7) ?s)\<lparr>ctx_done := True\<rparr>)" by (rule further [OF 3 cancels])
  have "server_reach serve start ((serve (Conn 7) ?s)\<lparr>ctx_done := True, listening := False\<rparr>)"
    using further [OF 4 closes] by simp
  then show ?thesis unfolding one_accepted_def by (rule further) (rule accepts, simp_all add: assms 2)
qed

theorem server_reports_failure_witness:
  "spawned (one_accepted smtp_serve) = [(1, 7)] \<and> \<not> serving (one_accepted smtp_serve)
    \<and> notify (one_accepted smtp_serve) = [] \<and> ctx_done (one_accepted smtp_serve)"
proof -
  have r: "server_reach smtp_serve smtp_begin (one_accepted smtp_serve)" "server_reach pop_serve pop_begin (one_accepted pop_serve)"
    by (rule reach_one_accepted, simp add: smtp_serve_def pop_serve_def)+
  from server_reports_failure [OF this] show ?thesis by (simp add: go_eval)
qed

text \<open>
  When \<open>Drain\<close> returns after the POP3 server has stopped to serve, every connection it accepted has
  been served to its end. For the SMTP server this is not so: a session whose goroutine has not run
  yet is not counted.
\<close>
theorem drain_waits:
  assumes "server_reach pop_serve pop_begin p" and "Drain p"
  shows "spawned p = [] \<and> running p = []
    \<and> (\<exists>s :: nat acceptor. server_reach smtp_serve smtp_begin s \<and> \<not> serving s \<and> Drain s \<and> spawned s = [(1, 7)])"
proof -
  have "int (length (spawned p)) + int (length (running p)) = 0"
    using pop.inv_reach [OF assms(1)] assms(2) by (simp add: pop.sessions_inv_def Drain_def)
  then have "length (spawned p) = 0" "length (running p) = 0" by linarith+
  moreover have "server_reach smtp_serve smtp_begin (one_accepted smtp_serve)"
    by (rule reach_one_accepted) (simp add: smtp_serve_def)
  moreover have "\<not> serving (one_accepted smtp_serve) \<and> Drain (one_accepted smtp_serve) \<and> spawned (one_accepted smtp_serve) = [(1, 7)]"
    by (simp add: go_eval)
  ultimately show ?thesis by auto
qed

theorem drain_waits_witness:
  "\<exists>p :: nat acceptor. server_reach pop_serve pop_begin p \<and> sessionID p = 2 \<and> running p = []"
proof -
  let ?p = "session_end (1, 7) (pop_begin (1, 7) (one_accepted pop_serve))"
  have 1: "server_reach pop_serve pop_begin (one_accepted pop_serve)"
    by (rule reach_one_accepted) (simp add: pop_serve_def)
  have 2: "server_reach pop_serve pop_begin (pop_begin (1, 7) (one_accepted pop_serve))"
    by (rule further [OF 1 begins]) (simp add: go_eval)
  have 3: "server_reach pop_serve pop_begin ?p" by (rule further [OF 2 ends]) (simp add: go_eval)
  have "Drain ?p" "sessionID ?p = 2" by (simp_all add: go_eval)
  with drain_waits [OF 3] 3 show ?thesis by blast
qed

end
