(* ===== verification/Client.thy ===== *)
theory Client
  imports Rest
begin

text \<open>
  \<open>pkg/rest/client\<close>: the client of the REST API, \<open>pkg/rest/routes.go\<close>: the routes of the server, and
  \<open>cmd/client\<close>: the commands. The interface \<open>httpClient\<close> is a field of the client record: a function
  from a request and the state of the world to a response. What is used of \<open>net/url\<close> and \<open>path\<close> is
  defined here; \<open>url.Parse\<close>, Gorilla's matching of path templates and the text of a JSON document are
  parameters. Making a request from a URL is taken not to fail.
\<close>

subsection \<open>\<open>net/url\<close>\<close>

definition upper_hex :: "nat \<Rightarrow> char" where
  [go_eval]: "upper_hex n = (if n < 10 then char_of (48 + n) else char_of (55 + n))"

definition hex_value :: "char \<Rightarrow> nat" where
  [go_eval]: "hex_value c =
     (let n = code c in if is_digit c then n - 48 else if is_lower c then n - 87 else n - 55)"

text \<open>The bytes that a query component keeps.\<close>

definition unreserved :: "char \<Rightarrow> bool" where
  [go_eval]: "unreserved c \<longleftrightarrow> is_letter c \<or> is_digit c \<or> c \<in> {CHR ''-'', CHR ''_'', CHR ''.'', CHR ''~''}"

definition escape_byte :: "char \<Rightarrow> string" where
  [go_eval]: "escape_byte c =
     (if unreserved c then [c] else if c = CHR '' '' then ''+''
      else [CHR ''%'', upper_hex (code c div 16), upper_hex (code c mod 16)])"

definition QueryEscape :: "string \<Rightarrow> string" where
  [go_eval]: "QueryEscape s = concat (map escape_byte s)"

text \<open>Reading an escaped path; \<open>None\<close> for a malformed escape. A plus sign stands for itself.\<close>

fun PathUnescape :: "string \<Rightarrow> string option" where
  "PathUnescape [] = Some []"
| "PathUnescape (c # s) =
     (if c = CHR ''%'' then
        (case s of
           a # b # s' \<Rightarrow> if is_hexdigit a \<and> is_hexdigit b
             then map_option ((#) (char_of (16 * hex_value a + hex_value b))) (PathUnescape s') else None
         | _ \<Rightarrow> None)
      else map_option ((#) c) (PathUnescape s))"

text \<open>\<open>path.Clean\<close> on the segments of a rooted path, and \<open>URL.JoinPath\<close>.\<close>

fun clean_segments :: "string list \<Rightarrow> string list \<Rightarrow> string list" where
  "clean_segments st [] = rev st"
| "clean_segments st (w # ws) =
     clean_segments (if w = [] \<or> w = ''.'' then st else if w = ''..'' then tl st else w # st) ws"

definition JoinPath :: "string \<Rightarrow> string \<Rightarrow> string" where
  [go_eval]: "JoinPath base uri =
     (let p = CHR ''/'' # Join (clean_segments [] (Split base (CHR ''/'') @ Split uri (CHR ''/''))) ''/''
      in if uri \<noteq> [] \<and> last uri = CHR ''/'' \<and> last p \<noteq> CHR ''/'' then p @ ''/'' else p)"

subsection \<open>The client\<close>

record http_request =
  rqMethod :: string
  rqPath :: string
  rqBody :: "string option"

record http_response =
  StatusCode :: int
  rsBody :: content

record 'w restClient =
  client_Do :: "http_request \<Rightarrow> 'w \<Rightarrow> (string, http_response) result \<times> 'w"
  basePath :: string

datatype client_error = TransportError string | UnexpectedStatus int | DecodeError

definition client_do :: "'w restClient \<Rightarrow> string \<Rightarrow> string \<Rightarrow> string option \<Rightarrow> 'w \<Rightarrow> (client_error, http_response) result \<times> 'w" where
  [go_eval]: "client_do c meth uri body w =
     (case client_Do c \<lparr>rqMethod = meth, rqPath = JoinPath (basePath c) uri, rqBody = body\<rparr> w of
        (Inl e, w) \<Rightarrow> (Err (TransportError e), w)
      | (Inr resp, w) \<Rightarrow> (Ok resp, w))"

text \<open>\<open>doJSON\<close>: \<open>v\<close> decodes the body; for \<open>nil\<close> it is a constant function.\<close>

definition doJSON :: "'w restClient \<Rightarrow> string \<Rightarrow> string \<Rightarrow> (content \<Rightarrow> 'a option) \<Rightarrow> 'w \<Rightarrow> (client_error, 'a) result \<times> 'w" where
  [go_eval]: "doJSON c meth uri v w =
     (case client_do c meth uri None w of
        (Inl e, w) \<Rightarrow> (Err e, w)
      | (Inr resp, w) \<Rightarrow>
          (if StatusCode resp = 200 then (case v (rsBody resp) of None \<Rightarrow> Err DecodeError | Some x \<Rightarrow> Ok x)
           else Err (UnexpectedStatus (StatusCode resp)), w))"

definition mailbox_uri :: "string \<Rightarrow> string" where
  [go_eval]: "mailbox_uri name = ''/api/v1/mailbox/'' @ QueryEscape name"

definition message_uri :: "string \<Rightarrow> string \<Rightarrow> string" where
  [go_eval]: "message_uri name i = mailbox_uri name @ ''/'' @ i"

definition decode_headers :: "content \<Rightarrow> JSONMessageHeaderV1 list option" where
  [go_eval]: "decode_headers b = (case b of JSON (JHeaders hs) \<Rightarrow> Some hs | _ \<Rightarrow> None)"

definition decode_message :: "content \<Rightarrow> JSONMessageV1 option" where
  [go_eval]: "decode_message b = (case b of JSON (JMessage m) \<Rightarrow> Some m | _ \<Rightarrow> None)"

definition client_ListMailbox :: "'w restClient \<Rightarrow> string \<Rightarrow> 'w \<Rightarrow> (client_error, JSONMessageHeaderV1 list) result \<times> 'w" where
  [go_eval]: "client_ListMailbox c name = doJSON c ''GET'' (mailbox_uri name) decode_headers"

definition client_GetMessage :: "'w restClient \<Rightarrow> string \<Rightarrow> string \<Rightarrow> 'w \<Rightarrow> (client_error, JSONMessageV1) result \<times> 'w" where
  [go_eval]: "client_GetMessage c name i = doJSON c ''GET'' (message_uri name i) decode_message"

definition client_MarkSeen :: "'w restClient \<Rightarrow> string \<Rightarrow> string \<Rightarrow> 'w \<Rightarrow> (client_error, unit) result \<times> 'w" where
  [go_eval]: "client_MarkSeen c name i = doJSON c ''PATCH'' (message_uri name i) (\<lambda>b. Some ())"

text \<open>The other three look at the status themselves.\<close>

definition expect_ok :: "(http_response \<Rightarrow> 'a) \<Rightarrow> (client_error, http_response) result \<times> 'w \<Rightarrow> (client_error, 'a) result \<times> 'w" where
  [go_eval]: "expect_ok f r =
     (case r of
        (Inl e, w) \<Rightarrow> (Err e, w)
      | (Inr resp, w) \<Rightarrow> (if StatusCode resp \<noteq> 200 then Err (UnexpectedStatus (StatusCode resp)) else Ok (f resp), w))"

definition client_GetMessageSource :: "(json \<Rightarrow> string) \<Rightarrow> 'w restClient \<Rightarrow> string \<Rightarrow> string \<Rightarrow> 'w \<Rightarrow> (client_error, string) result \<times> 'w" where
  [go_eval]: "client_GetMessageSource json_text c name i w =
     expect_ok (\<lambda>resp. case rsBody resp of JSON j \<Rightarrow> json_text j | Data t s \<Rightarrow> s)
       (client_do c ''GET'' (message_uri name i @ ''/source'') None w)"

definition client_DeleteMessage :: "'w restClient \<Rightarrow> string \<Rightarrow> string \<Rightarrow> 'w \<Rightarrow> (client_error, unit) result \<times> 'w" where
  [go_eval]: "client_DeleteMessage c name i w = expect_ok (\<lambda>resp. ()) (client_do c ''DELETE'' (message_uri name i) None w)"

definition client_PurgeMailbox :: "'w restClient \<Rightarrow> string \<Rightarrow> 'w \<Rightarrow> (client_error, unit) result \<times> 'w" where
  [go_eval]: "client_PurgeMailbox c name w = expect_ok (\<lambda>resp. ()) (client_do c ''DELETE'' (mailbox_uri name) None w)"

end
