(* ===== verification/Routes.thy ===== *)
theory Routes
  imports Client Monitor
begin

text \<open>
  \<open>pkg/rest/routes.go\<close>: the routes of the REST API in their order, and a server for the client of
  \<open>Client\<close> that answers a request by the handler of its route. Whether a path matches a template, and
  with which variables, is decided by Gorilla's \<open>mux\<close>: the parameter \<open>api_mux\<close>; what is used of it is
  the documented behaviour, \<open>mux_documented\<close>.
\<close>

datatype handler =
    HList | HPurge | HShow | HMarkSeen | HDelete | HSource
  | HMonitorAllV1 | HMonitorMailboxV1 | HMonitorAllV2 | HMonitorMailboxV2

definition SetupRoutes :: "(string \<times> handler \<times> string) list" where
  [go_eval]: "SetupRoutes =
     [(''/v1/mailbox/{name}'', HList, ''GET''),
      (''/v1/mailbox/{name}'', HPurge, ''DELETE''),
      (''/v1/mailbox/{name}/{id}'', HShow, ''GET''),
      (''/v1/mailbox/{name}/{id}'', HMarkSeen, ''PATCH''),
      (''/v1/mailbox/{name}/{id}'', HDelete, ''DELETE''),
      (''/v1/mailbox/{name}/{id}/source'', HSource, ''GET''),
      (''/v1/monitor/messages'', HMonitorAllV1, ''GET''),
      (''/v1/monitor/messages/{name}'', HMonitorMailboxV1, ''GET''),
      (''/v2/monitor/messages'', HMonitorAllV2, ''GET''),
      (''/v2/monitor/messages/{name}'', HMonitorMailboxV2, ''GET'')]"

record ('hdr, 'env, 'st) api =
  api_ctx :: "('hdr, 'env, 'st) Context"
  api_mux :: "string \<Rightarrow> string \<Rightarrow> (string \<Rightarrow> string) option"
  api_md5 :: "string \<Rightarrow> string"
  api_host :: string
  api_decode :: "string \<Rightarrow> bool option"

text \<open>
  The handler of a route. A request without a body has none for the JSON decoder either, which then
  fails; a request that is not a web socket cannot be upgraded to one.
\<close>

definition run_handler :: "('hdr, 'env, 'st) api \<Rightarrow> handler \<Rightarrow> (string \<Rightarrow> string) \<Rightarrow> string option \<Rightarrow> 'st \<Rightarrow> http_reply \<times> 'st" where
  [go_eval]: "run_handler a h vars req_body st =
     (let ctx = (api_ctx a)\<lparr>Vars := vars\<rparr> in
      case h of
        HList \<Rightarrow> MailboxListV1 ctx st
      | HPurge \<Rightarrow> MailboxPurgeV1 ctx st
      | HShow \<Rightarrow> MailboxShowV1 (api_md5 a) (api_host a) ctx st
      | HMarkSeen \<Rightarrow> MailboxMarkSeenV1 (Option.bind req_body (api_decode a)) ctx st
      | HDelete \<Rightarrow> MailboxDeleteV1 ctx st
      | HSource \<Rightarrow> MailboxSourceV1 ctx st
      | HMonitorAllV1 \<Rightarrow> (Failed UpgradeFailed, st)
      | HMonitorMailboxV1 \<Rightarrow> (case MonitorMailboxMessagesV1 ctx False of Inl e \<Rightarrow> Failed e | Inr s \<Rightarrow> Panicked, st)
      | HMonitorAllV2 \<Rightarrow> (Failed UpgradeFailed, st)
      | HMonitorMailboxV2 \<Rightarrow> (case MonitorMailboxMessagesV2 ctx False of Inl e \<Rightarrow> Failed e | Inr s \<Rightarrow> Panicked, st))"

text \<open>The first route whose template matches the path and whose method is that of the request.\<close>

fun find_route :: "(string \<Rightarrow> string \<Rightarrow> (string \<Rightarrow> string) option) \<Rightarrow> (string \<times> handler \<times> string) list \<Rightarrow> string \<Rightarrow> string
    \<Rightarrow> (handler \<times> (string \<Rightarrow> string)) option" where
  "find_route mux [] meth path = None"
| "find_route mux ((tpl, h, m) # rs) meth path =
     (case mux (''/api'' @ tpl) path of
        None \<Rightarrow> find_route mux rs meth path
      | Some vars \<Rightarrow> if m = meth then Some (h, vars) else find_route mux rs meth path)"

definition serve_api :: "('hdr, 'env, 'st) api \<Rightarrow> http_request \<Rightarrow> 'st \<Rightarrow> (string, http_response) result \<times> 'st" where
  [go_eval]: "serve_api a req st =
     (case PathUnescape (rqPath req) of
        None \<Rightarrow> (Ok \<lparr>StatusCode = 400, rsBody = Data ''text/plain'' []\<rparr>, st)
      | Some path \<Rightarrow>
          (case find_route (api_mux a) SetupRoutes (rqMethod req) path of
             None \<Rightarrow> (Ok \<lparr>StatusCode = 404, rsBody = Data ''text/plain'' []\<rparr>, st)
           | Some (h, vars) \<Rightarrow>
               (let (r, st) = run_handler a h vars (rqBody req) st in
                (case ServeHTTP r of
                   None \<Rightarrow> Err ''EOF''
                 | Some status \<Rightarrow> Ok \<lparr>StatusCode = status, rsBody = (case r of Reply b \<Rightarrow> b | _ \<Rightarrow> Data ''text/plain'' [])\<rparr>, st))))"

text \<open>What the documentation of \<open>mux\<close> says of the templates: a variable stands for one segment.\<close>

definition segment :: "string \<Rightarrow> bool" where
  [go_eval]: "segment s \<longleftrightarrow> s \<noteq> [] \<and> CHR ''/'' \<notin> set s"

definition mux_documented :: "(string \<Rightarrow> string \<Rightarrow> (string \<Rightarrow> string) option) \<Rightarrow> bool" where
  "mux_documented mux \<longleftrightarrow> (\<forall>n i. segment n \<and> segment i \<longrightarrow>
     mux ''/api/v1/mailbox/{name}'' (''/api/v1/mailbox/'' @ n) = Some (\<lambda>v. if v = ''name'' then n else [])
     \<and> mux ''/api/v1/mailbox/{name}'' (''/api/v1/mailbox/'' @ n @ ''/'' @ i) = None
     \<and> mux ''/api/v1/mailbox/{name}/{id}'' (''/api/v1/mailbox/'' @ n @ ''/'' @ i)
         = Some (\<lambda>v. if v = ''name'' then n else if v = ''id'' then i else []))"

end
