(* ===== verification/Commands.thy ===== *)
theory Commands
  imports Client
begin

text \<open>
  \<open>cmd/client\<close>: the commands \<open>list\<close>, \<open>match\<close> and \<open>mbox\<close> over the REST client. A command takes the mailbox
  argument and the state of the world to its exit status, the lines it prints and the new state;
  what \<open>match\<close> prints as JSON is the list of headers. \<open>url.Parse\<close> and \<open>mail.ParseAddress\<close> are parameters, and
  a regular expression is the set of strings it matches.
\<close>

datatype exit_status = ExitSuccess | ExitFailure | ExitUsageError

datatype printed = Line string | Headers "JSONMessageHeaderV1 list"

text \<open>\<open>net.JoinHostPort\<close>, and the URL the commands give to the client.\<close>

definition JoinHostPort :: "string \<Rightarrow> string \<Rightarrow> string" where
  [go_eval]: "JoinHostPort h p =
     (if CHR '':'' \<in> set h then ''['' @ h @ '']:'' @ p else h @ '':'' @ p)"

definition baseURL :: "string \<Rightarrow> nat \<Rightarrow> string" where
  [go_eval]: "baseURL host port = ''http://%s'' @ JoinHostPort host (Utoa port)"

text \<open>
  \<open>client.New\<close>: \<open>parse\<close> gives the path of a URL, or nothing if it is malformed, and \<open>transport\<close> the \<open>Do\<close> of
  the HTTP client that is made for a URL.
\<close>

definition client_New :: "(string \<Rightarrow> string option) \<Rightarrow> (string \<Rightarrow> http_request \<Rightarrow> 'w \<Rightarrow> (string, http_response) result \<times> 'w)
    \<Rightarrow> string \<Rightarrow> 'w restClient option" where
  [go_eval]: "client_New parse transport url =
     (case parse url of None \<Rightarrow> None | Some p \<Rightarrow> Some \<lparr>client_Do = transport url, basePath = p\<rparr>)"

definition list_Execute :: "'w restClient option \<Rightarrow> string \<Rightarrow> 'w \<Rightarrow> exit_status \<times> printed list \<times> 'w" where
  [go_eval]: "list_Execute client mailbox w =
     (if mailbox = [] then (ExitUsageError, [], w)
      else case client of
        None \<Rightarrow> (ExitFailure, [], w)
      | Some c \<Rightarrow>
          (case client_ListMailbox c mailbox w of
             (Inl e, w) \<Rightarrow> (ExitFailure, [], w)
           | (Inr headers, w) \<Rightarrow> (ExitSuccess, map (Line \<circ> jID) headers, w)))"

text \<open>The outputs of \<open>match\<close> and \<open>mbox\<close>: whether there was no error, and what was printed.\<close>

fun outputMbox :: "(json \<Rightarrow> string) \<Rightarrow> 'w restClient \<Rightarrow> JSONMessageHeaderV1 list \<Rightarrow> 'w \<Rightarrow> bool \<times> printed list \<times> 'w" where
  "outputMbox json_text c [] w = (True, [], w)"
| "outputMbox json_text c (h # hs) w =
     (case client_GetMessageSource json_text c (jMailbox h) (jID h) w of
        (Inl e, w) \<Rightarrow> (False, [], w)
      | (Inr source, w) \<Rightarrow>
          (let (ok, out, w) = outputMbox json_text c hs w
           in (ok, Line (''From '' @ jFrom h) # Line source # out, w)))"

datatype match_output = OutputID | OutputJSON | OutputMbox

definition select_output :: "string \<Rightarrow> match_output option" where
  [go_eval]: "select_output s =
     (if s = ''id'' then Some OutputID else if s = ''json'' then Some OutputJSON
      else if s = ''mbox'' then Some OutputMbox else None)"

definition outFunc :: "match_output \<Rightarrow> (json \<Rightarrow> string) \<Rightarrow> 'w restClient \<Rightarrow> JSONMessageHeaderV1 list \<Rightarrow> 'w \<Rightarrow> bool \<times> printed list \<times> 'w" where
  [go_eval]: "outFunc o' json_text c hs w =
     (case o' of
        OutputID \<Rightarrow> (True, map (Line \<circ> jID) hs, w)
      | OutputJSON \<Rightarrow> (True, [Headers hs], w)
      | OutputMbox \<Rightarrow> outputMbox json_text c hs w)"

fun delete_headers :: "'w restClient \<Rightarrow> JSONMessageHeaderV1 list \<Rightarrow> 'w \<Rightarrow> bool \<times> 'w" where
  "delete_headers c [] w = (True, w)"
| "delete_headers c (h # hs) w =
     (case client_DeleteMessage c (jMailbox h) (jID h) w of
        (Inl e, w) \<Rightarrow> (False, w)
      | (Inr u, w) \<Rightarrow> delete_headers c hs w)"

record matchCmd =
  output_flag :: string
  delete_flag :: bool
  match_from :: "(string \<Rightarrow> bool) option"
  match_subject :: "(string \<Rightarrow> bool) option"
  match_to :: "(string \<Rightarrow> bool) option"
  maxAge :: int

text \<open>An address as it is matched: the address part if it parses, else the whole.\<close>

definition bare_address :: "(string \<Rightarrow> string option) \<Rightarrow> string \<Rightarrow> string" where
  [go_eval]: "bare_address ParseAddress s = (case ParseAddress s of Some a \<Rightarrow> a | None \<Rightarrow> s)"

definition match_header :: "(string \<Rightarrow> string option) \<Rightarrow> int \<Rightarrow> matchCmd \<Rightarrow> JSONMessageHeaderV1 \<Rightarrow> bool" where
  [go_eval]: "match_header ParseAddress now m h =
     (if maxAge m > 0 \<and> now - jDate h > maxAge m then False
      else if (case match_subject m of None \<Rightarrow> False | Some re \<Rightarrow> \<not> re (jSubject h)) then False
      else if (case match_from m of None \<Rightarrow> False | Some re \<Rightarrow> \<not> re (bare_address ParseAddress (jFrom h))) then False
      else if (case match_to m of None \<Rightarrow> False | Some re \<Rightarrow> \<not> list_ex (\<lambda>to. re (bare_address ParseAddress to)) (jTo h)) then False
      else True)"

definition match_Execute :: "(json \<Rightarrow> string) \<Rightarrow> (string \<Rightarrow> string option) \<Rightarrow> int \<Rightarrow> 'w restClient option \<Rightarrow> matchCmd \<Rightarrow> string \<Rightarrow> 'w
    \<Rightarrow> exit_status \<times> printed list \<times> 'w" where
  [go_eval]: "match_Execute json_text ParseAddress now client m mailbox w =
     (if mailbox = [] then (ExitUsageError, [], w)
      else case select_output (output_flag m) of
        None \<Rightarrow> (ExitUsageError, [], w)
      | Some o' \<Rightarrow>
          (case client of
             None \<Rightarrow> (ExitFailure, [], w)
           | Some c \<Rightarrow>
               (case client_ListMailbox c mailbox w of
                  (Inl e, w) \<Rightarrow> (ExitFailure, [], w)
                | (Inr headers, w) \<Rightarrow>
                    (let matches = filter (match_header ParseAddress now m) headers in
                     if matches = [] then (ExitFailure, [], w)
                     else (case outFunc o' json_text c matches w of
                             (ok, out, w) \<Rightarrow>
                               if \<not> ok then (ExitFailure, out, w)
                               else if delete_flag m then
                                 (let (ok, w) = delete_headers c matches w in (if ok then ExitSuccess else ExitFailure, out, w))
                               else (ExitSuccess, out, w))))))"

definition mbox_Execute :: "(json \<Rightarrow> string) \<Rightarrow> bool \<Rightarrow> 'w restClient option \<Rightarrow> string \<Rightarrow> 'w \<Rightarrow> exit_status \<times> printed list \<times> 'w" where
  [go_eval]: "mbox_Execute json_text delete mailbox_client mailbox w =
     (if mailbox = [] then (ExitUsageError, [], w)
      else case mailbox_client of
        None \<Rightarrow> (ExitFailure, [], w)
      | Some c \<Rightarrow>
          (case client_ListMailbox c mailbox w of
             (Inl e, w) \<Rightarrow> (ExitFailure, [], w)
           | (Inr headers, w) \<Rightarrow>
               (case outputMbox json_text c headers w of
                  (ok, out, w) \<Rightarrow>
                    if \<not> ok then (ExitFailure, out, w)
                    else if delete then
                      (let (ok, w) = delete_headers c headers w in (if ok then ExitSuccess else ExitFailure, out, w))
                    else (ExitSuccess, out, w))))"

end
