(* ===== verification/ClientProps.thy ===== *)
theory ClientProps
  imports Routes Commands WebProps
begin

text \<open>
  The client of the REST API against the server of the same program: how a mailbox name travels in a
  path, what the client sees of the store, and what the commands do.
\<close>

subsection \<open>Escaped names\<close>

lemma hex_value_upper: "d < 16 \<Longrightarrow> hex_value (upper_hex d) = d \<and> is_hexdigit (upper_hex d)"
  by (auto simp: hex_value_def upper_hex_def is_hexdigit_def is_digit_def is_lower_def code_char_of Let_def)

lemma char_of_code [simp]: "char_of (code c) = c"
  by (simp add: code_def)

definition plus_space :: "char \<Rightarrow> char" where
  [go_eval]: "plus_space c = (if c = CHR '' '' then CHR ''+'' else c)"

lemma PathUnescape_byte: "PathUnescape (escape_byte c @ s) = map_option ((#) (plus_space c)) (PathUnescape s)"
proof -
  have "code c div 16 < 16" using code_less [of c] by simp
  then have "hex_value (upper_hex (code c div 16)) = code c div 16" "is_hexdigit (upper_hex (code c div 16))"
    "hex_value (upper_hex (code c mod 16)) = code c mod 16" "is_hexdigit (upper_hex (code c mod 16))"
    by (simp_all add: hex_value_upper)
  moreover have "unreserved c \<Longrightarrow> c \<noteq> CHR ''%'' \<and> c \<noteq> CHR '' ''"
    by (auto simp: unreserved_def is_letter_def is_lower_def is_upper_def is_digit_def code_def)
  ultimately show ?thesis by (auto simp: escape_byte_def plus_space_def)
qed

lemma PathUnescape_QueryEscape: "PathUnescape (QueryEscape s @ t) = map_option ((@) (map plus_space s)) (PathUnescape t)"
  by (induction s) (simp_all add: QueryEscape_def PathUnescape_byte option.map_comp comp_def option.map_ident)

text \<open>
  The client escapes a mailbox name as a query component, and the server reads it as a path: the
  name arrives as it was, but for every space, which arrives as a plus sign.
\<close>
theorem client_name_roundtrip: "PathUnescape (QueryEscape s) = Some (map (\<lambda>c. if c = CHR '' '' then CHR ''+'' else c) s)"
  using PathUnescape_QueryEscape [of s "[]"] by (simp add: plus_space_def [abs_def])

definition plain_name :: "string \<Rightarrow> bool" where
  [go_eval]: "plain_name s \<longleftrightarrow> segment s \<and> CHR '' '' \<notin> set s \<and> s \<notin> {''.'', ''..''}"

lemma plain_name_map: "plain_name s \<Longrightarrow> map plus_space s = s"
  by (auto simp: plain_name_def plus_space_def intro!: map_idI)

lemma upper_hex_slash: "d < 16 \<Longrightarrow> upper_hex d \<noteq> CHR ''/''"
  using hex_value_upper [of d] by (auto simp: is_hexdigit_def is_digit_def code_def)

lemma slash_escape_byte: "CHR ''/'' \<notin> set (escape_byte c)"
proof -
  have "code c div 16 < 16" using code_less [of c] by simp
  then have "upper_hex (code c div 16) \<noteq> CHR ''/''" "upper_hex (code c mod 16) \<noteq> CHR ''/''"
    by (simp_all add: upper_hex_slash)
  moreover have "\<not> unreserved (CHR ''/'')" by (simp add: go_eval)
  ultimately show ?thesis unfolding escape_byte_def by auto
qed

lemma slash_QueryEscape: "CHR ''/'' \<notin> set (QueryEscape s)"
  using slash_escape_byte by (simp add: QueryEscape_def)

lemma QueryEscape_plain: "plain_name s \<Longrightarrow> QueryEscape s \<notin> {[], ''.'', ''..''}"
  using PathUnescape_QueryEscape [of s "[]"] plain_name_map [of s] by (auto simp: plain_name_def segment_def)

text \<open>The paths of the client are clean, so that \<open>JoinPath\<close> leaves them as they are.\<close>

definition clean_segment :: "string \<Rightarrow> bool" where
  [go_eval]: "clean_segment w \<longleftrightarrow> segment w \<and> w \<notin> {''.'', ''..''}"

lemma clean_segments_id: "list_all clean_segment ws \<Longrightarrow> clean_segments st ws = rev st @ ws"
  by (induction ws arbitrary: st) (auto simp: clean_segment_def segment_def)

lemma Split_api: "Split (''/api/v1/mailbox/'' @ s) (CHR ''/'') = [[], ''api'', ''v1'', ''mailbox''] @ Split s (CHR ''/'')"
  by (simp split: list.split)

lemma Join_api: "ws \<noteq> [] \<Longrightarrow> CHR ''/'' # Join ([''api'', ''v1'', ''mailbox''] @ ws) ''/'' = ''/api/v1/mailbox/'' @ Join ws ''/''"
  by (simp add: Join_Cons)

lemma JoinPath_api:
  assumes "Split s (CHR ''/'') = ws" and "list_all clean_segment ws"
  shows "JoinPath [] (''/api/v1/mailbox/'' @ s) = ''/api/v1/mailbox/'' @ s"
proof -
  have ne: "ws \<noteq> []" using assms(1) Split_nonempty by metis
  have "clean_segments [] (Split [] (CHR ''/'') @ Split (''/api/v1/mailbox/'' @ s) (CHR ''/'')) = [''api'', ''v1'', ''mailbox''] @ ws"
    unfolding Split_api assms(1) using clean_segments_id [OF assms(2)] by simp
  moreover have "CHR ''/'' # Join ([''api'', ''v1'', ''mailbox''] @ ws) ''/'' = ''/api/v1/mailbox/'' @ s"
    unfolding Join_api [OF ne] using Join_Split [of s "CHR ''/''"] assms(1) by simp
  ultimately show ?thesis by (simp add: JoinPath_def)
qed

lemma segment_Split: "segment w \<Longrightarrow> Split w (CHR ''/'') = [w]"
  by (simp add: segment_def Split_no_sep)

lemma escaped_clean: "plain_name s \<Longrightarrow> clean_segment (QueryEscape s)"
  using QueryEscape_plain [of s] slash_QueryEscape [of s] by (simp add: clean_segment_def segment_def)

text \<open>An id that can stand in a path.\<close>

definition plain_id :: "string \<Rightarrow> bool" where
  [go_eval]: "plain_id i \<longleftrightarrow> clean_segment i \<and> PathUnescape i = Some i"

lemma mailbox_path:
  assumes "plain_name s"
  shows "JoinPath [] (mailbox_uri s) = mailbox_uri s" and "PathUnescape (mailbox_uri s) = Some (''/api/v1/mailbox/'' @ s)"
proof -
  note q = escaped_clean [OF assms]
  then have "segment (QueryEscape s)" by (simp add: clean_segment_def)
  from JoinPath_api [OF segment_Split [OF this]] q show "JoinPath [] (mailbox_uri s) = mailbox_uri s"
    by (simp add: mailbox_uri_def)
  show "PathUnescape (mailbox_uri s) = Some (''/api/v1/mailbox/'' @ s)"
    using PathUnescape_QueryEscape [of s "[]"] plain_name_map [OF assms] by (simp add: mailbox_uri_def)
qed

lemma message_path:
  assumes "plain_name s" and "plain_id i"
  shows "JoinPath [] (message_uri s i) = message_uri s i"
    and "PathUnescape (message_uri s i) = Some (''/api/v1/mailbox/'' @ s @ ''/'' @ i)"
proof -
  note q = escaped_clean [OF assms(1)]
  then have "Split (QueryEscape s @ CHR ''/'' # i) (CHR ''/'') = [QueryEscape s, i]"
    using assms(2) by (simp add: clean_segment_def segment_def plain_id_def Split_append Split_no_sep)
  from JoinPath_api [OF this] q assms(2) show "JoinPath [] (message_uri s i) = message_uri s i"
    by (simp add: message_uri_def mailbox_uri_def plain_id_def)
  show "PathUnescape (message_uri s i) = Some (''/api/v1/mailbox/'' @ s @ ''/'' @ i)"
    using PathUnescape_QueryEscape [of s "CHR ''/'' # i"] plain_name_map [OF assms(1)] assms(2)
    by (simp add: message_uri_def mailbox_uri_def plain_id_def)
qed

subsection \<open>The client over the server\<close>

lemma mux_mailbox:
  assumes "mux_documented mux" and "segment n"
  shows "mux ''/api/v1/mailbox/{name}'' (''/api/v1/mailbox/'' @ n) = Some (\<lambda>v. if v = ''name'' then n else [])"
proof -
  have "segment ''x''" by (simp add: segment_def)
  with assms show ?thesis unfolding mux_documented_def by blast
qed

lemma mux_message:
  assumes "mux_documented mux" and "segment n" and "segment i"
  shows "mux ''/api/v1/mailbox/{name}'' (''/api/v1/mailbox/'' @ n @ ''/'' @ i) = None"
    and "mux ''/api/v1/mailbox/{name}/{id}'' (''/api/v1/mailbox/'' @ n @ ''/'' @ i)
      = Some (\<lambda>v. if v = ''name'' then n else if v = ''id'' then i else [])"
  using assms unfolding mux_documented_def by blast+

lemma route_mailbox:
  assumes "mux_documented mux" and "segment n"
  shows "find_route mux SetupRoutes ''GET'' (''/api/v1/mailbox/'' @ n) = Some (HList, \<lambda>v. if v = ''name'' then n else [])"
  using mux_mailbox [OF assms] by (simp add: SetupRoutes_def)

lemma route_message:
  assumes "mux_documented mux" and "segment n" and "segment i"
  shows "find_route mux SetupRoutes ''PATCH'' (''/api/v1/mailbox/'' @ n @ ''/'' @ i)
      = Some (HMarkSeen, \<lambda>v. if v = ''name'' then n else if v = ''id'' then i else [])"
    and "find_route mux SetupRoutes ''DELETE'' (''/api/v1/mailbox/'' @ n @ ''/'' @ i)
      = Some (HDelete, \<lambda>v. if v = ''name'' then n else if v = ''id'' then i else [])"
  using mux_message [OF assms] by (simp_all add: SetupRoutes_def)

text \<open>The client that talks to the server \<open>a\<close>.\<close>

definition client_of :: "('hdr, 'env, 'st) api \<Rightarrow> 'st restClient" where
  [go_eval]: "client_of a = \<lparr>client_Do = serve_api a, basePath = []\<rparr>"

lemma list_call:
  assumes "mux_documented (api_mux a)" and "plain_name n"
    and "MailboxListV1 ((api_ctx a)\<lparr>Vars := (\<lambda>v. if v = ''name'' then n else [])\<rparr>) st = (Reply (JSON (JHeaders hs)), st')"
  shows "client_ListMailbox (client_of a) n st = (Ok hs, st')"
proof -
  have "segment n" using assms(2) by (simp add: plain_name_def)
  note r = route_mailbox [OF assms(1) this]
  show ?thesis using mailbox_path [OF assms(2)] assms(3) r
    by (simp add: client_ListMailbox_def doJSON_def client_do_def client_of_def serve_api_def run_handler_def ServeHTTP_def decode_headers_def)
qed

lemma delete_call:
  assumes "mux_documented (api_mux a)" and "plain_name n" and "plain_id i"
    and "MailboxDeleteV1 ((api_ctx a)\<lparr>Vars := (\<lambda>v. if v = ''name'' then n else if v = ''id'' then i else [])\<rparr>) st = (Reply b, st')"
  shows "client_DeleteMessage (client_of a) n i st = (Ok (), st')"
proof -
  have "segment n" "segment i" using assms(2,3) by (simp_all add: plain_name_def plain_id_def clean_segment_def)
  note r = route_message [OF assms(1) this]
  show ?thesis using message_path [OF assms(2,3)] assms(4) r
    by (simp add: client_DeleteMessage_def expect_ok_def client_do_def client_of_def serve_api_def run_handler_def ServeHTTP_def)
qed

lemma seen_call:
  assumes "mux_documented (api_mux a)" and "plain_name n" and "plain_id i"
    and "MailboxForAddress (ctxManager (api_ctx a)) n = Ok mb"
  shows "client_MarkSeen (client_of a) n i st = (Err (UnexpectedStatus 500), st)"
proof -
  have "segment n" "segment i" using assms(2,3) by (simp_all add: plain_name_def plain_id_def clean_segment_def)
  note r = route_message [OF assms(1) this]
  show ?thesis using message_path [OF assms(2,3)] assms(4) r
    by (simp add: client_MarkSeen_def doJSON_def client_do_def client_of_def serve_api_def run_handler_def ServeHTTP_def
        MailboxMarkSeenV1_def at_mailbox_def)
qed

text \<open>
  C32: the REST client against the server of this program, over every store that keeps the contract:
  the client's listing of a mailbox is that of the store, and its deletion of a message removes that
  message and no other. Its \<open>MarkSeen\<close> sends no body, which the server does not accept: it always fails,
  with status 500, and nothing is marked.
\<close>
theorem client_over_server:
  assumes store: "message_store ops listing ok" "ok st" "mgStore (ctxManager (api_ctx a)) = ops"
    and mux: "mux_documented (api_mux a)"
    and n: "plain_name n" "MailboxForAddress (ctxManager (api_ctx a)) n = Ok mb"
    and i: "plain_id i" "i \<in> sID ` set (listing st mb)"
    and run: "client_ListMailbox (client_of a) n st = (r1, st1)" "client_DeleteMessage (client_of a) n i st1 = (r2, st2)"
  shows "r1 = Ok (map (\<lambda>m. header_of mb (MakeMetadata m)) (listing st mb)) \<and> listing st1 = listing st
    \<and> r2 = Ok () \<and> listing st2 = (listing st)(mb := filter (\<lambda>m. sID m \<noteq> i) (listing st mb))
    \<and> client_MarkSeen (client_of a) n i st = (Err (UnexpectedStatus 500), st)"
proof -
  let ?ctx = "(api_ctx a)\<lparr>Vars := (\<lambda>v. if v = ''name'' then n else [])\<rparr>"
  let ?ctx' = "(api_ctx a)\<lparr>Vars := (\<lambda>v. if v = ''name'' then n else if v = ''id'' then i else [])\<rparr>"
  have c: "mgStore (ctxManager ?ctx) = ops" "MailboxForAddress (ctxManager ?ctx) (Vars ?ctx ''name'') = Ok mb"
    "mgStore (ctxManager ?ctx') = ops" "MailboxForAddress (ctxManager ?ctx') (Vars ?ctx' ''name'') = Ok mb" "Vars ?ctx' ''id'' = i"
    using store(3) n(2) by simp_all
  obtain q1 t1 where l: "MailboxListV1 ?ctx st = (q1, t1)" by fastforce
  note l' = message_store.list_reply [OF store(1,2) c(1,2) l]
  have 1: "r1 = Ok (map (\<lambda>m. header_of mb (MakeMetadata m)) (listing st mb))" "st1 = t1"
    using list_call [OF mux n(1), of st "map (\<lambda>m. header_of mb (MakeMetadata m)) (listing st mb)" t1] l l' run(1) by auto
  obtain q2 t2 where d: "MailboxDeleteV1 ?ctx' st1 = (q2, t2)" by fastforce
  have ok: "ok st1" "listing st1 = listing st" using l' 1(2) by simp_all
  have "Vars ?ctx' ''id'' \<in> sID ` set (listing st1 mb)" using i(2) ok(2) by simp
  note d' = message_store.delete_reply [OF store(1) ok(1) c(3,4) this d]
  have "r2 = Ok ()" "st2 = t2"
    using delete_call [OF mux n(1) i(1), of st1 "JSON JOK" t2] d d' run(2) by auto
  then show ?thesis using 1 ok d' c(5) seen_call [OF mux n(1) i(1) n(2)] by simp
qed

text \<open>A router for the examples that does what the documentation says.\<close>

fun segment_vars :: "string list \<Rightarrow> string list \<Rightarrow> (string \<times> string) list option" where
  "segment_vars [] [] = Some []"
| "segment_vars (t # ts) (p # ps) =
     (if t \<noteq> [] \<and> hd t = CHR 123
      then (if p = [] then None else map_option ((#) (butlast (tl t), p)) (segment_vars ts ps))
      else if t = p then segment_vars ts ps else None)"
| "segment_vars _ _ = None"

definition example_mux :: "string \<Rightarrow> string \<Rightarrow> (string \<Rightarrow> string) option" where
  [go_eval]: "example_mux tpl path =
     map_option (\<lambda>al v. case map_of al v of None \<Rightarrow> [] | Some x \<Rightarrow> x)
       (segment_vars (Split tpl (CHR ''/'')) (Split path (CHR ''/'')))"

lemma example_mux_documented: "mux_documented example_mux"
proof -
  have tpl: "Split ''/api/v1/mailbox/{name}'' (CHR ''/'') = [[], ''api'', ''v1'', ''mailbox'', ''{name}'']"
    "Split ''/api/v1/mailbox/{name}/{id}'' (CHR ''/'') = [[], ''api'', ''v1'', ''mailbox'', ''{name}'', ''{id}'']"
    by simp_all
  have one: "Split (''/api/v1/mailbox/'' @ n) (CHR ''/'') = [[], ''api'', ''v1'', ''mailbox'', n]" if "segment n" for n
    unfolding Split_api segment_Split [OF that] by simp
  have two: "Split (''/api/v1/mailbox/'' @ n @ ''/'' @ i) (CHR ''/'') = [[], ''api'', ''v1'', ''mailbox'', n, i]"
    if "segment n" "segment i" for n i
    unfolding Split_api using that segment_Split [OF that(2)] Split_append [of "CHR ''/''" n i] by (simp add: segment_def)
  have "example_mux ''/api/v1/mailbox/{name}'' (''/api/v1/mailbox/'' @ n) = Some (\<lambda>v. if v = ''name'' then n else [])"
    if "segment n" for n
    unfolding example_mux_def tpl one [OF that] using that by (simp add: segment_def fun_eq_iff)
  moreover have "example_mux ''/api/v1/mailbox/{name}'' (''/api/v1/mailbox/'' @ n @ ''/'' @ i) = None"
    "example_mux ''/api/v1/mailbox/{name}/{id}'' (''/api/v1/mailbox/'' @ n @ ''/'' @ i)
      = Some (\<lambda>v. if v = ''name'' then n else if v = ''id'' then i else [])"
    if "segment n" "segment i" for n i
    unfolding example_mux_def tpl two [OF that] using that by (simp_all add: segment_def fun_eq_iff)
  ultimately show ?thesis unfolding mux_documented_def by blast
qed

definition example_api :: "'st Store \<Rightarrow> (unit, unit, 'st) api" where
  [go_eval]: "example_api ds =
     \<lparr>api_ctx = example_context ds [] [], api_mux = example_mux, api_md5 = id, api_host = ''h'', api_decode = (\<lambda>b. Some True)\<rparr>"

theorem client_over_server_witness:
  "\<exists>s s'. client_DeleteMessage (client_of (example_api mem_ops)) ''a'' ''1'' s = (Ok (), s')
    \<and> ''1'' \<in> sID ` set (mem_abs s ''a'') \<and> ''1'' \<notin> sID ` set (mem_abs s' ''a'')"
proof -
  let ?a = "example_api mem_ops"
  obtain r1 st1 where run1: "client_ListMailbox (client_of ?a) ''a'' example_two = (r1, st1)" by fastforce
  obtain r2 st2 where run2: "client_DeleteMessage (client_of ?a) ''a'' ''1'' st1 = (r2, st2)" by fastforce
  have ok: "mem_ok example_two" using mem_run_spec [OF example_run] mem_New_spec [OF example_New] by simp
  have a: "mgStore (ctxManager (api_ctx ?a)) = mem_ops" "mux_documented (api_mux ?a)"
    by (simp_all add: example_api_def example_context_def example_mux_documented)
  have n: "plain_name ''a''" "MailboxForAddress (ctxManager (api_ctx ?a)) ''a'' = Ok ''a''" "plain_id ''1''"
    by (simp_all add: go_eval)
  have i: "''1'' \<in> sID ` set (mem_abs example_two ''a'')" by (simp add: example_two_set)
  note d = client_over_server [OF mem.message_store_axioms ok a n i run1 run2]
  then have "''1'' \<in> sID ` set (mem_abs st1 ''a'')" using i by simp
  moreover have "''1'' \<notin> sID ` set (mem_abs st2 ''a'')" using d by auto
  ultimately show ?thesis using run2 d by blast
qed

subsection \<open>The commands\<close>

text \<open>
  What \<open>net/url\<close> documents of malformed URLs: a percent sign in the host that two hexadecimal digits
  do not follow is an error.
\<close>

definition url_documented :: "(string \<Rightarrow> string option) \<Rightarrow> bool" where
  "url_documented parse \<longleftrightarrow> (\<forall>pre s a b. set pre \<inter> {CHR ''/'', CHR ''?'', CHR ''#''} = {} \<and> \<not> (is_hexdigit a \<and> is_hexdigit b)
     \<longrightarrow> parse (''http://'' @ pre @ [CHR ''%'', a, b] @ s) = None)"

text \<open>
  The URL the commands make of the host and port is malformed, as a format directive was left in
  it, so that no command ever reaches a server: all of them fail before their first request, and
  print nothing.
\<close>
theorem commands_never_connect:
  assumes "url_documented parse" and "mailbox \<noteq> []" and "select_output (output_flag m) \<noteq> None"
    and "c = client_New parse transport (baseURL host port)"
  shows "list_Execute c mailbox w = (ExitFailure, [], w)
    \<and> match_Execute json_text ParseAddress now c m mailbox w = (ExitFailure, [], w)
    \<and> mbox_Execute json_text delete c mailbox w = (ExitFailure, [], w)"
proof -
  have "JoinHostPort host (Utoa port) \<noteq> []" by (simp add: JoinHostPort_def)
  then obtain x xs where h: "JoinHostPort host (Utoa port) = x # xs" by (cases "JoinHostPort host (Utoa port)") auto
  have "\<not> is_hexdigit (CHR ''s'')" by (simp add: go_eval)
  then have "parse (''http://'' @ [] @ [CHR ''%'', CHR ''s'', x] @ xs) = None"
    using assms(1) unfolding url_documented_def by (simp del: append_Cons append.simps)
  then have "c = None" using assms(4) h by (simp add: client_New_def baseURL_def)
  with assms(2,3) show ?thesis
    by (auto simp: list_Execute_def match_Execute_def mbox_Execute_def)
qed

text \<open>A parser for the example that accepts the URLs without a percent sign.\<close>

theorem commands_never_connect_witness:
  "list_Execute (client_New (\<lambda>u. if CHR ''%'' \<in> set u then None else Some []) (\<lambda>u rq w. (Err ''refused'', w))
     (baseURL ''localhost'' 9000)) ''joe'' (0::nat) = (ExitFailure, [], 0)"
proof -
  let ?p = "\<lambda>u. if CHR ''%'' \<in> set u then None else Some []" and ?t = "\<lambda>u rq w. (Err ''refused'', w :: nat)"
  have "url_documented ?p" by (simp add: url_documented_def)
  moreover have "select_output (output_flag \<lparr>output_flag = ''id'', delete_flag = False, match_from = None, match_subject = None,
      match_to = None, maxAge = 0\<rparr>) \<noteq> None" by (simp add: select_output_def)
  ultimately show ?thesis
    using commands_never_connect [of ?p "''joe''" _ "client_New ?p ?t (baseURL ''localhost'' 9000)" ?t "''localhost''" 9000 0]
    by fastforce
qed

end
