(* ===== verification/LuaTypes.thy ===== *)
theory LuaTypes
  imports Events
begin

text \<open>
  The Go values a Lua script sees (\<open>pkg/extension/luahost/bind_*.go\<close>). A user data value is a pointer to a Go
  object, and messages point to address objects, which several of them can share: objects live in an
  explicit heap, and a pointer is an index into it. The interpreter is third-party: the checks of
  arguments are the record \<open>lua_api\<close>, what they do with values of their own type is \<open>lua_documented\<close>, and a
  table is the list of the values that \<open>ForEach\<close> visits. Dates are in seconds.
\<close>

subsection \<open>Values and objects\<close>

datatype lua_value =
    LNil | LBool bool | LNumber int | LString string | LTable "lua_value list"
  | LFunction nat
  | LUserData nat
  | LNilAddress
  | LAfter nat
  | LBefore nat

text \<open>
  User data: \<open>LUserData\<close> holds a pointer to an object, \<open>LNilAddress\<close> a nil pointer to an address, and \<open>LAfter\<close>
  and \<open>LBefore\<close> pointers to the two parts of an \<open>Inbucket\<close> object.
\<close>

record inbound_obj =
  ioMailboxes :: "string list"
  ioFrom :: "nat option"
  ioTo :: "nat option list"
  ioSubject :: string
  ioSize :: int

record metadata_obj =
  moMailbox :: string
  moID :: string
  moFrom :: "nat option"
  moTo :: "nat option list"
  moDate :: int
  moSubject :: string
  moSize :: int
  moSeen :: bool

record session_obj =
  soFrom :: "nat option"
  soTo :: "nat option list"
  soRemoteAddr :: string

text \<open>\<open>Inbucket\<close>: the functions a script has set, by their handles.\<close>

record Inbucket =
  After_MessageDeleted :: "nat option"
  After_MessageStored :: "nat option"
  Before_MailFromAccepted :: "nat option"
  Before_MessageStored :: "nat option"
  Before_RcptToAccepted :: "nat option"

definition no_functions :: Inbucket where
  [go_eval]: "no_functions = \<lparr>After_MessageDeleted = None, After_MessageStored = None, Before_MailFromAccepted = None,
     Before_MessageStored = None, Before_RcptToAccepted = None\<rparr>"

datatype go_object =
    GAddress address | GInbound inbound_obj | GMetadata metadata_obj | GSession session_obj | GResponse SMTPResponse
  | GInbucket Inbucket

type_synonym lua_heap = "go_object list"

datatype lua_error = ArgError nat string | LuaError string | InvalidIndex string | GoPanic

type_synonym lua_call = "(lua_error, lua_value list) result \<times> lua_heap"

record lua_api =
  CheckString :: "lua_value \<Rightarrow> string option"
  CheckInt64 :: "lua_value \<Rightarrow> int option"
  CheckTable :: "lua_value \<Rightarrow> lua_value list option"
  CheckFunction :: "lua_value \<Rightarrow> nat option"
  OptInt :: "lua_value \<Rightarrow> int \<Rightarrow> int option"
  OptString :: "lua_value \<Rightarrow> string \<Rightarrow> string option"

definition lua_documented :: "lua_api \<Rightarrow> bool" where
  "lua_documented api \<longleftrightarrow> (\<forall>s. CheckString api (LString s) = Some s) \<and> (\<forall>n. CheckInt64 api (LNumber n) = Some n)
     \<and> (\<forall>vs. CheckTable api (LTable vs) = Some vs) \<and> (\<forall>f. CheckFunction api (LFunction f) = Some f)
     \<and> (\<forall>n d. OptInt api (LNumber n) d = Some n) \<and> (\<forall>d. OptInt api LNil d = Some d)
     \<and> (\<forall>s d. OptString api (LString s) d = Some s) \<and> (\<forall>d. OptString api LNil d = Some d)"

text \<open>A checked argument, or the error that the check throws.\<close>

definition checked :: "nat \<Rightarrow> string \<Rightarrow> 'a option \<Rightarrow> lua_heap \<Rightarrow> ('a \<Rightarrow> lua_call) \<Rightarrow> lua_call" where
  [go_eval]: "checked pos expected a h f = (case a of None \<Rightarrow> (Err (ArgError pos expected), h) | Some x \<Rightarrow> f x)"

text \<open>
  The check for user data of a type: \<open>CheckUserData\<close> throws at \<open>pos\<close>, and the check of the type at \<open>tpos\<close>, which is
  1 for an address wherever it stands.
\<close>

definition is_userdata :: "lua_value \<Rightarrow> bool" where
  [go_eval]: "is_userdata v \<longleftrightarrow> (case v of LUserData a \<Rightarrow> True | LNilAddress \<Rightarrow> True | LAfter a \<Rightarrow> True | LBefore a \<Rightarrow> True | _ \<Rightarrow> False)"

definition checked_data :: "nat \<Rightarrow> nat \<Rightarrow> string \<Rightarrow> lua_value \<Rightarrow> 'a option \<Rightarrow> lua_heap \<Rightarrow> ('a \<Rightarrow> lua_call) \<Rightarrow> lua_call" where
  [go_eval]: "checked_data pos tpos expected v a h f =
     (if is_userdata v then checked tpos expected a h f else (Err (ArgError pos ''userdata''), h))"

definition object_at :: "lua_heap \<Rightarrow> lua_value \<Rightarrow> (nat \<times> go_object) option" where
  [go_eval]: "object_at h v = (case v of LUserData a \<Rightarrow> if a < length h then Some (a, h ! a) else None | _ \<Rightarrow> None)"

text \<open>Allocation: the new object is behind the others.\<close>

definition alloc :: "go_object \<Rightarrow> lua_heap \<Rightarrow> nat \<times> lua_heap" where
  [go_eval]: "alloc x h = (length h, h @ [x])"

subsection \<open>Mail addresses\<close>

definition wrapMailAddress :: "nat option \<Rightarrow> lua_value" where
  [go_eval]: "wrapMailAddress p = (case p of None \<Rightarrow> LNilAddress | Some a \<Rightarrow> LUserData a)"

text \<open>\<open>Some p\<close> for a user data value that holds an address pointer, which can be nil.\<close>

definition unwrapMailAddress :: "lua_heap \<Rightarrow> lua_value \<Rightarrow> nat option option" where
  [go_eval]: "unwrapMailAddress h v =
     (if v = LNilAddress then Some None
      else case object_at h v of Some (a, GAddress x) \<Rightarrow> Some (Some a) | _ \<Rightarrow> None)"

definition checkMailAddress :: "lua_heap \<Rightarrow> lua_value \<Rightarrow> nat option option" where
  [go_eval]: "checkMailAddress h v = unwrapMailAddress h v"

definition newMailAddress :: "lua_api \<Rightarrow> lua_value \<Rightarrow> lua_value \<Rightarrow> lua_heap \<Rightarrow> lua_call" where
  [go_eval]: "newMailAddress api v1 v2 h =
     checked 1 ''string'' (CheckString api v1) h (\<lambda>n. checked 2 ''string'' (CheckString api v2) h (\<lambda>a.
       let (p, h) = alloc (GAddress \<lparr>Name = n, Address = a\<rparr>) h in (Ok [LUserData p], h)))"

text \<open>The fields of an address; reading a nil pointer panics.\<close>

definition mailAddressIndex :: "lua_api \<Rightarrow> lua_value \<Rightarrow> lua_value \<Rightarrow> lua_heap \<Rightarrow> lua_call" where
  [go_eval]: "mailAddressIndex api v1 v2 h =
     checked_data 1 1 ''address'' v1 (checkMailAddress h v1) h (\<lambda>p. checked 2 ''string'' (CheckString api v2) h (\<lambda>field.
       if field \<noteq> ''name'' \<and> field \<noteq> ''address'' then (Ok [LNil], h)
       else case p of
         None \<Rightarrow> (Err GoPanic, h)
       | Some a \<Rightarrow>
           (case h ! a of
              GAddress x \<Rightarrow> (Ok [LString (if field = ''name'' then Name x else Address x)], h)
            | _ \<Rightarrow> (Err GoPanic, h))))"

definition mailAddressNewIndex :: "lua_api \<Rightarrow> lua_value \<Rightarrow> lua_value \<Rightarrow> lua_value \<Rightarrow> lua_heap \<Rightarrow> lua_call" where
  [go_eval]: "mailAddressNewIndex api v1 v2 v3 h =
     checked_data 1 1 ''address'' v1 (checkMailAddress h v1) h (\<lambda>p. checked 2 ''string'' (CheckString api v2) h (\<lambda>index.
       if index \<noteq> ''name'' \<and> index \<noteq> ''address'' then (Err (InvalidIndex index), h)
       else checked 3 ''string'' (CheckString api v3) h (\<lambda>s.
         case p of
           None \<Rightarrow> (Err GoPanic, h)
         | Some a \<Rightarrow>
             (case h ! a of
                GAddress x \<Rightarrow> (Ok [], h[a := GAddress (if index = ''name'' then x\<lparr>Name := s\<rparr> else x\<lparr>Address := s\<rparr>)])
              | _ \<Rightarrow> (Err GoPanic, h)))))"

text \<open>The address pointers among the values of a table; other values are skipped.\<close>

fun table_addresses :: "lua_heap \<Rightarrow> lua_value list \<Rightarrow> nat option list" where
  "table_addresses h [] = []"
| "table_addresses h (v # vs) =
     (case unwrapMailAddress h v of None \<Rightarrow> table_addresses h vs | Some p \<Rightarrow> p # table_addresses h vs)"

subsection \<open>Inbound messages\<close>

definition newInboundMessage :: "lua_heap \<Rightarrow> lua_call" where
  [go_eval]: "newInboundMessage h =
     (let (p, h) = alloc (GInbound \<lparr>ioMailboxes = [], ioFrom = None, ioTo = [], ioSubject = [], ioSize = 0\<rparr>) h
      in (Ok [LUserData p], h))"

definition unwrapInboundMessage :: "lua_heap \<Rightarrow> lua_value \<Rightarrow> (nat \<times> inbound_obj) option" where
  [go_eval]: "unwrapInboundMessage h v = (case object_at h v of Some (a, GInbound m) \<Rightarrow> Some (a, m) | _ \<Rightarrow> None)"

definition checkInboundMessage :: "lua_heap \<Rightarrow> lua_value \<Rightarrow> (nat \<times> inbound_obj) option" where
  [go_eval]: "checkInboundMessage h v = unwrapInboundMessage h v"

definition inboundMessageIndex :: "lua_api \<Rightarrow> lua_value \<Rightarrow> lua_value \<Rightarrow> lua_heap \<Rightarrow> lua_call" where
  [go_eval]: "inboundMessageIndex api v1 v2 h =
     checked_data 1 1 ''inbound_message'' v1 (checkInboundMessage h v1) h (\<lambda>(a, m). checked 2 ''string'' (CheckString api v2) h (\<lambda>field.
       (Ok [if field = ''mailboxes'' then LTable (map LString (ioMailboxes m))
            else if field = ''from'' then wrapMailAddress (ioFrom m)
            else if field = ''to'' then LTable (map wrapMailAddress (ioTo m))
            else if field = ''subject'' then LString (ioSubject m)
            else if field = ''size'' then LNumber (ioSize m)
            else LNil], h)))"

text \<open>The strings among the values of a table.\<close>

fun table_strings :: "lua_value list \<Rightarrow> string list" where
  "table_strings [] = []"
| "table_strings (v # vs) = (case v of LString s \<Rightarrow> s # table_strings vs | _ \<Rightarrow> table_strings vs)"

definition inboundMessageNewIndex :: "lua_api \<Rightarrow> lua_value \<Rightarrow> lua_value \<Rightarrow> lua_value \<Rightarrow> lua_heap \<Rightarrow> lua_call" where
  [go_eval]: "inboundMessageNewIndex api v1 v2 v3 h =
     checked_data 1 1 ''inbound_message'' v1 (checkInboundMessage h v1) h (\<lambda>(a, m). checked 2 ''string'' (CheckString api v2) h (\<lambda>index.
       if index = ''mailboxes'' then
         checked 3 ''table'' (CheckTable api v3) h (\<lambda>vs. (Ok [], h[a := GInbound (m\<lparr>ioMailboxes := table_strings vs\<rparr>)]))
       else if index = ''from'' then
         checked_data 3 1 ''address'' v3 (checkMailAddress h v3) h (\<lambda>p. (Ok [], h[a := GInbound (m\<lparr>ioFrom := p\<rparr>)]))
       else if index = ''to'' then
         checked 3 ''table'' (CheckTable api v3) h (\<lambda>vs. (Ok [], h[a := GInbound (m\<lparr>ioTo := table_addresses h vs\<rparr>)]))
       else if index = ''subject'' then
         checked 3 ''string'' (CheckString api v3) h (\<lambda>s. (Ok [], h[a := GInbound (m\<lparr>ioSubject := s\<rparr>)]))
       else if index = ''size'' then (Err (LuaError ''size is read-only''), h)
       else (Err (InvalidIndex index), h)))"

subsection \<open>Message metadata\<close>

definition newMessageMetadata :: "lua_heap \<Rightarrow> lua_call" where
  [go_eval]: "newMessageMetadata h =
     (let (p, h) = alloc (GMetadata \<lparr>moMailbox = [], moID = [], moFrom = None, moTo = [], moDate = 0, moSubject = [],
        moSize = 0, moSeen = False\<rparr>) h
      in (Ok [LUserData p], h))"

definition checkMessageMetadata :: "lua_heap \<Rightarrow> lua_value \<Rightarrow> (nat \<times> metadata_obj) option" where
  [go_eval]: "checkMessageMetadata h v = (case object_at h v of Some (a, GMetadata m) \<Rightarrow> Some (a, m) | _ \<Rightarrow> None)"

definition messageMetadataIndex :: "lua_api \<Rightarrow> lua_value \<Rightarrow> lua_value \<Rightarrow> lua_heap \<Rightarrow> lua_call" where
  [go_eval]: "messageMetadataIndex api v1 v2 h =
     checked_data 1 1 ''message_metadata'' v1 (checkMessageMetadata h v1) h (\<lambda>(a, m). checked 2 ''string'' (CheckString api v2) h (\<lambda>field.
       (Ok [if field = ''mailbox'' then LString (moMailbox m)
            else if field = ''id'' then LString (moID m)
            else if field = ''from'' then wrapMailAddress (moFrom m)
            else if field = ''to'' then LTable (map wrapMailAddress (moTo m))
            else if field = ''date'' then LNumber (moDate m)
            else if field = ''subject'' then LString (moSubject m)
            else if field = ''size'' then LNumber (moSize m)
            else LNil], h)))"

definition messageMetadataNewIndex :: "lua_api \<Rightarrow> lua_value \<Rightarrow> lua_value \<Rightarrow> lua_value \<Rightarrow> lua_heap \<Rightarrow> lua_call" where
  [go_eval]: "messageMetadataNewIndex api v1 v2 v3 h =
     checked_data 1 1 ''message_metadata'' v1 (checkMessageMetadata h v1) h (\<lambda>(a, m). checked 2 ''string'' (CheckString api v2) h (\<lambda>index.
       let string = \<lambda>f. checked 3 ''string'' (CheckString api v3) h (\<lambda>s. (Ok [], h[a := GMetadata (f s)]));
           number = \<lambda>f. checked 3 ''number'' (CheckInt64 api v3) h (\<lambda>n. (Ok [], h[a := GMetadata (f n)]))
       in if index = ''mailbox'' then string (\<lambda>s. m\<lparr>moMailbox := s\<rparr>)
          else if index = ''id'' then string (\<lambda>s. m\<lparr>moID := s\<rparr>)
          else if index = ''from'' then
            checked_data 3 1 ''address'' v3 (checkMailAddress h v3) h (\<lambda>p. (Ok [], h[a := GMetadata (m\<lparr>moFrom := p\<rparr>)]))
          else if index = ''to'' then
            checked 3 ''table'' (CheckTable api v3) h (\<lambda>vs. (Ok [], h[a := GMetadata (m\<lparr>moTo := table_addresses h vs\<rparr>)]))
          else if index = ''date'' then number (\<lambda>n. m\<lparr>moDate := n\<rparr>)
          else if index = ''subject'' then string (\<lambda>s. m\<lparr>moSubject := s\<rparr>)
          else if index = ''size'' then number (\<lambda>n. m\<lparr>moSize := n\<rparr>)
          else (Err (InvalidIndex index), h)))"

subsection \<open>SMTP sessions and responses\<close>

definition newSMTPSession :: "lua_heap \<Rightarrow> lua_call" where
  [go_eval]: "newSMTPSession h =
     (let (p, h) = alloc (GSession \<lparr>soFrom = None, soTo = [], soRemoteAddr = []\<rparr>) h in (Ok [LUserData p], h))"

definition checkSMTPSession :: "lua_heap \<Rightarrow> lua_value \<Rightarrow> (nat \<times> session_obj) option" where
  [go_eval]: "checkSMTPSession h v = (case object_at h v of Some (a, GSession s) \<Rightarrow> Some (a, s) | _ \<Rightarrow> None)"

definition smtpSessionIndex :: "lua_api \<Rightarrow> lua_value \<Rightarrow> lua_value \<Rightarrow> lua_heap \<Rightarrow> lua_call" where
  [go_eval]: "smtpSessionIndex api v1 v2 h =
     checked_data 1 1 ''smtp_session'' v1 (checkSMTPSession h v1) h (\<lambda>(a, s). checked 2 ''string'' (CheckString api v2) h (\<lambda>field.
       (Ok [if field = ''from'' then wrapMailAddress (soFrom s)
            else if field = ''to'' then LTable (map wrapMailAddress (soTo s))
            else if field = ''remote_addr'' then LString (soRemoteAddr s)
            else LNil], h)))"

text \<open>\<open>smtp.allow()\<close>, \<open>smtp.defer()\<close> and \<open>smtp.deny(code, message)\<close>; only the last has arguments.\<close>

definition newSMTPResponse :: "lua_api \<Rightarrow> int \<Rightarrow> lua_value \<Rightarrow> lua_value \<Rightarrow> lua_heap \<Rightarrow> lua_call" where
  [go_eval]: "newSMTPResponse api action v1 v2 h =
     (let result = \<lambda>c t. (let (p, h) = alloc (GResponse \<lparr>Action = action, ErrorCode = c, ErrorMsg = t\<rparr>) h
                           in (Ok [LUserData p], h))
      in if action = ActionDeny then
           checked 1 ''number'' (OptInt api v1 550) h (\<lambda>c.
             checked 2 ''string'' (OptString api v2 ''Mail denied by policy'') h (\<lambda>t. result c t))
         else result 0 [])"

definition unwrapSMTPResponse :: "lua_heap \<Rightarrow> lua_value \<Rightarrow> SMTPResponse option" where
  [go_eval]: "unwrapSMTPResponse h v = (case object_at h v of Some (a, GResponse r) \<Rightarrow> Some r | _ \<Rightarrow> None)"

subsection \<open>The \<open>inbucket\<close> object\<close>

definition inbucket_at :: "lua_heap \<Rightarrow> nat \<Rightarrow> Inbucket option" where
  [go_eval]: "inbucket_at h a = (if a < length h then (case h ! a of GInbucket ib \<Rightarrow> Some ib | _ \<Rightarrow> None) else None)"

definition checkInbucket :: "lua_heap \<Rightarrow> lua_value \<Rightarrow> nat option" where
  [go_eval]: "checkInbucket h v = (case v of LUserData a \<Rightarrow> if inbucket_at h a \<noteq> None then Some a else None | _ \<Rightarrow> None)"

definition checkInbucketAfter :: "lua_heap \<Rightarrow> lua_value \<Rightarrow> (nat \<times> Inbucket) option" where
  [go_eval]: "checkInbucketAfter h v = (case v of LAfter a \<Rightarrow> map_option (Pair a) (inbucket_at h a) | _ \<Rightarrow> None)"

definition checkInbucketBefore :: "lua_heap \<Rightarrow> lua_value \<Rightarrow> (nat \<times> Inbucket) option" where
  [go_eval]: "checkInbucketBefore h v = (case v of LBefore a \<Rightarrow> map_option (Pair a) (inbucket_at h a) | _ \<Rightarrow> None)"

definition funcOrNil :: "nat option \<Rightarrow> lua_value" where
  [go_eval]: "funcOrNil f = (case f of None \<Rightarrow> LNil | Some f \<Rightarrow> LFunction f)"

definition inbucketIndex :: "lua_api \<Rightarrow> lua_value \<Rightarrow> lua_value \<Rightarrow> lua_heap \<Rightarrow> lua_call" where
  [go_eval]: "inbucketIndex api v1 v2 h =
     checked_data 1 1 ''inbucket'' v1 (checkInbucket h v1) h (\<lambda>a. checked 2 ''string'' (CheckString api v2) h (\<lambda>field.
       (Ok [if field = ''after'' then LAfter a else if field = ''before'' then LBefore a else LNil], h)))"

definition inbucketAfterIndex :: "lua_api \<Rightarrow> lua_value \<Rightarrow> lua_value \<Rightarrow> lua_heap \<Rightarrow> lua_call" where
  [go_eval]: "inbucketAfterIndex api v1 v2 h =
     checked_data 1 1 ''inbucket_after'' v1 (checkInbucketAfter h v1) h (\<lambda>(a, ib). checked 2 ''string'' (CheckString api v2) h (\<lambda>field.
       (Ok [if field = ''message_deleted'' then funcOrNil (After_MessageDeleted ib)
            else if field = ''message_stored'' then funcOrNil (After_MessageStored ib)
            else LNil], h)))"

definition inbucketAfterNewIndex :: "lua_api \<Rightarrow> lua_value \<Rightarrow> lua_value \<Rightarrow> lua_value \<Rightarrow> lua_heap \<Rightarrow> lua_call" where
  [go_eval]: "inbucketAfterNewIndex api v1 v2 v3 h =
     checked_data 1 1 ''inbucket_after'' v1 (checkInbucketAfter h v1) h (\<lambda>(a, ib). checked 2 ''string'' (CheckString api v2) h (\<lambda>index.
       let func = \<lambda>f. checked 3 ''function'' (CheckFunction api v3) h (\<lambda>x. (Ok [], h[a := GInbucket (f x)]))
       in if index = ''message_deleted'' then func (\<lambda>x. ib\<lparr>After_MessageDeleted := Some x\<rparr>)
          else if index = ''message_stored'' then func (\<lambda>x. ib\<lparr>After_MessageStored := Some x\<rparr>)
          else (Err (InvalidIndex index), h)))"

definition inbucketBeforeIndex :: "lua_api \<Rightarrow> lua_value \<Rightarrow> lua_value \<Rightarrow> lua_heap \<Rightarrow> lua_call" where
  [go_eval]: "inbucketBeforeIndex api v1 v2 h =
     checked_data 1 1 ''inbucket_before'' v1 (checkInbucketBefore h v1) h (\<lambda>(a, ib). checked 2 ''string'' (CheckString api v2) h (\<lambda>field.
       (Ok [if field = ''mail_from_accepted'' then funcOrNil (Before_MailFromAccepted ib)
            else if field = ''message_stored'' then funcOrNil (Before_MessageStored ib)
            else if field = ''rcpt_to_accepted'' then funcOrNil (Before_RcptToAccepted ib)
            else LNil], h)))"

definition inbucketBeforeNewIndex :: "lua_api \<Rightarrow> lua_value \<Rightarrow> lua_value \<Rightarrow> lua_value \<Rightarrow> lua_heap \<Rightarrow> lua_call" where
  [go_eval]: "inbucketBeforeNewIndex api v1 v2 v3 h =
     checked_data 1 1 ''inbucket_before'' v1 (checkInbucketBefore h v1) h (\<lambda>(a, ib). checked 2 ''string'' (CheckString api v2) h (\<lambda>index.
       let func = \<lambda>f. checked 3 ''function'' (CheckFunction api v3) h (\<lambda>x. (Ok [], h[a := GInbucket (f x)]))
       in if index = ''mail_from_accepted'' then func (\<lambda>x. ib\<lparr>Before_MailFromAccepted := Some x\<rparr>)
          else if index = ''message_stored'' then func (\<lambda>x. ib\<lparr>Before_MessageStored := Some x\<rparr>)
          else if index = ''rcpt_to_accepted'' then func (\<lambda>x. ib\<lparr>Before_RcptToAccepted := Some x\<rparr>)
          else (Err (InvalidIndex index), h)))"

end
