(* ===== verification/LuaHost.thy ===== *)
theory LuaHost
  imports LuaTypes Manager
begin

text \<open>
  \<open>pkg/extension/luahost/pool.go\<close> and \<open>lua.go\<close>: the pool of interpreter states and the handlers the host
  puts into the brokers. An \<open>LState\<close> is a cell with its content and whether it is closed; the pool holds
  indices of cells. The record \<open>script\<close> stands for the interpreter with the compiled script: running it
  in a new state, the \<open>inbucket\<close> object of a state, and a protected call of one of its functions.
\<close>

subsection \<open>The pool\<close>

record 'ls statePool =
  states :: "nat list"
  channels :: "string list"
  cells :: "('ls \<times> bool) list"

record 'ls script =
  run_script :: "string list \<Rightarrow> nat \<Rightarrow> lua_heap \<Rightarrow> 'ls option \<times> lua_heap"
  inbucket_of :: "'ls \<Rightarrow> nat option"
  call_fn :: "nat option \<Rightarrow> lua_value \<Rightarrow> 'ls \<Rightarrow> lua_heap \<Rightarrow> (lua_error, lua_value) result \<times> ('ls \<times> bool) \<times> lua_heap"

definition newStatePool :: "'ls statePool" where
  [go_eval]: "newStatePool = \<lparr>states = [], channels = [], cells = []\<rparr>"

text \<open>\<open>newState\<close>: \<open>None\<close> when the script fails.\<close>

definition newState :: "'ls script \<Rightarrow> 'ls statePool \<Rightarrow> lua_heap \<Rightarrow> nat option \<times> 'ls statePool \<times> lua_heap" where
  [go_eval]: "newState sc lp h =
     (case run_script sc (channels lp) (length (cells lp)) h of
        (None, h) \<Rightarrow> (None, lp, h)
      | (Some ls, h) \<Rightarrow> (Some (length (cells lp)), lp\<lparr>cells := cells lp @ [(ls, False)]\<rparr>, h))"

definition getState :: "'ls script \<Rightarrow> 'ls statePool \<Rightarrow> lua_heap \<Rightarrow> nat option \<times> 'ls statePool \<times> lua_heap" where
  [go_eval]: "getState sc lp h =
     (if states lp = [] then newState sc lp h
      else (Some (last (states lp)), lp\<lparr>states := butlast (states lp)\<rparr>, h))"

definition IsClosed :: "'ls statePool \<Rightarrow> nat \<Rightarrow> bool" where
  [go_eval]: "IsClosed lp i = snd (cells lp ! i)"

definition putState :: "nat \<Rightarrow> 'ls statePool \<Rightarrow> 'ls statePool" where
  [go_eval]: "putState i lp = (if IsClosed lp i then lp else lp\<lparr>states := states lp @ [i]\<rparr>)"

fun close_all :: "nat list \<Rightarrow> ('ls \<times> bool) list \<Rightarrow> ('ls \<times> bool) list" where
  "close_all [] cs = cs"
| "close_all (i # is) cs = close_all is (cs[i := (fst (cs ! i), True)])"

definition createChannel :: "string \<Rightarrow> 'ls statePool \<Rightarrow> 'ls statePool" where
  [go_eval]: "createChannel name lp =
     lp\<lparr>channels := List.insert name (channels lp), cells := close_all (states lp) (cells lp), states := []\<rparr>"

subsection \<open>The handlers\<close>

record 'ls luaHost =
  pool :: "'ls statePool"
  heap :: lua_heap

text \<open>\<open>prepareInbucketFuncCall\<close>: a state and its functions; a state without them is not put back.\<close>

definition prepareInbucketFuncCall :: "'ls script \<Rightarrow> 'ls luaHost \<Rightarrow> (nat \<times> Inbucket) option \<times> 'ls luaHost" where
  [go_eval]: "prepareInbucketFuncCall sc host =
     (case getState sc (pool host) (heap host) of
        (None, lp, h) \<Rightarrow> (None, \<lparr>pool = lp, heap = h\<rparr>)
      | (Some i, lp, h) \<Rightarrow>
          (case Option.bind (inbucket_of sc (fst (cells lp ! i))) (inbucket_at h) of
             None \<Rightarrow> (None, \<lparr>pool = lp, heap = h\<rparr>)
           | Some ib \<Rightarrow> (Some (i, ib), \<lparr>pool = lp, heap = h\<rparr>)))"

text \<open>
  The common part of the handlers: prepare, wrap the argument as a new object, call the function, and
  put the state back at the end.
\<close>

definition call_lua :: "'ls script \<Rightarrow> (Inbucket \<Rightarrow> nat option) \<Rightarrow> go_object \<Rightarrow> 'ls luaHost
    \<Rightarrow> (lua_error, lua_value) result option \<times> 'ls luaHost" where
  [go_eval]: "call_lua sc fn arg host =
     (case prepareInbucketFuncCall sc host of
        (None, host) \<Rightarrow> (None, host)
      | (Some (i, ib), host) \<Rightarrow>
          (let (p, h) = alloc arg (heap host) in
           case call_fn sc (fn ib) (LUserData p) (fst (cells (pool host) ! i)) h of
             (r, cell, h) \<Rightarrow>
               (Some r, \<lparr>pool = putState i ((pool host)\<lparr>cells := (cells (pool host))[i := cell]\<rparr>), heap = h\<rparr>)))"

definition handleAfterMessageDeleted :: "'ls script \<Rightarrow> metadata_obj \<Rightarrow> 'ls luaHost \<Rightarrow> 'ls luaHost" where
  [go_eval]: "handleAfterMessageDeleted sc msg host = snd (call_lua sc After_MessageDeleted (GMetadata msg) host)"

definition handleAfterMessageStored :: "'ls script \<Rightarrow> metadata_obj \<Rightarrow> 'ls luaHost \<Rightarrow> 'ls luaHost" where
  [go_eval]: "handleAfterMessageStored sc msg host = snd (call_lua sc After_MessageStored (GMetadata msg) host)"

definition handleBeforeMailFromAccepted :: "'ls script \<Rightarrow> session_obj \<Rightarrow> 'ls luaHost \<Rightarrow> SMTPResponse option \<times> 'ls luaHost" where
  [go_eval]: "handleBeforeMailFromAccepted sc session host =
     (case call_lua sc Before_MailFromAccepted (GSession session) host of
        (Some (Inr lval), host) \<Rightarrow> (unwrapSMTPResponse (heap host) lval, host)
      | (_, host) \<Rightarrow> (None, host))"

definition handleBeforeRcptToAccepted :: "'ls script \<Rightarrow> session_obj \<Rightarrow> 'ls luaHost \<Rightarrow> SMTPResponse option \<times> 'ls luaHost" where
  [go_eval]: "handleBeforeRcptToAccepted sc session host =
     (case call_lua sc Before_RcptToAccepted (GSession session) host of
        (Some (Inr lval), host) \<Rightarrow> (unwrapSMTPResponse (heap host) lval, host)
      | (_, host) \<Rightarrow> (None, host))"

definition LVIsFalse :: "lua_value \<Rightarrow> bool" where
  [go_eval]: "LVIsFalse v \<longleftrightarrow> v = LNil \<or> v = LBool False"

text \<open>The result is a pointer to the message the script has returned.\<close>

definition handleBeforeMessageStored :: "'ls script \<Rightarrow> inbound_obj \<Rightarrow> 'ls luaHost \<Rightarrow> nat option \<times> 'ls luaHost" where
  [go_eval]: "handleBeforeMessageStored sc msg host =
     (case call_lua sc Before_MessageStored (GInbound msg) host of
        (Some (Inr lval), host) \<Rightarrow>
          (if LVIsFalse lval then None else map_option fst (unwrapInboundMessage (heap host) lval), host)
      | (_, host) \<Rightarrow> (None, host))"

subsection \<open>The host\<close>

text \<open>Which brokers get the listener \<open>lua\<close>: those whose function is set in the first state.\<close>

record wiring =
  wire_deleted :: bool
  wire_stored :: bool
  wire_mail_from :: bool
  wire_before_stored :: bool
  wire_rcpt_to :: bool

definition wireFunctions :: "Inbucket \<Rightarrow> wiring" where
  [go_eval]: "wireFunctions ib =
     \<lparr>wire_deleted = (After_MessageDeleted ib \<noteq> None), wire_stored = (After_MessageStored ib \<noteq> None),
      wire_mail_from = (Before_MailFromAccepted ib \<noteq> None), wire_before_stored = (Before_MessageStored ib \<noteq> None),
      wire_rcpt_to = (Before_RcptToAccepted ib \<noteq> None)\<rparr>"

datatype host_error = ScriptFailed | NoInbucket | ErrNoScript | ScriptIsDirectory | ScriptUnreadable | NotCompiled

text \<open>\<open>NewFromReader\<close>, after the script has compiled: \<open>NoInbucket\<close> is a fatal log message.\<close>

definition NewFromReader :: "'ls script \<Rightarrow> (host_error, 'ls luaHost \<times> wiring) result" where
  [go_eval]: "NewFromReader sc =
     (case getState sc newStatePool [] of
        (None, lp, h) \<Rightarrow> Err ScriptFailed
      | (Some i, lp, h) \<Rightarrow>
          (case Option.bind (inbucket_of sc (fst (cells lp ! i))) (inbucket_at h) of
             None \<Rightarrow> Err NoInbucket
           | Some ib \<Rightarrow> Ok (\<lparr>pool = putState i lp, heap = h\<rparr>, wireFunctions ib)))"

text \<open>
  \<open>New\<close>: without a path there is no host and no error. \<open>stat\<close> says of a path that exists whether it is a
  directory, \<open>read\<close> what the file holds, and \<open>compile\<close> is the parser and compiler of the interpreter.
\<close>

definition luahost_New :: "(string \<Rightarrow> bool option) \<Rightarrow> (string \<Rightarrow> string option) \<Rightarrow> (string \<Rightarrow> 'ls script option) \<Rightarrow> lua_config
    \<Rightarrow> (host_error, ('ls script \<times> 'ls luaHost \<times> wiring) option) result" where
  [go_eval]: "luahost_New stat read compile conf =
     (if lua_Path conf = [] then Ok None
      else case stat (lua_Path conf) of
        None \<Rightarrow> Err ErrNoScript
      | Some isdir \<Rightarrow>
          (if isdir then Err ScriptIsDirectory
           else case read (lua_Path conf) of
             None \<Rightarrow> Err ScriptUnreadable
           | Some source \<Rightarrow>
               (case compile source of
                  None \<Rightarrow> Err NotCompiled
                | Some sc \<Rightarrow> (case NewFromReader sc of Inl e \<Rightarrow> Err e | Inr (host, w) \<Rightarrow> Ok (Some (sc, host, w))))))"

text \<open>
  An event as the host gets it: its addresses are objects of their own. \<open>inbound_value\<close> reads a message
  back, if none of its pointers is nil except that of the sender.
\<close>

definition place_address :: "address option \<Rightarrow> lua_heap \<Rightarrow> nat option \<times> lua_heap" where
  [go_eval]: "place_address a h = (case a of None \<Rightarrow> (None, h) | Some x \<Rightarrow> (Some (length h), h @ [GAddress x]))"

fun place_addresses :: "address list \<Rightarrow> lua_heap \<Rightarrow> nat option list \<times> lua_heap" where
  "place_addresses [] h = ([], h)"
| "place_addresses (x # xs) h =
     (let (ps, h') = place_addresses xs (h @ [GAddress x]) in (Some (length h) # ps, h'))"

definition place_inbound :: "InboundMessage \<Rightarrow> lua_heap \<Rightarrow> inbound_obj \<times> lua_heap" where
  [go_eval]: "place_inbound m h =
     (let (f, h) = place_address (imFrom m) h; (ts, h) = place_addresses (imTo m) h
      in (\<lparr>ioMailboxes = imMailboxes m, ioFrom = f, ioTo = ts, ioSubject = imSubject m, ioSize = imSize m\<rparr>, h))"

definition address_at :: "lua_heap \<Rightarrow> nat \<Rightarrow> address option" where
  [go_eval]: "address_at h a = (if a < length h then (case h ! a of GAddress x \<Rightarrow> Some x | _ \<Rightarrow> None) else None)"

fun addresses_at :: "lua_heap \<Rightarrow> nat option list \<Rightarrow> address list option" where
  "addresses_at h [] = Some []"
| "addresses_at h (p # ps) =
     Option.bind (Option.bind p (address_at h)) (\<lambda>x. map_option ((#) x) (addresses_at h ps))"

definition inbound_value :: "lua_heap \<Rightarrow> inbound_obj \<Rightarrow> InboundMessage option" where
  [go_eval]: "inbound_value h m =
     Option.bind (addresses_at h (ioTo m)) (\<lambda>ts.
       let result = \<lambda>f. \<lparr>imMailboxes = ioMailboxes m, imFrom = f, imTo = ts, imSubject = ioSubject m, imSize = ioSize m\<rparr>
       in case ioFrom m of None \<Rightarrow> Some (result None) | Some a \<Rightarrow> map_option (\<lambda>x. result (Some x)) (address_at h a))"

text \<open>The host as a listener of \<open>BeforeMessageStored\<close>, in the state it has when the event comes.\<close>

definition lua_listener :: "'ls script \<Rightarrow> 'ls luaHost \<Rightarrow> InboundMessage \<Rightarrow> InboundMessage option" where
  [go_eval]: "lua_listener sc host m =
     (let (msg, h) = place_inbound m (heap host) in
      case handleBeforeMessageStored sc msg (host\<lparr>heap := h\<rparr>) of
        (None, host) \<Rightarrow> None
      | (Some a, host) \<Rightarrow> (case heap host ! a of GInbound r \<Rightarrow> inbound_value (heap host) r | _ \<Rightarrow> None))"

text \<open>The host as a listener of the two events of SMTP sessions.\<close>

definition place_session :: "SMTPSession \<Rightarrow> lua_heap \<Rightarrow> session_obj \<times> lua_heap" where
  [go_eval]: "place_session ev h =
     (let (f, h) = place_address (ssFrom ev) h; (ts, h) = place_addresses (ssTo ev) h
      in (\<lparr>soFrom = f, soTo = ts, soRemoteAddr = ssRemoteAddr ev\<rparr>, h))"

definition lua_mail_from :: "'ls script \<Rightarrow> 'ls luaHost \<Rightarrow> SMTPSession \<Rightarrow> SMTPResponse option" where
  [go_eval]: "lua_mail_from sc host ev =
     (let (x, h) = place_session ev (heap host) in fst (handleBeforeMailFromAccepted sc x (host\<lparr>heap := h\<rparr>)))"

definition lua_rcpt_to :: "'ls script \<Rightarrow> 'ls luaHost \<Rightarrow> SMTPSession \<Rightarrow> SMTPResponse option" where
  [go_eval]: "lua_rcpt_to sc host ev =
     (let (x, h) = place_session ev (heap host) in fst (handleBeforeRcptToAccepted sc x (host\<lparr>heap := h\<rparr>)))"

end
