(* ===== verification/LuaProps.thy ===== *)
theory LuaProps
  imports LuaHost MemReach
begin

text \<open>
  The pool hands a state to one handler at a time; what a script sets in a message it reads back; and a
  script that redirects mail, from the Lua assignment to the mailboxes of the store.
\<close>

subsection \<open>The pool under every order of its operations\<close>

text \<open>
  The pool and the states that handlers hold: states are taken and put back, calls change the content
  of a held state (a script can close it), a handler that fails to find the functions drops its state,
  and channels are made at any time.
\<close>

inductive lua_reach :: "'ls script \<Rightarrow> 'ls statePool \<Rightarrow> nat list \<Rightarrow> bool" for sc where
  pool_new: "lua_reach sc newStatePool []"
| acquires: "lua_reach sc lp out \<Longrightarrow> getState sc lp h = (Some i, lp', h') \<Longrightarrow> lua_reach sc lp' (out @ [i])"
| fails: "lua_reach sc lp out \<Longrightarrow> getState sc lp h = (None, lp', h') \<Longrightarrow> lua_reach sc lp' out"
| calls: "lua_reach sc lp out \<Longrightarrow> i \<in> set out \<Longrightarrow> lua_reach sc (lp\<lparr>cells := (cells lp)[i := cell]\<rparr>) out"
| puts: "lua_reach sc lp out \<Longrightarrow> i \<in> set out \<Longrightarrow> lua_reach sc (putState i lp) (remove1 i out)"
| loses: "lua_reach sc lp out \<Longrightarrow> i \<in> set out \<Longrightarrow> lua_reach sc lp (remove1 i out)"
| opens: "lua_reach sc lp out \<Longrightarrow> lua_reach sc (createChannel name lp) out"

definition pool_ok :: "'ls statePool \<Rightarrow> nat list \<Rightarrow> bool" where
  [go_eval]: "pool_ok lp out \<longleftrightarrow> distinct (states lp @ out) \<and> list_all (\<lambda>i. i < length (cells lp)) (states lp @ out)
     \<and> list_all (\<lambda>i. \<not> IsClosed lp i) (states lp)"

lemma length_close_all [simp]: "length (close_all is cs) = length cs"
  by (induction "is" arbitrary: cs) auto

lemma pool_ok_get:
  assumes "pool_ok lp out" and "getState sc lp h = (Some i, lp', h')"
  shows "pool_ok lp' (out @ [i])" and "i \<notin> set out" and "\<not> IsClosed lp' i"
proof -
  have "pool_ok lp' (out @ [i]) \<and> i \<notin> set out \<and> \<not> IsClosed lp' i"
  proof (cases "states lp = []")
    case True
    with assms show ?thesis
      by (auto simp: getState_def newState_def pool_ok_def IsClosed_def list_all_iff split: option.splits prod.splits)
  next
    case False
    then obtain xs x where st: "states lp = xs @ [x]" by (metis append_butlast_last_id)
    with assms show ?thesis by (auto simp: getState_def pool_ok_def IsClosed_def)
  qed
  then show "pool_ok lp' (out @ [i])" "i \<notin> set out" "\<not> IsClosed lp' i" by auto
qed

lemma pool_ok_get_fails: "pool_ok lp out \<Longrightarrow> getState sc lp h = (None, lp', h') \<Longrightarrow> pool_ok lp' out"
  by (auto simp: getState_def newState_def split: option.splits prod.splits if_splits)

lemma pool_ok_calls: "pool_ok lp out \<Longrightarrow> i \<in> set out \<Longrightarrow> pool_ok (lp\<lparr>cells := (cells lp)[i := cell]\<rparr>) out"
  by (auto simp: pool_ok_def IsClosed_def list_all_iff nth_list_update)

lemma pool_ok_loses: "pool_ok lp out \<Longrightarrow> i \<in> set out \<Longrightarrow> pool_ok lp (remove1 i out)"
  by (erule remove1_split) (auto simp: pool_ok_def)

lemma pool_ok_puts: "pool_ok lp out \<Longrightarrow> i \<in> set out \<Longrightarrow> pool_ok (putState i lp) (remove1 i out)"
  by (erule remove1_split) (auto simp: pool_ok_def putState_def IsClosed_def)

lemma pool_ok_opens: "pool_ok lp out \<Longrightarrow> pool_ok (createChannel name lp) out"
  by (auto simp: pool_ok_def createChannel_def list_all_iff)

lemma lua_reach_ok: "lua_reach sc lp out \<Longrightarrow> pool_ok lp out"
proof (induction rule: lua_reach.induct)
  case pool_new
  show ?case by (simp add: pool_ok_def newStatePool_def)
next
  case (acquires lp out h i lp' h')
  then show ?case using pool_ok_get by blast
next
  case (fails lp out h lp' h')
  then show ?case using pool_ok_get_fails by blast
qed (simp_all add: pool_ok_calls pool_ok_puts pool_ok_loses pool_ok_opens)

text \<open>
  C11: in every order of handlers and channels no interpreter state is held by two handlers at once, or
  held and in the pool; the states of the pool are open; and the state the pool gives out is open and
  not held by anyone.
\<close>
theorem lua_state_exclusive:
  assumes "lua_reach sc lp out"
  shows "distinct out \<and> set out \<inter> set (states lp) = {} \<and> distinct (states lp) \<and> (\<forall>i\<in>set (states lp). \<not> IsClosed lp i)
    \<and> (\<forall>h i lp' h'. getState sc lp h = (Some i, lp', h') \<longrightarrow> i \<notin> set out \<and> \<not> IsClosed lp' i)"
proof -
  note ok = lua_reach_ok [OF assms]
  then show ?thesis using pool_ok_get(2,3) [OF ok] by (auto simp: pool_ok_def list_all_iff)
qed

text \<open>Arguments that are what they should be, and a script that sets the mailboxes of a message.\<close>

definition example_lua :: lua_api where
  [go_eval]: "example_lua =
     \<lparr>CheckString = (\<lambda>v. case v of LString s \<Rightarrow> Some s | _ \<Rightarrow> None), CheckInt64 = (\<lambda>v. case v of LNumber n \<Rightarrow> Some n | _ \<Rightarrow> None),
      CheckTable = (\<lambda>v. case v of LTable vs \<Rightarrow> Some vs | _ \<Rightarrow> None), CheckFunction = (\<lambda>v. case v of LFunction f \<Rightarrow> Some f | _ \<Rightarrow> None),
      OptInt = (\<lambda>v d. case v of LNumber n \<Rightarrow> Some n | LNil \<Rightarrow> Some d | _ \<Rightarrow> None),
      OptString = (\<lambda>v d. case v of LString s \<Rightarrow> Some s | LNil \<Rightarrow> Some d | _ \<Rightarrow> None)\<rparr>"

lemma example_lua_documented: "lua_documented example_lua"
  by (simp add: lua_documented_def example_lua_def)

definition redirect_call :: "lua_api \<Rightarrow> string list \<Rightarrow> lua_value \<Rightarrow> 'ls \<Rightarrow> lua_heap \<Rightarrow> (lua_error, lua_value) result \<times> ('ls \<times> bool) \<times> lua_heap" where
  [go_eval]: "redirect_call api mbs msg ls h =
     (case inboundMessageNewIndex api msg (LString ''mailboxes'') (LTable (map LString mbs)) h of
        (Inl e, h) \<Rightarrow> (Err e, (ls, False), h)
      | (Inr r, h) \<Rightarrow> (Ok msg, (ls, False), h))"

definition example_script :: "string list \<Rightarrow> nat script" where
  [go_eval]: "example_script mbs =
     \<lparr>run_script = (\<lambda>chs k h. (Some (length h), h @ [GInbucket (no_functions\<lparr>Before_MessageStored := Some 0\<rparr>)])),
      inbucket_of = Some,
      call_fn = (\<lambda>fn msg. redirect_call example_lua mbs msg)\<rparr>"

theorem lua_state_exclusive_witness:
  "\<exists>lp. lua_reach (example_script []) lp [0, 1] \<and> (\<forall>h i lp' h'. getState (example_script []) lp h = (Some i, lp', h') \<longrightarrow> i \<notin> {0, 1})"
proof -
  let ?sc = "example_script []"
  let ?p1 = "newStatePool\<lparr>cells := [(0, False)]\<rparr>" and ?p2 = "newStatePool\<lparr>cells := [(0, False), (0, False)]\<rparr>"
  have "getState ?sc newStatePool [] = (Some 0, ?p1, [GInbucket (no_functions\<lparr>Before_MessageStored := Some 0\<rparr>)])"
    "getState ?sc ?p1 [] = (Some 1, ?p2, [GInbucket (no_functions\<lparr>Before_MessageStored := Some 0\<rparr>)])"
    by (simp_all add: getState_def newState_def newStatePool_def example_script_def)
  from acquires [OF acquires [OF pool_new this(1)] this(2)] have r: "lua_reach ?sc ?p2 [0, 1]" by simp
  have "\<forall>h i lp' h'. getState ?sc ?p2 h = (Some i, lp', h') \<longrightarrow> i \<notin> {0, 1}"
    using lua_state_exclusive [OF r] by fastforce
  with r show ?thesis by blast
qed

subsection \<open>Messages in Lua\<close>

text \<open>The values of the fields a script may set.\<close>

definition field_value :: "lua_heap \<Rightarrow> string \<Rightarrow> lua_value \<Rightarrow> bool" where
  "field_value h f v \<longleftrightarrow>
     f = ''mailboxes'' \<and> (\<exists>ss. v = LTable (map LString ss))
   \<or> f = ''from'' \<and> unwrapMailAddress h v \<noteq> None
   \<or> f = ''to'' \<and> (\<exists>vs. v = LTable vs \<and> (\<forall>x\<in>set vs. unwrapMailAddress h x \<noteq> None))
   \<or> f = ''subject'' \<and> (\<exists>s. v = LString s)"

lemma unwrap_wrap: "unwrapMailAddress h v = Some p \<Longrightarrow> wrapMailAddress p = v"
  by (auto simp: unwrapMailAddress_def wrapMailAddress_def object_at_def split: if_splits lua_value.splits option.splits go_object.splits)

lemma table_addresses_wrap: "\<forall>x\<in>set vs. unwrapMailAddress h x \<noteq> None \<Longrightarrow> map wrapMailAddress (table_addresses h vs) = vs"
  by (induction vs) (auto simp: unwrap_wrap split: option.splits)

lemma table_strings_map [simp]: "table_strings (map LString ss) = ss"
  by (induction ss) auto

lemma inbound_at_self:
  "object_at h v = Some (a, GInbound m) \<Longrightarrow> checkInboundMessage h v = Some (a, m) \<and> a < length h \<and> v = LUserData a"
  by (auto simp: checkInboundMessage_def unwrapInboundMessage_def object_at_def split: lua_value.splits if_splits)

lemma inbound_at_update [simp]: "a < length h \<Longrightarrow> checkInboundMessage (h[a := GInbound m]) (LUserData a) = Some (a, m)"
  by (simp add: checkInboundMessage_def unwrapInboundMessage_def object_at_def)

definition inbound_field :: "inbound_obj \<Rightarrow> string \<Rightarrow> lua_value" where
  [go_eval]: "inbound_field m f =
     (if f = ''mailboxes'' then LTable (map LString (ioMailboxes m))
      else if f = ''from'' then wrapMailAddress (ioFrom m)
      else if f = ''to'' then LTable (map wrapMailAddress (ioTo m))
      else if f = ''subject'' then LString (ioSubject m)
      else if f = ''size'' then LNumber (ioSize m)
      else LNil)"

lemma checked_data_Some [simp]: "is_userdata v \<Longrightarrow> checked_data pos tpos e v (Some x) h f = f x"
  by (simp add: checked_data_def checked_def)

lemma inbound_userdata: "checkInboundMessage h v = Some x \<Longrightarrow> is_userdata v"
  by (auto simp: is_userdata_def checkInboundMessage_def unwrapInboundMessage_def object_at_def split: lua_value.splits)

lemma address_userdata: "checkMailAddress h v = Some x \<Longrightarrow> is_userdata v"
  by (auto simp: is_userdata_def checkMailAddress_def unwrapMailAddress_def object_at_def split: lua_value.splits if_splits)

lemma inbound_index:
  assumes "lua_documented api" and "checkInboundMessage h v = Some (a, m)"
  shows "inboundMessageIndex api v (LString f) h = (Ok [inbound_field m f], h)"
  using assms inbound_userdata [OF assms(2)] by (simp add: inboundMessageIndex_def inbound_field_def checked_def lua_documented_def)

lemma inbound_new_index:
  assumes api: "lua_documented api" and m: "checkInboundMessage h v = Some (a, m)" and f: "field_value h f x"
  shows "\<exists>m'. inboundMessageNewIndex api v (LString f) x h = (Ok [], h[a := GInbound m'])
    \<and> inbound_field m' f = x \<and> (\<forall>g. g \<noteq> f \<longrightarrow> inbound_field m' g = inbound_field m g)"
proof -
  have c: "CheckString api (LString s) = Some s" "CheckTable api (LTable vs) = Some vs" for s vs
    using api by (simp_all add: lua_documented_def)
  note defs = inboundMessageNewIndex_def inbound_userdata [OF m] checked_def c m
  from f consider ss where "f = ''mailboxes''" "x = LTable (map LString ss)" | p where "f = ''from''" "unwrapMailAddress h x = Some p"
    | vs where "f = ''to''" "x = LTable vs" "\<forall>y\<in>set vs. unwrapMailAddress h y \<noteq> None" | t where "f = ''subject''" "x = LString t"
    unfolding field_value_def by blast
  then show ?thesis
  proof cases
    case 1
    then show ?thesis by (intro exI [of _ "m\<lparr>ioMailboxes := ss\<rparr>"]) (simp add: defs inbound_field_def)
  next
    case 2
    then have "checkMailAddress h x = Some p" "wrapMailAddress p = x" by (simp_all add: checkMailAddress_def unwrap_wrap)
    with 2(1) address_userdata [OF this(1)] show ?thesis by (intro exI [of _ "m\<lparr>ioFrom := p\<rparr>"]) (simp add: defs inbound_field_def)
  next
    case 3
    with table_addresses_wrap [OF 3(3)] show ?thesis
      by (intro exI [of _ "m\<lparr>ioTo := table_addresses h vs\<rparr>"]) (simp add: defs inbound_field_def)
  next
    case 4
    then show ?thesis by (intro exI [of _ "m\<lparr>ioSubject := t\<rparr>"]) (simp add: defs inbound_field_def)
  qed
qed

text \<open>
  A field of a message that a script sets reads back as it was set, whichever it is, the other
  fields and all other objects stay as they are, and the size and unknown fields cannot be set.
\<close>
theorem lua_message_fields:
  assumes api: "lua_documented api" and msg: "object_at h v = Some (a, GInbound m)"
    and f: "field_value h f x" and g: "g \<noteq> f"
  shows "\<exists>h'. inboundMessageNewIndex api v (LString f) x h = (Ok [], h') \<and> inboundMessageIndex api v (LString f) h' = (Ok [x], h')
    \<and> fst (inboundMessageIndex api v (LString g) h') = fst (inboundMessageIndex api v (LString g) h)
    \<and> length h' = length h \<and> (\<forall>b. b \<noteq> a \<longrightarrow> h' ! b = h ! b)
    \<and> (g \<in> {''mailboxes'', ''from'', ''to'', ''subject''} \<or> (\<exists>e. inboundMessageNewIndex api v (LString g) x h = (Err e, h)))"
proof -
  note s = inbound_at_self [OF msg]
  from inbound_new_index [OF api _ f] s obtain m' where m': "inboundMessageNewIndex api v (LString f) x h = (Ok [], h[a := GInbound m'])"
    "inbound_field m' f = x" "inbound_field m' g = inbound_field m g" using g by blast
  have "checkInboundMessage (h[a := GInbound m']) v = Some (a, m')" using s by simp
  note i = inbound_index [OF api this]
  have e: "g \<in> {''mailboxes'', ''from'', ''to'', ''subject''} \<or> (\<exists>e. inboundMessageNewIndex api v (LString g) x h = (Err e, h))"
    using conjunct1 [OF s] inbound_userdata [OF conjunct1 [OF s]] api by (simp add: inboundMessageNewIndex_def checked_def lua_documented_def)
  show ?thesis
    using s e m' i [of f] i [of g] inbound_index [OF api conjunct1 [OF s], of g]
    by (intro exI [of _ "h[a := GInbound m']"]) simp
qed

theorem lua_message_fields_witness:
  "\<exists>h'. inboundMessageNewIndex example_lua (LUserData 0) (LString ''subject'') (LString ''x'')
      [GInbound \<lparr>ioMailboxes = [''a''], ioFrom = None, ioTo = [], ioSubject = [], ioSize = 3\<rparr>] = (Ok [], h')
    \<and> inboundMessageIndex example_lua (LUserData 0) (LString ''subject'') h' = (Ok [LString ''x''], h')"
proof -
  let ?m = "\<lparr>ioMailboxes = [''a''], ioFrom = None, ioTo = [], ioSubject = [], ioSize = 3\<rparr>"
  have "object_at [GInbound ?m] (LUserData 0) = Some (0, GInbound ?m)" "field_value [GInbound ?m] ''subject'' (LString ''x'')"
    by (simp_all add: object_at_def field_value_def)
  from lua_message_fields [OF example_lua_documented this, of "''size''"] show ?thesis by auto
qed

subsection \<open>Mail that a script redirects\<close>

lemma place_addresses_at:
  "place_addresses xs h = (ps, h') \<Longrightarrow> (\<exists>ys. h' = h @ ys) \<and> addresses_at (h' @ zs) ps = Some xs"
proof (induction xs arbitrary: h ps h' zs)
  case (Cons x xs)
  obtain qs h2 where q: "place_addresses xs (h @ [GAddress x]) = (qs, h2)" by fastforce
  from Cons.IH [OF q] obtain ys where ys: "h2 = (h @ [GAddress x]) @ ys" "addresses_at (h2 @ zs) qs = Some xs" by blast
  have p: "ps = Some (length h) # qs" "h' = h2" using Cons.prems q by simp_all
  have "address_at (h2 @ zs) (length h) = Some x" by (simp add: ys(1) address_at_def nth_append)
  with ys p show ?case by simp
qed simp

lemma place_address_at:
  "place_address a h = (p, h') \<Longrightarrow> (\<exists>ys. h' = h @ ys)
    \<and> (case p of None \<Rightarrow> a = None | Some i \<Rightarrow> a \<noteq> None \<and> address_at (h' @ zs) i = a)"
  by (cases a) (auto simp: place_address_def address_at_def nth_append)

text \<open>A placed message reads back as it was, whatever is allocated behind it.\<close>

lemma place_inbound_value:
  assumes "place_inbound m h = (r, h')"
  shows "\<exists>ys. h' = h @ ys" and "inbound_value (h' @ zs) (r\<lparr>ioMailboxes := mbs\<rparr>) = Some (m\<lparr>imMailboxes := mbs\<rparr>)"
proof -
  obtain f h1 ts h2 where p: "place_address (imFrom m) h = (f, h1)" "place_addresses (imTo m) h1 = (ts, h2)" by fastforce
  from place_addresses_at [OF p(2), of zs] obtain ys where ys: "h2 = h1 @ ys" "addresses_at (h2 @ zs) ts = Some (imTo m)" by blast
  from place_address_at [OF p(1), of "ys @ zs"] obtain xs where xs: "h1 = h @ xs"
    "case f of None \<Rightarrow> imFrom m = None | Some i \<Rightarrow> imFrom m \<noteq> None \<and> address_at (h2 @ zs) i = imFrom m"
    unfolding ys(1) append_assoc by blast
  have r: "r = \<lparr>ioMailboxes = imMailboxes m, ioFrom = f, ioTo = ts, ioSubject = imSubject m, ioSize = imSize m\<rparr>" "h' = h2"
    using assms p by (simp_all add: place_inbound_def)
  then show "\<exists>ys. h' = h @ ys" using xs(1) ys(1) by simp
  show "inbound_value (h' @ zs) (r\<lparr>ioMailboxes := mbs\<rparr>) = Some (m\<lparr>imMailboxes := mbs\<rparr>)"
    using xs(2) ys(2) unfolding r by (cases f; cases m) (auto simp: inbound_value_def)
qed

lemma inbucket_at_append: "inbucket_at h a = Some ib \<Longrightarrow> inbucket_at (h @ ys) a = Some ib"
  by (auto simp: inbucket_at_def nth_append split: if_splits)

lemma NewFromReader_pool:
  assumes "NewFromReader sc = Ok (host, w)"
  shows "\<exists>ls a ib. pool host = \<lparr>states = [0], channels = [], cells = [(ls, False)]\<rparr> \<and> inbucket_of sc ls = Some a
    \<and> inbucket_at (heap host) a = Some ib \<and> w = wireFunctions ib"
  using assms
  by (auto simp: NewFromReader_def getState_def newState_def newStatePool_def putState_def IsClosed_def
      split: option.splits prod.splits Option.bind_splits)

text \<open>The listener of a script that sets the mailboxes of its message and returns it.\<close>

lemma lua_listener_redirects:
  assumes api: "lua_documented api" and host: "NewFromReader sc = Ok (host, w)" and w: "wire_before_stored w"
    and sc: "\<And>f v ls h. call_fn sc (Some f) v ls h = redirect_call api mbs v ls h"
  shows "lua_listener sc host m = Some (m\<lparr>imMailboxes := mbs\<rparr>)"
proof -
  from NewFromReader_pool [OF host] obtain ls a ib where p: "pool host = \<lparr>states = [0], channels = [], cells = [(ls, False)]\<rparr>"
    "inbucket_of sc ls = Some a" "inbucket_at (heap host) a = Some ib" "w = wireFunctions ib" by blast
  from w p(4) obtain f where f: "Before_MessageStored ib = Some f" by (auto simp: wireFunctions_def)
  obtain r h where r: "place_inbound m (heap host) = (r, h)" by fastforce
  from place_inbound_value(1) [OF r] p(3) inbucket_at_append have ib: "inbucket_at h a = Some ib" by blast
  let ?h = "h @ [GInbound (r\<lparr>ioMailboxes := mbs\<rparr>)]"
  have "checkInboundMessage (h @ [GInbound r]) (LUserData (length h)) = Some (length h, r)"
    by (simp add: checkInboundMessage_def unwrapInboundMessage_def object_at_def)
  then have "redirect_call api mbs (LUserData (length h)) ls (h @ [GInbound r]) = (Ok (LUserData (length h)), (ls, False), ?h)"
    using api by (simp add: redirect_call_def inboundMessageNewIndex_def is_userdata_def checked_def lua_documented_def)
  then have "handleBeforeMessageStored sc r (host\<lparr>heap := h\<rparr>)
      = (Some (length h), \<lparr>pool = \<lparr>states = [0], channels = [], cells = [(ls, False)]\<rparr>, heap = ?h\<rparr>)"
    using p(1,2) ib f sc
    by (simp add: handleBeforeMessageStored_def call_lua_def prepareInbucketFuncCall_def getState_def alloc_def putState_def
        IsClosed_def LVIsFalse_def unwrapInboundMessage_def object_at_def)
  then show ?thesis
    using r place_inbound_value(2) [OF r, of "[GInbound (r\<lparr>ioMailboxes := mbs\<rparr>)]" mbs] by (simp add: lua_listener_def)
qed

text \<open>
  C10: a script whose function for messages before they are stored sets the mailboxes and returns the
  message: started by the host and put into the broker, it decides where mail goes. Each of its
  mailboxes, and no other, gets a copy for every time it is named, with the trace headers; neither
  the recipients nor the storage policy matter.
\<close>
theorem lua_redirects_mail:
  assumes lua: "lua_documented api" "NewFromReader sc = Ok (host, w)" "wire_before_stored w"
      "\<And>f v ls h. call_fn sc (Some f) v ls h = redirect_call api mbs v ls h"
    and mg: "mgStore mg = mem_ops" "BeforeMessageStored mg = AddListener empty_broker ''lua'' (lua_listener sc host)"
    and st: "mem_New cap None = Some s0" "cap \<le> 0" "mem_run s0 s"
    and run: "DecodeHeaders en source = Some header" "Deliver en mg now tstamp from recipients recvdHeader source s = (err, s', evs)"
  shows "err = None \<and> map mdMailbox evs = mbs
    \<and> (\<forall>n. map sSource (mem_abs s' n) = map sSource (mem_abs s n)
        @ replicate (count_list mbs n) (Some (ReturnPath (Address (oAddress from)) @ Received_for recvdHeader n tstamp @ source)))"
proof -
  have "destinations mg m recipients = mbs" for m
    by (simp add: destinations_def mg(2) Emit_def AddListener_def RemoveListener_def empty_broker_def
        lua_listener_redirects [OF lua])
  then show ?thesis using capped.Deliver_copies [OF mem_run_capped [OF st(1,3)] st(2) mg(1) run] by simp
qed

theorem lua_redirects_mail_witness:
  "\<exists>s' evs. Deliver example_enmime (example_mg\<lparr>BeforeMessageStored := AddListener empty_broker ''lua''
        (lua_listener (example_script [''x'', ''y'']) (fst (projr (NewFromReader (example_script [''x'', ''y''])))))\<rparr>)
      5 ''t'' example_origin [example_rcpt ''a'' ''x.y''] ''R'' ''hi'' (the (mem_New 0 None)) = (None, s', evs)
    \<and> map mdMailbox evs = [''x'', ''y'']"
proof -
  let ?sc = "example_script [''x'', ''y'']"
  let ?host = "fst (projr (NewFromReader ?sc))" and ?w = "snd (projr (NewFromReader ?sc))"
  let ?mg = "example_mg\<lparr>BeforeMessageStored := AddListener empty_broker ''lua'' (lua_listener ?sc ?host)\<rparr>"
  have l: "NewFromReader ?sc = Ok (?host, ?w)" "wire_before_stored ?w"
    by (simp_all add: NewFromReader_def getState_def newState_def newStatePool_def example_script_def inbucket_at_def
        putState_def IsClosed_def wireFunctions_def)
  have c: "call_fn ?sc (Some f) v ls h = redirect_call example_lua [''x'', ''y''] v ls h" for f v ls h
    by (simp add: example_script_def)
  have mg: "mgStore ?mg = mem_ops" "BeforeMessageStored ?mg = AddListener empty_broker ''lua'' (lua_listener ?sc ?host)"
    by (simp_all add: example_mg_def)
  have dec: "DecodeHeaders example_enmime ''hi'' = Some ()" by (simp add: example_enmime_def)
  obtain err s' evs where d: "Deliver example_enmime ?mg 5 ''t'' example_origin [example_rcpt ''a'' ''x.y''] ''R'' ''hi''
      (the (mem_New 0 None)) = (err, s', evs)" by (metis prod_cases3)
  from lua_redirects_mail [OF example_lua_documented l c mg example_unlimited order_refl run_refl dec d] d show ?thesis
    by (intro exI [of _ s'] exI [of _ evs]) (elim conjE; hypsubst; intro conjI; assumption)
qed

end
