(* ===== verification/EnforcerRace.thy ===== *)
theory EnforcerRace
  imports MemProps
begin

text \<open>
  The memory store with its size enforcer, when several goroutines use it: an operation changes a
  mailbox under the lock of that mailbox, drops the lock, and then sends its message to the enforcer
  and waits. In between, other goroutines run, and the enforcer takes the requests in any order. The
  state holds the messages whose requests wait, and an operation is one of the atomic steps.
\<close>

subsection \<open>The steps\<close>

record race =
  rs :: mem_store
  waiting_in :: "mem_message list"
  waiting_rm :: "mem_message list"
  evicting :: "mem_message option"
  panicked :: bool

text \<open>What a goroutine does under the lock: \<open>AddMessage\<close>, \<open>RemoveMessage\<close>, \<open>PurgeMessages\<close>.\<close>

definition race_add :: "message \<Rightarrow> string \<Rightarrow> race \<Rightarrow> race" where
  [go_eval]: "race_add message source r =
     (let (m, s) = withMailbox (rs r) (sMailbox message) (add_to_box (mcap (rs r)) message source)
      in r\<lparr>rs := s, waiting_in := waiting_in r @ [m]\<rparr>)"

definition race_remove :: "string \<Rightarrow> string \<Rightarrow> race \<Rightarrow> race" where
  [go_eval]: "race_remove mailbox i r =
     (case removeMessage (rs r) mailbox i of
        (None, s) \<Rightarrow> r\<lparr>rs := s\<rparr>
      | (Some m, s) \<Rightarrow> r\<lparr>rs := s, waiting_rm := waiting_rm r @ [m]\<rparr>)"

definition race_purge :: "string \<Rightarrow> race \<Rightarrow> race" where
  [go_eval]: "race_purge mailbox r =
     (let (messages, s) = withMailbox (rs r) mailbox (\<lambda>mb. (map snd (mb_messages mb), mb\<lparr>mb_messages := []\<rparr>))
      in r\<lparr>rs := s, waiting_rm := waiting_rm r @ messages\<rparr>)"

text \<open>The enforcer: it receives a message, evicts one message or ends the eviction, receives a removal.\<close>

definition enforcer_receives :: "enforcer \<Rightarrow> mem_message \<Rightarrow> race \<Rightarrow> race" where
  [go_eval]: "enforcer_receives e m r =
     r\<lparr>rs := (rs r)\<lparr>enf := Some (e\<lparr>en_all := en_all e @ [entry m], en_cur := en_cur e + mm_Size m,
                                 en_els := fst (entry m) # en_els e\<rparr>)\<rparr>,
       waiting_in := remove1 m (waiting_in r), evicting := Some m\<rparr>"

definition enforcer_evicts :: "enforcer \<Rightarrow> race \<Rightarrow> race" where
  [go_eval]: "enforcer_evicts e r =
     (if en_cur e > en_max e then
        (case en_all e of
           [] \<Rightarrow> r\<lparr>panicked := True\<rparr>
         | ((mailbox, i), sz) # rest \<Rightarrow>
             (let (found, s) = removeMessage (rs r) mailbox i
              in r\<lparr>rs := s\<lparr>enf := Some (e\<lparr>en_all := rest, en_cur := (if found \<noteq> None then en_cur e - sz else en_cur e)\<rparr>)\<rparr>\<rparr>))
      else r\<lparr>evicting := None\<rparr>)"

definition enforcer_removes :: "enforcer \<Rightarrow> mem_message \<Rightarrow> race \<Rightarrow> race" where
  [go_eval]: "enforcer_removes e m r =
     (if fst (entry m) \<notin> set (en_els e) then r\<lparr>panicked := True\<rparr>
      else r\<lparr>rs := (rs r)\<lparr>enf := Some (e\<lparr>en_all := filter (\<lambda>x. fst x \<noteq> fst (entry m)) (en_all e),
                                      en_cur := en_cur e - mm_Size m\<rparr>)\<rparr>,
             waiting_rm := remove1 m (waiting_rm r)\<rparr>)"

text \<open>
  One step, \<open>None\<close> if it is not possible: a panic ends the process, the enforcer receives nothing while
  it evicts, and a number picks one of the goroutines that wait to send.
\<close>

datatype race_op = Adds message string | Removes string string | Purges string | ReceivesIn nat | Evicts | ReceivesRemove nat

definition race_exec :: "race_op \<Rightarrow> race \<Rightarrow> race option" where
  [go_eval]: "race_exec op r =
     (if panicked r then None
      else case enf (rs r) of
        None \<Rightarrow> None
      | Some e \<Rightarrow>
          (case op of
             Adds message source \<Rightarrow> Some (race_add message source r)
           | Removes mailbox i \<Rightarrow> Some (race_remove mailbox i r)
           | Purges mailbox \<Rightarrow> Some (race_purge mailbox r)
           | ReceivesIn n \<Rightarrow> if evicting r = None \<and> n < length (waiting_in r) then Some (enforcer_receives e (waiting_in r ! n) r) else None
           | Evicts \<Rightarrow> if evicting r \<noteq> None then Some (enforcer_evicts e r) else None
           | ReceivesRemove n \<Rightarrow> if evicting r = None \<and> n < length (waiting_rm r) then Some (enforcer_removes e (waiting_rm r ! n) r) else None))"

fun race_run :: "race_op list \<Rightarrow> race \<Rightarrow> race option" where
  "race_run [] r = Some r"
| "race_run (op # ops) r = (case race_exec op r of None \<Rightarrow> None | Some r \<Rightarrow> race_run ops r)"

definition race_start :: "mem_store \<Rightarrow> race" where
  [go_eval]: "race_start s = \<lparr>rs = s, waiting_in = [], waiting_rm = [], evicting = None, panicked = False\<rparr>"

text \<open>A client that removes no message before its \<open>AddMessage\<close> has returned.\<close>

definition under_way :: "race \<Rightarrow> (string \<times> string) list" where
  [go_eval]: "under_way r = map (fst \<circ> entry) (waiting_in r) @ (case evicting r of None \<Rightarrow> [] | Some m \<Rightarrow> [fst (entry m)])"

definition patient :: "race_op \<Rightarrow> race \<Rightarrow> bool" where
  [go_eval]: "patient op r \<longleftrightarrow>
     (case op of Removes mailbox i \<Rightarrow> (mailbox, i) \<notin> set (under_way r) | Purges mailbox \<Rightarrow> mailbox \<notin> fst ` set (under_way r) | _ \<Rightarrow> True)"

inductive race_reach :: "bool \<Rightarrow> mem_store \<Rightarrow> race \<Rightarrow> bool" for early s0 where
  race_init: "race_reach early s0 (race_start s0)"
| race_step: "race_reach early s0 r \<Longrightarrow> race_exec op r = Some r' \<Longrightarrow> early \<or> patient op r \<Longrightarrow> race_reach early s0 r'"

subsection \<open>The entries of the steps\<close>

lemma race_add_live:
  assumes "boxes_ok s" and "mcap s \<le> 0"
    and "withMailbox s (sMailbox msg) (add_to_box (mcap s) msg src) = (m, s')"
  shows "boxes_ok s'" and "live s' = insert (entry m) (live s)" and "enf s' = enf s" and "mcap s' = mcap s"
    and "fst (entry m) = (sMailbox msg, Utoa (Suc (mb_last (get_box s (sMailbox msg)))))"
    and "mb_last (get_box s' k) = (if k = sMailbox msg then Suc (mb_last (get_box s k)) else mb_last (get_box s k))"
proof -
  let ?n = "sMailbox msg"
  obtain mb' where a: "add_to_box (mcap s) msg src (get_box s ?n) = (m, mb')"
    and s': "s' = s\<lparr>boxes := AList.update ?n mb' (boxes s)\<rparr>"
    using assms(3) by (auto simp: withMailbox_def Let_def split: prod.splits)
  note sp = add_to_box_spec [OF get_box_ok [OF assms(1)] refl a]
  show "boxes_ok s'" using boxes_ok_update [OF assms(1) sp(1)] by (simp add: s')
  have "msgs_of s' k = (if k = ?n then msgs_of s k @ [m] else msgs_of s k)" for k
    using sp(2) assms(2) by (simp add: s' msgs_of_def keep_newest_def)
  then have "entry ` set (msgs_of s' k) = entry ` set (msgs_of s k) \<union> (if k = ?n then {entry m} else {})" for k by auto
  then have "live s' = live s \<union> (\<Union>k. if k = ?n then {entry m} else {})" unfolding live_def by (simp only: UN_Un_distrib)
  also have "(\<Union>k. if k = ?n then {entry m} else {}) = {entry m}" by auto
  finally show "live s' = insert (entry m) (live s)" by simp
  show "enf s' = enf s" "mcap s' = mcap s" by (simp_all add: s')
  show "fst (entry m) = (?n, Utoa (Suc (mb_last (get_box s ?n))))" by (simp add: sp(4))
  show "mb_last (get_box s' k) = (if k = ?n then Suc (mb_last (get_box s k)) else mb_last (get_box s k))"
    using sp(3) by (simp add: s')
qed

lemma race_remove_live:
  assumes "boxes_ok s" and "removeMessage s n i = (found, s')"
  shows "case found of None \<Rightarrow> live s' = live s \<and> (\<forall>x\<in>live s. fst x \<noteq> (n, i))
    | Some m \<Rightarrow> live s' = live s - {entry m} \<and> entry m \<in> live s \<and> fst (entry m) = (n, i)"
proof -
  note lv = live_remove [OF assms] and fnd = removeMessage_spec(4) [OF assms]
  have key: "x \<in> live s \<Longrightarrow> fst x = (n, i) \<Longrightarrow> \<exists>m. m \<in> set (msgs_of s n) \<and> mm_id m = i \<and> x = entry m" for x
    using msgs_of_mem [OF assms(1)] by (fastforce simp: live_def)
  show ?thesis
  proof (cases found)
    case None
    then have "i \<notin> mm_id ` set (msgs_of s n)" using fnd find_id_None by metis
    then have "\<forall>x\<in>live s. fst x \<noteq> (n, i)" using key by blast
    with lv None show ?thesis by auto
  next
    case (Some m)
    have m: "m \<in> set (msgs_of s n)" "mm_id m = i" using find_id_Some [OF fnd [symmetric, unfolded Some]] by auto
    have "x = entry m" if "x \<in> live s" "fst x = (n, i)" for x
    proof -
      from key [OF that] obtain m' where m': "m' \<in> set (msgs_of s n)" "mm_id m' = i" "x = entry m'" by blast
      with find_id_mem [OF msgs_of_distinct [OF assms(1)] m'(1)] fnd Some show ?thesis by simp
    qed
    moreover have "entry m \<in> live s" "fst (entry m) = (n, i)"
      using live_I [OF m(1)] msgs_of_mem [OF assms(1) m(1)] m(2) by auto
    ultimately have u: "{x \<in> live s. fst x \<noteq> (n, i)} = live s - {entry m}" "entry m \<in> live s" "fst (entry m) = (n, i)"
      by blast+
    with lv Some show ?thesis by (simp only: option.case)
  qed
qed

subsection \<open>The accounts of the enforcer\<close>

text \<open>
  The list \<open>all\<close> and the size \<open>cur\<close> of the enforcer, the keys \<open>els\<close> it has seen, and three sets of entries:
  those of messages that wait to be received (\<open>W\<close>), that are removed and wait to be told so (\<open>R\<close>), and
  that are in a mailbox (\<open>L\<close>). The size counts the list, and what is removed and has left the list.
\<close>

definition accounts :: "('k \<times> int) list \<Rightarrow> int \<Rightarrow> 'k set \<Rightarrow> ('k \<times> int) set \<Rightarrow> ('k \<times> int) set \<Rightarrow> ('k \<times> int) set \<Rightarrow> bool" where
  "accounts all cur els W R L \<longleftrightarrow>
     inj_on fst (set all \<union> W \<union> R \<union> L) \<and> distinct all \<and> finite W \<and> finite R
     \<and> set all \<inter> W = {} \<and> L \<subseteq> set all \<union> W \<and> L \<inter> R = {} \<and> set all \<union> W \<subseteq> L \<union> R
     \<and> cur = sum snd (set all \<union> (R - W))
     \<and> fst ` set all \<subseteq> els \<and> fst ` W \<inter> els = {} \<and> fst ` R \<subseteq> els \<union> fst ` W"

lemma accountsD:
  assumes "accounts all cur els W R L"
  shows "inj_on fst (set all \<union> W \<union> R \<union> L)" and "distinct all" and "finite W" and "finite R" and "set all \<inter> W = {}"
    and "L \<subseteq> set all \<union> W" and "L \<inter> R = {}" and "set all \<union> W \<subseteq> L \<union> R" and "cur = sum snd (set all \<union> (R - W))"
    and "fst ` set all \<subseteq> els" and "fst ` W \<inter> els = {}" and "fst ` R \<subseteq> els \<union> fst ` W"
  using assms by (simp_all add: accounts_def)

lemma accounts_same: "accounts all cur els W R L \<Longrightarrow> fst y = fst x \<Longrightarrow> y \<in> set all \<union> W \<union> R \<union> L \<Longrightarrow> x \<in> set all \<union> W \<union> R \<union> L \<Longrightarrow> y = x"
  by (rule inj_onD [OF accountsD(1)])

lemma accounts_add:
  assumes a: "accounts all cur els W R L" and x: "fst x \<notin> fst ` (set all \<union> W \<union> R \<union> L)" "fst x \<notin> els"
  shows "accounts all cur els (insert x W) R (insert x L)"
proof -
  note d = accountsD [OF a]
  have n: "x \<notin> set all" "x \<notin> R" "x \<notin> W" "x \<notin> L" using x(1) by blast+
  have e: "set all \<union> insert x W \<union> R \<union> insert x L = insert x (set all \<union> W \<union> R \<union> L)" by auto
  have "inj_on fst (insert x (set all \<union> W \<union> R \<union> L))" unfolding inj_on_insert using d(1) x(1) by blast
  moreover have "R - insert x W = R - W" using n(2) by auto
  moreover have "fst ` insert x W \<inter> els = {}" using d(11) x(2) by auto
  moreover have "set all \<inter> insert x W = {}" "insert x L \<subseteq> set all \<union> insert x W" "insert x L \<inter> R = {}"
    "set all \<union> insert x W \<subseteq> insert x L \<union> R" "fst ` R \<subseteq> els \<union> fst ` insert x W"
    using d(5-8,12) n by blast+
  ultimately show ?thesis using d unfolding accounts_def e by simp
qed

lemma accounts_take:
  assumes a: "accounts all cur els W R L" and x: "X \<subseteq> L" "finite X"
  shows "accounts all cur els W (R \<union> X) (L - X)"
proof -
  note d = accountsD [OF a]
  have u: "set all \<union> W \<union> (R \<union> X) \<union> (L - X) = set all \<union> W \<union> R \<union> L" using x(1) by auto
  have s: "set all \<union> (R \<union> X - W) = set all \<union> (R - W)" using d(6) x(1) by blast
  have X: "X \<subseteq> set all \<union> W" using d(6) x(1) by blast
  have "fst ` (R \<union> X) \<subseteq> els \<union> fst ` W" using d(10,12) X by blast
  moreover have "L - X \<subseteq> set all \<union> W" "(L - X) \<inter> (R \<union> X) = {}" "set all \<union> W \<subseteq> L - X \<union> (R \<union> X)"
    using d(6-8) by blast+
  ultimately show ?thesis using d x(2) unfolding accounts_def u s by simp
qed

lemma accounts_receive:
  assumes a: "accounts all cur els W R L" and x: "x \<in> W"
  shows "accounts (all @ [x]) (cur + snd x) (insert (fst x) els) (W - {x}) R L"
proof -
  note d = accountsD [OF a]
  have u: "set (all @ [x]) \<union> (W - {x}) \<union> R \<union> L = set all \<union> W \<union> R \<union> L" using x by auto
  have s: "set (all @ [x]) \<union> (R - (W - {x})) = insert x (set all \<union> (R - W))" by auto
  have n: "x \<notin> set all \<union> (R - W)" "x \<notin> set all" using d(5) x by blast+
  have "finite (set all \<union> (R - W))" using d(4) by simp
  then have "sum snd (insert x (set all \<union> (R - W))) = cur + snd x" using n d(9) by simp
  moreover have "fst y \<noteq> fst x" if "y \<in> W - {x}" for y using accounts_same [OF a, of y x] x that by blast
  then have "fst ` (W - {x}) \<inter> insert (fst x) els = {}" using d(11) by blast
  moreover have "set (all @ [x]) \<inter> (W - {x}) = {}" "L \<subseteq> set (all @ [x]) \<union> (W - {x})"
    "set (all @ [x]) \<union> (W - {x}) \<subseteq> L \<union> R" "fst ` set (all @ [x]) \<subseteq> insert (fst x) els"
    "fst ` R \<subseteq> insert (fst x) els \<union> fst ` (W - {x})" "distinct (all @ [x])" "finite (W - {x})"
    using d(2,3,5,6,8,10,12) x n(2) by auto
  ultimately show ?thesis using d(1,4,7) unfolding accounts_def u s by simp
qed

lemma accounts_evict:
  assumes a: "accounts (x # rest) cur els W R L"
  shows "accounts rest (if x \<in> L then cur - snd x else cur) els W R (L - {x})"
proof -
  note d = accountsD [OF a]
  have x: "x \<notin> set rest" "x \<notin> W" "x \<in> L \<or> x \<in> R" "x \<in> L \<longrightarrow> x \<notin> R" using d(2,5,7,8) by auto
  have i: "inj_on fst (set rest \<union> W \<union> R \<union> (L - {x}))" using d(1) by (rule inj_on_subset) auto
  have f: "finite (set rest \<union> (R - W))" using d(4) by simp
  have c: "cur = sum snd (insert x (set rest \<union> (R - W)))" using d(9) by simp
  have "(if x \<in> L then cur - snd x else cur) = sum snd (set rest \<union> (R - W))"
  proof (cases "x \<in> L")
    case True
    with x f c show ?thesis by simp
  next
    case False
    with x have "insert x (set rest \<union> (R - W)) = set rest \<union> (R - W)" by blast
    with False c show ?thesis by simp
  qed
  moreover have "set rest \<inter> W = {}" "L - {x} \<subseteq> set rest \<union> W" "(L - {x}) \<inter> R = {}" "set rest \<union> W \<subseteq> L - {x} \<union> R"
    "fst ` set rest \<subseteq> els" "distinct rest"
    using d(2,5-8,10) x(1,2) by auto
  ultimately show ?thesis using d(3,4,11,12) i unfolding accounts_def by simp
qed

lemma accounts_remove:
  assumes a: "accounts all cur els W R L" and x: "x \<in> R" "fst x \<in> els"
  shows "accounts (filter (\<lambda>y. fst y \<noteq> fst x) all) (cur - snd x) els W (R - {x}) L"
proof -
  note d = accountsD [OF a]
  have s: "set (filter (\<lambda>y. fst y \<noteq> fst x) all) = set all - {x}" using accounts_same [OF a _ _ _, of _ x] x(1) by auto
  have w: "x \<notin> W" using d(11) x(2) by blast
  have l: "x \<notin> L" using d(7) x(1) by blast
  have i: "inj_on fst (set all - {x} \<union> W \<union> (R - {x}) \<union> L)" using d(1) by (rule inj_on_subset) auto
  have f: "finite (set all \<union> (R - W))" using d(4) by simp
  have "set all - {x} \<union> (R - {x} - W) = set all \<union> (R - W) - {x}" by auto
  then have "cur - snd x = sum snd (set all - {x} \<union> (R - {x} - W))" using f x(1) w d(9) by (simp add: sum_diff1)
  moreover have "(set all - {x}) \<inter> W = {}" "L \<subseteq> set all - {x} \<union> W" "L \<inter> (R - {x}) = {}" "set all - {x} \<union> W \<subseteq> L \<union> (R - {x})"
    "fst ` (set all - {x}) \<subseteq> els" "fst ` (R - {x}) \<subseteq> els \<union> fst ` W" "finite (R - {x})"
    using d(4-8,10,12) l w by auto
  moreover have "distinct (filter (\<lambda>y. fst y \<noteq> fst x) all)" using d(2) by simp
  ultimately show ?thesis using d(3,11) i unfolding accounts_def s by simp
qed

text \<open>When nothing waits, the size is that of what is in the mailboxes.\<close>

lemma accounts_quiet: "accounts all cur els {} {} L \<Longrightarrow> L = set all \<and> cur = sum snd L"
  by (auto simp: accounts_def)

subsection \<open>The invariant\<close>

definition numbered_key :: "mem_store \<Rightarrow> string \<times> string \<Rightarrow> bool" where
  "numbered_key s x \<longleftrightarrow> (\<exists>k \<le> mb_last (get_box s (fst x)). snd x = Utoa k)"

definition race_ok :: "race \<Rightarrow> bool" where
  "race_ok r \<longleftrightarrow> boxes_ok (rs r) \<and> mcap (rs r) \<le> 0 \<and> distinct (map entry (waiting_in r)) \<and> distinct (map entry (waiting_rm r))
     \<and> (\<exists>e. enf (rs r) = Some e
       \<and> accounts (en_all e) (en_cur e) (set (en_els e)) (entry ` set (waiting_in r)) (entry ` set (waiting_rm r)) (live (rs r))
       \<and> (\<forall>x\<in>set (en_els e) \<union> fst ` entry ` set (waiting_in r). numbered_key (rs r) x)
       \<and> (evicting r = None \<longrightarrow> en_cur e \<le> en_max e))"

lemma live_enf [simp]: "live (s\<lparr>enf := x\<rparr>) = live s" "numbered_key (s\<lparr>enf := x\<rparr>) y = numbered_key s y"
  by (simp_all add: live_def msgs_of_def numbered_key_def)

lemma live_finite: "boxes_ok s \<Longrightarrow> live s = set (entries s)"
proof
  assume ok: "boxes_ok s"
  show "set (entries s) \<subseteq> live s" by (rule entries_live [OF ok])
  show "live s \<subseteq> set (entries s)"
  proof
    fix x
    assume "x \<in> live s"
    then obtain n m where m: "m \<in> set (msgs_of s n)" "x = entry m" by (auto simp: live_def)
    then obtain mb where "map_of (boxes s) n = Some mb" "m \<in> set (box_msgs mb)"
      by (auto simp: msgs_of_def get_box_def box_msgs_def split: option.splits)
    with m(2) show "x \<in> set (entries s)" by (force simp: entries_def dest: map_of_SomeD)
  qed
qed

lemma remove1_entry:
  assumes "distinct (map entry xs)" and "m \<in> set xs"
  shows "entry ` set (remove1 m xs) = entry ` set xs - {entry m}" and "distinct (map entry (remove1 m xs))"
proof -
  obtain as bs where "xs = as @ m # bs" "remove1 m xs = as @ bs" by (rule remove1_split [OF assms(2)])
  with assms(1) show "entry ` set (remove1 m xs) = entry ` set xs - {entry m}" "distinct (map entry (remove1 m xs))"
    by auto
qed

lemma race_purge_live:
  assumes "boxes_ok s" and "withMailbox s n (\<lambda>mb. (map snd (mb_messages mb), mb\<lparr>mb_messages := []\<rparr>)) = (ms, s')"
  shows "boxes_ok s'" and "ms = msgs_of s n" and "live s' = live s - entry ` set ms" and "entry ` set ms \<subseteq> live s"
    and "distinct (map entry ms)" and "enf s' = enf s" and "mcap s' = mcap s" and "numbered_key s' x = numbered_key s x"
proof -
  let ?mb = "(get_box s n)\<lparr>mb_messages := []\<rparr>"
  have s': "s' = s\<lparr>boxes := AList.update n ?mb (boxes s)\<rparr>" and ms: "ms = msgs_of s n"
    using assms(2) by (auto simp: withMailbox_def msgs_of_def box_msgs_def)
  show "ms = msgs_of s n" by (rule ms)
  have "box_ok n ?mb" using get_box_ok [OF assms(1), of n] by (simp add: box_ok_def)
  then show "boxes_ok s'" using boxes_ok_update [OF assms(1)] by (simp add: s')
  have m: "msgs_of s' k = (if k = n then [] else msgs_of s k)" for k by (simp add: s' msgs_of_def box_msgs_def)
  have "entry y \<noteq> entry z" if "y \<in> set (msgs_of s n)" "z \<in> set (msgs_of s k)" "k \<noteq> n" for y z k
    using msgs_of_mem [OF assms(1) that(1)] msgs_of_mem [OF assms(1) that(2)] that(3) by (auto simp: entry_def)
  then have "entry ` set (msgs_of s' k) = entry ` set (msgs_of s k) - entry ` set ms" for k
    by (cases "k = n") (auto simp: m ms)
  then show "live s' = live s - entry ` set ms" unfolding live_def by auto
  show "entry ` set ms \<subseteq> live s" using live_I by (auto simp: ms)
  have "distinct (map fst (map entry ms))"
    using msgs_of_distinct [OF assms(1), of n] unfolding ms by (auto simp: distinct_map inj_on_def)
  then show "distinct (map entry ms)" using distinct_map by blast
  show "enf s' = enf s" "mcap s' = mcap s" "numbered_key s' x = numbered_key s x"
    by (simp_all add: s' numbered_key_def)
qed

text \<open>The steps of the goroutines.\<close>

lemma fresh_key:
  assumes "\<forall>x\<in>els \<union> fst ` W. numbered_key s x" and "accounts all cur els W R L"
    and "fst x = (n, Utoa (Suc (mb_last (get_box s n))))"
  shows "fst x \<notin> els" and "fst x \<notin> fst ` (set all \<union> W \<union> R \<union> L)"
proof -
  note d = accountsD [OF assms(2)]
  have "\<not> numbered_key s (fst x)" by (simp add: assms(3) numbered_key_def)
  then have "fst x \<notin> els \<union> fst ` W" using assms(1) by metis
  moreover have "fst ` (set all \<union> W \<union> R \<union> L) \<subseteq> els \<union> fst ` W" using d(6,10,12) by blast
  ultimately show "fst x \<notin> els" "fst x \<notin> fst ` (set all \<union> W \<union> R \<union> L)" by blast+
qed

lemma race_ok_add:
  assumes "race_ok r"
  shows "race_ok (race_add msg src r)"
proof -
  obtain m s where a: "withMailbox (rs r) (sMailbox msg) (add_to_box (mcap (rs r)) msg src) = (m, s)" by fastforce
  have ok: "boxes_ok (rs r)" "mcap (rs r) \<le> 0" using assms by (simp_all add: race_ok_def)
  from assms obtain e where e: "enf (rs r) = Some e"
    "accounts (en_all e) (en_cur e) (set (en_els e)) (entry ` set (waiting_in r)) (entry ` set (waiting_rm r)) (live (rs r))"
    "\<forall>x\<in>set (en_els e) \<union> fst ` entry ` set (waiting_in r). numbered_key (rs r) x" "evicting r = None \<longrightarrow> en_cur e \<le> en_max e"
    by (auto simp: race_ok_def)
  note st = race_add_live [OF ok a]
  note fr = fresh_key [OF e(3,2) st(5)]
  have mono: "numbered_key (rs r) x \<Longrightarrow> numbered_key s x" for x
    unfolding numbered_key_def st(6) by (auto intro: le_SucI)
  have "numbered_key s (fst (entry m))" unfolding numbered_key_def st(5,6) by auto
  with e(3) mono have "\<forall>x\<in>set (en_els e) \<union> fst ` entry ` set (waiting_in r @ [m]). numbered_key s x" by auto
  moreover have "entry m \<notin> entry ` set (waiting_in r)" using fr(2) by blast
  then have "distinct (map entry (waiting_in r @ [m]))" using assms by (auto simp: race_ok_def)
  moreover have "accounts (en_all e) (en_cur e) (set (en_els e)) (entry ` set (waiting_in r @ [m])) (entry ` set (waiting_rm r)) (live s)"
    using accounts_add [OF e(2) fr(2,1)] by (simp add: st(2))
  ultimately show ?thesis
    using assms e(1,4) st(1,3,4) unfolding race_ok_def by (simp add: race_add_def a)
qed

lemma race_ok_take:
  assumes "race_ok r" and "boxes_ok s" and "enf s = enf (rs r)" and "mcap s = mcap (rs r)" and "live s = live (rs r) - entry ` set ms"
    and "entry ` set ms \<subseteq> live (rs r)" and "distinct (map entry ms)" and "\<And>x. numbered_key s x = numbered_key (rs r) x"
  shows "race_ok (r\<lparr>rs := s, waiting_rm := waiting_rm r @ ms\<rparr>)"
proof -
  from assms(1) obtain e where e: "enf (rs r) = Some e"
    "accounts (en_all e) (en_cur e) (set (en_els e)) (entry ` set (waiting_in r)) (entry ` set (waiting_rm r)) (live (rs r))"
    "\<forall>x\<in>set (en_els e) \<union> fst ` entry ` set (waiting_in r). numbered_key (rs r) x" "evicting r = None \<longrightarrow> en_cur e \<le> en_max e"
    by (auto simp: race_ok_def)
  have "entry ` set ms \<inter> entry ` set (waiting_rm r) = {}" using accountsD(7) [OF e(2)] assms(6) by blast
  then have "distinct (map entry (waiting_rm r @ ms))" using assms(1,7) by (auto simp: race_ok_def)
  moreover have "accounts (en_all e) (en_cur e) (set (en_els e)) (entry ` set (waiting_in r)) (entry ` set (waiting_rm r @ ms)) (live s)"
    using accounts_take [OF e(2) assms(6)] by (simp add: assms(5) image_Un)
  ultimately show ?thesis using assms(1-4) e unfolding race_ok_def by (simp add: assms(8))
qed

lemma race_ok_remove:
  assumes "race_ok r"
  shows "race_ok (race_remove n i r)"
proof -
  obtain found s where a: "removeMessage (rs r) n i = (found, s)" by fastforce
  have ok: "boxes_ok (rs r)" using assms by (simp add: race_ok_def)
  note st = removeMessage_spec [OF ok a] and lv = race_remove_live [OF ok a]
  have k: "numbered_key s x = numbered_key (rs r) x" for x by (simp add: numbered_key_def st(3))
  show ?thesis
  proof (cases found)
    case None
    with race_ok_take [OF assms st(1,5,6), of "[]"] lv k show ?thesis by (simp add: race_remove_def a)
  next
    case (Some m)
    with race_ok_take [OF assms st(1,5,6), of "[m]"] lv k show ?thesis by (simp add: race_remove_def a)
  qed
qed

lemma race_ok_purge:
  assumes "race_ok r"
  shows "race_ok (race_purge n r)"
proof -
  obtain ms s where a: "withMailbox (rs r) n (\<lambda>mb. (map snd (mb_messages mb), mb\<lparr>mb_messages := []\<rparr>)) = (ms, s)" by fastforce
  have ok: "boxes_ok (rs r)" using assms by (simp add: race_ok_def)
  note st = race_purge_live [OF ok a]
  from race_ok_take [OF assms st(1,6,7,3,4,5,8)] show ?thesis by (simp add: race_purge_def a)
qed

text \<open>The steps of the enforcer.\<close>

lemma race_ok_receives:
  assumes "race_ok r" and "enf (rs r) = Some e" and m: "m \<in> set (waiting_in r)"
  shows "race_ok (enforcer_receives e m r)"
proof -
  have e: "accounts (en_all e) (en_cur e) (set (en_els e)) (entry ` set (waiting_in r)) (entry ` set (waiting_rm r)) (live (rs r))"
    "\<forall>x\<in>set (en_els e) \<union> fst ` entry ` set (waiting_in r). numbered_key (rs r) x" "distinct (map entry (waiting_in r))"
    using assms(1,2) by (auto simp: race_ok_def)
  note d = remove1_entry [OF e(3) m]
  have "accounts (en_all e @ [entry m]) (en_cur e + mm_Size m) (insert (fst (entry m)) (set (en_els e)))
      (entry ` set (remove1 m (waiting_in r))) (entry ` set (waiting_rm r)) (live (rs r))"
    using accounts_receive [OF e(1), of "entry m"] m by (simp add: d(1))
  moreover have "\<forall>x\<in>insert (fst (entry m)) (set (en_els e)) \<union> fst ` entry ` set (remove1 m (waiting_in r)). numbered_key (rs r) x"
  proof -
    have "numbered_key (rs r) (fst (entry m))" using e(2) m by blast
    with e(2) show ?thesis unfolding d(1) by blast
  qed
  ultimately show ?thesis using assms(1) d(2) unfolding race_ok_def by (simp add: enforcer_receives_def)
qed

lemma race_ok_evicts:
  assumes "race_ok r" and "enf (rs r) = Some e" and ev: "evicting r \<noteq> None"
  shows "race_ok (enforcer_evicts e r)"
proof (cases "en_cur e > en_max e")
  case False
  with assms show ?thesis by (simp add: race_ok_def enforcer_evicts_def)
next
  case True
  show ?thesis
  proof (cases "en_all e")
    case Nil
    with True assms show ?thesis by (simp add: race_ok_def enforcer_evicts_def)
  next
    case (Cons x rest)
    obtain n i sz where x: "x = ((n, i), sz)" by (metis prod.exhaust)
    obtain found s where a: "removeMessage (rs r) n i = (found, s)" by fastforce
    have ok: "boxes_ok (rs r)" using assms by (simp add: race_ok_def)
    note st = removeMessage_spec [OF ok a] and lv = race_remove_live [OF ok a]
    have e: "accounts (x # rest) (en_cur e) (set (en_els e)) (entry ` set (waiting_in r)) (entry ` set (waiting_rm r)) (live (rs r))"
      "\<forall>y\<in>set (en_els e) \<union> fst ` entry ` set (waiting_in r). numbered_key (rs r) y"
      using assms(1,2) Cons by (auto simp: race_ok_def)
    have f: "live s = live (rs r) - {x} \<and> (found \<noteq> None \<longleftrightarrow> x \<in> live (rs r))"
    proof (cases found)
      case None
      with lv x have "live s = live (rs r)" "x \<notin> live (rs r)" by auto
      with None show ?thesis by simp
    next
      case (Some m)
      with lv have m: "live s = live (rs r) - {entry m}" "entry m \<in> live (rs r)" "fst (entry m) = fst x" by (simp_all add: x)
      then have "entry m = x" using accounts_same [OF e(1) m(3)] by simp
      with m Some show ?thesis by simp
    qed
    have k: "numbered_key s y = numbered_key (rs r) y" for y by (simp add: numbered_key_def st(3))
    obtain y where y: "evicting r = Some y" using ev by auto
    have sx: "snd x = sz" by (simp add: x)
    show ?thesis
      using assms(1) True y accounts_evict [OF e(1), unfolded sx] e(2) f st(1,5,6) unfolding race_ok_def
      by (simp add: enforcer_evicts_def Cons x a k split del: if_split)
  qed
qed

lemma race_ok_removes:
  assumes "race_ok r" and "enf (rs r) = Some e" and m: "m \<in> set (waiting_rm r)" and ev: "evicting r = None"
  shows "race_ok (enforcer_removes e m r)"
proof (cases "fst (entry m) \<in> set (en_els e)")
  case False
  with assms(1) show ?thesis by (simp add: enforcer_removes_def race_ok_def)
next
  case True
  have e: "accounts (en_all e) (en_cur e) (set (en_els e)) (entry ` set (waiting_in r)) (entry ` set (waiting_rm r)) (live (rs r))"
    "distinct (map entry (waiting_rm r))" "\<forall>y\<in>set (en_els e) \<union> fst ` entry ` set (waiting_in r). numbered_key (rs r) y"
    "en_cur e \<le> en_max e"
    using assms(1,2) ev by (auto simp: race_ok_def)
  note d = remove1_entry [OF e(2) m]
  have "entry m \<in> entry ` set (waiting_rm r)" using m by simp
  from accounts_remove [OF e(1) this True] e(3,4) True assms(1) d show ?thesis
    unfolding race_ok_def by (simp add: enforcer_removes_def order_trans [of _ "en_cur e"])
qed

lemma race_exec_cases:
  assumes "race_exec op r = Some r'"
  obtains e where "enf (rs r) = Some e" "\<not> panicked r"
    "(\<exists>msg src. op = Adds msg src \<and> r' = race_add msg src r) \<or> (\<exists>n i. op = Removes n i \<and> r' = race_remove n i r)
      \<or> (\<exists>n. op = Purges n \<and> r' = race_purge n r)
      \<or> (\<exists>m\<in>set (waiting_in r). evicting r = None \<and> r' = enforcer_receives e m r)
      \<or> (evicting r \<noteq> None \<and> r' = enforcer_evicts e r)
      \<or> (\<exists>m\<in>set (waiting_rm r). evicting r = None \<and> r' = enforcer_removes e m r)"
  using assms by (auto simp: race_exec_def split: if_splits option.splits race_op.splits) (blast dest: nth_mem)+

lemma race_ok_exec:
  assumes "race_exec op r = Some r'" and "race_ok r"
  shows "race_ok r'"
  using assms(1)
proof (cases rule: race_exec_cases)
  case (1 e)
  from 1(3) show ?thesis
    using race_ok_add [OF assms(2)] race_ok_remove [OF assms(2)] race_ok_purge [OF assms(2)] race_ok_receives [OF assms(2) 1(1)]
      race_ok_evicts [OF assms(2) 1(1)] race_ok_removes [OF assms(2) 1(1)] by blast
qed

lemma race_max_exec:
  assumes "race_exec op r = Some r'" and "race_ok r"
  shows "map_option en_max (enf (rs r')) = map_option en_max (enf (rs r))"
  using assms(1)
proof (cases rule: race_exec_cases)
  case (1 e)
  have ok: "boxes_ok (rs r)" "mcap (rs r) \<le> 0" using assms(2) by (simp_all add: race_ok_def)
  have "enf (rs (race_add msg src r)) = enf (rs r)" for msg src
    using race_add_live(3) [OF ok] by (simp add: race_add_def split: prod.splits)
  moreover have "enf (rs (race_remove n i r)) = enf (rs r)" for n i
    using removeMessage_spec(5) [OF ok(1)] by (simp add: race_remove_def split: prod.splits option.splits)
  moreover have "enf (rs (race_purge n r)) = enf (rs r)" for n
    using race_purge_live(6) [OF ok(1)] by (simp add: race_purge_def split: prod.splits)
  moreover have "enf (rs (enforcer_receives e m r)) = Some (e\<lparr>en_all := en_all e @ [entry m], en_cur := en_cur e + mm_Size m,
      en_els := fst (entry m) # en_els e\<rparr>)" for m by (simp add: enforcer_receives_def)
  moreover have "map_option en_max (enf (rs (enforcer_evicts e r))) = Some (en_max e)"
    using 1(1) by (simp add: enforcer_evicts_def split: list.splits prod.splits)
  moreover have "map_option en_max (enf (rs (enforcer_removes e m r))) = Some (en_max e)" for m
    using 1(1) by (simp add: enforcer_removes_def)
  ultimately show ?thesis using 1(1,3) by auto
qed

lemma race_ok_start:
  assumes "mem_New cap (Some kb) = Some s0" and "ParseInt 64 kb = Some k" and "0 < k" and "cap \<le> 0"
  shows "race_ok (race_start s0)" and "map_option en_max (enf s0) = Some (k * 1024)" and "live s0 = {}"
proof -
  have s0: "s0 = \<lparr>boxes = [], mcap = cap, enf = Some \<lparr>en_max = k * 1024, en_all = [], en_cur = 0, en_els = []\<rparr>, deleted = []\<rparr>"
    using assms(1-3) by (simp add: mem_New_def Let_def)
  show l: "live s0 = {}" by (simp add: s0 live_def msgs_of_def get_box_def box_msgs_def)
  show "map_option en_max (enf s0) = Some (k * 1024)" by (simp add: s0)
  show "race_ok (race_start s0)"
    using assms(3,4) l by (simp add: race_ok_def race_start_def accounts_def s0 boxes_ok_def)
qed

lemma race_reach_ok:
  assumes "race_reach early s0 r" and "mem_New cap (Some kb) = Some s0" and "ParseInt 64 kb = Some k" and "0 < k" and "cap \<le> 0"
  shows "race_ok r \<and> map_option en_max (enf (rs r)) = Some (k * 1024)"
  using assms(1)
proof (induction rule: race_reach.induct)
  case race_init
  from race_ok_start [OF assms(2-5)] show ?case by (simp add: race_start_def)
next
  case (race_step r op r')
  then show ?case using race_ok_exec [OF race_step(2)] race_max_exec [OF race_step(2)] by simp
qed

text \<open>
  C13: in every interleaving of goroutines that use a memory store with a size limit and without a cap,
  also after a removal that came early: the stored messages exceed the limit by no more than the
  messages the enforcer has not received yet; and when no operation is under way, the enforcer's size is
  exactly that of the stored messages.
\<close>
theorem enforcer_accounts:
  assumes "mem_New cap (Some kb) = Some s0" and "ParseInt 64 kb = Some k" and "0 < k" and "cap \<le> 0"
    and "race_reach early s0 r" and "evicting r = None"
  shows "mem_bytes (rs r) \<le> k * 1024 + sum_list (map mm_Size (waiting_in r))
    \<and> (waiting_in r = [] \<and> waiting_rm r = [] \<longrightarrow> map_option en_cur (enf (rs r)) = Some (mem_bytes (rs r)))"
proof -
  from race_reach_ok [OF assms(5,1-4)] assms(6) obtain e where e: "boxes_ok (rs r)" "distinct (map entry (waiting_in r))" "enf (rs r) = Some e"
    "accounts (en_all e) (en_cur e) (set (en_els e)) (entry ` set (waiting_in r)) (entry ` set (waiting_rm r)) (live (rs r))"
    "en_cur e \<le> k * 1024" by (auto simp: race_ok_def)
  note d = accountsD [OF e(4)]
  let ?W = "entry ` set (waiting_in r)" and ?C = "set (en_all e) \<union> (entry ` set (waiting_rm r) - entry ` set (waiting_in r))"
  have "distinct (entries (rs r))" using entries_distinct [OF e(1)] distinct_map by blast
  then have bytes: "mem_bytes (rs r) = sum snd (live (rs r))"
    unfolding entries_bytes live_finite [OF e(1)] by (simp add: sum_list_distinct_conv_sum_set)
  have pos: "0 \<le> snd x" if "x \<in> ?C \<union> ?W" for x
  proof -
    have "x \<in> live (rs r) \<union> entry ` set (waiting_rm r)" using that d(8) by blast
    then show ?thesis by (auto simp: live_def)
  qed
  have "sum snd (live (rs r)) \<le> sum snd (?C \<union> ?W)" using d(6) pos by (intro sum_mono2) auto
  also have "?C \<inter> ?W = {}" using d(5) by blast
  then have "sum snd (?C \<union> ?W) = en_cur e + sum snd ?W" by (subst sum.union_disjoint) (simp_all add: d(9))
  also have "sum snd ?W = sum_list (map mm_Size (waiting_in r))"
    using sum_list_distinct_conv_sum_set [OF e(2), of snd] by (simp add: comp_def)
  finally have "mem_bytes (rs r) \<le> k * 1024 + sum_list (map mm_Size (waiting_in r))" using e(5) bytes by simp
  moreover have "map_option en_cur (enf (rs r)) = Some (mem_bytes (rs r))" if "waiting_in r = [] \<and> waiting_rm r = []"
    using accounts_quiet [of "en_all e" "en_cur e" "set (en_els e)" "live (rs r)"] e(3,4) that bytes by simp
  ultimately show ?thesis by blast
qed

subsection \<open>When the enforcer panics\<close>

text \<open>
  While no message is removed before its \<open>AddMessage\<close> returns, what waits is in its mailbox, and the
  message that is being delivered is the last of the list and fits without the others.
\<close>

definition fits_last :: "enforcer \<Rightarrow> mem_message \<Rightarrow> ((string \<times> string) \<times> int) set \<Rightarrow> bool" where
  "fits_last e m L \<longleftrightarrow>
     (en_cur e > en_max e \<longrightarrow> en_all e \<noteq> [] \<and> last (en_all e) = entry m \<and> entry m \<in> L \<and> en_cur e - mm_Size m \<le> en_max e)"

definition race_safe :: "race \<Rightarrow> bool" where
  "race_safe r \<longleftrightarrow> \<not> panicked r \<and> entry ` set (waiting_in r) \<subseteq> live (rs r)
     \<and> (\<forall>e m. enf (rs r) = Some e \<longrightarrow> evicting r = Some m \<longrightarrow> fits_last e m (live (rs r)))"

lemma race_safe_add: "race_ok r \<Longrightarrow> race_safe r \<Longrightarrow> race_safe (race_add msg src r)"
proof -
  assume ok: "race_ok r" and safe: "race_safe r"
  obtain m s where a: "withMailbox (rs r) (sMailbox msg) (add_to_box (mcap (rs r)) msg src) = (m, s)" by fastforce
  have "boxes_ok (rs r)" "mcap (rs r) \<le> 0" using ok by (simp_all add: race_ok_def)
  note st = race_add_live [OF this a]
  from safe show ?thesis by (auto simp: race_safe_def fits_last_def race_add_def a st(2,3))
qed

lemma race_safe_take:
  assumes "race_safe r" and "enf s = enf (rs r)" and "live s = live (rs r) - entry ` set ms"
    and "\<forall>m\<in>set ms. fst (entry m) \<notin> set (under_way r)"
  shows "race_safe (r\<lparr>rs := s, waiting_rm := waiting_rm r @ ms\<rparr>)"
proof -
  have "entry x \<notin> entry ` set ms" if "fst (entry x) \<in> set (under_way r)" for x
    using assms(4) that by (metis (no_types, lifting) imageE)
  moreover have "fst (entry x) \<in> set (under_way r)" if "x \<in> set (waiting_in r) \<or> evicting r = Some x" for x
    using that by (auto simp: under_way_def)
  ultimately have "entry x \<notin> entry ` set ms" if "x \<in> set (waiting_in r) \<or> evicting r = Some x" for x
    using that by blast
  then have "entry ` set (waiting_in r) \<inter> entry ` set ms = {}" "\<And>m. evicting r = Some m \<Longrightarrow> entry m \<notin> entry ` set ms"
    by blast+
  with assms(1-3) show ?thesis unfolding race_safe_def fits_last_def by simp blast
qed

lemma race_safe_remove:
  assumes "race_ok r" and "race_safe r" and "(n, i) \<notin> set (under_way r)"
  shows "race_safe (race_remove n i r)"
proof -
  obtain found s where a: "removeMessage (rs r) n i = (found, s)" by fastforce
  have ok: "boxes_ok (rs r)" using assms(1) by (simp add: race_ok_def)
  note st = removeMessage_spec(5) [OF ok a] and lv = race_remove_live [OF ok a]
  show ?thesis
  proof (cases found)
    case None
    with race_safe_take [OF assms(2) st, of "[]"] lv show ?thesis by (simp add: race_remove_def a)
  next
    case (Some m)
    with lv have "fst (entry m) = (n, i)" "live s = live (rs r) - entry ` set [m]" by simp_all
    with race_safe_take [OF assms(2) st, of "[m]"] assms(3) Some show ?thesis by (simp add: race_remove_def a)
  qed
qed

lemma race_safe_purge:
  assumes "race_ok r" and "race_safe r" and "n \<notin> fst ` set (under_way r)"
  shows "race_safe (race_purge n r)"
proof -
  obtain ms s where a: "withMailbox (rs r) n (\<lambda>mb. (map snd (mb_messages mb), mb\<lparr>mb_messages := []\<rparr>)) = (ms, s)" by fastforce
  have ok: "boxes_ok (rs r)" using assms(1) by (simp add: race_ok_def)
  note st = race_purge_live [OF ok a]
  have "\<forall>m\<in>set ms. fst (entry m) \<notin> set (under_way r)"
    using msgs_of_mem [OF ok, of _ n] assms(3) unfolding st(2) by (force simp: image_iff)
  from race_safe_take [OF assms(2) st(6,3) this] show ?thesis by (simp add: race_purge_def a)
qed

lemma race_safe_receives:
  assumes "race_ok r" and "race_safe r" and "enf (rs r) = Some e" and "m \<in> set (waiting_in r)" and "evicting r = None"
  shows "race_safe (enforcer_receives e m r)"
proof -
  have "en_cur e \<le> en_max e" using assms(1,3,5) by (simp add: race_ok_def)
  moreover have "entry m \<in> live (rs r)" using assms(2,4) by (auto simp: race_safe_def)
  moreover have "set (remove1 m (waiting_in r)) \<subseteq> set (waiting_in r)" by (rule set_remove1_subset)
  ultimately show ?thesis using assms(2) by (auto simp: race_safe_def fits_last_def enforcer_receives_def)
qed

lemma race_safe_removes:
  assumes "race_ok r" and "race_safe r" and "enf (rs r) = Some e" and "m \<in> set (waiting_rm r)" and "evicting r = None"
  shows "race_safe (enforcer_removes e m r)"
proof -
  have a: "accounts (en_all e) (en_cur e) (set (en_els e)) (entry ` set (waiting_in r)) (entry ` set (waiting_rm r)) (live (rs r))"
    using assms(1,3) by (auto simp: race_ok_def)
  note d = accountsD [OF a]
  have m: "entry m \<in> entry ` set (waiting_rm r)" using assms(4) by simp
  have "fst (entry m) \<notin> fst ` entry ` set (waiting_in r)"
  proof
    assume "fst (entry m) \<in> fst ` entry ` set (waiting_in r)"
    then obtain x where "x \<in> entry ` set (waiting_in r)" "fst x = fst (entry m)" by (metis imageE)
    moreover from this accounts_same [OF a this(2)] m have "x = entry m" by blast
    ultimately have "entry m \<in> live (rs r)" using assms(2) by (auto simp: race_safe_def)
    with d(7) m show False by blast
  qed
  with d(12) m have "fst (entry m) \<in> set (en_els e)" by blast
  with assms(2,5) show ?thesis by (simp add: race_safe_def enforcer_removes_def)
qed

lemma race_safe_evicts:
  assumes "race_ok r" and "race_safe r" and "enf (rs r) = Some e" and ev: "evicting r = Some m"
  shows "race_safe (enforcer_evicts e r)"
proof (cases "en_cur e > en_max e")
  case False
  with assms(2) show ?thesis by (simp add: race_safe_def enforcer_evicts_def)
next
  case True
  have fit: "en_all e \<noteq> []" "last (en_all e) = entry m" "entry m \<in> live (rs r)" "en_cur e - mm_Size m \<le> en_max e"
    using assms(2,3) ev True by (auto simp: race_safe_def fits_last_def)
  then obtain x rest where all: "en_all e = x # rest" by (cases "en_all e") auto
  obtain n i sz where x: "x = ((n, i), sz)" by (metis prod.exhaust)
  obtain found s where a: "removeMessage (rs r) n i = (found, s)" by fastforce
  have ok: "boxes_ok (rs r)" using assms(1) by (simp add: race_ok_def)
  note lv = live_remove [OF ok a] and rl = race_remove_live [OF ok a]
  have acc: "accounts (x # rest) (en_cur e) (set (en_els e)) (entry ` set (waiting_in r)) (entry ` set (waiting_rm r)) (live (rs r))"
    using assms(1,3) all by (auto simp: race_ok_def)
  note d = accountsD [OF acc]
  have same: "y = x" if "y \<in> live (rs r)" "fst y = (n, i)" for y
    using accounts_same [OF acc, of y x] that x by simp
  have "fst x = (n, i)" by (simp add: x)
  with same have "{y \<in> live (rs r). fst y \<noteq> (n, i)} = live (rs r) - {x}" by blast
  with lv have L: "live s = live (rs r) - {x}" by simp
  let ?e = "e\<lparr>en_all := rest, en_cur := (if found \<noteq> None then en_cur e - sz else en_cur e)\<rparr>"
  have "x \<in> live (rs r) \<union> entry ` set (waiting_rm r)" using d(8) by auto
  then obtain y where "x = entry y" by (auto simp: live_def)
  then have "0 \<le> snd x" by simp
  then have "0 \<le> sz" by (simp add: x)
  have "fits_last ?e m (live s)"
  proof (cases "rest = []")
    case True
    then have "x = entry m" using fit(2) all by simp
    then have "x \<in> live (rs r)" using fit(3) by simp
    then have "found \<noteq> None" using rl \<open>fst x = (n, i)\<close> by (cases found) auto
    moreover have "mm_Size m = sz" using \<open>x = entry m\<close> x by (simp add: entry_def)
    ultimately show ?thesis using fit(4) by (auto simp: fits_last_def)
  next
    case False
    then have "last rest = entry m" using fit(2) all by simp
    moreover from this have "x \<noteq> entry m" using d(2) False by (metis distinct.simps(2) last_in_set)
    ultimately show ?thesis using fit(3,4) False L \<open>0 \<le> sz\<close> by (auto simp: fits_last_def)
  qed
  moreover have "entry ` set (waiting_in r) \<subseteq> live s" using assms(2) d(5) L by (auto simp: race_safe_def)
  ultimately show ?thesis using assms(2) True ev by (simp add: race_safe_def enforcer_evicts_def all x a split del: if_split)
qed

lemma race_safe_exec:
  assumes "race_exec op r = Some r'" and "patient op r" and "race_ok r" and "race_safe r"
  shows "race_safe r'"
  using assms(1)
proof (cases rule: race_exec_cases)
  case (1 e)
  from 1(3) show ?thesis
    using race_safe_add [OF assms(3,4)] race_safe_remove [OF assms(3,4)] race_safe_purge [OF assms(3,4)]
      race_safe_receives [OF assms(3,4) 1(1)] race_safe_evicts [OF assms(3,4) 1(1)] race_safe_removes [OF assms(3,4) 1(1)] assms(2)
    by (auto simp: patient_def)
qed

lemma race_reach_safe:
  assumes "race_reach False s0 r" and "race_ok (race_start s0)"
  shows "race_ok r \<and> race_safe r"
  using assms(1)
proof (induction rule: race_reach.induct)
  case race_init
  show ?case using assms(2) by (simp add: race_safe_def race_start_def)
next
  case (race_step r op r')
  then show ?case using race_ok_exec [OF race_step(2)] race_safe_exec [OF race_step(2)] by simp
qed

text \<open>Runs of steps, of which none removes anything or any may.\<close>

definition adding :: "race_op \<Rightarrow> bool" where
  [go_eval]: "adding op \<longleftrightarrow> (case op of Removes n i \<Rightarrow> False | Purges n \<Rightarrow> False | _ \<Rightarrow> True)"

lemma race_run_reach:
  "race_reach early s0 r \<Longrightarrow> early \<or> list_all adding ops \<Longrightarrow> race_run ops r = Some r' \<Longrightarrow> race_reach early s0 r'"
proof (induction ops arbitrary: r)
  case (Cons op ops)
  then obtain r1 where r1: "race_exec op r = Some r1" "race_run ops r1 = Some r'" by (auto split: option.splits)
  have "early \<or> patient op r" using Cons.prems(2) by (auto simp: adding_def patient_def split: race_op.splits)
  from Cons.IH [OF race_step [OF Cons.prems(1) r1(1) this]] Cons.prems(2) r1(2) show ?case by auto
qed simp

definition race_mail :: message where
  [go_eval]: "race_mail = \<lparr>sMailbox = ''a'', sID = [], sFrom = None, sTo = [], sDate = 0, sSubject = [], sSource = None, sSize = 0, sSeen = False\<rparr>"

lemma race_early_run:
  assumes "mem_New cap (Some kb) = Some s0" and "ParseInt 64 kb = Some k" and "0 < k" and "cap \<le> 0"
  shows "\<exists>r. race_run [Adds race_mail [], Removes ''a'' ''1'', ReceivesRemove 0] (race_start s0) = Some r \<and> panicked r"
proof -
  have s0: "s0 = \<lparr>boxes = [], mcap = cap, enf = Some \<lparr>en_max = k * 1024, en_all = [], en_cur = 0, en_els = []\<rparr>, deleted = []\<rparr>"
    using assms(1-3) by (simp add: mem_New_def Let_def)
  show ?thesis using assms(4) unfolding s0 by (simp add: go_eval entry_def)
qed

text \<open>A text of 600 bytes, of which the store may hold one.\<close>

definition half_text :: string where
  "half_text = replicate 600 CHR ''x''"

lemma length_half_text [go_eval]: "length half_text = 600"
  by (simp add: half_text_def)

definition capped_run :: "race_op list" where
  [go_eval]: "capped_run =
     [Adds race_mail half_text, Adds race_mail half_text, ReceivesIn 0, Evicts, ReceivesIn 0, Evicts, Evicts, Evicts,
      Adds race_mail half_text, Adds race_mail half_text, ReceivesIn 0, Evicts, Evicts]"

lemma capped_run_panics:
  "\<exists>s r. mem_New 1 (Some ''1'') = Some s \<and> race_run capped_run (race_start s) = Some r \<and> panicked r"
  by (simp add: go_eval entry_def)



text \<open>A message is stored and received, another one is stored.\<close>

theorem enforcer_accounts_witness:
  "\<exists>s r. race_reach False s r \<and> waiting_in r \<noteq> [] \<and> mem_bytes (rs r) \<le> 1024 + sum_list (map mm_Size (waiting_in r))"
proof -
  obtain s where s: "mem_New 0 (Some ''1'') = Some s" by (simp add: go_eval)
  have k: "ParseInt 64 ''1'' = Some 1" by (simp add: go_eval)
  let ?ops = "[Adds race_mail half_text, ReceivesIn 0, Evicts, Adds race_mail half_text]"
  have "\<exists>r. race_run ?ops (race_start s) = Some r \<and> evicting r = None \<and> waiting_in r \<noteq> []"
    using s by (auto simp: go_eval entry_def)
  then obtain r where r: "race_run ?ops (race_start s) = Some r" "evicting r = None" "waiting_in r \<noteq> []" by blast
  have "list_all adding ?ops" by (simp add: adding_def)
  with r(1) race_run_reach [OF race_init, of False] have re: "race_reach False s r" by blast
  from enforcer_accounts [OF s k _ _ re r(2)] re r(3) show ?thesis by auto
qed

end
