(* ===== verification/EventOrder.thy ===== *)
theory EventOrder
  imports Manager MsgHub "HOL-Library.Multiset"
begin

text \<open>
  How a stored or deleted message reaches the hub. An asynchronous \<open>Emit\<close> (\<open>pkg/extension/async_broker.go\<close>) starts one
  goroutine per listener; those of \<open>msghub.New\<close> send an operation to the channel of the hub, which runs what it
  receives in order. The goroutines are scheduled in any order, so the hub may learn of a deletion before it
  learns of the message. The state is a memory store, the goroutines that have not sent yet, the
  channel and the hub; the steps are those of any number of clients, in any order.
\<close>

subsection \<open>The listeners of the hub\<close>

definition hub_stored :: "(MessageMetadata \<Rightarrow> 'l hub_op) AsyncEventBroker" where
  [go_eval]: "hub_stored = Async_AddListener empty_async ''msghub'' OpDispatch"

definition hub_deleted :: "(MessageMetadata \<Rightarrow> 'l hub_op) AsyncEventBroker" where
  [go_eval]: "hub_deleted = Async_AddListener empty_async ''msghub'' (\<lambda>msg. OpDelete (mdMailbox msg) (mdID msg))"

text \<open>The goroutines of the events, each as the operation it will send.\<close>

definition go_routines :: "(MessageMetadata \<Rightarrow> 'l hub_op) AsyncEventBroker \<Rightarrow> MessageMetadata list \<Rightarrow> 'l hub_op list" where
  [go_eval]: "go_routines broker evs = concat (map (\<lambda>ev. map (\<lambda>(l, e). l e) (Async_Emit broker ev)) evs)"

subsection \<open>The steps\<close>

record 'l watched =
  w_store :: mem_store
  routines :: "'l hub_op list"
  opChan :: "'l hub_op list"
  w_hub :: "'l Hub"

definition opChanLen :: nat where
  [go_eval]: "opChanLen = 100"

definition watch_start :: "mem_store \<Rightarrow> int \<Rightarrow> 'l watched" where
  [go_eval]: "watch_start s historyLen = \<lparr>w_store = s, routines = [], opChan = [], w_hub = hub_New historyLen\<rparr>"

text \<open>What an operation of the store leaves behind: its new state, and the goroutines of the events it emits.\<close>

definition emits_events :: "MessageMetadata list \<Rightarrow> mem_store \<Rightarrow> 'l watched \<Rightarrow> 'l watched" where
  [go_eval]: "emits_events stored_evs st w =
     w\<lparr>w_store := st,
       routines := routines w @ go_routines hub_deleted (drop (length (deleted (w_store w))) (deleted st))
         @ go_routines hub_stored stored_evs\<rparr>"

text \<open>One round of the loop of \<open>Deliver\<close>: the message is stored, then the event is emitted.\<close>

definition watch_store :: "message \<Rightarrow> 'l watched \<Rightarrow> 'l watched" where
  [go_eval]: "watch_store m w =
     (case AddMessage mem_ops (w_store w) m of
        (Inl e, st) \<Rightarrow> emits_events [] st w
      | (Inr i, st) \<Rightarrow> emits_events [(MakeMetadata m)\<lparr>mdID := i\<rparr>] st w)"

text \<open>The steps of the clients, of a goroutine that sends, and of the hub; \<open>None\<close> is that the step has to wait.\<close>

datatype watch_op = WStore message | WRemove string string | WPurge string | WSend nat | WRun

definition watch_exec :: "('l \<Rightarrow> hub_event list \<Rightarrow> bool) \<Rightarrow> watch_op \<Rightarrow> 'l watched \<Rightarrow> 'l watched option" where
  [go_eval]: "watch_exec fails op w =
     (case op of
        WStore m \<Rightarrow> Some (watch_store m w)
      | WRemove mailbox i \<Rightarrow> Some (emits_events [] (snd (RemoveMessage mem_ops (w_store w) mailbox i)) w)
      | WPurge mailbox \<Rightarrow> Some (emits_events [] (snd (PurgeMessages mem_ops (w_store w) mailbox)) w)
      | WSend k \<Rightarrow>
          if k < length (routines w) \<and> length (opChan w) < opChanLen
          then Some (w\<lparr>routines := take k (routines w) @ drop (Suc k) (routines w), opChan := opChan w @ [routines w ! k]\<rparr>)
          else None
      | WRun \<Rightarrow>
          (case opChan w of [] \<Rightarrow> None | q # qs \<Rightarrow> Some (w\<lparr>opChan := qs, w_hub := runOp fails q (w_hub w)\<rparr>)))"

text \<open>The keys of the messages that operations put into the history.\<close>

fun dispatched :: "'l hub_op list \<Rightarrow> (string \<times> string) list" where
  "dispatched [] = []"
| "dispatched (OpDispatch m # ops) = mkey m # dispatched ops"
| "dispatched (op # ops) = dispatched ops"

text \<open>A patient step deletes no message whose goroutine has not sent yet.\<close>

definition watch_patient :: "watch_op \<Rightarrow> 'l watched \<Rightarrow> bool" where
  [go_eval]: "watch_patient op w \<longleftrightarrow>
     (case op of
        WRemove mailbox i \<Rightarrow> (mailbox, i) \<notin> set (dispatched (routines w))
      | WPurge mailbox \<Rightarrow> mailbox \<notin> fst ` set (dispatched (routines w))
      | _ \<Rightarrow> True)"

fun watch_run :: "bool \<Rightarrow> ('l \<Rightarrow> hub_event list \<Rightarrow> bool) \<Rightarrow> watch_op list \<Rightarrow> 'l watched \<Rightarrow> 'l watched option" where
  "watch_run early fails [] w = Some w"
| "watch_run early fails (op # ops) w =
     (if early \<or> watch_patient op w
      then (case watch_exec fails op w of None \<Rightarrow> None | Some w \<Rightarrow> watch_run early fails ops w) else None)"

definition stored_keys :: "mem_store \<Rightarrow> (string \<times> string) set" where
  "stored_keys s = {(mb, i). i \<in> sID ` set (mem_abs s mb)}"

definition shown_keys :: "'l Hub \<Rightarrow> (string \<times> string) set" where
  "shown_keys h = (case history h of None \<Rightarrow> {} | Some r \<Rightarrow> mkey ` set (played r))"

subsection \<open>The events of the store\<close>

lemma go_routines_hub [simp]:
  "go_routines hub_stored evs = map OpDispatch evs"
  "go_routines hub_deleted evs = map (\<lambda>ev. OpDelete (mdMailbox ev) (mdID ev)) evs"
  by (induction evs) (simp_all add: go_routines_def hub_stored_def hub_deleted_def Async_AddListener_def
      Async_RemoveListener_def Async_Emit_def empty_async_def)

lemma add_deleted: "enf s = None \<Longrightarrow> mem_AddMessage s m = (r, s') \<Longrightarrow> deleted s' = deleted s"
  by (auto simp: mem_AddMessage_def enforcerDeliver_def withMailbox_def Let_def split: option.splits prod.splits)

lemma remove_deleted:
  assumes "mem_capped c s" and "mem_RemoveMessage s n i = (e, s')"
  shows "map (\<lambda>ev. OpDelete (mdMailbox ev) (mdID ev)) (drop (length (deleted s)) (deleted s'))
    = (if (n, i) \<in> stored_keys s then [OpDelete n i] else [])"
proof -
  obtain r s1 where r: "removeMessage s n i = (r, s1)" by fastforce
  have ok: "boxes_ok s" "enf s = None" using assms(1) by (simp_all add: mem_capped_def mem_ok_def)
  note sp = removeMessage_spec(4,5,7) [OF ok(1) r]
  have d: "deleted s' = deleted s1"
    using assms(2) r sp(2) ok(2) by (auto simp: mem_RemoveMessage_def enforcerRemove_def split: option.splits)
  have st: "(n, i) \<in> stored_keys s \<longleftrightarrow> i \<in> mm_id ` set (msgs_of s n)"
    by (auto simp: stored_keys_def mem_abs_def image_iff)
  show ?thesis
  proof (cases r)
    case None
    then have "i \<notin> mm_id ` set (msgs_of s n)" using sp(1) find_id_None by metis
    with d sp(3) None st show ?thesis by simp
  next
    case (Some m)
    with sp(1) find_id_Some have m: "m \<in> set (msgs_of s n)" "mm_id m = i" by metis+
    then have "mm_mailbox m = n" using msgs_of_mem [OF ok(1) m(1)] by simp
    moreover have "i \<in> mm_id ` set (msgs_of s n)" using m by blast
    ultimately show ?thesis using m d sp(3) Some st by (simp add: MakeMetadata_def to_message_def)
  qed
qed

text \<open>How the operations change the keys.\<close>

lemma stored_add:
  assumes "mem_capped c s" and "mem_AddMessage s m = (Ok i, s')"
  shows "stored_keys s' \<subseteq> insert (sMailbox m, i) (stored_keys s)"
    and "c \<le> 0 \<Longrightarrow> stored_keys s' = insert (sMailbox m, i) (stored_keys s)"
proof -
  have ok: "mem_ok s" "enf s = None" "mcap s = c" using assms(1) by (simp_all add: mem_capped_def)
  have a: "mem_abs s' = (mem_abs s)(sMailbox m := keep_newest c (mem_abs s (sMailbox m) @ [stored m i]))"
    using mem_AddMessage_spec(6) [OF ok(1) assms(2) refl ok(2)] ok(3) by simp
  have i: "sID (stored m i) = i" by (simp add: stored_def)
  show "stored_keys s' \<subseteq> insert (sMailbox m, i) (stored_keys s)"
  proof
    fix x assume "x \<in> stored_keys s'"
    then obtain mb y where x: "x = (mb, sID y)" "y \<in> set (mem_abs s' mb)" by (auto simp: stored_keys_def)
    have "y \<in> set (mem_abs s mb) \<or> mb = sMailbox m \<and> y = stored m i"
      using x(2) set_keep_newest [of c "mem_abs s mb @ [stored m i]"] by (cases "mb = sMailbox m") (auto simp: a)
    then show "x \<in> insert (sMailbox m, i) (stored_keys s)" using x(1) i by (auto simp: stored_keys_def)
  qed
  assume "c \<le> 0"
  then have "i' \<in> sID ` set (mem_abs s' mb) \<longleftrightarrow> (mb, i') = (sMailbox m, i) \<or> i' \<in> sID ` set (mem_abs s mb)" for mb i'
    using i by (auto simp: a keep_newest_def)
  then show "stored_keys s' = insert (sMailbox m, i) (stored_keys s)" unfolding stored_keys_def by blast
qed

lemma stored_remove:
  assumes "mem_capped c s" and "mem_RemoveMessage s n i = (e, s')"
  shows "stored_keys s' = stored_keys s - {(n, i)}"
  using mem_RemoveMessage_spec(3) [of s n i e s'] assms by (auto simp: mem_capped_def stored_keys_def image_iff split: if_splits)

lemma stored_purge:
  assumes "mem_capped c s" and "mem_PurgeMessages s n = (e, s')"
  shows "stored_keys s' = stored_keys s - {n} \<times> UNIV"
  using mem_PurgeMessages_spec(3) [of s n e s'] assms by (auto simp: mem_capped_def stored_keys_def image_iff split: if_splits)


subsection \<open>The accounts of the messages\<close>

lemma dispatched_append [simp]: "dispatched (xs @ ys) = dispatched xs @ dispatched ys"
  by (induction xs rule: dispatched.induct) simp_all

lemma dispatched_Cons: "dispatched (g # ops) = dispatched [g] @ dispatched ops"
  by (cases g) simp_all

lemma dispatched_standing: "dispatched ops = map (mkey \<circ> fst) (standing ops)"
  by (induction ops rule: standing.induct) simp_all

lemma dispatched_deletes [simp]: "dispatched (map (\<lambda>ev. OpDelete (f ev) (g ev)) evs) = []"
  by (induction evs) simp_all

definition del_op :: "string \<times> string \<Rightarrow> 'l hub_op" where
  "del_op k = OpDelete (fst k) (snd k)"

lemma del_op_simps [simp]: "OpDelete mb i = del_op k \<longleftrightarrow> k = (mb, i)" "del_op k = OpDelete mb i \<longleftrightarrow> k = (mb, i)"
  "OpDispatch m \<noteq> del_op k" "del_op k \<noteq> OpDispatch m" "del_op j = del_op k \<longleftrightarrow> j = k"
  by (auto simp: del_op_def prod_eq_iff)

text \<open>
  \<open>all\<close> is every operation so far: run by the hub, in the channel, or to be sent. Every stored message has one that
  dispatches it, and one that deletes it once it has left the store (unless the mailbox limit evicted
  it, which emits no event).
\<close>

definition accounted :: "int \<Rightarrow> mem_store \<Rightarrow> 'l hub_op list \<Rightarrow> bool" where
  "accounted c s all \<longleftrightarrow> mem_capped c s \<and> distinct (dispatched all)
     \<and> (\<forall>(mb, i)\<in>set (dispatched all). \<exists>k\<le>mb_last (get_box s mb). i = Utoa k)
     \<and> stored_keys s \<subseteq> set (dispatched all)
     \<and> (\<forall>k. del_op k \<in> set all \<longrightarrow> k \<in> set (dispatched all) - stored_keys s)
     \<and> (c \<le> 0 \<longrightarrow> (\<forall>k\<in>set (dispatched all) - stored_keys s. del_op k \<in> set all))"

lemma accountedD:
  assumes "accounted c s all"
  shows "mem_capped c s" and "distinct (dispatched all)"
    and "(mb, i) \<in> set (dispatched all) \<Longrightarrow> \<exists>k\<le>mb_last (get_box s mb). i = Utoa k"
    and "stored_keys s \<subseteq> set (dispatched all)"
    and "del_op k \<in> set all \<Longrightarrow> k \<in> set (dispatched all) \<and> k \<notin> stored_keys s"
    and "c \<le> 0 \<Longrightarrow> k \<in> set (dispatched all) \<Longrightarrow> k \<notin> stored_keys s \<Longrightarrow> del_op k \<in> set all"
proof -
  have "\<forall>k. del_op k \<in> set all \<longrightarrow> k \<in> set (dispatched all) - stored_keys s"
    and "c \<le> 0 \<longrightarrow> (\<forall>k\<in>set (dispatched all) - stored_keys s. del_op k \<in> set all)"
    using assms unfolding accounted_def by blast+
  then show "del_op k \<in> set all \<Longrightarrow> k \<in> set (dispatched all) \<and> k \<notin> stored_keys s"
    and "c \<le> 0 \<Longrightarrow> k \<in> set (dispatched all) \<Longrightarrow> k \<notin> stored_keys s \<Longrightarrow> del_op k \<in> set all" by blast+
qed (use assms in \<open>auto simp: accounted_def\<close>)

lemma accountedI:
  assumes "mem_capped c s" and "distinct (dispatched all)" and "stored_keys s \<subseteq> set (dispatched all)"
    and "\<And>mb i. (mb, i) \<in> set (dispatched all) \<Longrightarrow> \<exists>k\<le>mb_last (get_box s mb). i = Utoa k"
    and "\<And>k. del_op k \<in> set all \<Longrightarrow> k \<in> set (dispatched all) - stored_keys s"
    and "\<And>k. c \<le> 0 \<Longrightarrow> k \<in> set (dispatched all) - stored_keys s \<Longrightarrow> del_op k \<in> set all"
  shows "accounted c s all"
  unfolding accounted_def using assms by blast

lemma accounted_cong:
  assumes "accounted c s all" and "mset (dispatched all') = mset (dispatched all)" and "set all' = set all"
  shows "accounted c s all'"
proof -
  have s: "set (dispatched all') = set (dispatched all)" using assms(2) by (rule mset_eq_setD)
  have d: "distinct (dispatched all') = distinct (dispatched all)" using assms(2) by (rule mset_eq_imp_distinct_iff)
  show ?thesis using assms(1) unfolding accounted_def assms(3) s d .
qed

lemma accounted_add:
  assumes a: "accounted c s all" and r: "mem_AddMessage s m = (Ok i, s')"
  shows "accounted c s' (all @ [OpDispatch ((MakeMetadata m)\<lparr>mdID := i\<rparr>)])"
    and "(sMailbox m, i) \<notin> set (dispatched all)"
proof -
  let ?k = "(sMailbox m, i)"
  note d = accountedD [OF a]
  have ok: "mem_ok s" using d(1) by (simp add: mem_capped_def)
  note last = mem_AddMessage_last(1) [OF ok r] mem_AddMessage_last(2) [OF ok r refl]
  have key: "mkey ((MakeMetadata m)\<lparr>mdID := i\<rparr>) = ?k" by (simp add: mkey_def MakeMetadata_def)
  show new: "?k \<notin> set (dispatched all)"
  proof
    assume "?k \<in> set (dispatched all)"
    from d(3) [OF this] obtain j where "j \<le> mb_last (get_box s (sMailbox m))" "i = Utoa j" by blast
    with last(2) show False by simp
  qed
  have lt: "\<exists>k\<le>mb_last (get_box s' mb). i' = Utoa k" if "(mb, i') \<in> insert ?k (set (dispatched all))" for mb i'
  proof (cases "(mb, i') = ?k")
    case True
    with last(2) show ?thesis by auto
  next
    case False
    with that have "(mb, i') \<in> set (dispatched all)" by blast
    from d(3) [OF this] obtain k where "k \<le> mb_last (get_box s mb)" "i' = Utoa k" by blast
    with last(1) [of mb] show ?thesis by (intro exI [of _ k]) simp
  qed
  note st = stored_add [OF d(1) r]
  let ?all = "all @ [OpDispatch ((MakeMetadata m)\<lparr>mdID := i\<rparr>)]"
  have D: "set (dispatched ?all) = insert ?k (set (dispatched all))" "distinct (dispatched ?all)"
    "del_op k \<in> set ?all \<longleftrightarrow> del_op k \<in> set all" for k
    using key d(2) new by auto
  show "accounted c s' ?all"
  proof (rule accountedI)
    show "mem_capped c s'" by (rule mem_capped_steps(1) [OF d(1) r])
    show "stored_keys s' \<subseteq> set (dispatched ?all)" unfolding D using st(1) d(4) by blast
    show "\<exists>k\<le>mb_last (get_box s' mb). i' = Utoa k" if "(mb, i') \<in> set (dispatched ?all)" for mb i'
      using lt that unfolding D .
    show "k \<in> set (dispatched ?all) - stored_keys s'" if "del_op k \<in> set ?all" for k
      using d(5) [of k] that st(1) new unfolding D by blast
    show "del_op k \<in> set ?all" if "c \<le> 0" "k \<in> set (dispatched ?all) - stored_keys s'" for k
      using d(6) [OF that(1), of k] that st(2) unfolding D by blast
  qed (rule D(2))
qed

lemma accounted_delete:
  assumes a: "accounted c s all" and "mem_capped c s'" and "\<And>n. mb_last (get_box s' n) = mb_last (get_box s n)"
    and "stored_keys s' = stored_keys s - X"
    and "dispatched dels = []" and "\<And>k. del_op k \<in> set dels \<longleftrightarrow> k \<in> stored_keys s \<inter> X"
  shows "accounted c s' (all @ dels)"
proof -
  note d = accountedD [OF a]
  have D: "dispatched (all @ dels) = dispatched all" using assms(5) by simp
  have E: "del_op k \<in> set (all @ dels) \<longleftrightarrow> del_op k \<in> set all \<or> k \<in> stored_keys s \<inter> X" for k using assms(6) by simp
  show ?thesis
  proof (rule accountedI)
    show "stored_keys s' \<subseteq> set (dispatched (all @ dels))" unfolding D assms(4) using d(4) by blast
    show "\<exists>k\<le>mb_last (get_box s' mb). i = Utoa k" if "(mb, i) \<in> set (dispatched (all @ dels))" for mb i
      using d(3) that unfolding D assms(3) .
    show "k \<in> set (dispatched (all @ dels)) - stored_keys s'" if "del_op k \<in> set (all @ dels)" for k
      using d(4) d(5) [of k] that unfolding D E assms(4) by blast
    show "del_op k \<in> set (all @ dels)" if "c \<le> 0" "k \<in> set (dispatched (all @ dels)) - stored_keys s'" for k
      using d(6) [OF that(1), of k] that(2) unfolding D E assms(4) by blast
  qed (use assms(2) d(2) in \<open>simp_all only: D\<close>)
qed

text \<open>
  When clients are patient: a dispatched message whose deletion the hub has been sent is not standing,
  and what is still to be sent is not deleted.
\<close>

definition in_order :: "'l hub_op list \<Rightarrow> 'l hub_op list \<Rightarrow> bool" where
  "in_order ops rest \<longleftrightarrow> (\<forall>e\<in>set (standing ops). snd e \<longrightarrow> del_op (mkey (fst e)) \<notin> set ops)
     \<and> (\<forall>k\<in>set (dispatched rest). del_op k \<notin> set ops \<and> del_op k \<notin> set rest)"

lemma in_order_send:
  assumes "in_order ops (xs @ g # ys)"
  shows "in_order (ops @ [g]) (xs @ ys)"
proof -
  have o: "e \<in> set (standing ops) \<Longrightarrow> snd e \<Longrightarrow> del_op (mkey (fst e)) \<notin> set ops"
    and r: "k \<in> set (dispatched xs) \<union> set (dispatched [g]) \<union> set (dispatched ys)
      \<Longrightarrow> del_op k \<notin> set ops \<and> del_op k \<notin> set xs \<and> del_op k \<noteq> g \<and> del_op k \<notin> set ys" for e k
    using assms dispatched_append [of "[g]" ys] by (auto simp: in_order_def)
  have "\<forall>k\<in>set (dispatched (xs @ ys)). del_op k \<notin> set (ops @ [g]) \<and> del_op k \<notin> set (xs @ ys)" using r by auto
  moreover have "\<forall>e\<in>set (standing (ops @ [g])). snd e \<longrightarrow> del_op (mkey (fst e)) \<notin> set (ops @ [g])"
  proof (cases g)
    case (OpDispatch m)
    with o r [of "mkey m"] show ?thesis by (auto simp: standing_dispatch)
  next
    case (OpDelete mb i)
    with o show ?thesis by (fastforce simp: standing_delete)
  next
    case (OpAdd l)
    with o show ?thesis by (auto simp: standing_other del_op_def)
  next
    case (OpRemove l)
    with o show ?thesis by (auto simp: standing_other del_op_def)
  next
    case OpSync
    with o show ?thesis by (auto simp: standing_other del_op_def)
  qed
  ultimately show ?thesis by (simp add: in_order_def)
qed


text \<open>\<open>k\<close> bounds the number of messages so far.\<close>

definition watched_inv :: "bool \<Rightarrow> int \<Rightarrow> nat \<Rightarrow> nat \<Rightarrow> ('l \<Rightarrow> hub_event list \<Rightarrow> bool) \<Rightarrow> 'l watched \<Rightarrow> 'l hub_op list \<Rightarrow> bool" where
  "watched_inv early c n k fails w past \<longleftrightarrow> w_hub w = Start fails past (hub_New (int n))
     \<and> accounted c (w_store w) (past @ opChan w @ routines w)
     \<and> length (dispatched (past @ opChan w @ routines w)) \<le> k
     \<and> (early \<or> in_order (past @ opChan w) (routines w))"

lemma watched_deletes:
  fixes w :: "'l watched" and dels :: "'l hub_op list"
  assumes w: "watched_inv early c n k fails w past" and "mem_capped c s'"
    and "\<And>n. mb_last (get_box s' n) = mb_last (get_box (w_store w) n)"
    and "stored_keys s' = stored_keys (w_store w) - X"
    and "map (\<lambda>ev. OpDelete (mdMailbox ev) (mdID ev)) (drop (length (deleted (w_store w))) (deleted s')) = dels"
    and "\<And>k. del_op k \<in> set dels \<longleftrightarrow> k \<in> stored_keys (w_store w) \<inter> X"
    and "early \<or> X \<inter> set (dispatched (routines w)) = {}"
  shows "watched_inv early c n k fails (emits_events [] s' w) past"
proof -
  have "dispatched dels = []" using assms(5) by auto
  moreover have "accounted c (w_store w) (past @ opChan w @ routines w)" using w by (simp add: watched_inv_def)
  ultimately have "accounted c s' ((past @ opChan w @ routines w) @ dels)"
    using accounted_delete [of c "w_store w" _ s' X dels] assms(2,3,4,6) by blast
  moreover have "in_order (past @ opChan w) (routines w @ dels)" if "\<not> early"
    using w that assms(6,7) \<open>dispatched dels = []\<close> by (auto simp: watched_inv_def in_order_def)
  ultimately show ?thesis using w assms(5) by (auto simp: watched_inv_def emits_events_def)
qed

lemma watched_stores:
  assumes w: "watched_inv early c n k fails w past"
  shows "watched_inv early c n (Suc k) fails (watch_store m w) past"
proof -
  let ?all = "past @ opChan w @ routines w"
  have a: "accounted c (w_store w) ?all" using w by (simp add: watched_inv_def)
  then have e: "enf (w_store w) = None" using accountedD(1) [OF a] by (simp add: mem_capped_def)
  obtain r s' where r: "mem_AddMessage (w_store w) m = (r, s')" by fastforce
  have d: "deleted s' = deleted (w_store w)" by (rule add_deleted [OF e r])
  show ?thesis
  proof (cases r)
    case (Inl err)
    then have "sSource m = None"
      using mem_AddMessage_spec(4) [OF _ r] accountedD(1) [OF a] by (cases "sSource m") (auto simp: mem_capped_def)
    then have "s' = w_store w" using r by (simp add: mem_AddMessage_def)
    then have "watch_store m w = w" using r Inl by (simp add: watch_store_def mem_ops_def emits_events_def)
    with w show ?thesis by (simp add: watched_inv_def)
  next
    case (Inr i)
    let ?op = "OpDispatch ((MakeMetadata m)\<lparr>mdID := i\<rparr>)"
    note add = accounted_add [OF a, of m i s'] r Inr
    have del: "del_op (sMailbox m, i) \<notin> set ?all" using accountedD(5) [OF a] add by blast
    have k: "dispatched [?op] = [(sMailbox m, i)]" by (simp add: mkey_def MakeMetadata_def)
    have "in_order (past @ opChan w) (routines w @ [?op])" if "\<not> early"
      using w that del k by (auto simp: watched_inv_def in_order_def)
    moreover have "accounted c s' (past @ opChan w @ routines w @ [?op])" using add by simp
    ultimately show ?thesis
      using w r Inr d by (auto simp: watched_inv_def watch_store_def emits_events_def mem_ops_def)
  qed
qed

lemma watched_sends:
  assumes w: "watched_inv early c n k fails w past" and "routines w = xs @ g # ys"
  shows "watched_inv early c n k fails (w\<lparr>routines := xs @ ys, opChan := opChan w @ [g]\<rparr>) past"
proof -
  have a: "accounted c (w_store w) (past @ opChan w @ xs @ [g] @ ys)" using assms by (simp add: watched_inv_def)
  have "accounted c (w_store w) (past @ (opChan w @ [g]) @ xs @ ys)"
    by (rule accounted_cong [OF a]) (simp_all add: dispatched_Cons [of g ys] dispatched_Cons [of g "xs @ ys"] insert_commute)
  moreover have "early \<or> in_order (past @ (opChan w @ [g])) (xs @ ys)"
    using in_order_send [of "past @ opChan w" xs g ys] assms by (auto simp: watched_inv_def)
  ultimately show ?thesis
    using assms by (simp add: watched_inv_def dispatched_Cons [of g ys] dispatched_Cons [of g "xs @ ys"])
qed

fun store_count :: "watch_op list \<Rightarrow> nat" where
  "store_count [] = 0"
| "store_count (WStore m # ops) = Suc (store_count ops)"
| "store_count (op # ops) = store_count ops"

lemma store_count_Cons: "store_count (op # ops) = store_count [op] + store_count ops"
  by (cases op) simp_all

lemma watch_exec_inv:
  assumes w: "watched_inv early c n k fails w past" and p: "early \<or> watch_patient op w" and x: "watch_exec fails op w = Some w'"
  shows "\<exists>past'. watched_inv early c n (k + store_count [op]) fails w' past'"
proof (cases op)
  case (WStore m)
  with watched_stores [OF w] x show ?thesis by (auto simp: watch_exec_def)
next
  case (WRemove mb i)
  have cap: "mem_capped c (w_store w)" using w accountedD(1) by (auto simp: watched_inv_def)
  obtain e s' where r: "mem_RemoveMessage (w_store w) mb i = (e, s')" by fastforce
  have ok: "boxes_ok (w_store w)" using cap by (simp add: mem_capped_def mem_ok_def)
  have "watched_inv early c n k fails (emits_events [] s' w) past"
    using p mem_capped_steps(6) [OF cap r] mem_deletes_last(1) [OF r ok]
    by (intro watched_deletes [OF w _ _ stored_remove [OF cap r] remove_deleted [OF cap r]])
       (auto simp: WRemove watch_patient_def)
  with x r WRemove show ?thesis by (auto simp: watch_exec_def mem_ops_def)
next
  case (WPurge mb)
  have cap: "mem_capped c (w_store w)" using w accountedD(1) by (auto simp: watched_inv_def)
  obtain e s' where r: "mem_PurgeMessages (w_store w) mb = (e, s')" by fastforce
  have ok: "mem_ok (w_store w)" using cap by (simp add: mem_capped_def)
  let ?dels = "map (\<lambda>m. OpDelete mb (sID m)) (mem_abs (w_store w) mb)"
  have "map (\<lambda>ev. OpDelete (mdMailbox ev) (mdID ev)) (drop (length (deleted (w_store w))) (deleted s')) = ?dels"
    using mem_PurgeMessages_spec(6) [OF ok r] mem_abs_mailbox [OF ok] by (auto simp: MakeMetadata_def)
  moreover have "del_op k \<in> set ?dels \<longleftrightarrow> k \<in> stored_keys (w_store w) \<inter> {mb} \<times> UNIV" for k
    by (auto simp: stored_keys_def)
  moreover have "early \<or> {mb} \<times> UNIV \<inter> set (dispatched (routines w)) = {}"
    using p by (force simp: WPurge watch_patient_def)
  ultimately have "watched_inv early c n k fails (emits_events [] s' w) past"
    by (rule watched_deletes [OF w mem_capped_steps(5) [OF cap r] mem_deletes_last(2) [OF r] stored_purge [OF cap r]])
  with x r WPurge show ?thesis by (auto simp: watch_exec_def mem_ops_def)
next
  case (WSend j)
  then have "routines w = take j (routines w) @ routines w ! j # drop (Suc j) (routines w)"
    using x by (intro id_take_nth_drop) (auto simp: watch_exec_def split: if_splits)
  from watched_sends [OF w this] x WSend show ?thesis by (auto simp: watch_exec_def split: if_splits)
next
  case WRun
  then obtain q qs where q: "opChan w = q # qs" "w' = w\<lparr>opChan := qs, w_hub := runOp fails q (w_hub w)\<rparr>"
    using x by (auto simp: watch_exec_def split: list.splits)
  have "watched_inv early c n k fails w' (past @ [q])"
    using w q by (simp add: watched_inv_def Start_def)
  with WRun show ?thesis by auto
qed

lemma watch_run_inv:
  "watch_run early fails ops w = Some w' \<Longrightarrow> watched_inv early c n k fails w past
    \<Longrightarrow> \<exists>past'. watched_inv early c n (k + store_count ops) fails w' past'"
proof (induction ops arbitrary: w past k)
  case (Cons op ops)
  then obtain w1 where w1: "early \<or> watch_patient op w" "watch_exec fails op w = Some w1" "watch_run early fails ops w1 = Some w'"
    by (auto split: if_splits option.splits)
  from watch_exec_inv [OF Cons.prems(2) w1(1,2)] obtain past1
    where "watched_inv early c n (k + store_count [op]) fails w1 past1" by blast
  from Cons.IH [OF w1(3) this] show ?case by (simp only: store_count_Cons [of op ops] add.assoc)
qed auto

lemma watched_start: "mem_New c None = Some s \<Longrightarrow> watched_inv early c n 0 fails (watch_start s (int n)) []"
  using mem_New_spec(1-3) [of c None s]
  by (auto simp: watched_inv_def watch_start_def Start_def accounted_def mem_capped_def stored_keys_def in_order_def mem_New_def)

subsection \<open>What the hub shows\<close>

lemma standing_not_deleted: "e \<in> set (standing ops) \<Longrightarrow> del_op (mkey (fst e)) \<notin> set ops \<Longrightarrow> snd e"
  by (induction ops rule: standing.induct) (auto simp: del_op_def mkey_def)

lemma shown_start:
  assumes "0 < n" and "distinct (dispatched ops)" and "length (dispatched ops) \<le> n"
  shows "shown_keys (Start fails ops (hub_New (int n))) = (mkey \<circ> fst) ` {e \<in> set (standing ops). snd e}"
proof -
  have "last_n n (standing ops) = standing ops" using assms(3) by (simp add: dispatched_standing last_n_def)
  with hub_ring [OF assms(1), of ops fails] assms(2) show ?thesis
    by (auto simp: shown_keys_def dispatched_standing played_last_n)
qed

text \<open>
  C15: whatever the order in which clients, goroutines and hub take their steps: once all events have
  reached the hub, its history shows every message that is in the store, as long as no more messages
  were stored than the history holds. When no message is deleted before its event was sent, and
  there is no limit per mailbox, it shows nothing else.
\<close>
theorem hub_mirrors_store:
  assumes "mem_New cap None = Some s" and "0 < n" and "watch_run early fails ops (watch_start s (int n)) = Some w"
    and "store_count ops \<le> n" and "routines w = []" and "opChan w = []"
  shows "stored_keys (w_store w) \<subseteq> shown_keys (w_hub w)
    \<and> (\<not> early \<and> cap \<le> 0 \<longrightarrow> shown_keys (w_hub w) = stored_keys (w_store w))"
proof -
  from watch_run_inv [OF assms(3) watched_start [OF assms(1)]] obtain past
    where w: "watched_inv early cap n (store_count ops) fails w past" by auto
  then have a: "accounted cap (w_store w) past" and l: "length (dispatched past) \<le> n"
    and o: "early \<or> in_order past []" and h: "w_hub w = Start fails past (hub_New (int n))"
    using assms(4-6) by (simp_all add: watched_inv_def)
  note d = accountedD [OF a]
  note shown = shown_start [OF assms(2) d(2) l, of fails, folded h]
  have sub: "stored_keys (w_store w) \<subseteq> shown_keys (w_hub w)"
  proof
    fix k assume k: "k \<in> stored_keys (w_store w)"
    then have "k \<in> set (dispatched past)" using d(4) by blast
    then obtain e where e: "e \<in> set (standing past)" "mkey (fst e) = k" by (auto simp: dispatched_standing)
    moreover have "snd e" using standing_not_deleted [OF e(1)] d(5) [of k] e(2) k by blast
    ultimately show "k \<in> shown_keys (w_hub w)" by (auto simp: shown)
  qed
  moreover have "shown_keys (w_hub w) \<subseteq> stored_keys (w_store w)" if c: "\<not> early \<and> cap \<le> 0"
  proof
    fix k assume "k \<in> shown_keys (w_hub w)"
    then obtain e where e: "e \<in> set (standing past)" "snd e" "mkey (fst e) = k" by (auto simp: shown)
    then have "k \<in> set (dispatched past)" by (auto simp: dispatched_standing)
    moreover have "del_op k \<notin> set past" using o c e by (auto simp: in_order_def)
    ultimately show "k \<in> stored_keys (w_store w)" using d(6) [of k] c by blast
  qed
  ultimately show ?thesis by blast
qed

text \<open>A message is stored and announced; another is stored, the first is deleted, and the hub learns of both.\<close>

definition silent_listener :: "nat \<Rightarrow> hub_event list \<Rightarrow> bool" where
  [go_eval]: "silent_listener l es = False"

definition example_steps :: "watch_op list" where
  [go_eval]: "example_steps = [WStore (example_msg ''a'' ''x''), WSend 0, WRun, WStore (example_msg ''a'' ''y''),
     WRemove ''a'' ''1'', WSend 1, WSend 0, WRun, WRun]"

definition example_watch :: "int \<Rightarrow> nat watched" where
  [go_eval]: "example_watch cap = watch_start (the (mem_New cap None)) (int 2)"

lemma example_watched:
  "\<exists>w. watch_run False silent_listener example_steps (example_watch 0) = Some w \<and> routines w = [] \<and> opChan w = []
    \<and> map sID (mem_abs (w_store w) ''a'') = [''2''] \<and> store_count example_steps = 2"
  by (simp add: go_eval mem_abs_def msgs_of_def box_msgs_def)

theorem hub_mirrors_store_witness:
  "\<exists>w. watch_run False silent_listener example_steps (example_watch 0) = Some w
    \<and> (''a'', ''2'') \<in> shown_keys (w_hub w) \<and> shown_keys (w_hub w) = stored_keys (w_store w)"
proof -
  from example_watched obtain w where w: "watch_run False silent_listener example_steps (example_watch 0) = Some w"
    "routines w = []" "opChan w = []" "map sID (mem_abs (w_store w) ''a'') = [''2'']" "store_count example_steps \<le> 2" by auto
  have "sID ` set (mem_abs (w_store w) ''a'') = {''2''}" unfolding set_map [symmetric] w(4) by simp
  then have "(''a'', ''2'') \<in> stored_keys (w_store w)" by (simp add: stored_keys_def)
  with hub_mirrors_store [OF example_unlimited _ w(1) [unfolded example_watch_def] w(5,2,3)] w(1) show ?thesis by auto
qed

text \<open>
  A limit per mailbox: the memory store emits no event for the message it evicts, and the history goes on
  showing it, although every step was patient.
\<close>

lemma limit_evicts_silently:
  "\<exists>w. watch_run False silent_listener [WStore (example_msg ''a'' ''x''), WSend 0, WRun, WStore (example_msg ''a'' ''y''), WSend 0, WRun]
      (example_watch 1) = Some w
    \<and> map sID (mem_abs (w_store w) ''a'') = [''2''] \<and> {(''a'', ''1''), (''a'', ''2'')} \<subseteq> shown_keys (w_hub w)"
  by (simp add: go_eval mem_abs_def msgs_of_def box_msgs_def shown_keys_def)

subsection \<open>Messages that are not there\<close>

definition runs_to :: "('l \<Rightarrow> hub_event list \<Rightarrow> bool) \<Rightarrow> 'l watched \<Rightarrow> 'l watched \<Rightarrow> bool" where
  "runs_to fails w w' \<longleftrightarrow> (\<exists>ops. watch_run True fails ops w = Some w')"

lemma watch_run_append:
  "watch_run early fails xs w = Some w1 \<Longrightarrow> watch_run early fails (xs @ ys) w = watch_run early fails ys w1"
  by (induction xs arbitrary: w) (auto split: if_splits option.splits)

lemma runs_to_refl: "runs_to fails w w"
  unfolding runs_to_def by (intro exI [of _ "[]"]) simp

lemma runs_to_step: "watch_exec fails op w = Some w1 \<Longrightarrow> runs_to fails w1 w2 \<Longrightarrow> runs_to fails w w2"
  unfolding runs_to_def by (elim exE, rule_tac x = "op # ops" in exI) simp

lemma runs_to_trans: "runs_to fails w w1 \<Longrightarrow> runs_to fails w1 w2 \<Longrightarrow> runs_to fails w w2"
  unfolding runs_to_def using watch_run_append by metis

lemma drain_channel:
  "opChan w = qs \<Longrightarrow> runs_to fails w (w\<lparr>opChan := [], w_hub := fold (runOp fails) qs (w_hub w)\<rparr>)"
proof (induction qs arbitrary: w)
  case Nil
  then have "w\<lparr>opChan := [], w_hub := fold (runOp fails) [] (w_hub w)\<rparr> = w" by (cases w) simp
  then show ?case by (simp add: runs_to_refl)
next
  case (Cons q qs)
  let ?w = "w\<lparr>opChan := qs, w_hub := runOp fails q (w_hub w)\<rparr>"
  have "watch_exec fails WRun w = Some ?w" using Cons.prems by (simp add: watch_exec_def)
  from runs_to_step [OF this Cons.IH [of ?w]] show ?case by simp
qed

lemma drain_routine:
  assumes "opChan w = []" and "routines w = xs @ g # ys"
  shows "runs_to fails w (w\<lparr>routines := xs @ ys, w_hub := runOp fails g (w_hub w)\<rparr>)"
proof -
  let ?w = "w\<lparr>routines := xs @ ys, opChan := [g]\<rparr>"
  have "watch_exec fails (WSend (length xs)) w = Some ?w" using assms by (simp add: watch_exec_def opChanLen_def)
  moreover have "?w\<lparr>opChan := [], w_hub := fold (runOp fails) [g] (w_hub ?w)\<rparr>
      = w\<lparr>routines := xs @ ys, w_hub := runOp fails g (w_hub w)\<rparr>" using assms by (cases w) simp
  ultimately show ?thesis using runs_to_step drain_channel [of ?w "[g]" fails] by fastforce
qed

lemma drain_routines:
  assumes "opChan w = []" and "routines w = xs @ ys @ zs" and "hub_wf (w_hub w)"
  shows "\<exists>h. runs_to fails w (w\<lparr>routines := xs @ zs, w_hub := h\<rparr>) \<and> hub_wf h"
  using assms
proof (induction ys arbitrary: w)
  case Nil
  then have "w\<lparr>routines := xs @ zs, w_hub := w_hub w\<rparr> = w" by (cases w) simp
  with Nil.prems(3) runs_to_refl [of fails w] show ?case by metis
next
  case (Cons g ys)
  let ?w = "w\<lparr>routines := xs @ ys @ zs, w_hub := runOp fails g (w_hub w)\<rparr>"
  have "runs_to fails w ?w" using drain_routine [OF Cons.prems(1), of xs g "ys @ zs"] Cons.prems(2) by simp
  moreover have "hub_wf (w_hub ?w)" using runOp_wf [OF Cons.prems(3)] by simp
  then obtain h where "runs_to fails ?w (?w\<lparr>routines := xs @ zs, w_hub := h\<rparr>)" "hub_wf h"
    using Cons.IH [of ?w] Cons.prems(1) by auto
  ultimately show ?case using runs_to_trans by fastforce
qed

lemma dispatch_shown: "hub_wf h \<Longrightarrow> mkey m \<in> shown_keys (runOp fails (OpDispatch m) h)"
  by (cases "history h") (auto simp: hub_wf_def shown_keys_def Dispatch_def case_prod_beta Let_def rotate1_def)

text \<open>
  C16: but a client that deletes a message while the goroutine of its event waits may leave it in the
  history for good: from every state with such a goroutine there is a way to one in which all
  events have reached the hub, the message is not in the store, and the history shows it.
\<close>
theorem ghost_in_history:
  fixes w :: "'l watched"
  assumes "mem_New cap None = Some s" and "0 < n" and "watch_run True fails ops (watch_start s (int n)) = Some w"
    and "OpDispatch m \<in> set (routines w)" and "mkey m \<in> stored_keys (w_store w)"
  shows "\<exists>more w'. watch_run True fails more w = Some w' \<and> routines w' = [] \<and> opChan w' = []
    \<and> mkey m \<notin> stored_keys (w_store w') \<and> mkey m \<in> shown_keys (w_hub w')"
proof -
  from watch_run_inv [OF assms(3) watched_start [OF assms(1)]] obtain past
    where w: "watched_inv True cap n (store_count ops) fails w past" by auto
  have cap: "mem_capped cap (w_store w)" using w accountedD(1) by (auto simp: watched_inv_def)
  have "hub_wf (hub_New (int n) :: 'l Hub)" using assms(2) by (simp add: hub_wf_def hub_New_def)
  then have hub: "hub_wf (w_hub w)" using w by (simp add: watched_inv_def Start_wf)
  let ?s = "snd (mem_RemoveMessage (w_store w) (mdMailbox m) (mdID m))"
  let ?w1 = "emits_events [] ?s w"
  have gone: "mkey m \<notin> stored_keys ?s"
    using stored_remove [OF cap, of "mdMailbox m" "mdID m" _ ?s] by (cases "mem_RemoveMessage (w_store w) (mdMailbox m) (mdID m)") (simp add: mkey_def)
  have 1: "watch_exec fails (WRemove (mdMailbox m) (mdID m)) w = Some ?w1" by (simp add: watch_exec_def mem_ops_def)
  let ?w2 = "?w1\<lparr>opChan := [], w_hub := fold (runOp fails) (opChan ?w1) (w_hub ?w1)\<rparr>"
  have 2: "runs_to fails ?w1 ?w2" by (rule drain_channel) simp
  have "OpDispatch m \<in> set (routines ?w2)" using assms(4) by (simp add: emits_events_def)
  then obtain xs ys where r: "routines ?w2 = [] @ xs @ (OpDispatch m # ys)" by (metis append_Nil split_list)
  have "hub_wf (w_hub ?w2)" using Start_wf [of "w_hub w" fails "opChan w"] hub by (simp add: Start_def emits_events_def)
  from drain_routines [OF _ r this, of fails] obtain h1
    where 3: "runs_to fails ?w2 (?w2\<lparr>routines := [OpDispatch m] @ ys, w_hub := h1\<rparr>)" "hub_wf h1" by auto
  let ?w3 = "?w2\<lparr>routines := [OpDispatch m] @ ys, w_hub := h1\<rparr>"
  from drain_routines [of ?w3 "[OpDispatch m]" ys "[]" fails] 3(2) obtain h2
    where 4: "runs_to fails ?w3 (?w3\<lparr>routines := [OpDispatch m], w_hub := h2\<rparr>)" "hub_wf h2" by auto
  let ?w4 = "?w3\<lparr>routines := [OpDispatch m], w_hub := h2\<rparr>"
  have 5: "runs_to fails ?w4 (?w4\<lparr>routines := [], w_hub := runOp fails (OpDispatch m) h2\<rparr>)"
    using drain_routine [of ?w4 "[]" "OpDispatch m" "[]" fails] by simp
  let ?w5 = "?w4\<lparr>routines := [], w_hub := runOp fails (OpDispatch m) h2\<rparr>"
  have "runs_to fails w ?w5"
    using runs_to_step [OF 1] runs_to_trans [OF 2 runs_to_trans [OF 3(1) runs_to_trans [OF 4(1) 5]]] by blast
  then obtain more where "watch_run True fails more w = Some ?w5" by (auto simp: runs_to_def)
  with gone dispatch_shown [OF 4(2), of m fails] show ?thesis
    by (intro exI [of _ more] exI [of _ ?w5]) (simp add: emits_events_def)
qed

text \<open>The message is deleted before the goroutine of its delivery has run.\<close>

theorem ghost_in_history_witness:
  "\<exists>more w. watch_run True silent_listener (WStore (example_msg ''a'' ''x'') # more) (example_watch 0) = Some w
    \<and> routines w = [] \<and> opChan w = [] \<and> (''a'', ''1'') \<notin> stored_keys (w_store w) \<and> (''a'', ''1'') \<in> shown_keys (w_hub w)"
proof -
  let ?m = "(MakeMetadata (example_msg ''a'' ''x''))\<lparr>mdID := ''1''\<rparr>"
  obtain w where w: "watch_run True silent_listener [WStore (example_msg ''a'' ''x'')] (example_watch 0) = Some w"
    "routines w = [OpDispatch ?m]" "map sID (mem_abs (w_store w) ''a'') = [''1'']"
    by (simp add: go_eval mem_abs_def msgs_of_def box_msgs_def)
  have m: "OpDispatch ?m \<in> set (routines w)" "mkey ?m = (''a'', ''1'')" unfolding w(2) by (simp_all add: go_eval)
  have "sID ` set (mem_abs (w_store w) ''a'') = {''1''}" unfolding set_map [symmetric] w(3) by simp
  then have "mkey ?m \<in> stored_keys (w_store w)" by (simp add: m(2) stored_keys_def)
  from ghost_in_history [OF example_unlimited _ w(1) [unfolded example_watch_def] m(1) this, unfolded m(2)] obtain more w'
    where e: "watch_run True silent_listener more w = Some w'" and "routines w' = []" "opChan w' = []"
      "(''a'', ''1'') \<notin> stored_keys (w_store w')" "(''a'', ''1'') \<in> shown_keys (w_hub w')" by auto
  moreover have "watch_run True silent_listener (WStore (example_msg ''a'' ''x'') # more) (example_watch 0) = Some w'"
    using watch_run_append [OF w(1), of more] unfolding e append_Cons append_Nil .
  ultimately show ?thesis by blast
qed

end
