(* ===== verification/WebServer.thy ===== *)
theory WebServer
  imports Routes WebUI
begin

text \<open>
  \<open>pkg/server/web/server.go\<close> and \<open>handlers.go\<close> with \<open>pkg/webui/routes.go\<close> and \<open>root_controller.go\<close>: the routes
  of the web server in the order in which they are set up, under the base path of the configuration,
  and what each of them answers. The router itself is Gorilla's \<open>mux\<close>, a parameter; what is used of it is
  the documented behaviour, \<open>router_documented\<close>. Templates and the file server are only named by what they are
  given.
\<close>

subsection \<open>Durations\<close>

text \<open>\<open>Duration.String\<close>: \<open>fmt_frac\<close> is the fraction behind the unit, without trailing zeros.\<close>

definition fmt_frac :: "nat \<Rightarrow> nat \<Rightarrow> string" where
  [go_eval]: "fmt_frac prec u =
     (let ds = TrimRight (pad0 prec (Utoa (u mod 10 ^ prec))) ''0'' in if ds = [] then [] else CHR ''.'' # ds)"

definition Duration_String :: "int \<Rightarrow> string" where
  [go_eval]: "Duration_String d =
     (let u = nat \<bar>d\<bar>;
          s = (if u = 0 then ''0s''
               else if u < 1000 then Utoa u @ ''ns''
               else if u < 1000000 then Utoa (u div 1000) @ fmt_frac 3 u @ [CHR 0xC2, CHR 0xB5, CHR ''s'']
               else if u < 1000000000 then Utoa (u div 1000000) @ fmt_frac 6 u @ ''ms''
               else
                 (let sec = u div 1000000000; min = sec div 60; hour = min div 60
                  in (if hour > 0 then Utoa hour @ ''h'' else []) @ (if min > 0 then Utoa (min mod 60) @ ''m'' else [])
                     @ Utoa (sec mod 60) @ fmt_frac 9 u @ ''s''))
      in if d < 0 then CHR ''-'' # s else s)"

subsection \<open>The pages of the root\<close>

definition RootGreeting :: "(string \<Rightarrow> string option) \<Rightarrow> Root \<Rightarrow> http_reply" where
  [go_eval]: "RootGreeting files conf =
     (case files (GreetingFile (Web conf)) of
        None \<Rightarrow> Failed GreetingFailed
      | Some greeting \<Rightarrow> Reply (Data ''text/html'' greeting))"

definition smtp_status :: "smtp_config \<Rightarrow> jsonSMTPConfig" where
  [go_eval]: "smtp_status c =
     \<lparr>jcAddr = smtp_Addr c, jcDefaultAccept = DefaultAccept c, jcAcceptDomains = AcceptDomains c,
      jcRejectDomains = RejectDomains c, jcDefaultStore = DefaultStore c, jcStoreDomains = StoreDomains c,
      jcDiscardDomains = DiscardDomains c, jcRejectOriginDomains = RejectOriginDomains c\<rparr>"

definition RootStatus :: "string \<Rightarrow> string \<Rightarrow> Root \<Rightarrow> http_reply" where
  [go_eval]: "RootStatus version buildDate root =
     (let retPeriod = (if RetentionPeriod (Storage root) > 0 then Duration_String (RetentionPeriod (Storage root)) else [])
      in RenderJSON (JStatus
        \<lparr>jcVersion = version, jcBuildDate = buildDate, jcPOP3Listener = pop3_Addr (POP3 root),
         jcWebListener = web_Addr (Web root), jcSMTPConfig = smtp_status (SMTP root),
         jcStorageConfig = \<lparr>jcMailboxMsgCap = MailboxMsgCap (Storage root), jcStoreType = Type (Storage root),
           jcRetentionPeriod = retPeriod\<rparr>\<rparr>))"

datatype ui_handler = UGreeting | UStatus | UMessage | UHTML | USource | UAttach

definition ui_SetupRoutes :: "(string \<times> ui_handler \<times> string) list" where
  [go_eval]: "ui_SetupRoutes =
     [(''/greeting'', UGreeting, ''GET''),
      (''/status'', UStatus, ''GET''),
      (''/mailbox/{name}/{id}'', UMessage, ''GET''),
      (''/mailbox/{name}/{id}/html'', UHTML, ''GET''),
      (''/mailbox/{name}/{id}/source'', USource, ''GET''),
      (''/mailbox/{name}/{id}/attach/{num}/{file}'', UAttach, ''GET'')]"

subsection \<open>The configuration cookie\<close>

text \<open>A string in JSON, as \<open>json.Marshal\<close> writes it; bytes outside of ASCII are taken to be UTF-8 that stays.\<close>

definition json_char :: "char \<Rightarrow> string" where
  [go_eval]: "json_char c =
     (if c = CHR 34 then [CHR 92, CHR 34] else if c = CHR 92 then [CHR 92, CHR 92]
      else if c = CHR 8 then CHR 92 # ''b'' else if c = CHR 12 then CHR 92 # ''f''
      else if c = LF then CHR 92 # ''n'' else if c = CR then CHR 92 # ''r'' else if c = CHR 9 then CHR 92 # ''t''
      else if code c < 32 \<or> c \<in> {CHR ''<'', CHR ''>'', CHR ''&''}
      then CHR 92 # ''u00'' @ [hex_digit (code c div 16), hex_digit (code c mod 16)]
      else [c])"

definition json_string :: "string \<Rightarrow> string" where
  [go_eval]: "json_string s = CHR 34 # concat (map json_char s) @ [CHR 34]"

definition jsonAppConfig :: "string \<Rightarrow> bool \<Rightarrow> string" where
  [go_eval]: "jsonAppConfig base monitorVisible =
     CHR ''{'' # json_string ''base-path'' @ '':'' @ json_string base @ '','' @ json_string ''monitor-visible'' @ '':''
       @ (if monitorVisible then ''true'' else ''false'') @ ''}''"

definition path_byte :: "char \<Rightarrow> string" where
  [go_eval]: "path_byte c =
     (if unreserved c \<or> c \<in> {CHR ''$'', CHR ''&'', CHR ''+'', CHR '':'', CHR ''='', CHR ''@''} then [c]
      else [CHR ''%'', upper_hex (code c div 16), upper_hex (code c mod 16)])"

definition PathEscape :: "string \<Rightarrow> string" where
  [go_eval]: "PathEscape s = concat (map path_byte s)"

record Cookie =
  ckName :: string
  ckValue :: string
  ckPath :: string

definition appConfigCookie :: "web_config \<Rightarrow> Cookie" where
  [go_eval]: "appConfigCookie c =
     \<lparr>ckName = ''app-config'', ckValue = PathEscape (jsonAppConfig (BasePath c) (MonitorVisible c)), ckPath = ''/''\<rparr>"

subsection \<open>The routes\<close>

datatype matcher = Path string | PathPrefix string

datatype web_handler =
    Api handler
  | Ui ui_handler
  | RedirectHandler string
  | ExpVars
  | PprofPage string
  | StaticFiles string
  | FileHandler string
  | SpaHandler

type_synonym routes = "(matcher \<times> string option \<times> web_handler) list"

text \<open>The subrouters that \<open>FullAssembly\<close> sets up first; a subrouter adds its prefix to its templates.\<close>

definition sub_routes :: "(string \<Rightarrow> string) \<Rightarrow> routes" where
  [go_eval]: "sub_routes pre =
     map (\<lambda>(tpl, h, m). (Path (pre ''/serve'' @ tpl), Some m, Ui h)) ui_SetupRoutes
     @ map (\<lambda>(tpl, h, m). (Path (pre ''/api'' @ tpl), Some m, Api h)) SetupRoutes"

definition redirect_routes :: "(string \<Rightarrow> string) \<Rightarrow> routes" where
  [go_eval]: "redirect_routes pre =
     (let redirectBase = pre ''/'' in
      if redirectBase \<noteq> ''/''
      then [(Path ''/'', None, RedirectHandler redirectBase), (Path (pre []), None, RedirectHandler redirectBase)]
      else [])"

definition debug_routes :: "(string \<Rightarrow> string) \<Rightarrow> bool \<Rightarrow> routes" where
  [go_eval]: "debug_routes pre pprof =
     (Path (pre ''/debug/vars''), None, ExpVars)
     # (if pprof then
          map (\<lambda>p. (Path (pre (''/debug/pprof/'' @ p)), None, PprofPage p)) [''cmdline'', ''profile'', ''symbol'', ''trace'']
          @ [(PathPrefix (pre ''/debug/pprof/''), None, PprofPage ''index'')]
        else [])"

definition page_routes :: "(string \<Rightarrow> string) \<Rightarrow> string \<Rightarrow> routes" where
  [go_eval]: "page_routes pre uiDir =
     [(PathPrefix (pre ''/static''), None, StaticFiles (pre ''/'')),
      (Path (pre ''/favicon.png''), None, FileHandler (uiDir @ ''/favicon.png'')),
      (Path (pre ''/''), None, SpaHandler),
      (Path (pre ''/monitor''), None, SpaHandler),
      (Path (pre ''/status''), None, SpaHandler),
      (PathPrefix (pre ''/m/''), None, SpaHandler)]"

text \<open>The router of a program, with what \<open>NewServer\<close> adds.\<close>

definition web_NewServer :: "Root \<Rightarrow> routes" where
  [go_eval]: "web_NewServer conf =
     (let pre = MakePathPrefixer (BasePath (Web conf)) in
      sub_routes pre @ redirect_routes pre @ debug_routes pre (PProf (Web conf)) @ page_routes pre (UIDir (Web conf)))"

subsection \<open>The router\<close>

datatype routed = Routed web_handler "string \<Rightarrow> string" | NoMethod | NoRoute

text \<open>
  The templates as \<open>mux\<close> documents them: a variable in braces matches anything until the next slash, but
  not nothing; the rest stands for itself.
\<close>

function (sequential) template :: "string \<Rightarrow> string \<Rightarrow> (string \<Rightarrow> string) option" where
  "template [] [] = Some (\<lambda>v. [])"
| "template [] p = None"
| "template (c # t) p =
     (if c = CHR ''{'' then
        (let seg = takeWhile (\<lambda>x. x \<noteq> CHR ''/'') p in
         if seg = [] then None
         else map_option (\<lambda>f. f(takeWhile (\<lambda>x. x \<noteq> CHR ''}'') t := seg))
           (template (tl (dropWhile (\<lambda>x. x \<noteq> CHR ''}'') t)) (dropWhile (\<lambda>x. x \<noteq> CHR ''/'') p)))
      else (case p of [] \<Rightarrow> None | d # q \<Rightarrow> if c = d then template t q else None))"
  by pat_completeness auto

termination template
proof (relation "measure (\<lambda>(t, p). length t)", goal_cases)
  case (2 c t p seg)
  have "length (tl (dropWhile (\<lambda>x. x \<noteq> CHR ''}'') t)) \<le> length t"
    using length_dropWhile_le [of "\<lambda>x. x \<noteq> CHR ''}''" t] by simp
  then show ?case by simp
qed simp_all

fun route_matches :: "matcher \<Rightarrow> string \<Rightarrow> (string \<Rightarrow> string) option" where
  "route_matches (Path t) p = template t p"
| "route_matches (PathPrefix t) p = (if HasPrefix p t then Some (\<lambda>v. []) else None)"

text \<open>The first route that matches the path and the method; else whether one matches the path.\<close>

fun first_route :: "routes \<Rightarrow> string \<Rightarrow> string \<Rightarrow> routed" where
  "first_route [] meth p = NoRoute"
| "first_route ((mt, m, h) # rs) meth p =
     (case route_matches mt p of
        None \<Rightarrow> first_route rs meth p
      | Some vars \<Rightarrow>
          if m = None \<or> m = Some meth then Routed h vars
          else (case first_route rs meth p of NoRoute \<Rightarrow> NoMethod | r \<Rightarrow> r))"

text \<open>A path that \<open>mux\<close> does not clean first, by a redirect: no segment but the last is empty, and none is a dot or two.\<close>

definition clean_path :: "string \<Rightarrow> bool" where
  [go_eval]: "clean_path p \<longleftrightarrow>
     (case Split p CHR ''/'' of
        [] \<Rightarrow> False
      | w # ws \<Rightarrow> w = [] \<and> ws \<noteq> [] \<and> [] \<notin> set (butlast ws) \<and> set ws \<inter> {''.'', ''..''} = {})"

definition router_documented :: "(routes \<Rightarrow> string \<Rightarrow> string \<Rightarrow> routed) \<Rightarrow> bool" where
  "router_documented mux \<longleftrightarrow> (\<forall>rs meth p. clean_path p \<longrightarrow> mux rs meth p = first_route rs meth p)"

subsection \<open>The server\<close>

record ('hdr, 'env, 'st) site =
  rootConfig :: Root
  site_api :: "('hdr, 'env, 'st) api"
  site_mux :: "routes \<Rightarrow> string \<Rightarrow> string \<Rightarrow> routed"
  site_sanitizers :: Sanitizers
  site_urls :: "string \<Rightarrow> (bool \<times> string) list"
  site_files :: "string \<Rightarrow> string option"
  site_version :: string
  site_buildDate :: string

text \<open>
  What the server answers: the reply of a handler of the API or the UI, a redirect, the page of the
  application with its base path, cookie and frame option, a file under the directory of the UI, a
  page of the standard library, a status without a body, or a failure to open a file.
\<close>

datatype web_response =
    Answered http_reply
  | Redirected string
  | SpaPage string Cookie string
  | StaticFile string
  | FileContent string
  | FileError
  | LibraryPage string
  | NoMatch int

definition fileHandler :: "(string \<Rightarrow> string option) \<Rightarrow> string \<Rightarrow> web_response" where
  [go_eval]: "fileHandler files name = (case files name of None \<Rightarrow> FileError | Some content \<Rightarrow> FileContent content)"

definition spaTemplateHandler :: "string \<Rightarrow> Cookie \<Rightarrow> web_response" where
  [go_eval]: "spaTemplateHandler base cookie = SpaPage base cookie ''SameOrigin''"

definition run_ui :: "('hdr, 'env, 'st) site \<Rightarrow> ui_handler \<Rightarrow> (string \<Rightarrow> string) \<Rightarrow> 'st \<Rightarrow> http_reply \<times> 'st" where
  [go_eval]: "run_ui w h vars st =
     (let ctx = (api_ctx (site_api w))\<lparr>Vars := vars\<rparr> in
      case h of
        UGreeting \<Rightarrow> (RootGreeting (site_files w) (rootConfig w), st)
      | UStatus \<Rightarrow> (RootStatus (site_version w) (site_buildDate w) (rootConfig w), st)
      | UMessage \<Rightarrow> MailboxMessage (site_sanitizers w) (site_urls w) ctx st
      | UHTML \<Rightarrow> MailboxHTML ctx st
      | USource \<Rightarrow> MailboxSource ctx st
      | UAttach \<Rightarrow> MailboxViewAttach ctx st)"

definition run_route :: "('hdr, 'env, 'st) site \<Rightarrow> web_handler \<Rightarrow> (string \<Rightarrow> string) \<Rightarrow> string \<Rightarrow> string option \<Rightarrow> 'st
    \<Rightarrow> web_response \<times> 'st" where
  [go_eval]: "run_route w h vars path req_body st =
     (case h of
        Api a \<Rightarrow> (let (r, st) = run_handler (site_api w) a vars req_body st in (Answered r, st))
      | Ui u \<Rightarrow> (let (r, st) = run_ui w u vars st in (Answered r, st))
      | RedirectHandler target \<Rightarrow> (Redirected target, st)
      | ExpVars \<Rightarrow> (LibraryPage ''expvar'', st)
      | PprofPage p \<Rightarrow> (LibraryPage p, st)
      | StaticFiles strip \<Rightarrow> (StaticFile (drop (length strip) path), st)
      | FileHandler name \<Rightarrow> (fileHandler (site_files w) name, st)
      | SpaHandler \<Rightarrow>
          (spaTemplateHandler (MakePathPrefixer (BasePath (Web (rootConfig w))) ''/'') (appConfigCookie (Web (rootConfig w))), st))"

text \<open>\<open>noMatchHandler\<close> for a request that no route takes.\<close>

definition serve_web :: "('hdr, 'env, 'st) site \<Rightarrow> string \<Rightarrow> string \<Rightarrow> string option \<Rightarrow> 'st \<Rightarrow> web_response \<times> 'st" where
  [go_eval]: "serve_web w meth path req_body st =
     (case site_mux w (web_NewServer (rootConfig w)) meth path of
        NoRoute \<Rightarrow> (NoMatch 404, st)
      | NoMethod \<Rightarrow> (NoMatch 405, st)
      | Routed h vars \<Rightarrow> run_route w h vars path req_body st)"

end
