(* ===== verification/WebServerProps.thy ===== *)
theory WebServerProps
  imports WebServer ClientProps
begin

text \<open>
  What the routes of the web server amount to: the base path separates the program from everything else
  that is behind the same host, and the API answers below it as \<open>Routes\<close> says.
\<close>

subsection \<open>Matching\<close>

lemma HasPrefix_Cons [simp]:
  "HasPrefix p []" "\<not> HasPrefix [] (c # b)" "HasPrefix (d # q) (c # b) \<longleftrightarrow> d = c \<and> HasPrefix q b"
  by (auto simp: HasPrefix_def)

lemma HasPrefix_append: "HasPrefix p (b @ t) \<longleftrightarrow> HasPrefix p b \<and> HasPrefix (drop (length b) p) t"
proof (induction b arbitrary: p)
  case (Cons c b)
  then show ?case by (cases p) simp_all
qed simp

lemma HasPrefix_self [simp]: "HasPrefix (b @ q) b"
  by (simp add: HasPrefix_def)

lemma template_char: "c \<noteq> CHR ''{'' \<Longrightarrow> template (c # t) p = (case p of [] \<Rightarrow> None | d # q \<Rightarrow> if c = d then template t q else None)"
  by simp

lemma template_literal:
  "CHR ''{'' \<notin> set b \<Longrightarrow> template (b @ t) p = (if HasPrefix p b then template t (drop (length b) p) else None)"
proof (induction b arbitrary: p)
  case (Cons c b)
  then have "c \<noteq> CHR ''{''" by auto
  from template_char [OF this, of "b @ t" p] Cons show ?case by (cases p) (auto simp del: template.simps)
qed simp

lemma template_slash: "template (CHR ''/'' # t) p \<noteq> None \<Longrightarrow> HasPrefix p ''/''"
  by (cases p) (auto split: if_splits)

text \<open>The prefix of a base path.\<close>

definition base_of :: "Root \<Rightarrow> string" where
  [go_eval]: "base_of conf = MakePathPrefixer (BasePath (Web conf)) []"

lemma prefixer_base: "MakePathPrefixer (BasePath (Web conf)) p = base_of conf @ p"
  by (simp add: base_of_def MakePathPrefixer_def Let_def)

lemma base_shape:
  assumes "base_of conf \<noteq> []"
  obtains c b where "base_of conf = CHR ''/'' # c # b"
proof -
  let ?t = "Trim (BasePath (Web conf)) ''/''"
  have "?t \<noteq> []" using assms by (auto simp: base_of_def MakePathPrefixer_def Let_def)
  then obtain c b where "?t = c # b" by (cases ?t) auto
  then have "base_of conf = CHR ''/'' # c # b" by (simp add: base_of_def MakePathPrefixer_def)
  then show ?thesis by (rule that)
qed

lemma base_plain:
  assumes "CHR ''{'' \<notin> set (BasePath (Web conf))"
  shows "CHR ''{'' \<notin> set (base_of conf)"
proof -
  have "set (Trim (BasePath (Web conf)) ''/'') \<subseteq> set (BasePath (Web conf))"
    by (auto simp: Trim_def TrimLeft_def TrimRight_def dest!: set_dropWhileD)
  then show ?thesis using assms by (auto simp: base_of_def MakePathPrefixer_def Let_def)
qed

lemma first_route_none: "(\<forall>r\<in>set rs. route_matches (fst r) p = None) \<Longrightarrow> first_route (rs @ rs') meth p = first_route rs' meth p"
  by (induction rs) auto

text \<open>A path that is not below the base matches no route below it.\<close>

lemma outside_base:
  assumes "CHR ''{'' \<notin> set b" and "p \<noteq> b" and "\<not> HasPrefix p (b @ ''/'')"
  shows "template (b @ CHR ''/'' # t) p = None" and "\<not> HasPrefix p (b @ CHR ''/'' # t)"
proof -
  have n: "\<not> (HasPrefix p b \<and> HasPrefix (drop (length b) p) ''/'')" using assms(3) by (simp add: HasPrefix_append)
  then show "template (b @ CHR ''/'' # t) p = None"
    using template_slash [of t "drop (length b) p"] template_literal [OF assms(1), of "CHR ''/'' # t" p]
    by (cases "template (CHR ''/'' # t) (drop (length b) p)") (auto simp del: template.simps)
  show "\<not> HasPrefix p (b @ CHR ''/'' # t)"
    using n HasPrefix_append [of p b "CHR ''/'' # t"] HasPrefix_append [of "drop (length b) p" "''/''" t] by auto
qed

lemmas route_tables = sub_routes_def debug_routes_def page_routes_def ui_SetupRoutes_def SetupRoutes_def

lemma outside_routes:
  assumes "CHR ''{'' \<notin> set b" and "p \<noteq> b" and "\<not> HasPrefix p (b @ ''/'')"
  shows "\<forall>r\<in>set (sub_routes ((@) b)). route_matches (fst r) p = None"
    and "\<forall>r\<in>set (debug_routes ((@) b) pprof @ page_routes ((@) b) dir). route_matches (fst r) p = None"
  by (simp add: route_tables outside_base [OF assms] del: template.simps)
    (cases pprof; simp add: route_tables outside_base [OF assms] del: template.simps)

lemma web_NewServer_base:
  "web_NewServer conf = sub_routes ((@) (base_of conf)) @ redirect_routes ((@) (base_of conf))
    @ debug_routes ((@) (base_of conf)) (PProf (Web conf)) @ page_routes ((@) (base_of conf)) (UIDir (Web conf))"
proof -
  have "MakePathPrefixer (BasePath (Web conf)) = (@) (base_of conf)" by (rule ext) (rule prefixer_base)
  then show ?thesis by (simp add: web_NewServer_def Let_def)
qed

lemma serve_below_base:
  assumes "router_documented (site_mux w)" and "CHR ''{'' \<notin> set (BasePath (Web (rootConfig w)))"
    and "base_of (rootConfig w) \<noteq> []" and "clean_path p" and "\<not> HasPrefix p (base_of (rootConfig w) @ ''/'')"
  shows "serve_web w meth p req_body st
    = (if p = ''/'' \<or> p = base_of (rootConfig w) then Redirected (base_of (rootConfig w) @ ''/'') else NoMatch 404, st)"
proof -
  let ?b = "base_of (rootConfig w)"
  from base_shape [OF assms(3)] obtain c b where b: "?b = CHR ''/'' # c # b" .
  note plain = base_plain [OF assms(2)]
  have red: "redirect_routes ((@) ?b) = [(Path ''/'', None, RedirectHandler (?b @ ''/'')), (Path ?b, None, RedirectHandler (?b @ ''/''))]"
    by (simp add: redirect_routes_def b Let_def)
  have lit: "template ?b p = (if p = ?b then Some (\<lambda>v. []) else None)"
  proof -
    have "template [] (drop (length ?b) p) = (if drop (length ?b) p = [] then Some (\<lambda>v. []) else None)"
      by (cases "drop (length ?b) p") simp_all
    with template_literal [OF plain, of "[]" p] show ?thesis by (auto simp: HasPrefix_def)
  qed
  have root: "template ''/'' p = (if p = ''/'' then Some (\<lambda>v. []) else None)"
    by (cases p; cases "tl p") auto
  have sub: "\<forall>r\<in>set (sub_routes ((@) ?b)). route_matches (fst r) p = None"
  proof (cases "p = ?b")
    case True
    then show ?thesis using plain by (simp add: route_tables template_literal)
  next
    case False
    then show ?thesis using outside_routes(1) [OF plain _ assms(5)] by simp
  qed
  have "first_route (web_NewServer (rootConfig w)) meth p
      = (if p = ''/'' \<or> p = ?b then Routed (RedirectHandler (?b @ ''/'')) (\<lambda>v. []) else NoRoute)"
  proof (cases "p = ''/'' \<or> p = ?b")
    case True
    then show ?thesis unfolding web_NewServer_base first_route_none [OF sub] using lit root by (auto simp: red simp del: template.simps)
  next
    case False
    then have n: "p \<noteq> ''/''" "p \<noteq> ?b" by simp_all
    have "first_route (debug_routes ((@) ?b) pprof @ page_routes ((@) ?b) dir) meth p = NoRoute" for pprof dir
      using first_route_none [OF outside_routes(2) [OF plain n(2) assms(5)], where rs' = "[]"] by simp
    with n show ?thesis unfolding web_NewServer_base first_route_none [OF sub] by (simp add: red lit root del: template.simps)
  qed
  with assms(1,4) show ?thesis by (simp add: router_documented_def serve_web_def run_route_def)
qed

text \<open>
  C17: under a base path the server leaves everything else on its host alone: a request for a path that is
  not below it is answered 404 whatever its method, no handler runs and the store stays as it is; only the
  root and the base path without its slash redirect to the base path.
\<close>
theorem web_below_base:
  assumes "router_documented (site_mux w)" and "CHR ''{'' \<notin> set (BasePath (Web (rootConfig w)))"
    and "base_of (rootConfig w) \<noteq> []" and "clean_path p" and "\<not> HasPrefix p (base_of (rootConfig w) @ ''/'')"
  shows "serve_web w meth p req_body st
    = (if p = ''/'' \<or> p = base_of (rootConfig w) then Redirected (base_of (rootConfig w) @ ''/'') else NoMatch 404, st)"
  using assms by (rule serve_below_base)

subsection \<open>The API below the base path\<close>

lemma first_route_api:
  assumes b: "CHR ''{'' \<notin> set b" and "\<forall>r\<in>set rest. route_matches (fst r) (b @ ''/api'' @ q) = None"
  shows "case find_route template rs meth (''/api'' @ q) of
      Some (h, vars) \<Rightarrow> first_route (map (\<lambda>(tpl, h, m). (Path (b @ ''/api'' @ tpl), Some m, Api h)) rs @ rest) meth (b @ ''/api'' @ q)
        = Routed (Api h) vars
    | None \<Rightarrow> first_route (map (\<lambda>(tpl, h, m). (Path (b @ ''/api'' @ tpl), Some m, Api h)) rs @ rest) meth (b @ ''/api'' @ q)
        \<in> {NoMethod, NoRoute}"
proof (induction rs)
  case Nil
  then show ?case using first_route_none [OF assms(2), where rs' = "[]"] by simp
next
  case (Cons r rs)
  obtain tpl h m where r: "r = (tpl, h, m)" by (metis prod_cases3)
  have "template (b @ ''/api'' @ tpl) (b @ ''/api'' @ q) = template (''/api'' @ tpl) (''/api'' @ q)"
    using template_literal [OF b] by simp
  with Cons show ?case by (auto simp: r split: option.splits)
qed

text \<open>
  Below the base path, whichever it is, the API is what its routes say: a request is handled by the first
  of them that matches the rest of the path and the method, with the variables of its template, and
  neither the user interface nor redirects, debug pages, static files or the application get in
  its way; without such a route the answer is 404 or 405 and nothing happens.
\<close>
theorem web_api_routes:
  assumes "router_documented (site_mux w)" and "CHR ''{'' \<notin> set (BasePath (Web (rootConfig w)))"
    and "clean_path (base_of (rootConfig w) @ ''/api/'' @ q)"
  shows "case find_route template SetupRoutes meth (''/api/'' @ q) of
      Some (h, vars) \<Rightarrow> serve_web w meth (base_of (rootConfig w) @ ''/api/'' @ q) req_body st
        = (let (r, st') = run_handler (site_api w) h vars req_body st in (Answered r, st'))
    | None \<Rightarrow> \<exists>status\<in>{404, 405}. serve_web w meth (base_of (rootConfig w) @ ''/api/'' @ q) req_body st = (NoMatch status, st)"
proof -
  let ?b = "base_of (rootConfig w)" and ?q = "CHR ''/'' # q"
  let ?p = "?b @ ''/api'' @ ?q"
  note plain = base_plain [OF assms(2)]
  let ?ui = "map (\<lambda>(tpl, h, m). (Path (?b @ ''/serve'' @ tpl), Some m, Ui h)) ui_SetupRoutes"
  let ?rest = "redirect_routes ((@) ?b) @ debug_routes ((@) ?b) (PProf (Web (rootConfig w))) @ page_routes ((@) ?b) (UIDir (Web (rootConfig w)))"
  have ui: "\<forall>r\<in>set ?ui. route_matches (fst r) ?p = None"
    using plain by (simp add: ui_SetupRoutes_def template_literal)
  have "\<forall>r\<in>set (debug_routes ((@) ?b) (PProf (Web (rootConfig w))) @ page_routes ((@) ?b) (UIDir (Web (rootConfig w)))). route_matches (fst r) ?p = None"
    using plain by (cases "PProf (Web (rootConfig w))"; simp add: route_tables template_literal HasPrefix_append)
  moreover have "\<forall>r\<in>set (redirect_routes ((@) ?b)). route_matches (fst r) ?p = None"
  proof (cases "?b = []")
    case False
    then obtain c b where b: "?b = CHR ''/'' # c # b" by (rule base_shape)
    have "template ?b ?p = None" using template_literal [OF plain, of "[]" ?p] by simp
    moreover have "template ''/'' ?p = None" by (simp add: b)
    ultimately show ?thesis using False by (simp add: redirect_routes_def Let_def del: template.simps)
  qed (simp add: redirect_routes_def)
  ultimately have rest: "\<forall>r\<in>set ?rest. route_matches (fst r) ?p = None" by auto
  have "first_route (web_NewServer (rootConfig w)) meth ?p
      = first_route (map (\<lambda>(tpl, h, m). (Path (?b @ ''/api'' @ tpl), Some m, Api h)) SetupRoutes @ ?rest) meth ?p"
    unfolding web_NewServer_base sub_routes_def using first_route_none [OF ui] by simp
  with first_route_api [OF plain rest, of SetupRoutes meth] assms(1,3) show ?thesis
    by (auto simp: router_documented_def serve_web_def run_route_def split: option.splits)
qed

subsection \<open>The links to attachments\<close>

lemma template_var:
  assumes "segment s" and "CHR ''}'' \<notin> set v" and "p = [] \<or> hd p = CHR ''/''"
  shows "template (CHR ''{'' # v @ CHR ''}'' # t) (s @ p) = map_option (\<lambda>f. f(v := s)) (template t p)"
proof -
  have v: "takeWhile (\<lambda>x. x \<noteq> CHR ''}'') (v @ CHR ''}'' # t) = v" "dropWhile (\<lambda>x. x \<noteq> CHR ''}'') (v @ CHR ''}'' # t) = CHR ''}'' # t"
    using assms(2) by (induction v) auto
  have s: "takeWhile (\<lambda>x. x \<noteq> CHR ''/'') (s @ p) = s" "dropWhile (\<lambda>x. x \<noteq> CHR ''/'') (s @ p) = p"
    using assms(1,3) unfolding segment_def by (cases p; force simp: takeWhile_append dropWhile_append takeWhile_eq_all_conv)+
  show ?thesis using assms(1) unfolding template.simps(3) Let_def s v by (simp add: segment_def)
qed

lemma jAttachments_extend [simp]:
  "jAttachments (JSONMessageHeaderV1.extend h (JSONMessageV1.fields txt html header parts)) = parts"
  by (cases h) (simp add: JSONMessageHeaderV1.defs JSONMessageV1.defs)

lemma attachment_links_nth:
  "k < length parts \<Longrightarrow> jaDownloadLink (attachment_links md5 host name i j parts ! k)
    = ''http://'' @ host @ ''/serve/mailbox/'' @ name @ ''/'' @ i @ ''/attach/'' @ Utoa (j + k) @ ''/'' @ FileName (parts ! k)"
  by (induction md5 host name i j parts arbitrary: k rule: attachment_links.induct) (auto simp: Let_def nth_Cons split: nat.split)

definition attachment_path :: "string \<Rightarrow> string \<Rightarrow> nat \<Rightarrow> string \<Rightarrow> string" where
  [go_eval]: "attachment_path name i k file_name =
     ''/serve/mailbox/'' @ name @ ''/'' @ i @ ''/attach/'' @ Utoa k @ ''/'' @ file_name"

lemma segment_Utoa: "segment (Utoa k)"
  using Utoa_digits [of k] by (auto simp: segment_def list_all_iff is_digit_def code_def)

lemma attachment_route:
  assumes "base_of conf = []" and s: "segment name" "segment i" "segment f"
  shows "first_route (web_NewServer conf) ''GET'' (attachment_path name i k f)
    = Routed (Ui UAttach) ((\<lambda>v. [])(''file'' := f, ''num'' := Utoa k, ''id'' := i, ''name'' := name))"
proof -
  let ?r = "''/attach/'' @ Utoa k @ ''/'' @ f"
  have lit: "template (''/serve/mailbox/'' @ t) (attachment_path name i k f) = template t (name @ ''/'' @ i @ ?r)" for t
    using template_literal [of "''/serve/mailbox/''" t] by (simp add: attachment_path_def del: template.simps)
  have var: "template (''{name}/{id}'' @ t) (name @ ''/'' @ i @ ?r)
      = map_option (\<lambda>g. g(''name'' := name)) (map_option (\<lambda>g. g(''id'' := i)) (template t ?r))" for t
    using template_var [OF s(1), of "''name''" "''/'' @ i @ ?r" "''/{id}'' @ t"] template_var [OF s(2), of "''id''" ?r t]
    by (simp add: template_char del: template.simps(3))
  have "template (''/attach/'' @ ''{num}/{file}'') ?r = Some ((\<lambda>v. [])(''file'' := f, ''num'' := Utoa k))"
    using template_literal [of "''/attach/''" "''{num}/{file}''" ?r] template_var [OF segment_Utoa, of "''num''" "''/'' @ f" "''/{file}''" k]
      template_var [OF s(3), of "''file''" "[]" "[]"]
    by (simp add: template_char del: template.simps(3))
  then show ?thesis
    using lit [of "''{name}/{id}''"] lit [of "''{name}/{id}/html''"] lit [of "''{name}/{id}/source''"]
      lit [of "''{name}/{id}/attach/{num}/{file}''"] var [of "[]"] var [of "''/html''"] var [of "''/source''"] var [of "''/attach/{num}/{file}''"]
    by (simp add: web_NewServer_base sub_routes_def ui_SetupRoutes_def assms(1) template_char attachment_path_def del: template.simps(3))
qed

lemma ParseUint_Utoa: "k < 2 ^ bits \<Longrightarrow> ParseUint bits (Utoa k) = Some k"
  using Utoa_digits [of k] dec_val_Utoa [of k] by (simp add: ParseUint_def)


subsection \<open>Examples\<close>

text \<open>The templates as defined here do what \<open>Routes\<close> uses of them.\<close>

lemma template_documented: "mux_documented template"
proof -
  let ?b = "''/api/v1/mailbox/''"
  have b: "CHR ''{'' \<notin> set ?b" by simp
  have one: "template ''{name}'' n = Some ((\<lambda>v. [])(''name'' := n))"
    and two: "template ''{name}/{id}'' (n @ CHR ''/'' # i) = Some ((\<lambda>v. [])(''id'' := i, ''name'' := n))"
    and rest: "template ''{name}'' (n @ CHR ''/'' # i) = None" if "segment n" "segment i" for n i
    using template_var [OF that(1), of "''name''" "[]" "[]"] template_var [OF that(1), of "''name''" "CHR ''/'' # i" "''/{id}''"]
      template_var [OF that(2), of "''id''" "[]" "[]"] template_var [OF that(1), of "''name''" "CHR ''/'' # i" "[]"]
    by (simp_all del: template.simps(3) add: template_char)
  show ?thesis
    using one two rest template_literal [OF b, of "''{name}''"] template_literal [OF b, of "''{name}/{id}''"]
    by (auto simp: mux_documented_def fun_eq_iff simp del: template.simps)
qed

text \<open>A site whose messages have one attachment.\<close>

definition example_part :: Part where
  [go_eval]: "example_part = \<lparr>ContentType = ''text/csv'', FileName = ''f'', Content = ''1,2''\<rparr>"

definition example_attached :: "(unit, unit, mem_store) api" where
  [go_eval]: "example_attached =
     (let ctx = api_ctx (example_api mem_ops) in
      (example_api mem_ops)\<lparr>api_ctx := ctx\<lparr>envelope := (envelope ctx)\<lparr>envAttachments := (\<lambda>e. [example_part])\<rparr>\<rparr>\<rparr>)"

definition example_site_at :: "string \<Rightarrow> (unit, unit, mem_store) site" where
  [go_eval]: "example_site_at base =
     \<lparr>rootConfig = example_root\<lparr>Web := (Web example_root)\<lparr>BasePath := base\<rparr>\<rparr>, site_api = example_attached, site_mux = first_route,
      site_sanitizers = example_sanitizers, site_urls = (\<lambda>s. [(False, s)]), site_files = (\<lambda>n. None),
      site_version = ''v'', site_buildDate = ''d''\<rparr>"

abbreviation example_site :: "(unit, unit, mem_store) site" where
  "example_site \<equiv> example_site_at ''/mail/''"

lemma example_site_documented: "router_documented (site_mux (example_site_at base))"
  by (simp add: router_documented_def example_site_at_def)

lemma example_base: "base_of (rootConfig example_site) = ''/mail''"
  by (simp add: go_eval)

theorem web_below_base_witness:
  "serve_web example_site ''GET'' ''/api/v1/mailbox/a'' None example_two = (NoMatch 404, example_two)"
  by (subst web_below_base [OF example_site_documented]) (simp_all add: go_eval)

theorem web_api_routes_witness:
  "\<exists>hs st. serve_web example_site ''GET'' ''/mail/api/v1/mailbox/a'' None example_two = (Answered (Reply (JSON (JHeaders hs))), st)
    \<and> map jID hs = [''1'', ''2'']"
proof -
  have "find_route template SetupRoutes ''GET'' ''/api/v1/mailbox/a'' = Some (HList, (\<lambda>v. [])(''name'' := ''a''))"
    by (simp add: go_eval)
  with web_api_routes [OF example_site_documented [of "''/mail/''"], of "''v1/mailbox/a''" "''GET''" None example_two]
  have "serve_web example_site ''GET'' ''/mail/api/v1/mailbox/a'' None example_two
      = (let (r, st') = run_handler (site_api example_site) HList ((\<lambda>v. [])(''name'' := ''a'')) None example_two in (Answered r, st'))"
    unfolding example_base by (simp add: go_eval)
  then show ?thesis by (simp add: go_eval)
qed


text \<open>The value of the cookie is its JSON text again when a page unescapes it.\<close>

lemma PathUnescape_path_byte: "PathUnescape (path_byte c @ s) = map_option ((#) c) (PathUnescape s)"
proof -
  have "code c div 16 < 16" using code_less [of c] by simp
  then have "hex_value (upper_hex (code c div 16)) = code c div 16" "is_hexdigit (upper_hex (code c div 16))"
    "hex_value (upper_hex (code c mod 16)) = code c mod 16" "is_hexdigit (upper_hex (code c mod 16))"
    by (simp_all add: hex_value_upper)
  moreover have "unreserved c \<Longrightarrow> c \<noteq> CHR ''%''"
    by (auto simp: unreserved_def is_letter_def is_lower_def is_upper_def is_digit_def code_def)
  ultimately show ?thesis by (auto simp: path_byte_def)
qed

lemma cookie_readable: "PathUnescape (ckValue (appConfigCookie c)) = Some (jsonAppConfig (BasePath c) (MonitorVisible c))"
proof -
  have "PathUnescape (PathEscape s @ t) = map_option ((@) s) (PathUnescape t)" for s t
    by (induction s) (simp_all add: PathEscape_def PathUnescape_path_byte option.map_comp comp_def option.map_ident)
  from this [of "jsonAppConfig (BasePath c) (MonitorVisible c)" "[]"] show ?thesis by (simp add: appConfigCookie_def)
qed

lemma example_durations:
  "map Duration_String [0, 1, 1500, 2000000, 1000000000, 90500000000, 86400000000000]
   = [''0s'', ''1ns'', ''1.5'' @ [CHR 0xC2, CHR 0xB5, CHR ''s''], ''2ms'', ''1s'', ''1m30.5s'', ''24h0m0s'']"
  by (simp add: go_eval)

end
