(* ===== verification/Services.thy ===== *)
theory Services
  imports Listener GoStrings
begin

text \<open>
  \<open>pkg/server/lifecycle.go\<close> with the main loop of \<open>cmd/inbucket/main.go\<close>: the three servers, the channel that
  merges their fatal errors, the signal that all are ready, the channel of the hub (\<open>pkg/msghub/hub.go\<close>), and the
  shutdown that drains the sessions. The web server has no sessions of its own here. A relation has one rule for each step of any of them.
  \<open>pkg/metric/metric.go\<close>: the bounded history behind a chart.
\<close>

subsection \<open>The services\<close>

datatype phase = SignalLoop | DrainSMTP | DrainPOP3 | JoinRetention | Exited | Crashed

record 'c services =
  smtp_srv :: "'c acceptor option"
  pop_srv :: "'c acceptor option"
  web_srv :: "'c acceptor option"
  merging :: bool
  merged :: "string list"
  all_ready :: bool
  cancelled :: bool
  retentionPeriod :: int
  scanner_on :: bool
  hub_open :: bool
  events :: nat
  main_phase :: phase

text \<open>The services of a new program: no server is started yet, and the goroutine of \<open>setupNotify\<close> waits.\<close>

definition idle_services :: "int \<Rightarrow> 'c services" where
  [go_eval]: "idle_services period =
     \<lparr>smtp_srv = None, pop_srv = None, web_srv = None, merging = True, merged = [], all_ready = False, cancelled = False,
      retentionPeriod = period, scanner_on = True, hub_open = True, events = 0,
      main_phase = SignalLoop\<rparr>"

definition reported :: "'c acceptor option \<Rightarrow> string list" where
  [go_eval]: "reported s = (case s of None \<Rightarrow> [] | Some s \<Rightarrow> notify s)"

definition server_errors :: "'c services \<Rightarrow> string list" where
  [go_eval]: "server_errors a = reported (pop_srv a) @ reported (smtp_srv a) @ reported (web_srv a)"

text \<open>\<open>setupNotify\<close>: the goroutine forwards the one error it receives, and ends.\<close>

definition setupNotify :: "string \<Rightarrow> 'c services \<Rightarrow> 'c services" where
  [go_eval]: "setupNotify e a = a\<lparr>merging := False, merged := [e]\<rparr>"

definition is_ready :: "'c acceptor option \<Rightarrow> bool" where
  [go_eval]: "is_ready s = (case s of None \<Rightarrow> False | Some s \<Rightarrow> acceptor.ready s)"

text \<open>The end of the signal loop: the context of all services is cancelled.\<close>

definition svcCancel :: "'c services \<Rightarrow> 'c services" where
  [go_eval]: "svcCancel a =
     a\<lparr>smtp_srv := map_option (ctx_done_update (\<lambda>b. True)) (smtp_srv a),
       pop_srv := map_option (ctx_done_update (\<lambda>b. True)) (pop_srv a),
       web_srv := map_option (ctx_done_update (\<lambda>b. True)) (web_srv a),
       cancelled := True, main_phase := DrainSMTP\<rparr>"

text \<open>
  The signal loop: what it receives is a signal, or an error of the services. Another signal is
  ignored.
\<close>

datatype main_event = Signal string | ServiceFailed

definition signalLoop :: "main_event \<Rightarrow> 'c services \<Rightarrow> 'c services" where
  [go_eval]: "signalLoop ev a =
     (case ev of
        Signal s \<Rightarrow> (if s = ''SIGINT'' then svcCancel a else if s = ''SIGTERM'' then svcCancel a else a)
      | ServiceFailed \<Rightarrow> svcCancel a)"

definition received :: "bool \<Rightarrow> 'c services \<Rightarrow> main_event \<Rightarrow> bool" where
  [go_eval]: "received sig a ev \<longleftrightarrow> (case ev of Signal s \<Rightarrow> sig | ServiceFailed \<Rightarrow> merged a \<noteq> [])"

definition started_server :: "string option \<Rightarrow> string option \<Rightarrow> 'c services \<Rightarrow> 'c acceptor option" where
  [go_eval]: "started_server resolve listen a = Some (server_Start resolve listen (new_acceptor\<lparr>ctx_done := cancelled a\<rparr>))"

text \<open>The web server listens on an address that needs no resolving first; its \<open>serve\<close> ends with the error of the listener.\<close>

definition web_Start :: "string option \<Rightarrow> 'c acceptor \<Rightarrow> 'c acceptor" where
  [go_eval]: "web_Start listen s =
     (case listen of Some e \<Rightarrow> fail_with e s | None \<Rightarrow> s\<lparr>listening := True, serving := True, ready := True\<rparr>)"

definition web_serve :: "string \<Rightarrow> 'c acceptor \<Rightarrow> 'c acceptor" where
  [go_eval]: "web_serve e s = (if ctx_done s then s\<lparr>serving := False\<rparr> else fail_with e (s\<lparr>serving := False\<rparr>))"

definition drained :: "'c acceptor option \<Rightarrow> bool" where
  [go_eval]: "drained s = (case s of None \<Rightarrow> True | Some s \<Rightarrow> Drain s)"

text \<open>
  The hub: when the context is cancelled it closes the channel of its operations. A message that a
  session or the scanner stores or deletes becomes an event, whose goroutine sends an operation to the
  hub; sending to a closed channel panics, which ends the process.
\<close>

definition hub_shutdown :: "'c services \<Rightarrow> 'c services" where
  [go_eval]: "hub_shutdown a = a\<lparr>hub_open := False\<rparr>"

definition in_session :: "'c acceptor option \<Rightarrow> bool" where
  [go_eval]: "in_session s \<longleftrightarrow> (case s of None \<Rightarrow> False | Some s \<Rightarrow> running s \<noteq> [])"

definition send_op :: "'c services \<Rightarrow> 'c services" where
  [go_eval]: "send_op a = (if hub_open a then a\<lparr>events := events a - 1\<rparr> else a\<lparr>main_phase := Crashed\<rparr>)"

text \<open>The rest of \<open>main\<close>: it waits for the servers and the scanner in this order; \<open>None\<close> is that it has to wait.\<close>

definition main_waits :: "'c services \<Rightarrow> 'c services option" where
  [go_eval]: "main_waits a =
     (case main_phase a of
        SignalLoop \<Rightarrow> None
      | DrainSMTP \<Rightarrow> (if drained (smtp_srv a) then Some (a\<lparr>main_phase := DrainPOP3\<rparr>) else None)
      | DrainPOP3 \<Rightarrow> (if drained (pop_srv a) then Some (a\<lparr>main_phase := JoinRetention\<rparr>) else None)
      | JoinRetention \<Rightarrow> (if scanner_on a then None else Some (a\<lparr>main_phase := Exited\<rparr>))
      | Exited \<Rightarrow> None
      | Crashed \<Rightarrow> None)"

text \<open>\<open>timedExit\<close>, a goroutine that \<open>main\<close> starts before it waits: after 15 seconds it ends the process.\<close>

definition timedExit :: "'c services \<Rightarrow> 'c services option" where
  [go_eval]: "timedExit a = (if main_phase a \<in> {DrainSMTP, DrainPOP3, JoinRetention} then Some (a\<lparr>main_phase := Exited\<rparr>) else None)"

text \<open>
  The steps; \<open>sig\<close> says whether the process can receive signals. Each server is started by a goroutine
  of its own, at any time. The scanner ends at once when no period is configured.
\<close>

inductive services_step :: "bool \<Rightarrow> 'c services \<Rightarrow> 'c services \<Rightarrow> bool" for sig where
  start_smtp: "smtp_srv a = None \<Longrightarrow> services_step sig a (a\<lparr>smtp_srv := started_server resolve listen a\<rparr>)"
| start_pop: "pop_srv a = None \<Longrightarrow> services_step sig a (a\<lparr>pop_srv := started_server resolve listen a\<rparr>)"
| start_web: "web_srv a = None \<Longrightarrow> services_step sig a (a\<lparr>web_srv := Some (web_Start listen (new_acceptor\<lparr>ctx_done := cancelled a\<rparr>))\<rparr>)"
| smtp_steps: "smtp_srv a = Some s \<Longrightarrow> own_step smtp_serve smtp_begin s s' \<Longrightarrow> services_step sig a (a\<lparr>smtp_srv := Some s'\<rparr>)"
| pop_steps: "pop_srv a = Some s \<Longrightarrow> own_step pop_serve pop_begin s s' \<Longrightarrow> services_step sig a (a\<lparr>pop_srv := Some s'\<rparr>)"
| web_ends: "web_srv a = Some s \<Longrightarrow> serving s \<Longrightarrow> services_step sig a (a\<lparr>web_srv := Some (web_serve e s)\<rparr>)"
| merges: "merging a \<Longrightarrow> e \<in> set (server_errors a) \<Longrightarrow> services_step sig a (setupNotify e a)"
| readies: "is_ready (smtp_srv a) \<Longrightarrow> is_ready (pop_srv a) \<Longrightarrow> is_ready (web_srv a) \<Longrightarrow> services_step sig a (a\<lparr>all_ready := True\<rparr>)"
| receives: "main_phase a = SignalLoop \<Longrightarrow> received sig a ev \<Longrightarrow> services_step sig a (signalLoop ev a)"
| scanner_stops: "cancelled a \<or> retentionPeriod a \<le> 0 \<Longrightarrow> services_step sig a (a\<lparr>scanner_on := False\<rparr>)"
| emits: "in_session (smtp_srv a) \<or> in_session (pop_srv a) \<or> scanner_on a \<Longrightarrow> services_step sig a (a\<lparr>events := Suc (events a)\<rparr>)"
| hub_stops: "cancelled a \<Longrightarrow> services_step sig a (hub_shutdown a)"
| sends: "0 < events a \<Longrightarrow> services_step sig a (send_op a)"
| waited: "main_waits a = Some a' \<Longrightarrow> services_step sig a a'"
| timed_out: "timedExit a = Some a' \<Longrightarrow> services_step sig a a'"

text \<open>A step of the process, which is no more once \<open>main\<close> has returned or a goroutine has panicked.\<close>

definition process_step :: "bool \<Rightarrow> 'c services \<Rightarrow> 'c services \<Rightarrow> bool" where
  "process_step sig a a' \<longleftrightarrow> main_phase a \<notin> {Exited, Crashed} \<and> services_step sig a a'"

inductive services_reach :: "'c services \<Rightarrow> bool" where
  assembled: "services_reach (idle_services period)"
| services_go: "services_reach a \<Longrightarrow> process_step sig a a' \<Longrightarrow> services_reach a'"

text \<open>What holds in every state: the servers are in states of their own, and know of the cancellation.\<close>

definition known_state :: "('c acceptor \<Rightarrow> bool) \<Rightarrow> 'c services \<Rightarrow> 'c acceptor option \<Rightarrow> bool" where
  "known_state P a s \<longleftrightarrow> (case s of None \<Rightarrow> True | Some s \<Rightarrow> P s \<and> ctx_done s = cancelled a)"

definition services_inv :: "'c services \<Rightarrow> bool" where
  "services_inv a \<longleftrightarrow> known_state (server_reach smtp_serve smtp_begin) a (smtp_srv a)
     \<and> known_state (server_reach pop_serve pop_begin) a (pop_srv a) \<and> known_state (\<lambda>s. True) a (web_srv a)
     \<and> (cancelled a \<longleftrightarrow> main_phase a \<noteq> SignalLoop) \<and> (hub_open a \<or> cancelled a) \<and> (merging a \<longleftrightarrow> merged a = [])"

lemma reach_cancel: "server_reach serve start s \<Longrightarrow> server_reach serve start (s\<lparr>ctx_done := True\<rparr>)"
  by (erule further) (rule cancels)

lemma services_inv_cancel: "services_inv a \<Longrightarrow> services_inv (svcCancel a)"
  by (auto simp: services_inv_def known_state_def svcCancel_def reach_cancel split: option.splits)

lemma services_inv_signal: "services_inv a \<Longrightarrow> services_inv (signalLoop ev a)"
  by (simp add: signalLoop_def services_inv_cancel split: main_event.splits)

lemma known_started:
  "known_state (server_reach serve start) a (started_server resolve listen a)"
  using started [of serve start resolve listen "cancelled a"]
  by (auto simp: known_state_def started_server_def server_Start_def fail_with_def split: option.splits)

lemma known_own:
  "known_state (server_reach serve start) a (Some s) \<Longrightarrow> own_step serve start s s' \<Longrightarrow> known_state (server_reach serve start) a (Some s')"
  by (auto simp: known_state_def own_step_def intro: further)

lemma known_fields [simp]:
  "known_state P (a\<lparr>smtp_srv := x\<rparr>) s = known_state P a s" "known_state P (a\<lparr>pop_srv := x\<rparr>) s = known_state P a s"
  "known_state P (a\<lparr>web_srv := x\<rparr>) s = known_state P a s" "known_state P (a\<lparr>all_ready := b\<rparr>) s = known_state P a s"
  "known_state P (a\<lparr>scanner_on := b\<rparr>) s = known_state P a s" "known_state P (a\<lparr>main_phase := ph\<rparr>) s = known_state P a s"
  "known_state P (a\<lparr>merging := b, merged := es\<rparr>) s = known_state P a s"
  "known_state P (a\<lparr>hub_open := b\<rparr>) s = known_state P a s" "known_state P (a\<lparr>events := k\<rparr>) s = known_state P a s"
  by (simp_all add: known_state_def split: option.splits)

lemma known_state_simps [simp]:
  "known_state P a None" "known_state P a (Some s) \<longleftrightarrow> P s \<and> ctx_done s = cancelled a"
  by (simp_all add: known_state_def)

lemma ctx_done_web_serve [simp]: "ctx_done (web_serve e s) = ctx_done s"
  by (simp add: web_serve_def fail_with_def)

lemma services_inv_step: "services_step sig a a' \<Longrightarrow> services_inv a \<Longrightarrow> services_inv a'"
proof (induction rule: services_step.induct)
  case (start_web a listen)
  then show ?case
    by (auto simp: services_inv_def known_state_def web_Start_def fail_with_def new_acceptor_def split: option.splits)
next
  case (web_ends a s e)
  then show ?case by (auto simp: services_inv_def)
next
  case (smtp_steps a s s')
  then have "known_state (server_reach smtp_serve smtp_begin) a (Some s')"
    by (intro known_own [OF _ smtp_steps(2)]) (simp add: services_inv_def)
  with smtp_steps(3) show ?case by (auto simp: services_inv_def)
next
  case (pop_steps a s s')
  then have "known_state (server_reach pop_serve pop_begin) a (Some s')"
    by (intro known_own [OF _ pop_steps(2)]) (simp add: services_inv_def)
  with pop_steps(3) show ?case by (auto simp: services_inv_def)
next
  case (sends a)
  then show ?case by (auto simp: send_op_def services_inv_def)
next
  case (waited a a')
  then show ?case by (auto simp: main_waits_def services_inv_def split: phase.splits if_splits)
next
  case (timed_out a a')
  then show ?case by (auto simp: timedExit_def services_inv_def split: if_splits)
qed (auto simp: services_inv_signal, auto simp: services_inv_def known_started setupNotify_def hub_shutdown_def)

lemma services_inv_reach: "services_reach a \<Longrightarrow> services_inv a"
proof (induction rule: services_reach.induct)
  case assembled
  show ?case by (simp add: services_inv_def idle_services_def)
next
  case (services_go a sig a')
  then show ?case unfolding process_step_def by (blast intro: services_inv_step)
qed

subsection \<open>The shutdown\<close>

abbreviation services_steps :: "'c services \<Rightarrow> 'c services \<Rightarrow> bool" where
  "services_steps \<equiv> (process_step False)\<^sup>*\<^sup>*"

lemma lift_smtp:
  "(own_step smtp_serve smtp_begin)\<^sup>*\<^sup>* s s' \<Longrightarrow> smtp_srv a = Some s \<Longrightarrow> main_phase a \<notin> {Exited, Crashed} \<Longrightarrow> services_steps a (a\<lparr>smtp_srv := Some s'\<rparr>)"
proof (induction rule: rtranclp_induct)
  case base
  then have "a = a\<lparr>smtp_srv := Some s\<rparr>" by simp
  then show ?case by simp
next
  case (step t u)
  have "process_step False (a\<lparr>smtp_srv := Some t\<rparr>) (a\<lparr>smtp_srv := Some u\<rparr>)"
    using smtp_steps [of "a\<lparr>smtp_srv := Some t\<rparr>" t u False] step(2) step(5) by (simp add: process_step_def)
  with step show ?case by (meson rtranclp.rtrancl_into_rtrancl)
qed

lemma lift_pop:
  "(own_step pop_serve pop_begin)\<^sup>*\<^sup>* s s' \<Longrightarrow> pop_srv a = Some s \<Longrightarrow> main_phase a \<notin> {Exited, Crashed} \<Longrightarrow> services_steps a (a\<lparr>pop_srv := Some s'\<rparr>)"
proof (induction rule: rtranclp_induct)
  case base
  then have "a = a\<lparr>pop_srv := Some s\<rparr>" by simp
  then show ?case by simp
next
  case (step t u)
  have "process_step False (a\<lparr>pop_srv := Some t\<rparr>) (a\<lparr>pop_srv := Some u\<rparr>)"
    using pop_steps [of "a\<lparr>pop_srv := Some t\<rparr>" t u False] step(2) step(5) by (simp add: process_step_def)
  with step show ?case by (meson rtranclp.rtrancl_into_rtrancl)
qed

definition server_over :: "'c acceptor option \<Rightarrow> bool" where
  [go_eval]: "server_over s = (case s of None \<Rightarrow> True | Some s \<Rightarrow> \<not> serving s \<and> spawned s = [] \<and> running s = [] \<and> wg s = 0)"

lemma server_over_drained: "server_over s \<Longrightarrow> drained s"
  by (simp add: server_over_def drained_def Drain_def split: option.splits)

lemma smtp_over:
  assumes "services_inv a" and "cancelled a" and "main_phase a \<notin> {Exited, Crashed}"
  shows "\<exists>x. services_steps a (a\<lparr>smtp_srv := x\<rparr>) \<and> server_over x \<and> services_inv (a\<lparr>smtp_srv := x\<rparr>)"
proof (cases "smtp_srv a")
  case None
  then have "a = a\<lparr>smtp_srv := None\<rparr>" by simp
  with assms(1) show ?thesis by (intro exI [of _ None]) (simp add: server_over_def)
next
  case (Some s)
  with assms have "server_reach smtp_serve smtp_begin s" "ctx_done s" by (simp_all add: services_inv_def)
  from smtp.winds_down [OF this] obtain s' where s': "(own_step smtp_serve smtp_begin)\<^sup>*\<^sup>* s s'" "server_over (Some s')"
    by (auto simp: server_over_def)
  have "known_state (server_reach smtp_serve smtp_begin) a (Some s')"
    using s'(1)
  proof (induction rule: rtranclp_induct)
    case base
    then show ?case using assms(1) Some by (simp add: services_inv_def)
  next
    case (step t u)
    then show ?case by (blast intro: known_own)
  qed
  with assms(1) lift_smtp [OF s'(1) Some assms(3)] s'(2) show ?thesis by (intro exI [of _ "Some s'"]) (auto simp: services_inv_def)
qed

lemma pop_over:
  assumes "services_inv a" and "cancelled a" and "main_phase a \<notin> {Exited, Crashed}"
  shows "\<exists>x. services_steps a (a\<lparr>pop_srv := x\<rparr>) \<and> server_over x"
proof (cases "pop_srv a")
  case None
  then have "a = a\<lparr>pop_srv := None\<rparr>" by simp
  then show ?thesis by (intro exI [of _ None]) (simp add: server_over_def)
next
  case (Some s)
  with assms have "server_reach pop_serve pop_begin s" "ctx_done s" by (simp_all add: services_inv_def)
  from pop.winds_down [OF this] obtain s' where s': "(own_step pop_serve pop_begin)\<^sup>*\<^sup>* s s'" "server_over (Some s')"
    by (auto simp: server_over_def)
  with lift_pop [OF s'(1) Some assms(3)] show ?thesis by blast
qed

lemma main_exits:
  assumes "server_over (smtp_srv a)" and "server_over (pop_srv a)" and "cancelled a"
    and "main_phase a \<notin> {SignalLoop, Exited, Crashed}"
  shows "\<exists>b. services_steps a b \<and> main_phase b = Exited \<and> smtp_srv b = smtp_srv a \<and> pop_srv b = pop_srv a"
proof -
  let ?a = "a\<lparr>scanner_on := False\<rparr>"
  have 0: "services_steps a ?a" using scanner_stops [of a False] assms(3,4) by (simp add: process_step_def r_into_rtranclp)
  have 3: "services_steps (?a\<lparr>main_phase := JoinRetention\<rparr>) (?a\<lparr>main_phase := Exited\<rparr>)"
    using waited [of "?a\<lparr>main_phase := JoinRetention\<rparr>" _ False] by (simp add: process_step_def main_waits_def r_into_rtranclp)
  have 2: "services_steps (?a\<lparr>main_phase := DrainPOP3\<rparr>) (?a\<lparr>main_phase := JoinRetention\<rparr>)"
    using waited [of "?a\<lparr>main_phase := DrainPOP3\<rparr>" _ False] server_over_drained [OF assms(2)] by (simp add: process_step_def main_waits_def r_into_rtranclp)
  have 1: "services_steps (?a\<lparr>main_phase := DrainSMTP\<rparr>) (?a\<lparr>main_phase := DrainPOP3\<rparr>)"
    using waited [of "?a\<lparr>main_phase := DrainSMTP\<rparr>" _ False] server_over_drained [OF assms(1)] by (simp add: process_step_def main_waits_def r_into_rtranclp)
  have "?a = ?a\<lparr>main_phase := main_phase a\<rparr>" by simp
  moreover have "services_steps (?a\<lparr>main_phase := ph\<rparr>) (?a\<lparr>main_phase := Exited\<rparr>)" if "ph \<notin> {SignalLoop, Exited, Crashed}" for ph
    using that 3 rtranclp_trans [OF 2 3] rtranclp_trans [OF 1 rtranclp_trans [OF 2 3]] by (cases ph) simp_all
  ultimately have "services_steps ?a (?a\<lparr>main_phase := Exited\<rparr>)" using assms(4) by metis
  with 0 show ?thesis by (intro exI [of _ "?a\<lparr>main_phase := Exited\<rparr>"]) (auto intro: rtranclp_trans)
qed

lemma failure_cancels:
  assumes "services_inv a" and "main_phase a = SignalLoop" and "server_errors a \<noteq> []"
  shows "\<exists>b. services_steps a b \<and> services_inv b \<and> cancelled b \<and> main_phase b \<notin> {Exited, Crashed}"
proof -
  have "\<exists>b. services_steps a b \<and> merged b \<noteq> [] \<and> main_phase b = SignalLoop \<and> services_inv b"
  proof (cases "merging a")
    case True
    from assms(3) obtain e where "e \<in> set (server_errors a)" by (cases "server_errors a") auto
    note m = merges [OF True this, of False]
    with assms(2) have "process_step False a (setupNotify e a)" by (simp add: process_step_def)
    with services_inv_step [OF m assms(1)] assms(2) show ?thesis
      by (intro exI [of _ "setupNotify e a"]) (simp add: setupNotify_def r_into_rtranclp)
  next
    case False
    with assms(1,2) show ?thesis by (intro exI [of _ a]) (auto simp: services_inv_def)
  qed
  then obtain b where b: "services_steps a b" "merged b \<noteq> []" "main_phase b = SignalLoop" "services_inv b" by blast
  have "services_step False b (svcCancel b)"
    using receives [OF b(3), of False ServiceFailed] b(2) by (simp add: received_def signalLoop_def)
  with b(3) have "process_step False b (svcCancel b)" by (simp add: process_step_def)
  with b(1) have "services_steps a (svcCancel b)" by (rule rtranclp.rtrancl_into_rtrancl)
  with services_inv_cancel [OF b(4)] show ?thesis by (intro exI [of _ "svcCancel b"]) (simp add: svcCancel_def)
qed

text \<open>
  C4: the shutdown is never stuck: from every state in which a server has reported a fatal error, or
  the process was told to stop, there is a way on without any signal to the exit of the process, with
  the SMTP and POP3 servers stopped and all their sessions served to the end.
\<close>
theorem services_shut_down:
  assumes "services_reach a" and "main_phase a \<notin> {Exited, Crashed}" and "server_errors a \<noteq> [] \<or> main_phase a \<noteq> SignalLoop"
  shows "\<exists>b. services_steps a b \<and> main_phase b = Exited \<and> server_over (smtp_srv b) \<and> server_over (pop_srv b)"
proof -
  note inv = services_inv_reach [OF assms(1)]
  have "\<exists>b. services_steps a b \<and> services_inv b \<and> cancelled b \<and> main_phase b \<notin> {Exited, Crashed}"
  proof (cases "main_phase a = SignalLoop")
    case True
    with failure_cancels [OF inv] assms(3) show ?thesis by blast
  next
    case False
    with inv assms(2) show ?thesis by (intro exI [of _ a]) (simp add: services_inv_def)
  qed
  then obtain b where b: "services_steps a b" "services_inv b" "cancelled b" "main_phase b \<notin> {Exited, Crashed}" by blast
  from smtp_over [OF b(2-4)] obtain x where x: "services_steps b (b\<lparr>smtp_srv := x\<rparr>)" "server_over x" "services_inv (b\<lparr>smtp_srv := x\<rparr>)"
    by blast
  let ?b = "b\<lparr>smtp_srv := x\<rparr>"
  have c: "cancelled ?b" "main_phase ?b \<notin> {Exited, Crashed}" using b(3,4) by simp_all
  from pop_over [OF x(3) c] obtain y where y: "services_steps ?b (?b\<lparr>pop_srv := y\<rparr>)" "server_over y" by blast
  have "main_phase b \<noteq> SignalLoop" using b(2,3) by (simp add: services_inv_def)
  with main_exits [of "?b\<lparr>pop_srv := y\<rparr>"] x(2) y(2) b(3,4) obtain d where d: "services_steps (?b\<lparr>pop_srv := y\<rparr>) d"
    "main_phase d = Exited" "smtp_srv d = x" "pop_srv d = y" by auto
  have "services_steps a d" using b(1) x(1) y(1) d(1) by (meson rtranclp_trans)
  with d x(2) y(2) show ?thesis by blast
qed

theorem services_shut_down_witness:
  "\<exists>a b :: nat services. main_phase a = SignalLoop \<and> server_errors a = [''in use''] \<and> services_steps a b \<and> main_phase b = Exited"
proof -
  let ?f = "idle_services 0 :: nat services"
  let ?a = "?f\<lparr>smtp_srv := started_server None (Some ''in use'') ?f\<rparr>"
  have "process_step False ?f ?a"
    using start_smtp [of ?f False None "Some ''in use''"] by (simp add: process_step_def idle_services_def)
  with assembled have r: "services_reach ?a" by (rule services_go)
  have e: "server_errors ?a = [''in use'']" "main_phase ?a = SignalLoop" "main_phase ?a \<notin> {Exited, Crashed}"
    by (simp_all add: server_errors_def reported_def started_server_def server_Start_def fail_with_def new_acceptor_def idle_services_def)
  from services_shut_down [OF r e(3)] e(1) obtain b where "services_steps ?a b" "main_phase b = Exited" by auto
  with e show ?thesis by blast
qed


text \<open>A session runs, and the process is told to stop.\<close>

definition session_running :: "nat acceptor" where
  [go_eval]: "session_running = smtp_begin (1, 7) (smtp_serve (Conn 7) (server_Start None None new_acceptor))"

lemma session_running_steps:
  "(own_step smtp_serve smtp_begin)\<^sup>*\<^sup>* (server_Start None None new_acceptor) session_running"
proof -
  let ?s = "server_Start None None new_acceptor :: nat acceptor" and ?t = "smtp_serve (Conn 7) (server_Start None None new_acceptor) :: nat acceptor"
  have "own_step smtp_serve smtp_begin ?s ?t"
    unfolding own_step_def using accepts [of ?s "Conn 7" smtp_serve smtp_begin] by (simp add: go_eval)
  moreover have "own_step smtp_serve smtp_begin ?t (smtp_begin (1, 7) ?t)"
    unfolding own_step_def using begins [of "(1, 7)" ?t smtp_serve smtp_begin] by (simp add: go_eval)
  ultimately show ?thesis unfolding session_running_def by (meson r_into_rtranclp rtranclp.rtrancl_into_rtrancl)
qed

lemma reach_steps: "services_reach a \<Longrightarrow> services_steps a b \<Longrightarrow> services_reach b"
  by (rotate_tac) (erule (1) rtranclp_induct, erule services_go)


subsection \<open>The history of a metric\<close>

definition Push :: "string list \<Rightarrow> string \<Rightarrow> string \<times> string list" where
  [go_eval]: "Push history ev =
     (let h = history @ [ev]; h = (if length h > 61 then tl h else h) in (Join h '','', h))"

lemma Push_history:
  "length h \<le> 61 \<Longrightarrow> foldl (\<lambda>h ev. snd (Push h ev)) h evs = drop (length (h @ evs) - 61) (h @ evs)"
proof (induction evs arbitrary: h)
  case (Cons ev evs)
  show ?case
  proof (cases "length (h @ [ev]) > 61")
    case True
    then have l: "length h = 61" "length (tl h @ [ev]) \<le> 61" using Cons.prems by auto
    then have "snd (Push h ev) = tl h @ [ev]" by (cases h) (auto simp: Push_def Let_def)
    with Cons.IH [OF l(2)] l(1) show ?thesis by (cases h) (simp_all add: Suc_diff_le)
  next
    case False
    with Cons.IH [of "h @ [ev]"] show ?thesis by (simp add: Push_def Let_def)
  qed
qed simp

end
