(* ===== verification/Assembly.thy ===== *)
theory Assembly
  imports LuaHost Services MailFlow MsgHub
begin

text \<open>
  How a program is put together: \<open>FullAssembly\<close> of \<open>pkg/server/lifecycle.go\<close>, with \<open>FromConfig\<close> of
  \<open>pkg/storage/storage.go\<close> and the constructors that \<open>cmd/inbucket/main.go\<close> registers. The store of a program
  is one of the two, behind the same interface.
\<close>

subsection \<open>A store of either kind\<close>

datatype any_store = FileState fstore | MemState mem_store

definition dispatch :: "(fstore \<Rightarrow> 'a \<times> fstore) \<Rightarrow> (mem_store \<Rightarrow> 'a \<times> mem_store) \<Rightarrow> any_store \<Rightarrow> 'a \<times> any_store" where
  [go_eval]: "dispatch f g st =
     (case st of FileState s \<Rightarrow> (let (r, s) = f s in (r, FileState s)) | MemState s \<Rightarrow> (let (r, s) = g s in (r, MemState s)))"

definition any_ops :: "any_store Store" where
  [go_eval]: "any_ops =
     \<lparr>AddMessage = (\<lambda>st m. dispatch (\<lambda>s. AddMessage file_ops s m) (\<lambda>s. AddMessage mem_ops s m) st),
      GetMessage = (\<lambda>st mb i. dispatch (\<lambda>s. GetMessage file_ops s mb i) (\<lambda>s. GetMessage mem_ops s mb i) st),
      GetMessages = (\<lambda>st mb. dispatch (\<lambda>s. GetMessages file_ops s mb) (\<lambda>s. GetMessages mem_ops s mb) st),
      MarkSeen = (\<lambda>st mb i. dispatch (\<lambda>s. MarkSeen file_ops s mb i) (\<lambda>s. MarkSeen mem_ops s mb i) st),
      PurgeMessages = (\<lambda>st mb. dispatch (\<lambda>s. PurgeMessages file_ops s mb) (\<lambda>s. PurgeMessages mem_ops s mb) st),
      RemoveMessage = (\<lambda>st mb i. dispatch (\<lambda>s. RemoveMessage file_ops s mb i) (\<lambda>s. RemoveMessage mem_ops s mb i) st)\<rparr>"

definition any_abs :: "any_store \<Rightarrow> string \<Rightarrow> message list" where
  [go_eval]: "any_abs st = (case st of FileState s \<Rightarrow> file_abs s | MemState s \<Rightarrow> mem_abs s)"

definition any_ok :: "int \<Rightarrow> string \<Rightarrow> (string \<Rightarrow> string) \<Rightarrow> string set \<Rightarrow> any_store \<Rightarrow> bool" where
  "any_ok c p h I st = (case st of FileState s \<Rightarrow> file_capped c p h I s | MemState s \<Rightarrow> mem_capped c s)"

lemma any_simps [simp]:
  "any_abs (FileState s) = file_abs s" "any_abs (MemState t) = mem_abs t"
  "any_ok c p h I (FileState s) = file_capped c p h I s" "any_ok c p h I (MemState t) = mem_capped c t"
  by (simp_all add: any_abs_def any_ok_def)

lemma dispatch_cases:
  assumes "dispatch f g st = (r, st')"
  obtains s s' where "st = FileState s" "st' = FileState s'" "f s = (r, s')"
    | s s' where "st = MemState s" "st' = MemState s'" "g s = (r, s')"
  using assms by (cases st) (auto simp: dispatch_def split: prod.splits)

lemma dispatch_simps [simp]:
  "dispatch f g (FileState s) = (r, st') \<longleftrightarrow> (\<exists>s'. st' = FileState s' \<and> f s = (r, s'))"
  "dispatch f g (MemState t) = (r, st') \<longleftrightarrow> (\<exists>t'. st' = MemState t' \<and> g t = (r, t'))"
  by (auto simp: dispatch_def split: prod.splits)

text \<open>The contract of both stores is that of a store of either kind.\<close>

interpretation any: capped_store any_ops any_abs "any_ok c p h I" c for c p h I
proof (unfold_locales, goal_cases)
  case (1 st mb) then show ?case by (cases st) (simp_all add: disk.ids_distinct capped.ids_distinct)
next
  case (2 st m mb) then show ?case by (cases st) (simp_all add: disk.mailbox_of capped.mailbox_of)
next
  case (3 st m ra st') then show ?case by (cases st) (auto simp: any_ops_def intro: disk.inv_add capped.inv_add)
next
  case (4 st m src) then show ?case by (cases st) (auto simp: any_ops_def intro: disk.add_result capped.add_result)
next
  case (5 st m i st' mb)
  then show ?case by (cases st) (auto simp: any_ops_def simp del: fun_upd_apply intro: disk.add_abs capped.add_abs split del: if_split)
next
  case (6 st mb r st') then show ?case by (cases st) (auto simp: any_ops_def intro: disk.inv_get capped.inv_get)
next
  case (7 st mb r st') then show ?case by (cases st) (auto simp: any_ops_def dest: disk.get_messages capped.get_messages)
next
  case (8 st mb i e st') then show ?case by (cases st) (auto simp: any_ops_def intro: disk.inv_remove capped.inv_remove)
next
  case (9 st mb i e st') then show ?case by (cases st) (auto simp: any_ops_def dest: disk.remove_abs capped.remove_abs)
next
  case (10 st mb i e st')
  then show ?case by (cases st) (auto simp: any_ops_def dest: disk.remove_result capped.remove_result)
next
  case (11 st mb e st') then show ?case by (cases st) (auto simp: any_ops_def intro: disk.inv_purge capped.inv_purge)
next
  case (12 st mb e st') then show ?case by (cases st) (auto simp: any_ops_def dest: disk.purge_abs capped.purge_abs)
next
  case (13 st mb i e st') then show ?case by (cases st) (auto simp: any_ops_def intro: disk.inv_seen capped.inv_seen)
next
  case (14 st mb i e st') then show ?case by (cases st) (auto simp: any_ops_def dest: disk.seen_abs capped.seen_abs)
next
  case (15 st mb i ro st') then show ?case by (cases st) (auto simp: any_ops_def dest: disk.inv_get_one capped.inv_get_one)
next
  case (16 st mb i m st') then show ?case by (cases st) (auto simp: any_ops_def dest: disk.get_one capped.get_one)
next
  case (17 st m mb) then show ?case by (cases st) (auto simp: any_ops_def intro: disk.get_one_found capped.get_one_found)
next
  case (18 st i mb rm st') then show ?case by (cases st) (auto simp: any_ops_def dest: disk.get_missing capped.get_missing)
next
  case (19 st m i st') then show ?case by (cases st) (auto simp: any_ops_def dest: disk.add_capped capped.add_capped)
qed

subsection \<open>The assembly\<close>

text \<open>
  What the machine provides: files and compiler for the script, key pairs, the file system and digest
  of the file store, the clocks, and the mail parser.
\<close>

record ('hdr, 'env, 'ls) platform =
  pf_stat :: "string \<Rightarrow> bool option"
  pf_read :: "string \<Rightarrow> string option"
  pf_compile :: "string \<Rightarrow> 'ls script option"
  pf_keypair :: "string \<Rightarrow> string \<Rightarrow> bool"
  pf_files :: "gobval files"
  pf_sha1 :: "string \<Rightarrow> string"
  pf_ids :: "nat \<Rightarrow> int \<times> string"
  pf_clock :: "nat \<Rightarrow> int \<times> string"
  pf_enmime :: "('hdr, 'env) Enmime"

record ('hdr, 'env, 'ls, 'c) program =
  prog_lua :: "('ls script \<times> 'ls luaHost \<times> wiring) option"
  prog_store :: any_store
  prog_hub :: "nat Hub"
  prog_smtp :: "('hdr, 'env, any_store) Server"
  prog_pop :: "any_store PopServer"
  prog_services :: "'c services"

datatype assembly_error = LuaNotStarted host_error | UnknownStorage string | StorageNotStarted | NoKeyPair

text \<open>The constructors that are registered; \<open>None\<close> inside is their error.\<close>

definition Constructors :: "('hdr, 'env, 'ls) platform \<Rightarrow> string \<Rightarrow> (storage_config \<Rightarrow> any_store option) option" where
  [go_eval]: "Constructors pf name =
     (if name = ''file'' then
        Some (\<lambda>c. case file_New c (pf_files pf) (pf_sha1 pf) (pf_ids pf) 0 of Inl e \<Rightarrow> None | Inr s \<Rightarrow> Some (FileState s))
      else if name = ''memory'' then
        Some (\<lambda>c. map_option MemState (mem_New (MailboxMsgCap c) (map_of (Params c) ''maxkb'')))
      else None)"

definition FromConfig :: "(string \<Rightarrow> (storage_config \<Rightarrow> any_store option) option) \<Rightarrow> storage_config \<Rightarrow> (assembly_error, any_store) result" where
  [go_eval]: "FromConfig constructors c =
     (case constructors (Type c) of
        Some cf \<Rightarrow> (case cf c of None \<Rightarrow> Err StorageNotStarted | Some st \<Rightarrow> Ok st)
      | None \<Rightarrow> Err (UnknownStorage (Type c)))"

text \<open>A broker that has the listener of the Lua host when the script has the function.\<close>

definition lua_broker :: "('ls script \<times> 'ls luaHost \<times> wiring) option \<Rightarrow> (wiring \<Rightarrow> bool)
    \<Rightarrow> ('ls script \<Rightarrow> 'ls luaHost \<Rightarrow> 'a \<Rightarrow> 'b option) \<Rightarrow> ('a, 'b) EventBroker" where
  [go_eval]: "lua_broker lua wired f =
     (case lua of
        None \<Rightarrow> empty_broker
      | Some (sc, host, w) \<Rightarrow> (if wired w then AddListener empty_broker ''lua'' (f sc host) else empty_broker))"

text \<open>\<open>FullAssembly\<close>, from the storage on: the first part that fails is the error.\<close>

definition assemble :: "('hdr, 'env, 'ls) platform \<Rightarrow> Root \<Rightarrow> ('ls script \<times> 'ls luaHost \<times> wiring) option
    \<Rightarrow> (assembly_error, ('hdr, 'env, 'ls, 'c) program) result" where
  [go_eval]: "assemble pf conf lua =
     (case FromConfig (Constructors pf) (Storage conf) of
        Inl e \<Rightarrow> Err e
      | Inr st \<Rightarrow>
          (let addrPolicy = \<lparr>aConfig = conf\<rparr>;
               hub = hub_New (MonitorHistory (Web conf));
               mg = \<lparr>AddrPolicy = addrPolicy, mgStore = any_ops,
                     BeforeMessageStored = lua_broker lua wire_before_stored lua_listener\<rparr>
           in case pop_NewServer (POP3 conf) (pf_keypair pf (pop3_TLSCert (POP3 conf)) (pop3_TLSPrivKey (POP3 conf))) any_ops of
             None \<Rightarrow> Err NoKeyPair
           | Some pop \<Rightarrow>
               (let smtp = smtp_NewServer (SMTP conf) (pf_keypair pf (smtp_TLSCert (SMTP conf)) (smtp_TLSPrivKey (SMTP conf)))
                      mg (pf_enmime pf) addrPolicy (lua_broker lua wire_mail_from lua_mail_from)
                      (lua_broker lua wire_rcpt_to lua_rcpt_to) (pf_clock pf)
                in Ok \<lparr>prog_lua = lua, prog_store = st, prog_hub = hub, prog_smtp = smtp, prog_pop = pop,
                       prog_services = idle_services (RetentionPeriod (Storage conf))\<rparr>)))"

definition FullAssembly :: "('hdr, 'env, 'ls) platform \<Rightarrow> Root \<Rightarrow> (assembly_error, ('hdr, 'env, 'ls, 'c) program) result" where
  [go_eval]: "FullAssembly pf conf =
     (case luahost_New (pf_stat pf) (pf_read pf) (pf_compile pf) (Lua conf) of
        Inl e \<Rightarrow> if e = ErrNoScript then assemble pf conf None else Err (LuaNotStarted e)
      | Inr lua \<Rightarrow> assemble pf conf lua)"

subsection \<open>Which programs start\<close>

text \<open>The script that a configuration asks for: none, one that is missing, or one that runs.\<close>

definition lua_fine :: "('hdr, 'env, 'ls) platform \<Rightarrow> Root \<Rightarrow> bool" where
  "lua_fine pf conf \<longleftrightarrow> lua_Path (Lua conf) = [] \<or> pf_stat pf (lua_Path (Lua conf)) = None
     \<or> pf_stat pf (lua_Path (Lua conf)) = Some False
       \<and> (\<exists>source sc x. pf_read pf (lua_Path (Lua conf)) = Some source \<and> pf_compile pf source = Some sc \<and> NewFromReader sc = Ok x)"

definition store_fine :: "('hdr, 'env, 'ls) platform \<Rightarrow> Root \<Rightarrow> bool" where
  "store_fine pf conf \<longleftrightarrow>
     Type (Storage conf) = ''file'' \<and> (\<exists>s. file_New (Storage conf) (pf_files pf) (pf_sha1 pf) (pf_ids pf) 0 = Ok s)
   \<or> Type (Storage conf) = ''memory'' \<and> (\<forall>kb. map_of (Params (Storage conf)) ''maxkb'' = Some kb \<longrightarrow> ParseInt 64 kb \<noteq> None)"

lemma mem_New_fails: "mem_New cap kb = None \<longleftrightarrow> (\<exists>s. kb = Some s \<and> ParseInt 64 s = None)"
  by (auto simp: mem_New_def Let_def split: option.splits)

lemma FromConfig_iff: "(\<exists>st. FromConfig (Constructors pf) (Storage conf) = Ok st) \<longleftrightarrow> store_fine pf conf"
  using mem_New_fails [of "MailboxMsgCap (Storage conf)" "map_of (Params (Storage conf)) ''maxkb''"]
  by (auto simp: FromConfig_def Constructors_def store_fine_def split: option.splits sum.splits)

lemma assemble_iff:
  "(\<exists>p. assemble pf conf lua = Ok p) \<longleftrightarrow> store_fine pf conf
    \<and> (pop3_TLSEnabled (POP3 conf) \<longrightarrow> pf_keypair pf (pop3_TLSCert (POP3 conf)) (pop3_TLSPrivKey (POP3 conf)))"
  unfolding FromConfig_iff [symmetric]
  by (auto simp: assemble_def pop_NewServer_def Let_def split: sum.splits option.splits)

lemma NewFromReader_error: "NewFromReader sc \<noteq> Err ErrNoScript"
  by (auto simp: NewFromReader_def split: prod.splits option.splits)

lemma FullAssembly_iff:
  "(\<exists>p. FullAssembly pf conf = Ok p) \<longleftrightarrow> lua_fine pf conf \<and> store_fine pf conf
    \<and> (pop3_TLSEnabled (POP3 conf) \<longrightarrow> pf_keypair pf (pop3_TLSCert (POP3 conf)) (pop3_TLSPrivKey (POP3 conf)))"
  by (auto simp: FullAssembly_def luahost_New_def lua_fine_def assemble_iff NewFromReader_error split: option.splits sum.splits)

text \<open>What a program consists of.\<close>

lemma assemble_parts:
  assumes "assemble pf conf lua = Ok p"
  shows "addrPolicy (prog_smtp p) = \<lparr>aConfig = conf\<rparr>" and "mgStore (manager (prog_smtp p)) = any_ops"
    and "pop_store (prog_pop p) = any_ops" and "enmime (prog_smtp p) = pf_enmime pf" and "clock (prog_smtp p) = pf_clock pf"
    and "FromConfig (Constructors pf) (Storage conf) = Ok (prog_store p)"
    and "config (prog_smtp p) = (SMTP conf)\<lparr>smtp_TLSEnabled := smtp_TLSEnabled (SMTP conf)
      \<and> pf_keypair pf (smtp_TLSCert (SMTP conf)) (smtp_TLSPrivKey (SMTP conf))\<rparr>"
    and "lua = None \<Longrightarrow> BeforeMailFromAccepted (prog_smtp p) = empty_broker \<and> BeforeRcptToAccepted (prog_smtp p) = empty_broker
      \<and> BeforeMessageStored (manager (prog_smtp p)) = empty_broker"
    and "prog_services p = idle_services (RetentionPeriod (Storage conf))"
  using assms
  by (auto simp: assemble_def smtp_NewServer_def pop_NewServer_def lua_broker_def Let_def split: sum.splits option.splits if_splits)

lemma FullAssembly_assemble: "FullAssembly pf conf = Ok p \<Longrightarrow> \<exists>lua. assemble pf conf lua = Ok p"
  by (auto simp: FullAssembly_def split: sum.splits if_splits)

lemma FullAssembly_no_lua:
  "FullAssembly pf conf = Ok p \<Longrightarrow> lua_Path (Lua conf) = [] \<or> pf_stat pf (lua_Path (Lua conf)) = None \<Longrightarrow> assemble pf conf None = Ok p"
  by (auto simp: FullAssembly_def luahost_New_def split: sum.splits if_splits)

text \<open>
  C33: a program starts exactly when its script is none, missing, or one that runs; its store is one of
  the two kinds and can be made; and the POP3 server has a key pair if it is to use TLS. A key pair that
  does not load does not stop the SMTP server, nor a TLS listener of it: STARTTLS is only not offered.
\<close>
theorem assembly_starts_iff:
  "((\<exists>p. FullAssembly pf conf = Ok p) \<longleftrightarrow> lua_fine pf conf \<and> store_fine pf conf
      \<and> (pop3_TLSEnabled (POP3 conf) \<longrightarrow> pf_keypair pf (pop3_TLSCert (POP3 conf)) (pop3_TLSPrivKey (POP3 conf))))
    \<and> (\<forall>p. FullAssembly pf conf = Ok p \<longrightarrow> smtp_ForceTLS (config (prog_smtp p)) = smtp_ForceTLS (SMTP conf)
        \<and> (smtp_TLSEnabled (config (prog_smtp p)) \<longleftrightarrow> smtp_TLSEnabled (SMTP conf)
            \<and> pf_keypair pf (smtp_TLSCert (SMTP conf)) (smtp_TLSPrivKey (SMTP conf))))"
proof (intro conjI allI impI)
  show "(\<exists>p. FullAssembly pf conf = Ok p) \<longleftrightarrow> lua_fine pf conf \<and> store_fine pf conf
      \<and> (pop3_TLSEnabled (POP3 conf) \<longrightarrow> pf_keypair pf (pop3_TLSCert (POP3 conf)) (pop3_TLSPrivKey (POP3 conf)))"
    by (rule FullAssembly_iff)
next
  fix p
  assume "FullAssembly pf conf = Ok p"
  then obtain lua where "assemble pf conf lua = Ok p" using FullAssembly_assemble by blast
  note c = assemble_parts(7) [OF this]
  show "smtp_ForceTLS (config (prog_smtp p)) = smtp_ForceTLS (SMTP conf)"
    "smtp_TLSEnabled (config (prog_smtp p)) \<longleftrightarrow> smtp_TLSEnabled (SMTP conf)
      \<and> pf_keypair pf (smtp_TLSCert (SMTP conf)) (smtp_TLSPrivKey (SMTP conf))"
    by (simp_all add: c)
qed

definition example_platform :: "(unit, unit, nat) platform" where
  [go_eval]: "example_platform =
     \<lparr>pf_stat = (\<lambda>p. None), pf_read = (\<lambda>p. None), pf_compile = (\<lambda>s. None), pf_keypair = (\<lambda>c k. False), pf_files = no_files,
      pf_sha1 = (\<lambda>x. ''sha'' @ x), pf_ids = example_clock ''a'', pf_clock = (\<lambda>n. (5, ''t'')), pf_enmime = example_enmime\<rparr>"

definition tls_root :: Root where
  [go_eval]: "tls_root = example_root\<lparr>SMTP := (SMTP example_root)\<lparr>smtp_TLSEnabled := True, smtp_ForceTLS := True\<rparr>\<rparr>"

theorem assembly_starts_iff_witness:
  "\<exists>p :: (unit, unit, nat, nat) program. FullAssembly example_platform tls_root = Ok p
    \<and> smtp_ForceTLS (config (prog_smtp p)) \<and> \<not> smtp_TLSEnabled (config (prog_smtp p))"
proof -
  have l: "lua_fine example_platform tls_root" by (simp add: lua_fine_def tls_root_def example_root_def)
  have s: "store_fine example_platform tls_root" by (simp add: store_fine_def tls_root_def example_root_def)
  have k: "\<not> pop3_TLSEnabled (POP3 tls_root)" "smtp_ForceTLS (SMTP tls_root)" "\<not> pf_keypair example_platform c d" for c d
    by (simp_all add: tls_root_def example_root_def example_platform_def)
  from assembly_starts_iff [of example_platform tls_root] l s k show ?thesis by blast
qed

subsection \<open>A program that has started\<close>

text \<open>A new store is empty and keeps the contract.\<close>

lemma new_store:
  assumes "FromConfig (Constructors pf) cfg = Ok st" and "pf_files pf = no_files" and "env_ok (pf_sha1 pf) (pf_ids pf)"
    and "map_of (Params cfg) ''maxkb'' = None"
  shows "\<exists>p h I. any_ok (MailboxMsgCap cfg) p h I st" and "any_abs st = (\<lambda>mb. [])"
proof -
  from assms(1) consider f where "st = FileState f" "file_New cfg no_files (pf_sha1 pf) (pf_ids pf) 0 = Ok f"
    | s where "st = MemState s" "mem_New (MailboxMsgCap cfg) None = Some s"
    by (auto simp: FromConfig_def Constructors_def assms(2,4) split: option.splits if_splits sum.splits)
  then have "(\<exists>p h I. any_ok (MailboxMsgCap cfg) p h I st) \<and> any_abs st = (\<lambda>mb. [])"
  proof cases
    case 1
    from file_New_fresh [OF 1(2) assms(3)] 1(1) show ?thesis by auto
  next
    case 2
    from mem_New_capped [OF 2(2)] 2(1) show ?thesis by auto
  qed
  then show "\<exists>p h I. any_ok (MailboxMsgCap cfg) p h I st" "any_abs st = (\<lambda>mb. [])" by auto
qed

text \<open>
  C3: a program as it is put together from its configuration, with a new store of either kind and no
  script, hands on mail: an SMTP session at its SMTP server with a recipient that the policy accepts and
  stores, and then a POP3 session at its POP3 server that asks for message 1: what the client decodes is
  the return path, the two trace lines and the lines that were sent.
\<close>
theorem assembled_program_serves:
  assumes prog: "FullAssembly pf conf = Ok p" "lua_Path (Lua conf) = [] \<or> pf_stat pf (lua_Path (Lua conf)) = None"
    and new: "pf_files pf = no_files" "env_ok (pf_sha1 pf) (pf_ids pf)" "map_of (Params (Storage conf)) ''maxkb'' = None"
      "MailboxMsgCap (Storage conf) \<le> 0"
    and dec: "DecodeHeaders (pf_enmime pf) (unlines ls) = Some header"
    and h: "h \<noteq> []" "set h \<inter> {CHR '' '', CR, LF} = {}"
    and a: "plain_path a" "LF \<notin> set a" "ParseOrigin \<lparr>aConfig = conf\<rparr> a = Ok org" "Origin_ShouldAccept org"
    and b: "LF \<notin> set b" "b \<noteq> []" "hd b \<notin> set ''<> ''" "last b \<notin> set ''<> ''"
      "NewRecipient \<lparr>aConfig = conf\<rparr> b = Ok r" "Recipient_ShouldAccept r" "0 < MaxRecipients (SMTP conf)" "Recipient_ShouldStore r"
    and ls: "\<forall>l\<in>set ls. LF \<notin> set l \<and> length l < MaxScanTokenSize"
    and tr: "pf_clock pf 5 = (now, tstamp)"
      "\<forall>l\<in>set (trace_lines a h host (smtp_Domain (SMTP conf)) (rMailbox r) tstamp). LF \<notin> set l \<and> Suc (length l) < MaxScanTokenSize"
    and pop: "pop_writes q = []" "pop_user q = rMailbox r"
      "pop_world q = store (startSession (prog_smtp p) host (mail_session h a b ls) tls [] (prog_store p))"
  shows "\<exists>data. pop_sent (pop_RETR [''1''] (loadMailbox (prog_pop p) q))
      = pop_sent q @ [''+OK '' @ Itoa (sSize (last (messages (loadMailbox (prog_pop p) q)))) @ '' bytes follows''] @ data
    \<and> ReadDotBytes (pop_client data @ rest)
      = (Ok (unlines (trace_lines a h host (smtp_Domain (SMTP conf)) (rMailbox r) tstamp @ map drop_cr ls)), rest)"
proof -
  note parts = assemble_parts [OF FullAssembly_no_lua [OF prog]]
  note st = new_store [OF parts(6) new(1-3)]
  from st(1) obtain d g I where ok: "any_ok (MailboxMsgCap (Storage conf)) d g I (prog_store p)" by blast
  have ext: "Emit (BeforeMailFromAccepted (prog_smtp p)) ev = None" "Emit (BeforeRcptToAccepted (prog_smtp p)) ev = None"
    "Emit (BeforeMessageStored (manager (prog_smtp p))) ev' = None" for ev ev'
    using parts(8) by (simp_all add: Emit_def empty_broker_def)
  have nolf: "\<forall>l\<in>set ls. LF \<notin> set l" using ls by blast
  have cfg: "smtp_Domain (config (prog_smtp p)) = smtp_Domain (SMTP conf)" "0 < MaxRecipients (config (prog_smtp p))"
    using b(7) by (simp_all add: parts(7))
  note del = any.session_stores [OF ok new(4) parts(2) dec [folded parts(4)] h a(1,2) a(3,4) [folded parts(1)] b(1-4)
      b(5) [folded parts(1)] b(6) cfg(2) b(8) ext nolf tr(1) [folded parts(5)], of host tls, folded pop(3), unfolded cfg(1)]
  have "messages (loadMailbox (prog_pop p) q) = any_abs (pop_world q) (rMailbox r)"
    using any.loaded [OF parts(3) conjunct1 [OF del]] pop(2) by simp
  moreover have "length (map sSource (any_abs (pop_world q) (rMailbox r))) = 1" using del st(2) by simp
  ultimately have l: "length (messages (loadMailbox (prog_pop p) q)) = 1" by simp
  have one: "Utoa 1 = ''1''" by (simp add: go_eval)
  from any.pop_reads_last [OF conjunct1 [OF del] _ ls tr(2) parts(3) pop(1) refl, of "[]" rest] del pop(2) st(2) l one
  show ?thesis by simp
qed

lemma example_smtp_parts:
  "addrPolicy (example_smtp ds) = \<lparr>aConfig = example_root\<rparr>" "config (example_smtp ds) = SMTP example_root"
  "clock (example_smtp ds) = pf_clock example_platform"
  by (simp_all add: example_smtp_def example_platform_def)

theorem assembled_program_serves_witness:
  "\<exists>(p :: (unit, unit, nat, nat) program) q data. FullAssembly example_platform example_root = Ok p \<and> pop_user q = ''joe''
    \<and> pop_sent (pop_RETR [''1''] (loadMailbox (prog_pop p) q)) \<noteq> [] \<and> ReadDotBytes (pop_client data @ [])
      = (Ok (unlines (trace_lines ''s@x.y'' ''c'' ''9.9.9.9'' ''h'' ''joe'' ''t'' @ map drop_cr example_lines)), [])"
proof -
  have "\<exists>p :: (unit, unit, nat, nat) program. assemble example_platform example_root None = Ok p"
    unfolding assemble_iff by (simp add: store_fine_def example_root_def)
  moreover have "luahost_New f g k (Lua example_root) = Ok None" for f g and k :: "string \<Rightarrow> nat script option"
    by (simp add: luahost_New_def example_root_def)
  ultimately obtain p :: "(unit, unit, nat, nat) program" where p: "FullAssembly example_platform example_root = Ok p"
    by (auto simp: FullAssembly_def)
  let ?q = "(pop_NewSession (prog_pop p) False [] [] [] []
    (store (startSession (prog_smtp p) ''9.9.9.9'' (mail_session ''c'' ''s@x.y'' ''joe@d.e'' example_lines) [] [] (prog_store p))))\<lparr>pop_user := ''joe''\<rparr>"
  have root: "lua_Path (Lua example_root) = [] \<or> pf_stat example_platform (lua_Path (Lua example_root)) = None"
    "pf_files example_platform = no_files" "env_ok (pf_sha1 example_platform) (pf_ids example_platform)"
    "map_of (Params (Storage example_root)) ''maxkb'' = None" "MailboxMsgCap (Storage example_root) \<le> 0"
    "DecodeHeaders (pf_enmime example_platform) (unlines example_lines) = Some ()"
    using example_env by (simp_all add: example_root_def example_platform_def example_enmime_def)
  have q: "pop_writes ?q = []" "pop_user ?q = rMailbox example_receiver"
    "pop_world ?q = store (startSession (prog_smtp p) ''9.9.9.9'' (mail_session ''c'' ''s@x.y'' ''joe@d.e'' example_lines) [] [] (prog_store p))"
    by (simp_all add: pop_NewSession_def example_wire(5))
  note ex = example_session [unfolded example_smtp_parts] and w = example_wire [unfolded example_smtp_parts]
  from assembled_program_serves [OF p root ex(3-16) w(2,3,6) q, of "[]"] q(2) p show ?thesis
    unfolding w(4,5) by (intro exI [of _ p] exI [of _ ?q]) auto
qed

end
