(* ===== verification/Daemon.thy ===== *)
theory Daemon
  imports Assembly
begin

text \<open>
  \<open>cmd/inbucket/main.go\<close>: what the daemon does around its services: flags, configuration, the log with its
  buffer, the pid file, and the ways in which the process ends. The configuration that was processed, the
  success of the file operations and how the shutdown goes are arguments. \<open>log_line\<close> renders a message
  (zerolog); a fatal message ends the process with status 1 when it has been written, as it documents.
\<close>

subsection \<open>The log\<close>

text \<open>A \<open>bufio.Writer\<close> of the default size: what its file holds, and what is buffered.\<close>

record log_writer =
  lw_written :: string
  lw_buffer :: string

function bufio_Write :: "string \<Rightarrow> log_writer \<Rightarrow> log_writer" where
  "bufio_Write p w =
     (let n = 4096 - length (lw_buffer w) in
      if length p \<le> n then w\<lparr>lw_buffer := lw_buffer w @ p\<rparr>
      else if lw_buffer w = [] then w\<lparr>lw_written := lw_written w @ p\<rparr>
      else bufio_Write (drop n p) \<lparr>lw_written = lw_written w @ lw_buffer w @ take n p, lw_buffer = []\<rparr>)"
  by pat_completeness auto

termination bufio_Write
  by (relation "measure (\<lambda>(p, w). length (lw_buffer w))") auto

declare bufio_Write.simps [simp del]

definition bufio_Flush :: "log_writer \<Rightarrow> log_writer" where
  [go_eval]: "bufio_Flush w = \<lparr>lw_written = lw_written w @ lw_buffer w, lw_buffer = []\<rparr>"

datatype log_level = DebugLevel | InfoLevel | WarnLevel | ErrorLevel | FatalLevel

fun severity :: "log_level \<Rightarrow> nat" where
  "severity DebugLevel = 0"
| "severity InfoLevel = 1"
| "severity WarnLevel = 2"
| "severity ErrorLevel = 3"
| "severity FatalLevel = 4"

datatype log_dest = LogStderr | LogStdout | LogFile string

text \<open>\<open>openLog\<close>: the global level, and where the log goes; \<open>None\<close> is an unknown level, or a file that does not open.\<close>

definition openLog :: "string \<Rightarrow> string \<Rightarrow> bool \<Rightarrow> (log_level \<times> log_dest) option" where
  [go_eval]: "openLog level logfile opens =
     (case (if level = ''debug'' then Some DebugLevel else if level = ''info'' then Some InfoLevel
            else if level = ''warn'' then Some WarnLevel else if level = ''error'' then Some ErrorLevel else None) of
        None \<Rightarrow> None
      | Some lv \<Rightarrow>
          if logfile = ''stderr'' then Some (lv, LogStderr)
          else if logfile = ''stdout'' then Some (lv, LogStdout)
          else if opens then Some (lv, LogFile logfile) else None)"

subsection \<open>The process\<close>

text \<open>The pid file exists or not; the console is what the process wrote to its standard streams.\<close>

record proc =
  pid_exists :: bool
  console :: string
  log_out :: log_writer

definition log_msg :: "log_level \<times> log_dest \<Rightarrow> log_level \<times> string \<Rightarrow> proc \<Rightarrow> proc" where
  [go_eval]: "log_msg lg msg p =
     (if severity (fst msg) < severity (fst lg) then p
      else case snd lg of
        LogFile f \<Rightarrow> p\<lparr>log_out := bufio_Write (snd msg) (log_out p)\<rparr>
      | _ \<Rightarrow> p\<lparr>console := console p @ snd msg\<rparr>)"

definition closeLog :: "log_level \<times> log_dest \<Rightarrow> proc \<Rightarrow> proc" where
  [go_eval]: "closeLog lg p = (case snd lg of LogFile f \<Rightarrow> p\<lparr>log_out := bufio_Flush (log_out p)\<rparr> | _ \<Rightarrow> p)"

definition removePIDFile :: "string \<Rightarrow> proc \<Rightarrow> proc" where
  [go_eval]: "removePIDFile pidfile p = (if pidfile \<noteq> [] then p\<lparr>pid_exists := False\<rparr> else p)"

record flags =
  fl_help :: bool
  fl_version :: bool
  fl_pidfile :: string
  fl_logfile :: string
  fl_netdebug :: bool

datatype outcome = Returned | ExitStatus nat

text \<open>How a shutdown goes: the sessions and the scanner end in time, or \<open>timedExit\<close> is first.\<close>

datatype shutdown = Drained | TimedOut

definition debug_conf :: "bool \<Rightarrow> Root \<Rightarrow> Root" where
  [go_eval]: "debug_conf netdebug conf =
     (if netdebug then conf\<lparr>POP3 := (POP3 conf)\<lparr>pop3_Debug := True\<rparr>, SMTP := (SMTP conf)\<lparr>smtp_Debug := True\<rparr>\<rparr> else conf)"

text \<open>
  From the pid file on: \<open>creates\<close> says whether it can be created and written; \<open>setup_log\<close> is what the services log
  while they are put together, \<open>run_log\<close> what is logged from then until they are down.
\<close>

definition run_services :: "('hdr, 'env, 'ls) platform \<Rightarrow> (string \<Rightarrow> string) \<Rightarrow> (log_level \<times> string) list \<Rightarrow> (log_level \<times> string) list
    \<Rightarrow> flags \<Rightarrow> log_level \<times> log_dest \<Rightarrow> bool \<Rightarrow> shutdown \<Rightarrow> Root \<Rightarrow> proc \<Rightarrow> outcome \<times> proc" where
  [go_eval]: "run_services pf log_line setup_log run_log fl lg creates how conf p =
     (if fl_pidfile fl \<noteq> [] \<and> \<not> creates then (ExitStatus 1, log_msg lg (FatalLevel, log_line ''Failed to create pidfile'') p)
      else
        (let p = (if fl_pidfile fl \<noteq> [] then p\<lparr>pid_exists := True\<rparr> else p);
             p = fold (log_msg lg) setup_log p in
         case (FullAssembly pf conf :: (assembly_error, ('hdr, 'env, 'ls, unit) program) result) of
           Inl e \<Rightarrow> (ExitStatus 1, log_msg lg (FatalLevel, log_line ''Fatal error during startup'') p)
         | Inr prog \<Rightarrow>
             (let p = removePIDFile (fl_pidfile fl) (fold (log_msg lg) run_log p) in
              case how of
                Drained \<Rightarrow> (Returned, closeLog lg p)
              | TimedOut \<Rightarrow> (ExitStatus 0, log_msg lg (ErrorLevel, log_line ''Clean shutdown took too long, forcing exit'') p))))"

text \<open>\<open>main\<close>; \<open>None\<close> for the configuration is that processing it failed.\<close>

definition daemon :: "('hdr, 'env, 'ls) platform \<Rightarrow> (string \<Rightarrow> string) \<Rightarrow> (log_level \<times> string) list \<Rightarrow> (log_level \<times> string) list
    \<Rightarrow> flags \<Rightarrow> Root option \<Rightarrow> bool \<Rightarrow> bool \<Rightarrow> shutdown \<Rightarrow> proc \<Rightarrow> outcome \<times> proc" where
  [go_eval]: "daemon pf log_line setup_log run_log fl conf opens creates how p =
     (if fl_help fl \<or> fl_version fl then (Returned, p)
      else case conf of
        None \<Rightarrow> (ExitStatus 1, p\<lparr>console := console p @ ''Configuration error''\<rparr>)
      | Some conf \<Rightarrow>
          (let conf = debug_conf (fl_netdebug fl) conf in
           case openLog (LogLevel conf) (fl_logfile fl) opens of
             None \<Rightarrow> (ExitStatus 1, p\<lparr>console := console p @ ''Log error''\<rparr>)
           | Some lg \<Rightarrow>
               run_services pf log_line setup_log run_log fl lg creates how conf (log_msg lg (InfoLevel, log_line ''Inbucket starting'') p)))"

subsection \<open>How the process ends\<close>

lemma bufio_small: "length (lw_buffer w) + length p \<le> 4096 \<Longrightarrow> bufio_Write p w = w\<lparr>lw_buffer := lw_buffer w @ p\<rparr>"
  by (subst bufio_Write.simps) (simp add: Let_def)

text \<open>Nothing that is written gets lost before the process ends.\<close>

lemma bufio_keeps: "lw_written (bufio_Write p w) @ lw_buffer (bufio_Write p w) = lw_written w @ lw_buffer w @ p"
proof (induction p w rule: bufio_Write.induct)
  case (1 p w)
  then show ?case by (subst (1 2) bufio_Write.simps) (simp add: Let_def)
qed

definition log_text :: "log_level \<Rightarrow> (log_level \<times> string) list \<Rightarrow> string" where
  [go_eval]: "log_text lv msgs = concat (map snd (filter (\<lambda>m. severity lv \<le> severity (fst m)) msgs))"

lemma log_keeps:
  "lw_written (log_out (fold (log_msg (lv, LogFile f)) msgs p)) @ lw_buffer (log_out (fold (log_msg (lv, LogFile f)) msgs p))
    = lw_written (log_out p) @ lw_buffer (log_out p) @ log_text lv msgs"
  by (induction msgs arbitrary: p) (simp_all add: log_msg_def log_text_def bufio_keeps)

lemma log_small:
  "length (lw_buffer (log_out p)) + length (log_text lv msgs) \<le> 4096
    \<Longrightarrow> lw_written (log_out (fold (log_msg (lv, LogFile f)) msgs p)) = lw_written (log_out p)"
proof (induction msgs arbitrary: p)
  case (Cons m msgs)
  then show ?case by (cases m) (auto simp: log_msg_def log_text_def bufio_small)
qed simp

lemma log_pid [simp]: "pid_exists (fold (log_msg lg) msgs p) = pid_exists p"
  by (induction msgs arbitrary: p) (simp_all add: log_msg_def split: log_dest.split)

lemma assembly_debug:
  "(\<exists>q. FullAssembly pf (debug_conf nd conf) = Ok q) \<longleftrightarrow> (\<exists>q. FullAssembly pf conf = Ok q)"
  unfolding FullAssembly_iff by (simp add: debug_conf_def lua_fine_def store_fine_def)

lemma log_one: "log_msg lg m p = fold (log_msg lg) [m] p"
  by simp

text \<open>
  C19: a daemon with a pid file and a log file that gets past its configuration either runs and comes to
  its end, its pid file removed and everything that was logged written, or cannot put the program together.
  Then it exits with status 1, the pid file it has written stays behind, and unless more than a buffer
  was logged none of it is in the log file, the reason for the failure included.
\<close>
theorem daemon_failure_leaves_pid:
  assumes "\<not> fl_help fl" and "\<not> fl_version fl" and "fl_pidfile fl \<noteq> []"
    and "openLog (LogLevel conf) (fl_logfile fl) True = Some (lv, LogFile f)"
    and "log_out p = \<lparr>lw_written = old, lw_buffer = []\<rparr>"
    and "log_text lv ((InfoLevel, log_line ''Inbucket starting'') # setup_log) = early"
    and "length early + length (log_line ''Fatal error during startup'') \<le> 4096"
  shows "if \<exists>q :: ('hdr, 'env, 'ls, unit) program. FullAssembly pf conf = Ok q
    then \<exists>p'. daemon pf log_line setup_log run_log fl (Some conf) True True Drained p = (Returned, p') \<and> \<not> pid_exists p'
        \<and> log_out p' = \<lparr>lw_written = old @ early @ log_text lv run_log, lw_buffer = []\<rparr>
    else \<exists>p'. daemon pf log_line setup_log run_log fl (Some conf) True True how p = (ExitStatus 1, p') \<and> pid_exists p'
        \<and> log_out p' = \<lparr>lw_written = old, lw_buffer = early @ log_line ''Fatal error during startup''\<rparr>"
proof -
  let ?c = "debug_conf (fl_netdebug fl) conf" and ?lg = "(lv, LogFile f)"
  let ?start = "(InfoLevel, log_line ''Inbucket starting'')" and ?fatal = "(FatalLevel, log_line ''Fatal error during startup'')"
  have log: "openLog (LogLevel ?c) (fl_logfile fl) True = Some ?lg" using assms(4) by (simp add: debug_conf_def)
  let ?p1 = "log_msg ?lg ?start p"
  let ?p2 = "fold (log_msg ?lg) setup_log (?p1\<lparr>pid_exists := True\<rparr>)"
  have d: "daemon pf log_line setup_log run_log fl (Some conf) True True how p
      = run_services pf log_line setup_log run_log fl ?lg True how ?c ?p1" for how
    using assms(1,2) log by (simp add: daemon_def)
  have e: "log_text lv [?start] @ log_text lv setup_log = early" using assms(6) by (simp add: log_text_def split: if_splits)
  have fatal: "log_text lv [?fatal] = log_line ''Fatal error during startup''" by (cases lv) (simp_all add: log_text_def)
  have w2: "lw_written (log_out ?p2) @ lw_buffer (log_out ?p2) = old @ early"
    using log_keeps [of lv f setup_log "?p1\<lparr>pid_exists := True\<rparr>"] log_keeps [of lv f "[?start]" p] e assms(5) by auto
  show ?thesis
  proof (cases "\<exists>q :: ('hdr, 'env, 'ls, unit) program. FullAssembly pf conf = Ok q")
    case True
    then obtain q :: "('hdr, 'env, 'ls, unit) program" where "FullAssembly pf ?c = Ok q" using assembly_debug by blast
    moreover have "lw_written (log_out (fold (log_msg ?lg) run_log ?p2)) @ lw_buffer (log_out (fold (log_msg ?lg) run_log ?p2))
        = old @ early @ log_text lv run_log"
      using log_keeps [of lv f run_log ?p2] w2 by simp
    ultimately show ?thesis using True assms(3)
      by (simp add: d run_services_def closeLog_def removePIDFile_def bufio_Flush_def Let_def)
  next
    case False
    then have "\<not> (\<exists>q :: ('hdr, 'env, 'ls, unit) program. FullAssembly pf ?c = Ok q)" using assembly_debug by blast
    then obtain err where "(FullAssembly pf ?c :: (assembly_error, ('hdr, 'env, 'ls, unit) program) result) = Inl err"
      by (cases "FullAssembly pf ?c :: (assembly_error, ('hdr, 'env, 'ls, unit) program) result") auto
    then have r: "daemon pf log_line setup_log run_log fl (Some conf) True True how p = (ExitStatus 1, log_msg ?lg ?fatal ?p2)"
      using assms(3) by (simp add: d run_services_def Let_def)
    let ?p3 = "log_msg ?lg ?fatal ?p2"
    have len: "length (log_text lv [?start]) + length (log_text lv setup_log) + length (log_text lv [?fatal]) \<le> 4096"
      using assms(7) e fatal by (metis length_append)
    have "lw_written (log_out ?p1) = old" using log_small [of p lv "[?start]" f] len assms(5) by simp
    moreover from this have "lw_buffer (log_out ?p1) = log_text lv [?start]" using log_keeps [of lv f "[?start]" p] assms(5) by simp
    ultimately have "lw_written (log_out ?p2) = old" using log_small [of "?p1\<lparr>pid_exists := True\<rparr>" lv setup_log f] len by simp
    moreover from this have "lw_buffer (log_out ?p2) = early" using w2 by simp
    ultimately have w3: "lw_written (log_out ?p3) = old" using log_small [of ?p2 lv "[?fatal]" f] assms(7) fatal by simp
    then have "lw_buffer (log_out ?p3) = early @ log_line ''Fatal error during startup''"
      using log_keeps [of lv f "[?fatal]" ?p2] \<open>lw_written (log_out ?p2) = old\<close> \<open>lw_buffer (log_out ?p2) = early\<close> fatal by simp
    with w3 have "log_out ?p3 = \<lparr>lw_written = old, lw_buffer = early @ log_line ''Fatal error during startup''\<rparr>" by simp
    moreover have "pid_exists ?p3" using log_pid [of ?lg "[?fatal]" ?p2] by simp
    ultimately show ?thesis using False r by simp
  qed
qed

text \<open>No storage type: the program does not start.\<close>

definition broken_root :: Root where
  [go_eval]: "broken_root = example_root\<lparr>LogLevel := ''info'', Storage := (Storage example_root)\<lparr>Type := ''none''\<rparr>\<rparr>"

theorem daemon_failure_leaves_pid_witness:
  "\<exists>p'. daemon example_platform id [] [] \<lparr>fl_help = False, fl_version = False, fl_pidfile = ''pid'', fl_logfile = ''log'', fl_netdebug = False\<rparr>
      (Some broken_root) True True Drained \<lparr>pid_exists = False, console = [], log_out = \<lparr>lw_written = [], lw_buffer = []\<rparr>\<rparr> = (ExitStatus 1, p')
    \<and> pid_exists p' \<and> lw_written (log_out p') = []"
proof -
  let ?fl = "\<lparr>fl_help = False, fl_version = False, fl_pidfile = ''pid'', fl_logfile = ''log'', fl_netdebug = False\<rparr>"
  let ?p = "\<lparr>pid_exists = False, console = [], log_out = \<lparr>lw_written = [], lw_buffer = []\<rparr>\<rparr>"
  have "\<not> store_fine example_platform broken_root" by (simp add: store_fine_def broken_root_def)
  then have n: "\<not> (\<exists>q :: (unit, unit, nat, unit) program. FullAssembly example_platform broken_root = Ok q)"
    using FullAssembly_iff by blast
  have "openLog (LogLevel broken_root) (fl_logfile ?fl) True = Some (InfoLevel, LogFile ''log'')" by (simp add: go_eval)
  from daemon_failure_leaves_pid [of ?fl broken_root InfoLevel "''log''" ?p "[]" id "[]" _ example_platform "[]" Drained, OF _ _ _ this _ refl]
  obtain p' where "daemon example_platform id [] [] ?fl (Some broken_root) True True Drained ?p = (ExitStatus 1, p')" "pid_exists p'"
    "log_out p' = \<lparr>lw_written = [], lw_buffer = ''Inbucket startingFatal error during startup''\<rparr>"
    using n by (auto simp: log_text_def)
  then show ?thesis by (intro exI [of _ p']) simp
qed

end
