(* ===== verification/FileLayout.thy ===== *)
theory FileLayout
  imports FileReach Retention
begin

text \<open>
  The directories of the file store while no call of the operating system fails: the tree is fully
  shrunk, which is what \<open>VisitMailboxes\<close> relies on. A mailbox has a directory exactly when it has
  a message, and every other directory leads to one. So the three nested loops visit the mailboxes
  that have mail, each once, whatever the visitor does to the mailbox it is called for; and the
  retention scanner, which deletes messages (and with the last one the directories) while the
  loops are under way, deletes what has expired.
\<close>

subsection \<open>The layout\<close>

abbreviation dirs :: "fstore \<Rightarrow> path set" where
  "dirs st \<equiv> set (fdirs (fs_world st))"

definition has_dir :: "fstore \<Rightarrow> string \<Rightarrow> bool" where
  "has_dir st mb \<longleftrightarrow> mdir st mb \<in> dirs st"

definition occupied :: "fstore \<Rightarrow> string \<Rightarrow> bool" where
  "occupied st mb \<longleftrightarrow> filemap st (ipath st mb) \<noteq> None"

definition shrunk :: "fstore \<Rightarrow> bool" where
  "shrunk st \<longleftrightarrow> distinct (fdirs (fs_world st))
     \<and> (\<forall>d\<in>dirs st. d = [fs_mailPath st] \<or> (\<exists>mb. has_dir st mb \<and> prefix d (mdir st mb)))"

text \<open>Between the steps of an operation the mailboxes of \<open>X\<close> may have a directory without an index.\<close>

definition indexed :: "string set \<Rightarrow> fstore \<Rightarrow> bool" where
  "indexed X st \<longleftrightarrow> (\<forall>mb. has_dir st mb \<longrightarrow> occupied st mb \<or> mb \<in> X)"

definition layout :: "fstore \<Rightarrow> bool" where
  "layout st \<longleftrightarrow> shrunk st \<and> indexed {} st"

lemma shrunkI:
  assumes "distinct (fdirs (fs_world st))"
    and "\<And>d. d \<in> dirs st \<Longrightarrow> d \<noteq> [fs_mailPath st] \<Longrightarrow> \<exists>mb. has_dir st mb \<and> prefix d (mdir st mb)"
  shows "shrunk st"
  using assms unfolding shrunk_def by blast

lemma shrunkD: "shrunk st \<Longrightarrow> d \<in> dirs st \<Longrightarrow> d \<noteq> [fs_mailPath st] \<Longrightarrow> \<exists>mb. has_dir st mb \<and> prefix d (mdir st mb)"
  unfolding shrunk_def by blast

lemma shrunk_distinct: "shrunk st \<Longrightarrow> distinct (fdirs (fs_world st))"
  by (simp add: shrunk_def)

lemma indexedI: "(\<And>mb. has_dir st mb \<Longrightarrow> mb \<notin> X \<Longrightarrow> occupied st mb) \<Longrightarrow> indexed X st"
  unfolding indexed_def by blast

lemma indexedD: "indexed X st \<Longrightarrow> has_dir st mb \<Longrightarrow> mb \<notin> X \<Longrightarrow> occupied st mb"
  unfolding indexed_def by blast

text \<open>Steps that leave the directories alone.\<close>

lemma same_dirs:
  assumes "same_config st st'" and "fdirs (fs_world st') = fdirs (fs_world st)"
  shows "has_dir st' = has_dir st" and "shrunk st' = shrunk st"
proof -
  note e = same_config_eqs(1) [OF assms(1)]
  show l: "has_dir st' = has_dir st" by (rule ext) (simp add: has_dir_def e assms(2))
  show "shrunk st' = shrunk st" using assms(1) by (simp add: shrunk_def l e assms(2) same_config_def)
qed

lemma same_index:
  assumes "same_config st st'" and "filemap st' (ipath st mb) = filemap st (ipath st mb)"
  shows "occupied st' mb = occupied st mb"
  using same_config_eqs(2) [OF assms(1)] assms(2) by (simp add: occupied_def)

lemma quiet_config: "quiet st st' \<Longrightarrow> same_config st st'"
  by (simp add: quiet_def)

lemma layout_put_raw:
  assumes "shrunk st" and "indexed X st"
  shows "shrunk (put st (rawp st mb i) v)" and "indexed X (put st (rawp st mb i) v)"
proof -
  let ?st = "put st (rawp st mb i) v"
  have c: "same_config st ?st" by (rule quiet_config) simp
  note d = same_dirs [OF c put_cut_simps(2)]
  show "shrunk ?st" using assms(1) d by simp
  have "occupied ?st = occupied st" by (rule ext, rule same_index [OF c]) simp
  then show "indexed X ?st" using assms(2) d by (simp add: indexed_def)
qed

lemma layout_cut_raw:
  assumes "shrunk st" and "indexed X st"
  shows "shrunk (cut st (rawp st mb i))" and "indexed X (cut st (rawp st mb i))"
proof -
  let ?st = "cut st (rawp st mb i)"
  have c: "same_config st ?st" by (rule quiet_config) simp
  note d = same_dirs [OF c put_cut_simps(6)]
  show "shrunk ?st" using assms(1) d by simp
  have "occupied ?st = occupied st" by (rule ext, rule same_index [OF c]) simp
  then show "indexed X ?st" using assms(2) d by (simp add: indexed_def)
qed

text \<open>An index file makes its directory a directory.\<close>

lemma occupied_has_dir: "base_ok st \<Longrightarrow> occupied st mb \<Longrightarrow> has_dir st mb"
  using tree_ok_parent [OF base_okD(2), of st "ipath st mb"] by (simp add: occupied_def has_dir_def ipath_def)

lemma mdir_prefix: "prefix (mdir st a) (mdir st b) \<longleftrightarrow> mdir st a = mdir st b"
  by (auto simp: mdir_eq)

lemma mdir_not_Nil [simp]: "mdir st mb \<noteq> []"
  by (simp add: mdir_eq)

subsection \<open>Making directories\<close>

lemma createDir_layout:
  assumes b: "base_ok st" and s: "shrunk st" and x: "indexed X st"
    and c: "createDir (fbox st mb ms) st = (r, st')"
  shows "shrunk st'" and "indexed (insert mb X) st'"
proof (atomize (full), cases "mdir st mb \<in> dirs st")
  case True
  then have "st' = st" using c by (simp add: createDir_def on_world_def os_Stat_ok base_okD [OF b] path_exists_def)
  with s x show "shrunk st' \<and> indexed (insert mb X) st'" by (auto simp: indexed_def)
next
  case False
  have nf: "q \<notin> fst ` set (ffiles (fs_world st))" if "prefix q (mdir st mb)" for q
    using ffiles_key [of q "fs_world st"] base_okD(5) [OF b, of q] prefix_length_le [OF that] by auto
  let ?new = "filter (\<lambda>q. q \<notin> dirs st) (filter (\<lambda>q. q \<noteq> []) (prefixes (mdir st mb)))"
  have no_file: "\<not> (\<exists>q. prefix q (mdir st mb) \<and> q \<noteq> [] \<and> q \<in> fst ` set (ffiles (fs_world st)))"
    using nf by blast
  have st': "st' = st\<lparr>fs_world := (fs_world st)\<lparr>fdirs := fdirs (fs_world st) @ ?new\<rparr>\<rparr>"
    using c False nf [of "mdir st mb"] no_file
    by (simp add: createDir_def on_world_def os_Stat_ok os_MkdirAll_def base_okD [OF b] path_exists_def)
  have cfg: "same_config st st'" by (simp add: st' same_config_def)
  note e = same_config_eqs [OF cfg]
  have d: "dirs st' = dirs st \<union> set ?new" by (simp add: st')
  have lives: "has_dir st' m \<longleftrightarrow> has_dir st m \<or> m = mb" for m
  proof -
    have "has_dir st' m \<longleftrightarrow> mdir st m \<in> dirs st \<or> mdir st m \<in> set ?new" by (simp add: has_dir_def e d)
    also have "\<dots> \<longleftrightarrow> has_dir st m \<or> m = mb"
      using False mdir_inj [OF b, of m mb] by (auto simp: has_dir_def mdir_prefix)
    finally show ?thesis .
  qed
  have "shrunk st'"
  proof (rule shrunkI)
    show "distinct (fdirs (fs_world st'))" using shrunk_distinct [OF s] by (auto simp: st' distinct_prefixes)
    fix q assume q: "q \<in> dirs st'" "q \<noteq> [fs_mailPath st']"
    show "\<exists>m. has_dir st' m \<and> prefix q (mdir st' m)"
    proof (cases "q \<in> dirs st")
      case True
      then show ?thesis using shrunkD [OF s, of q] q(2) cfg by (auto simp: lives e same_config_def)
    next
      case False
      then show ?thesis using q(1) by (auto simp: d lives e)
    qed
  qed
  moreover have "indexed (insert mb X) st'"
  proof (rule indexedI)
    fix m assume "has_dir st' m" "m \<notin> insert mb X"
    then have "occupied st m" using indexedD [OF x] lives by auto
    then show "occupied st' m" by (simp add: occupied_def e) (simp add: st')
  qed
  ultimately show "shrunk st' \<and> indexed (insert mb X) st'" ..
qed

subsection \<open>Removing directories\<close>

lemma in_children: "c \<in> set (children w d) \<longleftrightarrow> d @ [c] \<in> set (fdirs w) \<or> map_of (ffiles w) (d @ [c]) \<noteq> None"
proof
  assume "c \<in> set (children w d)"
  then obtain q where q: "q \<noteq> []" "butlast q = d" "last q = c" "q \<in> set (fdirs w @ map fst (ffiles w))"
    unfolding children_def by auto
  then have "q \<in> set (fdirs w) \<or> map_of (ffiles w) q \<noteq> None" using ffiles_key [of q w] by auto
  with q(1-3) show "d @ [c] \<in> set (fdirs w) \<or> map_of (ffiles w) (d @ [c]) \<noteq> None"
    by (metis append_butlast_last_id)
next
  assume "d @ [c] \<in> set (fdirs w) \<or> map_of (ffiles w) (d @ [c]) \<noteq> None"
  then have "d @ [c] \<in> set (fdirs w @ map fst (ffiles w))" using ffiles_key [of "d @ [c]" w] by auto
  then have "d @ [c] \<in> set (filter (\<lambda>q. q \<noteq> [] \<and> butlast q = d) (fdirs w @ map fst (ffiles w)))" by simp
  then have "last (d @ [c]) \<in> set (children w d)" unfolding children_def set_map by (rule imageI)
  then show "c \<in> set (children w d)" by simp
qed

text \<open>Above the mailboxes there are directories only.\<close>

lemma in_children_dir: "base_ok st \<Longrightarrow> length d \<le> 3 \<Longrightarrow> c \<in> set (children (fs_world st) d) \<longleftrightarrow> d @ [c] \<in> dirs st"
  using base_okD(5) [of st "d @ [c]"] by (auto simp: in_children)

lemma removeDirIfEmpty_eq:
  assumes b: "base_ok st" and p: "2 \<le> length p" "length p \<le> 3"
  shows "removeDirIfEmpty p st =
    (if p \<in> dirs st \<and> (\<forall>c. p @ [c] \<notin> dirs st)
     then (True, st\<lparr>fs_world := (fs_world st)\<lparr>fdirs := filter (\<lambda>q. q \<noteq> p) (fdirs (fs_world st))\<rparr>\<rparr>) else (False, st))"
proof -
  have f: "p \<notin> fst ` set (ffiles (fs_world st))"
    using ffiles_key [of p "fs_world st"] base_okD(5) [OF b, of p] p by auto
  have "children (fs_world st) p = [] \<longleftrightarrow> (\<forall>c. p @ [c] \<notin> dirs st)"
    using in_children_dir [OF b p(2)] by (metis length_greater_0_conv nth_mem empty_iff list.set(1))
  with f show ?thesis
    by (auto simp: removeDirIfEmpty_def on_world_def os_Readdirnames_def os_Remove_def base_okD [OF b])
qed

definition without_dir :: "path \<Rightarrow> fstore \<Rightarrow> fstore" where
  "without_dir p st = st\<lparr>fs_world := (fs_world st)\<lparr>fdirs := filter (\<lambda>q. q \<noteq> p) (fdirs (fs_world st))\<rparr>\<rparr>"

lemma without_dir_simps [simp]:
  "dirs (without_dir p st) = dirs st - {p}" "ffiles (fs_world (without_dir p st)) = ffiles (fs_world st)"
  "same_config st (without_dir p st)" "distinct (fdirs (fs_world st)) \<Longrightarrow> distinct (fdirs (fs_world (without_dir p st)))"
  by (auto simp: without_dir_def same_config_def)

definition emptied :: "path \<Rightarrow> fstore \<Rightarrow> bool" where
  "emptied p st \<longleftrightarrow> p \<in> dirs st \<and> (\<forall>c. p @ [c] \<notin> dirs st)"

lemma removeDirIfEmpty_emptied:
  "base_ok st \<Longrightarrow> 2 \<le> length p \<Longrightarrow> length p \<le> 3 \<Longrightarrow>
    removeDirIfEmpty p st = (if emptied p st then (True, without_dir p st) else (False, st))"
  by (simp add: removeDirIfEmpty_eq emptied_def without_dir_def)

text \<open>What is left of the directories \<open>D\<close> when \<open>p2\<close> and then its parent are removed if empty.\<close>

definition climbed :: "path \<Rightarrow> path set \<Rightarrow> path set" where
  "climbed p2 D =
     (let p1 = butlast p2; e2 = (p2 \<in> D \<and> (\<forall>c. p2 @ [c] \<notin> D)); D2 = (if e2 then D - {p2} else D);
          e1 = (e2 \<and> p1 \<in> D2 \<and> (\<forall>c. p1 @ [c] \<notin> D2)) in if e1 then D2 - {p1} else D2)"

lemma climbed_subset: "d \<in> climbed p2 D \<Longrightarrow> d \<in> D"
  by (auto simp: climbed_def Let_def split: if_splits)

lemma climbed_others: "d \<in> D \<Longrightarrow> d \<noteq> p2 \<Longrightarrow> d \<noteq> butlast p2 \<Longrightarrow> d \<in> climbed p2 D"
  by (simp add: climbed_def Let_def)

lemma climbed_lower: "p2 \<in> climbed p2 D \<Longrightarrow> \<exists>c. p2 @ [c] \<in> D"
  by (auto simp: climbed_def Let_def split: if_splits)

lemma climbed_upper:
  assumes "butlast p2 \<in> climbed p2 D" and "p2 \<in> D" and "p2 \<notin> climbed p2 D"
  shows "\<exists>c. butlast p2 @ [c] \<in> climbed p2 D \<and> butlast p2 @ [c] \<noteq> p2"
proof -
  let ?p1 = "butlast p2"
  have ne: "?p1 \<noteq> p2"
  proof
    assume e: "?p1 = p2"
    show False using assms(1,3) unfolding e by blast
  qed
  have e2: "\<forall>c. p2 @ [c] \<notin> D"
  proof (rule ccontr)
    assume "\<not> ?thesis"
    then have "climbed p2 D = D" by (auto simp: climbed_def Let_def)
    with assms(2,3) show False by simp
  qed
  have "\<exists>c. ?p1 @ [c] \<in> D - {p2}"
  proof (rule ccontr)
    assume "\<not> ?thesis"
    then have "climbed p2 D = D - {p2} - {?p1}" if "?p1 \<in> D"
      using that assms(2) e2 ne by (simp add: climbed_def Let_def)
    with assms(1) climbed_subset [OF assms(1)] show False by simp
  qed
  then obtain c where c: "?p1 @ [c] \<in> D" "?p1 @ [c] \<noteq> p2" by blast
  then have "?p1 @ [c] \<in> climbed p2 D" by (intro climbed_others) simp_all
  with c(2) show ?thesis by blast
qed

text \<open>All that \<open>removeDir\<close> does is to remove up to three directories, with the files in the lowest.\<close>

lemma removeDir_dirs:
  assumes b: "base_ok st" and d: "distinct (fdirs (fs_world st))"
  obtains st' where "removeDir (fbox st mb ms) st = (True, st')" "same_config st st'" "distinct (fdirs (fs_world st'))"
    "dirs st' = climbed (butlast (mdir st mb)) (dirs st - {mdir st mb})"
    "\<forall>m. m \<noteq> mb \<longrightarrow> filemap st' (ipath st m) = filemap st (ipath st m)"
proof -
  let ?d = "mdir st mb" and ?p2 = "butlast (mdir st mb)" and ?p1 = "butlast (butlast (mdir st mb))"
  let ?st1 = "st\<lparr>fs_world := (fs_world st)\<lparr>fdirs := filter (\<lambda>q. \<not> prefix ?d q) (fdirs (fs_world st)),
      ffiles := filter (\<lambda>x. \<not> prefix ?d (fst x)) (ffiles (fs_world st))\<rparr>\<rparr>"
  have b1: "base_ok ?st1"
  proof (rule base_ok_world [OF b])
    let ?w = "(fs_world st)\<lparr>fdirs := filter (\<lambda>q. \<not> prefix ?d q) (fdirs (fs_world st)),
      ffiles := filter (\<lambda>x. \<not> prefix ?d (fst x)) (ffiles (fs_world st))\<rparr>"
    show "tree_ok ?w" by (rule tree_ok_subtree [OF base_okD(2) [OF b]])
    show "[fs_mailPath st] \<in> set (fdirs ?w)" using base_okD(3) [OF b] by (auto simp: mdir_eq)
    show "length p = 5" if "map_of (ffiles ?w) p \<noteq> None" for p
      using that base_okD(5) [OF b, of p] map_of_filter_key [of "\<lambda>q. \<not> prefix ?d q" "ffiles (fs_world st)" p]
      by (auto split: if_splits)
  qed (use base_okD [OF b] in auto)
  have D1: "dirs ?st1 = dirs st - {?d}"
  proof -
    have "q = ?d" if "q \<in> dirs st" "prefix ?d q" for q
      using that base_okD(4) [OF b that(1)] by (auto elim!: prefixE)
    then show ?thesis by auto
  qed
  have l: "length ?p2 = 3" "length ?p1 = 2" by (simp_all add: mdir_eq)
  let ?e2 = "emptied ?p2 ?st1" and ?st2 = "without_dir ?p2 ?st1"
  have r2: "removeDirIfEmpty ?p2 ?st1 = (if ?e2 then (True, ?st2) else (False, ?st1))"
    by (rule removeDirIfEmpty_emptied [OF b1]) simp_all
  have b2: "base_ok ?st2" if ?e2
    using removeDirIfEmpty_ok [OF b1, of ?p2] r2 that l by auto
  have r1: "removeDirIfEmpty ?p1 ?st2 = (if emptied ?p1 ?st2 then (True, without_dir ?p1 ?st2) else (False, ?st2))" if ?e2
    by (rule removeDirIfEmpty_emptied [OF b2 [OF that]]) simp_all
  let ?st' = "if ?e2 then if emptied ?p1 ?st2 then without_dir ?p1 ?st2 else ?st2 else ?st1"
  have "removeDir (fbox st mb ms) st = (True, ?st')"
    using r2 r1 by (simp add: removeDir_def Let_def on_world_def os_RemoveAll_def base_okD [OF b])
  moreover have "same_config st ?st'" by (simp add: same_config_def without_dir_def)
  moreover have "distinct (fdirs (fs_world ?st'))" using d by simp
  moreover have "filemap ?st' (ipath st m) = filemap st (ipath st m)" if "m \<noteq> mb" for m
  proof -
    have "\<not> prefix ?d (ipath st m)" using mdir_inj [OF b] that prefix_mdir by (auto simp: ipath_def)
    moreover have "ffiles (fs_world ?st') = ffiles (fs_world ?st1)" by simp
    ultimately show ?thesis using map_of_filter_key [of "\<lambda>q. \<not> prefix ?d q" "ffiles (fs_world st)" "ipath st m"] by simp
  qed
  moreover have "dirs ?st' = climbed ?p2 (dirs st - {?d})"
    unfolding emptied_def climbed_def Let_def by (simp only: D1 [symmetric] without_dir_simps split: if_split) blast
  ultimately show ?thesis using that by blast
qed

lemma parent_dir: "base_ok st \<Longrightarrow> d @ [c] \<in> dirs st \<Longrightarrow> d \<noteq> [] \<Longrightarrow> d \<in> dirs st"
  using tree_ok_dirs [OF base_okD(2), of st "d @ [c]" d] by simp

text \<open>The mailbox loses its directory, and no other mailbox does.\<close>

lemma climbed_has_dir:
  assumes b: "base_ok st" and c: "same_config st st'" and D: "dirs st' = climbed (butlast (mdir st mb)) (dirs st - {mdir st mb})"
  shows "has_dir st' m \<longleftrightarrow> has_dir st m \<and> m \<noteq> mb"
proof -
  have ne: "mdir st m \<noteq> butlast (mdir st mb)" "mdir st m \<noteq> butlast (butlast (mdir st mb))"
    by (simp_all add: mdir_eq)
  have "mdir st m \<in> dirs st' \<longleftrightarrow> mdir st m \<in> dirs st - {mdir st mb}"
    unfolding D by (rule iffI, erule climbed_subset, erule climbed_others [OF _ ne])
  moreover have "mdir st m = mdir st mb \<longleftrightarrow> m = mb" using mdir_inj [OF b, of m mb] by blast
  ultimately show ?thesis by (simp add: has_dir_def same_config_eqs(1) [OF c])
qed

lemma climbed_shrunk:
  assumes b: "base_ok st" and s: "shrunk st" and c: "same_config st st'" and dist: "distinct (fdirs (fs_world st'))"
    and D: "dirs st' = climbed (butlast (mdir st mb)) (dirs st - {mdir st mb})"
  shows "shrunk st'"
proof (rule shrunkI [OF dist])
  let ?mp = "fs_mailPath st" and ?h = "HashMailboxName (fs_sha1 st) mb"
  let ?p1 = "[?mp, take 3 ?h]" and ?p2 = "[?mp, take 3 ?h, take 6 ?h]"
  have m: "mdir st mb = ?p2 @ [?h]" by (simp add: mdir_eq)
  then have bl: "butlast (mdir st mb) = ?p2" "butlast ?p2 = ?p1" by simp_all
  note e = same_config_eqs [OF c] and keeps = climbed_has_dir [OF b c D] and D = D [unfolded bl]
  have mp: "fs_mailPath st' = ?mp" using c by (simp add: same_config_def)
  have sub: "d \<in> dirs st \<and> d \<noteq> mdir st mb" if "d \<in> dirs st'" for d using that climbed_subset unfolding D by blast
  have via: "\<exists>m. has_dir st' m \<and> prefix d (mdir st' m)"
    if q: "q \<in> dirs st'" "prefix d q" "q \<noteq> [?mp]" "\<not> prefix q (mdir st mb)" for d q
  proof -
    obtain m where n: "has_dir st m" "prefix q (mdir st m)" using shrunkD [OF s, of q] sub [OF q(1)] q(3) by blast
    then have "m \<noteq> mb" using q(4) by blast
    moreover have "prefix d (mdir st m)" by (rule prefix_order.trans [OF q(2) n(2)])
    ultimately show ?thesis using n(1) by (auto simp only: keeps e)
  qed
  have lower: "\<exists>m. has_dir st' m \<and> prefix d (mdir st' m)" if p: "prefix d ?p2" "?p2 \<in> dirs st'" for d
  proof -
    obtain x where x: "?p2 @ [x] \<in> dirs st - {mdir st mb}" using climbed_lower p(2) unfolding D by blast
    then have "?p2 @ [x] \<in> dirs st'" unfolding D by (intro climbed_others) simp_all
    moreover have "\<not> prefix (?p2 @ [x]) (mdir st mb)" using x by (simp add: m)
    ultimately show ?thesis using p(1) by (intro via [of "?p2 @ [x]"]) (auto intro: prefix_order.trans)
  qed
  have upper: "\<exists>m. has_dir st' m \<and> prefix ?p1 (mdir st' m)" if p: "?p1 \<in> dirs st'" "?p2 \<in> dirs st" "?p2 \<notin> dirs st'"
  proof -
    have "?p2 \<in> dirs st - {mdir st mb}" using p(2) by (simp add: m)
    then obtain x where "?p1 @ [x] \<in> dirs st'" "?p1 @ [x] \<noteq> ?p2" using climbed_upper [of ?p2] p(1,3) unfolding D bl by blast
    then show ?thesis by (intro via [of "?p1 @ [x]"]) (auto simp: m)
  qed
  fix d assume d: "d \<in> dirs st'" "d \<noteq> [fs_mailPath st']"
  show "\<exists>m. has_dir st' m \<and> prefix d (mdir st' m)"
  proof (cases "prefix d (mdir st mb) \<and> ?p2 \<in> dirs st")
    case True
    have "d \<noteq> []" using d(1) sub base_okD(2) [OF b] by (auto simp: tree_ok_def)
    with True sub [OF d(1)] d(2) have "d = ?p2 \<or> d = ?p1" by (auto simp: m mp prefix_Cons)
    then show ?thesis using lower [of d] upper d(1) True by (cases "?p2 \<in> dirs st'") auto
  next
    case False
    obtain m' where m': "has_dir st m'" "prefix d (mdir st m')" using shrunkD [OF s, of d] sub [OF d(1)] d(2) mp by auto
    have "m' \<noteq> mb" if "?p2 \<notin> dirs st"
      using that m'(1) parent_dir [OF b, of ?p2 ?h] by (auto simp: has_dir_def m)
    then have "m' \<noteq> mb" using False m'(2) by blast
    with m' show ?thesis by (auto simp: keeps e)
  qed
qed

lemma removeDir_layout:
  assumes b: "base_ok st" and s: "shrunk st" and x: "indexed X st"
  obtains st' where "removeDir (fbox st mb ms) st = (True, st')" "shrunk st'" "indexed (X - {mb}) st'"
proof -
  obtain st' where r: "removeDir (fbox st mb ms) st = (True, st')" "same_config st st'" "distinct (fdirs (fs_world st'))"
    and D: "dirs st' = climbed (butlast (mdir st mb)) (dirs st - {mdir st mb})"
    and f: "\<forall>m. m \<noteq> mb \<longrightarrow> filemap st' (ipath st m) = filemap st (ipath st m)"
    using removeDir_dirs [OF b shrunk_distinct [OF s], of mb ms] .
  have "indexed (X - {mb}) st'"
  proof (rule indexedI)
    fix n assume "has_dir st' n" "n \<notin> X - {mb}"
    then have "n \<noteq> mb" "occupied st n" using climbed_has_dir [OF b r(2) D] indexedD [OF x] by auto
    with f show "occupied st' n" by (simp add: occupied_def same_config_eqs [OF r(2)])
  qed
  with that r(1) climbed_shrunk [OF b s r(2,3) D] show ?thesis by blast
qed

subsection \<open>The operations keep the layout\<close>

text \<open>Writing the index settles the mailbox: it has an index file now, or no directory.\<close>

lemma writeIndex_layout:
  assumes b: "base_ok st" and s: "shrunk st" and x: "indexed X st"
    and w: "writeIndex (fbox st mb ms) st = (r, st')"
  shows "shrunk st'" and "indexed (X - {mb}) st'"
proof (atomize (full), cases "ms = []")
  case True
  obtain st1 where "removeDir (fbox st mb ms) st = (True, st1)" "shrunk st1" "indexed (X - {mb}) st1"
    using removeDir_layout [OF b s x] .
  with True w show "shrunk st' \<and> indexed (X - {mb}) st'" by (simp add: writeIndex_def)
next
  case False
  obtain st1 where c: "createDir (fbox st mb ms) st = (True, st1)" "base_ok st1" "quiet st st1"
    "mdir st mb \<in> dirs st1"
    using createDir_ok [OF b] by metis
  have e: "mdir st1 mb = mdir st mb" "ipath st1 mb = ipath st mb"
    using quiet_config [OF c(3)] same_config_eqs(1,2) [of st st1] by simp_all
  note l = createDir_layout [OF b s x c(1)]
  let ?v = "Gob (GobString mb # map GobMsg ms) False"
  let ?st2 = "put st1 (ipath st mb) (Raw [])" and ?st3 = "put (put st1 (ipath st mb) (Raw [])) (ipath st mb) ?v"
  have "on_world (os_Create (ipath st mb)) st1 = (True, ?st2)"
    using Create_ok [of st1 mb indexFileName] c(2,4) e by (simp add: ipath_def)
  moreover have "base_ok ?st2" using base_ok_put [of st1 mb indexFileName] c(2,4) e by (simp add: ipath_def)
  ultimately have st': "st' = ?st3" using False c(1) WriteGob_ok w by (simp add: writeIndex_def)
  have "same_config ?st2 ?st3" "same_config st1 ?st2" by (rule quiet_config, simp)+
  then have cfg: "same_config st1 ?st3" using same_config_trans by blast
  note d = same_dirs [OF cfg put_cut_simps(2) [THEN trans, OF put_cut_simps(2)]]
  have "occupied ?st3 m" if "occupied st1 m \<or> m = mb" for m
    using that same_config_eqs(2) [OF cfg] by (auto simp: occupied_def e)
  with l(2) have "indexed (X - {mb}) ?st3" by (auto simp: indexed_def d)
  with l(1) d show "shrunk st' \<and> indexed (X - {mb}) st'" by (simp add: st')
qed

lemma deleted_layout [simp]:
  "shrunk (st\<lparr>fs_deleted := d\<rparr>) = shrunk st" "indexed X (st\<lparr>fs_deleted := d\<rparr>) = indexed X st"
  by (simp_all add: shrunk_def indexed_def has_dir_def occupied_def)

lemma layoutI: "shrunk st \<Longrightarrow> indexed ({mb} - {mb}) st \<Longrightarrow> layout st" "shrunk st \<Longrightarrow> indexed ({} - {mb}) st \<Longrightarrow> layout st"
  by (simp_all add: layout_def)

lemma removeMessage_layout:
  assumes ok: "file_ok st" and l: "layout st" and r: "f_removeMessage (fbox st mb ms) i st = (e, mb', st')"
    and ms: "index_msgs st mb = ms"
  shows "layout st'"
proof (cases "i \<in> Fid ` set ms")
  case False
  with removeMessage_missing [OF this, of st mb] r l show ?thesis by simp
next
  case True
  then obtain m where m: "m \<in> set ms" "i = Fid m" by blast
  let ?ms = "filter (\<lambda>x. Fid x \<noteq> Fid m) ms"
  let ?st = "st\<lparr>fs_deleted := fs_deleted st @ [MakeMetadata (f_to_message st (fs_mbox st mb) m)]\<rparr>"
  have d: "distinct (map Fid ms)" using holds_index_msgs [OF ok, of mb] ms by (simp add: holds_def)
  obtain rest where rest: "dropWhile (\<lambda>x. Fid m \<noteq> Fid x) ms = m # rest" "takeWhile (\<lambda>x. Fid m \<noteq> Fid x) ms @ rest = ?ms"
    using split_at_id [OF d m(1)] by blast
  obtain st1 where w: "writeIndex (fbox st mb ?ms) ?st = (True, st1)" "base_ok st1" "quiet ?st st1"
    using writeIndex_ok [of ?st mb ?ms] file_ok_base [OF ok] by auto
  have wl: "shrunk st1" "indexed ({} - {mb}) st1"
    using writeIndex_layout [of ?st "{}" mb ?ms True st1] file_ok_base [OF ok] l w(1) by (simp_all add: layout_def)
  have raw: "rawp st1 = rawp st" using same_config_eqs(3) [OF quiet_config [OF w(3)]] by simp
  have "f_removeMessage (fbox st mb ms) i st =
      (if ?ms = [] then (None, fbox st mb ?ms, st1)
       else (case on_world (os_Remove (rawp st mb i)) st1 of (ok, st') \<Rightarrow> (if ok then None else Some OsError, fbox st mb ?ms, st')))"
    using rest w(1) by (simp add: f_removeMessage_def f_to_message_fbox m(2))
  then have "st' = st1 \<or> st' = snd (on_world (os_Remove (rawp st1 mb i)) st1)"
    using r by (auto simp: raw split: if_splits prod.splits)
  then have "st' = st1 \<or> st' = cut st1 (rawp st1 mb i)"
  proof
    assume s: "st' = snd (on_world (os_Remove (rawp st1 mb i)) st1)"
    show ?thesis
    proof (cases "filemap st1 (rawp st1 mb i) = None")
      case True
      then have "rawp st1 mb i \<notin> fst ` set (ffiles (fs_world st1))" using ffiles_key by metis
      moreover have "rawp st1 mb i \<notin> dirs st1" by (rule file_not_dir [OF w(2)]) (simp add: rawp_def)
      ultimately have "snd (on_world (os_Remove (rawp st1 mb i)) st1) = st1\<lparr>fs_world := fs_world st1\<rparr>"
        using base_okD(1) [OF w(2)] by (simp add: on_world_def os_Remove_def)
      with s show ?thesis by simp
    qed (use s Remove_ok [OF w(2)] in auto)
  qed simp
  with wl layout_cut_raw [OF wl] show ?thesis by (auto simp: layout_def)
qed

lemma evict_layout:
  assumes "file_ok st" and "layout st" and "index_msgs st mb = ms" and "evict_loop n (fbox st mb ms) st = (mb', st')"
  shows "layout st'"
  using assms
proof (induction n arbitrary: st ms)
  case (Suc n)
  show ?case
  proof (cases "int (length ms) \<ge> messageCap st \<and> ms \<noteq> []")
    case False
    with Suc.prems(2,4) show ?thesis by auto
  next
    case True
    then have m: "hd ms \<in> set ms" by simp
    obtain st1 where r: "f_removeMessage (fbox st mb ms) (Fid (hd ms)) st = (None, fbox st mb (filter (\<lambda>x. Fid x \<noteq> Fid (hd ms)) ms), st1)"
      "file_ok st1" "same_config st st1" "index_msgs st1 mb = filter (\<lambda>x. Fid x \<noteq> Fid (hd ms)) ms"
      using removeMessage_ok [OF Suc.prems(1,3) m] by metis
    have "layout st1" by (rule removeMessage_layout [OF Suc.prems(1,2) r(1) Suc.prems(3)])
    moreover have "evict_loop n (fbox st1 mb (filter (\<lambda>x. Fid x \<noteq> Fid (hd ms)) ms)) st1 = (mb', st')"
      using Suc.prems(4) True r(1) same_config_eqs(6) [OF r(3)] by simp
    ultimately show ?thesis using Suc.IH r(2,4) by blast
  qed
qed simp

lemma layout_fields [simp]: "layout (st\<lparr>fs_count := n\<rparr>) = layout st" "layout (st\<lparr>fs_deleted := d\<rparr>) = layout st"
proof -
  have "same_config st (st\<lparr>fs_count := n\<rparr>)" by (simp add: same_config_def)
  note c = same_dirs [OF this] same_index [OF this]
  have "occupied (st\<lparr>fs_count := n\<rparr>) = occupied st" by (rule ext, rule c(3)) simp
  with c(1,2) show "layout (st\<lparr>fs_count := n\<rparr>) = layout st" by (simp add: layout_def indexed_def)
qed (simp add: layout_def)

lemma newMessage_layout:
  assumes "file_ok st" and "layout st" and "newMessage (fs_mbox st mb) st = (r, mb', st')"
  shows "layout st'"
  using assms(2,3) evict_layout [OF assms(1,2) refl]
  by (auto simp: newMessage_def load_ok [OF assms(1)] generateID_def Let_def split: if_splits prod.splits)

lemma add_layout:
  assumes ok: "file_ok st" and l: "layout st" and a: "file_AddMessage st m = (r, st')"
  shows "layout st'"
proof (cases "sSource m")
  case None
  with a l show ?thesis by (simp add: file_AddMessage_def Let_def)
next
  case (Some source)
  let ?mb = "sMailbox m" and ?i = "gen_id st (fs_count st)"
  obtain fm st1 where n: "newMessage (fs_mbox st ?mb) st = (Ok fm, fbox st ?mb (index_msgs st1 ?mb), st1)"
    "file_ok st1" "same_config st st1" "Fid fm = ?i"
    using newMessage_ok [OF ok] by metis
  have l1: "shrunk st1" "indexed {} st1" using newMessage_layout [OF ok l n(1)] by (simp_all add: layout_def)
  note e1 = same_config_eqs [OF n(3)] and b1 = file_ok_base [OF n(2)]
  let ?ms = "index_msgs st1 ?mb"
  obtain st2 where c: "createDir (fbox st1 ?mb ?ms) st1 = (True, st2)" "base_ok st2" "quiet st1 st2" "mdir st1 ?mb \<in> dirs st2"
    using createDir_ok [OF b1] by metis
  note l2 = createDir_layout [OF b1 l1 c(1)] and e2 = same_config_eqs [OF quiet_config [OF c(3)]]
  let ?raw = "rawp st2 ?mb ?i"
  let ?st3 = "put st2 ?raw (Raw [])"
  let ?st4 = "put ?st3 ?raw (Raw source)"
  have cr: "on_world (os_Create ?raw) st2 = (True, ?st3)"
    using Create_ok [OF c(2), of ?mb] c(4) by (simp add: rawp_def e2)
  have b3: "base_ok ?st3" using base_ok_put [OF c(2), of ?mb] c(4) by (simp add: rawp_def e2)
  have e3: "same_config st2 ?st3" "same_config ?st3 ?st4" by (rule quiet_config, simp)+
  note raw = same_config_eqs(3) [OF e3(1)] same_config_eqs(3) [OF e3(2)]
  have b4: "base_ok ?st4" using base_ok_put [OF b3, of ?mb "?i @ ''.raw''"] c(4) by (simp add: rawp_def e2)
  have l3: "shrunk ?st3" "indexed {?mb} ?st3" using layout_put_raw [OF l2] by simp_all
  have l4: "shrunk ?st4" "indexed {?mb} ?st4" using layout_put_raw [OF l3, of ?mb ?i "Raw source"] by (simp_all only: raw)
  let ?fm = "fm\<lparr>Fdate := sDate m, Ffrom := sFrom m, Fto := sTo m, Fsize := int (length source), Fsubject := sSubject m\<rparr>"
  have fb: "fbox ?st4 = fbox st"
    using same_config_eqs(6) [OF e3(2)] same_config_eqs(6) [OF e3(1)] e1(6) e2(6) by (simp only:)
  obtain st5 where w: "writeIndex (fbox ?st4 ?mb (?ms @ [?fm])) ?st4 = (True, st5)"
    using writeIndex_ok [OF b4] .
  have "file_AddMessage st m = (Ok ?i, st5)"
    using n(1,4) c(1) cr WriteRaw_ok [OF b3, of ?raw source] w fb e1(3,6) e2(3)
    by (simp add: file_AddMessage_def Some)
  moreover have "layout st5" using writeIndex_layout [OF b4 l4 w] by (simp add: layout_def)
  ultimately show ?thesis using a by simp
qed

lemma remove_layout:
  assumes "file_ok st" and "layout st" and "file_RemoveMessage st mb i = (e, st')"
  shows "layout st'"
proof -
  have "f_removeMessage (fs_mbox st mb) i st = f_removeMessage (fbox st mb (index_msgs st mb)) i st"
    by (simp add: f_removeMessage_def load_ok [OF assms(1)])
  with assms(3) obtain mb' where "f_removeMessage (fbox st mb (index_msgs st mb)) i st = (e, mb', st')"
    by (auto simp: file_RemoveMessage_def split: prod.splits)
  from removeMessage_layout [OF assms(1,2) this refl] show ?thesis .
qed

lemma purge_layout:
  assumes "file_ok st" and "layout st" and "file_PurgeMessages st mb = (e, st')"
  shows "layout st'"
proof -
  let ?st = "st\<lparr>fs_deleted := fs_deleted st @ map MakeMetadata (file_abs st mb)\<rparr>"
  obtain r st1 where w: "writeIndex (fbox ?st mb []) ?st = (r, st1)" by fastforce
  have "st' = st1"
    using assms(3) w by (auto simp: file_PurgeMessages_def purge_def load_ok [OF assms(1)] f_to_message_fbox file_abs_map comp_def)
  with writeIndex_layout [of ?st "{}", OF _ _ _ w] assms(1,2) file_ok_base show ?thesis by (simp add: layout_def)
qed

lemma seen_layout:
  assumes "file_ok st" and "layout st" and "file_MarkSeen st mb i = (e, st')"
  shows "layout st'"
proof (cases "seen_loop i (index_msgs st mb)")
  case None
  with assms show ?thesis by (simp add: file_MarkSeen_def load_ok)
next
  case (Some ms)
  obtain r st1 where w: "writeIndex (fbox st mb ms) st = (r, st1)" by fastforce
  with Some assms(3) have "st' = st1" by (simp add: file_MarkSeen_def load_ok [OF assms(1)])
  with writeIndex_layout [OF _ _ _ w, of "{}"] assms(1,2) file_ok_base show ?thesis by (simp add: layout_def)
qed

end
