(* ===== verification/FileVisit.thy ===== *)
theory FileVisit
  imports FileLayout
begin

text \<open>
  \<open>VisitMailboxes\<close> of the file store and the retention scanner over it: the loops over the three
  levels of directories come down to one loop over the mailboxes that have mail, in some order and
  each once, also while the visitor removes messages and with them directories. So a retention scan
  does to a file store what it does to a memory store.
\<close>

subsection \<open>Directories and mail\<close>

definition file_laid :: "fstore \<Rightarrow> bool" where
  "file_laid st \<longleftrightarrow> file_ok st \<and> layout st"

lemma file_laidD: "file_laid st \<Longrightarrow> file_ok st" "file_laid st \<Longrightarrow> base_ok st" "file_laid st \<Longrightarrow> shrunk st"
  by (simp_all add: file_laid_def layout_def file_ok_base)

lemma has_dir_iff: "file_laid st \<Longrightarrow> has_dir st mb \<longleftrightarrow> file_abs st mb \<noteq> []"
proof -
  assume l: "file_laid st"
  have "occupied st mb \<longleftrightarrow> index_msgs st mb \<noteq> []"
    using holds_index_msgs [OF file_laidD(1) [OF l], of mb] by (simp add: occupied_def holds_def index_file_def)
  moreover have "has_dir st mb \<longleftrightarrow> occupied st mb"
    using l occupied_has_dir [OF file_laidD(2) [OF l]] by (auto simp: file_laid_def layout_def indexed_def)
  ultimately show ?thesis by (simp add: file_abs_map)
qed

lemma dirs_iff:
  assumes "file_laid st" and "d \<noteq> []"
  shows "d \<in> dirs st \<longleftrightarrow> d = [fs_mailPath st] \<or> (\<exists>mb. file_abs st mb \<noteq> [] \<and> prefix d (mdir st mb))"
proof
  assume "d \<in> dirs st"
  then show "d = [fs_mailPath st] \<or> (\<exists>mb. file_abs st mb \<noteq> [] \<and> prefix d (mdir st mb))"
    using shrunkD [OF file_laidD(3) [OF assms(1)]] has_dir_iff [OF assms(1)] by blast
next
  assume "d = [fs_mailPath st] \<or> (\<exists>mb. file_abs st mb \<noteq> [] \<and> prefix d (mdir st mb))"
  then show "d \<in> dirs st"
    using base_okD(3) [OF file_laidD(2) [OF assms(1)]] has_dir_iff [OF assms(1)]
      tree_ok_dirs [OF base_okD(2) [OF file_laidD(2) [OF assms(1)]] _ assms(2)]
    by (auto simp: has_dir_def)
qed

text \<open>The mailboxes with mail below a directory.\<close>

definition below :: "fstore \<Rightarrow> path \<Rightarrow> string set" where
  "below st d = {mb. file_abs st mb \<noteq> [] \<and> prefix d (mdir st mb)}"

lemma distinct_children:
  assumes "file_laid st" and "length d \<le> 3"
  shows "distinct (children (fs_world st) d)"
proof -
  let ?P = "\<lambda>q. q \<noteq> [] \<and> butlast q = d"
  have "filter ?P (map fst (ffiles (fs_world st))) = []"
  proof -
    have "length q = 5" if "q \<in> fst ` set (ffiles (fs_world st))" for q
      using that ffiles_key [of q "fs_world st"] base_okD(5) [OF file_laidD(2) [OF assms(1)], of q] by simp
    then show ?thesis using assms(2) by (fastforce simp: filter_empty_conv)
  qed
  then have "children (fs_world st) d = map last (filter ?P (fdirs (fs_world st)))" by (simp add: children_def)
  moreover have "inj_on last {q. ?P q}"
    by (rule inj_onI) (metis (mono_tags, lifting) append_butlast_last_id mem_Collect_eq)
  moreover have "distinct (filter ?P (fdirs (fs_world st)))"
    using shrunk_distinct [OF file_laidD(3) [OF assms(1)]] by simp
  ultimately show ?thesis by (auto simp: distinct_map intro: inj_on_subset)
qed

lemma below_children:
  assumes l: "file_laid st" and d: "d \<noteq> []" "length d \<le> 3"
  shows "below st d = (\<Union>c\<in>set (children (fs_world st) d). below st (d @ [c]))"
proof (intro set_eqI iffI)
  fix mb assume mb: "mb \<in> below st d"
  then obtain xs where xs: "mdir st mb = d @ xs" by (auto simp: below_def elim: prefixE)
  then obtain c ys where "xs = c # ys" using d(2) length_mdir [of st mb] by (cases xs) auto
  with xs have c: "prefix (d @ [c]) (mdir st mb)" by simp
  with mb have "d @ [c] \<in> dirs st" using dirs_iff [OF l, of "d @ [c]"] by (auto simp: below_def)
  then have "c \<in> set (children (fs_world st) d)" using in_children_dir [OF file_laidD(2) [OF l] d(2)] by simp
  with mb c show "mb \<in> (\<Union>c\<in>set (children (fs_world st) d). below st (d @ [c]))" by (auto simp: below_def)
next
  fix mb assume "mb \<in> (\<Union>c\<in>set (children (fs_world st) d). below st (d @ [c]))"
  then show "mb \<in> below st d" by (auto simp: below_def dest: append_prefixD)
qed

lemma below_child:
  assumes l: "file_laid st" and d: "d \<noteq> []" "length d \<le> 3" and c: "c \<in> set (children (fs_world st) d)"
  shows "below st (d @ [c]) \<noteq> {}"
  using c dirs_iff [OF l, of "d @ [c]"] d in_children_dir [OF file_laidD(2) [OF l] d(2)] by (auto simp: below_def)

lemma below_disjoint: "c \<noteq> c' \<Longrightarrow> below st (d @ [c]) \<inter> below st (d @ [c']) = {}"
  by (auto simp: below_def elim!: prefixE)

lemma Readdirnames_ok:
  "file_laid st \<Longrightarrow> d \<in> dirs st \<Longrightarrow>
    on_world (os_Readdirnames d) st = (Some (children (fs_world st) d), st)"
  by (simp add: on_world_def os_Readdirnames_def base_okD [OF file_laidD(2)])

lemma getMessages_hash:
  assumes l: "file_laid st"
  shows "getMessages (mboxFromHash st (HashMailboxName (fs_sha1 st) mb)) st = (Ok (file_abs st mb), st)"
proof -
  note b = file_laidD(2) [OF l]
  let ?mb = "mboxFromHash st (HashMailboxName (fs_sha1 st) mb)" and ?ms = "index_msgs st mb"
  have nd: "ipath st mb \<notin> dirs st" by (rule file_not_dir [OF b]) (simp add: ipath_def)
  have h: "filemap st (ipath st mb) = index_file mb ?ms" using holds_index_msgs [OF file_laidD(1) [OF l], of mb] by (simp add: holds_def)
  have ex: "path_exists (fs_world st) (ipath st mb) \<longleftrightarrow> ?ms \<noteq> []"
    using nd h ffiles_key [of "ipath st mb" "fs_world st"] by (simp add: path_exists_def index_file_def)
  have p: "fb_indexPath ?mb = ipath st mb" "fb_path ?mb = mdir st mb" "\<not> fb_indexLoaded ?mb"
    by (simp_all add: mboxFromHash_def Let_def ipath_def mdir_eq)
  have g: "f_to_message st (?mb\<lparr>fb_name := mb, fb_messages := x, fb_indexLoaded := True\<rparr>) = f_to_message st (fs_mbox st mb)" for x
    by (rule ext) (simp add: f_to_message_def rawPath_def rawp_def p)
  show ?thesis
  proof (cases "?ms = []")
    case True
    with ex p show ?thesis by (simp add: getMessages_def load_def readIndex_def on_world_def os_Stat_ok base_okD [OF b] file_abs_map)
  next
    case False
    then have f: "filemap st (ipath st mb) = Some (Gob (GobString mb # map GobMsg ?ms) False)"
      using h by (simp add: index_file_def)
    from False ex f p g show ?thesis
      by (simp add: getMessages_def load_def readIndex_def on_world_def os_Stat_ok os_ReadFile_ok base_okD [OF b] file_abs_map)
  qed
qed

subsection \<open>The loops as one\<close>

definition same_root :: "fstore \<Rightarrow> fstore \<Rightarrow> bool" where
  "same_root st st' \<longleftrightarrow> fs_mailPath st' = fs_mailPath st \<and> fs_sha1 st' = fs_sha1 st"

lemma same_root_mdir: "same_root st st' \<Longrightarrow> mdir st' = mdir st"
  by (rule ext) (simp add: same_root_def mdir_eq)

text \<open>A visitor that keeps an invariant and changes no mailbox but the one it is called for.\<close>

definition visitor :: "(fstore \<Rightarrow> bool) \<Rightarrow> (message list \<Rightarrow> fstore \<Rightarrow> 'a \<Rightarrow> bool \<times> fstore \<times> 'a) \<Rightarrow> bool" where
  "visitor I f \<longleftrightarrow> (\<forall>st. I st \<longrightarrow> file_laid st) \<and> (\<forall>st st'. I st \<longrightarrow> I st' \<longrightarrow> same_root st st') \<and> confined file_abs I f"

lemma visitorD:
  assumes "visitor I f" and "I st"
  shows "file_laid st"
    and "f (file_abs st mb) st a = (cont, st', a') \<Longrightarrow>
      I st' \<and> same_root st st' \<and> (\<forall>m. m \<noteq> mb \<longrightarrow> file_abs st' m = file_abs st m)"
proof -
  have v: "\<forall>st. I st \<longrightarrow> file_laid st" "\<forall>st st'. I st \<longrightarrow> I st' \<longrightarrow> same_root st st'" "confined file_abs I f"
    using assms(1) unfolding visitor_def by blast+
  show "file_laid st" using v(1) assms(2) by blast
  show "f (file_abs st mb) st a = (cont, st', a') \<Longrightarrow>
      I st' \<and> same_root st st' \<and> (\<forall>m. m \<noteq> mb \<longrightarrow> file_abs st' m = file_abs st m)"
    using confinedD [OF v(3) assms(2)] v(2) assms(2) by blast
qed

lemma same_root_trans: "same_root a b \<Longrightarrow> same_root b c \<Longrightarrow> same_root a c"
  by (simp add: same_root_def)

abbreviation visit_list :: "(message list \<Rightarrow> fstore \<Rightarrow> 'a \<Rightarrow> bool \<times> fstore \<times> 'a) \<Rightarrow> string list \<Rightarrow> fstore \<Rightarrow> 'a
    \<Rightarrow> bool \<times> fstore \<times> 'a" where
  "visit_list \<equiv> visit_each file_ops"

lemma visit_list_Cons:
  "file_laid st \<Longrightarrow> visit_list f (mb # mbs) st a =
     (case f (file_abs st mb) st a of (cont, st, a) \<Rightarrow> if \<not> cont then (False, st, a) else visit_list f mbs st a)"
  using GetMessages_ok [OF file_laidD(1), of st mb] by (simp add: file_ops_def [THEN arg_cong [where f = GetMessages]])

lemma visit_list_keeps:
  assumes v: "visitor I f" and "I st" and "visit_list f mbs st a = (cont, st', a')"
  shows "I st' \<and> same_root st st' \<and> (\<forall>m. m \<notin> set mbs \<longrightarrow> file_abs st' m = file_abs st m)"
  using assms(2,3)
proof (induction mbs arbitrary: st a)
  case (Cons mb mbs)
  obtain c st1 a1 where f: "f (file_abs st mb) st a = (c, st1, a1)" by (metis prod_cases3)
  note s = visitorD(2) [OF v Cons.prems(1) f] and go = visit_list_Cons [OF visitorD(1) [OF v Cons.prems(1)]]
  show ?case
  proof (cases c)
    case True
    then have "visit_list f mbs st1 a1 = (cont, st', a')" using Cons.prems(2) f unfolding go by simp
    with Cons.IH [of st1 a1] s show ?thesis by (auto intro: same_root_trans)
  qed (use s f Cons.prems(2) [unfolded go] in auto)
qed (simp add: same_root_def)

lemma below_same:
  assumes "same_root st st'" and "\<And>m. prefix d (mdir st m) \<Longrightarrow> file_abs st' m = file_abs st m"
  shows "below st' d = below st d"
  using assms same_root_mdir [OF assms(1)] by (auto simp: below_def)

text \<open>The innermost loop, over the mailboxes of one directory.\<close>

lemma length_hash: "base_ok st \<Longrightarrow> 6 \<le> length (HashMailboxName (fs_sha1 st) mb)"
  using base_ok_def [of st] by (auto simp: HashMailboxName_def length_EncodeToString intro: order_trans [of 6 "2 * 3"])

lemma visit_boxes_list:
  assumes v: "visitor I f" and "I st"
  shows "visit_boxes f (map (HashMailboxName (fs_sha1 st)) mbs) st a
    = (case visit_list f mbs st a of (cont, st, a) \<Rightarrow> (None, cont, st, a))"
  using assms(2)
proof (induction mbs arbitrary: st a)
  case (Cons mb mbs)
  note l = visitorD(1) [OF v Cons.prems]
  obtain c st1 a1 where f: "f (file_abs st mb) st a = (c, st1, a1)" by (metis prod_cases3)
  note s = visitorD(2) [OF v Cons.prems f]
  have "fs_sha1 st1 = fs_sha1 st" using s by (simp add: same_root_def)
  with Cons.IH [of st1 a1] s f length_hash [OF file_laidD(2) [OF l]] getMessages_hash [OF l]
  show ?case unfolding visit_list_Cons [OF l] by (simp add: not_less)
qed simp

lemma mdir_below:
  assumes "length d = 3" and "prefix (d @ [c]) (mdir st mb)"
  shows "mdir st mb = d @ [c]"
proof -
  obtain zs where zs: "mdir st mb = (d @ [c]) @ zs" using assms(2) by (rule prefixE)
  have "4 = 4 + length zs" using length_mdir [of st mb] unfolding zs by (simp add: assms(1))
  with zs show ?thesis by simp
qed

text \<open>The names in a directory of the third level are the digests of the mailboxes below.\<close>

lemma box_names:
  assumes l: "file_laid st" and d: "length d = 3" "hd d = fs_mailPath st"
  obtains mbs where "children (fs_world st) d = map (HashMailboxName (fs_sha1 st)) mbs" "distinct mbs" "set mbs = below st d"
proof -
  let ?h = "HashMailboxName (fs_sha1 st)" and ?cs = "children (fs_world st) d"
  note b = file_laidD(2) [OF l]
  have ex: "\<exists>mb. c = ?h mb \<and> mdir st mb = d @ [c] \<and> mb \<in> below st d" if "c \<in> set ?cs" for c
  proof -
    have "d \<noteq> []" using d(1) by auto
    with below_child [OF l _ _ that] d(1) obtain mb where mb: "file_abs st mb \<noteq> []" "prefix (d @ [c]) (mdir st mb)"
      by (auto simp: below_def)
    then have m: "mdir st mb = d @ [c]" using mdir_below [OF d(1)] by blast
    then have "c = ?h mb" by (simp add: mdir_eq)
    with m mb show ?thesis by (auto simp: below_def)
  qed
  then obtain g where g: "\<forall>c\<in>set ?cs. c = ?h (g c) \<and> mdir st (g c) = d @ [c] \<and> g c \<in> below st d" by metis
  have "?h (g c) = c" if "c \<in> set ?cs" for c using g that by simp
  then have "map ?h (map g ?cs) = ?cs" by (simp add: map_idI)
  moreover have "distinct (map g ?cs)"
    using distinct_children [OF l] d(1) g by (auto simp: distinct_map intro!: inj_onI) metis
  moreover have "set (map g ?cs) = below st d"
  proof (intro set_eqI iffI)
    fix mb assume mb: "mb \<in> below st d"
    have "d \<noteq> []" using d(1) by auto
    with mb below_children [OF l, of d] d(1) obtain c where c: "c \<in> set ?cs" "mb \<in> below st (d @ [c])" by auto
    then have "mdir st mb = d @ [c]" using mdir_below [OF d(1)] by (simp add: below_def)
    with g c(1) have "mdir st mb = mdir st (g c)" by simp
    then have "mb = g c" by (rule mdir_inj [OF b])
    with c(1) show "mb \<in> set (map g ?cs)" by simp
  qed (use g in auto)
  ultimately show ?thesis by (metis that)
qed

lemma below_other:
  assumes v: "visitor I f" and i: "I st" and r: "visit_list f mbs st a = (cont, st', a')" and m: "set mbs = below st d"
    and e: "length d = length d'" "d \<noteq> d'"
  shows "below st' d' = below st d'"
proof (rule below_same)
  note k = visit_list_keeps [OF v i r]
  show "same_root st st'" using k by blast
  fix mb assume "prefix d' (mdir st mb)"
  then have "\<not> prefix d (mdir st mb)" using e by (auto elim!: prefixE)
  with m have "mb \<notin> set mbs" by (simp add: below_def)
  with k show "file_abs st' mb = file_abs st mb" by blast
qed

text \<open>The loop of the second level, over the names of a directory \<open>d\<close> of the first.\<close>

lemma visit_dirs2_list:
  assumes v: "visitor I f" and "I st" and "distinct names" and "\<And>n. n \<in> set names \<Longrightarrow> below st [fs_mailPath st, name1, n] \<noteq> {}"
  shows "\<exists>mbs. distinct mbs \<and> set mbs = (\<Union>n\<in>set names. below st [fs_mailPath st, name1, n])
    \<and> visit_dirs2 f name1 names st a = (case visit_list f mbs st a of (cont, st, a) \<Rightarrow> (None, cont, st, a))"
  using assms(2-)
proof (induction names arbitrary: st a)
  case Nil
  show ?case by (intro exI [of _ "[]"]) simp
next
  case (Cons n names)
  note l = visitorD(1) [OF v Cons.prems(1)]
  let ?d = "\<lambda>n. [fs_mailPath st, name1, n]"
  obtain xs where xs: "children (fs_world st) (?d n) = map (HashMailboxName (fs_sha1 st)) xs" "distinct xs" "set xs = below st (?d n)"
    using box_names [OF l, of "?d n"] by auto
  have "?d n \<in> dirs st" using dirs_iff [OF l, of "?d n"] Cons.prems(3) [of n] by (auto simp: below_def)
  note rd = Readdirnames_ok [OF l this]
  obtain cont st1 a1 where r: "visit_list f xs st a = (cont, st1, a1)" by (metis prod_cases3)
  note k = visit_list_keeps [OF v Cons.prems(1) r]
  have mp: "fs_mailPath st1 = fs_mailPath st" using k by (simp add: same_root_def)
  have same: "below st1 (?d m) = below st (?d m)" if "m \<in> set names" for m
    using below_other [OF v Cons.prems(1) r xs(3), of "?d m"] that Cons.prems(2) by auto
  obtain ys where ys: "distinct ys" "set ys = (\<Union>n\<in>set names. below st (?d n))"
    "visit_dirs2 f name1 names st1 a1 = (case visit_list f ys st1 a1 of (cont, st, a) \<Rightarrow> (None, cont, st, a))"
    using Cons.IH [of st1 a1] k Cons.prems(2,3) same by (auto simp: mp)
  have "below st (?d n) \<inter> below st (?d m) = {}" if "m \<in> set names" for m
    using below_disjoint [of n m st "[fs_mailPath st, name1]"] that Cons.prems(2) by auto
  with xs ys have "distinct (xs @ ys)" "set (xs @ ys) = (\<Union>n\<in>set (n # names). below st (?d n))" by auto
  moreover have "visit_dirs2 f name1 (n # names) st a
      = (case visit_list f (xs @ ys) st a of (cont, st, a) \<Rightarrow> (None, cont, st, a))"
    using rd r ys(3) visit_boxes_list [OF v Cons.prems(1), of xs a] by (simp add: visit_each_append xs(1))
  ultimately show ?case by blast
qed

text \<open>The loop of the first level.\<close>

lemma visit_dirs1_list:
  assumes v: "visitor I f" and "I st" and "distinct names" and "\<And>n. n \<in> set names \<Longrightarrow> below st [fs_mailPath st, n] \<noteq> {}"
  shows "\<exists>mbs. distinct mbs \<and> set mbs = (\<Union>n\<in>set names. below st [fs_mailPath st, n])
    \<and> visit_dirs1 f names st a = (case visit_list f mbs st a of (cont, st, a) \<Rightarrow> (None, cont, st, a))"
  using assms(2-)
proof (induction names arbitrary: st a)
  case Nil
  show ?case by (intro exI [of _ "[]"]) simp
next
  case (Cons n names)
  note l = visitorD(1) [OF v Cons.prems(1)]
  let ?d = "\<lambda>n. [fs_mailPath st, n]" and ?cs = "children (fs_world st) [fs_mailPath st, n]"
  have "?d n \<in> dirs st" using dirs_iff [OF l, of "?d n"] Cons.prems(3) [of n] by (auto simp: below_def)
  note rd = Readdirnames_ok [OF l this]
  have "below st [fs_mailPath st, n, c] \<noteq> {}" if "c \<in> set ?cs" for c
    using below_child [OF l, of "?d n" c] that by simp
  with visit_dirs2_list [OF v Cons.prems(1) distinct_children [OF l, of "?d n"], of n a]
  obtain xs where xs: "distinct xs" "set xs = (\<Union>c\<in>set ?cs. below st [fs_mailPath st, n, c])"
    "visit_dirs2 f n ?cs st a = (case visit_list f xs st a of (cont, st, a) \<Rightarrow> (None, cont, st, a))" by auto
  have setxs: "set xs = below st (?d n)" using xs(2) below_children [OF l, of "?d n"] by simp
  obtain cont st1 a1 where r: "visit_list f xs st a = (cont, st1, a1)" by (metis prod_cases3)
  note k = visit_list_keeps [OF v Cons.prems(1) r]
  have mp: "fs_mailPath st1 = fs_mailPath st" using k by (simp add: same_root_def)
  have same: "below st1 (?d m) = below st (?d m)" if "m \<in> set names" for m
    using below_other [OF v Cons.prems(1) r setxs, of "?d m"] that Cons.prems(2) by auto
  obtain ys where ys: "distinct ys" "set ys = (\<Union>n\<in>set names. below st (?d n))"
    "visit_dirs1 f names st1 a1 = (case visit_list f ys st1 a1 of (cont, st, a) \<Rightarrow> (None, cont, st, a))"
    using Cons.IH [of st1 a1] k Cons.prems(2,3) same by (auto simp: mp)
  have "below st (?d n) \<inter> below st (?d m) = {}" if "m \<in> set names" for m
    using below_disjoint [of n m st "[fs_mailPath st]"] that Cons.prems(2) by auto
  with xs(1) setxs ys have "distinct (xs @ ys)" "set (xs @ ys) = (\<Union>n\<in>set (n # names). below st (?d n))" by auto
  moreover have "visit_dirs1 f (n # names) st a
      = (case visit_list f (xs @ ys) st a of (cont, st, a) \<Rightarrow> (None, cont, st, a))"
    using rd r xs(3) ys(3) by (simp add: visit_each_append)
  ultimately show ?case by blast
qed

lemma visit_all:
  assumes v: "visitor I f" and i: "I st"
  shows "\<exists>mbs. distinct mbs \<and> set mbs = {mb. file_abs st mb \<noteq> []}
    \<and> file_VisitMailboxes f st a = (case visit_list f mbs st a of (cont, st, a) \<Rightarrow> (None, st, a))"
proof -
  note l = visitorD(1) [OF v i]
  let ?cs = "children (fs_world st) [fs_mailPath st]"
  have rd: "on_world (os_Readdirnames [fs_mailPath st]) st = (Some ?cs, st)"
    using Readdirnames_ok [OF l] base_okD(3) [OF file_laidD(2) [OF l]] by blast
  have "below st [fs_mailPath st, c] \<noteq> {}" if "c \<in> set ?cs" for c
    using below_child [OF l, of "[fs_mailPath st]" c] that by simp
  with visit_dirs1_list [OF v i distinct_children [OF l, of "[fs_mailPath st]"], of a]
  obtain xs where xs: "distinct xs" "set xs = (\<Union>c\<in>set ?cs. below st [fs_mailPath st, c])"
    "visit_dirs1 f ?cs st a = (case visit_list f xs st a of (cont, st, a) \<Rightarrow> (None, cont, st, a))" by auto
  have "below st [fs_mailPath st] = {mb. file_abs st mb \<noteq> []}" by (auto simp: below_def mdir_eq)
  then have "set xs = {mb. file_abs st mb \<noteq> []}" using xs(2) below_children [OF l, of "[fs_mailPath st]"] by simp
  with xs(1,3) rd show ?thesis by (intro exI [of _ xs]) (simp add: file_VisitMailboxes_def split: prod.split)
qed

text \<open>The states of a store with message cap \<open>c\<close>, as for \<open>disk\<close>, and the directories laid out.\<close>

definition file_laid_capped :: "int \<Rightarrow> string \<Rightarrow> (string \<Rightarrow> string) \<Rightarrow> string set \<Rightarrow> fstore \<Rightarrow> bool" where
  "file_laid_capped c p h I st \<longleftrightarrow> file_capped c p h I st \<and> layout st"

lemma file_laid_cappedD: "file_laid_capped c p h I st \<Longrightarrow> file_capped c p h I st" "file_laid_capped c p h I st \<Longrightarrow> layout st"
  "file_laid_capped c p h I st \<Longrightarrow> file_laid st" "file_laid_capped c p h I st \<Longrightarrow> file_ok st"
  by (auto simp: file_laid_capped_def file_laid_def dest: file_cappedD)

lemma confined_visitor: "confined file_abs (file_laid_capped c p h I) f \<Longrightarrow> visitor (file_laid_capped c p h I) f"
  by (auto simp: visitor_def file_laid_cappedD same_root_def) (auto simp: file_laid_capped_def file_capped_def)

interpretation laid: capped_store file_ops file_abs "file_laid_capped c p h I" c for c p h I
proof (unfold_locales, goal_cases)
  case (3 st m ra st') then show ?case using disk.inv_add add_layout by (auto simp: file_laid_capped_def file_ops_def dest: file_cappedD)
next
  case (6 st mb r st') then show ?case using GetMessages_ok [OF file_laid_cappedD(4)] by (auto simp: file_ops_def)
next
  case (8 st mb i e st') then show ?case using disk.inv_remove remove_layout by (auto simp: file_laid_capped_def file_ops_def dest: file_cappedD)
next
  case (11 st mb e st') then show ?case using disk.inv_purge purge_layout by (auto simp: file_laid_capped_def file_ops_def dest: file_cappedD)
next
  case (13 st mb i e st') then show ?case using disk.inv_seen seen_layout by (auto simp: file_laid_capped_def file_ops_def dest: file_cappedD)
next
  case (15 st mb i ro st') then show ?case using GetMessage_ok [OF file_laid_cappedD(4)] by (auto simp: file_ops_def)
next
  case (1 st mb) then show ?case using disk.ids_distinct [OF file_laid_cappedD(1)] by blast
next
  case (2 st m mb) then show ?case using disk.mailbox_of [OF file_laid_cappedD(1)] by blast
next
  case (4 st m src) then show ?case using disk.add_result [OF file_laid_cappedD(1)] by blast
next
  case (5 st m i st' mb) then show ?case using disk.add_abs [OF file_laid_cappedD(1)] by blast
next
  case (7 st mb r st') then show ?case using disk.get_messages [OF file_laid_cappedD(1)] by blast
next
  case (9 st mb i e st') then show ?case using disk.remove_abs [OF file_laid_cappedD(1)] by blast
next
  case (10 st mb i e st') then show ?case using disk.remove_result [OF file_laid_cappedD(1)] by blast
next
  case (12 st mb e st') then show ?case using disk.purge_abs [OF file_laid_cappedD(1)] by blast
next
  case (14 st mb i e st') then show ?case using disk.seen_abs [OF file_laid_cappedD(1)] by blast
next
  case (16 st mb i m st') then show ?case using disk.get_one [OF file_laid_cappedD(1)] by blast
next
  case (17 st m mb) then show ?case using disk.get_one_found [OF file_laid_cappedD(1)] by blast
next
  case (18 st i mb rm st') then show ?case using disk.get_missing [OF file_laid_cappedD(1)] by blast
next
  case (19 st m i st') then show ?case using disk.add_capped [OF file_laid_cappedD(1)] by blast
qed

definition file_known :: "fstore \<Rightarrow> string set" where
  "file_known st = {mb. file_abs st mb \<noteq> []}"

interpretation laid: visited_store file_ops file_abs "file_laid_capped c p h I" file_VisitMailboxes file_known for c p h I
proof (unfold_locales, goal_cases)
  case (1 st mb) then show ?case by (simp add: file_known_def)
next
  case (2 st f a)
  from visit_all [OF confined_visitor [OF 2(2)] 2(1)] show ?case by (simp add: file_known_def)
qed

interpretation laid_kept: kept_store file_ops file_abs "file_laid_capped c p h I" c file_VisitMailboxes file_known for c p h I
  by unfold_locales

subsection \<open>From a new store on\<close>

lemma file_New_layout:
  assumes "file_New cfg no_files sha1 clk n = Ok f" and "env_ok sha1 clk"
  shows "file_laid_capped (MailboxMsgCap cfg) (fs_mailPath f) sha1 (range (new_id clk)) f" and "file_abs f = (\<lambda>mb. [])"
proof -
  have w: "fdirs (fs_world f) = [[fs_mailPath f]]"
    using assms(1) by (auto simp: file_New_def Let_def no_files_def os_Stat_ok os_MkdirAll_def path_exists_def
        split: option.splits if_splits)
  then have "\<not> has_dir f mb" for mb by (simp add: has_dir_def mdir_eq)
  with w have "layout f" by (simp add: layout_def shrunk_def indexed_def)
  with file_New_fresh [OF assms]
  show "file_laid_capped (MailboxMsgCap cfg) (fs_mailPath f) sha1 (range (new_id clk)) f" "file_abs f = (\<lambda>mb. [])"
    by (simp_all add: file_laid_capped_def)
qed

lemma file_tasks:
  assumes "file_laid_capped c p h I f" and "\<forall>t\<in>set ts. task_ok t"
  shows "file_laid_capped c p h I (fold (exec_task file_ops file_VisitMailboxes) ts f)"
    and "listing_of file_ops (fold (exec_task file_ops file_VisitMailboxes) ts f) mb
      = Ok (fold (spec_task c) ts (laid.view f) mb)"
proof -
  note r = laid_kept.exec_tasks_refine [OF assms]
  then show i: "file_laid_capped c p h I (fold (exec_task file_ops file_VisitMailboxes) ts f)" by blast
  show "listing_of file_ops (fold (exec_task file_ops file_VisitMailboxes) ts f) mb = Ok (fold (spec_task c) ts (laid.view f) mb)"
    using laid.listing_view [OF i, of mb] r by simp
qed

lemma mem_tasks:
  assumes "mem_New cap None = Some s" and "\<forall>t\<in>set ts. task_ok t"
  shows "listing_of mem_ops (fold (exec_task mem_ops mem_VisitMailboxes) ts s) mb
    = Ok (fold (spec_task cap) ts (\<lambda>mb. []) mb)"
proof -
  note s = mem_New_capped [OF assms(1)]
  have "mem_capped cap (fold (exec_task mem_ops mem_VisitMailboxes) ts s)"
    "capped.view (fold (exec_task mem_ops mem_VisitMailboxes) ts s) = fold (spec_task cap) ts (capped.view s)"
    using mem_kept.exec_tasks_refine [of cap s ts] s assms(2) by simp_all
  moreover have "capped.view s = (\<lambda>mb. [])" using s by (simp add: capped.view_def fun_eq_iff)
  ultimately show ?thesis using capped.listing_view by simp
qed

text \<open>
  C8: the two stores are interchangeable, with the retention scanner at work: after any sequence of
  adds, removals, marks, purges and retention scans a client that lists a mailbox of a fresh file
  store and of a fresh memory store with the same message cap gets the same messages, ids aside.
\<close>
theorem stores_agree_with_scans:
  assumes "env_ok sha1 clk" and "file_New cfg no_files sha1 clk 0 = Ok f"
    and "mem_New (MailboxMsgCap cfg) None = Some s" and "\<forall>t\<in>set ts. task_ok t"
  shows "listing_of file_ops (fold (exec_task file_ops file_VisitMailboxes) ts f) mb
    = listing_of mem_ops (fold (exec_task mem_ops mem_VisitMailboxes) ts s) mb"
proof -
  note f = file_New_layout [OF assms(2,1)]
  have "laid.view f = (\<lambda>mb. [])" by (simp add: laid.view_def f(2) fun_eq_iff)
  with file_tasks(2) [OF f(1) assms(4)] mem_tasks [OF assms(3,4)] show ?thesis by simp
qed

text \<open>
  C24: a retention scan of a file store, whatever clients and scans have done to it before, deletes
  exactly the messages dated before the cutoff and keeps the others, in every mailbox, without an
  error, and counts both, although it removes directories that the loops are going through.
\<close>
theorem file_scan_deletes_expired:
  assumes "env_ok sha1 clk" and "file_New cfg no_files sha1 clk 0 = Ok f" and "\<forall>t\<in>set ts. task_ok t"
    and "st = fold (exec_task file_ops file_VisitMailboxes) ts f"
    and "DoScan file_ops file_VisitMailboxes now period [] st = (err, st', sc)"
  shows "err = None \<and> (\<forall>n. file_abs st' n = filter (\<lambda>m. now - period \<le> sDate m) (file_abs st n))
    \<and> deletesTotal sc = (\<Sum>n | file_abs st n \<noteq> []. length (filter (\<lambda>m. sDate m < now - period) (file_abs st n)))
    \<and> retained sc = (\<Sum>n | file_abs st n \<noteq> []. length (file_abs st' n))"
proof -
  have "file_laid_capped (MailboxMsgCap cfg) (fs_mailPath f) sha1 (range (new_id clk)) st"
    using file_tasks(1) [OF file_New_layout(1) [OF assms(2,1)] assms(3)] assms(4) by simp
  from laid_kept.DoScan_spec [OF this assms(5)] show ?thesis by blast
qed

text \<open>
  C25: a mailbox has a directory exactly while it has a message, and the file store has no other
  directories than those on the way to one.
\<close>
theorem file_dirs_lead_to_mail:
  assumes "env_ok sha1 clk" and "file_New cfg no_files sha1 clk 0 = Ok f" and "\<forall>t\<in>set ts. task_ok t"
    and "st = fold (exec_task file_ops file_VisitMailboxes) ts f"
  shows "set (fdirs (fs_world st)) = insert [fs_mailPath st]
    {d. d \<noteq> [] \<and> (\<exists>mb. file_abs st mb \<noteq> [] \<and> prefix d (fb_path (fs_mbox st mb)))}"
proof -
  have l: "file_laid st"
    using file_tasks(1) [OF file_New_layout(1) [OF assms(2,1)] assms(3)] assms(4) by (blast dest: file_laid_cappedD(3))
  have "[] \<notin> dirs st" using base_okD(2) [OF file_laidD(2) [OF l]] by (simp add: tree_ok_def)
  then show ?thesis
  proof (intro set_eqI)
    fix d
    assume "[] \<notin> dirs st"
    then show "d \<in> dirs st \<longleftrightarrow> d \<in> insert [fs_mailPath st]
        {d. d \<noteq> [] \<and> (\<exists>mb. file_abs st mb \<noteq> [] \<and> prefix d (fb_path (fs_mbox st mb)))}"
      using dirs_iff [OF l, of d] by (cases "d = []") simp_all
  qed
qed

subsection \<open>Restarts\<close>

lemma file_reopen_laid:
  assumes "file_laid_capped c d sha1 (range (new_id clk0)) st" and "file_New cfg (fs_world st) sha1 clk n = Ok f"
    and "env_ok sha1 clk" and "map_of (Params cfg) ''path'' = Some p" and "d = getMailPath p" and "later_clock clk0 clk"
  shows "file_laid_capped (MailboxMsgCap cfg) d sha1 (range (new_id clk0) \<union> range (new_id clk)) f" and "file_abs f = file_abs st"
proof -
  note c = file_laid_cappedD(1) [OF assms(1)]
  have ok: "fs_mailPath st = d" "fs_sha1 st = sha1" using c by (simp_all add: file_capped_def)
  note r = reopen_base [OF file_ok_base [OF file_cappedD [OF c]], unfolded ok, OF assms(2-5)]
  note e = same_place [OF r(2-4) [folded ok]]
  have "has_dir f = has_dir st" "occupied f = occupied st"
    by (simp_all add: has_dir_def occupied_def fun_eq_iff e r(4))
  then have "layout f" using file_laid_cappedD(2) [OF assms(1)]
    by (simp add: layout_def shrunk_def indexed_def e r(2,4) ok)
  with file_reopen [OF c assms(2-6)]
  show "file_laid_capped (MailboxMsgCap cfg) d sha1 (range (new_id clk0) \<union> range (new_id clk)) f" "file_abs f = file_abs st"
    by (simp_all add: file_laid_capped_def)
qed

text \<open>
  C9: a file store that is closed and opened again behaves as one that was never closed, which is as
  the memory store does: with any operations of clients and any retention scans before and after,
  listings agree. The clock has moved on in between.
\<close>
theorem restart_with_scans:
  assumes "env_ok sha1 clk" and "file_New cfg no_files sha1 clk 0 = Ok f"
    and "mem_New (MailboxMsgCap cfg) None = Some s" and "\<forall>t\<in>set (before @ after). task_ok t"
    and "st = fold (exec_task file_ops file_VisitMailboxes) before f" and "env_ok sha1 clk'"
    and "file_New cfg (fs_world st) sha1 clk' 0 = Ok f'" and "later_clock clk clk'"
  shows "listing_of file_ops (fold (exec_task file_ops file_VisitMailboxes) after f') mb
    = listing_of mem_ops (fold (exec_task mem_ops mem_VisitMailboxes) (before @ after) s) mb"
proof -
  note f = file_New_layout [OF assms(2,1)]
  have before: "\<forall>t\<in>set before. task_ok t" and after: "\<forall>t\<in>set after. task_ok t" using assms(4) by simp_all
  note st = laid_kept.exec_tasks_refine [OF f(1) before, folded assms(5)]
  obtain p where p: "map_of (Params cfg) ''path'' = Some p" "fs_mailPath f = getMailPath p"
    using file_New_config [OF assms(2)] by auto
  note f' = file_reopen_laid [OF conjunct1 [OF st] assms(7,6) p assms(8)]
  have "laid.view f' = laid.view st" by (simp add: laid.view_def f'(2) fun_eq_iff)
  moreover have "laid.view f = (\<lambda>mb. [])" by (simp add: laid.view_def f(2) fun_eq_iff)
  ultimately have "laid.view f' = fold (spec_task (MailboxMsgCap cfg)) before (\<lambda>mb. [])" using st by simp
  with file_tasks(2) [OF f'(1) after] mem_tasks [OF assms(3,4)] show ?thesis by simp
qed

subsection \<open>Examples\<close>

definition example_tasks :: "task list" where
  [go_eval]: "example_tasks = [TOp (CAdd example_mail), TScan 100 95, TOp (CAdd example_mail)]"

lemma example_tasks_ok: "\<forall>t\<in>set example_tasks. task_ok t"
  by (simp add: example_tasks_def example_mail_def)

theorem stores_agree_with_scans_witness:
  "\<exists>s. mem_New 0 None = Some s
    \<and> listing_of file_ops (fold (exec_task file_ops file_VisitMailboxes) example_tasks example_disk) ''bob''
      = listing_of mem_ops (fold (exec_task mem_ops mem_VisitMailboxes) example_tasks s) ''bob''"
proof -
  obtain s where s: "mem_New 0 None = Some s" by (simp add: go_eval)
  then have "mem_New (MailboxMsgCap example_disk_config) None = Some s" by (simp add: example_disk_config_def)
  with s stores_agree_with_scans [OF example_env example_disk_New _ example_tasks_ok] show ?thesis by blast
qed

definition example_disk2 :: fstore where
  "example_disk2 = fold (exec_task file_ops file_VisitMailboxes) example_tasks example_disk"

theorem file_scan_deletes_expired_witness:
  "\<exists>err st' sc. DoScan file_ops file_VisitMailboxes 100 90 [] example_disk2 = (err, st', sc) \<and> err = None
    \<and> (\<forall>n. file_abs st' n = filter (\<lambda>m. 10 \<le> sDate m) (file_abs example_disk2 n))"
proof -
  obtain err st' sc where d: "DoScan file_ops file_VisitMailboxes 100 90 [] example_disk2 = (err, st', sc)"
    by (metis prod_cases3)
  with file_scan_deletes_expired [OF example_env example_disk_New example_tasks_ok example_disk2_def d] show ?thesis by simp
qed

theorem file_dirs_lead_to_mail_witness:
  "set (fdirs (fs_world example_disk2)) = insert [fs_mailPath example_disk2]
    {d. d \<noteq> [] \<and> (\<exists>mb. file_abs example_disk2 mb \<noteq> [] \<and> prefix d (fb_path (fs_mbox example_disk2 mb)))}"
  by (rule file_dirs_lead_to_mail [OF example_env example_disk_New example_tasks_ok example_disk2_def])

theorem restart_with_scans_witness:
  "\<exists>s f'. mem_New 0 None = Some s
    \<and> file_New example_disk_config (fs_world example_disk2) (\<lambda>x. ''sha'' @ x) (example_clock ''b'') 0 = Ok f'
    \<and> listing_of file_ops (fold (exec_task file_ops file_VisitMailboxes) example_tasks f') ''bob''
      = listing_of mem_ops (fold (exec_task mem_ops mem_VisitMailboxes) (example_tasks @ example_tasks) s) ''bob''"
proof -
  obtain s where s: "mem_New 0 None = Some s" by (simp add: go_eval)
  then have s': "mem_New (MailboxMsgCap example_disk_config) None = Some s" by (simp add: example_disk_config_def)
  note st = file_tasks(1) [OF file_New_layout(1) [OF example_disk_New example_env] example_tasks_ok, folded example_disk2_def]
  have p: "map_of (Params example_disk_config) ''path'' = Some ''/d''" by (simp add: example_disk_config_def)
  have "fs_mailPath example_disk2 = getMailPath ''/d''"
    using file_laid_cappedD(1) [OF st] by (simp add: file_capped_def example_disk_def getMailPath_def)
  from file_New_again [OF file_ok_base [OF file_laid_cappedD(4) [OF st]] p this]
  obtain f' where f': "file_New example_disk_config (fs_world example_disk2) (\<lambda>x. ''sha'' @ x) (example_clock ''b'') 0 = Ok f'"
    by blast
  have "later_clock (example_clock ''a'') (example_clock ''b'')" by (simp add: later_clock_def example_clock_def)
  moreover have "\<forall>t\<in>set (example_tasks @ example_tasks). task_ok t" using example_tasks_ok by simp
  ultimately have "listing_of file_ops (fold (exec_task file_ops file_VisitMailboxes) example_tasks f') ''bob''
      = listing_of mem_ops (fold (exec_task mem_ops mem_VisitMailboxes) (example_tasks @ example_tasks) s) ''bob''"
    using restart_with_scans [OF example_env example_disk_New s' _ example_disk2_def example_env f'] by blast
  with s f' show ?thesis by blast
qed

end
