(* ===== verification/MboxCommand.thy ===== *)
theory MboxCommand
  imports ClientProps
begin

text \<open>
  The handles of \<open>pkg/rest/client/apiv1_client.go\<close>, headers and messages that know their client, and
  the command \<open>mbox\<close> of \<open>cmd/client/mbox.go\<close> with its flag to delete, from the client through the routes
  and handlers of the server down to the store: it prints every message of a mailbox and empties it.
\<close>

subsection \<open>Handles\<close>

record 'w MessageHeader =
  mh_header :: JSONMessageHeaderV1
  mh_client :: "'w restClient"

record 'w ClientMessage =
  cm_message :: JSONMessageV1
  cm_client :: "'w restClient"

definition ListMailbox :: "'w restClient \<Rightarrow> string \<Rightarrow> 'w \<Rightarrow> (client_error, 'w MessageHeader list) result \<times> 'w" where
  [go_eval]: "ListMailbox c name w =
     (case client_ListMailbox c name w of
        (Inl err, w) \<Rightarrow> (Err err, w)
      | (Inr headers, w) \<Rightarrow> (Ok (map (\<lambda>h. \<lparr>mh_header = h, mh_client = c\<rparr>) headers), w))"

definition GetClientMessage :: "'w restClient \<Rightarrow> string \<Rightarrow> string \<Rightarrow> 'w \<Rightarrow> (client_error, 'w ClientMessage) result \<times> 'w" where
  [go_eval]: "GetClientMessage c name i w =
     (case client_GetMessage c name i w of
        (Inl err, w) \<Rightarrow> (Err err, w)
      | (Inr message, w) \<Rightarrow> (Ok \<lparr>cm_message = message, cm_client = c\<rparr>, w))"

definition header_GetMessage :: "'w MessageHeader \<Rightarrow> 'w \<Rightarrow> (client_error, 'w ClientMessage) result \<times> 'w" where
  [go_eval]: "header_GetMessage h = GetClientMessage (mh_client h) (jMailbox (mh_header h)) (jID (mh_header h))"

definition header_GetSource :: "(json \<Rightarrow> string) \<Rightarrow> 'w MessageHeader \<Rightarrow> 'w \<Rightarrow> (client_error, string) result \<times> 'w" where
  [go_eval]: "header_GetSource json_text h =
     client_GetMessageSource json_text (mh_client h) (jMailbox (mh_header h)) (jID (mh_header h))"

definition header_Delete :: "'w MessageHeader \<Rightarrow> 'w \<Rightarrow> (client_error, unit) result \<times> 'w" where
  [go_eval]: "header_Delete h = client_DeleteMessage (mh_client h) (jMailbox (mh_header h)) (jID (mh_header h))"

definition message_GetSource :: "(json \<Rightarrow> string) \<Rightarrow> 'w ClientMessage \<Rightarrow> 'w \<Rightarrow> (client_error, string) result \<times> 'w" where
  [go_eval]: "message_GetSource json_text m =
     client_GetMessageSource json_text (cm_client m) (jMailbox (cm_message m)) (jID (cm_message m))"

definition message_Delete :: "'w ClientMessage \<Rightarrow> 'w \<Rightarrow> (client_error, unit) result \<times> 'w" where
  [go_eval]: "message_Delete m = client_DeleteMessage (cm_client m) (jMailbox (cm_message m)) (jID (cm_message m))"

text \<open>The deletions of the commands, which pass the client along, are those of the handles.\<close>

fun delete_handles :: "'w MessageHeader list \<Rightarrow> 'w \<Rightarrow> bool \<times> 'w" where
  "delete_handles [] w = (True, w)"
| "delete_handles (h # hs) w =
     (case header_Delete h w of (Inl e, w) \<Rightarrow> (False, w) | (Inr u, w) \<Rightarrow> delete_handles hs w)"

lemma delete_handles_eq:
  "delete_handles (map (\<lambda>h. \<lparr>mh_header = h, mh_client = c\<rparr>) hs) w = delete_headers c hs w"
  by (induction hs arbitrary: w) (auto simp: header_Delete_def split: prod.split sum.split)

subsection \<open>The source of a message over the server\<close>

text \<open>What the documentation of \<open>mux\<close> says of the template for a source.\<close>

definition mux_sources :: "(string \<Rightarrow> string \<Rightarrow> (string \<Rightarrow> string) option) \<Rightarrow> bool" where
  "mux_sources mux \<longleftrightarrow> (\<forall>n i. segment n \<and> segment i \<longrightarrow>
     (let path = ''/api/v1/mailbox/'' @ n @ ''/'' @ i @ ''/source'' in
      mux ''/api/v1/mailbox/{name}'' path = None \<and> mux ''/api/v1/mailbox/{name}/{id}'' path = None
      \<and> mux ''/api/v1/mailbox/{name}/{id}/source'' path
          = Some (\<lambda>v. if v = ''name'' then n else if v = ''id'' then i else [])))"

lemma PathUnescape_append: "PathUnescape x = Some y \<Longrightarrow> PathUnescape (x @ t) = map_option ((@) y) (PathUnescape t)"
proof (induction x arbitrary: y rule: PathUnescape.induct)
  case 1
  then show ?case by (simp add: option.map_ident)
next
  case (2 c s)
  show ?case
  proof (cases "c = CHR ''%''")
    case True
    with 2(3) obtain a b s' z where s: "s = a # b # s'" "is_hexdigit a \<and> is_hexdigit b" "PathUnescape s' = Some z"
        and y: "y = char_of (16 * hex_value a + hex_value b) # z"
      by (auto split: list.splits if_splits)
    from 2(1) [OF True s(1) refl s(2,3)] s y True show ?thesis by (simp add: option.map_comp comp_def)
  next
    case False
    with 2(3) obtain z where "PathUnescape s = Some z" "y = c # z" by auto
    with 2(2) [OF False this(1)] False show ?thesis by (simp add: option.map_comp comp_def)
  qed
qed

lemma source_path:
  assumes "plain_name s" and "plain_id i"
  shows "JoinPath [] (message_uri s i @ ''/source'') = message_uri s i @ ''/source''"
    and "PathUnescape (message_uri s i @ ''/source'') = Some (''/api/v1/mailbox/'' @ s @ ''/'' @ i @ ''/source'')"
proof -
  note q = escaped_clean [OF assms(1)]
  have i: "clean_segment i" "PathUnescape i = Some i" using assms(2) by (simp_all add: plain_id_def)
  have src: "clean_segment ''source''" by (simp add: go_eval)
  have "Split (i @ CHR ''/'' # ''source'') (CHR ''/'') = [i, ''source'']"
    using i(1) by (simp add: clean_segment_def segment_def Split_append Split_no_sep)
  then have "Split (QueryEscape s @ CHR ''/'' # i @ ''/source'') (CHR ''/'') = [QueryEscape s, i, ''source'']"
    using q by (simp add: clean_segment_def segment_def Split_append)
  from JoinPath_api [OF this] q i(1) src show "JoinPath [] (message_uri s i @ ''/source'') = message_uri s i @ ''/source''"
    by (simp add: message_uri_def mailbox_uri_def)
  have "PathUnescape ''/source'' = Some ''/source''" by simp
  with PathUnescape_append [OF i(2), of "''/source''"]
  show "PathUnescape (message_uri s i @ ''/source'') = Some (''/api/v1/mailbox/'' @ s @ ''/'' @ i @ ''/source'')"
    using PathUnescape_QueryEscape [of s "CHR ''/'' # i @ ''/source''"] plain_name_map [OF assms(1)]
    by (simp add: message_uri_def mailbox_uri_def)
qed

lemma source_call:
  assumes "mux_sources (api_mux a)" and "plain_name n" and "plain_id i"
    and "MailboxSourceV1 ((api_ctx a)\<lparr>Vars := (\<lambda>v. if v = ''name'' then n else if v = ''id'' then i else [])\<rparr>) st
      = (Reply (Data t r), st')"
  shows "client_GetMessageSource json_text (client_of a) n i st = (Ok r, st')"
proof -
  have "segment n" "segment i" using assms(2,3) by (simp_all add: plain_name_def plain_id_def clean_segment_def)
  then have "find_route (api_mux a) SetupRoutes ''GET'' (''/api/v1/mailbox/'' @ n @ ''/'' @ i @ ''/source'')
      = Some (HSource, \<lambda>v. if v = ''name'' then n else if v = ''id'' then i else [])"
    using assms(1) unfolding mux_sources_def Let_def by (simp add: SetupRoutes_def)
  then show ?thesis using source_path [OF assms(2,3)] assms(4)
    by (simp add: client_GetMessageSource_def expect_ok_def client_do_def client_of_def serve_api_def run_handler_def ServeHTTP_def)
qed

context message_store
begin

lemma source_reply:
  assumes "inv st" and "mgStore (ctxManager ctx) = ops" and "MailboxForAddress (ctxManager ctx) (Vars ctx ''name'') = Ok mb"
    and "m \<in> set (abs st mb)" and "sID m = Vars ctx ''id''" and "sID m \<noteq> ''latest''" and "sSource m = Some src"
  obtains st' where "MailboxSourceV1 ctx st = (Reply (Data ''text/plain'' src), st')" and "inv st'" and "abs st' = abs st"
proof -
  obtain st' where g: "GetMessage ops st mb (sID m) = (Ok (Some m), st')"
  proof -
    obtain st' where g: "GetMessage ops st mb (sID m) = (Ok (Some m), st')"
      using get_one_found [OF assms(1,4,6)] by blast
    then show thesis by (rule that)
  qed
  show ?thesis
  proof (rule that)
    show "MailboxSourceV1 ctx st = (Reply (Data ''text/plain'' src), st')"
      using g assms(2,3,5,7) by (simp add: MailboxSourceV1_def at_mailbox_def SourceReader_def)
    show "inv st'" "abs st' = abs st" using inv_get_one [OF assms(1) g] by simp_all
  qed
qed

end

subsection \<open>The command\<close>

text \<open>
  What is asked of the mailbox \<open>mb\<close>: its name is one that the policy gives to itself, its ids can stand
  in a path and are not the name of the latest message, and the sources can be read.
\<close>

definition printable :: "('hdr, 'env, 'st) api \<Rightarrow> string \<Rightarrow> message list \<Rightarrow> bool" where
  [go_eval]: "printable a mb ms \<longleftrightarrow> plain_name mb \<and> MailboxForAddress (ctxManager (api_ctx a)) mb = Ok mb
     \<and> (\<forall>m\<in>set ms. plain_id (sID m) \<and> sID m \<noteq> ''latest'' \<and> sSource m \<noteq> None)"

definition mbox_text :: "string \<Rightarrow> message list \<Rightarrow> printed list" where
  [go_eval]: "mbox_text mb ms =
     concat (map (\<lambda>m. [Line (''From '' @ jFrom (header_of mb (MakeMetadata m))), Line (the (sSource m))]) ms)"

lemma header_of_ids: "jMailbox (header_of mb (MakeMetadata m)) = mb" "jID (header_of mb (MakeMetadata m)) = sID m"
  by (simp_all add: header_of_def MakeMetadata_def)

context message_store
begin

lemma outputMbox_all:
  assumes "inv st" and "mgStore (ctxManager (api_ctx a)) = ops" and "mux_sources (api_mux a)"
    and "printable a mb (abs st mb)" and "set ms \<subseteq> set (abs st mb)"
  shows "\<exists>st'. outputMbox json_text (client_of a) (map (\<lambda>m. header_of mb (MakeMetadata m)) ms) st = (True, mbox_text mb ms, st')
    \<and> inv st' \<and> abs st' = abs st"
  using assms(1,4,5)
proof (induction ms arbitrary: st)
  case Nil
  then show ?case by (simp add: mbox_text_def)
next
  case (Cons m ms)
  let ?ctx = "(api_ctx a)\<lparr>Vars := (\<lambda>v. if v = ''name'' then mb else if v = ''id'' then sID m else [])\<rparr>"
  have m: "m \<in> set (abs st mb)" using Cons.prems(3) by simp
  then obtain src where src: "sSource m = Some src" using Cons.prems(2) by (auto simp: printable_def)
  have p: "plain_name mb" "plain_id (sID m)" "sID m \<noteq> ''latest''" "MailboxForAddress (ctxManager ?ctx) (Vars ?ctx ''name'') = Ok mb"
    using Cons.prems(2) m by (simp_all add: printable_def)
  obtain st1 where r: "MailboxSourceV1 ?ctx st = (Reply (Data ''text/plain'' src), st1)" and st1: "inv st1" "abs st1 = abs st"
    by (rule source_reply [OF Cons.prems(1) _ p(4) m _ p(3) src]) (simp_all add: assms(2))
  have one: "client_GetMessageSource json_text (client_of a) mb (sID m) st = (Ok src, st1)"
    by (rule source_call [OF assms(3) p(1,2) r])
  obtain st2 where "outputMbox json_text (client_of a) (map (\<lambda>m. header_of mb (MakeMetadata m)) ms) st1 = (True, mbox_text mb ms, st2)"
      "inv st2" "abs st2 = abs st"
    using Cons.IH [OF st1(1)] st1(2) Cons.prems(2,3) by auto
  then show ?case using one src by (simp add: header_of_ids mbox_text_def)
qed

lemma delete_headers_all:
  assumes "inv st" and "mgStore (ctxManager (api_ctx a)) = ops" and "mux_documented (api_mux a)"
    and "printable a mb ms" and "abs st mb = ms"
  shows "\<exists>st'. delete_headers (client_of a) (map (\<lambda>m. header_of mb (MakeMetadata m)) ms) st = (True, st')
    \<and> abs st' = (abs st)(mb := [])"
  using assms(1,4,5)
proof (induction ms arbitrary: st)
  case Nil
  then show ?case by auto
next
  case (Cons m ms)
  let ?ctx = "(api_ctx a)\<lparr>Vars := (\<lambda>v. if v = ''name'' then mb else if v = ''id'' then sID m else [])\<rparr>"
  have p: "plain_name mb" "plain_id (sID m)" "MailboxForAddress (ctxManager ?ctx) (Vars ?ctx ''name'') = Ok mb" "printable a mb ms"
    using Cons.prems(2) by (simp_all add: printable_def)
  obtain r st1 where d: "MailboxDeleteV1 ?ctx st = (r, st1)" by fastforce
  have r: "r = Reply (JSON JOK)" "inv st1" "abs st1 = (abs st)(mb := filter (\<lambda>x. sID x \<noteq> sID m) (abs st mb))"
    using delete_reply [OF Cons.prems(1) _ p(3) _ d] assms(2) Cons.prems(3) by simp_all
  have "filter (\<lambda>x. sID x \<noteq> sID m) (abs st mb) = ms"
    using ids_distinct [OF Cons.prems(1), of mb] Cons.prems(3) by (auto simp: image_iff intro!: filter_True)
  with r(3) have "abs st1 mb = ms" "abs st1 = (abs st)(mb := ms)" by simp_all
  moreover have "client_DeleteMessage (client_of a) mb (sID m) st = (Ok (), st1)"
    by (rule delete_call [OF assms(3) p(1,2)]) (use d r(1) in simp)
  ultimately show ?case using Cons.IH [OF r(2) p(4)] by (auto simp: header_of_ids fun_eq_iff)
qed

end


lemma example_mux_sources: "mux_sources example_mux"
proof -
  have tpl: "Split ''/api/v1/mailbox/{name}'' (CHR ''/'') = [[], ''api'', ''v1'', ''mailbox'', ''{name}'']"
    "Split ''/api/v1/mailbox/{name}/{id}'' (CHR ''/'') = [[], ''api'', ''v1'', ''mailbox'', ''{name}'', ''{id}'']"
    "Split ''/api/v1/mailbox/{name}/{id}/source'' (CHR ''/'') = [[], ''api'', ''v1'', ''mailbox'', ''{name}'', ''{id}'', ''source'']"
    by simp_all
  have path: "Split (''/api/v1/mailbox/'' @ n @ ''/'' @ i @ ''/source'') (CHR ''/'') = [[], ''api'', ''v1'', ''mailbox'', n, i, ''source'']"
    if "segment n" "segment i" for n i
  proof -
    have "Split (i @ CHR ''/'' # ''source'') (CHR ''/'') = [i, ''source'']"
      using that(2) by (simp add: segment_def Split_append Split_no_sep)
    then show ?thesis unfolding Split_api using that(1) Split_append [of "CHR ''/''" n "i @ ''/source''"] by (simp add: segment_def)
  qed
  have "example_mux ''/api/v1/mailbox/{name}'' (''/api/v1/mailbox/'' @ n @ ''/'' @ i @ ''/source'') = None"
    "example_mux ''/api/v1/mailbox/{name}/{id}'' (''/api/v1/mailbox/'' @ n @ ''/'' @ i @ ''/source'') = None"
    "example_mux ''/api/v1/mailbox/{name}/{id}/source'' (''/api/v1/mailbox/'' @ n @ ''/'' @ i @ ''/source'')
      = Some (\<lambda>v. if v = ''name'' then n else if v = ''id'' then i else [])"
    if "segment n" "segment i" for n i
    unfolding example_mux_def tpl path [OF that] using that by (simp_all add: segment_def fun_eq_iff)
  then show ?thesis unfolding mux_sources_def Let_def by blast
qed


end
