(* ===== verification/Metrics.thy ===== *)
theory Metrics
  imports Services
begin

text \<open>
  The goroutine of \<open>pkg/metric/metric.go\<close> that calls the registered functions once a minute, and the two
  functions of the program: those of \<open>pkg/server/smtp/listener.go\<close> and \<open>pkg/storage/retention.go\<close>, which
  push the totals to the histories of the charts. Every chart shows its last 61 samples.
\<close>

text \<open>What the goroutine meets: a tick, a function from \<open>AddTickerFunc\<close>, and what the program does in between.\<close>

datatype 'w ticker_event = Minute | TickerFunc "'w \<Rightarrow> 'w" | Meanwhile "'w \<Rightarrow> 'w"

definition AddTickerFunc :: "('w \<Rightarrow> 'w) \<Rightarrow> 'w ticker_event" where
  [go_eval]: "AddTickerFunc f = TickerFunc f"

fun metricsTicker :: "'w ticker_event list \<Rightarrow> ('w \<Rightarrow> 'w) list \<Rightarrow> 'w \<Rightarrow> 'w" where
  "metricsTicker [] funcs w = w"
| "metricsTicker (Minute # evs) funcs w = metricsTicker evs funcs (foldl (\<lambda>w f. f w) w funcs)"
| "metricsTicker (TickerFunc f # evs) funcs w = metricsTicker evs (funcs @ [f]) w"
| "metricsTicker (Meanwhile g # evs) funcs w = metricsTicker evs funcs (g w)"

text \<open>A total, the list of its history and the string that is published.\<close>

record chart =
  ch_total :: int
  ch_history :: "string list"
  ch_shown :: string

definition chart_push :: "chart \<Rightarrow> chart" where
  [go_eval]: "chart_push c = (let (s, h) = Push (ch_history c) (Itoa (ch_total c)) in c\<lparr>ch_history := h, ch_shown := s\<rparr>)"

record program_charts =
  expReceived :: chart
  expConnects :: chart
  expErrors :: chart
  expWarns :: chart
  expRetentionDeletes :: chart
  expRetained :: chart
  expSize :: chart

definition smtp_tick :: "program_charts \<Rightarrow> program_charts" where
  [go_eval]: "smtp_tick w = w\<lparr>expReceived := chart_push (expReceived w), expConnects := chart_push (expConnects w),
     expErrors := chart_push (expErrors w), expWarns := chart_push (expWarns w)\<rparr>"

definition storage_tick :: "program_charts \<Rightarrow> program_charts" where
  [go_eval]: "storage_tick w = w\<lparr>expRetentionDeletes := chart_push (expRetentionDeletes w),
     expRetained := chart_push (expRetained w), expSize := chart_push (expSize w)\<rparr>"

subsection \<open>The last hour\<close>

lemma chart_push_history: "ch_history (chart_push c) = snd (Push (ch_history c) (Itoa (ch_total c)))"
  by (simp add: chart_push_def split: prod.split)

lemma Push_joined: "fst (Push h ev) = Join (snd (Push h ev)) '',''"
  by (simp add: Push_def Let_def)

lemma Push_bounded: "length h \<le> 61 \<Longrightarrow> length (snd (Push h ev)) \<le> 61"
  by (auto simp: Push_def Let_def)

text \<open>A chart that is pushed at every tick: \<open>get\<close> selects it, and nothing else touches its history.\<close>

fun samples :: "('w \<Rightarrow> chart) \<Rightarrow> 'w ticker_event list \<Rightarrow> ('w \<Rightarrow> 'w) list \<Rightarrow> 'w \<Rightarrow> string list" where
  "samples get [] funcs w = []"
| "samples get (Minute # evs) funcs w = Itoa (ch_total (get w)) # samples get evs funcs (foldl (\<lambda>w f. f w) w funcs)"
| "samples get (TickerFunc f # evs) funcs w = samples get evs (funcs @ [f]) w"
| "samples get (Meanwhile g # evs) funcs w = samples get evs funcs (g w)"

lemma chart_samples:
  assumes "\<And>w. get (foldl (\<lambda>w f. f w) w funcs) = chart_push (get w)"
    and "\<forall>ev\<in>set evs. case ev of Minute \<Rightarrow> True | TickerFunc f \<Rightarrow> \<forall>w. get (f w) = get w
           | Meanwhile g \<Rightarrow> \<forall>w. ch_history (get (g w)) = ch_history (get w)"
    and "length (ch_history (get w)) \<le> 61"
  shows "ch_history (get (metricsTicker evs funcs w))
    = drop (length (ch_history (get w) @ samples get evs funcs w) - 61) (ch_history (get w) @ samples get evs funcs w)"
proof -
  have "ch_history (get (metricsTicker evs funcs w)) = foldl (\<lambda>h ev. snd (Push h ev)) (ch_history (get w)) (samples get evs funcs w)"
    using assms(1,2)
  proof (induction evs arbitrary: w funcs)
    case (Cons ev evs)
    show ?case
    proof (cases ev)
      case Minute
      with Cons show ?thesis by (simp add: chart_push_history)
    next
      case (TickerFunc f)
      have "get (foldl (\<lambda>w f. f w) w (funcs @ [f])) = chart_push (get w)" for w using Cons.prems TickerFunc by simp
      with Cons TickerFunc show ?thesis by simp
    next
      case (Meanwhile g)
      with Cons show ?thesis by simp
    qed
  qed simp
  then show ?thesis using Push_history [OF assms(3)] by simp
qed

text \<open>
  Once both functions of the program are registered, the chart of the received messages holds after any number of
  ticks the last 61 samples of the total, each taken at its tick, whatever functions are added later and whatever the
  program counts in between. The same holds of the size of the retained mail.
\<close>
theorem charts_show_last_hour:
  assumes quiet: "\<forall>ev\<in>set evs. case ev of Minute \<Rightarrow> True
      | TickerFunc f \<Rightarrow> \<forall>w. expReceived (f w) = expReceived w \<and> expSize (f w) = expSize w
      | Meanwhile g \<Rightarrow> \<forall>w. ch_history (expReceived (g w)) = ch_history (expReceived w)
          \<and> ch_history (expSize (g w)) = ch_history (expSize w)"
    and new: "ch_history (expReceived w) = []" "ch_history (expSize w) = []"
    and w': "w' = metricsTicker (AddTickerFunc smtp_tick # AddTickerFunc storage_tick # evs) [] w"
    and xs: "xs = samples expReceived evs [smtp_tick, storage_tick] w" and ys: "ys = samples expSize evs [smtp_tick, storage_tick] w"
  shows "ch_history (expReceived w') = drop (length xs - 61) xs \<and> ch_history (expSize w') = drop (length ys - 61) ys"
proof -
  have 1: "expReceived (foldl (\<lambda>w f. f w) w [smtp_tick, storage_tick]) = chart_push (expReceived w)"
    and 2: "expSize (foldl (\<lambda>w f. f w) w [smtp_tick, storage_tick]) = chart_push (expSize w)" for w
    by (simp_all add: smtp_tick_def storage_tick_def)
  have q1: "\<forall>ev\<in>set evs. case ev of Minute \<Rightarrow> True | TickerFunc f \<Rightarrow> \<forall>w. expReceived (f w) = expReceived w
      | Meanwhile g \<Rightarrow> \<forall>w. ch_history (expReceived (g w)) = ch_history (expReceived w)"
    and q2: "\<forall>ev\<in>set evs. case ev of Minute \<Rightarrow> True | TickerFunc f \<Rightarrow> \<forall>w. expSize (f w) = expSize w
      | Meanwhile g \<Rightarrow> \<forall>w. ch_history (expSize (g w)) = ch_history (expSize w)"
    using quiet by (simp_all split: ticker_event.splits)
  have "w' = metricsTicker evs [smtp_tick, storage_tick] w" using w' by (simp add: AddTickerFunc_def)
  with chart_samples [where get = expReceived, OF 1 q1, of w] chart_samples [where get = expSize, OF 2 q2, of w] new
  show ?thesis by (simp add: xs ys)
qed

definition example_charts :: program_charts where
  [go_eval]: "example_charts = (let c = \<lparr>ch_total = 0, ch_history = [], ch_shown = []\<rparr> in
     \<lparr>expReceived = c, expConnects = c, expErrors = c, expWarns = c, expRetentionDeletes = c, expRetained = c, expSize = c\<rparr>)"

definition count_mail :: "program_charts \<Rightarrow> program_charts" where
  [go_eval]: "count_mail w = w\<lparr>expReceived := (expReceived w)\<lparr>ch_total := ch_total (expReceived w) + 1\<rparr>\<rparr>"

theorem charts_show_last_hour_witness:
  "ch_history (expReceived (metricsTicker
     (AddTickerFunc smtp_tick # AddTickerFunc storage_tick # [Minute, Meanwhile count_mail, Minute]) [] example_charts)) = [''0'', ''1'']"
proof -
  have "\<forall>ev\<in>set [Minute, Meanwhile count_mail, Minute]. case ev of Minute \<Rightarrow> True
      | TickerFunc f \<Rightarrow> \<forall>w. expReceived (f w) = expReceived w \<and> expSize (f w) = expSize w
      | Meanwhile g \<Rightarrow> \<forall>w. ch_history (expReceived (g w)) = ch_history (expReceived w)
          \<and> ch_history (expSize (g w)) = ch_history (expSize w)"
    by (simp add: count_mail_def)
  from charts_show_last_hour [OF this _ _ refl refl refl, of example_charts] show ?thesis by (simp add: go_eval)
qed

end
