(* ===== verification/TestListener.thy ===== *)
theory TestListener
  imports Events
begin

text \<open>
  \<open>AsyncTestListener\<close> of \<open>pkg/extension/async_broker.go\<close>: a listener whose goroutines send the
  events to a buffered channel, and the function that waits for one of them. \<open>None\<close> is a panic: a
  send on the closed channel, by a goroutine that comes late or that the \<open>close\<close> finds blocked, and
  a second \<open>close\<close>.
\<close>

record 'e test_listener =
  tl_capacity :: nat
  tl_count :: nat
  tl_events :: "'e list"
  tl_senders :: "'e list"
  tl_closed :: bool

definition AsyncTestListener :: "'l AsyncEventBroker \<Rightarrow> string \<Rightarrow> 'l \<Rightarrow> nat \<Rightarrow> 'l AsyncEventBroker \<times> 'e test_listener" where
  [go_eval]: "AsyncTestListener eb name l capacity =
     (Async_AddListener eb name l,
      \<lparr>tl_capacity = capacity, tl_count = 0, tl_events = [], tl_senders = [], tl_closed = False\<rparr>)"

text \<open>The goroutine of an event: it sends, or joins the blocked senders of a full channel.\<close>

definition tl_send :: "'e \<Rightarrow> 'e test_listener \<Rightarrow> 'e test_listener option" where
  [go_eval]: "tl_send msg ch =
     (if tl_closed ch then None
      else if length (tl_events ch) < tl_capacity ch then Some (ch\<lparr>tl_events := tl_events ch @ [msg]\<rparr>)
      else Some (ch\<lparr>tl_senders := tl_senders ch @ [msg]\<rparr>))"

fun tl_sends :: "'e list \<Rightarrow> 'e test_listener \<Rightarrow> 'e test_listener option" where
  "tl_sends [] ch = Some ch"
| "tl_sends (msg # msgs) ch = (case tl_send msg ch of None \<Rightarrow> None | Some ch \<Rightarrow> tl_sends msgs ch)"

text \<open>A receive takes the oldest event and lets the first blocked sender into the buffer.\<close>

definition tl_receive :: "'e test_listener \<Rightarrow> ('e \<times> 'e test_listener) option" where
  [go_eval]: "tl_receive ch =
     (case tl_events ch @ tl_senders ch of
        [] \<Rightarrow> None
      | ev # rest \<Rightarrow> Some (ev, ch\<lparr>tl_events := take (tl_capacity ch) rest, tl_senders := drop (tl_capacity ch) rest\<rparr>))"

text \<open>
  The returned function: \<open>None\<close> for the event is the timeout, which \<open>select\<close> takes when there is no
  event, and may take (\<open>fires\<close>) when the timer is ready as well. The deferred function runs last.
\<close>

definition tl_call :: "bool \<Rightarrow> string \<Rightarrow> 'l AsyncEventBroker \<Rightarrow> 'e test_listener
    \<Rightarrow> ('e option \<times> 'l AsyncEventBroker \<times> 'e test_listener) option" where
  [go_eval]: "tl_call fires name eb ch =
     (let ch = ch\<lparr>tl_count := Suc (tl_count ch)\<rparr>;
          (r, ch) = (if tl_closed ch then (None, ch)
                     else case tl_receive ch of
                       None \<Rightarrow> (None, ch)
                     | Some (ev, ch') \<Rightarrow> if fires then (None, ch) else (Some ev, ch'))
      in if tl_count ch \<ge> tl_capacity ch
         then if tl_closed ch \<or> tl_senders ch \<noteq> [] then None
              else Some (r, Async_RemoveListener eb name, ch\<lparr>tl_closed := True\<rparr>)
         else Some (r, eb, ch))"

fun tl_calls :: "nat \<Rightarrow> string \<Rightarrow> 'l AsyncEventBroker \<Rightarrow> 'e test_listener
    \<Rightarrow> ('e option list \<times> 'l AsyncEventBroker \<times> 'e test_listener) option" where
  "tl_calls 0 name eb ch = Some ([], eb, ch)"
| "tl_calls (Suc n) name eb ch =
     (case tl_call False name eb ch of
        None \<Rightarrow> None
      | Some (r, eb, ch) \<Rightarrow>
          (case tl_calls n name eb ch of None \<Rightarrow> None | Some (rs, eb, ch) \<Rightarrow> Some (r # rs, eb, ch)))"

subsection \<open>What it delivers\<close>

text \<open>The state with the events \<open>q\<close> under way and \<open>k\<close> calls done.\<close>

definition tl_state :: "nat \<Rightarrow> nat \<Rightarrow> 'e list \<Rightarrow> bool \<Rightarrow> 'e test_listener" where
  "tl_state capacity k q closed =
     \<lparr>tl_capacity = capacity, tl_count = k, tl_events = take capacity q, tl_senders = drop capacity q, tl_closed = closed\<rparr>"

lemma tl_sends_state: "tl_sends evs (tl_state capacity k q False) = Some (tl_state capacity k (q @ evs) False)"
proof (induction evs arbitrary: q)
  case (Cons ev evs)
  have "tl_send ev (tl_state capacity k q False) = Some (tl_state capacity k (q @ [ev]) False)"
    by (simp add: tl_send_def tl_state_def)
  with Cons [of "q @ [ev]"] show ?case by simp
qed simp

lemma tl_new: "snd (AsyncTestListener eb name l capacity) = tl_state capacity 0 [] False"
  by (simp add: AsyncTestListener_def tl_state_def)

lemma tl_call_state:
  "tl_call False name eb (tl_state capacity k q False) =
    (if Suc k < capacity then Some (case q of [] \<Rightarrow> None | ev # _ \<Rightarrow> Some ev, eb, tl_state capacity (Suc k) (tl q) False)
     else if length (tl q) \<le> capacity
     then Some (case q of [] \<Rightarrow> None | ev # _ \<Rightarrow> Some ev, Async_RemoveListener eb name, tl_state capacity (Suc k) (tl q) True)
     else None)"
  by (cases q) (auto simp: tl_call_def tl_state_def tl_receive_def)

lemma tl_calls_state:
  assumes "k + n = capacity" and "0 < n"
  shows "tl_calls n name eb (tl_state capacity k q False) =
    (if length q \<le> n + capacity
     then Some (map Some (take n q) @ replicate (n - length q) None, Async_RemoveListener eb name,
       tl_state capacity capacity (drop n q) True)
     else None)"
  using assms
proof (induction n arbitrary: k q)
  case (Suc n)
  show ?case
  proof (cases "n = 0")
    case True
    with Suc.prems show ?thesis by (cases q) (auto simp: tl_call_state)
  next
    case False
    then have "Suc k < capacity" using Suc.prems(1) by simp
    with Suc.IH [of "Suc k" "tl q"] Suc.prems False show ?thesis
      by (cases q) (auto simp: tl_call_state)
  qed
qed simp

text \<open>
  C35: a test listener of capacity \<open>n\<close> to which the events \<open>evs\<close> are sent before its \<open>n\<close> calls returns
  them in the order of the sends, times out for each one missing, and is removed with the last
  call; what it is sent afterwards ends the process with a panic, as do more than \<open>2 n\<close> events.
\<close>
theorem test_listener_receives:
  fixes evs :: "'e list" and ev :: 'e
  assumes "0 < n"
  shows "Option.bind (tl_sends evs (snd (AsyncTestListener eb name l n))) (tl_calls n name (Async_AddListener eb name l))
    = (if length evs \<le> 2 * n
       then Some (map Some (take n evs) @ replicate (n - length evs) None,
         Async_RemoveListener (Async_AddListener eb name l) name, tl_state n n (drop n evs) True)
       else None)
    \<and> tl_send ev (tl_state n k q True) = None"
  using tl_calls_state [of 0 n n name "Async_AddListener eb name l" evs] assms tl_sends_state [of evs n 0 "[]"]
  by (simp_all add: tl_new tl_send_def tl_state_def del: tl_sends.simps)

theorem test_listener_receives_witness:
  "Option.bind (tl_sends [7, 8 :: nat] (snd (AsyncTestListener empty_async ''t'' (0 :: nat) 2)))
      (tl_calls 2 ''t'' (Async_AddListener empty_async ''t'' (0 :: nat)))
    = Some ([Some 7, Some 8], Async_RemoveListener (Async_AddListener empty_async ''t'' 0) ''t'', tl_state 2 2 [] True)"
  using test_listener_receives [of 2 "[7, 8 :: nat]" empty_async "''t''" "0 :: nat" 9 0 "[]"] by (simp del: tl_sends.simps)

end
