(* ===== verification/TestSuite.thy ===== *)
theory TestSuite
  imports TestListener FileVisit
begin

text \<open>
  \<open>pkg/test/storage_suite.go\<close> and \<open>storage_helpers.go\<close>: the conformance suite that every
  implementation of \<open>storage.Store\<close> has to pass, as programs over the method table of a store. A
  test runs on a state and has a result, or none when it was ended by \<open>Fatal\<close> or a panic; the flag
  beside the state is set by every failure. What \<open>time.Now()\<close> answers in the course of a test and
  the order in which the goroutines of events arrive are arguments. The suite passes on every store
  with the contract \<open>suite_store\<close>, of which the memory store and the file store are instances.
\<close>

subsection \<open>Tests\<close>

type_synonym ('st, 'a) testing = "bool \<times> 'st \<Rightarrow> 'a option \<times> bool \<times> 'st"

definition t_return :: "'a \<Rightarrow> ('st, 'a) testing" where
  "t_return x s = (Some x, s)"

definition t_bind :: "('st, 'a) testing \<Rightarrow> ('a \<Rightarrow> ('st, 'b) testing) \<Rightarrow> ('st, 'b) testing" where
  "t_bind m f s = (case m s of (None, s) \<Rightarrow> (None, s) | (Some x, s) \<Rightarrow> f x s)"

definition t_then :: "('st, 'a) testing \<Rightarrow> ('st, 'b) testing \<Rightarrow> ('st, 'b) testing" where
  "t_then m n = t_bind m (\<lambda>_. n)"

text \<open>\<open>Fatal\<close>, which a panic of the test amounts to as well, and \<open>Errorf\<close> when a check fails.\<close>

definition t_fatal :: "('st, 'a) testing" where
  "t_fatal s = (None, True, snd s)"

definition t_check :: "bool \<Rightarrow> ('st, unit) testing" where
  "t_check b s = (Some (), fst s \<or> \<not> b, snd s)"

definition t_run :: "('st \<Rightarrow> 'a \<times> 'st) \<Rightarrow> ('st, 'a) testing" where
  "t_run f s = (case f (snd s) of (r, st) \<Rightarrow> (Some r, fst s, st))"

definition t_get :: "('st \<Rightarrow> 'a) \<Rightarrow> ('st, 'a) testing" where
  "t_get g s = (Some (g (snd s)), s)"

fun t_ok :: "('e, 'a) result \<Rightarrow> ('st, 'a) testing" where
  "t_ok (Inl err) = t_fatal"
| "t_ok (Inr x) = t_return x"

fun t_some :: "'a option \<Rightarrow> ('st, 'a) testing" where
  "t_some None = t_fatal"
| "t_some (Some x) = t_return x"

fun t_noerr :: "'e option \<Rightarrow> ('st, unit) testing" where
  "t_noerr None = t_return ()"
| "t_noerr (Some err) = t_fatal"

definition passes :: "('st, unit) testing \<Rightarrow> 'st \<Rightarrow> bool" where
  "passes t st \<longleftrightarrow> \<not> fst (snd (t (False, st)))"

subsection \<open>The helpers\<close>

definition test_from :: address where
  "test_from = \<lparr>Name = ''Some B. Else'', Address = ''somebodyelse@host''\<rparr>"

definition test_to :: address where
  "test_to = \<lparr>Name = ''Some Body'', Address = ''somebody@host''\<rparr>"

definition test_meta :: "string \<Rightarrow> string \<Rightarrow> int \<Rightarrow> MessageMetadata" where
  "test_meta mailbox subject date =
     \<lparr>mdMailbox = mailbox, mdID = [], mdFrom = Some test_from, mdTo = [test_to], mdDate = date,
      mdSubject = subject, mdSize = 0, mdSeen = False\<rparr>"

definition test_msg :: "string \<Rightarrow> string" where
  "test_msg subject = ''To: '' @ Address test_to @ CRLF @ ''From: '' @ Address test_from @ CRLF
     @ ''Subject: '' @ subject @ CRLF @ CRLF @ ''Test Body'' @ CRLF"

definition DeliverToStore :: "'st Store \<Rightarrow> string \<Rightarrow> string \<Rightarrow> int \<Rightarrow> ('st, string \<times> int) testing" where
  "DeliverToStore ds mailbox subject date =
     t_bind (t_run (\<lambda>st. AddMessage ds st (Delivery (test_meta mailbox subject date) (test_msg subject))))
       (\<lambda>r. t_bind (t_ok r) (\<lambda>i. t_return (i, int (length (test_msg subject)))))"

definition GetAndCountMessages :: "'st Store \<Rightarrow> string \<Rightarrow> nat \<Rightarrow> ('st, message list) testing" where
  "GetAndCountMessages ds mailbox count =
     t_bind (t_run (\<lambda>st. GetMessages ds st mailbox))
       (\<lambda>r. t_bind (t_ok r) (\<lambda>msgs. t_then (t_check (length msgs = count)) (t_return msgs)))"

text \<open>\<open>GetMessage\<close> without an error; a nil message is dereferenced by every caller.\<close>

definition t_message :: "'st Store \<Rightarrow> string \<Rightarrow> string \<Rightarrow> ('st, message) testing" where
  "t_message ds mailbox i = t_bind (t_run (\<lambda>st. GetMessage ds st mailbox i)) (\<lambda>r. t_bind (t_ok r) t_some)"

text \<open>\<open>msgs[i]\<close>, and the loops that compare the subjects.\<close>

definition t_index :: "'a list \<Rightarrow> nat \<Rightarrow> ('st, 'a) testing" where
  "t_index xs i = (if i < length xs then t_return (xs ! i) else t_fatal)"

fun subjects_loop :: "message list \<Rightarrow> nat \<Rightarrow> string list \<Rightarrow> ('st, unit) testing" where
  "subjects_loop msgs i [] = t_return ()"
| "subjects_loop msgs i (want # wants) =
     t_bind (t_index msgs i) (\<lambda>m. t_then (t_check (sSubject m = want)) (subjects_loop msgs (Suc i) wants))"

fun deliver_subjects :: "'st Store \<Rightarrow> string \<Rightarrow> (nat \<Rightarrow> int) \<Rightarrow> nat \<Rightarrow> string list \<Rightarrow> ('st, (string \<times> int) list) testing" where
  "deliver_subjects ds mailbox now i [] = t_return []"
| "deliver_subjects ds mailbox now i (subj # subjs) =
     t_bind (DeliverToStore ds mailbox subj (now i))
       (\<lambda>r. t_bind (deliver_subjects ds mailbox now (Suc i) subjs) (\<lambda>rs. t_return (r # rs)))"

subsection \<open>The suite\<close>

definition one_person :: address where
  "one_person = \<lparr>Name = ''One Person'', Address = ''one@a.person.com''\<rparr>"

definition two_person :: address where
  "two_person = \<lparr>Name = ''Two Person'', Address = ''two@b.person.com''\<rparr>"

definition from_person :: address where
  "from_person = \<lparr>Name = ''From Person'', Address = ''from@person.com''\<rparr>"

definition suite_meta :: "address list \<Rightarrow> int \<Rightarrow> MessageMetadata" where
  "suite_meta to date =
     \<lparr>mdMailbox = ''testmailbox'', mdID = [], mdFrom = Some from_person, mdTo = to, mdDate = date,
      mdSubject = ''fantastic test subject line'', mdSize = 0, mdSeen = False\<rparr>"

text \<open>The comparison of the recipients one by one, when there are as many as expected.\<close>

fun to_loop :: "address list \<Rightarrow> address list \<Rightarrow> ('st, unit) testing" where
  "to_loop [] to = t_return ()"
| "to_loop (got # gots) to = t_bind (t_index to 0) (\<lambda>want. t_then (t_check (want = got)) (to_loop gots (drop 1 to)))"

definition testMetadata :: "'st Store \<Rightarrow> (nat \<Rightarrow> int) \<Rightarrow> ('st, unit) testing" where
  "testMetadata ds now =
     (let mailbox = ''testmailbox''; to = [one_person, two_person]; date = now 0; content = ''doesn't matter''
      in t_bind (t_run (\<lambda>st. AddMessage ds st (Delivery (suite_meta to date) content))) (\<lambda>r.
         t_bind (t_ok r) (\<lambda>i.
         if i = [] then t_fatal
         else
           t_bind (t_message ds mailbox i) (\<lambda>sm.
           t_then (t_check (sMailbox sm = mailbox))
           (t_then (t_check (sID sm = i))
           (t_bind (t_some (sFrom sm)) (\<lambda>from.
           t_then (t_check (from = from_person))
           (t_then (if length (sTo sm) \<noteq> length to then t_check False else to_loop (sTo sm) to)
           (t_then (t_check (sDate sm = date))
           (t_then (t_check (sSubject sm = ''fantastic test subject line''))
           (t_then (t_check (sSize sm = int (length content)))
           (t_check (\<not> sSeen sm)))))))))))))"

definition test_bytes :: string where
  "test_bytes = map (\<lambda>i. char_of (i mod 256)) [0..<5000]"

fun content_loop :: "nat \<Rightarrow> string \<Rightarrow> string \<Rightarrow> ('st, unit) testing" where
  "content_loop errors [] content = t_return ()"
| "content_loop errors (b # got) content =
     t_bind (t_index content 0) (\<lambda>c.
       let errors = (if b \<noteq> c then Suc errors else errors)
       in t_then (t_check (b = c)) (if errors > 5 then t_fatal else content_loop errors got (drop 1 content)))"

definition testContent :: "'st Store \<Rightarrow> (nat \<Rightarrow> int) \<Rightarrow> ('st, unit) testing" where
  "testContent ds now =
     t_bind (t_run (\<lambda>st. AddMessage ds st (Delivery (suite_meta [one_person] (now 0)) test_bytes))) (\<lambda>r.
     t_bind (t_ok r) (\<lambda>i.
     t_bind (t_message ds ''testmailbox'' i) (\<lambda>m.
     t_bind (t_some (sSource m)) (\<lambda>got.
     t_then (t_check (length got = length test_bytes)) (content_loop 0 got test_bytes)))))"

definition five_subjects :: "string list" where
  "five_subjects = [''alpha'', ''bravo'', ''charlie'', ''delta'', ''echo'']"

fun order_loop :: "'st Store \<Rightarrow> (nat \<Rightarrow> int) \<Rightarrow> nat \<Rightarrow> string list \<Rightarrow> ('st, unit) testing" where
  "order_loop ds now i [] = t_return ()"
| "order_loop ds now i (subj # subjs) =
     t_then (GetAndCountMessages ds ''fred'' i)
       (t_then (DeliverToStore ds ''fred'' subj (now i)) (order_loop ds now (Suc i) subjs))"

definition testDeliveryOrder :: "'st Store \<Rightarrow> (nat \<Rightarrow> int) \<Rightarrow> ('st, unit) testing" where
  "testDeliveryOrder ds now =
     t_then (order_loop ds now 0 five_subjects)
       (t_bind (GetAndCountMessages ds ''fred'' 5) (\<lambda>msgs. subjects_loop msgs 0 five_subjects))"

definition testLatest :: "'st Store \<Rightarrow> (nat \<Rightarrow> int) \<Rightarrow> ('st, unit) testing" where
  "testLatest ds now =
     t_then (deliver_subjects ds ''fred'' now 0 five_subjects)
       (t_bind (t_message ds ''fred'' ''latest'') (\<lambda>latest. t_check (sSubject latest = ''echo'')))"

definition testNaming :: "'st Store \<Rightarrow> (nat \<Rightarrow> int) \<Rightarrow> ('st, unit) testing" where
  "testNaming ds now =
     t_then (DeliverToStore ds ''fred@fish.net'' ''disk #27'' (now 0))
       (t_then (GetAndCountMessages ds ''fred'' 0)
         (t_then (GetAndCountMessages ds ''fred@fish.net'' 1) (t_return ())))"

fun size_loop :: "'st Store \<Rightarrow> (string \<times> int) list \<Rightarrow> ('st, unit) testing" where
  "size_loop ds [] = t_return ()"
| "size_loop ds ((i, want) # sent) =
     t_bind (t_message ds ''fred'' i) (\<lambda>msg. t_then (t_check (sSize msg = want)) (size_loop ds sent))"

definition testSize :: "'st Store \<Rightarrow> (nat \<Rightarrow> int) \<Rightarrow> ('st, unit) testing" where
  "testSize ds now =
     t_bind (deliver_subjects ds ''fred'' now 0 [''a'', ''br'', ''much longer than the others'']) (size_loop ds)"

definition testSeen :: "'st Store \<Rightarrow> (nat \<Rightarrow> int) \<Rightarrow> ('st, unit) testing" where
  "testSeen ds now =
     t_bind (DeliverToStore ds ''lisa'' ''whatever'' (now 0)) (\<lambda>(id1, _).
     t_bind (DeliverToStore ds ''lisa'' ''hello?'' (now 1)) (\<lambda>(id2, _).
     t_bind (t_message ds ''lisa'' id1) (\<lambda>msg. t_then (t_check (\<not> sSeen msg))
     (t_bind (t_run (\<lambda>st. MarkSeen ds st ''lisa'' id1)) (\<lambda>err. t_then (t_noerr err)
     (t_bind (t_message ds ''lisa'' id1) (\<lambda>msg. t_then (t_check (sSeen msg))
     (t_bind (t_message ds ''lisa'' id2) (\<lambda>msg. t_check (\<not> sSeen msg))))))))))"

text \<open>
  The events that a store has emitted are the list \<open>emitted\<close>; \<open>arrive\<close> is the order in which the
  goroutines of those since the registration of the listener run. The calls of the listener wait
  for them.
\<close>

type_synonym test_events = "unit AsyncEventBroker \<times> MessageMetadata test_listener"

definition t_listener :: "('st \<Rightarrow> MessageMetadata list) \<Rightarrow> (MessageMetadata list \<Rightarrow> MessageMetadata list) \<Rightarrow> nat \<Rightarrow> nat
    \<Rightarrow> ('st, test_events) testing" where
  "t_listener emitted arrive capacity seen =
     (case AsyncTestListener empty_async ''test'' () capacity of
        (eb, ch) \<Rightarrow> t_bind (t_get emitted) (\<lambda>evs.
          t_bind (t_some (tl_sends (arrive (drop seen evs)) ch)) (\<lambda>ch. t_return (eb, ch))))"

definition t_event :: "test_events \<Rightarrow> ('st, MessageMetadata option \<times> test_events) testing" where
  "t_event lst = t_bind (t_some (tl_call False ''test'' (fst lst) (snd lst))) (\<lambda>(ev, eb, ch). t_return (ev, eb, ch))"

fun remove_loop :: "'st Store \<Rightarrow> string list \<Rightarrow> ('st, unit) testing" where
  "remove_loop ds [] = t_return ()"
| "remove_loop ds (i # ids) =
     t_bind (t_run (\<lambda>st. RemoveMessage ds st ''fred'' i)) (\<lambda>err. t_then (t_noerr err) (remove_loop ds ids))"

fun contains_loop :: "string list \<Rightarrow> string list \<Rightarrow> ('st, unit) testing" where
  "contains_loop eventIDs [] = t_return ()"
| "contains_loop eventIDs (i # ids) = t_then (t_check (i \<in> set eventIDs)) (contains_loop eventIDs ids)"

definition testDelete :: "'st Store \<Rightarrow> (nat \<Rightarrow> int) \<Rightarrow> ('st \<Rightarrow> MessageMetadata list)
    \<Rightarrow> (MessageMetadata list \<Rightarrow> MessageMetadata list) \<Rightarrow> ('st, unit) testing" where
  "testDelete ds now emitted arrive =
     t_then (deliver_subjects ds ''fred'' now 0 five_subjects)
     (t_bind (GetAndCountMessages ds ''fred'' (length five_subjects)) (\<lambda>msgs.
     t_bind (t_get (\<lambda>st. length (emitted st))) (\<lambda>seen.
     t_bind (t_index msgs 1) (\<lambda>m1. t_bind (t_index msgs 3) (\<lambda>m3.
     t_then (remove_loop ds [sID m1, sID m3])
     (t_bind (GetAndCountMessages ds ''fred'' 3) (\<lambda>msgs.
     t_then (subjects_loop msgs 0 [''alpha'', ''charlie'', ''echo''])
     (t_bind (t_listener emitted arrive 2 seen) (\<lambda>ch.
     t_bind (t_event ch) (\<lambda>(ev1, ch). t_bind (t_some ev1) (\<lambda>ev1.
     t_bind (t_event ch) (\<lambda>(ev2, ch). t_bind (t_some ev2) (\<lambda>ev2.
     t_then (contains_loop [mdID ev1, mdID ev2] [sID m1, sID m3])
     (t_then (DeliverToStore ds ''fred'' ''foxtrot'' (now 5))
     (t_bind (GetAndCountMessages ds ''fred'' 4) (\<lambda>msgs.
      subjects_loop msgs 0 [''alpha'', ''charlie'', ''echo'', ''foxtrot'']))))))))))))))))"

text \<open>The loop over the events of \<open>testPurge\<close> stops at a timeout.\<close>

fun events_loop :: "nat \<Rightarrow> test_events \<Rightarrow> ('st, MessageMetadata list) testing" where
  "events_loop 0 ch = t_return []"
| "events_loop (Suc n) ch =
     t_bind (t_event ch) (\<lambda>(ev, ch).
       case ev of None \<Rightarrow> t_then (t_check False) (t_return [])
       | Some ev \<Rightarrow> t_bind (events_loop n ch) (\<lambda>evs. t_return (ev # evs)))"

definition testPurge :: "'st Store \<Rightarrow> (nat \<Rightarrow> int) \<Rightarrow> ('st \<Rightarrow> MessageMetadata list)
    \<Rightarrow> (MessageMetadata list \<Rightarrow> MessageMetadata list) \<Rightarrow> ('st, unit) testing" where
  "testPurge ds now emitted arrive =
     t_bind (t_get (\<lambda>st. length (emitted st))) (\<lambda>seen.
     t_then (deliver_subjects ds ''fred'' now 0 five_subjects)
     (t_then (GetAndCountMessages ds ''fred'' (length five_subjects))
     (t_bind (t_run (\<lambda>st. PurgeMessages ds st ''fred'')) (\<lambda>err. t_then (t_noerr err)
     (t_then (GetAndCountMessages ds ''fred'' 0)
     (t_bind (t_listener emitted arrive (length five_subjects) seen) (\<lambda>ch.
     t_bind (events_loop (length five_subjects) ch) (\<lambda>gotEvents.
      t_check (length gotEvents = length five_subjects)))))))))"

definition numbered :: "nat \<Rightarrow> string" where
  "numbered i = ''subject '' @ Utoa i"

text \<open>The loop of \<open>testMsgCap\<close> from the message \<open>i\<close> on, with \<open>n\<close> to go.\<close>

fun cap_test_loop :: "'st Store \<Rightarrow> (nat \<Rightarrow> int) \<Rightarrow> nat \<Rightarrow> nat \<Rightarrow> ('st, unit) testing" where
  "cap_test_loop ds now i 0 = t_return ()"
| "cap_test_loop ds now i (Suc n) =
     t_then (DeliverToStore ds ''captain'' (numbered i) (now i))
     (t_bind (t_run (\<lambda>st. GetMessages ds st ''captain'')) (\<lambda>r. t_bind (t_ok r) (\<lambda>msgs.
      if length msgs > 10 then t_check False
      else t_bind (t_index msgs 0) (\<lambda>m.
        t_then (t_check (numbered (Suc i - 10) = sSubject m)) (cap_test_loop ds now (Suc i) n)))))"

definition testMsgCap :: "'st Store \<Rightarrow> (nat \<Rightarrow> int) \<Rightarrow> ('st, unit) testing" where
  "testMsgCap ds now = cap_test_loop ds now 0 20"

fun nocap_loop :: "'st Store \<Rightarrow> (nat \<Rightarrow> int) \<Rightarrow> nat \<Rightarrow> nat \<Rightarrow> ('st, unit) testing" where
  "nocap_loop ds now i 0 = t_return ()"
| "nocap_loop ds now i (Suc n) =
     t_then (DeliverToStore ds ''captain'' (numbered i) (now i))
     (t_then (GetAndCountMessages ds ''captain'' (Suc i)) (nocap_loop ds now (Suc i) n))"

definition testNoMsgCap :: "'st Store \<Rightarrow> (nat \<Rightarrow> int) \<Rightarrow> ('st, unit) testing" where
  "testNoMsgCap ds now = nocap_loop ds now 0 20"

text \<open>The visitor counts the mailboxes and notes whether each has two messages.\<close>

type_synonym 'st count_visit = "(message list \<Rightarrow> 'st \<Rightarrow> nat \<times> bool \<Rightarrow> bool \<times> 'st \<times> nat \<times> bool) \<Rightarrow> 'st \<Rightarrow> nat \<times> bool
    \<Rightarrow> store_error option \<times> 'st \<times> nat \<times> bool"

definition count_two :: "message list \<Rightarrow> 'st \<Rightarrow> nat \<times> bool \<Rightarrow> bool \<times> 'st \<times> nat \<times> bool" where
  "count_two messages st a = (True, st, Suc (fst a), snd a \<and> length messages = 2)"

fun visit_deliver :: "'st Store \<Rightarrow> (nat \<Rightarrow> int) \<Rightarrow> nat \<Rightarrow> string list \<Rightarrow> ('st, unit) testing" where
  "visit_deliver ds now i [] = t_return ()"
| "visit_deliver ds now i (name # names) =
     t_then (DeliverToStore ds name ''Old Message'' (now i - 24 * 3600 * 1000000000))
     (t_then (DeliverToStore ds name ''New Message'' (now (Suc i))) (visit_deliver ds now (i + 2) names))"

definition five_boxes :: "string list" where
  "five_boxes = [''abby'', ''bill'', ''christa'', ''donald'', ''evelyn'']"

definition testVisitMailboxes :: "'st Store \<Rightarrow> 'st count_visit \<Rightarrow> (nat \<Rightarrow> int) \<Rightarrow> ('st, unit) testing" where
  "testVisitMailboxes ds visit now =
     t_then (visit_deliver ds now 0 five_boxes)
     (t_bind (t_run (\<lambda>st. case visit count_two st (0, True) of (err, st, nboxes, good) \<Rightarrow> ((err, nboxes, good), st)))
       (\<lambda>(err, nboxes, good). t_then (t_check good) (t_then (t_noerr err) (t_check (nboxes = 5)))))"

text \<open>The suite: each test runs on a new store of the factory.\<close>

definition suite_conf :: "int \<Rightarrow> storage_config" where
  "suite_conf cap = \<lparr>Type = [], Params = [], RetentionPeriod = 0, RetentionSleep = 0, MailboxMsgCap = cap\<rparr>"

definition run_test :: "(storage_config \<Rightarrow> 'st option) \<Rightarrow> string \<Rightarrow> ('st, unit) testing \<Rightarrow> storage_config \<Rightarrow> string \<times> bool" where
  "run_test factory name test conf = (name, case factory conf of None \<Rightarrow> False | Some st \<Rightarrow> passes test st)"

definition StoreSuite :: "(storage_config \<Rightarrow> 'st option) \<Rightarrow> 'st Store \<Rightarrow> 'st count_visit
    \<Rightarrow> ('st \<Rightarrow> MessageMetadata list) \<Rightarrow> (nat \<Rightarrow> int) \<Rightarrow> (MessageMetadata list \<Rightarrow> MessageMetadata list) \<Rightarrow> (string \<times> bool) list" where
  "StoreSuite factory ds visit emitted now arrive =
     [run_test factory ''metadata'' (testMetadata ds now) (suite_conf 0),
      run_test factory ''content'' (testContent ds now) (suite_conf 0),
      run_test factory ''delivery order'' (testDeliveryOrder ds now) (suite_conf 0),
      run_test factory ''latest'' (testLatest ds now) (suite_conf 0),
      run_test factory ''naming'' (testNaming ds now) (suite_conf 0),
      run_test factory ''size'' (testSize ds now) (suite_conf 0),
      run_test factory ''seen'' (testSeen ds now) (suite_conf 0),
      run_test factory ''delete'' (testDelete ds now emitted arrive) (suite_conf 0),
      run_test factory ''purge'' (testPurge ds now emitted arrive) (suite_conf 0),
      run_test factory ''cap=10'' (testMsgCap ds now) (suite_conf 10),
      run_test factory ''cap=0'' (testNoMsgCap ds now) (suite_conf 0),
      run_test factory ''visit mailboxes'' (testVisitMailboxes ds visit now) (suite_conf 0)]"

end
