(* ===== verification/TestSuiteProps.thy ===== *)
theory TestSuiteProps
  imports TestSuite "HOL-Library.Multiset"
begin

text \<open>
  The conformance suite passes on every store with the contract \<open>suite_store\<close>, and both stores
  have it. \<open>reaches t st Q\<close> is total correctness: from the state \<open>st\<close> the test \<open>t\<close> comes to its
  end without a failure, with a result and a state that satisfy \<open>Q\<close>.
\<close>

subsection \<open>Running a test\<close>

definition reaches :: "('st, 'a) testing \<Rightarrow> 'st \<Rightarrow> ('a \<Rightarrow> 'st \<Rightarrow> bool) \<Rightarrow> bool" where
  "reaches t st Q \<longleftrightarrow> (\<exists>x st'. t (False, st) = (Some x, False, st') \<and> Q x st')"

named_theorems test_intros

lemma reaches_bind [test_intros]: "reaches m st (\<lambda>x st. reaches (f x) st Q) \<Longrightarrow> reaches (t_bind m f) st Q"
  by (auto simp: reaches_def t_bind_def)

lemma reaches_then [test_intros]: "reaches m st (\<lambda>x st. reaches n st Q) \<Longrightarrow> reaches (t_then m n) st Q"
  unfolding t_then_def by (rule reaches_bind)

lemma reaches_return [test_intros]: "Q x st \<Longrightarrow> reaches (t_return x) st Q"
  by (simp add: reaches_def t_return_def)

lemma reaches_check [test_intros]: "b \<Longrightarrow> Q () st \<Longrightarrow> reaches (t_check b) st Q"
  by (simp add: reaches_def t_check_def)

lemma reaches_run [test_intros]: "Q (fst (f st)) (snd (f st)) \<Longrightarrow> reaches (t_run f) st Q"
  by (simp add: reaches_def t_run_def case_prod_beta)

lemma reaches_get [test_intros]: "Q (g st) st \<Longrightarrow> reaches (t_get g) st Q"
  by (simp add: reaches_def t_get_def)

lemma reaches_ok: "Q x st \<Longrightarrow> reaches (t_ok (Ok x)) st Q"
  by (simp add: reaches_return)

lemma reaches_some: "Q x st \<Longrightarrow> reaches (t_some (Some x)) st Q"
  by (simp add: reaches_return)

lemma reaches_noerr: "e = None \<Longrightarrow> Q () st \<Longrightarrow> reaches (t_noerr e) st Q"
  by (simp add: reaches_return)

lemma reaches_index: "i < length xs \<Longrightarrow> Q (xs ! i) st \<Longrightarrow> reaches (t_index xs i) st Q"
  by (simp add: t_index_def reaches_return)

lemma reaches_passes: "reaches t st Q \<Longrightarrow> passes t st"
  by (auto simp: reaches_def passes_def)

lemma reaches_mono: "reaches t st P \<Longrightarrow> (\<And>x st. P x st \<Longrightarrow> Q x st) \<Longrightarrow> reaches t st Q"
  unfolding reaches_def by blast

lemma reaches_subjects: "i + length wants \<le> length msgs \<Longrightarrow> map sSubject (take (length wants) (drop i msgs)) = wants \<Longrightarrow> Q () st \<Longrightarrow>
    reaches (subjects_loop msgs i wants) st Q"
proof (induction wants arbitrary: i)
  case (Cons w ws)
  then have "i < length msgs" by simp
  then have "drop i msgs = msgs ! i # drop (Suc i) msgs" by (rule Cons_nth_drop_Suc [symmetric])
  with Cons show ?case by (simp add: reaches_bind reaches_index reaches_then reaches_check)
qed (simp add: reaches_return)

lemma reaches_subjects0: "map sSubject msgs = wants \<Longrightarrow> Q () st \<Longrightarrow> reaches (subjects_loop msgs 0 wants) st Q"
  by (rule reaches_subjects) auto

lemma reaches_to: "Q () st \<Longrightarrow> reaches (to_loop to to) st Q"
  by (induction to) (simp_all add: reaches_return reaches_bind reaches_then reaches_check reaches_index)

lemma reaches_content: "errors \<le> 5 \<Longrightarrow> Q () st \<Longrightarrow> reaches (content_loop errors s s) st Q"
  by (induction s) (simp_all add: reaches_return reaches_bind reaches_then reaches_check reaches_index)

lemma reaches_contains: "set ids \<subseteq> set evs \<Longrightarrow> Q () st \<Longrightarrow> reaches (contains_loop evs ids) st Q"
  by (induction ids) (simp_all add: reaches_return reaches_then reaches_check)

text \<open>A listener with as many events as it has room for returns one with every call.\<close>

lemma reaches_listener:
  assumes "length (arrive (drop seen (emitted st))) = capacity"
    and "Q (Async_AddListener empty_async ''test'' (), tl_state capacity 0 (arrive (drop seen (emitted st))) False) st"
  shows "reaches (t_listener emitted arrive capacity seen) st Q"
proof -
  have e: "AsyncTestListener empty_async ''test'' () capacity = (Async_AddListener empty_async ''test'' (), tl_state capacity 0 [] False)"
    using tl_new [of empty_async "''test''" "()" capacity] by (simp add: AsyncTestListener_def tl_state_def)
  show ?thesis
    using assms(2) by (simp add: t_listener_def e reaches_bind reaches_get reaches_return tl_sends_state)
qed

lemma reaches_event:
  assumes "k < capacity" and "length q \<le> capacity" and "q \<noteq> []"
    and "\<And>eb c. Q (Some (hd q), eb, tl_state capacity (Suc k) (tl q) c) st" and "Suc k < capacity \<or> True"
  shows "reaches (t_event (eb, tl_state capacity k q False)) st Q"
  using assms by (cases q) (auto simp: t_event_def tl_call_state intro!: reaches_bind reaches_return)

lemma reaches_events_loop:
  assumes "k + n = capacity" and "length q = n" and "\<And>evs. length evs = n \<Longrightarrow> Q evs st"
  shows "reaches (events_loop n (eb, tl_state capacity k q False)) st Q"
  using assms
proof (induction n arbitrary: k q eb Q)
  case (Suc n)
  then obtain ev q' where q: "q = ev # q'" by (cases q) auto
  show ?case
  proof (cases "n = 0")
    case True
    with Suc.prems q show ?thesis
      by (auto simp: t_event_def tl_call_state intro!: reaches_bind reaches_return)
  next
    case False
    then have "Suc k < capacity" using Suc.prems(1) by simp
    moreover have "reaches (events_loop n (eb, tl_state capacity (Suc k) q' False)) st
        (\<lambda>evs st. reaches (t_return (ev # evs)) st Q)"
      by (rule Suc.IH) (use Suc.prems q in \<open>auto intro: reaches_return\<close>)
    ultimately show ?thesis using q
      by (auto simp: t_event_def tl_call_state intro!: reaches_bind reaches_return)
  qed
qed (simp add: reaches_return)

lemma test_meta_simps [simp]:
  "mdMailbox (test_meta mb subj date) = mb" "mdSubject (test_meta mb subj date) = subj"
  "mdMailbox (suite_meta to date) = ''testmailbox''"
  "mdSubject (suite_meta to date) = ''fantastic test subject line''" "mdFrom (suite_meta to date) = Some from_person"
  "mdTo (suite_meta to date) = to" "mdDate (suite_meta to date) = date"
  by (simp_all add: test_meta_def suite_meta_def)

lemma keep_newest_again:
  "0 \<le> cap \<Longrightarrow> keep_newest cap (keep_newest cap xs @ [x]) = keep_newest cap (xs @ [x])"
  by (auto simp: keep_newest_def min_def split: nat_diff_split)

subsection \<open>Stores that pass\<close>

locale suite_store = capped_store ops abs inv cap + visited_store ops abs inv visit known
  for ops :: "'st Store" and abs :: "'st \<Rightarrow> string \<Rightarrow> message list" and inv :: "'st \<Rightarrow> bool" and cap :: int
    and visit :: "'st count_visit" and known :: "'st \<Rightarrow> string set" +
  fixes emitted :: "'st \<Rightarrow> MessageMetadata list"
  assumes get_latest: "inv st \<Longrightarrow> abs st mb \<noteq> [] \<Longrightarrow> \<exists>st'. GetMessage ops st mb ''latest'' = (Ok (Some (last (abs st mb))), st')"
    and id_good: "inv st \<Longrightarrow> AddMessage ops st m = (Ok i, st') \<Longrightarrow> i \<noteq> [] \<and> i \<noteq> ''latest''"
    and known_add: "inv st \<Longrightarrow> AddMessage ops st m = (Ok i, st') \<Longrightarrow> known st' \<subseteq> insert (sMailbox m) (known st)"
    and emitted_add: "inv st \<Longrightarrow> cap \<le> 0 \<Longrightarrow> AddMessage ops st m = (ra, st') \<Longrightarrow> emitted st' = emitted st"
    and emitted_get: "inv st \<Longrightarrow> GetMessages ops st mb = (r, st') \<Longrightarrow> emitted st' = emitted st"
    and emitted_remove: "inv st \<Longrightarrow> m \<in> set (abs st mb) \<Longrightarrow> RemoveMessage ops st mb (sID m) = (e, st') \<Longrightarrow>
        emitted st' = emitted st @ [MakeMetadata m]"
    and emitted_purge: "inv st \<Longrightarrow> PurgeMessages ops st mb = (e, st') \<Longrightarrow>
        emitted st' = emitted st @ map MakeMetadata (abs st mb)"
begin

definition held :: "MessageMetadata \<Rightarrow> string \<Rightarrow> string \<Rightarrow> message" where
  "held meta source i = (Delivery meta source)\<lparr>sID := i, sSize := int (length source), sSeen := False\<rparr>"

lemma held_simps [simp]:
  "sID (held meta source i) = i" "sSubject (held meta source i) = mdSubject meta" "sSize (held meta source i) = int (length source)"
  "\<not> sSeen (held meta source i)" "sMailbox (held meta source i) = mdMailbox meta" "sSource (held meta source i) = Some source"
  "sFrom (held meta source i) = mdFrom meta" "sTo (held meta source i) = mdTo meta" "sDate (held meta source i) = mdDate meta"
  by (simp_all add: held_def Delivery_def)

lemma add_reaches:
  assumes i: "inv st"
    and Q: "\<And>i st'. inv st' \<Longrightarrow> abs st' = (abs st)(mdMailbox meta := keep_newest cap (abs st (mdMailbox meta) @ [held meta source i])) \<Longrightarrow>
      i \<noteq> [] \<Longrightarrow> i \<noteq> ''latest'' \<Longrightarrow> known st' \<subseteq> insert (mdMailbox meta) (known st) \<Longrightarrow>
      (cap \<le> 0 \<longrightarrow> emitted st' = emitted st) \<Longrightarrow> Q (Ok i) st'"
  shows "reaches (t_run (\<lambda>st. AddMessage ops st (Delivery meta source))) st Q"
proof -
  obtain j st' where a: "AddMessage ops st (Delivery meta source) = (Ok j, st')"
    using add_result [OF i, of "Delivery meta source"] by auto
  have "Q (Ok j) st'"
    by (rule Q) (use inv_add [OF i a] add_capped [OF i a] id_good [OF i a] known_add [OF i a] emitted_add [OF i _ a] in \<open>simp_all add: held_def\<close>)
  with a show ?thesis by (simp add: reaches_run)
qed

lemma deliver_reaches:
  assumes i: "inv st"
    and Q: "\<And>i st'. inv st' \<Longrightarrow> abs st' = (abs st)(mb := keep_newest cap (abs st mb @ [held (test_meta mb subj date) (test_msg subj) i])) \<Longrightarrow>
      i \<noteq> [] \<Longrightarrow> i \<noteq> ''latest'' \<Longrightarrow> known st' \<subseteq> insert mb (known st) \<Longrightarrow>
      (cap \<le> 0 \<longrightarrow> emitted st' = emitted st) \<Longrightarrow> Q (i, int (length (test_msg subj))) st'"
  shows "reaches (DeliverToStore ops mb subj date) st Q"
proof -
  have m: "mdMailbox (test_meta mb subj date) = mb" by (simp add: test_meta_def)
  show ?thesis unfolding DeliverToStore_def
    by (intro reaches_bind add_reaches [OF i, of "test_meta mb subj date", unfolded m]) (auto intro!: reaches_bind reaches_return Q)
qed

lemma list_reaches:
  assumes i: "inv st" and Q: "\<And>st'. inv st' \<Longrightarrow> abs st' = abs st \<Longrightarrow> emitted st' = emitted st \<Longrightarrow> Q (Ok (abs st mb)) st'"
  shows "reaches (t_run (\<lambda>st. GetMessages ops st mb)) st Q"
proof -
  obtain r st' where g: "GetMessages ops st mb = (r, st')" by fastforce
  with Q get_messages [OF i g] inv_get [OF i g] emitted_get [OF i g] show ?thesis by (simp add: reaches_run)
qed

lemma count_reaches:
  assumes i: "inv st" and "length (abs st mb) = n"
    and Q: "\<And>st'. inv st' \<Longrightarrow> abs st' = abs st \<Longrightarrow> emitted st' = emitted st \<Longrightarrow> Q (abs st mb) st'"
  shows "reaches (GetAndCountMessages ops mb n) st Q"
  unfolding GetAndCountMessages_def
  by (intro reaches_bind list_reaches [OF i]) (use assms in \<open>auto intro!: reaches_bind reaches_then reaches_check reaches_return\<close>)

lemma message_reaches:
  assumes i: "inv st" and m: "m \<in> set (abs st mb)" "sID m = j" "j \<noteq> ''latest''"
    and Q: "\<And>st'. inv st' \<Longrightarrow> abs st' = abs st \<Longrightarrow> Q m st'"
  shows "reaches (t_message ops mb j) st Q"
proof -
  obtain st' where g: "GetMessage ops st mb j = (Ok (Some m), st')" using get_one_found [OF i m(1)] m by auto
  with Q inv_get_one [OF i g] show ?thesis
    by (auto simp: t_message_def intro!: reaches_bind reaches_run reaches_return)
qed

lemma deliver_subjects_reaches:
  assumes "inv st" and "cap = 0"
    and "\<And>ms st'. inv st' \<Longrightarrow> abs st' = (abs st)(mb := abs st mb @ ms) \<Longrightarrow> map sSubject ms = subjs \<Longrightarrow>
      (\<forall>m\<in>set ms. sID m \<noteq> ''latest'') \<Longrightarrow> emitted st' = emitted st \<Longrightarrow> Q (map (\<lambda>m. (sID m, sSize m)) ms) st'"
  shows "reaches (deliver_subjects ops mb now i subjs) st Q"
  using assms(1,3)
proof (induction subjs arbitrary: st i Q)
  case Nil
  then show ?case using Nil.prems(2) [of st "[]"] by (simp add: reaches_return)
next
  case (Cons subj subjs)
  show ?case unfolding deliver_subjects.simps
  proof (intro reaches_bind deliver_reaches [OF Cons.prems(1)], goal_cases)
    case (1 j st1)
    let ?m = "held (test_meta mb subj (now i)) (test_msg subj) j"
    have a: "abs st1 = (abs st)(mb := abs st mb @ [?m])" using 1(2) assms(2) by (simp add: keep_newest_def)
    show ?case
    proof (rule Cons.IH [OF 1(1)], goal_cases)
      case (1 st2 ms)
      show ?case
        by (rule reaches_return, rule Cons.prems(2) [of st2 "?m # ms", simplified])
          (use 1 a \<open>j \<noteq> ''latest''\<close> \<open>cap \<le> 0 \<longrightarrow> emitted st1 = emitted st\<close> assms(2) in \<open>simp_all add: fun_eq_iff\<close>)
    qed
  qed
qed

lemma testMetadata_passes: "inv st \<Longrightarrow> abs st = (\<lambda>mb. []) \<Longrightarrow> reaches (testMetadata ops now) st (\<lambda>_ _. True)"
  unfolding testMetadata_def Let_def
proof (intro reaches_bind add_reaches, assumption, goal_cases)
  case (1 i st1)
  let ?m = "held (suite_meta [one_person, two_person] (now 0)) ''doesn't matter'' i"
  have m: "?m \<in> set (abs st1 ''testmailbox'')" using 1 keep_newest_suffix by (auto simp: keep_newest_def)
  show ?case
    using 1 by (auto simp del: to_loop.simps
        intro!: reaches_bind reaches_return message_reaches [OF _ m] reaches_then reaches_check reaches_to)
qed

lemma testContent_passes: "inv st \<Longrightarrow> abs st = (\<lambda>mb. []) \<Longrightarrow> reaches (testContent ops now) st (\<lambda>_ _. True)"
  unfolding testContent_def
proof (intro reaches_bind add_reaches, assumption, goal_cases)
  case (1 i st1)
  let ?m = "held (suite_meta [one_person] (now 0)) test_bytes i"
  have m: "?m \<in> set (abs st1 ''testmailbox'')" using 1 by (auto simp: keep_newest_def)
  show ?case
    using 1 by (auto intro!: reaches_bind reaches_return message_reaches [OF _ m] reaches_then reaches_check reaches_content)
qed

lemma order_reaches:
  assumes "inv st" and "cap = 0" and "length (abs st ''fred'') = i"
    and "\<And>st'. inv st' \<Longrightarrow> map sSubject (abs st' ''fred'') = map sSubject (abs st ''fred'') @ subjs \<Longrightarrow> Q () st'"
  shows "reaches (order_loop ops now i subjs) st Q"
  using assms(1,3,4)
proof (induction subjs arbitrary: st i)
  case Nil
  then show ?case by (simp add: reaches_return)
next
  case (Cons subj subjs)
  show ?case unfolding order_loop.simps
  proof (intro reaches_then count_reaches deliver_reaches, rule Cons.prems, rule Cons.prems, assumption, goal_cases)
    case (1 st1 j st2)
    have a: "abs st2 ''fred'' = abs st ''fred'' @ [held (test_meta ''fred'' subj (now i)) (test_msg subj) j]"
      using 1 assms(2) by (simp add: keep_newest_def)
    show ?case by (rule Cons.IH [OF 1(4)]) (use a Cons.prems in auto)
  qed
qed

lemma testDeliveryOrder_passes:
  "inv st \<Longrightarrow> cap = 0 \<Longrightarrow> abs st = (\<lambda>mb. []) \<Longrightarrow> reaches (testDeliveryOrder ops now) st (\<lambda>_ _. True)"
  unfolding testDeliveryOrder_def
proof (intro reaches_then order_reaches, assumption, assumption, simp, goal_cases)
  case (1 st1)
  have "length (abs st1 ''fred'') = 5" using arg_cong [OF 1(5), of length] 1(3) by (simp add: five_subjects_def)
  with 1 show ?case by (intro reaches_bind count_reaches) (auto intro!: reaches_subjects0)
qed

lemma testLatest_passes:
  "inv st \<Longrightarrow> cap = 0 \<Longrightarrow> abs st = (\<lambda>mb. []) \<Longrightarrow> reaches (testLatest ops now) st (\<lambda>_ _. True)"
  unfolding testLatest_def
proof (intro reaches_then deliver_subjects_reaches, assumption, assumption, goal_cases)
  case (1 ms st1)
  have ms: "abs st1 ''fred'' = ms" using 1 by simp
  have ne: "ms \<noteq> []" and l: "sSubject (last ms) = ''echo''"
    using 1(6) arg_cong [OF 1(6), of last] by (auto simp: five_subjects_def last_map)
  obtain st2 where g: "GetMessage ops st1 ''fred'' ''latest'' = (Ok (Some (last ms)), st2)"
    using get_latest [OF 1(4), of "''fred''"] ms ne by auto
  then show ?case using l by (auto simp: t_message_def intro!: reaches_bind reaches_run reaches_return reaches_check)
qed

lemma testNaming_passes:
  "inv st \<Longrightarrow> abs st = (\<lambda>mb. []) \<Longrightarrow> reaches (testNaming ops now) st (\<lambda>_ _. True)"
  unfolding testNaming_def
proof (intro reaches_then deliver_reaches, assumption, goal_cases)
  case (1 i st1)
  have "length (abs st1 ''fred@fish.net'') = 1" using 1 by (auto simp: keep_newest_def)
  with 1 show ?case by (intro reaches_then count_reaches) (auto intro!: reaches_return)
qed

lemma size_reaches:
  assumes "inv st" and "set ms \<subseteq> set (abs st ''fred'')" and "\<forall>m\<in>set ms. sID m \<noteq> ''latest''"
  shows "reaches (size_loop ops (map (\<lambda>m. (sID m, sSize m)) ms)) st (\<lambda>_ _. True)"
  using assms
proof (induction ms arbitrary: st)
  case (Cons m ms)
  show ?case unfolding list.map size_loop.simps
  proof (intro reaches_bind message_reaches [OF Cons.prems(1), of m], goal_cases)
    case (4 st')
    then have "reaches (size_loop ops (map (\<lambda>m. (sID m, sSize m)) ms)) st' (\<lambda>_ _. True)"
      using Cons.prems(2,3) by (intro Cons.IH) auto
    then show ?case by (auto intro: reaches_then reaches_check)
  qed (use Cons.prems in auto)
qed (simp add: reaches_return)

lemma testSize_passes:
  "inv st \<Longrightarrow> cap = 0 \<Longrightarrow> abs st = (\<lambda>mb. []) \<Longrightarrow> reaches (testSize ops now) st (\<lambda>_ _. True)"
  unfolding testSize_def
  by (intro reaches_bind deliver_subjects_reaches) (auto intro!: size_reaches)

lemma seen_reaches:
  assumes "inv st" and "\<And>st'. inv st' \<Longrightarrow>
      abs st' = (abs st)(mb := map (\<lambda>m. if sID m = i then m\<lparr>sSeen := True\<rparr> else m) (abs st mb)) \<Longrightarrow> Q None st'"
  shows "reaches (t_run (\<lambda>st. MarkSeen ops st mb i)) st Q"
proof -
  obtain e st' where m: "MarkSeen ops st mb i = (e, st')" by fastforce
  with seen_abs [OF assms(1) m] inv_seen [OF assms(1) m] assms(2) show ?thesis by (simp add: reaches_run)
qed

lemma testSeen_passes:
  "inv st \<Longrightarrow> cap = 0 \<Longrightarrow> abs st = (\<lambda>mb. []) \<Longrightarrow> reaches (testSeen ops now) st (\<lambda>_ _. True)"
  unfolding testSeen_def
proof (intro reaches_bind deliver_reaches, assumption, unfold prod.case, intro reaches_bind deliver_reaches, assumption,
    unfold prod.case, goal_cases)
  case (1 i st1 j st2)
  let ?m1 = "held (test_meta ''lisa'' ''whatever'' (now 0)) (test_msg ''whatever'') i"
  let ?m2 = "held (test_meta ''lisa'' ''hello?'' (now 1)) (test_msg ''hello?'') j"
  have a: "abs st2 ''lisa'' = [?m1, ?m2]" using 1 by (simp add: keep_newest_def)
  have ne: "i \<noteq> j" using ids_distinct [OF 1(10), of "''lisa''"] by (simp add: a)
  show ?case
  proof (intro reaches_bind message_reaches [OF 1(10), of ?m1] reaches_then reaches_check seen_reaches reaches_noerr, goal_cases)
    case (7 st3 st4)
    then have b: "abs st4 ''lisa'' = [?m1\<lparr>sSeen := True\<rparr>, ?m2]" using a ne by simp
    show ?case
      by (intro message_reaches [OF 7(3), of "?m1\<lparr>sSeen := True\<rparr>"] reaches_then reaches_check reaches_bind)
        (use b 1 in \<open>auto intro!: message_reaches [where m = ?m2] reaches_check\<close>)
  qed (use a 1 in simp_all)
qed

lemma remove_reaches:
  assumes i: "inv st" and m: "m \<in> set (abs st mb)"
    and "\<And>st'. inv st' \<Longrightarrow> abs st' = (abs st)(mb := filter (\<lambda>x. sID x \<noteq> sID m) (abs st mb)) \<Longrightarrow>
      emitted st' = emitted st @ [MakeMetadata m] \<Longrightarrow> Q None st'"
  shows "reaches (t_run (\<lambda>st. RemoveMessage ops st mb (sID m))) st Q"
proof -
  obtain e st' where r: "RemoveMessage ops st mb (sID m) = (e, st')" by fastforce
  with remove_result [OF i r] remove_abs [OF i r] inv_remove [OF i r] emitted_remove [OF i m r] m assms(3)
  show ?thesis by (simp add: reaches_run)
qed

lemma five: "length xs = 5 \<Longrightarrow> \<exists>a b c d e. xs = [a, b, c, d, e]"
  by (auto simp: numeral_eq_Suc length_Suc_conv)

lemma testDelete_passes:
  assumes "inv st" and "cap = 0" and "abs st = (\<lambda>mb. [])" and arrive: "\<And>xs. mset (arrive xs) = mset xs"
  shows "reaches (testDelete ops now emitted arrive) st (\<lambda>_ _. True)"
  unfolding testDelete_def
proof (intro reaches_then deliver_subjects_reaches [OF assms(1,2)], goal_cases)
  case (1 ms st1)
  have l: "length ms = 5" using arg_cong [OF 1(3), of length] by (simp add: five_subjects_def)
  obtain m0 m1 m2 m3 m4 where ms: "ms = [m0, m1, m2, m3, m4]" using five [OF l] by blast
  have a1: "abs st1 ''fred'' = [m0, m1, m2, m3, m4]" using 1(2) assms(3) ms by simp
  have subj: "map sSubject [m0, m1, m2, m3, m4] = five_subjects" using 1(3) ms by simp
  have d: "distinct (map sID [m0, m1, m2, m3, m4])" using ids_distinct [OF 1(1), of "''fred''"] a1 by simp
  show ?case
  proof (intro reaches_bind count_reaches [OF 1(1)] reaches_get, goal_cases)
    case 1
    show ?case by (simp add: a1 five_subjects_def)
  next
    case (2 st2)
    note r2 = 2
    have a2: "abs st2 ''fred'' = [m0, m1, m2, m3, m4]" using 2(2) a1 by simp
    show ?case unfolding a1
    proof (intro reaches_bind reaches_index, simp, simp, simp only: nth_Cons_Suc nth_Cons_0 One_nat_def numeral_3_eq_3,
        intro reaches_then, unfold remove_loop.simps, intro reaches_bind reaches_then remove_reaches [OF 2(1)], goal_cases)
      case 1
      show ?case by (simp add: a2)
    next
      case (2 st3)
      note r3 = 2
      have a3: "abs st3 ''fred'' = [m0, m2, m3, m4]" using 2(2) a2 d by auto
      show ?case
      proof (intro reaches_noerr refl reaches_bind remove_reaches [OF 2(1)] reaches_then reaches_return, goal_cases)
        case 1
        show ?case by (simp add: a3)
      next
        case (2 st4)
        note r4 = 2
        have a4: "abs st4 ''fred'' = [m0, m2, m4]" using r4(2) a3 d by auto
        let ?evs = "arrive [MakeMetadata m1, MakeMetadata m3]"
        have new: "drop (length (emitted st2)) (emitted st4) = [MakeMetadata m1, MakeMetadata m3]"
          using r3(3) r4(3) by simp
        have p: "mset ?evs = mset [MakeMetadata m1, MakeMetadata m3]" by (rule arrive)
        from mset_eq_length [OF p] obtain e1 e2 where ev: "?evs = [e1, e2]" by (auto simp: numeral_2_eq_2 length_Suc_conv)
        have sets: "{e1, e2} = {MakeMetadata m1, MakeMetadata m3}" using mset_eq_setD [OF p] by (simp add: ev)
        show ?case
        proof (intro reaches_noerr refl reaches_then reaches_return reaches_bind count_reaches [OF r4(1)] reaches_subjects0
            reaches_listener, goal_cases)
          case (4 st5)
          have "arrive (drop (length (emitted st2)) (emitted st5)) = [e1, e2]" using 4(3) new ev by simp
          moreover have "{sID m1, sID m3} \<subseteq> set [mdID e1, mdID e2]"
            using arg_cong [OF sets, of "image mdID"] by (simp add: MakeMetadata_def)
          ultimately show ?case
            using 4(1,2) a4 assms(2) subj
            by (auto simp: t_event_def tl_call_state keep_newest_def five_subjects_def
                simp del: contains_loop.simps subjects_loop.simps
                intro!: reaches_bind reaches_return reaches_then reaches_contains deliver_reaches count_reaches reaches_subjects0)
        qed (use a4 subj new ev in \<open>simp_all add: five_subjects_def\<close>)
      qed
    qed
  qed
qed

lemma purge_reaches:
  assumes i: "inv st" and "\<And>st'. inv st' \<Longrightarrow> abs st' = (abs st)(mb := []) \<Longrightarrow>
      emitted st' = emitted st @ map MakeMetadata (abs st mb) \<Longrightarrow> Q None st'"
  shows "reaches (t_run (\<lambda>st. PurgeMessages ops st mb)) st Q"
proof -
  obtain e st' where p: "PurgeMessages ops st mb = (e, st')" by fastforce
  with purge_abs [OF i p] inv_purge [OF i p] emitted_purge [OF i p] assms(2) show ?thesis by (simp add: reaches_run)
qed

lemma testPurge_passes:
  assumes "inv st" and "cap = 0" and "abs st = (\<lambda>mb. [])" and arrive: "\<And>xs. mset (arrive xs) = mset xs"
  shows "reaches (testPurge ops now emitted arrive) st (\<lambda>_ _. True)"
  unfolding testPurge_def
proof (intro reaches_bind reaches_get reaches_then deliver_subjects_reaches [OF assms(1,2)], goal_cases)
  case (1 ms st1)
  have l: "length ms = 5" using arg_cong [OF 1(3), of length] by (simp add: five_subjects_def)
  have a1: "abs st1 ''fred'' = ms" using 1(2) assms(3) by simp
  show ?case
  proof (intro reaches_bind reaches_then count_reaches [OF 1(1)] purge_reaches reaches_noerr refl, goal_cases)
    case 1
    show ?case using l by (simp add: a1 five_subjects_def)
  next
    case (2 st2)
    then show ?case by blast
  next
    case (3 st2 st3)
    note r3 = 3
    show ?case
    proof (intro count_reaches [OF r3(4)], goal_cases)
      case (2 st4)
      have "drop (length (emitted st)) (emitted st4) = map MakeMetadata ms" using 2(3) r3 1 a1 assms(2) by simp
      moreover have "length (arrive (map MakeMetadata ms)) = 5" using mset_eq_length [OF arrive, of "map MakeMetadata ms"] l by simp
      ultimately show ?case
        by (intro reaches_bind reaches_listener reaches_events_loop reaches_check) (simp_all add: five_subjects_def)
    qed (use r3 in simp)
  qed
qed

text \<open>The mailbox of the tests of the cap after the messages before the \<open>i\<close>th.\<close>

lemma cap_reaches:
  assumes "inv st" and "cap = 10" and "map sSubject (abs st ''captain'') = keep_newest 10 (map numbered [0..<i])"
  shows "reaches (cap_test_loop ops now i n) st (\<lambda>_ _. True)"
  using assms(1,3)
proof (induction n arbitrary: st i)
  case (Suc n)
  show ?case unfolding cap_test_loop.simps
  proof (intro reaches_then deliver_reaches [OF Suc.prems(1)] reaches_bind list_reaches, assumption, goal_cases)
    case (1 j st1 st2)
    let ?xs = "abs st1 ''captain''"
    have s: "map sSubject ?xs = keep_newest 10 (map numbered [0..<Suc i])"
      using 1(2) assms(2) Suc.prems(2) keep_newest_again [of 10 "map numbered [0..<i]" "numbered i"]
      by (simp add: map_keep_newest)
    have l: "length ?xs = min 10 (Suc i)" using arg_cong [OF s, of length] by (simp add: keep_newest_def)
    have "sSubject (?xs ! 0) = keep_newest 10 (map numbered [0..<Suc i]) ! 0" using l by (subst s [symmetric]) simp
    also have "\<dots> = numbered (Suc i - 10)" by (simp add: keep_newest_def del: upt_Suc)
    finally have f: "numbered (Suc i - 10) = sSubject (?xs ! 0)" ..
    have "reaches (cap_test_loop ops now (Suc i) n) st2 (\<lambda>_ _. True)" using Suc.IH 1(7,8) s by simp
    with l f show ?case by (auto intro!: reaches_ok reaches_bind reaches_return reaches_index reaches_then reaches_check)
  qed
qed (simp add: reaches_return)

lemma nocap_reaches:
  assumes "inv st" and "cap = 0" and "length (abs st ''captain'') = i"
  shows "reaches (nocap_loop ops now i n) st (\<lambda>_ _. True)"
  using assms(1,3)
proof (induction n arbitrary: st i)
  case (Suc n)
  show ?case unfolding nocap_loop.simps
  proof (intro reaches_then deliver_reaches [OF Suc.prems(1)] count_reaches, assumption, goal_cases)
    case (1 j st1)
    then show ?case using assms(2) Suc.prems(2) by (simp add: keep_newest_def)
  next
    case (2 j st1 st2)
    then have "length (abs st2 ''captain'') = Suc i" using assms(2) Suc.prems(2) by (simp add: keep_newest_def)
    then show ?case by (rule Suc.IH [OF 2(7)])
  qed
qed (simp add: reaches_return)

text \<open>Visiting: every new mailbox gets two messages, and no other is known.\<close>

lemma visit_deliver_reaches:
  assumes "inv st" and "cap = 0" and "distinct names"
    and "\<And>st'. inv st' \<Longrightarrow> known st' \<subseteq> known st \<union> set names \<Longrightarrow>
      (\<forall>mb. length (abs st' mb) = length (abs st mb) + (if mb \<in> set names then 2 else 0)) \<Longrightarrow> Q () st'"
  shows "reaches (visit_deliver ops now i names) st Q"
  using assms(1,3,4)
proof (induction names arbitrary: st i)
  case Nil
  then show ?case by (simp add: reaches_return)
next
  case (Cons name names)
  show ?case unfolding visit_deliver.simps
  proof (intro reaches_then deliver_reaches [OF Cons.prems(1)] deliver_reaches, assumption, goal_cases)
    case (1 j st1 k st2)
    have l: "length (abs st2 mb) = length (abs st mb) + (if mb = name then 2 else 0)" for mb
      using 1(2,8) assms(2) by (simp add: keep_newest_def)
    have kn: "known st2 \<subseteq> insert name (known st)" using 1(5,11) by blast
    show ?case
    proof (rule Cons.IH [OF 1(7)], goal_cases)
      case 1
      show ?case using Cons.prems(2) by simp
    next
      case (2 st3)
      then show ?case using l kn Cons.prems(2) by (intro Cons.prems(3)) auto
    qed
  qed
qed

lemma count_two_each:
  assumes "inv st" and "\<forall>mb\<in>set mbs. length (abs st mb) = 2"
  shows "\<exists>st'. visit_each ops count_two mbs st (n, good) = (True, st', n + length mbs, good)"
  using assms
proof (induction mbs arbitrary: st n)
  case (Cons mb mbs)
  obtain r st1 where g: "GetMessages ops st mb = (r, st1)" by fastforce
  note s = get_messages [OF Cons.prems(1) g] inv_get [OF Cons.prems(1) g]
  then obtain st' where "visit_each ops count_two mbs st1 (Suc n, good) = (True, st', Suc n + length mbs, good)"
    using Cons.IH [of st1 "Suc n"] Cons.prems(2) by auto
  moreover have "count_two (abs st mb) st1 (n, good) = (True, st1, Suc n, good)"
    using Cons.prems(2) by (simp add: count_two_def)
  ultimately show ?case using g s by simp
qed simp

lemma testVisitMailboxes_passes:
  assumes "inv st" and "cap = 0" and "abs st = (\<lambda>mb. [])" and "known st = {}"
  shows "reaches (testVisitMailboxes ops visit now) st (\<lambda>_ _. True)"
  unfolding testVisitMailboxes_def
proof (intro reaches_then visit_deliver_reaches [OF assms(1,2)], goal_cases)
  case 1
  show ?case by (simp add: five_boxes_def)
next
  case (2 st1)
  have l: "length (abs st1 mb) = (if mb \<in> set five_boxes then 2 else 0)" for mb using 2(3) assms(3) by simp
  have "confined abs inv (count_two :: message list \<Rightarrow> 'st \<Rightarrow> nat \<times> bool \<Rightarrow> _)" by (rule confinedI) (simp add: count_two_def)
  from visit_spec [OF 2(1) this] obtain mbs where mbs: "distinct mbs" "set mbs = known st1"
    "visit count_two st1 (0, True) = (case visit_each ops count_two mbs st1 (0, True) of (cont, st, a) \<Rightarrow> (None, st, a))"
    by blast
  have "set five_boxes \<subseteq> known st1"
  proof
    fix mb assume "mb \<in> set five_boxes"
    then have "abs st1 mb \<noteq> []" using l [of mb] by auto
    then show "mb \<in> known st1" by (rule mail_known [OF 2(1)])
  qed
  with 2(2) assms(4) mbs(2) have s: "set mbs = set five_boxes" by auto
  have "length mbs = card (set mbs)" by (rule distinct_card [OF mbs(1), symmetric])
  also have "\<dots> = 5" unfolding s by (simp add: five_boxes_def)
  finally have five: "length mbs = 5" .
  obtain st2 where "visit_each ops count_two mbs st1 (0, True) = (True, st2, 0 + length mbs, True)"
    using count_two_each [OF 2(1), of mbs 0 True] l s by auto
  with mbs(3) five show ?case
    by (auto intro!: reaches_bind reaches_run reaches_then reaches_check reaches_return)
qed

lemma tests_pass:
  assumes "inv st" and "cap = 0" and "abs st = (\<lambda>mb. [])" and "known st = {}" and "\<And>xs. mset (arrive xs) = mset xs"
  shows "passes (testMetadata ops now) st" and "passes (testContent ops now) st"
    and "passes (testDeliveryOrder ops now) st" and "passes (testLatest ops now) st"
    and "passes (testNaming ops now) st" and "passes (testSize ops now) st" and "passes (testSeen ops now) st"
    and "passes (testDelete ops now emitted arrive) st" and "passes (testPurge ops now emitted arrive) st"
    and "passes (testNoMsgCap ops now) st" and "passes (testVisitMailboxes ops visit now) st"
  using assms(1-4) testMetadata_passes testContent_passes testDeliveryOrder_passes testLatest_passes testNaming_passes
    testSize_passes testSeen_passes testDelete_passes [OF assms(1-3,5)] testPurge_passes [OF assms(1-3,5)]
    nocap_reaches [of st 0 now 20] testVisitMailboxes_passes [OF assms(1-4)]
  by (auto simp: testNoMsgCap_def intro!: reaches_passes)

lemma cap_test_passes:
  "inv st \<Longrightarrow> cap = 10 \<Longrightarrow> abs st = (\<lambda>mb. []) \<Longrightarrow> passes (testMsgCap ops now) st"
  unfolding testMsgCap_def by (rule reaches_passes [OF cap_reaches]) (simp_all add: keep_newest_def)

end

subsection \<open>The two stores\<close>

lemma Utoa_not_latest: "Utoa k \<noteq> ''latest''"
proof
  assume "Utoa k = ''latest''"
  with Utoa_hd_digit [of k] show False by (simp add: is_digit_def code_def)
qed

lemma mem_add_id:
  assumes "mem_capped c s" and "mem_AddMessage s m = (Ok i, s')"
  shows "i \<noteq> [] \<and> i \<noteq> ''latest''"
proof -
  have "i = Utoa (mb_last (get_box s' (sMailbox m)))"
    using mem_AddMessage_last(2) [OF _ assms(2) refl] assms(1) by (simp add: mem_capped_def)
  with Utoa_not_latest Utoa_digits show ?thesis by simp
qed

lemma mem_add_rest:
  assumes "mem_capped c s" and "mem_AddMessage s m = (r, s')"
  shows "deleted s' = deleted s" and "mem_known s' \<subseteq> insert (sMailbox m) (mem_known s)"
proof -
  have "s' = s \<or> (\<exists>mb. s' = s\<lparr>boxes := AList.update (sMailbox m) mb (boxes s)\<rparr>)"
    using assms by (auto simp: mem_AddMessage_def mem_capped_def withMailbox_def enforcerDeliver_def Let_def
        split: option.splits prod.splits)
  then have "deleted s' = deleted s \<and> fst ` set (boxes s') \<subseteq> insert (sMailbox m) (fst ` set (boxes s))"
    by (auto simp: dom_update simp del: set_map) (metis UnE dom_update fst_conv image_eqI singletonD)
  then show "deleted s' = deleted s" "mem_known s' \<subseteq> insert (sMailbox m) (mem_known s)" by (simp_all add: mem_known_def)
qed

lemma mem_emitted:
  assumes "mem_capped c s"
  shows "mem_GetMessages s n = (rg, s') \<Longrightarrow> deleted s' = deleted s"
    and "m \<in> set (mem_abs s n) \<Longrightarrow> mem_RemoveMessage s n (sID m) = (e, s') \<Longrightarrow> deleted s' = deleted s @ [MakeMetadata m]"
    and "mem_PurgeMessages s n = (e, s') \<Longrightarrow> deleted s' = deleted s @ map MakeMetadata (mem_abs s n)"
proof -
  have ok: "mem_ok s" "boxes_ok s" "enf s = None" using assms by (simp_all add: mem_capped_def mem_ok_def)
  show "mem_GetMessages s n = (rg, s') \<Longrightarrow> deleted s' = deleted s"
    by (auto simp: mem_GetMessages_def withMailbox_def Let_def)
  show "mem_PurgeMessages s n = (e, s') \<Longrightarrow> deleted s' = deleted s @ map MakeMetadata (mem_abs s n)"
    using mem_PurgeMessages_spec(6) [OF ok(1)] by blast
  show "deleted s' = deleted s @ [MakeMetadata m]" if m: "m \<in> set (mem_abs s n)" and r: "mem_RemoveMessage s n (sID m) = (e, s')"
  proof -
    obtain x where x: "x \<in> set (msgs_of s n)" "m = to_message x" using m by (auto simp: mem_abs_def)
    obtain q s1 where q: "removeMessage s n (sID m) = (q, s1)" by fastforce
    note sp = removeMessage_spec [OF ok(2) q]
    have "distinct (map mm_id (msgs_of s n))"
      using mem.ids_distinct [OF ok(1), of n] by (simp add: mem_abs_def comp_def)
    then have "q = Some x" unfolding sp(4) using x
      by (auto simp: find_Some_iff in_set_conv_nth distinct_conv_nth)
    moreover from this have "deleted s' = deleted s1"
      using r q sp(5) ok(3) by (simp add: mem_RemoveMessage_def enforcerRemove_def split: option.splits)
    ultimately show ?thesis using sp(7) x(2) by simp
  qed
qed

interpretation mem_suite: suite_store mem_ops mem_abs "mem_capped c" c mem_VisitMailboxes mem_known deleted for c
proof (unfold_locales, goal_cases)
  case (1 st mb)
  obtain r st' where g: "mem_GetMessage st mb ''latest'' = (r, st')" by fastforce
  have "mem_ok st" using 1(1) by (simp add: mem_capped_def)
  from mem_GetMessage_spec(3) [OF this g] g 1(2) show ?case by (simp add: mem_ops_def)
next
  case (2 st m i st') then show ?case using mem_add_id by (simp add: mem_ops_def)
next
  case (3 st m i st') then show ?case using mem_add_rest(2) by (simp add: mem_ops_def)
next
  case (4 st m ra st') then show ?case using mem_add_rest(1) by (simp add: mem_ops_def)
next
  case (5 st mb rg st') then show ?case using mem_emitted(1) by (simp add: mem_ops_def)
next
  case (6 st m mb e st') then show ?case using mem_emitted(2) by (simp add: mem_ops_def)
next
  case (7 st mb e st') then show ?case using mem_emitted(3) by (simp add: mem_ops_def)
qed

text \<open>The file store logs an event only where a message is removed.\<close>

named_theorems deleted_keeps

lemma on_world_keeps [deleted_keeps]: "on_world f st = (r, st') \<Longrightarrow> fs_deleted st' = fs_deleted st"
  by (auto simp: on_world_def Let_def split: prod.splits)

lemma on_world_snd [simp]: "fs_deleted (snd (on_world f st)) = fs_deleted st"
  by (simp add: on_world_def Let_def split: prod.split)

lemma createDir_keeps [deleted_keeps]: "createDir mb st = (r, st') \<Longrightarrow> fs_deleted st' = fs_deleted st"
  by (auto simp: createDir_def Let_def split: prod.splits if_splits dest!: deleted_keeps)

lemma removeDirIfEmpty_keeps [deleted_keeps]: "removeDirIfEmpty p st = (r, st') \<Longrightarrow> fs_deleted st' = fs_deleted st"
  by (auto simp: removeDirIfEmpty_def Let_def split: prod.splits if_splits option.splits dest!: deleted_keeps)

lemma removeDirIfEmpty_snd [simp]: "fs_deleted (snd (removeDirIfEmpty p st)) = fs_deleted st"
  using removeDirIfEmpty_keeps [of p st] by (cases "removeDirIfEmpty p st") simp

lemma removeDir_keeps [deleted_keeps]: "removeDir mb st = (r, st') \<Longrightarrow> fs_deleted st' = fs_deleted st"
  by (auto simp: removeDir_def Let_def split: prod.splits if_splits dest!: deleted_keeps)

lemma writeIndex_keeps [deleted_keeps]: "writeIndex mb st = (r, st') \<Longrightarrow> fs_deleted st' = fs_deleted st"
  by (auto simp: writeIndex_def Let_def split: prod.splits if_splits dest!: deleted_keeps)

lemma load_keeps [deleted_keeps]: "load mb st = (e, mb', st') \<Longrightarrow> fs_deleted st' = fs_deleted st \<and> messageCap st' = messageCap st"
  by (auto simp: load_def readIndex_def on_world_def Let_def split: prod.splits if_splits option.splits fdata.splits list.splits gobval.splits)

lemma newMessage_keeps [deleted_keeps]:
  "newMessage mb st = (r, mb', st') \<Longrightarrow> messageCap st \<le> 0 \<Longrightarrow> fs_deleted st' = fs_deleted st"
  by (auto simp: newMessage_def generateID_def Let_def split: prod.splits option.splits if_splits dest!: load_keeps)

lemma file_add_keeps:
  "messageCap st \<le> 0 \<Longrightarrow> file_AddMessage st m = (r, st') \<Longrightarrow> fs_deleted st' = fs_deleted st"
  by (auto simp: file_AddMessage_def Let_def split: prod.splits option.splits if_splits sum.splits dest!: deleted_keeps)

lemma file_add_id:
  assumes "file_ok st" and "file_AddMessage st m = (Ok i, st')"
  shows "i \<noteq> [] \<and> i \<noteq> ''latest''"
proof -
  obtain src where "sSource m = Some src" using assms(2) by (cases "sSource m") (auto simp: file_AddMessage_def Let_def)
  from AddMessage_ok [OF assms(1) this] assms(2) have "i = gen_id st (fs_count st)" by (metis prod.inject sum.inject(2))
  then have "CHR ''-'' \<in> set i" by (simp add: gen_id_def)
  then show ?thesis by (auto simp: code_def)
qed

interpretation file_suite: suite_store file_ops file_abs "file_laid_capped c p h I" c file_VisitMailboxes file_known fs_deleted for c p h I
proof (unfold_locales, goal_cases)
  case (1 st mb) then show ?case using GetMessage_ok [OF file_laid_cappedD(4) [OF 1(1)], of mb "''latest''"] by (simp add: file_ops_def)
next
  case (2 st m i st') then show ?case using file_add_id [OF file_laid_cappedD(4)] by (simp add: file_ops_def)
next
  case (3 st m i st')
  with laid.add_capped [OF 3] show ?case by (auto simp: file_known_def split: if_splits)
next
  case (4 st m ra st')
  then show ?case using file_add_keeps [of st m ra st'] by (simp add: file_ops_def file_laid_capped_def file_capped_def)
next
  case (5 st mb rg st') then show ?case using GetMessages_ok [OF file_laid_cappedD(4)] by (auto simp: file_ops_def)
next
  case (6 st m mb e st')
  note ok = file_laid_cappedD(4) [OF 6(1)]
  obtain x where x: "x \<in> set (index_msgs st mb)" "m = f_to_message st (fs_mbox st mb) x" using 6(2) by (auto simp: file_abs_map)
  have "f_removeMessage (fs_mbox st mb) (Fid x) st = f_removeMessage (fbox st mb (index_msgs st mb)) (Fid x) st"
    by (simp add: f_removeMessage_def load_ok [OF ok])
  moreover obtain st1 where "f_removeMessage (fbox st mb (index_msgs st mb)) (Fid x) st
      = (None, fbox st mb (filter (\<lambda>y. Fid y \<noteq> Fid x) (index_msgs st mb)), st1)"
    "fs_deleted st1 = fs_deleted st @ [MakeMetadata (f_to_message st (fs_mbox st mb) x)]"
    using removeMessage_ok [OF ok refl x(1)] by metis
  ultimately show ?case using 6(3) x(2) by (simp add: file_ops_def file_RemoveMessage_def)
next
  case (7 st mb e st')
  obtain st1 where "file_PurgeMessages st mb = (None, st1)" "fs_deleted st1 = fs_deleted st @ map MakeMetadata (file_abs st mb)"
    using Purge_ok [OF file_laid_cappedD(4) [OF 7(1)]] by metis
  with 7(2) show ?case by (simp add: file_ops_def)
qed

subsection \<open>The suite passes\<close>

text \<open>The factories of the two packages: a store without a size limit, and one in an empty directory.\<close>

definition mem_factory :: "storage_config \<Rightarrow> mem_store option" where
  "mem_factory conf = mem_New (MailboxMsgCap conf) (map_of (Params conf) ''maxkb'')"

definition file_factory :: "string \<Rightarrow> (string \<Rightarrow> string) \<Rightarrow> (nat \<Rightarrow> int \<times> string) \<Rightarrow> storage_config \<Rightarrow> fstore option" where
  "file_factory path sha1 clk conf =
     (case file_New (conf\<lparr>Params := [(''path'', path)]\<rparr>) no_files sha1 clk 0 of Inl e \<Rightarrow> None | Inr f \<Rightarrow> Some f)"

lemma mem_factory_new:
  obtains s where "mem_factory (suite_conf c) = Some s" "mem_capped c s" "mem_abs s = (\<lambda>mb. [])" "mem_known s = {}"
proof -
  let ?s = "\<lparr>boxes = [], mcap = c, enf = None, deleted = []\<rparr>"
  have f: "mem_New c None = Some ?s" by (simp add: mem_New_def)
  then have "mem_factory (suite_conf c) = Some ?s" by (simp add: mem_factory_def suite_conf_def)
  moreover have "mem_known ?s = {}" by (simp add: mem_known_def)
  ultimately show ?thesis using mem_New_capped [OF f] by (intro that [of ?s]) simp_all
qed

lemma file_factory_new:
  assumes "env_ok sha1 clk" and "path \<noteq> []"
  obtains f where "file_factory path sha1 clk (suite_conf c) = Some f"
    "file_laid_capped c (fs_mailPath f) sha1 (range (new_id clk)) f" "file_abs f = (\<lambda>mb. [])" "file_known f = {}"
proof -
  let ?conf = "(suite_conf c)\<lparr>Params := [(''path'', path)]\<rparr>"
  obtain f where f: "file_New ?conf no_files sha1 clk 0 = Ok f"
    using assms(2) by (auto simp: file_New_def suite_conf_def no_files_def os_Stat_def os_MkdirAll_def next_outcome_def path_exists_def Let_def)
  have "MailboxMsgCap ?conf = c" by (simp add: suite_conf_def)
  with file_New_layout [OF f assms(1)] f show ?thesis
    by (intro that [of f]) (simp_all add: file_factory_def file_known_def)
qed

text \<open>
  C21: the conformance suite of \<open>pkg/test\<close> passes on both stores, whatever the clock shows and in
  whatever order the goroutines of the events arrive.
\<close>
theorem stores_pass_suite:
  assumes "\<And>xs. mset (arrive xs) = mset xs" and "env_ok sha1 clk" and "path \<noteq> []"
  shows "list_all snd (StoreSuite mem_factory mem_ops mem_VisitMailboxes deleted now arrive)
    \<and> list_all snd (StoreSuite (file_factory path sha1 clk) file_ops file_VisitMailboxes fs_deleted now arrive)"
proof
  obtain s where s: "mem_factory (suite_conf 0) = Some s" "mem_capped 0 s" "mem_abs s = (\<lambda>mb. [])" "mem_known s = {}"
    by (rule mem_factory_new)
  obtain s10 where s10: "mem_factory (suite_conf 10) = Some s10" "mem_capped 10 s10" "mem_abs s10 = (\<lambda>mb. [])"
    by (rule mem_factory_new)
  note t = mem_suite.tests_pass [OF s(2) refl s(3,4) assms(1), of now] mem_suite.cap_test_passes [OF s10(2) refl s10(3), of now]
  show "list_all snd (StoreSuite mem_factory mem_ops mem_VisitMailboxes deleted now arrive)"
    by (simp add: StoreSuite_def run_test_def s(1) s10(1) t)
  obtain f where f: "file_factory path sha1 clk (suite_conf 0) = Some f"
    "file_laid_capped 0 (fs_mailPath f) sha1 (range (new_id clk)) f" "file_abs f = (\<lambda>mb. [])" "file_known f = {}"
    by (rule file_factory_new [OF assms(2,3)])
  obtain f10 where f10: "file_factory path sha1 clk (suite_conf 10) = Some f10"
    "file_laid_capped 10 (fs_mailPath f10) sha1 (range (new_id clk)) f10" "file_abs f10 = (\<lambda>mb. [])"
    by (rule file_factory_new [OF assms(2,3)])
  note t = file_suite.tests_pass [OF f(2) refl f(3,4) assms(1), of now] file_suite.cap_test_passes [OF f10(2) refl f10(3), of now]
  show "list_all snd (StoreSuite (file_factory path sha1 clk) file_ops file_VisitMailboxes fs_deleted now arrive)"
    by (simp add: StoreSuite_def run_test_def f(1) f10(1) t)
qed

theorem stores_pass_suite_witness:
  "list_all snd (StoreSuite mem_factory mem_ops mem_VisitMailboxes deleted (\<lambda>i. int i) rev)
    \<and> list_all snd (StoreSuite (file_factory ''/d'' (\<lambda>x. ''sha'' @ x) (example_clock ''a'')) file_ops file_VisitMailboxes
        fs_deleted (\<lambda>i. int i) rev)"
  by (rule stores_pass_suite [OF _ example_env]) simp_all

end
