(* ===== verification/TestStubs.thy ===== *)
theory TestStubs
  imports Retention Manager
begin

text \<open>
  \<open>pkg/test/storage.go\<close> and \<open>pkg/test/manager.go\<close>: the stubs that the tests of the program use in
  place of a store and of the manager. The store stub hands out its slices, so what its operations do
  to the arrays behind them can be seen by a caller: arrays and wrapped messages are in a heap, with
  addresses. The stub is shown to behave as lists of messages between the operations of a client,
  and not to do so for a scan that deletes while it reads.
\<close>

subsection \<open>The heap of the store stub\<close>

text \<open>
  A message of a client is its address and what its getters return; a \<open>MessageStub\<close> adds the seen
  flag. An array is the elements that were ever written to it and its capacity; a slice is an array
  and a length (the slices of the stub start at the first element). Array 0 is that of nil.
\<close>

type_synonym client_message = "nat \<times> message"
type_synonym MessageStub = "client_message \<times> bool"
type_synonym slice = "nat \<times> nat"

record StoreStub =
  stubs :: "MessageStub list"
  arrays :: "(nat list \<times> nat) list"
  stub_boxes :: "string \<Rightarrow> slice option"
  stub_deleted :: "nat set"

datatype stub_error = InternalError | StubNotExist

definition NewStore :: StoreStub where
  [go_eval]: "NewStore = \<lparr>stubs = [], arrays = [([], 0)], stub_boxes = (\<lambda>mb. None), stub_deleted = {}\<rparr>"

definition stub_message :: "StoreStub \<Rightarrow> nat \<Rightarrow> message" where
  [go_eval]: "stub_message st p = snd (fst (stubs st ! p))"

definition box_slice :: "StoreStub \<Rightarrow> string \<Rightarrow> slice" where
  [go_eval]: "box_slice st mb = (case stub_boxes st mb of None \<Rightarrow> (0, 0) | Some s \<Rightarrow> s)"

definition elems :: "StoreStub \<Rightarrow> slice \<Rightarrow> nat list" where
  [go_eval]: "elems st s = take (snd s) (fst (arrays st ! fst s))"

text \<open>
  Go's \<open>append\<close>: in place while the capacity is enough, else into a new array. How much more a new
  array has than it needs is up to the run-time system (\<open>grow\<close>).
\<close>

definition append_slice :: "(nat \<Rightarrow> nat) \<Rightarrow> slice \<Rightarrow> nat list \<Rightarrow> StoreStub \<Rightarrow> slice \<times> StoreStub" where
  [go_eval]: "append_slice grow s ys st =
     (let (a, n) = s; (es, c) = arrays st ! a; m = n + length ys in
      if m \<le> c then ((a, m), st\<lparr>arrays := (arrays st)[a := (take n es @ ys @ drop m es, c)]\<rparr>)
      else ((length (arrays st), m), st\<lparr>arrays := arrays st @ [(take n es @ ys, m + grow m)]\<rparr>))"

definition set_box :: "(nat \<Rightarrow> nat) \<Rightarrow> string \<Rightarrow> slice \<Rightarrow> nat list \<Rightarrow> StoreStub \<Rightarrow> StoreStub" where
  [go_eval]: "set_box grow mb s ys st =
     (let (s, st) = append_slice grow s ys st in st\<lparr>stub_boxes := (stub_boxes st)(mb \<mapsto> s)\<rparr>)"

subsection \<open>The operations of the store stub\<close>

definition stub_AddMessage :: "(nat \<Rightarrow> nat) \<Rightarrow> client_message \<Rightarrow> StoreStub \<Rightarrow> string \<times> StoreStub" where
  [go_eval]: "stub_AddMessage grow m st =
     (let mb = sMailbox (snd m); msgs = box_slice st mb; p = length (stubs st)
      in (sID (snd m), set_box grow mb msgs [p] (st\<lparr>stubs := stubs st @ [(m, False)]\<rparr>)))"

text \<open>The loops that look for an id: the position of the first message that has it.\<close>

fun id_index :: "string \<Rightarrow> MessageStub list \<Rightarrow> nat option" where
  "id_index i [] = None"
| "id_index i (m # ms) = (if sID (snd (fst m)) = i then Some 0 else map_option Suc (id_index i ms))"

definition stub_find :: "StoreStub \<Rightarrow> string \<Rightarrow> string \<Rightarrow> nat option" where
  [go_eval]: "stub_find st mailbox i = id_index i (map ((!) (stubs st)) (elems st (box_slice st mailbox)))"

definition stub_GetMessage :: "string \<Rightarrow> string \<Rightarrow> StoreStub \<Rightarrow> (stub_error, nat) result" where
  [go_eval]: "stub_GetMessage mailbox i st =
     (if mailbox = ''messageerr'' then Err InternalError
      else case stub_find st mailbox i of
        None \<Rightarrow> Err StubNotExist
      | Some k \<Rightarrow> Ok (elems st (box_slice st mailbox) ! k))"

definition stub_GetMessages :: "string \<Rightarrow> StoreStub \<Rightarrow> (stub_error, slice) result" where
  [go_eval]: "stub_GetMessages mailbox st =
     (if mailbox = ''messageserr'' then Err InternalError else Ok (box_slice st mailbox))"

definition stub_MarkSeen :: "string \<Rightarrow> string \<Rightarrow> StoreStub \<Rightarrow> stub_error option \<times> StoreStub" where
  [go_eval]: "stub_MarkSeen mailbox i st =
     (if mailbox = ''messageerr'' then (Some InternalError, st)
      else case stub_find st mailbox i of
        None \<Rightarrow> (Some StubNotExist, st)
      | Some k \<Rightarrow>
          (let p = elems st (box_slice st mailbox) ! k
           in (None, st\<lparr>stubs := (stubs st)[p := (fst (stubs st ! p), True)]\<rparr>)))"

text \<open>The messages behind the one that goes are moved to the front, in the array of the slice.\<close>

definition stub_RemoveMessage :: "(nat \<Rightarrow> nat) \<Rightarrow> string \<Rightarrow> string \<Rightarrow> StoreStub \<Rightarrow> stub_error option \<times> StoreStub" where
  [go_eval]: "stub_RemoveMessage grow mailbox i st =
     (let mb = box_slice st mailbox in
      case stub_find st mailbox i of
        None \<Rightarrow> (Some StubNotExist, st)
      | Some k \<Rightarrow>
          (let removed = elems st mb ! k; st = set_box grow mailbox (fst mb, k) (drop (Suc k) (elems st mb)) st
           in (None, st\<lparr>stub_deleted := insert (fst (fst (stubs st ! removed))) (stub_deleted st)\<rparr>)))"

definition stub_PurgeMessages :: "string \<Rightarrow> StoreStub \<Rightarrow> StoreStub" where
  [go_eval]: "stub_PurgeMessages mailbox st =
     st\<lparr>stub_deleted := foldl (\<lambda>d p. insert (fst (fst (stubs st ! p))) d) (stub_deleted st) (elems st (box_slice st mailbox)),
        stub_boxes := (stub_boxes st)(mailbox \<mapsto> (0, 0))\<rparr>"

definition MessageDeleted :: "StoreStub \<Rightarrow> client_message \<Rightarrow> bool" where
  [go_eval]: "MessageDeleted st m \<longleftrightarrow> fst m \<in> stub_deleted st"

text \<open>The mailboxes are visited in the order in which \<open>range\<close> meets them; a slice is what \<open>f\<close> is given.\<close>

fun stub_VisitMailboxes :: "string list \<Rightarrow> (slice \<Rightarrow> StoreStub \<Rightarrow> 'a \<Rightarrow> bool \<times> StoreStub \<times> 'a) \<Rightarrow> StoreStub \<Rightarrow> 'a \<Rightarrow> StoreStub \<times> 'a" where
  "stub_VisitMailboxes [] f st x = (st, x)"
| "stub_VisitMailboxes (mb # mbs) f st x =
     (case f (box_slice st mb) st x of
        (cont, st, x) \<Rightarrow> if cont then stub_VisitMailboxes mbs f st x else (st, x))"

text \<open>The scan of \<open>pkg/storage/retention.go\<close> reads the slice anew in every round of its loop.\<close>

fun slice_expire :: "(nat \<Rightarrow> nat) \<Rightarrow> int \<Rightarrow> nat \<Rightarrow> nat list \<Rightarrow> StoreStub \<Rightarrow> scan \<Rightarrow> StoreStub \<times> scan" where
  "slice_expire grow cutoff a [] st sc = (st, sc)"
| "slice_expire grow cutoff a (k # ks) st sc =
     (let msg = stub_message st (fst (arrays st ! a) ! k) in
      if sDate msg < cutoff then
        (case stub_RemoveMessage grow (sMailbox msg) (sID msg) st of
           (Some e, st) \<Rightarrow> slice_expire grow cutoff a ks st sc
         | (None, st) \<Rightarrow> slice_expire grow cutoff a ks st (sc\<lparr>deletesTotal := Suc (deletesTotal sc)\<rparr>))
      else slice_expire grow cutoff a ks st
             (sc\<lparr>retained := Suc (retained sc), storeSize := storeSize sc + sSize msg\<rparr>))"

definition slice_scan_box :: "(nat \<Rightarrow> nat) \<Rightarrow> int \<Rightarrow> slice \<Rightarrow> StoreStub \<Rightarrow> scan \<Rightarrow> bool \<times> StoreStub \<times> scan" where
  [go_eval]: "slice_scan_box grow cutoff messages st sc =
     (let (st, sc) = slice_expire grow cutoff (fst messages) [0..<snd messages] st sc in
      case stops sc of
        [] \<Rightarrow> (True, st, sc)
      | stop # rest \<Rightarrow> (\<not> stop, st, sc\<lparr>stops := rest\<rparr>))"

definition stub_DoScan :: "(nat \<Rightarrow> nat) \<Rightarrow> string list \<Rightarrow> int \<Rightarrow> int \<Rightarrow> bool list \<Rightarrow> StoreStub \<Rightarrow> StoreStub \<times> scan" where
  [go_eval]: "stub_DoScan grow order now retentionPeriod sts st =
     (let cutoff = now + (-1) * retentionPeriod
      in stub_VisitMailboxes order (slice_scan_box grow cutoff) st
           \<lparr>retained = 0, storeSize = 0, deletesTotal = 0, stops = sts\<rparr>)"

subsection \<open>What a client sees\<close>

definition stub_box :: "StoreStub \<Rightarrow> string \<Rightarrow> MessageStub list" where
  "stub_box st mb = map ((!) (stubs st)) (elems st (box_slice st mb))"

datatype stub_call = SAdd client_message | SGet string string | SList string | SSeen string string
  | SRemove string string | SPurge string

datatype stub_result = RId string | RNil | RError stub_error | RMessage MessageStub | RMessages "MessageStub list"

definition of_error :: "stub_error option \<Rightarrow> stub_result" where
  "of_error e = (case e of None \<Rightarrow> RNil | Some e \<Rightarrow> RError e)"

fun stub_exec :: "(nat \<Rightarrow> nat) \<Rightarrow> stub_call \<Rightarrow> StoreStub \<Rightarrow> stub_result \<times> StoreStub" where
  "stub_exec grow (SAdd m) st = apfst RId (stub_AddMessage grow m st)"
| "stub_exec grow (SGet mb i) st =
     ((case stub_GetMessage mb i st of Inl e \<Rightarrow> RError e | Inr p \<Rightarrow> RMessage (stubs st ! p)), st)"
| "stub_exec grow (SList mb) st =
     ((case stub_GetMessages mb st of Inl e \<Rightarrow> RError e | Inr s \<Rightarrow> RMessages (map ((!) (stubs st)) (elems st s))), st)"
| "stub_exec grow (SSeen mb i) st = apfst of_error (stub_MarkSeen mb i st)"
| "stub_exec grow (SRemove mb i) st = apfst of_error (stub_RemoveMessage grow mb i st)"
| "stub_exec grow (SPurge mb) st = (RNil, stub_PurgeMessages mb st)"

fun stub_execs :: "(nat \<Rightarrow> nat) \<Rightarrow> stub_call list \<Rightarrow> StoreStub \<Rightarrow> stub_result list \<times> StoreStub" where
  "stub_execs grow [] st = ([], st)"
| "stub_execs grow (c # cs) st =
     (let (r, st) = stub_exec grow c st; (rs, st) = stub_execs grow cs st in (r # rs, st))"

text \<open>The specification: mailboxes as lists, the deleted messages as a set.\<close>

fun first_with :: "string \<Rightarrow> MessageStub list \<Rightarrow> MessageStub option" where
  "first_with i [] = None"
| "first_with i (m # ms) = (if sID (snd (fst m)) = i then Some m else first_with i ms)"

fun without_first :: "string \<Rightarrow> MessageStub list \<Rightarrow> MessageStub list" where
  "without_first i [] = []"
| "without_first i (m # ms) = (if sID (snd (fst m)) = i then ms else m # without_first i ms)"

fun first_seen :: "string \<Rightarrow> MessageStub list \<Rightarrow> MessageStub list" where
  "first_seen i [] = []"
| "first_seen i (m # ms) = (if sID (snd (fst m)) = i then (fst m, True) # ms else m # first_seen i ms)"

type_synonym stub_lists = "(string \<Rightarrow> MessageStub list) \<times> nat set"

fun lists_exec :: "stub_call \<Rightarrow> stub_lists \<Rightarrow> stub_result \<times> stub_lists" where
  "lists_exec (SAdd m) (bs, d) = (RId (sID (snd m)), bs(sMailbox (snd m) := bs (sMailbox (snd m)) @ [(m, False)]), d)"
| "lists_exec (SGet mb i) (bs, d) =
     ((if mb = ''messageerr'' then RError InternalError
       else case first_with i (bs mb) of None \<Rightarrow> RError StubNotExist | Some m \<Rightarrow> RMessage m), bs, d)"
| "lists_exec (SList mb) (bs, d) = ((if mb = ''messageserr'' then RError InternalError else RMessages (bs mb)), bs, d)"
| "lists_exec (SSeen mb i) (bs, d) =
     (if mb = ''messageerr'' then (RError InternalError, bs, d)
      else if first_with i (bs mb) = None then (RError StubNotExist, bs, d)
      else (RNil, bs(mb := first_seen i (bs mb)), d))"
| "lists_exec (SRemove mb i) (bs, d) =
     (case first_with i (bs mb) of
        None \<Rightarrow> (RError StubNotExist, bs, d)
      | Some m \<Rightarrow> (RNil, bs(mb := without_first i (bs mb)), insert (fst (fst m)) d))"
| "lists_exec (SPurge mb) (bs, d) = (RNil, bs(mb := []), (\<lambda>m. fst (fst m)) ` set (bs mb) \<union> d)"

fun lists_execs :: "stub_call list \<Rightarrow> stub_lists \<Rightarrow> stub_result list \<times> stub_lists" where
  "lists_execs [] s = ([], s)"
| "lists_execs (c # cs) s = (let (r, s) = lists_exec c s; (rs, s) = lists_execs cs s in (r # rs, s))"

subsection \<open>The separation of the mailboxes\<close>

text \<open>No two mailboxes share an array, but for that of nil, and none shares a wrapped message.\<close>

definition slices_ok :: "(nat list \<times> nat) list \<Rightarrow> (string \<Rightarrow> slice) \<Rightarrow> bool" where
  "slices_ok A B \<longleftrightarrow> A \<noteq> [] \<and> A ! 0 = ([], 0) \<and> (\<forall>x\<in>set A. length (fst x) \<le> snd x)
    \<and> (\<forall>mb. fst (B mb) < length A \<and> snd (B mb) \<le> length (fst (A ! fst (B mb))))
    \<and> (\<forall>mb mb'. mb \<noteq> mb' \<longrightarrow> fst (B mb) = fst (B mb') \<longrightarrow> fst (B mb) = 0)"

definition ptrs :: "StoreStub \<Rightarrow> string \<Rightarrow> nat list" where
  "ptrs st mb = elems st (box_slice st mb)"

definition stub_inv :: "StoreStub \<Rightarrow> bool" where
  "stub_inv st \<longleftrightarrow> slices_ok (arrays st) (box_slice st)
    \<and> (\<forall>mb. distinct (ptrs st mb) \<and> set (ptrs st mb) \<subseteq> {..<length (stubs st)})
    \<and> (\<forall>mb mb'. mb \<noteq> mb' \<longrightarrow> set (ptrs st mb) \<inter> set (ptrs st mb') = {})"

lemma stub_box_ptrs: "stub_box st mb = map ((!) (stubs st)) (ptrs st mb)"
  by (simp add: stub_box_def ptrs_def)

lemma slices_okD:
  assumes "slices_ok A B"
  shows "0 < length A" and "A ! 0 = ([], 0)" and "fst (B mb) < length A"
    and "snd (B mb) \<le> length (fst (A ! fst (B mb)))"
    and "a < length A \<Longrightarrow> length (fst (A ! a)) \<le> snd (A ! a)"
    and "mb \<noteq> mb' \<Longrightarrow> fst (B mb) = fst (B mb') \<Longrightarrow> fst (B mb) = 0"
  using assms by (simp_all add: slices_ok_def)

lemma length_ptrs: "stub_inv st \<Longrightarrow> length (ptrs st mb) = snd (box_slice st mb)"
  using slices_okD(4) [of "arrays st" "box_slice st" mb] by (simp add: ptrs_def elems_def stub_inv_def)

text \<open>A slice that is written in place, and one that moves to a new array.\<close>

lemma slices_ok_write:
  assumes ok: "slices_ok A B" and a: "a = fst (B mb)" "A ! a = (es, c)" and len: "length es' \<le> c" "m \<le> length es'"
  shows "slices_ok (A[a := (es', c)]) (B(mb := (a, m)))"
proof -
  note d = slices_okD [OF ok]
  have al: "a < length A" using d(3) a(1) by simp
  have zero: "es' = []" "es = []" "c = 0" if "a = 0" using d(2) a(2) len that by auto
  have ne: "A[a := (es', c)] \<noteq> []" using d(1) by auto
  have first: "A[a := (es', c)] ! 0 = ([], 0)" using d(1,2) zero by (cases "a = 0") simp_all
  have room: "\<forall>x\<in>set (A[a := (es', c)]). length (fst x) \<le> snd x"
    using ok len(1) set_update_subset_insert [of A a "(es', c)"] by (auto simp: slices_ok_def)
  have fits: "fst ((B(mb := (a, m))) x) < length (A[a := (es', c)])
      \<and> snd ((B(mb := (a, m))) x) \<le> length (fst (A[a := (es', c)] ! fst ((B(mb := (a, m))) x)))" for x
  proof (cases "x = mb")
    case True
    then show ?thesis using al len(2) by simp
  next
    case False
    have "fst (B x) = a \<Longrightarrow> a = 0" using d(6) [OF False] a(1) by auto
    then show ?thesis using False d(3,4) [of x] zero a(2) by (cases "fst (B x) = a") auto
  qed
  have apart: "fst ((B(mb := (a, m))) x) = 0" if "x \<noteq> y" "fst ((B(mb := (a, m))) x) = fst ((B(mb := (a, m))) y)" for x y
  proof -
    have "fst ((B(mb := (a, m))) z) = fst (B z)" for z using a(1) by simp
    then show ?thesis using d(6) [OF that(1)] that(2) by simp
  qed
  show ?thesis unfolding slices_ok_def using ne first room fits apart by blast
qed

lemma slices_ok_move:
  assumes ok: "slices_ok A B" and len: "length es' \<le> c" "m \<le> length es'"
  shows "slices_ok (A @ [(es', c)]) (B(mb := (length A, m)))"
proof -
  note d = slices_okD [OF ok]
  have "fst (B x) \<noteq> length A" for x using d(3) [of x] by simp
  then have apart: "fst ((B(mb := (length A, m))) x) = 0"
    if "x \<noteq> y" "fst ((B(mb := (length A, m))) x) = fst ((B(mb := (length A, m))) y)" for x y
    using that d(6) [OF that(1)] by (cases "x = mb"; cases "y = mb") (auto dest: sym)
  have "fst ((B(mb := (length A, m))) x) < length (A @ [(es', c)])
      \<and> snd ((B(mb := (length A, m))) x) \<le> length (fst ((A @ [(es', c)]) ! fst ((B(mb := (length A, m))) x)))" for x
    using d(3,4) [of x] len(2) by (cases "x = mb") (auto simp: nth_append)
  moreover have "(A @ [(es', c)]) ! 0 = ([], 0)" using d(1,2) by (simp add: nth_append)
  moreover have "\<forall>x\<in>set (A @ [(es', c)]). length (fst x) \<le> snd x" using ok len(1) by (auto simp: slices_ok_def)
  ultimately show ?thesis unfolding slices_ok_def using apart by blast
qed

text \<open>What an append to a mailbox does to the fields.\<close>

lemma set_box_fields:
  assumes "arrays st ! a = (es, c)"
  shows "stubs (set_box grow mb (a, k) ys st) = stubs st" and "stub_deleted (set_box grow mb (a, k) ys st) = stub_deleted st"
    and "k + length ys \<le> c \<Longrightarrow> arrays (set_box grow mb (a, k) ys st)
      = (arrays st)[a := (take k es @ ys @ drop (k + length ys) es, c)]"
    and "k + length ys \<le> c \<Longrightarrow> box_slice (set_box grow mb (a, k) ys st) = (box_slice st)(mb := (a, k + length ys))"
    and "\<not> k + length ys \<le> c \<Longrightarrow> arrays (set_box grow mb (a, k) ys st)
      = arrays st @ [(take k es @ ys, k + length ys + grow (k + length ys))]"
    and "\<not> k + length ys \<le> c \<Longrightarrow> box_slice (set_box grow mb (a, k) ys st)
      = (box_slice st)(mb := (length (arrays st), k + length ys))"
  using assms by (simp_all add: set_box_def append_slice_def Let_def box_slice_def fun_eq_iff)

text \<open>The frame rule: an append to a part of a mailbox's slice leaves the other mailboxes as they were.\<close>

lemma set_box_frame:
  assumes ok: "slices_ok (arrays st) (box_slice st)" and s: "box_slice st mb = (a, n)" and k: "k \<le> n"
  shows "slices_ok (arrays (set_box grow mb (a, k) ys st)) (box_slice (set_box grow mb (a, k) ys st))"
    and "ptrs (set_box grow mb (a, k) ys st) = (ptrs st)(mb := take k (ptrs st mb) @ ys)"
proof -
  note d = slices_okD [OF ok]
  obtain es c where ec: "arrays st ! a = (es, c)" by fastforce
  note f = set_box_fields [OF ec, where grow = grow and mb = mb and k = k and ys = ys]
  have a: "a < length (arrays st)" and n: "n \<le> length es" and c: "length es \<le> c"
    using d(3,4) [of mb] d(5) [of a] s ec by simp_all
  have "slices_ok (arrays (set_box grow mb (a, k) ys st)) (box_slice (set_box grow mb (a, k) ys st))
    \<and> ptrs (set_box grow mb (a, k) ys st) = (ptrs st)(mb := take k (ptrs st mb) @ ys)"
  proof (cases "k + length ys \<le> c")
    case True
    have pt: "ptrs (set_box grow mb (a, k) ys st) x = ((ptrs st)(mb := take k (ptrs st mb) @ ys)) x" for x
    proof (cases "x = mb")
      case True
      then show ?thesis using f(3,4) \<open>k + length ys \<le> c\<close> a n k s ec by (simp add: ptrs_def elems_def)
    next
      case False
      have "fst (box_slice st x) = a \<Longrightarrow> snd (box_slice st x) = 0"
        using d(6) [OF False] d(2) d(4) [of x] s by auto
      then show ?thesis
        using False f(3,4) [OF True] by (cases "fst (box_slice st x) = a") (simp_all add: ptrs_def elems_def)
    qed
    have ok': "slices_ok ((arrays st)[a := (take k es @ ys @ drop (k + length ys) es, c)])
        ((box_slice st)(mb := (a, k + length ys)))"
      by (rule slices_ok_write [OF ok _ ec]) (use s n c k True in simp_all)
    show ?thesis using ok' f(3,4) [OF True] pt by (auto intro: ext)
  next
    case False
    have pt: "ptrs (set_box grow mb (a, k) ys st) x = ((ptrs st)(mb := take k (ptrs st mb) @ ys)) x" for x
      using f(5,6) [OF False] n k s ec d(3) [of x] by (cases "x = mb") (simp_all add: ptrs_def elems_def nth_append)
    have ok': "slices_ok (arrays st @ [(take k es @ ys, k + length ys + grow (k + length ys))])
        ((box_slice st)(mb := (length (arrays st), k + length ys)))"
      by (rule slices_ok_move [OF ok]) (use n k in simp_all)
    show ?thesis using ok' f(5,6) [OF False] pt by (auto intro: ext)
  qed
  then show "slices_ok (arrays (set_box grow mb (a, k) ys st)) (box_slice (set_box grow mb (a, k) ys st))"
    and "ptrs (set_box grow mb (a, k) ys st) = (ptrs st)(mb := take k (ptrs st mb) @ ys)" by simp_all
qed

subsection \<open>The operations on lists\<close>

lemma id_index_None: "id_index i ms = None \<longleftrightarrow> first_with i ms = None"
  by (induction ms) simp_all

lemma id_index_Some:
  assumes "id_index i ms = Some k"
  shows "k < length ms" and "first_with i ms = Some (ms ! k)" and "without_first i ms = take k ms @ drop (Suc k) ms"
    and "first_seen i ms = ms[k := (fst (ms ! k), True)]"
proof -
  have "k < length ms \<and> first_with i ms = Some (ms ! k) \<and> without_first i ms = take k ms @ drop (Suc k) ms
    \<and> first_seen i ms = ms[k := (fst (ms ! k), True)]"
    using assms by (induction ms arbitrary: k) (auto split: if_splits)
  then show "k < length ms" and "first_with i ms = Some (ms ! k)" and "without_first i ms = take k ms @ drop (Suc k) ms"
    and "first_seen i ms = ms[k := (fst (ms ! k), True)]" by simp_all
qed

lemma map_nth_update:
  assumes "distinct ps" and "set ps \<subseteq> {..<length xs}" and "k < length ps"
  shows "map ((!) (xs[ps ! k := v])) ps = (map ((!) xs) ps)[k := v]"
proof (rule nth_equalityI)
  fix j assume "j < length (map ((!) (xs[ps ! k := v])) ps)"
  then have j: "j < length ps" by simp
  then have "ps ! k < length xs" using assms nth_mem by blast
  with j assms(1,3) show "map ((!) (xs[ps ! k := v])) ps ! j = (map ((!) xs) ps)[k := v] ! j"
    by (cases "j = k") (auto simp: nth_eq_iff_index_eq)
qed simp

lemma map_nth_unchanged: "p \<notin> set ps \<Longrightarrow> map ((!) (xs[p := v])) ps = map ((!) xs) ps"
  by (induction ps) (auto simp: nth_list_update_neq)

lemma stub_invD:
  assumes "stub_inv st"
  shows "slices_ok (arrays st) (box_slice st)" and "distinct (ptrs st mb)"
    and "set (ptrs st mb) \<subseteq> {..<length (stubs st)}" and "mb \<noteq> mb' \<Longrightarrow> set (ptrs st mb) \<inter> set (ptrs st mb') = {}"
  using assms unfolding stub_inv_def by blast+

lemma stub_find_ptrs: "stub_find st mb i = id_index i (stub_box st mb)"
  by (simp add: stub_find_def stub_box_def)

lemma add_refines:
  assumes inv: "stub_inv st" and e: "stub_AddMessage grow m st = (r, st')"
  shows "stub_inv st' \<and> r = sID (snd m) \<and> stub_deleted st' = stub_deleted st
    \<and> stub_box st' = (stub_box st)(sMailbox (snd m) := stub_box st (sMailbox (snd m)) @ [(m, False)])"
proof -
  let ?mb = "sMailbox (snd m)"
  let ?st = "st\<lparr>stubs := stubs st @ [(m, False)]\<rparr>"
  obtain a n where s: "box_slice st ?mb = (a, n)" by fastforce
  obtain es c where ec: "arrays ?st ! a = (es, c)" by fastforce
  have same: "box_slice ?st = box_slice st" "ptrs ?st = ptrs st"
    by (simp_all add: fun_eq_iff box_slice_def ptrs_def elems_def)
  note d = stub_invD [OF inv]
  have st': "st' = set_box grow ?mb (a, n) [length (stubs st)] ?st" and r: "r = sID (snd m)"
    using e s by (simp_all add: stub_AddMessage_def Let_def)
  have n: "take n (ptrs st ?mb) = ptrs st ?mb" using length_ptrs [OF inv, of ?mb] s by simp
  have ok: "slices_ok (arrays ?st) (box_slice ?st)" using d(1) same by simp
  note f = set_box_frame [OF ok, where mb = ?mb and a = a and n = n and k = n and grow = grow and ys = "[length (stubs st)]",
    folded st', unfolded same n, OF s order_refl]
  have stubs: "stubs st' = stubs st @ [(m, False)]" and del: "stub_deleted st' = stub_deleted st"
    using set_box_fields(1,2) [OF ec] unfolding st' by simp_all
  have new: "length (stubs st) \<notin> set (ptrs st x)" for x using d(3) [of x] by auto
  have box: "map ((!) (stubs st @ [(m, False)])) (ptrs st x) = map ((!) (stubs st)) (ptrs st x)" for x
    using d(3) [of x] by (intro map_cong) (auto simp: nth_append)
  have "stub_box st' = (stub_box st)(?mb := stub_box st ?mb @ [(m, False)])"
    by (simp add: fun_eq_iff stub_box_ptrs f(2) stubs box)
  moreover have "stub_inv st'"
    unfolding stub_inv_def f(2) stubs using f(1) new d(2-4) by (auto simp: less_Suc_eq subset_iff)
  ultimately show ?thesis using r del by simp
qed

lemma seen_refines:
  assumes inv: "stub_inv st" and k: "id_index i (stub_box st mb) = Some k"
    and st': "st' = st\<lparr>stubs := (stubs st)[ptrs st mb ! k := (fst (stubs st ! (ptrs st mb ! k)), True)]\<rparr>"
  shows "stub_inv st' \<and> stub_box st' = (stub_box st)(mb := first_seen i (stub_box st mb))"
proof -
  note d = stub_invD [OF inv] and i = id_index_Some [OF k]
  have kl: "k < length (ptrs st mb)" using i(1) by (simp add: stub_box_ptrs)
  have same: "box_slice st' = box_slice st" "arrays st' = arrays st" "ptrs st' = ptrs st" "length (stubs st') = length (stubs st)"
    by (simp_all add: st' fun_eq_iff box_slice_def ptrs_def elems_def)
  have "ptrs st mb ! k \<notin> set (ptrs st x)" if "x \<noteq> mb" for x using d(4) [OF that] kl nth_mem by blast
  then have "stub_box st' x = stub_box st x" if "x \<noteq> mb" for x
    using that unfolding stub_box_ptrs same(3) by (simp add: map_nth_unchanged st' del: map_eq_conv)
  moreover have "stub_box st' mb = first_seen i (stub_box st mb)"
    unfolding i(4) using map_nth_update [OF d(2,3) kl] kl unfolding stub_box_ptrs same(3) by (simp add: st')
  moreover have "stub_inv st'" using inv by (simp add: stub_inv_def same)
  ultimately show ?thesis by (simp add: fun_eq_iff)
qed

lemma remove_refines:
  assumes inv: "stub_inv st" and s: "box_slice st mb = (a, n)" and k: "id_index i (stub_box st mb) = Some k"
    and st': "st' = (set_box grow mb (a, k) (drop (Suc k) (ptrs st mb)) st)\<lparr>stub_deleted := del\<rparr>"
  shows "stub_inv st' \<and> stub_box st' = (stub_box st)(mb := without_first i (stub_box st mb))"
    and "stubs st' = stubs st" and "ptrs st' = (ptrs st)(mb := take k (ptrs st mb) @ drop (Suc k) (ptrs st mb))"
proof -
  let ?st = "set_box grow mb (a, k) (drop (Suc k) (ptrs st mb)) st"
  note d = stub_invD [OF inv] and i = id_index_Some [OF k]
  obtain es c where ec: "arrays st ! a = (es, c)" by fastforce
  have kl: "k < length (ptrs st mb)" using i(1) by (simp add: stub_box_ptrs)
  then have kn: "k \<le> n" using length_ptrs [OF inv, of mb] s by simp
  have same: "box_slice st' = box_slice ?st" "arrays st' = arrays ?st" "ptrs st' = ptrs ?st" "stubs st' = stubs ?st"
    by (simp_all add: st' fun_eq_iff box_slice_def ptrs_def elems_def)
  note f = set_box_frame [OF d(1) s kn, where grow = grow and ys = "drop (Suc k) (ptrs st mb)"]
  show stubs: "stubs st' = stubs st" using set_box_fields(1) [OF ec] same(4) by simp
  show p: "ptrs st' = (ptrs st)(mb := take k (ptrs st mb) @ drop (Suc k) (ptrs st mb))" using f(2) same(3) by simp
  have sub: "set (take k (ptrs st mb) @ drop (Suc k) (ptrs st mb)) \<subseteq> set (ptrs st mb)"
    using set_take_subset set_drop_subset by fastforce
  have dist: "distinct (take k (ptrs st mb) @ drop (Suc k) (ptrs st mb))"
    using d(2) [of mb] set_take_disj_set_drop_if_distinct [of "ptrs st mb" k "Suc k"] by simp
  have "stub_box st' = (stub_box st)(mb := without_first i (stub_box st mb))"
    unfolding i(3) by (simp add: fun_eq_iff stub_box_ptrs p stubs take_map drop_map)
  moreover have "stub_inv st'"
    unfolding stub_inv_def p stubs using f(1) same(1,2) sub dist d(2-4)
    by (simp del: set_append distinct_append) blast
  ultimately show "stub_inv st' \<and> stub_box st' = (stub_box st)(mb := without_first i (stub_box st mb))" by simp
qed

lemma purge_refines:
  assumes inv: "stub_inv st" and st': "st' = stub_PurgeMessages mb st"
  shows "stub_inv st' \<and> stub_box st' = (stub_box st)(mb := [])
    \<and> stub_deleted st' = (\<lambda>m. fst (fst m)) ` set (stub_box st mb) \<union> stub_deleted st"
proof -
  note d = stub_invD [OF inv]
  have B: "box_slice st' = (box_slice st)(mb := (0, 0))" "arrays st' = arrays st" "stubs st' = stubs st"
    by (simp_all add: st' stub_PurgeMessages_def fun_eq_iff box_slice_def)
  have p: "ptrs st' = (ptrs st)(mb := [])" by (simp add: fun_eq_iff ptrs_def elems_def B)
  have "foldl (\<lambda>d p. insert (g p) d) D ps = g ` set ps \<union> D" for g :: "nat \<Rightarrow> nat" and D ps
    by (induction ps arbitrary: D) auto
  then have "stub_deleted st' = (\<lambda>m. fst (fst m)) ` set (stub_box st mb) \<union> stub_deleted st"
    by (simp add: st' stub_PurgeMessages_def stub_box_def image_image)
  moreover have "slices_ok (arrays st') (box_slice st')"
    using d(1) unfolding B slices_ok_def by auto
  then have "stub_inv st'"
    using d(2-4) unfolding stub_inv_def p B(3) by simp
  moreover have "stub_box st' = (stub_box st)(mb := [])" by (simp add: fun_eq_iff stub_box_ptrs p B)
  ultimately show ?thesis by simp
qed

lemma get_refines:
  assumes inv: "stub_inv st" and e: "stub_exec grow (SGet mb i) st = (r, st')"
  shows "stub_inv st' \<and> lists_exec (SGet mb i) (stub_box st, stub_deleted st) = (r, stub_box st', stub_deleted st')"
proof -
  have "st' = st" using e by simp
  moreover have "lists_exec (SGet mb i) (stub_box st, stub_deleted st) = (r, stub_box st, stub_deleted st)"
  proof (cases "id_index i (stub_box st mb)")
    case None
    then show ?thesis using e id_index_None [of i "stub_box st mb"]
      by (auto simp: stub_GetMessage_def stub_find_ptrs)
  next
    case (Some k)
    then show ?thesis using e id_index_Some(1,2) [OF Some]
      by (auto simp: stub_GetMessage_def stub_find_ptrs) (simp_all add: stub_box_def)
  qed
  ultimately show ?thesis using inv by simp
qed

lemma exec_seen_refines:
  assumes inv: "stub_inv st" and e: "stub_exec grow (SSeen mb i) st = (r, st')"
  shows "stub_inv st' \<and> lists_exec (SSeen mb i) (stub_box st, stub_deleted st) = (r, stub_box st', stub_deleted st')"
proof -
  show ?thesis
  proof (cases "mb = ''messageerr'' \<or> id_index i (stub_box st mb) = None")
    case True
    then show ?thesis using e inv id_index_None [of i "stub_box st mb"]
      by (auto simp: stub_MarkSeen_def stub_find_ptrs of_error_def)
  next
    case False
    then obtain k where k: "id_index i (stub_box st mb) = Some k" and mb: "mb \<noteq> ''messageerr''" by blast
    have "st' = st\<lparr>stubs := (stubs st)[ptrs st mb ! k := (fst (stubs st ! (ptrs st mb ! k)), True)]\<rparr>" and r: "r = RNil"
      using e k mb by (auto simp: stub_MarkSeen_def stub_find_ptrs of_error_def ptrs_def Let_def)
    from seen_refines [OF inv k this(1)] this(1) show ?thesis using id_index_Some(2) [OF k] mb r by simp
  qed
qed

lemma exec_remove_refines:
  assumes inv: "stub_inv st" and e: "stub_exec grow (SRemove mb i) st = (r, st')"
  shows "stub_inv st' \<and> lists_exec (SRemove mb i) (stub_box st, stub_deleted st) = (r, stub_box st', stub_deleted st')"
proof -
  obtain a n where s: "box_slice st mb = (a, n)" by fastforce
  show ?thesis
  proof (cases "id_index i (stub_box st mb)")
    case None
    then show ?thesis using e inv id_index_None [of i "stub_box st mb"]
      by (auto simp: stub_RemoveMessage_def stub_find_ptrs of_error_def)
  next
    case (Some k)
    obtain es c where ec: "arrays st ! a = (es, c)" by fastforce
    have st': "st' = (set_box grow mb (a, k) (drop (Suc k) (ptrs st mb)) st)
        \<lparr>stub_deleted := insert (fst (fst (stubs st ! (ptrs st mb ! k)))) (stub_deleted st)\<rparr>" and r: "r = RNil"
      using e Some s set_box_fields(1,2) [OF ec]
      by (auto simp: stub_RemoveMessage_def stub_find_ptrs of_error_def ptrs_def Let_def)
    have "stub_box st mb ! k = stubs st ! (ptrs st mb ! k)"
      using id_index_Some(1) [OF Some] by (simp add: stub_box_ptrs)
    with remove_refines(1) [OF inv s Some st'] show ?thesis
      using id_index_Some(2) [OF Some] r by (simp add: st')
  qed
qed

lemma stub_exec_refines:
  assumes inv: "stub_inv st" and e: "stub_exec grow c st = (r, st')"
  shows "stub_inv st' \<and> lists_exec c (stub_box st, stub_deleted st) = (r, stub_box st', stub_deleted st')"
proof (cases c)
  case (SAdd m)
  obtain i where "stub_AddMessage grow m st = (i, st')" "r = RId i"
    using e SAdd by (cases "stub_AddMessage grow m st") auto
  with add_refines [OF inv this(1)] show ?thesis by (simp add: SAdd)
next
  case (SGet mb i)
  show ?thesis unfolding SGet by (rule get_refines [OF inv e [unfolded SGet]])
next
  case (SList mb)
  then show ?thesis using e inv by (auto simp: stub_GetMessages_def stub_box_def)
next
  case (SSeen mb i)
  show ?thesis unfolding SSeen by (rule exec_seen_refines [OF inv e [unfolded SSeen]])
next
  case (SRemove mb i)
  show ?thesis unfolding SRemove by (rule exec_remove_refines [OF inv e [unfolded SRemove]])
next
  case (SPurge mb)
  then show ?thesis using e purge_refines [OF inv, of st' mb] by simp
qed

lemma stub_execs_refine:
  "stub_inv st \<Longrightarrow> stub_execs grow cs st = (rs, st') \<Longrightarrow>
    stub_inv st' \<and> lists_execs cs (stub_box st, stub_deleted st) = (rs, stub_box st', stub_deleted st')"
proof (induction cs arbitrary: st rs st')
  case (Cons c cs)
  obtain r st1 where c: "stub_exec grow c st = (r, st1)" by fastforce
  obtain rs1 st2 where cs: "stub_execs grow cs st1 = (rs1, st2)" by fastforce
  note one = stub_exec_refines [OF Cons.prems(1) c]
  with Cons.IH [OF _ cs] Cons.prems(2) c cs show ?case by simp
qed simp

lemma stub_inv_new: "stub_inv NewStore" "stub_box NewStore = (\<lambda>mb. [])" "stub_deleted NewStore = {}"
proof -
  have b: "box_slice NewStore = (\<lambda>mb. (0, 0))" "arrays NewStore = [([], 0)]" "stubs NewStore = []"
    by (simp_all add: NewStore_def box_slice_def fun_eq_iff)
  then show "stub_box NewStore = (\<lambda>mb. [])" "stub_inv NewStore"
    by (simp_all add: stub_box_def stub_inv_def slices_ok_def ptrs_def elems_def fun_eq_iff)
  show "stub_deleted NewStore = {}" by (simp add: NewStore_def)
qed

text \<open>
  Whatever the growth of its arrays, the store stub behaves as one list of messages per mailbox and a set of deleted
  messages: in every sequence of calls each call has the result that the lists give it, errors included, and the
  mailboxes hold what the lists hold. The arrays and the wrapped messages that the mailboxes reach stay apart.
\<close>
theorem stub_refines_lists:
  "(case stub_execs grow cs NewStore of (rs, st) \<Rightarrow> (rs, stub_box st, stub_deleted st)) = lists_execs cs (\<lambda>mb. [], {})"
proof -
  obtain rs st where e: "stub_execs grow cs NewStore = (rs, st)" by fastforce
  from stub_execs_refine [OF stub_inv_new(1) e] e show ?thesis by (simp add: stub_inv_new(2,3))
qed

subsection \<open>A scan over the stub\<close>

text \<open>
  The slice that the scan goes through is changed under it: with three expired messages in a row, the first
  removal puts the third in the place of the second, which the scan then never meets.
\<close>

lemma box_slice_simp: "box_slice (st\<lparr>stub_deleted := del\<rparr>) = box_slice st"
  by (simp add: box_slice_def fun_eq_iff)

lemma remove_in_place:
  assumes inv: "stub_inv st" and s: "box_slice st mb = (a, n)" and ec: "arrays st ! a = (es, c)"
    and k: "id_index i (stub_box st mb) = Some k"
  obtains st' where "stub_RemoveMessage grow mb i st = (None, st')" and "stub_inv st'" and "stubs st' = stubs st"
    and "box_slice st' mb = (a, n - 1)" and "arrays st' ! a = (take k es @ drop (Suc k) (take n es) @ drop (n - 1) es, c)"
    and "stub_box st' mb = without_first i (stub_box st mb)"
    and "stub_deleted st' = insert (fst (fst (stub_box st mb ! k))) (stub_deleted st)"
proof -
  note d = slices_okD [OF stub_invD(1) [OF inv]]
  have a: "a < length (arrays st)" and n: "n \<le> length es" and c: "length es \<le> c"
    using d(3,4) [of mb] d(5) [of a] s ec by simp_all
  have p: "ptrs st mb = take n es" using s ec by (simp add: ptrs_def elems_def)
  have e: "elems st (a, n) = take n es" using ec by (simp add: elems_def)
  have kn: "k < n" using id_index_Some(1) [OF k] n by (simp add: stub_box_ptrs p)
  let ?ys = "drop (Suc k) (ptrs st mb)"
  have m: "k + length ?ys = n - 1" using kn n by (simp add: p)
  then have fits: "k + length ?ys \<le> c" using n c by simp
  let ?st = "set_box grow mb (a, k) ?ys st"
  let ?st' = "?st\<lparr>stub_deleted := insert (fst (fst (stub_box st mb ! k))) (stub_deleted st)\<rparr>"
  note f = set_box_fields [OF ec, where grow = grow and mb = mb and k = k and ys = ?ys]
  note r = remove_refines [OF inv s k refl, where grow = grow and del = "insert (fst (fst (stub_box st mb ! k))) (stub_deleted st)"]
  show ?thesis
  proof (rule that)
    show "stub_RemoveMessage grow mb i st = (None, ?st')"
      using k s f(1,2) kn n e by (simp add: stub_RemoveMessage_def stub_find_ptrs Let_def stub_box_ptrs p)
    show "stub_inv ?st'" "stubs ?st' = stubs st" "stub_box ?st' mb = without_first i (stub_box st mb)"
      using r(1,2) by simp_all
    show "box_slice ?st' mb = (a, n - 1)" using f(4) [OF fits] m by (simp add: box_slice_simp)
    show "arrays ?st' ! a = (take k es @ drop (Suc k) (take n es) @ drop (n - 1) es, c)"
      using f(3) [OF fits] m a p by simp
  qed simp
qed

text \<open>
  C31: a retention scan over the store stub does not delete what it should: of three expired messages of a mailbox it
  deletes the first and the last, and the one between them stays. The slice that the scan goes through is changed under
  it, since \<open>RemoveMessage\<close> moves the messages in the array that \<open>VisitMailboxes\<close> has handed out.
\<close>
theorem stub_scan_skips:
  assumes st: "stub_execs grow cs NewStore = (rs, st)" and box: "stub_box st mb = [x, y, z]"
    and ids: "distinct [sID (snd (fst x)), sID (snd (fst y)), sID (snd (fst z))]"
    and old: "\<forall>m\<in>{x, y, z}. sMailbox (snd (fst m)) = mb \<and> sDate (snd (fst m)) < now - period"
    and scan: "stub_DoScan grow [mb] now period [] st = (st', sc)"
  shows "stub_box st' mb = [y] \<and> stub_deleted st' = {fst (fst x), fst (fst z)} \<union> stub_deleted st \<and> deletesTotal sc = 2"
proof -
  have inv: "stub_inv st" using stub_execs_refine [OF stub_inv_new(1) st] by simp
  obtain a n where s: "box_slice st mb = (a, n)" by fastforce
  obtain es c where ec: "arrays st ! a = (es, c)" by fastforce
  have l: "length (ptrs st mb) = 3" using box by (metis length_map list.size(3,4) One_nat_def numeral_3_eq_3 stub_box_ptrs Suc_eq_plus1)
  then have n: "n = 3" using length_ptrs [OF inv, of mb] s by simp
  then have "3 \<le> length es" using slices_okD(4) [OF stub_invD(1) [OF inv], of mb] s ec by simp
  then obtain p q r rest where es: "es = p # q # r # rest"
    by (auto simp: numeral_3_eq_3 Suc_le_length_iff)
  have "ptrs st mb = [p, q, r]" using s n ec es by (simp add: ptrs_def elems_def)
  then have at: "stubs st ! p = x" "stubs st ! q = y" "stubs st ! r = z" using box by (simp_all add: stub_box_ptrs)
  have i0: "id_index (sID (snd (fst x))) (stub_box st mb) = Some 0" by (simp add: box)
  obtain st1 where r1: "stub_RemoveMessage grow mb (sID (snd (fst x))) st = (None, st1)" "stub_inv st1" "stubs st1 = stubs st"
      "box_slice st1 mb = (a, 2)" "arrays st1 ! a = (q # r # r # rest, c)" "stub_box st1 mb = [y, z]"
      "stub_deleted st1 = insert (fst (fst x)) (stub_deleted st)"
    by (rule remove_in_place [OF inv s ec i0, of grow thesis]) (simp_all add: box n es)
  have i1: "id_index (sID (snd (fst z))) (stub_box st1 mb) = Some 1" using ids r1(6) by simp
  obtain st2 where r2: "stub_RemoveMessage grow mb (sID (snd (fst z))) st1 = (None, st2)" "stub_inv st2" "stubs st2 = stubs st1"
      "arrays st2 ! a = (q # r # r # rest, c)" "stub_box st2 mb = [y]"
      "stub_deleted st2 = insert (fst (fst z)) (stub_deleted st1)"
    by (rule remove_in_place [OF r1(2,4,5) i1, of grow thesis]) (use ids r1(6) in simp_all)
  have r3: "stub_RemoveMessage grow mb (sID (snd (fst z))) st2 = (Some StubNotExist, st2)"
    using ids r2(5) by (simp add: stub_RemoveMessage_def stub_find_ptrs)
  have "[0..<3] = [0, 1, 2::nat]" by (simp add: numeral_3_eq_3 upt_conv_Cons)
  then have "st' = st2 \<and> deletesTotal sc = 2"
    using scan old s n ec es at r1(1,3,5) r2(1,3,4) r3
    by (auto simp: stub_DoScan_def slice_scan_box_def stub_message_def)
  then show ?thesis
    using r1(7) r2(5,6) by auto
qed

definition old_message :: "nat \<Rightarrow> string \<Rightarrow> client_message" where
  "old_message ref i = (ref, \<lparr>sMailbox = ''mb1'', sID = i, sFrom = None, sTo = [], sDate = 0, sSubject = [], sSource = None,
     sSize = 0, sSeen = False\<rparr>)"

theorem stub_scan_skips_witness:
  "stub_box (fst (stub_DoScan (\<lambda>n. n) [''mb1''] 100 10 [] (snd (stub_execs (\<lambda>n. n)
      [SAdd (old_message 1 ''a''), SAdd (old_message 2 ''b''), SAdd (old_message 3 ''c'')] NewStore)))) ''mb1''
    = [(old_message 2 ''b'', False)]"
proof -
  let ?cs = "[SAdd (old_message 1 ''a''), SAdd (old_message 2 ''b''), SAdd (old_message 3 ''c'')]"
  let ?st = "snd (stub_execs (\<lambda>n. n) ?cs NewStore)"
  have st: "stub_execs (\<lambda>n. n) ?cs NewStore = (fst (stub_execs (\<lambda>n. n) ?cs NewStore), ?st)" by simp
  have "stub_box ?st = fst (snd (lists_execs ?cs (\<lambda>mb. [], {})))"
    using stub_execs_refine [OF stub_inv_new(1) st] by (simp add: stub_inv_new(2,3))
  then have box: "stub_box ?st ''mb1'' = [(old_message 1 ''a'', False), (old_message 2 ''b'', False), (old_message 3 ''c'', False)]"
    by (simp add: old_message_def)
  obtain st' sc where "stub_DoScan (\<lambda>n. n) [''mb1''] 100 10 [] ?st = (st', sc)" by fastforce
  from stub_scan_skips [OF st box _ _ this] this show ?thesis by (simp add: old_message_def)
qed

subsection \<open>The stub of the manager\<close>

text \<open>
  The messages belong to the clients and are shared with them: they are in a heap, and a mailbox holds
  their addresses. Its slices are never handed out, so a list is enough.
\<close>

record 'env ManagerStub =
  mgr_messages :: "nat \<Rightarrow> MessageMetadata \<times> 'env"
  mgr_boxes :: "string \<Rightarrow> nat list"

definition NewManager :: "(nat \<Rightarrow> MessageMetadata \<times> 'env) \<Rightarrow> 'env ManagerStub" where
  [go_eval]: "NewManager heap = \<lparr>mgr_messages = heap, mgr_boxes = (\<lambda>mb. [])\<rparr>"

definition mgr_AddMessage :: "string \<Rightarrow> nat \<Rightarrow> 'env ManagerStub \<Rightarrow> 'env ManagerStub" where
  [go_eval]: "mgr_AddMessage mailbox msg m = m\<lparr>mgr_boxes := (mgr_boxes m)(mailbox := mgr_boxes m mailbox @ [msg])\<rparr>"

definition mgr_find :: "'env ManagerStub \<Rightarrow> string \<Rightarrow> string \<Rightarrow> nat option" where
  [go_eval]: "mgr_find m mailbox i = List.find (\<lambda>p. mdID (fst (mgr_messages m p)) = i) (mgr_boxes m mailbox)"

definition mgr_GetMessage :: "string \<Rightarrow> string \<Rightarrow> 'env ManagerStub \<Rightarrow> (stub_error, nat) result" where
  [go_eval]: "mgr_GetMessage mailbox i m =
     (if mailbox = ''messageerr'' then Err InternalError
      else case mgr_find m mailbox i of None \<Rightarrow> Err StubNotExist | Some msg \<Rightarrow> Ok msg)"

definition mgr_GetMetadata :: "string \<Rightarrow> 'env ManagerStub \<Rightarrow> (stub_error, MessageMetadata list) result" where
  [go_eval]: "mgr_GetMetadata mailbox m =
     (if mailbox = ''messageserr'' then Err InternalError
      else Ok (map (\<lambda>p. fst (mgr_messages m p)) (mgr_boxes m mailbox)))"

definition mgr_MarkSeen :: "string \<Rightarrow> string \<Rightarrow> 'env ManagerStub \<Rightarrow> stub_error option \<times> 'env ManagerStub" where
  [go_eval]: "mgr_MarkSeen mailbox i m =
     (if mailbox = ''messageerr'' then (Some InternalError, m)
      else case mgr_find m mailbox i of
        None \<Rightarrow> (Some StubNotExist, m)
      | Some p \<Rightarrow>
          (None, m\<lparr>mgr_messages := (mgr_messages m)
             (p := ((fst (mgr_messages m p))\<lparr>mdSeen := True\<rparr>, snd (mgr_messages m p)))\<rparr>))"

text \<open>The configuration of the stub's policy has the full naming, and zero values for the rest.\<close>

definition zero_root :: Root where
  [go_eval]: "zero_root = \<lparr>LogLevel = [], Lua = \<lparr>lua_Path = []\<rparr>, MailboxNaming = UnknownNaming,
     SMTP = \<lparr>smtp_Addr = [], smtp_Domain = [], MaxRecipients = 0, MaxMessageBytes = 0, DefaultAccept = False,
       AcceptDomains = [], RejectDomains = [], DefaultStore = False, StoreDomains = [], DiscardDomains = [],
       RejectOriginDomains = [], smtp_Timeout = 0, smtp_TLSEnabled = False, smtp_TLSPrivKey = [],
       smtp_TLSCert = [], smtp_Debug = False, smtp_ForceTLS = False\<rparr>,
     POP3 = \<lparr>pop3_Addr = [], pop3_Domain = [], pop3_Timeout = 0, pop3_Debug = False, pop3_TLSEnabled = False,
       pop3_TLSPrivKey = [], pop3_TLSCert = [], pop3_ForceTLS = False\<rparr>,
     Web = \<lparr>web_Addr = [], BasePath = [], UIDir = [], GreetingFile = [], MonitorVisible = False, MonitorHistory = 0,
       PProf = False\<rparr>,
     Storage = \<lparr>Type = [], Params = [], RetentionPeriod = 0, RetentionSleep = 0, MailboxMsgCap = 0\<rparr>\<rparr>"

definition mgr_MailboxForAddress :: "string \<Rightarrow> (addr_error, string) result" where
  [go_eval]: "mgr_MailboxForAddress address = ExtractMailbox \<lparr>aConfig = zero_root\<lparr>MailboxNaming := FullNaming\<rparr>\<rparr> address"

text \<open>A message is seen in every mailbox that it was added to, and the others are as before.\<close>

lemma mgr_seen_everywhere:
  assumes "mgr_MarkSeen mb i m = (None, m')"
  obtains p where "mgr_GetMessage mb i m = Ok p" and "mgr_boxes m' = mgr_boxes m"
    and "\<And>q. mdSeen (fst (mgr_messages m' q)) = (q = p \<or> mdSeen (fst (mgr_messages m q)))"
  using assms by (auto simp: mgr_MarkSeen_def mgr_GetMessage_def split: if_splits option.splits)

end
