(* ===== verification/Spec2Isabelle.thy ===== *)
theory Spec2Isabelle
  imports PolicyProps Retention MsgHub MailFlow FileFaults WebProps MonitorProps Listener ClientProps LuaProps EnforcerRace EventOrder WebServerProps Daemon
    FileVisit MboxCommand Metrics TestSuiteProps TestStubs
begin

text \<open>
  Inbucket, a mail server for testing: it accepts mail over SMTP for any address its policy lets
  through, keeps it in a store of mailboxes without accounts, and shows it over POP3, a web
  interface and a REST API. This development models its core as functions and step relations over
  explicit states, and proves what the parts promise and what they do together.

  \<^bold>\<open>How the parts interact.\<close> \<open>smtp.Server\<close> runs one session per connection
  (\<open>pkg/server/smtp/handler.go\<close>). A session asks the policy (\<open>pkg/policy\<close>) whether to accept the
  sender and each recipient, after the extensions have had their say (\<open>pkg/extension\<close>), and hands
  the data to the manager (\<open>pkg/message/manager.go\<close>), which adds a copy to the store
  (\<open>pkg/storage/mem\<close> or \<open>pkg/storage/file\<close>) for every mailbox and emits an event. The hub
  (\<open>pkg/msghub\<close>) turns these events into a history and feeds it to its listeners. POP3 sessions
  (\<open>pkg/server/pop3/handler.go\<close>) read and delete directly in the store; the retention scanner
  (\<open>pkg/storage/retention.go\<close>) deletes what is too old.

  \<^bold>\<open>The theories.\<close>
  \<^item> \<open>Prelude\<close>, \<open>GoStrings\<close>, \<open>TextProto\<close>, \<open>Regex\<close>, \<open>IpAddr\<close>, \<open>FileSys\<close>: what the code uses of Go's
    standard library (\<open>strings\<close>, \<open>strconv\<close>, \<open>hex\<close>, \<open>bufio\<close>, \<open>net/textproto\<close>, \<open>regexp\<close>, \<open>net\<close>, \<open>os\<close>), as
    strings of bytes, lists of what a connection's reads yield, and a tree of files.
  \<^item> \<open>StringUtil\<close>, \<open>Config\<close>: \<open>pkg/stringutil/utils.go\<close> and \<open>pkg/config/config.go\<close>.
  \<^item> \<open>Policy\<close>, \<open>PolicyProps\<close>: the address parser, the naming of mailboxes, and the decisions of
    \<open>pkg/policy\<close>; the parser and the domain validator against their grammars.
  \<^item> \<open>Events\<close>: the events and both brokers of \<open>pkg/extension\<close>, under one locale
    (\<open>listener_registry\<close>) for a registry of named listeners.
  \<^item> \<open>Storage\<close>, \<open>StoreSpec\<close>: the interface of \<open>pkg/storage/storage.go\<close> as a record of operations, its
    contract as the locales \<open>message_store\<close> and \<open>capped_store\<close>, and the abstract specification
    (mailboxes as message lists, messages named by position) that every capped store refines.
  \<^item> \<open>MemStore\<close>, \<open>MemStoreProps\<close>, \<open>MemContract\<close>, \<open>MemReach\<close>, \<open>MemProps\<close>: \<open>pkg/storage/mem\<close> with the
    size enforcer of \<open>maxsize.go\<close>; its invariant, both contracts, and the reachable states.
  \<^item> \<open>EnforcerRace\<close>: the same store and enforcer under the steps of several goroutines.
  \<^item> \<open>FileStore\<close>, \<open>FileProps\<close>, \<open>FileContract\<close>, \<open>FileReach\<close>, \<open>FileFaults\<close>: \<open>pkg/storage/file\<close> over the file
    tree; its invariant while no call fails, the same contracts, agreement with the memory store,
    restarts, and what a failing write leaves.
  \<^item> \<open>FileLayout\<close>: the directories of the file store: each has a reason to be there and every mailbox can be reached from
    the top, after every operation. \<open>FileVisit\<close>: so the walk of \<open>VisitMailboxes\<close> meets every mailbox that has mail, once, and the
    scanner works on the file store as on the other, between any operations and over a restart.
  \<^item> \<open>Retention\<close>: the scanner, over any store (\<open>scanned_store\<close>), and operations with scans between them (\<open>kept_store\<close>).
    \<open>Manager\<close>: the store manager, over any store.
  \<^item> \<open>MsgHub\<close>: the hub as the sequence of operations that it takes from its channel. \<open>EventOrder\<close>: how these come
    about: a memory store, the goroutines of its events, the channel and the hub, in every order of their steps; the
    history against the store.
  \<^item> \<open>Smtp\<close>, \<open>SmtpLoop\<close>, \<open>SmtpProps\<close>, \<open>SmtpSession\<close> and \<open>Pop3\<close>, \<open>Pop3Loop\<close>, \<open>Pop3Props\<close>: one session of
    each protocol as a state machine: a handler per state, one definition per command, the loop of
    \<open>startSession\<close>, the reachable states as an inductive relation, and the invariants.
  \<^item> \<open>MailFlow\<close> and this theory: mail on its whole way, from the SMTP client to the POP3 client,
    for every store that keeps the contract.
  \<^item> \<open>Listener\<close>: starting, accepting, failing and draining of the SMTP and POP3 servers, as a relation over
    the steps of their goroutines; one locale (\<open>session_server\<close>) for both.
  \<^item> \<open>Web\<close>, \<open>Rest\<close>, \<open>WebUI\<close>, \<open>WebProps\<close>: the handlers of the REST API and of the web interface over the
    store manager, with text rendered as HTML; \<open>Sanitize\<close>: the filter of styles in HTML messages.
  \<^item> \<open>Monitor\<close>, \<open>MonitorProps\<close>: the web sockets that show the hub's events, as a relation over the steps of the
    hub, the reader and the writer of a socket; one locale (\<open>socket_kind\<close>) for both versions.
  \<^item> \<open>Client\<close>, \<open>Routes\<close>, \<open>Commands\<close>, \<open>ClientProps\<close>: the REST client (\<open>pkg/rest/client\<close>), the routes of the server, and
    the commands of \<open>cmd/client\<close>; the client over the server of this program. \<open>MboxCommand\<close>: the handles of the client, and a
    command on its whole way to the store.
  \<^item> \<open>WebServer\<close>, \<open>WebServerProps\<close>: \<open>pkg/server/web/server.go\<close> with the routes of the web interface: the whole table of
    routes under the base path, the pages of the root, the cookie; what a request is answered, and the links to attachments.
  \<^item> \<open>LuaTypes\<close>, \<open>LuaHost\<close>, \<open>LuaProps\<close>: the Lua host of \<open>pkg/extension/luahost\<close>: the bindings over a heap of Go
    objects, the pool of interpreter states under every order of its users, and the handlers.
  \<^item> \<open>Services\<close>, \<open>Assembly\<close>: \<open>pkg/server/lifecycle.go\<close> and the main loop of \<open>cmd/inbucket/main.go\<close>: the servers
    with their merged errors, the hub's channel and the shutdown, as a relation over the steps of all of them; how a program is put
    together from its configuration, with a store of either kind behind one interface; and the history
    of a metric. \<open>Daemon\<close>: what \<open>main\<close> does around them: flags, the log with its buffer, the pid file, the exit status. \<open>Metrics\<close>: the goroutine
    that samples the totals every minute, for the histories that the charts show.
  \<^item> \<open>TestListener\<close>, \<open>TestSuite\<close>, \<open>TestSuiteProps\<close>, \<open>TestStubs\<close>: \<open>pkg/test\<close> and the listener for tests of \<open>pkg/extension\<close>. The
    conformance suite of the stores is modelled as programs over the method table; both stores pass it, by one contract
    (\<open>suite_store\<close>). The stubs live in a heap of arrays and messages, where a caller sees what is done to its slices.

  \<^bold>\<open>How code becomes definitions.\<close> A struct is a record with its fields, a method a function from
  the old state to its result and the new one; errors and panics are values (\<open>Err\<close>, \<open>Panic\<close>, the
  \<open>crashed\<close> fields of sessions). Definitions keep the names of the source, with a prefix
  (\<open>mem_\<close>, \<open>file_\<close>, \<open>pop_\<close>, \<open>hub_\<close>) where two files use the same one. What a session writes is the
  list of its lines, and each write can fail by a list of outcomes; what it reads is a list of
  bytes and errors, so that every schedule of a network is some input. Clock readings and the
  answers of contexts are inputs as well.

  \<^bold>\<open>Loops.\<close> Session loops recurse on a measure of the unread input and are total
  (\<open>smtp_session_ends\<close>, \<open>pop_session_ends\<close>). The three loops with a bound (the evictions of the mailbox
  caps and of the size enforcer) are given the number of messages, which is enough: each step
  removes one (\<open>evict_loop_enough\<close> for the file store, the invariants of \<open>MemStoreProps\<close> for the other).

  \<^bold>\<open>Parameters and idealisations.\<close> The \<open>enmime\<close> parser is the record \<open>Enmime\<close>, an argument of every
  definition that uses it. SHA-1 is a parameter of the file store; what rests on distinct mailbox
  directories assumes it injective, and what rests on distinct ids assumes that the clock gives one
  second to fewer than 10000 of them (\<open>env_ok\<close>). Letters are those of ASCII in the case mappings.
  Integers are unbounded except where the code converts or checks (\<open>ParseInt\<close>).

  \<^bold>\<open>Not modelled.\<close> Goroutines within a session, a store or the hub: each session, store operation and
  hub operation is one step, as the locks and channels make them; the listeners of the servers, the web sockets, the
  services, the size enforcer and the events on their way to the hub are modelled with every order of their steps. TLS handshakes (a new input takes the place of the old), timeouts
  other than as read errors, and the text of log messages. Of \<open>pkg/test\<close> what belongs to the Lua interpreter (\<open>lua.go\<close>) is left out. Third-party code is a parameter: the \<open>enmime\<close> parser
  and the envelope it makes (\<open>Enmime\<close>, \<open>Envelope\<close>), the CSS and HTML tokenizers with \<open>bluemonday\<close>
  (\<open>Sanitizers\<close>), the pattern for URLs (\<open>urls\<close>), MD5 and SHA-1, the URL parser, the
  router with its matching of paths against route templates (\<open>mux_documented\<close>, \<open>mux_sources\<close> and \<open>router_documented\<close> say what is
  used of it), and the Lua interpreter with the compiled script (\<open>script\<close>,
  \<open>lua_api\<close>). A listener of the Lua host is taken in the state of the host when the program starts. The content of
  static files, of the page of the application and of the debug pages is not modelled.
\<close>

subsection \<open>Mail on its way\<close>

text \<open>
  C1: mail that an SMTP client sends to a recipient the policy accepts and stores can be read by
  a POP3 client of the recipient's mailbox: after the whole SMTP session (greeting, HELO, MAIL,
  RCPT, DATA, the dot-stuffed lines, QUIT) over a memory store without limits, a POP3 session that
  loads the mailbox has the message last, and what its client decodes from the reply to RETR is
  the return path, the two trace lines and exactly the lines that were sent (but for a CR at the
  end of a line).
\<close>
theorem smtp_mail_reaches_pop3:
  assumes st: "mem_New cap None = Some s0" "cap \<le> 0" "mem_run s0 st" "mgStore (manager sv) = mem_ops"
      "DecodeHeaders (enmime sv) (unlines ls) = Some header"
    and h: "h \<noteq> []" "set h \<inter> {CHR '' '', CR, LF} = {}"
    and a: "plain_path a" "LF \<notin> set a" "ParseOrigin (addrPolicy sv) a = Ok org" "Origin_ShouldAccept org"
    and b: "LF \<notin> set b" "b \<noteq> []" "hd b \<notin> set ''<> ''" "last b \<notin> set ''<> ''"
      "NewRecipient (addrPolicy sv) b = Ok r" "Recipient_ShouldAccept r" "0 < MaxRecipients (config sv)"
      "Recipient_ShouldStore r"
    and ext: "\<And>ev. Emit (BeforeMailFromAccepted sv) ev = None" "\<And>ev. Emit (BeforeRcptToAccepted sv) ev = None"
      "\<And>ev. Emit (BeforeMessageStored (manager sv)) ev = None"
    and ls: "\<forall>l\<in>set ls. LF \<notin> set l \<and> length l < MaxScanTokenSize"
    and tr: "clock sv 5 = (now, tstamp)"
      "\<forall>l\<in>set (trace_lines a h host (smtp_Domain (config sv)) (rMailbox r) tstamp). LF \<notin> set l \<and> Suc (length l) < MaxScanTokenSize"
    and pop: "pop_store psv = mem_ops" "pop_writes q = []" "pop_user q = rMailbox r"
      "pop_world q = store (startSession sv host (mail_session h a b ls) tls [] st)"
      "p = loadMailbox psv q" "int (length (messages p)) < 2 ^ 31"
  shows "\<exists>data. pop_sent (pop_RETR [Utoa (length (messages p))] p)
      = pop_sent q @ [''+OK '' @ Itoa (sSize (last (messages p))) @ '' bytes follows''] @ data
    \<and> ReadDotBytes (pop_client data @ rest)
      = (Ok (unlines (trace_lines a h host (smtp_Domain (config sv)) (rMailbox r) tstamp @ map drop_cr ls)), rest)"
proof -
  have nolf: "\<forall>l\<in>set ls. LF \<notin> set l" using ls by blast
  note del = capped.session_stores [OF mem_run_capped [OF st(1,3)] st(2,4,5) h a b ext nolf tr(1), of host tls, folded pop(4)]
  then have "mem_capped cap (pop_world q)" by blast
  from capped.pop_reads_last [OF this _ ls tr(2) pop(1,2,5,6)] del pop(3) show ?thesis by simp
qed

theorem smtp_mail_reaches_pop3_witness:
  "\<exists>(p :: mem_store PopSession) data. messages p \<noteq> []
    \<and> ReadDotBytes (pop_client data @ [])
      = (Ok (unlines (trace_lines ''s@x.y'' ''c'' ''9.9.9.9'' ''h'' ''joe'' ''t'' @ map drop_cr example_lines)), [])"
proof -
  let ?st = "the (mem_New 0 None)"
  let ?q = "(pop_NewSession (example_pop3 mem_ops) False [] [] [] [] (example_after mem_ops ?st))\<lparr>pop_user := ''joe''\<rparr>"
  let ?p = "loadMailbox (example_pop3 mem_ops) ?q"
  have c: "mem_capped 0 ?st" by (rule mem_run_capped [OF example_unlimited run_refl])
  have "mem_abs ?st ''joe'' = []" using mem_New_spec(3) [OF example_unlimited] by simp
  note one = capped.example_one [OF c order_refl this]
  have ps: "pop_store (example_pop3 mem_ops) = mem_ops" by (simp add: example_pop3_def)
  have q: "pop_writes ?q = []" "pop_user ?q = rMailbox example_receiver"
    "pop_world ?q = store (startSession (example_smtp mem_ops) ''9.9.9.9'' (mail_session ''c'' ''s@x.y'' ''joe@d.e'' example_lines) [] [] ?st)"
    by (simp_all add: pop_NewSession_def example_wire(5) example_after_def)
  have "messages ?p = mem_abs (example_after mem_ops ?st) ''joe''"
    using capped.loaded [OF ps, of 0 ?q] one(1) by (simp add: pop_NewSession_def)
  then have l: "length (messages ?p) = 1" using one(2) by simp
  then have "int (length (messages ?p)) < 2 ^ 31" by simp
  from smtp_mail_reaches_pop3 [OF example_unlimited order_refl run_refl example_session(1-19) example_wire(2,3,6) ps q refl this, of "[]"]
  show ?thesis using l unfolding example_wire(4,5) by (intro exI [of _ ?p]) auto
qed

text \<open>
  C2: mail is on the disk when the SMTP client is told so: after the same SMTP session over a file
  store (made empty, and then used in any way), the server is started again on the files that are
  there, and a POP3 session over the new store still reads the return path, the two trace lines and
  the lines that were sent. The clock has moved on in between.
\<close>
theorem smtp_mail_survives_restart:
  assumes disk: "env_ok sha1 clk" "file_New cfg no_files sha1 clk 0 = Ok f" "MailboxMsgCap cfg \<le> 0"
      "\<forall>c\<in>set cs. op_ok c" "st = fold (exec_op file_ops) cs f"
    and st: "mgStore (manager sv) = file_ops" "DecodeHeaders (enmime sv) (unlines ls) = Some header"
    and h: "h \<noteq> []" "set h \<inter> {CHR '' '', CR, LF} = {}"
    and a: "plain_path a" "LF \<notin> set a" "ParseOrigin (addrPolicy sv) a = Ok org" "Origin_ShouldAccept org"
    and b: "LF \<notin> set b" "b \<noteq> []" "hd b \<notin> set ''<> ''" "last b \<notin> set ''<> ''"
      "NewRecipient (addrPolicy sv) b = Ok r" "Recipient_ShouldAccept r" "0 < MaxRecipients (config sv)"
      "Recipient_ShouldStore r"
    and ext: "\<And>ev. Emit (BeforeMailFromAccepted sv) ev = None" "\<And>ev. Emit (BeforeRcptToAccepted sv) ev = None"
      "\<And>ev. Emit (BeforeMessageStored (manager sv)) ev = None"
    and ls: "\<forall>l\<in>set ls. LF \<notin> set l \<and> length l < MaxScanTokenSize"
    and tr: "clock sv 5 = (now, tstamp)"
      "\<forall>l\<in>set (trace_lines a h host (smtp_Domain (config sv)) (rMailbox r) tstamp). LF \<notin> set l \<and> Suc (length l) < MaxScanTokenSize"
    and restart: "env_ok sha1 clk'" "later_clock clk clk'"
      "file_New cfg (fs_world (store (startSession sv host (mail_session h a b ls) tls [] st))) sha1 clk' 0 = Ok f'"
    and pop: "pop_store psv = file_ops" "pop_writes q = []" "pop_user q = rMailbox r" "pop_world q = f'"
      "p = loadMailbox psv q" "int (length (messages p)) < 2 ^ 31"
  shows "\<exists>data. pop_sent (pop_RETR [Utoa (length (messages p))] p)
      = pop_sent q @ [''+OK '' @ Itoa (sSize (last (messages p))) @ '' bytes follows''] @ data
    \<and> ReadDotBytes (pop_client data @ rest)
      = (Ok (unlines (trace_lines a h host (smtp_Domain (config sv)) (rMailbox r) tstamp @ map drop_cr ls)), rest)"
proof -
  have nolf: "\<forall>l\<in>set ls. LF \<notin> set l" using ls by blast
  note new = file_New_fresh [OF disk(2,1)]
  have c: "file_capped (MailboxMsgCap cfg) (fs_mailPath f) sha1 (range (new_id clk)) st"
    using file_spec(1) [OF new(1) disk(4)] disk(5) by simp
  note del = disk.session_stores [OF c disk(3) st h a b ext nolf tr(1), of host tls]
  from file_New_config [OF disk(2)] obtain d where d: "map_of (Params cfg) ''path'' = Some d" "fs_mailPath f = getMailPath d"
    by auto
  note re = file_reopen [OF conjunct1 [OF del] restart(3,1) d restart(2), folded pop(4)]
  from disk.pop_reads_last [OF re(1) _ ls tr(2) pop(1,2,5,6)] del re(2) pop(3) show ?thesis by simp
qed

theorem smtp_mail_survives_restart_witness:
  "\<exists>(p :: fstore PopSession) data. messages p \<noteq> []
    \<and> ReadDotBytes (pop_client data @ [])
      = (Ok (unlines (trace_lines ''s@x.y'' ''c'' ''9.9.9.9'' ''h'' ''joe'' ''t'' @ map drop_cr example_lines)), [])"
proof -
  let ?w = "example_after file_ops example_disk1"
  have c: "file_capped 0 ''/d/mail'' (\<lambda>x. ''sha'' @ x) (range (new_id (example_clock ''a''))) example_disk1" by (rule example_disk1_ok(1))
  have "file_abs example_disk1 ''joe'' = []" by (rule example_disk1_ok(3)) simp
  note one = disk.example_one [OF c order_refl this]
  have d: "map_of (Params example_disk_config) ''path'' = Some ''/d''" "fs_mailPath ?w = getMailPath ''/d''" "''/d'' \<noteq> []"
    using one(1) by (simp_all add: example_disk_config_def getMailPath_def file_capped_def)
  obtain f' where f': "file_New example_disk_config (fs_world ?w) (\<lambda>x. ''sha'' @ x) (example_clock ''b'') 0 = Ok f'"
    using file_New_again [OF file_ok_base [OF file_cappedD [OF one(1)]] d] by blast
  have later: "later_clock (example_clock ''a'') (example_clock ''b'')" by (simp add: later_clock_def example_clock_def)
  let ?q = "(pop_NewSession (example_pop3 file_ops) False [] [] [] [] f')\<lparr>pop_user := ''joe''\<rparr>"
  let ?p = "loadMailbox (example_pop3 file_ops) ?q"
  have ps: "pop_store (example_pop3 file_ops) = file_ops" by (simp add: example_pop3_def)
  have q: "pop_writes ?q = []" "pop_user ?q = rMailbox example_receiver" "pop_world ?q = f'"
    by (simp_all add: pop_NewSession_def example_wire(5))
  have "''/d/mail'' = getMailPath ''/d''" by (simp add: getMailPath_def)
  note re = file_reopen [OF one(1) f' example_env d(1) this later]
  have "messages ?p = file_abs ?w ''joe''"
    using disk.loaded [OF ps, of _ _ _ _ ?q] re q(3) by (simp add: pop_NewSession_def)
  then have l: "length (messages ?p) = 1" using one(2) by simp
  then have n: "int (length (messages ?p)) < 2 ^ 31" by simp
  have ops: "\<forall>c\<in>set [CAdd example_mail]. op_ok c" "example_disk1 = fold (exec_op file_ops) [CAdd example_mail] example_disk"
    "MailboxMsgCap example_disk_config \<le> 0"
    by (simp_all add: example_mail_def example_disk1_def example_disk_config_def)
  from smtp_mail_survives_restart [OF example_env example_disk_New ops(3,1,2) example_session(1-19) example_wire(2,3,6) example_env later
      f' [unfolded example_after_def] ps q refl n, of "[]"]
  show ?thesis using l unfolding example_wire(4,5) by (intro exI [of _ ?p]) auto
qed

end
